(* ===== verification/BGP_Prelude.thy ===== *)
theory BGP_Prelude
  imports Main "HOL-Library.Word" "HOL-Library.Multiset"
begin

unbundle bit_operations_syntax

text \<open>
  Shared vocabulary of the development: the C integer types the daemon uses, the error values
  its functions return, the binary search of the C library, and the lemmas on words and
  lists that several components need.
\<close>

section \<open>Types\<close>

type_synonym u8 = "8 word"
type_synonym u16 = "16 word"
type_synonym u32 = "32 word"
type_synonym u64 = "64 word"
type_synonym bytes = "u8 list"

text \<open>
  Errors are values. The first group are the errno values set before a function returns -1 or
  NULL. OutOfBounds marks a read or write outside an object, which C leaves undefined; no path
  that is proved correct reaches it. Fatal stands for fatal(), fatalx(), abort() and a failed assert(), which end the process.
\<close>

datatype cerror = EINVAL | ERANGE | ENOMEM | EBADMSG | EOVERFLOW | OutOfBounds | Fatal

type_synonym 'a res = "cerror + 'a"

named_theorems bgp_defs \<open>definitions a component unfolds in its own proofs\<close>
named_theorems word_bits \<open>bit-level facts on machine words\<close>

section \<open>Sequencing of fallible steps\<close>

text \<open>An error value leaves the remaining steps of a function unexecuted.\<close>

primrec res_bind :: "'a res \<Rightarrow> ('a \<Rightarrow> 'b res) \<Rightarrow> 'b res" where
  "res_bind (Inl e) f = Inl e"
| "res_bind (Inr x) f = f x"

lemma res_bind_Inr_iff: "res_bind m f = Inr y \<longleftrightarrow> (\<exists>x. m = Inr x \<and> f x = Inr y)"
  by (cases m) auto

lemma res_bind_Inl_iff:
  "res_bind m f = Inl e \<longleftrightarrow> m = Inl e \<or> (\<exists>x. m = Inr x \<and> f x = Inl e)"
  by (cases m) auto

lemma res_bind_assoc: "res_bind (res_bind m f) g = res_bind m (\<lambda>x. res_bind (f x) g)"
  by (cases m) auto

section \<open>Bounds on machine words\<close>

lemma unat_u8_less [word_bits]: "unat (w :: u8) < 2 ^ 8"
  using unsigned_less[of w, where 'a = nat] by simp

lemma unat_u16_less [word_bits]: "unat (w :: u16) < 2 ^ 16"
  using unsigned_less[of w, where 'a = nat] by simp

lemma unat_u32_less [word_bits]: "unat (w :: u32) < 2 ^ 32"
  using unsigned_less[of w, where 'a = nat] by simp

lemma unat_u64_less [word_bits]: "unat (w :: u64) < 2 ^ 64"
  using unsigned_less[of w, where 'a = nat] by simp

lemma and_not_mask_eq [word_bits]: "x AND NOT (mask k) = push_bit k (drop_bit k (x :: 'a::len word))"
  by (rule bit_eqI) (auto simp: bit_simps)

lemma unat_and_not_mask [word_bits]:
  "unat ((x :: 'a::len word) AND NOT (mask k)) = unat x div 2 ^ k * 2 ^ k"
proof -
  have le: "unat x div 2 ^ k * 2 ^ k < 2 ^ LENGTH('a)"
    using unsigned_less[of x, where 'a = nat] by (rule le_less_trans[rotated]) simp
  have "unat (push_bit k (drop_bit k x)) = take_bit LENGTH('a) (push_bit k (drop_bit k (unat x)))"
    by (simp only: unsigned_push_bit_eq unat_drop_bit_eq)
  then show ?thesis
    using le by (simp only: and_not_mask_eq drop_bit_eq_div push_bit_eq_mult take_bit_nat_eq_self)
qed

lemma unat_mask [word_bits]: "k \<le> LENGTH('a) \<Longrightarrow> unat (mask k :: 'a::len word) = 2 ^ k - 1"
proof -
  assume "k \<le> LENGTH('a)"
  then have "int (unat (mask k :: 'a word)) = (mask k :: int)"
    by (simp add: uint_mask_eq)
  also have "\<dots> = 2 ^ k - 1" by (rule mask_eq_exp_minus_1)
  also have "\<dots> = int (2 ^ k - 1)" by (simp add: of_nat_diff)
  finally show ?thesis by (simp only: of_nat_eq_iff)
qed

lemma ucast_narrow_widen:
  "unat (a :: 'a::len word) < 2 ^ LENGTH('b) \<Longrightarrow> ucast (ucast a :: 'b::len word) = a"
proof -
  assume "unat a < 2 ^ LENGTH('b)"
  then have "take_bit LENGTH('b) (unat a) = unat a" by (rule take_bit_nat_eq_self)
  moreover have "take_bit LENGTH('a) (unat a) = unat a" by (rule take_bit_nat_eq_self) simp
  ultimately have "unat (ucast (ucast a :: 'b word) :: 'a word) = unat a"
    by (simp only: unsigned_ucast_eq unsigned_take_bit_eq ucast_id)
  then show ?thesis by (rule unsigned_word_eqI)
qed

section \<open>Binary search\<close>

text \<open>
  bsearch() of lib/libc/stdlib/bsearch.c on an array given as a list. The comparison argument is
  the caller's compar function already applied to the key, so its sign tells where the key
  lies relative to an element. The result is the index of the element found.
\<close>

function bsearch_loop :: "('a \<Rightarrow> int) \<Rightarrow> 'a list \<Rightarrow> nat \<Rightarrow> nat \<Rightarrow> nat option" where
  "bsearch_loop cmp xs base lim =
     (if lim = 0 then None
      else let p = base + lim div 2; c = cmp (xs ! p) in
        if c = 0 then Some p
        else if c > 0 then bsearch_loop cmp xs (p + 1) ((lim - 1) div 2)
        else bsearch_loop cmp xs base (lim div 2))"
  by pat_completeness auto
termination
  by (relation "measure (\<lambda>(cmp, xs, base, lim). lim)") auto

declare bsearch_loop.simps [simp del]

definition bsearch :: "('a \<Rightarrow> int) \<Rightarrow> 'a list \<Rightarrow> nat option" where
  "bsearch cmp xs = bsearch_loop cmp xs 0 (length xs)"

text \<open>
  The array is ordered for a key when the signs of the comparisons only decrease along it: first
  elements below the key, then equal ones, then elements above.
\<close>

definition bs_ordered :: "('a \<Rightarrow> int) \<Rightarrow> 'a list \<Rightarrow> bool" where
  "bs_ordered cmp xs = sorted_wrt (\<lambda>x y. sgn (cmp y) \<le> sgn (cmp x)) xs"

lemma bs_ordered_nth:
  "bs_ordered cmp xs \<Longrightarrow> i < j \<Longrightarrow> j < length xs \<Longrightarrow> sgn (cmp (xs ! j)) \<le> sgn (cmp (xs ! i))"
  unfolding bs_ordered_def by (rule sorted_wrt_nth_less)

lemma bsearch_loop_0 [simp]: "bsearch_loop cmp xs base 0 = None"
  by (simp add: bsearch_loop.simps)

lemma bsearch_loop_Some:
  "bsearch_loop cmp xs base lim = Some i \<Longrightarrow>
     base \<le> i \<and> i < base + lim \<and> cmp (xs ! i) = 0"
proof (induction cmp xs base lim rule: bsearch_loop.induct)
  case (1 cmp xs base lim)
  define p where "p = base + lim div 2"
  have nz: "lim \<noteq> 0"
    using "1.prems" by (cases lim) auto
  consider (eq) "cmp (xs ! p) = 0" | (gt) "cmp (xs ! p) > 0" | (lt) "cmp (xs ! p) < 0"
    by linarith
  then show ?case
  proof cases
    case eq
    then have "i = p"
      using "1.prems" nz by (simp add: bsearch_loop.simps[of cmp xs base lim] p_def Let_def)
    then show ?thesis using eq nz by (simp add: p_def)
  next
    case gt
    then have "bsearch_loop cmp xs (p + 1) ((lim - 1) div 2) = Some i"
      using "1.prems" nz by (simp add: bsearch_loop.simps[of cmp xs base lim] p_def Let_def)
    then have "p + 1 \<le> i \<and> i < p + 1 + (lim - 1) div 2 \<and> cmp (xs ! i) = 0"
      using "1.IH"(1)[OF nz p_def refl] gt by (simp add: p_def)
    then show ?thesis using nz unfolding p_def by linarith
  next
    case lt
    then have "bsearch_loop cmp xs base (lim div 2) = Some i"
      using "1.prems" nz by (simp add: bsearch_loop.simps[of cmp xs base lim] p_def Let_def)
    then have "base \<le> i \<and> i < base + lim div 2 \<and> cmp (xs ! i) = 0"
      using "1.IH"(2)[OF nz p_def refl] lt by (simp add: p_def)
    then show ?thesis by linarith
  qed
qed

lemma bsearch_loop_None:
  "bsearch_loop cmp xs base lim = None \<Longrightarrow> bs_ordered cmp xs \<Longrightarrow> base + lim \<le> length xs \<Longrightarrow>
     base \<le> i \<Longrightarrow> i < base + lim \<Longrightarrow> cmp (xs ! i) \<noteq> 0"
proof (induction cmp xs base lim rule: bsearch_loop.induct)
  case (1 cmp xs base lim)
  define p where "p = base + lim div 2"
  have nz: "lim \<noteq> 0" using "1.prems" by linarith
  have ord: "\<And>a b. a < b \<Longrightarrow> b < length xs \<Longrightarrow> sgn (cmp (xs ! b)) \<le> sgn (cmp (xs ! a))"
    using "1.prems"(2) by (rule bs_ordered_nth)
  have p: "p < length xs" using "1.prems"(3) nz by (simp add: p_def)
  have ne: "cmp (xs ! p) \<noteq> 0"
    using "1.prems"(1) nz by (auto simp: bsearch_loop.simps[of cmp xs base lim] p_def Let_def)
  show ?case
  proof (cases "cmp (xs ! p) > 0")
    case True
    then have rec: "bsearch_loop cmp xs (p + 1) ((lim - 1) div 2) = None"
      using "1.prems"(1) nz by (simp add: bsearch_loop.simps[of cmp xs base lim] p_def Let_def)
    have up: "cmp (xs ! i) \<noteq> 0" if "i < p"
      using ord[OF that p] True by (auto simp: sgn_if split: if_splits)
    have dn: "cmp (xs ! i) \<noteq> 0" if "p < i"
    proof (rule "1.IH"(1)[OF nz p_def refl ne True rec "1.prems"(2)])
      show "p + 1 + (lim - 1) div 2 \<le> length xs" using "1.prems"(3) nz unfolding p_def by linarith
      show "p + 1 \<le> i" using that by simp
      show "i < p + 1 + (lim - 1) div 2" using "1.prems"(5) nz unfolding p_def by linarith
    qed
    show ?thesis using up dn ne by (cases i p rule: linorder_cases) auto
  next
    case False
    then have rec: "bsearch_loop cmp xs base (lim div 2) = None"
      using "1.prems"(1) nz ne by (simp add: bsearch_loop.simps[of cmp xs base lim] p_def Let_def)
    have up: "cmp (xs ! i) \<noteq> 0" if "p < i"
      using ord[OF that] "1.prems"(3,5) False ne by (auto simp: sgn_if split: if_splits)
    have dn: "cmp (xs ! i) \<noteq> 0" if "i < p"
    proof (rule "1.IH"(2)[OF nz p_def refl ne False rec "1.prems"(2)])
      show "base + lim div 2 \<le> length xs" using "1.prems"(3) by linarith
      show "base \<le> i" by (rule "1.prems"(4))
      show "i < base + lim div 2" using that by (simp add: p_def)
    qed
    show ?thesis using up dn ne by (cases i p rule: linorder_cases) auto
  qed
qed

lemma bsearch_Some: "bsearch cmp xs = Some i \<Longrightarrow> i < length xs \<and> cmp (xs ! i) = 0"
  unfolding bsearch_def using bsearch_loop_Some by fastforce

lemma bsearch_None:
  assumes "bs_ordered cmp xs" and "bsearch cmp xs = None" and "x \<in> set xs"
  shows "cmp x \<noteq> 0"
proof -
  obtain i where "i < length xs" and "xs ! i = x"
    using assms(3) by (auto simp: in_set_conv_nth)
  then show ?thesis
    using bsearch_loop_None[of cmp xs 0 "length xs" i] assms(1,2) by (simp add: bsearch_def)
qed

lemma bsearch_found_iff:
  assumes "bs_ordered cmp xs"
  shows "bsearch cmp xs \<noteq> None \<longleftrightarrow> (\<exists>x\<in>set xs. cmp x = 0)"
  using bsearch_Some[of cmp xs] bsearch_None[OF assms] by (metis nth_mem option.exhaust)

section \<open>Big-endian encodings\<close>

primrec be_nat :: "nat \<Rightarrow> nat \<Rightarrow> bytes" where
  "be_nat 0 k = []"
| "be_nat (Suc n) k = be_nat n (k div 256) @ [of_nat k]"

definition nat_be :: "bytes \<Rightarrow> nat" where
  "nat_be bs = foldl (\<lambda>a b. 256 * a + unat b) 0 bs"

lemma length_be_nat [simp]: "length (be_nat n k) = n"
  by (induction n arbitrary: k) auto

lemma nat_be_Nil [simp]: "nat_be [] = 0"
  by (simp add: nat_be_def)

lemma nat_be_snoc [simp]: "nat_be (bs @ [b]) = 256 * nat_be bs + unat b"
  by (simp add: nat_be_def)

lemma unat_of_nat_u8 [simp]: "unat (of_nat k :: u8) = k mod 256"
  by (simp add: unat_of_nat take_bit_eq_mod)

lemma nat_be_be_nat: "nat_be (be_nat n k) = k mod 256 ^ n"
proof (induction n arbitrary: k)
  case 0
  then show ?case by simp
next
  case (Suc n)
  have "k mod (256 * 256 ^ n) = 256 * (k div 256 mod 256 ^ n) + k mod 256"
    by (rule mod_mult2_eq)
  then show ?case using Suc by simp
qed

lemma nat_be_less: "nat_be bs < 256 ^ length bs"
proof (induction bs rule: rev_induct)
  case Nil
  then show ?case by simp
next
  case (snoc b bs)
  then show ?case using unat_u8_less[of b] by simp
qed

lemma be_nat_nat_be: "be_nat (length bs) (nat_be bs) = bs"
proof (induction bs rule: rev_induct)
  case Nil
  then show ?case by simp
next
  case (snoc b bs)
  have b: "unat b < 256" using unat_u8_less[of b] by simp
  have "(256 * nat_be bs + unat b) div 256 = nat_be bs" using b by simp
  moreover have "(of_nat (256 * nat_be bs + unat b) :: u8) = b"
  proof (rule unsigned_word_eqI)
    show "unat (of_nat (256 * nat_be bs + unat b) :: u8) = unat b"
      using b by (simp only: unat_of_nat_u8) simp
  qed
  ultimately show ?case using snoc by simp
qed

definition be_word :: "nat \<Rightarrow> 'a::len word \<Rightarrow> bytes" where
  "be_word n w = be_nat n (unat w)"

definition word_be :: "bytes \<Rightarrow> 'a::len word" where
  "word_be bs = of_nat (nat_be bs)"

lemma length_be_word [simp]: "length (be_word n w) = n"
  by (simp add: be_word_def)

lemma word_be_be_word:
  "8 * n = LENGTH('a) \<Longrightarrow> word_be (be_word n (w :: 'a::len word)) = w"
proof -
  assume n: "8 * n = LENGTH('a)"
  have "unat w < 256 ^ n"
    using unsigned_less[of w, where 'a = nat] by (simp add: n[symmetric] power_mult)
  then show ?thesis by (simp add: word_be_def be_word_def nat_be_be_nat)
qed

lemma be_word_word_be:
  "8 * n = LENGTH('a) \<Longrightarrow> length bs = n \<Longrightarrow> be_word n (word_be bs :: 'a::len word) = bs"
proof -
  assume n: "8 * n = LENGTH('a)" and l: "length bs = n"
  have "nat_be bs < 2 ^ LENGTH('a)"
    using nat_be_less[of bs] by (simp add: n[symmetric] l power_mult)
  then have "unat (word_be bs :: 'a word) = nat_be bs"
    by (simp add: word_be_def unat_of_nat take_bit_nat_eq_self)
  then show ?thesis using be_nat_nat_be[of bs] by (simp add: be_word_def l)
qed

lemma word_be_eq_iff:
  "8 * length bs = LENGTH('a) \<Longrightarrow> length cs = length bs \<Longrightarrow>
     word_be bs = (word_be cs :: 'a::len word) \<longleftrightarrow> bs = cs"
  by (metis be_word_word_be)

text \<open>memcmp(): the sign of the first difference, the bytes taken as unsigned.\<close>

fun memcmp :: "bytes \<Rightarrow> bytes \<Rightarrow> int" where
  "memcmp (a # as) (b # bs) = (if a = b then memcmp as bs else uint a - uint b)"
| "memcmp _ _ = 0"

lemma memcmp_eq_0: "length as = length bs \<Longrightarrow> memcmp as bs = 0 \<longleftrightarrow> as = bs"
  by (induction as bs rule: memcmp.induct) (auto dest: unsigned_word_eqI)

lemma memcmp_anti: "memcmp as bs = - memcmp bs as"
  by (induction as bs rule: memcmp.induct) auto

lemma memcmp_trans:
  "length as = length bs \<Longrightarrow> length bs = length cs \<Longrightarrow> memcmp as bs < 0 \<Longrightarrow> memcmp bs cs < 0 \<Longrightarrow>
     memcmp as cs < 0"
proof (induction as bs arbitrary: cs rule: memcmp.induct)
  case (1 a as b bs)
  then obtain c cs' where "cs = c # cs'" by (cases cs) auto
  with 1 show ?case by (auto split: if_splits)
qed auto

end
