(* ===== verification/Bitmap.thy ===== *)
theory Bitmap
  imports BGP_Prelude
begin

text \<open>
  The growable bitmaps of usr.sbin/bgpd/bitmap.c, which hand out path identifiers and mark sets of
  peers. A map is two 64-bit words that hold either the bits themselves (127 of them, bit 0 of the
  first word being clear) or, when bit 0 of the first word is set, a tagged pointer to an array
  and the length of that array. The theory keeps that representation: the arrays live in an
  explicit heap, the tag is bit arithmetic on the pointer, and the allocator is a parameter about
  which only freshness and alignment are assumed.
\<close>

section \<open>State\<close>

record bitmap =
  bm_data0 :: u64
  bm_data1 :: u64

record bitmap_mem =
  bm_heap :: "u64 \<rightharpoonup> u64 list"
  bitmap_size :: u64
  bitmap_cnt :: u64

text \<open>
  reallocarray(NULL, n, 8): from the heap and the number of elements to the address of the new array.
\<close>

type_synonym allocator = "(u64 \<rightharpoonup> u64 list) \<Rightarrow> nat \<Rightarrow> u64 option"

text \<open>What the code relies on: a new array is at an unused and at least 2-byte aligned address.\<close>

definition allocator_ok :: "allocator \<Rightarrow> bool" where
  "allocator_ok alloc \<longleftrightarrow> (\<forall>h n p. alloc h n = Some p \<longrightarrow> h p = None \<and> \<not> bit p 0)"

section \<open>Operations\<close>

definition bitmap_getset :: "bitmap \<Rightarrow> u64 option \<times> nat" where
  "bitmap_getset m =
     (if bm_data0 m AND 1 = 0 then (None, 2)
      else (Some (bm_data0 m AND NOT 1), unat (ucast (bm_data1 m) :: u32)))"

text \<open>The array behind the pointer bitmap_getset yields, and a store through that pointer.\<close>

definition bitmap_words :: "bitmap_mem \<Rightarrow> bitmap \<Rightarrow> u64 list" where
  "bitmap_words mem m =
     (case fst (bitmap_getset m) of
        None \<Rightarrow> [bm_data0 m, bm_data1 m]
      | Some p \<Rightarrow> (case bm_heap mem p of None \<Rightarrow> [] | Some ws \<Rightarrow> ws))"

definition bitmap_store :: "bitmap_mem \<Rightarrow> bitmap \<Rightarrow> nat \<Rightarrow> u64 \<Rightarrow> bitmap_mem \<times> bitmap" where
  "bitmap_store mem m i v =
     (case fst (bitmap_getset m) of
        None \<Rightarrow> (mem, if i = 0 then m\<lparr>bm_data0 := v\<rparr> else m\<lparr>bm_data1 := v\<rparr>)
      | Some p \<Rightarrow> (mem\<lparr>bm_heap := (bm_heap mem)(p \<mapsto> (bitmap_words mem m)[i := v])\<rparr>, m))"

definition bitmap_free :: "bitmap_mem \<Rightarrow> bitmap \<Rightarrow> bitmap_mem" where
  "bitmap_free mem m =
     (case bitmap_getset m of
        (None, _) \<Rightarrow> mem
      | (Some p, mx) \<Rightarrow>
          mem\<lparr>bm_heap := (bm_heap mem)(p := None),
              bitmap_size := bitmap_size mem - of_nat mx * 8,
              bitmap_cnt := bitmap_cnt mem - 1\<rparr>)"

definition BITMAP_ROUNDUP :: "nat \<Rightarrow> nat \<Rightarrow> nat" where
  "BITMAP_ROUNDUP x y = ((x + y) div y) * y"

definition bitmap_resize ::
  "allocator \<Rightarrow> bitmap_mem \<Rightarrow> bitmap \<Rightarrow> nat \<Rightarrow> (bitmap_mem \<times> bitmap) res" where
  "bitmap_resize alloc mem m elm =
     (let oldmax = snd (bitmap_getset m);
          newmax = BITMAP_ROUNDUP elm 4
      in if newmax < oldmax then Inl ERANGE
         else case alloc (bm_heap mem) newmax of
           None \<Rightarrow> Inl ENOMEM
         | Some new \<Rightarrow>
             let ws = map (\<lambda>i. if i < oldmax then bitmap_words mem m ! i else 0) [0..<newmax];
                 mem1 = mem\<lparr>bm_heap := (bm_heap mem)(new \<mapsto> ws)\<rparr>;
                 mem2 = bitmap_free mem1 m
             in Inr (mem2\<lparr>bitmap_size := bitmap_size mem2 + of_nat newmax * 8,
                          bitmap_cnt := bitmap_cnt mem2 + 1\<rparr>,
                     \<lparr>bm_data0 = new OR 1, bm_data1 = of_nat newmax\<rparr>))"

definition bitmap_set ::
  "allocator \<Rightarrow> bitmap_mem \<Rightarrow> bitmap \<Rightarrow> u32 \<Rightarrow> (bitmap_mem \<times> bitmap) res" where
  "bitmap_set alloc mem m bid =
     (let elm = unat bid div 64
      in if bid = 0 then Inl EINVAL
         else res_bind
           (if elm \<ge> snd (bitmap_getset m) then bitmap_resize alloc mem m elm else Inr (mem, m))
           (\<lambda>(mem', m'). Inr (bitmap_store mem' m' elm
               (bitmap_words mem' m' ! elm OR push_bit (unat bid mod 64) 1))))"

definition bitmap_test :: "bitmap_mem \<Rightarrow> bitmap \<Rightarrow> u32 \<Rightarrow> bool" where
  "bitmap_test mem m bid =
     (let elm = unat bid div 64
      in if elm \<ge> snd (bitmap_getset m) \<or> bid = 0 then False
         else bitmap_words mem m ! elm AND push_bit (unat bid mod 64) 1 \<noteq> 0)"

definition bitmap_clear :: "bitmap_mem \<Rightarrow> bitmap \<Rightarrow> u32 \<Rightarrow> bitmap_mem \<times> bitmap" where
  "bitmap_clear mem m bid =
     (let elm = unat bid div 64
      in if elm \<ge> snd (bitmap_getset m) \<or> bid = 0 then (mem, m)
         else bitmap_store mem m elm
           (bitmap_words mem m ! elm AND NOT (push_bit (unat bid mod 64) 1)))"

fun bitmap_empty_loop :: "u64 list \<Rightarrow> nat \<Rightarrow> bool" where
  "bitmap_empty_loop [] elm = True"
| "bitmap_empty_loop (w # ws) elm =
     (let mk = (if elm = 0 then w AND NOT 1 else w)
      in if mk \<noteq> 0 then False else bitmap_empty_loop ws (Suc elm))"

definition bitmap_empty :: "bitmap_mem \<Rightarrow> bitmap \<Rightarrow> bool" where
  "bitmap_empty mem m =
     bitmap_empty_loop (take (snd (bitmap_getset m)) (bitmap_words mem m)) 0"

text \<open>ffsll() of the C library: one plus the index of the least bit set, 0 for 0.\<close>

definition ffsll :: "u64 \<Rightarrow> nat" where
  "ffsll v = (case find (bit v) [0..<64] of None \<Rightarrow> 0 | Some i \<Rightarrow> i + 1)"

fun bitmap_id_loop :: "u64 list \<Rightarrow> nat \<Rightarrow> nat option" where
  "bitmap_id_loop [] elm = None"
| "bitmap_id_loop (w # ws) elm =
     (let mk = (if elm = 0 then NOT w AND NOT 1 else NOT w)
      in if mk = 0 then bitmap_id_loop ws (Suc elm) else Some (elm * 64 + ffsll mk - 1))"

definition bitmap_id_get ::
  "allocator \<Rightarrow> bitmap_mem \<Rightarrow> bitmap \<Rightarrow> (u32 \<times> bitmap_mem \<times> bitmap) res" where
  "bitmap_id_get alloc mem m =
     (let mx = snd (bitmap_getset m);
          bid = (case bitmap_id_loop (take mx (bitmap_words mem m)) 0 of
                   Some b \<Rightarrow> of_nat b | None \<Rightarrow> of_nat (mx * 64))
      in res_bind (bitmap_set alloc mem m bid) (\<lambda>(mem', m'). Inr (bid, mem', m')))"

definition bitmap_id_put :: "bitmap_mem \<Rightarrow> bitmap \<Rightarrow> u32 \<Rightarrow> bitmap_mem \<times> bitmap" where
  "bitmap_id_put mem m bid = bitmap_clear mem m bid"

definition bitmap_init :: bitmap where
  "bitmap_init = \<lparr>bm_data0 = 0, bm_data1 = 0\<rparr>"

definition bitmap_reset :: "bitmap_mem \<Rightarrow> bitmap \<Rightarrow> bitmap_mem \<times> bitmap" where
  "bitmap_reset mem m = (bitmap_free mem m, bitmap_init)"

definition bitmap_get_stats :: "bitmap_mem \<Rightarrow> u64 \<times> u64" where
  "bitmap_get_stats mem = (bitmap_cnt mem, bitmap_size mem)"

section \<open>Well-formed maps and the set of bits they hold\<close>

definition bitmap_wf :: "bitmap_mem \<Rightarrow> bitmap \<Rightarrow> bool" where
  "bitmap_wf mem m =
     (case bitmap_getset m of
        (None, mx) \<Rightarrow> True
      | (Some p, mx) \<Rightarrow>
          (case bm_heap mem p of None \<Rightarrow> False | Some ws \<Rightarrow> length ws = mx \<and> \<not> bit (ws ! 0) 0) \<and>
          2 \<le> mx \<and> mx \<le> 2 ^ 26)"

text \<open>Bit i of an array of 64-bit words.\<close>

definition wbit :: "u64 list \<Rightarrow> nat \<Rightarrow> bool" where
  "wbit ws i \<longleftrightarrow> i div 64 < length ws \<and> bit (ws ! (i div 64)) (i mod 64)"

text \<open>The identifiers a map holds: bit 0 is the marker and never an identifier.\<close>

definition bitmap_bits :: "bitmap_mem \<Rightarrow> bitmap \<Rightarrow> nat set" where
  "bitmap_bits mem m = {i. 0 < i \<and> wbit (bitmap_words mem m) i}"

lemma and_1_eq_0_iff [word_bits]: "(w :: 'a::len word) AND 1 = 0 \<longleftrightarrow> \<not> bit w 0"
  by (simp add: and_one_eq bit_0 even_iff_mod_2_eq_zero)

lemma untag_tag [word_bits]: "\<not> bit (p :: 'a::len word) 0 \<Longrightarrow> (p OR 1) AND - 2 = p"
proof -
  assume "\<not> bit p 0"
  then have "(p OR 1) AND NOT 1 = p"
    by (intro bit_word_eqI) (auto simp: bit_simps intro!: gr0I)
  then show ?thesis by simp
qed

lemma and_bit_mask_iff [word_bits]:
  "k < LENGTH('a::len) \<Longrightarrow> (w :: 'a word) AND 2 ^ k = 0 \<longleftrightarrow> \<not> bit w k"
  by (simp add: and_exp_eq_0_iff_not_bit)

lemma getset_None: "fst (bitmap_getset m) = None \<longleftrightarrow> \<not> bit (bm_data0 m) 0"
  by (simp add: bitmap_getset_def and_1_eq_0_iff)

lemma length_bitmap_words:
  "bitmap_wf mem m \<Longrightarrow> length (bitmap_words mem m) = snd (bitmap_getset m)"
  by (auto simp: bitmap_wf_def bitmap_words_def bitmap_getset_def split: option.splits if_splits)

lemma bitmap_words_marker: "bitmap_wf mem m \<Longrightarrow> \<not> bit (bitmap_words mem m ! 0) 0"
  by (auto simp: bitmap_wf_def bitmap_words_def bitmap_getset_def and_1_eq_0_iff
      split: option.splits if_splits)

lemma bitmap_max_bounds:
  "bitmap_wf mem m \<Longrightarrow> 2 \<le> snd (bitmap_getset m) \<and> snd (bitmap_getset m) \<le> 2 ^ 26"
  by (auto simp: bitmap_wf_def bitmap_getset_def split: option.splits if_splits)

lemma bitmap_store_words:
  assumes "bitmap_wf mem m" and "i < snd (bitmap_getset m)" and "i = 0 \<longrightarrow> \<not> bit v 0"
    and "bitmap_store mem m i v = (mem', m')"
  shows "bitmap_words mem' m' = (bitmap_words mem m)[i := v]"
    and "bitmap_wf mem' m'" and "bitmap_getset m' = bitmap_getset m"
proof -
  have "bitmap_words mem' m' = (bitmap_words mem m)[i := v] \<and> bitmap_wf mem' m' \<and>
      bitmap_getset m' = bitmap_getset m"
  proof (cases "bit (bm_data0 m) 0")
    case False
    then show ?thesis using assms
      by (cases "i = 0")
        (auto simp: bitmap_store_def bitmap_words_def bitmap_getset_def bitmap_wf_def
          and_1_eq_0_iff less_2_cases_iff)
  next
    case True
    define p where "p = bm_data0 m AND NOT 1"
    have gs: "bitmap_getset m = (Some p, unat (ucast (bm_data1 m) :: u32))"
      using True by (simp add: bitmap_getset_def and_1_eq_0_iff p_def)
    obtain ws where ws: "bm_heap mem p = Some ws" and len: "length ws = snd (bitmap_getset m)"
      and mk: "\<not> bit (ws ! 0) 0"
      using assms(1) gs by (auto simp: bitmap_wf_def split: option.splits)
    have st: "m' = m" "mem' = mem\<lparr>bm_heap := (bm_heap mem)(p \<mapsto> ws[i := v])\<rparr>"
      using assms(4) gs ws by (auto simp: bitmap_store_def bitmap_words_def)
    have "\<not> bit (ws[i := v] ! 0) 0"
      using mk assms(3) assms(2) len by (cases "i = 0") auto
    then show ?thesis using st gs ws len assms(1)
      by (auto simp: bitmap_words_def bitmap_wf_def)
  qed
  then show "bitmap_words mem' m' = (bitmap_words mem m)[i := v]"
    and "bitmap_wf mem' m'" and "bitmap_getset m' = bitmap_getset m" by auto
qed

lemma wbit_extend:
  "length ws \<le> n \<Longrightarrow> wbit (map (\<lambda>i. if i < length ws then ws ! i else 0) [0..<n]) i \<longleftrightarrow> wbit ws i"
  by (auto simp: wbit_def split: if_splits)

lemma div_mod_64_eq: "(i::nat) div 64 = b div 64 \<and> i mod 64 = b mod 64 \<longleftrightarrow> i = b"
  by (metis div_mult_mod_eq)

lemma wbit_set_bit:
  assumes "b div 64 < length ws"
  shows "wbit (ws[b div 64 := ws ! (b div 64) OR 2 ^ (b mod 64)]) i \<longleftrightarrow> i = b \<or> wbit ws i"
proof (cases "i div 64 = b div 64")
  case True
  then have "i = b \<longleftrightarrow> i mod 64 = b mod 64" using div_mod_64_eq[of i b] by auto
  with True assms show ?thesis by (auto simp: wbit_def bit_or_iff bit_exp_iff)
next
  case False
  with assms show ?thesis by (auto simp: wbit_def)
qed

lemma wbit_clear_bit:
  assumes "b div 64 < length ws"
  shows "wbit (ws[b div 64 := ws ! (b div 64) AND NOT (2 ^ (b mod 64))]) i \<longleftrightarrow> i \<noteq> b \<and> wbit ws i"
proof (cases "i div 64 = b div 64")
  case True
  then have "i = b \<longleftrightarrow> i mod 64 = b mod 64" using div_mod_64_eq[of i b] by auto
  with True assms show ?thesis by (auto simp: wbit_def bit_and_iff bit_not_iff bit_exp_iff)
next
  case False
  with assms show ?thesis by (auto simp: wbit_def)
qed

lemma roundup_gt: "x < BITMAP_ROUNDUP x 4"
  unfolding BITMAP_ROUNDUP_def by presburger

lemma roundup_le: "x < 2 ^ 26 \<Longrightarrow> BITMAP_ROUNDUP x 4 \<le> 2 ^ 26"
proof -
  assume "x < 2 ^ 26"
  then have "(x + 4) div 4 \<le> 2 ^ 24" by simp
  then show ?thesis unfolding BITMAP_ROUNDUP_def by simp
qed

lemma getset_tagged:
  assumes "\<not> bit (p :: u64) 0" and "n \<le> 2 ^ 26"
  shows "bitmap_getset \<lparr>bm_data0 = p OR 1, bm_data1 = of_nat n\<rparr> = (Some p, n)"
proof -
  have "(p OR 1) AND 1 \<noteq> 0" by (simp add: and_1_eq_0_iff bit_simps)
  moreover have "unat (ucast (of_nat n :: u64) :: u32) = n"
    using assms(2) by (simp add: unsigned_ucast_eq unat_of_nat take_bit_nat_eq_self)
  ultimately show ?thesis
    using assms(1) by (simp add: bitmap_getset_def untag_tag)
qed

lemma bitmap_resize_words:
  assumes al: "allocator_ok alloc" and wf: "bitmap_wf mem m"
    and elm: "snd (bitmap_getset m) \<le> elm" "elm < 2 ^ 26"
    and rs: "bitmap_resize alloc mem m elm = Inr (mem', m')"
  shows "bitmap_wf mem' m'" and "elm < snd (bitmap_getset m')"
    and "wbit (bitmap_words mem' m') = wbit (bitmap_words mem m)"
proof -
  let ?old = "snd (bitmap_getset m)" and ?new = "BITMAP_ROUNDUP elm 4"
  let ?ws = "map (\<lambda>i. if i < ?old then bitmap_words mem m ! i else 0) [0..<?new]"
  note new = roundup_gt[of elm] roundup_le[OF elm(2)]
  obtain p where p: "alloc (bm_heap mem) ?new = Some p"
    and m': "m' = \<lparr>bm_data0 = p OR 1, bm_data1 = of_nat ?new\<rparr>"
    and hp: "bm_heap mem' = bm_heap (bitmap_free (mem\<lparr>bm_heap := (bm_heap mem)(p \<mapsto> ?ws)\<rparr>) m)"
    using rs elm new by (auto simp: bitmap_resize_def Let_def split: option.splits if_splits)
  have fresh: "bm_heap mem p = None" and even: "\<not> bit p 0"
    using al p by (auto simp: allocator_ok_def)
  have gs: "bitmap_getset m' = (Some p, ?new)"
    unfolding m' using even new(2) by (rule getset_tagged)
  have hp': "bm_heap mem' p = Some ?ws"
    using wf fresh unfolding hp
    by (auto simp: bitmap_free_def bitmap_wf_def split: prod.splits option.splits)
  have lw: "length (bitmap_words mem m) = ?old" by (rule length_bitmap_words[OF wf])
  have "?ws ! 0 = bitmap_words mem m ! 0"
    using bitmap_max_bounds[OF wf] elm new by simp
  then have "\<not> bit (?ws ! 0) 0" using bitmap_words_marker[OF wf] by simp
  then show "bitmap_wf mem' m'"
    using gs hp' new elm bitmap_max_bounds[OF wf] by (simp add: bitmap_wf_def)
  show "elm < snd (bitmap_getset m')" using gs new by simp
  have "wbit ?ws i = wbit (bitmap_words mem m) i" for i
    using wbit_extend[of "bitmap_words mem m" ?new i] lw elm new by simp
  then show "wbit (bitmap_words mem' m') = wbit (bitmap_words mem m)"
    using gs hp' by (simp add: bitmap_words_def fun_eq_iff)
qed

lemma bitmap_set_bits:
  assumes al: "allocator_ok alloc" and wf: "bitmap_wf mem m"
    and st: "bitmap_set alloc mem m bid = Inr (mem', m')"
  shows "bitmap_wf mem' m'"
    and "bitmap_bits mem' m' = insert (unat bid) (bitmap_bits mem m)"
proof -
  let ?elm = "unat bid div 64" and ?k = "unat bid mod 64"
  have nz: "bid \<noteq> 0" using st by (auto simp: bitmap_set_def)
  have lt: "?elm < 2 ^ 26" using unat_u32_less[of bid] by simp
  obtain mem1 m1 where wf1: "bitmap_wf mem1 m1" and e1: "?elm < snd (bitmap_getset m1)"
    and w1: "wbit (bitmap_words mem1 m1) = wbit (bitmap_words mem m)"
    and st1: "bitmap_store mem1 m1 ?elm (bitmap_words mem1 m1 ! ?elm OR push_bit ?k 1) = (mem', m')"
  proof (cases "snd (bitmap_getset m) \<le> ?elm")
    case True
    then obtain mem1 m1 where r: "bitmap_resize alloc mem m ?elm = Inr (mem1, m1)"
      and s: "bitmap_store mem1 m1 ?elm (bitmap_words mem1 m1 ! ?elm OR push_bit ?k 1) = (mem', m')"
      using st nz by (auto simp: bitmap_set_def Let_def res_bind_Inr_iff)
    show ?thesis using that bitmap_resize_words[OF al wf True lt r] s by blast
  next
    case False
    then show ?thesis using that[of mem m] st nz wf by (simp add: bitmap_set_def Let_def)
  qed
  have k0: "?elm = 0 \<Longrightarrow> ?k \<noteq> 0" using nz by (simp add: unat_eq_0)
  have v0: "?elm = 0 \<longrightarrow> \<not> bit (bitmap_words mem1 m1 ! ?elm OR push_bit ?k 1) 0"
    using k0 bitmap_words_marker[OF wf1] by (auto simp: bit_simps)
  note upd = bitmap_store_words[OF wf1 e1 v0 st1]
  show "bitmap_wf mem' m'" by (rule upd(2))
  have len: "?elm < length (bitmap_words mem1 m1)" using e1 length_bitmap_words[OF wf1] by simp
  have "wbit (bitmap_words mem' m') i \<longleftrightarrow> i = unat bid \<or> wbit (bitmap_words mem m) i" for i
    using wbit_set_bit[OF len, of i] by (simp add: upd(1) w1)
  then show "bitmap_bits mem' m' = insert (unat bid) (bitmap_bits mem m)"
    using nz by (auto simp: bitmap_bits_def unat_gt_0)
qed

lemma bitmap_clear_bits:
  assumes wf: "bitmap_wf mem m" and st: "bitmap_clear mem m bid = (mem', m')"
  shows "bitmap_wf mem' m'" and "bitmap_bits mem' m' = bitmap_bits mem m - {unat bid}"
proof -
  let ?elm = "unat bid div 64" and ?k = "unat bid mod 64"
  have "bitmap_wf mem' m' \<and> bitmap_bits mem' m' = bitmap_bits mem m - {unat bid}"
  proof (cases "snd (bitmap_getset m) \<le> ?elm \<or> bid = 0")
    case True
    then have "unat bid \<notin> bitmap_bits mem m"
      using length_bitmap_words[OF wf] by (auto simp: bitmap_bits_def wbit_def)
    then show ?thesis using True st wf by (auto simp: bitmap_clear_def Let_def)
  next
    case False
    then have e: "?elm < snd (bitmap_getset m)"
      and s: "bitmap_store mem m ?elm
        (bitmap_words mem m ! ?elm AND NOT (push_bit ?k 1)) = (mem', m')"
      using st by (auto simp: bitmap_clear_def Let_def)
    have v0: "?elm = 0 \<longrightarrow> \<not> bit (bitmap_words mem m ! ?elm AND NOT (push_bit ?k 1)) 0"
      using bitmap_words_marker[OF wf] by (auto simp: bit_simps)
    note upd = bitmap_store_words[OF wf e v0 s]
    have len: "?elm < length (bitmap_words mem m)" using e length_bitmap_words[OF wf] by simp
    have "wbit (bitmap_words mem' m') i \<longleftrightarrow> i \<noteq> unat bid \<and> wbit (bitmap_words mem m) i" for i
      using wbit_clear_bit[OF len, of i] by (simp add: upd(1))
    then show ?thesis using upd(2) by (auto simp: bitmap_bits_def)
  qed
  then show "bitmap_wf mem' m'" and "bitmap_bits mem' m' = bitmap_bits mem m - {unat bid}" by auto
qed

lemma bitmap_test_bits:
  assumes wf: "bitmap_wf mem m"
  shows "bitmap_test mem m bid \<longleftrightarrow> unat bid \<in> bitmap_bits mem m"
  using length_bitmap_words[OF wf]
  by (auto simp: bitmap_test_def Let_def bitmap_bits_def wbit_def and_bit_mask_iff unat_gt_0)

lemma ffsll_least:
  assumes "v \<noteq> 0"
  obtains i where "ffsll v = i + 1" and "i < 64" and "bit v i" and "\<And>j. j < i \<Longrightarrow> \<not> bit v j"
proof -
  have "find (bit v) [0..<64] \<noteq> None"
  proof
    assume "find (bit v) [0..<64] = None"
    then have "\<not> bit v j" if "j < 64" for j using that by (simp add: find_None_iff)
    then have "v = 0" by (intro bit_word_eqI) simp
    with assms show False by simp
  qed
  then obtain i where f: "find (bit v) [0..<64] = Some i" by auto
  then obtain k where "k < 64" "bit v ([0..<64] ! k)" "i = [0..<64] ! k"
    and "\<forall>j<k. \<not> bit v ([0..<64] ! j)"
    by (auto simp: find_Some_iff)
  then show thesis using that[of i] f by (simp add: ffsll_def)
qed

text \<open>
  The mask the scans compute: the bits of word number elm that are relevant, the marker left out.
\<close>

lemma scan_mask_bit:
  "bit (if elm = (0::nat) then (w :: u64) AND NOT 1 else w) k \<longleftrightarrow> bit w k \<and> (elm = 0 \<longrightarrow> k \<noteq> 0)"
  by (auto simp: bit_simps dest: bit_imp_le_length)

lemma wbit_middle:
  "c div 64 = length pre \<Longrightarrow> wbit (pre @ w # ws) c \<longleftrightarrow> bit w (c mod 64)"
  by (simp add: wbit_def)

lemma wbit_prefix: "c div 64 < length pre \<Longrightarrow> wbit (pre @ ws) c \<longleftrightarrow> wbit pre c"
  by (auto simp: wbit_def nth_append)

lemma bitmap_empty_loop_iff:
  "bitmap_empty_loop ws (length pre) \<longleftrightarrow>
     (\<forall>c. 0 < c \<and> length pre \<le> c div 64 \<longrightarrow> \<not> wbit (pre @ ws) c)"
proof (induction ws arbitrary: pre)
  case Nil
  then show ?case by (auto simp: wbit_def)
next
  case (Cons w ws)
  define mk where "mk = (if length pre = 0 then w AND NOT 1 else w)"
  have mkb: "bit mk k \<longleftrightarrow> bit w k \<and> (length pre = 0 \<longrightarrow> k \<noteq> 0)" for k
    unfolding mk_def by (rule scan_mask_bit)
  have mk0: "mk = 0 \<longleftrightarrow> (\<forall>c. 0 < c \<and> c div 64 = length pre \<longrightarrow> \<not> wbit (pre @ w # ws) c)"
  proof
    assume "mk = 0"
    then have nb: "\<not> (bit w k \<and> (length pre = 0 \<longrightarrow> k \<noteq> 0))" for k using mkb[of k] by simp
    show "\<forall>c. 0 < c \<and> c div 64 = length pre \<longrightarrow> \<not> wbit (pre @ w # ws) c"
    proof (intro allI impI)
      fix c assume c: "0 < c \<and> c div 64 = length pre"
      then show "\<not> wbit (pre @ w # ws) c" using nb[of "c mod 64"] by (auto simp: wbit_middle)
    qed
  next
    assume a: "\<forall>c. 0 < c \<and> c div 64 = length pre \<longrightarrow> \<not> wbit (pre @ w # ws) c"
    show "mk = 0"
    proof (rule bit_word_eqI)
      fix k assume "k < LENGTH(64)"
      then show "bit mk k \<longleftrightarrow> bit (0::u64) k"
        using a[rule_format, of "length pre * 64 + k"]
        by (cases "length pre = 0 \<and> k = 0") (auto simp: mkb wbit_middle)
    qed
  qed
  have split: "length pre \<le> c div 64 \<longleftrightarrow> c div 64 = length pre \<or> length (pre @ [w]) \<le> c div 64"
    for c :: nat by auto
  have "bitmap_empty_loop (w # ws) (length pre) \<longleftrightarrow> mk = 0 \<and> bitmap_empty_loop ws (length (pre @ [w]))"
    by (simp add: mk_def Let_def)
  also have "\<dots> \<longleftrightarrow> (\<forall>c. 0 < c \<and> length pre \<le> c div 64 \<longrightarrow> \<not> wbit (pre @ w # ws) c)"
    unfolding mk0 Cons.IH split by auto
  finally show ?case .
qed

lemma bitmap_empty_bits:
  assumes wf: "bitmap_wf mem m"
  shows "bitmap_empty mem m \<longleftrightarrow> bitmap_bits mem m = {}"
proof -
  have "bitmap_empty mem m \<longleftrightarrow> bitmap_empty_loop (bitmap_words mem m) (length ([] :: u64 list))"
    using length_bitmap_words[OF wf] by (simp add: bitmap_empty_def)
  also have "\<dots> \<longleftrightarrow> bitmap_bits mem m = {}"
    unfolding bitmap_empty_loop_iff by (simp add: bitmap_bits_def set_eq_iff) (metis neq0_conv)
  finally show ?thesis .
qed

text \<open>The scan of the allocator: everything before the word it stands at is in use.\<close>

lemma bitmap_id_loop_spec:
  assumes "\<And>c. 0 < c \<Longrightarrow> c div 64 < length pre \<Longrightarrow> wbit (pre @ ws) c"
  shows "case bitmap_id_loop ws (length pre) of
      None \<Rightarrow> \<forall>c. 0 < c \<and> c div 64 < length (pre @ ws) \<longrightarrow> wbit (pre @ ws) c
    | Some b \<Rightarrow> 0 < b \<and> b div 64 < length (pre @ ws) \<and> \<not> wbit (pre @ ws) b \<and>
        (\<forall>c. 0 < c \<and> c < b \<longrightarrow> wbit (pre @ ws) c)"
  using assms
proof (induction ws arbitrary: pre)
  case Nil
  then show ?case by simp
next
  case (Cons w ws)
  define mk where "mk = (if length pre = 0 then NOT w AND NOT 1 else NOT w)"
  have mkb: "bit mk k \<longleftrightarrow> k < 64 \<and> \<not> bit w k \<and> (length pre = 0 \<longrightarrow> k \<noteq> 0)" for k
    unfolding mk_def scan_mask_bit by (auto simp: bit_not_iff)
  show ?case
  proof (cases "mk = 0")
    case True
    have full: "wbit ((pre @ [w]) @ ws) c" if c: "0 < c" "c div 64 < length (pre @ [w])" for c
    proof (cases "c div 64 = length pre")
      case True
      then have "bit w (c mod 64)"
        using mkb[of "c mod 64"] \<open>mk = 0\<close> c(1) by auto
      then show ?thesis using True by (simp add: wbit_middle)
    next
      case False
      then show ?thesis using Cons.prems[of c] c by simp
    qed
    have step: "bitmap_id_loop (w # ws) (length pre) = bitmap_id_loop ws (length (pre @ [w]))"
      using True by (simp add: mk_def Let_def)
    have app: "(pre @ [w]) @ ws = pre @ w # ws" by simp
    show ?thesis using Cons.IH[OF full] by (simp only: step app)
  next
    case False
    then obtain k where k: "ffsll mk = k + 1" "k < 64" "bit mk k" "\<And>j. j < k \<Longrightarrow> \<not> bit mk j"
      using ffsll_least[of mk] by blast
    define b where "b = length pre * 64 + k"
    have b: "b div 64 = length pre" "b mod 64 = k" using k(2) by (auto simp: b_def)
    have "wbit (pre @ w # ws) c" if c: "0 < c" "c < b" for c
    proof (cases "c div 64 = length pre")
      case True
      then have "c mod 64 < k" using c(2) b by (metis div_mult_mod_eq nat_add_left_cancel_less)
      then have "bit w (c mod 64)" using k(4)[of "c mod 64"] mkb[of "c mod 64"] c(1) True by auto
      then show ?thesis using True by (simp add: wbit_middle)
    next
      case False
      then have "c div 64 < length pre" using c(2) b(1) div_le_mono[of c b 64] by simp
      then show ?thesis using Cons.prems c(1) by simp
    qed
    moreover have "bitmap_id_loop (w # ws) (length pre) = Some b"
      using False k(1) by (simp add: mk_def b_def Let_def)
    moreover have "0 < b" using mkb[of k] k(3) b_def by (auto intro: gr0I)
    moreover have "\<not> wbit (pre @ w # ws) b" using mkb[of k] k(3) b by (simp add: wbit_middle)
    ultimately show ?thesis using b(1) by simp
  qed
qed

lemma bitmap_id_get_least:
  assumes al: "allocator_ok alloc" and wf: "bitmap_wf mem m"
    and get: "bitmap_id_get alloc mem m = Inr (bid, mem', m')"
  shows "bitmap_wf mem' m'" and "bitmap_bits mem' m' = insert (unat bid) (bitmap_bits mem m)"
    and "0 < unat bid" and "unat bid \<notin> bitmap_bits mem m"
    and "\<And>c. 0 < c \<Longrightarrow> c < unat bid \<Longrightarrow> c \<in> bitmap_bits mem m"
proof -
  let ?ws = "bitmap_words mem m" and ?mx = "snd (bitmap_getset m)"
  define b where "b = (case bitmap_id_loop ?ws 0 of Some b \<Rightarrow> b | None \<Rightarrow> ?mx * 64)"
  have len: "length ?ws = ?mx" by (rule length_bitmap_words[OF wf])
  have bid: "bid = of_nat b" and st: "bitmap_set alloc mem m bid = Inr (mem', m')"
    using get len
    by (auto simp: bitmap_id_get_def Let_def res_bind_Inr_iff b_def split: option.splits)
  have spec: "b \<le> ?mx * 64 \<and> \<not> wbit ?ws b \<and> (\<forall>c. 0 < c \<and> c < b \<longrightarrow> wbit ?ws c)"
    using bitmap_id_loop_spec[of "[]" ?ws] len
    by (auto simp: b_def wbit_def split: option.splits)
  have nz: "bid \<noteq> 0" using st by (auto simp: bitmap_set_def)
  have "b < 2 ^ 32"
  proof -
    have "?mx * 64 \<le> 2 ^ 26 * 64" using bitmap_max_bounds[OF wf] by (intro mult_right_mono) auto
    then have "b \<le> 2 ^ 32" using spec by simp
    moreover have "b \<noteq> 2 ^ 32" using nz bid by auto
    ultimately show ?thesis by simp
  qed
  then have ub: "unat bid = b" using bid by (simp add: unat_of_nat take_bit_nat_eq_self)
  show "bitmap_wf mem' m'" and "bitmap_bits mem' m' = insert (unat bid) (bitmap_bits mem m)"
    using bitmap_set_bits[OF al wf st] by auto
  show "0 < unat bid" using nz by (simp add: unat_gt_0)
  show "unat bid \<notin> bitmap_bits mem m" using spec ub by (simp add: bitmap_bits_def)
  show "c \<in> bitmap_bits mem m" if "0 < c" "c < unat bid" for c
    using spec that ub by (simp add: bitmap_bits_def)
qed

section \<open>Other maps and the accounting\<close>

text \<open>Two maps that do not point at the same array.\<close>

definition bitmap_apart :: "bitmap \<Rightarrow> bitmap \<Rightarrow> bool" where
  "bitmap_apart m m2 \<longleftrightarrow>
     fst (bitmap_getset m) = None \<or> fst (bitmap_getset m) \<noteq> fst (bitmap_getset m2)"

definition heap_agrees :: "bitmap_mem \<Rightarrow> bitmap_mem \<Rightarrow> bitmap \<Rightarrow> bool" where
  "heap_agrees mem mem' m =
     (case fst (bitmap_getset m) of None \<Rightarrow> True | Some p \<Rightarrow> bm_heap mem' p = bm_heap mem p)"

lemma heap_agrees_bits:
  "heap_agrees mem mem' m \<Longrightarrow> bitmap_words mem' m = bitmap_words mem m \<and> bitmap_wf mem' m = bitmap_wf mem m"
  by (cases "bitmap_getset m"; cases "fst (bitmap_getset m)")
    (simp_all add: heap_agrees_def bitmap_words_def bitmap_wf_def)

lemma bitmap_store_agrees:
  assumes "bitmap_apart m m2"
  shows "heap_agrees mem (fst (bitmap_store mem m i v)) m2"
    and "fst (bitmap_getset m) \<noteq> None \<Longrightarrow> snd (bitmap_store mem m i v) = m"
  using assms
  by (auto simp: bitmap_store_def heap_agrees_def bitmap_apart_def split: option.splits)

lemma bitmap_resize_agrees:
  assumes "allocator_ok alloc" and "bitmap_wf mem m2" and "bitmap_apart m m2"
    and "bitmap_resize alloc mem m elm = Inr (mem', m')"
  shows "heap_agrees mem mem' m2" and "bitmap_apart m' m2"
proof -
  obtain p ws where p: "alloc (bm_heap mem) (BITMAP_ROUNDUP elm 4) = Some p"
    and m': "m' = \<lparr>bm_data0 = p OR 1, bm_data1 = of_nat (BITMAP_ROUNDUP elm 4)\<rparr>"
    and hp: "bm_heap mem' = bm_heap (bitmap_free (mem\<lparr>bm_heap := (bm_heap mem)(p \<mapsto> ws)\<rparr>) m)"
    using assms(4) by (auto simp: bitmap_resize_def Let_def split: option.splits if_splits)
  have fresh: "bm_heap mem p = None" and even: "\<not> bit p 0"
    using assms(1) p by (auto simp: allocator_ok_def)
  have live: "bm_heap mem q \<noteq> None" if "fst (bitmap_getset m2) = Some q" for q
    using assms(2) that by (auto simp: bitmap_wf_def split: option.splits prod.splits)
  have "(p OR 1) AND 1 \<noteq> 0" by (simp add: and_1_eq_0_iff bit_simps)
  then have tag: "fst (bitmap_getset m') = Some p"
    using even by (simp add: m' bitmap_getset_def untag_tag)
  show "bitmap_apart m' m2" using tag live[of p] fresh by (auto simp: bitmap_apart_def)
  show "heap_agrees mem mem' m2"
    using live fresh assms(3)
    by (auto simp: hp heap_agrees_def bitmap_free_def bitmap_apart_def split: option.splits prod.splits)
qed

lemma heap_agrees_trans:
  "heap_agrees mem mem1 m \<Longrightarrow> heap_agrees mem1 mem2 m \<Longrightarrow> heap_agrees mem mem2 m"
  by (auto simp: heap_agrees_def split: option.splits)

lemma heap_agrees_refl: "heap_agrees mem mem m"
  by (auto simp: heap_agrees_def split: option.splits)

lemma bitmap_set_agrees:
  assumes "allocator_ok alloc" and "bitmap_wf mem m2" and "bitmap_apart m m2"
    and st: "bitmap_set alloc mem m bid = Inr (mem', m')"
  shows "heap_agrees mem mem' m2"
proof -
  let ?elm = "unat bid div 64"
  obtain mem1 m1 where a: "heap_agrees mem mem1 m2" "bitmap_apart m1 m2"
    and s: "mem' = fst (bitmap_store mem1 m1 ?elm (bitmap_words mem1 m1 ! ?elm OR 2 ^ (unat bid mod 64)))"
  proof (cases "snd (bitmap_getset m) \<le> ?elm")
    case True
    then obtain mem1 m1 where r: "bitmap_resize alloc mem m ?elm = Inr (mem1, m1)"
      and s: "bitmap_store mem1 m1 ?elm (bitmap_words mem1 m1 ! ?elm OR 2 ^ (unat bid mod 64)) = (mem', m')"
      using st by (auto simp: bitmap_set_def Let_def res_bind_Inr_iff split: if_splits)
    show ?thesis using that[OF bitmap_resize_agrees[OF assms(1-3) r]] s by (metis fst_conv)
  next
    case False
    then have "bitmap_store mem m ?elm (bitmap_words mem m ! ?elm OR 2 ^ (unat bid mod 64)) = (mem', m')"
      using st by (auto simp: bitmap_set_def Let_def split: if_splits)
    then show ?thesis using that[OF heap_agrees_refl assms(3)] by (metis fst_conv)
  qed
  show ?thesis unfolding s by (rule heap_agrees_trans[OF a(1) bitmap_store_agrees(1)[OF a(2)]])
qed

text \<open>The global counters: the number of live arrays and the bytes they occupy.\<close>

definition heap_bytes :: "(u64 \<rightharpoonup> u64 list) \<Rightarrow> nat" where
  "heap_bytes h = (\<Sum>p\<in>dom h. 8 * length (the (h p)))"

definition bitmap_accounted :: "bitmap_mem \<Rightarrow> bool" where
  "bitmap_accounted mem \<longleftrightarrow> finite (dom (bm_heap mem)) \<and>
     bitmap_cnt mem = of_nat (card (dom (bm_heap mem))) \<and>
     bitmap_size mem = of_nat (heap_bytes (bm_heap mem))"

lemma heap_bytes_new:
  assumes "finite (dom h)" and "h p = None"
  shows "heap_bytes (h(p \<mapsto> ws)) = 8 * length ws + heap_bytes h"
proof -
  have np: "p \<notin> dom h" using assms(2) by auto
  have "(\<Sum>q\<in>dom h. 8 * length (the ((h(p \<mapsto> ws)) q))) = heap_bytes h"
    unfolding heap_bytes_def by (rule sum.cong) (use np in auto)
  then show ?thesis using assms(1) np by (simp add: heap_bytes_def)
qed

lemma heap_bytes_del:
  assumes "finite (dom h)" and "h p = Some ws"
  shows "heap_bytes h = 8 * length ws + heap_bytes (h(p := None))"
proof -
  have "h = (h(p := None))(p \<mapsto> ws)" using assms(2) by auto
  then show ?thesis using heap_bytes_new[of "h(p := None)" p ws] assms(1) by simp
qed

lemma heap_bytes_upd:
  assumes "finite (dom h)" and "h p = Some ws" and "length ws' = length ws"
  shows "heap_bytes (h(p \<mapsto> ws')) = heap_bytes h"
  using heap_bytes_del[OF assms(1,2)] heap_bytes_new[of "h(p := None)" p ws'] assms(1,3) by simp

lemma bitmap_accounted_upd:
  assumes "bitmap_accounted mem" and "bm_heap mem p = Some ws" and "length ws' = length ws"
  shows "bitmap_accounted (mem\<lparr>bm_heap := (bm_heap mem)(p \<mapsto> ws')\<rparr>)"
proof -
  have "dom ((bm_heap mem)(p \<mapsto> ws')) = dom (bm_heap mem)" using assms(2) by auto
  then show ?thesis
    using assms heap_bytes_upd[of "bm_heap mem" p ws ws'] by (simp add: bitmap_accounted_def)
qed

lemma bitmap_accounted_new:
  assumes "bitmap_accounted mem" and "bm_heap mem p = None"
  shows "bitmap_accounted
    (mem\<lparr>bm_heap := (bm_heap mem)(p \<mapsto> ws), bitmap_size := bitmap_size mem + of_nat (length ws) * 8,
         bitmap_cnt := bitmap_cnt mem + 1\<rparr>)"
proof -
  have "p \<notin> dom (bm_heap mem)" using assms(2) by auto
  then show ?thesis
    using assms heap_bytes_new[of "bm_heap mem" p ws] by (simp add: bitmap_accounted_def)
qed

lemma bitmap_accounted_del:
  assumes "bitmap_accounted mem" and "bm_heap mem p = Some ws"
  shows "bitmap_accounted
    (mem\<lparr>bm_heap := (bm_heap mem)(p := None), bitmap_size := bitmap_size mem - of_nat (length ws) * 8,
         bitmap_cnt := bitmap_cnt mem - 1\<rparr>)"
proof -
  have fin: "finite (dom (bm_heap mem))" and ip: "p \<in> dom (bm_heap mem)"
    using assms by (auto simp: bitmap_accounted_def)
  then have "card (dom (bm_heap mem)) = Suc (card (dom (bm_heap mem) - {p}))" by (rule card.remove)
  then show ?thesis
    using assms(1) fin heap_bytes_del[OF fin assms(2)] by (simp add: bitmap_accounted_def)
qed

lemma bitmap_free_accounted:
  assumes "bitmap_accounted mem" and "bitmap_wf mem m"
  shows "bitmap_accounted (bitmap_free mem m)"
  using assms bitmap_accounted_del[OF assms(1)]
  by (auto simp: bitmap_free_def bitmap_wf_def split: prod.splits option.splits)

lemma bitmap_store_accounted:
  assumes "bitmap_accounted mem" and "bitmap_wf mem m"
  shows "bitmap_accounted (fst (bitmap_store mem m i v))"
  using assms bitmap_accounted_upd[OF assms(1)]
  by (auto simp: bitmap_store_def bitmap_wf_def bitmap_words_def split: prod.splits option.splits)

lemma bitmap_free_new_comm:
  assumes "bm_heap mem p = None" and "bitmap_wf mem m"
  shows "bitmap_free (mem\<lparr>bm_heap := (bm_heap mem)(p \<mapsto> ws)\<rparr>) m
       = (bitmap_free mem m)\<lparr>bm_heap := (bm_heap (bitmap_free mem m))(p \<mapsto> ws)\<rparr>"
    and "bm_heap (bitmap_free mem m) p = None"
proof -
  have "q \<noteq> p" if "fst (bitmap_getset m) = Some q" for q
    using assms that by (auto simp: bitmap_wf_def split: prod.splits option.splits)
  then show "bitmap_free (mem\<lparr>bm_heap := (bm_heap mem)(p \<mapsto> ws)\<rparr>) m
       = (bitmap_free mem m)\<lparr>bm_heap := (bm_heap (bitmap_free mem m))(p \<mapsto> ws)\<rparr>"
    by (auto simp: bitmap_free_def fun_upd_twist split: prod.splits option.splits)
  show "bm_heap (bitmap_free mem m) p = None"
    using assms(1) by (auto simp: bitmap_free_def split: prod.splits option.splits)
qed

lemma bitmap_resize_accounted:
  assumes "allocator_ok alloc" and "bitmap_accounted mem" and "bitmap_wf mem m"
    and "bitmap_resize alloc mem m elm = Inr (mem', m')"
  shows "bitmap_accounted mem'"
proof -
  let ?new = "BITMAP_ROUNDUP elm 4"
  obtain p ws where p: "alloc (bm_heap mem) ?new = Some p" and len: "length ws = ?new"
    and m': "mem' = (let mem2 = bitmap_free (mem\<lparr>bm_heap := (bm_heap mem)(p \<mapsto> ws)\<rparr>) m in
      mem2\<lparr>bitmap_size := bitmap_size mem2 + of_nat ?new * 8, bitmap_cnt := bitmap_cnt mem2 + 1\<rparr>)"
    using assms(4) that[of _ "map _ [0..<?new]"]
    by (fastforce simp: bitmap_resize_def Let_def split: option.splits if_splits)
  have fresh: "bm_heap mem p = None" using assms(1) p by (auto simp: allocator_ok_def)
  note fr = bitmap_free_new_comm[OF fresh assms(3)]
  show ?thesis
    using bitmap_accounted_new[OF bitmap_free_accounted[OF assms(2,3)] fr(2), of ws]
    by (simp add: m' Let_def fr(1) len)
qed

lemma bitmap_set_accounted:
  assumes "allocator_ok alloc" and "bitmap_accounted mem" and "bitmap_wf mem m"
    and st: "bitmap_set alloc mem m bid = Inr (mem', m')"
  shows "bitmap_accounted mem'"
proof -
  let ?elm = "unat bid div 64"
  have lt: "?elm < 2 ^ 26" using unat_u32_less[of bid] by simp
  show ?thesis
  proof (cases "snd (bitmap_getset m) \<le> ?elm")
    case True
    then obtain mem1 m1 v where r: "bitmap_resize alloc mem m ?elm = Inr (mem1, m1)"
      and s: "bitmap_store mem1 m1 ?elm v = (mem', m')"
      using st by (auto simp: bitmap_set_def Let_def res_bind_Inr_iff split: if_splits)
    have "bitmap_accounted mem1" by (rule bitmap_resize_accounted[OF assms(1-3) r])
    moreover have "bitmap_wf mem1 m1"
      using bitmap_resize_words(1)[OF assms(1,3) True lt r] .
    ultimately show ?thesis using bitmap_store_accounted s by (metis fst_conv)
  next
    case False
    then show ?thesis
      using st bitmap_store_accounted[OF assms(2,3)]
      by (auto simp: bitmap_set_def Let_def split: if_splits) (metis fst_conv)
  qed
qed

section \<open>Pools of identifiers\<close>

text \<open>
  What the route decision engine relies on when it draws path identifiers: an identifier is positive,
  unused before and used afterwards, the least free one is handed out, and a returned one is free again.
\<close>

primrec take_ids :: "('s \<Rightarrow> (nat \<times> 's) option) \<Rightarrow> nat \<Rightarrow> 's \<Rightarrow> (nat list \<times> 's) option" where
  "take_ids get 0 s = Some ([], s)"
| "take_ids get (Suc n) s =
     (case get s of
        None \<Rightarrow> None
      | Some (i, s1) \<Rightarrow>
          (case take_ids get n s1 of None \<Rightarrow> None | Some (is, s2) \<Rightarrow> Some (i # is, s2)))"

locale id_pool =
  fixes used :: "'s \<Rightarrow> nat set"
    and inv :: "'s \<Rightarrow> bool"
    and get :: "'s \<Rightarrow> (nat \<times> 's) option"
    and put :: "nat \<Rightarrow> 's \<Rightarrow> 's"
  assumes get_ok: "inv s \<Longrightarrow> get s = Some (i, s') \<Longrightarrow>
      inv s' \<and> 0 < i \<and> i \<notin> used s \<and> used s' = insert i (used s)"
    and get_least: "inv s \<Longrightarrow> get s = Some (i, s') \<Longrightarrow> 0 < j \<Longrightarrow> j < i \<Longrightarrow> j \<in> used s"
    and put_ok: "inv s \<Longrightarrow> i \<in> used s \<Longrightarrow> inv (put i s) \<and> used (put i s) = used s - {i}"
begin

lemma take_ids_fresh:
  "inv s \<Longrightarrow> take_ids get n s = Some (is, s') \<Longrightarrow>
     inv s' \<and> distinct is \<and> 0 \<notin> set is \<and> set is \<inter> used s = {} \<and> used s' = used s \<union> set is"
proof (induction n arbitrary: s "is")
  case 0
  then show ?case by simp
next
  case (Suc n)
  then obtain i s1 is1 where g: "get s = Some (i, s1)" and t: "take_ids get n s1 = Some (is1, s')"
    and "is = i # is1"
    by (auto split: option.splits)
  have "inv s1 \<and> 0 < i \<and> i \<notin> used s \<and> used s1 = insert i (used s)"
    using get_ok[OF Suc.prems(1) g] .
  with Suc.IH[OF _ t] \<open>is = i # is1\<close> show ?case by auto
qed

lemma put_get_le:
  assumes "inv s" and "0 < i" and "i \<in> used s" and "get (put i s) = Some (j, s')"
  shows "j \<le> i"
  using get_least[OF _ assms(4) assms(2)] put_ok[OF assms(1,3)] by (auto intro: leI)

end

definition bitmap_pool_get ::
  "allocator \<Rightarrow> bitmap_mem \<times> bitmap \<Rightarrow> (nat \<times> bitmap_mem \<times> bitmap) option" where
  "bitmap_pool_get alloc s =
     (case bitmap_id_get alloc (fst s) (snd s) of
        Inl e \<Rightarrow> None | Inr (bid, mem, m) \<Rightarrow> Some (unat bid, mem, m))"

definition bitmap_pool_put :: "nat \<Rightarrow> bitmap_mem \<times> bitmap \<Rightarrow> bitmap_mem \<times> bitmap" where
  "bitmap_pool_put i s = bitmap_id_put (fst s) (snd s) (of_nat i)"

locale aligned_allocator =
  fixes alloc :: allocator
  assumes alloc_ok: "allocator_ok alloc"

lemma bitmap_bits_less: "bitmap_wf mem m \<Longrightarrow> i \<in> bitmap_bits mem m \<Longrightarrow> i < 2 ^ 32"
  using length_bitmap_words[of mem m] bitmap_max_bounds[of mem m]
  by (auto simp: bitmap_bits_def wbit_def)

lemma bitmap_pool_put_bits:
  assumes "bitmap_wf mem m" and "i \<in> bitmap_bits mem m"
    and "bitmap_pool_put i (mem, m) = (mem', m')"
  shows "bitmap_wf mem' m' \<and> bitmap_bits mem' m' = bitmap_bits mem m - {i}"
proof -
  have "unat (of_nat i :: u32) = i"
    using bitmap_bits_less[OF assms(1,2)] by (simp add: unat_of_nat take_bit_nat_eq_self)
  then show ?thesis
    using bitmap_clear_bits[OF assms(1), of "of_nat i" mem' m'] assms(3)
    by (simp add: bitmap_pool_put_def bitmap_id_put_def)
qed

sublocale aligned_allocator \<subseteq> pool: id_pool
  "\<lambda>s. bitmap_bits (fst s) (snd s)" "\<lambda>s. bitmap_wf (fst s) (snd s)"
  "bitmap_pool_get alloc" bitmap_pool_put
proof
  fix s s' :: "bitmap_mem \<times> bitmap" and i
  assume wf: "bitmap_wf (fst s) (snd s)" and "bitmap_pool_get alloc s = Some (i, s')"
  then obtain bid where g: "bitmap_id_get alloc (fst s) (snd s) = Inr (bid, fst s', snd s')"
    and i: "i = unat bid"
    by (cases s') (auto simp: bitmap_pool_get_def split: sum.splits)
  note least = bitmap_id_get_least[OF alloc_ok wf g]
  show "bitmap_wf (fst s') (snd s') \<and> 0 < i \<and> i \<notin> bitmap_bits (fst s) (snd s) \<and>
      bitmap_bits (fst s') (snd s') = insert i (bitmap_bits (fst s) (snd s))"
    using least(1-4) by (simp add: i)
  show "j \<in> bitmap_bits (fst s) (snd s)" if "0 < j" "j < i" for j
    using least(5) that by (simp add: i)
next
  fix s :: "bitmap_mem \<times> bitmap" and i
  assume "bitmap_wf (fst s) (snd s)" and "i \<in> bitmap_bits (fst s) (snd s)"
  then show "bitmap_wf (fst (bitmap_pool_put i s)) (snd (bitmap_pool_put i s)) \<and>
      bitmap_bits (fst (bitmap_pool_put i s)) (snd (bitmap_pool_put i s))
        = bitmap_bits (fst s) (snd s) - {i}"
    using bitmap_pool_put_bits[of "fst s" "snd s" i] by simp
qed

context aligned_allocator
begin

lemma bitmap_take_ids:
  "bitmap_wf mem m \<Longrightarrow> take_ids (bitmap_pool_get alloc) n (mem, m) = Some (ids, mem', m') \<Longrightarrow>
     distinct ids \<and> 0 \<notin> set ids \<and> set ids \<inter> bitmap_bits mem m = {} \<and>
     bitmap_bits mem' m' = bitmap_bits mem m \<union> set ids"
  using pool.take_ids_fresh[of "(mem, m)" n ids "(mem', m')"] by simp

end

text \<open>A first-fit allocator on 16-byte boundaries, with which the hypotheses can be met.\<close>

definition first_fit :: allocator where
  "first_fit h n = find (\<lambda>p. h p = None) (map (\<lambda>i. of_nat (16 * (i + 1))) [0..<8])"

lemma first_fit_ok: "allocator_ok first_fit"
  unfolding allocator_ok_def first_fit_def
proof (intro allI impI)
  fix h :: "u64 \<rightharpoonup> u64 list" and p
  assume "find (\<lambda>p. h p = None) (map (\<lambda>i. of_nat (16 * (i + 1))) [0..<8]) = Some p"
  then have "h p = None" and "p \<in> set (map (\<lambda>i. of_nat (16 * (i + 1))) [0..<8])"
    by (auto simp: find_Some_iff in_set_conv_nth)
  then show "h p = None \<and> \<not> bit p 0" by (auto simp: bit_0)
qed

interpretation ff: aligned_allocator first_fit
  by unfold_locales (rule first_fit_ok)

definition bitmap_mem0 :: bitmap_mem where
  "bitmap_mem0 = \<lparr>bm_heap = Map.empty, bitmap_size = 0, bitmap_cnt = 0\<rparr>"

lemmas bitmap_eval = bitmap_set_def bitmap_resize_def bitmap_getset_def bitmap_words_def
  bitmap_store_def bitmap_free_def bitmap_init_def BITMAP_ROUNDUP_def first_fit_def bitmap_mem0_def
  bitmap_wf_def bitmap_apart_def bitmap_accounted_def heap_bytes_def

lemma bitmap_resize_total:
  assumes "bitmap_wf mem m" and "snd (bitmap_getset m) \<le> elm" and "\<And>h n. alloc h n \<noteq> None"
  shows "\<exists>mem' m'. bitmap_resize alloc mem m elm = Inr (mem', m')"
  using assms(2) assms(3)[of "bm_heap mem" "BITMAP_ROUNDUP elm 4"] roundup_gt[of elm]
  by (auto simp: bitmap_resize_def Let_def)

lemma bitmap_set_total:
  assumes "bitmap_wf mem m" and "bid \<noteq> 0" and "\<And>h n. alloc h n \<noteq> None"
  shows "\<exists>mem' m'. bitmap_set alloc mem m bid = Inr (mem', m')"
proof -
  let ?elm = "unat bid div 64"
  have "\<exists>s. (if ?elm \<ge> snd (bitmap_getset m) then bitmap_resize alloc mem m ?elm else Inr (mem, m)) = Inr s"
    using bitmap_resize_total[OF assms(1) _ assms(3), of ?elm] by auto
  then show ?thesis using assms(2) by (auto simp: bitmap_set_def Let_def)
qed

lemma bitmap_id_get_total:
  assumes wf: "bitmap_wf mem m" and al: "\<And>h n. alloc h n \<noteq> None"
    and free: "0 < c" "c < 2 ^ 32" "c \<notin> bitmap_bits mem m"
  shows "\<exists>bid mem' m'. bitmap_id_get alloc mem m = Inr (bid, mem', m')"
proof -
  let ?ws = "bitmap_words mem m" and ?mx = "snd (bitmap_getset m)"
  define b where "b = (case bitmap_id_loop ?ws 0 of Some b \<Rightarrow> b | None \<Rightarrow> ?mx * 64)"
  have len: "length ?ws = ?mx" by (rule length_bitmap_words[OF wf])
  have "0 < b \<and> (\<forall>c. 0 < c \<and> c < b \<longrightarrow> wbit ?ws c)"
    using bitmap_id_loop_spec[of "[]" ?ws] len bitmap_max_bounds[OF wf]
    by (auto simp: b_def split: option.splits)
  then have "0 < b" and "b \<le> c" using free by (auto simp: bitmap_bits_def intro: leI)
  then have "unat (of_nat b :: u32) \<noteq> 0"
    using free(2) by (simp add: unat_of_nat take_bit_nat_eq_self)
  then have "(of_nat b :: u32) \<noteq> 0" by auto
  then obtain mem' m' where "bitmap_set alloc mem m (of_nat b) = Inr (mem', m')"
    using bitmap_set_total[of mem m "of_nat b" alloc] wf al by blast
  moreover have "(case bitmap_id_loop (take ?mx ?ws) 0 of Some b \<Rightarrow> of_nat b | None \<Rightarrow> of_nat (?mx * 64))
      = (of_nat b :: u32)"
    using len by (simp add: b_def split: option.splits)
  ultimately show ?thesis by (auto simp: bitmap_id_get_def Let_def)
qed

section \<open>Properties\<close>

text \<open>
  A successful bitmap_set adds exactly the requested identifier, whether or not the map had
  to move its bits from the two inline words into a larger array, and every other identifier
  tests as before.
\<close>

lemma bitmap_set_test:
  assumes "allocator_ok alloc" and "bitmap_wf mem m" and "bitmap_set alloc mem m bid = Inr (mem', m')"
  shows "bitmap_wf mem' m' \<and> (\<forall>c. bitmap_test mem' m' c \<longleftrightarrow> c = bid \<or> bitmap_test mem m c)"
  using bitmap_set_bits[OF assms]
  by (auto simp: bitmap_test_bits[OF assms(2)] bitmap_test_bits dest: unsigned_word_eqI)



text \<open>
  Identifiers drawn one after another from a map are pairwise distinct, positive and none of
  them was in use before; together with the old ones they are exactly those in use afterwards.
\<close>

lemma bitmap_ids_distinct:
  assumes "allocator_ok alloc" and "bitmap_wf mem m"
    and "take_ids (bitmap_pool_get alloc) n (mem, m) = Some (ids, mem', m')"
  shows "distinct ids \<and> 0 \<notin> set ids \<and> set ids \<inter> bitmap_bits mem m = {} \<and>
    bitmap_bits mem' m' = bitmap_bits mem m \<union> set ids"
  by (rule aligned_allocator.bitmap_take_ids[OF aligned_allocator.intro[OF assms(1)] assms(2,3)])

text \<open>
  Calling bitmap_set on one map changes no bit of any other well-formed map that does not share its
  array, even when it frees and reallocates storage, and the global counters keep counting the
  live arrays and their bytes.
\<close>

lemma bitmap_set_isolated:
  assumes "allocator_ok alloc" and "bitmap_wf mem m" and "bitmap_set alloc mem m bid = Inr (mem', m')"
  shows "(\<forall>m2. bitmap_wf mem m2 \<and> bitmap_apart m m2 \<longrightarrow>
        bitmap_wf mem' m2 \<and> bitmap_bits mem' m2 = bitmap_bits mem m2) \<and>
     (bitmap_accounted mem \<longrightarrow> bitmap_accounted mem')"
proof (intro conjI allI impI)
  fix m2 assume "bitmap_wf mem m2 \<and> bitmap_apart m m2"
  then have "heap_agrees mem mem' m2" using bitmap_set_agrees[OF assms(1) _ _ assms(3)] by blast
  then have "bitmap_words mem' m2 = bitmap_words mem m2 \<and> bitmap_wf mem' m2 = bitmap_wf mem m2"
    by (rule heap_agrees_bits)
  then show "bitmap_wf mem' m2" and "bitmap_bits mem' m2 = bitmap_bits mem m2"
    using \<open>bitmap_wf mem m2 \<and> bitmap_apart m m2\<close> by (auto simp: bitmap_bits_def)
next
  assume "bitmap_accounted mem"
  then show "bitmap_accounted mem'" by (rule bitmap_set_accounted[OF assms(1) _ assms(2,3)])
qed

end
