(* ===== verification/Ibuf.thy ===== *)
theory Ibuf
  imports BGP_Prelude
begin

text \<open>
  The message buffers of lib/libutil/imsg-buffer.c, through which every BGP message is written and
  parsed: a byte array with a read and a write position, an upper limit on its size, and a mark
  for buffers that only view memory on the stack. Sizes are natural numbers with the size_t
  comparisons of the source written out. Whether an allocation of n bytes succeeds is the parameter
  can_alloc. The second half shows that reading and writing act on the unread bytes as on a queue,
  which is the view the parsers of the other theories use.
\<close>

section \<open>State\<close>

record ibuf =
  i_buf :: bytes
  i_max :: nat
  i_wpos :: nat
  i_rpos :: nat
  i_fd :: int

definition SIZE_MAX :: nat where
  "SIZE_MAX = 2 ^ 64 - 1"

definition IBUF_FD_MARK_ON_STACK :: int where
  "IBUF_FD_MARK_ON_STACK = -2"

abbreviation ibuf_alloc_size :: "ibuf \<Rightarrow> nat" where
  "ibuf_alloc_size b \<equiv> length (i_buf b)"

type_synonym can_alloc = "nat \<Rightarrow> bool"

section \<open>Writing\<close>

definition ibuf_open :: "can_alloc \<Rightarrow> nat \<Rightarrow> ibuf res" where
  "ibuf_open ca len =
     (if len > 0 \<and> \<not> ca len then Inl ENOMEM
      else Inr \<lparr>i_buf = replicate len 0, i_max = len, i_wpos = 0, i_rpos = 0, i_fd = -1\<rparr>)"

definition ibuf_dynamic :: "can_alloc \<Rightarrow> nat \<Rightarrow> nat \<Rightarrow> ibuf res" where
  "ibuf_dynamic ca len mx =
     (if mx = 0 \<or> mx < len then Inl EINVAL
      else if len > 0 \<and> \<not> ca len then Inl ENOMEM
      else Inr \<lparr>i_buf = replicate len 0, i_max = mx, i_wpos = 0, i_rpos = 0, i_fd = -1\<rparr>)"

text \<open>The result is the buffer and the offset of the reserved space in it.\<close>

definition ibuf_reserve :: "can_alloc \<Rightarrow> ibuf \<Rightarrow> nat \<Rightarrow> (ibuf \<times> nat) res" where
  "ibuf_reserve ca b len =
     (if len > SIZE_MAX - i_wpos b then Inl ERANGE
      else if i_fd b = IBUF_FD_MARK_ON_STACK then Inl EINVAL
      else if i_wpos b + len > ibuf_alloc_size b then
        (if i_wpos b + len > i_max b then Inl ERANGE
         else if \<not> ca (i_wpos b + len) then Inl ENOMEM
         else Inr (b\<lparr>i_buf := i_buf b @ replicate (i_wpos b + len - ibuf_alloc_size b) 0,
                     i_wpos := i_wpos b + len\<rparr>, i_wpos b))
      else Inr (b\<lparr>i_wpos := i_wpos b + len\<rparr>, i_wpos b))"

text \<open>memcpy() into the array at an offset.\<close>

definition write_at :: "ibuf \<Rightarrow> nat \<Rightarrow> bytes \<Rightarrow> ibuf" where
  "write_at b pos d = b\<lparr>i_buf := take pos (i_buf b) @ d @ drop (pos + length d) (i_buf b)\<rparr>"

definition ibuf_add :: "can_alloc \<Rightarrow> ibuf \<Rightarrow> bytes \<Rightarrow> ibuf res" where
  "ibuf_add ca b d =
     (if length d = 0 then Inr b
      else res_bind (ibuf_reserve ca b (length d)) (\<lambda>(b', pos). Inr (write_at b' pos d)))"

definition ibuf_data :: "ibuf \<Rightarrow> nat" where
  "ibuf_data b = i_rpos b"

definition ibuf_size :: "ibuf \<Rightarrow> nat" where
  "ibuf_size b = i_wpos b - i_rpos b"

text \<open>The bytes between the read and the write position.\<close>

definition ibuf_content :: "ibuf \<Rightarrow> bytes" where
  "ibuf_content b = take (ibuf_size b) (drop (ibuf_data b) (i_buf b))"

definition ibuf_add_ibuf :: "can_alloc \<Rightarrow> ibuf \<Rightarrow> ibuf \<Rightarrow> ibuf res" where
  "ibuf_add_ibuf ca b from = ibuf_add ca b (ibuf_content from)"

definition ibuf_add_n8 :: "can_alloc \<Rightarrow> ibuf \<Rightarrow> u64 \<Rightarrow> ibuf res" where
  "ibuf_add_n8 ca b v = (if v > 0xff then Inl EINVAL else ibuf_add ca b (be_word 1 (ucast v :: u8)))"

definition ibuf_add_n16 :: "can_alloc \<Rightarrow> ibuf \<Rightarrow> u64 \<Rightarrow> ibuf res" where
  "ibuf_add_n16 ca b v =
     (if v > 0xffff then Inl EINVAL else ibuf_add ca b (be_word 2 (ucast v :: u16)))"

definition ibuf_add_n32 :: "can_alloc \<Rightarrow> ibuf \<Rightarrow> u64 \<Rightarrow> ibuf res" where
  "ibuf_add_n32 ca b v =
     (if v > 0xffffffff then Inl EINVAL else ibuf_add ca b (be_word 4 (ucast v :: u32)))"

definition ibuf_add_n64 :: "can_alloc \<Rightarrow> ibuf \<Rightarrow> u64 \<Rightarrow> ibuf res" where
  "ibuf_add_n64 ca b v = ibuf_add ca b (be_word 8 v)"

definition ibuf_add_zero :: "can_alloc \<Rightarrow> ibuf \<Rightarrow> nat \<Rightarrow> ibuf res" where
  "ibuf_add_zero ca b len =
     (if len = 0 then Inr b
      else res_bind (ibuf_reserve ca b len) (\<lambda>(b', pos). Inr (write_at b' pos (replicate len 0))))"

section \<open>Access in place\<close>

definition ibuf_seek :: "ibuf \<Rightarrow> nat \<Rightarrow> nat \<Rightarrow> nat res" where
  "ibuf_seek b pos len =
     (if ibuf_size b < pos \<or> SIZE_MAX - pos < len \<or> ibuf_size b < pos + len then Inl ERANGE
      else Inr (i_rpos b + pos))"

definition ibuf_set :: "ibuf \<Rightarrow> nat \<Rightarrow> bytes \<Rightarrow> ibuf res" where
  "ibuf_set b pos d =
     res_bind (ibuf_seek b pos (length d))
       (\<lambda>off. if length d = 0 then Inr b else Inr (write_at b off d))"

definition ibuf_set_n8 :: "ibuf \<Rightarrow> nat \<Rightarrow> u64 \<Rightarrow> ibuf res" where
  "ibuf_set_n8 b pos v = (if v > 0xff then Inl EINVAL else ibuf_set b pos (be_word 1 (ucast v :: u8)))"

definition ibuf_set_n16 :: "ibuf \<Rightarrow> nat \<Rightarrow> u64 \<Rightarrow> ibuf res" where
  "ibuf_set_n16 b pos v =
     (if v > 0xffff then Inl EINVAL else ibuf_set b pos (be_word 2 (ucast v :: u16)))"

definition ibuf_set_n32 :: "ibuf \<Rightarrow> nat \<Rightarrow> u64 \<Rightarrow> ibuf res" where
  "ibuf_set_n32 b pos v =
     (if v > 0xffffffff then Inl EINVAL else ibuf_set b pos (be_word 4 (ucast v :: u32)))"

definition ibuf_set_n64 :: "ibuf \<Rightarrow> nat \<Rightarrow> u64 \<Rightarrow> ibuf res" where
  "ibuf_set_n64 b pos v = ibuf_set b pos (be_word 8 v)"

definition ibuf_set_maxsize :: "ibuf \<Rightarrow> nat \<Rightarrow> ibuf res" where
  "ibuf_set_maxsize b mx =
     (if i_fd b = IBUF_FD_MARK_ON_STACK then Inl EINVAL
      else if mx > i_max b then Inl ERANGE
      else if i_wpos b > mx then Inl ERANGE
      else Inr (b\<lparr>i_buf := (if ibuf_alloc_size b > mx then take mx (i_buf b) else i_buf b), i_max := mx\<rparr>))"

definition ibuf_left :: "ibuf \<Rightarrow> nat" where
  "ibuf_left b = (if i_fd b = IBUF_FD_MARK_ON_STACK then 0 else i_max b - i_wpos b)"

definition ibuf_truncate :: "can_alloc \<Rightarrow> ibuf \<Rightarrow> nat \<Rightarrow> ibuf res" where
  "ibuf_truncate ca b len =
     (if ibuf_size b \<ge> len then Inr (b\<lparr>i_wpos := i_rpos b + len\<rparr>)
      else if i_fd b = IBUF_FD_MARK_ON_STACK then Inl ERANGE
      else ibuf_add_zero ca b (len - ibuf_size b))"

definition ibuf_rewind :: "ibuf \<Rightarrow> ibuf" where
  "ibuf_rewind b = b\<lparr>i_rpos := 0\<rparr>"

section \<open>Reading\<close>

definition ibuf_from_buffer :: "bytes \<Rightarrow> ibuf" where
  "ibuf_from_buffer d =
     \<lparr>i_buf = d, i_max = 0, i_wpos = length d, i_rpos = 0, i_fd = IBUF_FD_MARK_ON_STACK\<rparr>"

definition ibuf_from_ibuf :: "ibuf \<Rightarrow> ibuf" where
  "ibuf_from_ibuf from = ibuf_from_buffer (ibuf_content from)"

definition ibuf_get :: "ibuf \<Rightarrow> nat \<Rightarrow> (bytes \<times> ibuf) res" where
  "ibuf_get b len =
     (if ibuf_size b < len then Inl EBADMSG
      else Inr (take len (drop (ibuf_data b) (i_buf b)), b\<lparr>i_rpos := i_rpos b + len\<rparr>))"

definition ibuf_get_ibuf :: "ibuf \<Rightarrow> nat \<Rightarrow> (ibuf \<times> ibuf) res" where
  "ibuf_get_ibuf b len =
     (if ibuf_size b < len then Inl EBADMSG
      else Inr (ibuf_from_buffer (take len (drop (ibuf_data b) (i_buf b))), b\<lparr>i_rpos := i_rpos b + len\<rparr>))"

definition ibuf_get_n8 :: "ibuf \<Rightarrow> (u8 \<times> ibuf) res" where
  "ibuf_get_n8 b = res_bind (ibuf_get b 1) (\<lambda>(d, b'). Inr (word_be d, b'))"

definition ibuf_get_n16 :: "ibuf \<Rightarrow> (u16 \<times> ibuf) res" where
  "ibuf_get_n16 b = res_bind (ibuf_get b 2) (\<lambda>(d, b'). Inr (word_be d, b'))"

definition ibuf_get_n32 :: "ibuf \<Rightarrow> (u32 \<times> ibuf) res" where
  "ibuf_get_n32 b = res_bind (ibuf_get b 4) (\<lambda>(d, b'). Inr (word_be d, b'))"

definition ibuf_get_n64 :: "ibuf \<Rightarrow> (u64 \<times> ibuf) res" where
  "ibuf_get_n64 b = res_bind (ibuf_get b 8) (\<lambda>(d, b'). Inr (word_be d, b'))"

text \<open>strndup() of the next len bytes: the string ends at the first NUL.\<close>

definition ibuf_get_string :: "can_alloc \<Rightarrow> ibuf \<Rightarrow> nat \<Rightarrow> (bytes \<times> ibuf) res" where
  "ibuf_get_string ca b len =
     (if ibuf_size b < len then Inl EBADMSG
      else let str = takeWhile (\<lambda>c. c \<noteq> 0) (take len (drop (ibuf_data b) (i_buf b)))
        in if \<not> ca (length str + 1) then Inl ENOMEM else Inr (str, b\<lparr>i_rpos := i_rpos b + len\<rparr>))"

text \<open>Reads a fixed-size string field; the read position moves even when the NUL is missing.\<close>

definition ibuf_get_strbuf :: "ibuf \<Rightarrow> nat \<Rightarrow> ibuf \<times> bytes res" where
  "ibuf_get_strbuf b len =
     (if len = 0 then (b, Inl EINVAL)
      else case ibuf_get b len of
        Inl e \<Rightarrow> (b, Inl e)
      | Inr (str, b') \<Rightarrow>
          let n = length (takeWhile (\<lambda>c. c \<noteq> 0) str)
          in if n = len then (b', Inl EOVERFLOW) else (b', Inr (take n str @ replicate (len - n) 0)))"

definition ibuf_skip :: "ibuf \<Rightarrow> nat \<Rightarrow> ibuf res" where
  "ibuf_skip b len = (if ibuf_size b < len then Inl EBADMSG else Inr (b\<lparr>i_rpos := i_rpos b + len\<rparr>))"

text \<open>A descriptor riding on a buffer; the abort() on stack buffers is Fatal.\<close>

definition ibuf_fd_avail :: "ibuf \<Rightarrow> bool" where
  "ibuf_fd_avail b = (i_fd b \<ge> 0)"

definition ibuf_fd_get :: "ibuf \<Rightarrow> int \<times> ibuf" where
  "ibuf_fd_get b = (if i_fd b < 0 then (-1, b) else (i_fd b, b\<lparr>i_fd := -1\<rparr>))"

definition ibuf_fd_set :: "ibuf \<Rightarrow> int \<Rightarrow> ibuf res" where
  "ibuf_fd_set b f =
     (if i_fd b = IBUF_FD_MARK_ON_STACK then Inl Fatal
      else Inr (b\<lparr>i_fd := (if f \<ge> 0 then f else -1)\<rparr>))"

section \<open>Invariant\<close>

definition ibuf_wf :: "ibuf \<Rightarrow> bool" where
  "ibuf_wf b \<longleftrightarrow> i_rpos b \<le> i_wpos b \<and> i_wpos b \<le> ibuf_alloc_size b \<and>
     (i_fd b \<noteq> IBUF_FD_MARK_ON_STACK \<longrightarrow> ibuf_alloc_size b \<le> i_max b)"

lemmas ibuf_view = ibuf_wf_def ibuf_content_def ibuf_size_def ibuf_data_def

lemma length_ibuf_content [simp]: "ibuf_wf b \<Longrightarrow> length (ibuf_content b) = ibuf_size b"
  by (auto simp: ibuf_view)

lemma ibuf_open_wf: "ibuf_open ca len = Inr b \<Longrightarrow> ibuf_wf b \<and> ibuf_content b = []"
  by (auto simp: ibuf_open_def ibuf_view split: if_splits)

lemma ibuf_dynamic_wf: "ibuf_dynamic ca len mx = Inr b \<Longrightarrow> ibuf_wf b \<and> ibuf_content b = []"
  by (auto simp: ibuf_dynamic_def ibuf_view split: if_splits)

lemma ibuf_from_buffer_wf: "ibuf_wf (ibuf_from_buffer d) \<and> ibuf_content (ibuf_from_buffer d) = d"
  by (simp add: ibuf_from_buffer_def ibuf_view)

text \<open>
  A reservation leaves the old bytes in place, adds len bytes of room and never exceeds the limit.
\<close>

lemma ibuf_reserve_spec:
  assumes "ibuf_wf b" and "ibuf_reserve ca b len = Inr (b', pos)"
  shows "pos = i_wpos b" and "i_wpos b' = i_wpos b + len" and "i_rpos b' = i_rpos b"
    and "i_fd b' = i_fd b" and "i_max b' = i_max b"
    and "i_wpos b' \<le> ibuf_alloc_size b'" and "ibuf_alloc_size b' \<le> i_max b'"
    and "take (i_wpos b) (i_buf b') = take (i_wpos b) (i_buf b)"
  using assms by (auto simp: ibuf_reserve_def ibuf_wf_def split: if_splits)

lemma ibuf_reserve_write:
  assumes wf: "ibuf_wf b" and rs: "ibuf_reserve ca b (length d) = Inr (b', pos)"
  shows "ibuf_wf (write_at b' pos d)" and "ibuf_content (write_at b' pos d) = ibuf_content b @ d"
proof -
  note sp = ibuf_reserve_spec[OF wf rs]
  let ?w = "i_wpos b" and ?r = "i_rpos b"
  have rw: "?r \<le> ?w" and wl: "?w \<le> length (i_buf b')" and wb: "?w \<le> length (i_buf b)"
    using wf sp by (auto simp: ibuf_wf_def)
  show "ibuf_wf (write_at b' pos d)"
    using sp rw wl wb by (auto simp: ibuf_wf_def write_at_def min_def)
  have "ibuf_content (write_at b' pos d)
      = take (?w + length d - ?r) (drop ?r (take ?w (i_buf b) @ d @ drop (?w + length d) (i_buf b')))"
    using sp by (simp add: ibuf_content_def ibuf_size_def ibuf_data_def write_at_def)
  also have "\<dots> = drop ?r (take ?w (i_buf b)) @ d"
    using rw wl wf by (simp add: ibuf_wf_def min_def)
  also have "drop ?r (take ?w (i_buf b)) = ibuf_content b"
    by (simp add: ibuf_content_def ibuf_size_def ibuf_data_def drop_take)
  finally show "ibuf_content (write_at b' pos d) = ibuf_content b @ d" .
qed

lemma ibuf_add_content:
  assumes "ibuf_wf b" and "ibuf_add ca b d = Inr b'"
  shows "ibuf_wf b' \<and> ibuf_content b' = ibuf_content b @ d"
  using assms ibuf_reserve_write[OF assms(1)]
  by (auto simp: ibuf_add_def res_bind_Inr_iff split: if_splits)

lemma ibuf_add_zero_content:
  assumes "ibuf_wf b" and "ibuf_add_zero ca b n = Inr b'"
  shows "ibuf_wf b' \<and> ibuf_content b' = ibuf_content b @ replicate n 0"
  using assms ibuf_reserve_write[OF assms(1), of ca "replicate n 0"]
  by (auto simp: ibuf_add_zero_def res_bind_Inr_iff split: if_splits)

text \<open>Within its limit a heap buffer accepts the bytes if memory is available.\<close>

lemma ibuf_add_ok:
  assumes "ibuf_wf b" and "i_fd b \<noteq> IBUF_FD_MARK_ON_STACK" and "\<And>n. ca n"
    and "length d \<le> ibuf_left b" and "i_max b \<le> SIZE_MAX"
  shows "\<exists>b'. ibuf_add ca b d = Inr b'"
  using assms by (auto simp: ibuf_add_def ibuf_reserve_def ibuf_left_def ibuf_wf_def)

text \<open>Buffers with room for n more bytes: with memory available, adding what fits succeeds.\<close>

definition roomy :: "ibuf \<Rightarrow> nat \<Rightarrow> bool" where
  "roomy b n = (ibuf_wf b \<and> i_fd b \<noteq> IBUF_FD_MARK_ON_STACK \<and> i_max b \<le> SIZE_MAX \<and> n \<le> ibuf_left b)"

lemma ibuf_add_roomy:
  assumes "roomy b (length d + n)" "\<forall>n. ca n"
  shows "\<exists>b'. ibuf_add ca b d = Inr b' \<and> roomy b' n \<and> ibuf_content b' = ibuf_content b @ d"
proof -
  have r: "ibuf_wf b" "i_fd b \<noteq> IBUF_FD_MARK_ON_STACK" "i_max b \<le> SIZE_MAX" "length d + n \<le> ibuf_left b"
    using assms(1) by (auto simp: roomy_def)
  then obtain b' where b': "ibuf_add ca b d = Inr b'" using ibuf_add_ok[OF r(1,2), of ca d] assms(2) by auto
  have "i_fd b' = i_fd b \<and> i_max b' = i_max b \<and> i_wpos b' = i_wpos b + length d"
    using b' ibuf_reserve_spec[OF r(1), of ca "length d"] by (auto simp: ibuf_add_def res_bind_Inr_iff write_at_def split: if_splits)
  then show ?thesis using b' ibuf_add_content[OF r(1) b'] r by (auto simp: roomy_def ibuf_left_def)
qed

lemma ibuf_get_content:
  assumes "ibuf_wf b" and "ibuf_get b n = Inr (d, b')"
  shows "ibuf_wf b' \<and> ibuf_content b = d @ ibuf_content b' \<and> length d = n"
proof -
  have n: "n \<le> i_wpos b - i_rpos b" and d: "d = take n (drop (i_rpos b) (i_buf b))"
    and b': "b' = b\<lparr>i_rpos := i_rpos b + n\<rparr>"
    using assms(2) by (auto simp: ibuf_get_def ibuf_size_def ibuf_data_def split: if_splits)
  have "take (i_wpos b - i_rpos b) (drop (i_rpos b) (i_buf b))
      = take n (drop (i_rpos b) (i_buf b)) @ take (i_wpos b - i_rpos b - n) (drop n (drop (i_rpos b) (i_buf b)))"
    using n by (metis le_add_diff_inverse take_add)
  then show ?thesis
    using assms(1) n d b' by (auto simp: ibuf_view add.commute)
qed

lemma ibuf_get_fails_iff:
  "ibuf_wf b \<Longrightarrow> (\<exists>e. ibuf_get b n = Inl e) \<longleftrightarrow> length (ibuf_content b) < n"
  by (simp add: ibuf_get_def)

lemma ibuf_skip_content:
  assumes "ibuf_wf b" and "ibuf_skip b n = Inr b'"
  shows "ibuf_wf b' \<and> ibuf_content b' = drop n (ibuf_content b)"
proof -
  have "ibuf_get b n = Inr (take n (drop (ibuf_data b) (i_buf b)), b')"
    using assms(2) by (auto simp: ibuf_skip_def ibuf_get_def split: if_splits)
  from ibuf_get_content[OF assms(1) this] show ?thesis by auto
qed

lemma ibuf_set_content:
  assumes wf: "ibuf_wf b" and st: "ibuf_set b pos d = Inr b'"
  shows "ibuf_wf b' \<and>
    ibuf_content b' = take pos (ibuf_content b) @ d @ drop (pos + length d) (ibuf_content b)"
proof (cases "d = []")
  case True
  then show ?thesis using assms by (auto simp: ibuf_set_def res_bind_Inr_iff)
next
  case False
  let ?r = "i_rpos b" and ?n = "i_wpos b - i_rpos b" and ?bs = "i_buf b"
  have fit: "pos + length d \<le> ?n" and b': "b' = write_at b (?r + pos) d"
    using st False by (auto simp: ibuf_set_def res_bind_Inr_iff ibuf_seek_def ibuf_size_def split: if_splits)
  have rw: "?r \<le> i_wpos b" "i_wpos b \<le> length ?bs" using wf by (auto simp: ibuf_wf_def)
  have cut: "drop ?r (take (?r + pos) ?bs) = take pos (drop ?r ?bs)"
    by (simp add: drop_take)
  have len: "length (take (?r + pos) ?bs) = ?r + pos" using fit rw by auto
  have "ibuf_content b' = take ?n (take pos (drop ?r ?bs) @ d @ drop (?r + pos + length d) ?bs)"
    using len cut by (simp add: b' write_at_def ibuf_content_def ibuf_size_def ibuf_data_def)
  also have "\<dots> = take pos (drop ?r ?bs) @ d @ take (?n - pos - length d) (drop (?r + pos + length d) ?bs)"
  proof -
    have "length (take pos (drop ?r ?bs)) = pos" using fit rw by auto
    then show ?thesis using fit by (simp only: take_append append.assoc) simp
  qed
  also have "take pos (drop ?r ?bs) = take pos (ibuf_content b)"
    using fit by (simp add: ibuf_content_def ibuf_size_def ibuf_data_def min_def)
  also have "take (?n - pos - length d) (drop (?r + pos + length d) ?bs) = drop (pos + length d) (ibuf_content b)"
    by (simp add: ibuf_content_def ibuf_size_def ibuf_data_def drop_take add.commute add.left_commute)
  finally have "ibuf_content b' = take pos (ibuf_content b) @ d @ drop (pos + length d) (ibuf_content b)" .
  moreover have "ibuf_wf b'"
    using wf fit rw len by (auto simp: b' write_at_def ibuf_wf_def)
  ultimately show ?thesis by blast
qed

section \<open>Every use of a buffer keeps the invariant\<close>

text \<open>One rule per operation that changes a buffer; a failed operation leaves it alone.\<close>

inductive ibuf_step :: "can_alloc \<Rightarrow> ibuf \<Rightarrow> ibuf \<Rightarrow> bool" for ca where
  step_reserve: "ibuf_reserve ca b n = Inr (b', pos) \<Longrightarrow> ibuf_step ca b b'"
| step_add: "ibuf_add ca b d = Inr b' \<Longrightarrow> ibuf_step ca b b'"
| step_add_zero: "ibuf_add_zero ca b n = Inr b' \<Longrightarrow> ibuf_step ca b b'"
| step_set: "ibuf_set b pos d = Inr b' \<Longrightarrow> ibuf_step ca b b'"
| step_set_maxsize: "ibuf_set_maxsize b n = Inr b' \<Longrightarrow> ibuf_step ca b b'"
| step_truncate: "ibuf_truncate ca b n = Inr b' \<Longrightarrow> ibuf_step ca b b'"
| step_rewind: "ibuf_step ca b (ibuf_rewind b)"
| step_get: "ibuf_get b n = Inr (d, b') \<Longrightarrow> ibuf_step ca b b'"
| step_get_ibuf: "ibuf_get_ibuf b n = Inr (sub, b') \<Longrightarrow> ibuf_step ca b b'"
| step_get_string: "ibuf_get_string ca b n = Inr (d, b') \<Longrightarrow> ibuf_step ca b b'"
| step_get_strbuf: "ibuf_get_strbuf b n = (b', r) \<Longrightarrow> ibuf_step ca b b'"
| step_skip: "ibuf_skip b n = Inr b' \<Longrightarrow> ibuf_step ca b b'"
| step_fd_get: "ibuf_fd_get b = (f, b') \<Longrightarrow> ibuf_step ca b b'"
| step_fd_set: "ibuf_fd_set b f = Inr b' \<Longrightarrow> ibuf_step ca b b'"

inductive ibuf_reachable :: "can_alloc \<Rightarrow> ibuf \<Rightarrow> bool" for ca where
  reach_open: "ibuf_open ca n = Inr b \<Longrightarrow> ibuf_reachable ca b"
| reach_dynamic: "ibuf_dynamic ca n mx = Inr b \<Longrightarrow> ibuf_reachable ca b"
| reach_buffer: "ibuf_reachable ca (ibuf_from_buffer d)"
| reach_step: "ibuf_reachable ca b \<Longrightarrow> ibuf_step ca b b' \<Longrightarrow> ibuf_reachable ca b'"

lemma ibuf_advance_wf: "ibuf_wf b \<Longrightarrow> n \<le> ibuf_size b \<Longrightarrow> ibuf_wf (b\<lparr>i_rpos := i_rpos b + n\<rparr>)"
  by (auto simp: ibuf_wf_def ibuf_size_def)

lemma ibuf_reserve_wf: "ibuf_wf b \<Longrightarrow> ibuf_reserve ca b n = Inr (b', pos) \<Longrightarrow> ibuf_wf b'"
  by (auto simp: ibuf_reserve_def ibuf_wf_def split: if_splits)

lemma ibuf_set_maxsize_wf: "ibuf_wf b \<Longrightarrow> ibuf_set_maxsize b n = Inr b' \<Longrightarrow> ibuf_wf b'"
  by (auto simp: ibuf_set_maxsize_def ibuf_wf_def split: if_splits)

lemma ibuf_truncate_wf: "ibuf_wf b \<Longrightarrow> ibuf_truncate ca b n = Inr b' \<Longrightarrow> ibuf_wf b'"
  using ibuf_add_zero_content[of b ca "n - ibuf_size b" b']
  by (auto simp: ibuf_truncate_def ibuf_wf_def ibuf_size_def split: if_splits)

lemma ibuf_get_strbuf_wf: "ibuf_wf b \<Longrightarrow> ibuf_get_strbuf b n = (b', r) \<Longrightarrow> ibuf_wf b'"
  using ibuf_get_content[of b n]
  by (auto simp: ibuf_get_strbuf_def Let_def split: if_splits sum.splits)

lemma ibuf_step_wf: "ibuf_step ca b b' \<Longrightarrow> ibuf_wf b \<Longrightarrow> ibuf_wf b'"
proof (induction rule: ibuf_step.induct)
  case (step_rewind b)
  then show ?case by (auto simp: ibuf_rewind_def ibuf_wf_def)
next
  case (step_get_ibuf b n sub b')
  then show ?case by (auto simp: ibuf_get_ibuf_def ibuf_advance_wf split: if_splits)
next
  case (step_get_string b n d b')
  then show ?case by (auto simp: ibuf_get_string_def Let_def ibuf_advance_wf split: if_splits)
next
  case (step_fd_get b f b')
  then show ?case by (auto simp: ibuf_fd_get_def ibuf_wf_def IBUF_FD_MARK_ON_STACK_def split: if_splits)
next
  case (step_fd_set b f b')
  then show ?case by (auto simp: ibuf_fd_set_def ibuf_wf_def split: if_splits)
qed (auto dest: ibuf_reserve_wf ibuf_add_content ibuf_add_zero_content ibuf_set_content
  ibuf_set_maxsize_wf ibuf_truncate_wf ibuf_get_content ibuf_get_strbuf_wf ibuf_skip_content)

lemma ibuf_reachable_wf: "ibuf_reachable ca b \<Longrightarrow> ibuf_wf b"
proof (induction rule: ibuf_reachable.induct)
  case (reach_step b b')
  then show ?case by (blast intro: ibuf_step_wf)
qed (use ibuf_open_wf ibuf_dynamic_wf ibuf_from_buffer_wf in blast)+

section \<open>Buffers as queues of bytes\<close>

primrec put_all :: "('b \<Rightarrow> bytes \<Rightarrow> 'b res) \<Rightarrow> 'b \<Rightarrow> bytes list \<Rightarrow> 'b res" where
  "put_all put b [] = Inr b"
| "put_all put b (d # ds) = res_bind (put b d) (\<lambda>b'. put_all put b' ds)"

primrec get_all :: "('b \<Rightarrow> nat \<Rightarrow> (bytes \<times> 'b) res) \<Rightarrow> 'b \<Rightarrow> nat list \<Rightarrow> (bytes list \<times> 'b) res" where
  "get_all get b [] = Inr ([], b)"
| "get_all get b (n # ns) =
     res_bind (get b n) (\<lambda>(d, b'). res_bind (get_all get b' ns) (\<lambda>(ds, b''). Inr (d # ds, b'')))"

locale byte_queue =
  fixes content :: "'b \<Rightarrow> bytes"
    and inv :: "'b \<Rightarrow> bool"
    and put :: "'b \<Rightarrow> bytes \<Rightarrow> 'b res"
    and get :: "'b \<Rightarrow> nat \<Rightarrow> (bytes \<times> 'b) res"
  assumes put_content: "inv b \<Longrightarrow> put b d = Inr b' \<Longrightarrow> inv b' \<and> content b' = content b @ d"
    and get_content: "inv b \<Longrightarrow> get b n = Inr (d, b') \<Longrightarrow>
      inv b' \<and> content b = d @ content b' \<and> length d = n"
    and get_ok: "inv b \<Longrightarrow> n \<le> length (content b) \<Longrightarrow> \<exists>d b'. get b n = Inr (d, b')"
begin

lemma put_all_content:
  "inv b \<Longrightarrow> put_all put b ds = Inr b' \<Longrightarrow> inv b' \<and> content b' = content b @ concat ds"
proof (induction ds arbitrary: b)
  case Nil
  then show ?case by simp
next
  case (Cons d ds)
  then obtain b1 where "put b d = Inr b1" and "put_all put b1 ds = Inr b'"
    by (auto simp: res_bind_Inr_iff)
  with Cons put_content show ?case by fastforce
qed

lemma get_all_content:
  "inv b \<Longrightarrow> content b = concat ds @ rest \<Longrightarrow>
     \<exists>b'. get_all get b (map length ds) = Inr (ds, b') \<and> inv b' \<and> content b' = rest"
proof (induction ds arbitrary: b)
  case Nil
  then show ?case by simp
next
  case (Cons d ds)
  obtain x b1 where g: "get b (length d) = Inr (x, b1)"
    using get_ok[OF Cons.prems(1), of "length d"] Cons.prems(2) by auto
  have i1: "inv b1" and eq: "content b = x @ content b1" "length x = length d"
    using get_content[OF Cons.prems(1) g] by auto
  have "x = d" and c1: "content b1 = concat ds @ rest" using eq Cons.prems(2) by auto
  obtain b2 where "get_all get b1 (map length ds) = Inr (ds, b2) \<and> inv b2 \<and> content b2 = rest"
    using Cons.IH[OF i1 c1] by blast
  then show ?case using g \<open>x = d\<close> by simp
qed

text \<open>Fields come out as they went in, in order, and nothing is left over.\<close>

lemma put_get_all:
  assumes "inv b" and "content b = []" and "put_all put b ds = Inr b'"
  shows "\<exists>b''. get_all get b' (map length ds) = Inr (ds, b'') \<and> content b'' = []"
  using put_all_content[OF assms(1,3)] get_all_content[of b' ds "[]"] assms(2) by auto

end

interpretation ib: byte_queue ibuf_content ibuf_wf "ibuf_add ca" ibuf_get for ca
proof
  fix b n
  assume "ibuf_wf b" and "n \<le> length (ibuf_content b)"
  then show "\<exists>d b'. ibuf_get b n = Inr (d, b')" by (simp add: ibuf_get_def)
qed (use ibuf_add_content ibuf_get_content in blast)+

section \<open>The reader's view: parsing a list of bytes\<close>

text \<open>
  The parsers of the daemon only consume the unread bytes. They are modelled over lists of
  bytes with the functions below, which the buffer functions refine.
\<close>

definition get_bytes :: "nat \<Rightarrow> bytes \<Rightarrow> (bytes \<times> bytes) res" where
  "get_bytes n bs = (if length bs < n then Inl EBADMSG else Inr (take n bs, drop n bs))"

definition get_n8 :: "bytes \<Rightarrow> (u8 \<times> bytes) res" where
  "get_n8 bs = res_bind (get_bytes 1 bs) (\<lambda>(d, r). Inr (word_be d, r))"

definition get_n16 :: "bytes \<Rightarrow> (u16 \<times> bytes) res" where
  "get_n16 bs = res_bind (get_bytes 2 bs) (\<lambda>(d, r). Inr (word_be d, r))"

definition get_n32 :: "bytes \<Rightarrow> (u32 \<times> bytes) res" where
  "get_n32 bs = res_bind (get_bytes 4 bs) (\<lambda>(d, r). Inr (word_be d, r))"

definition get_n64 :: "bytes \<Rightarrow> (u64 \<times> bytes) res" where
  "get_n64 bs = res_bind (get_bytes 8 bs) (\<lambda>(d, r). Inr (word_be d, r))"

text \<open>The unread bytes of the buffer a read leaves behind.\<close>

definition view_res :: "('a \<times> ibuf) res \<Rightarrow> ('a \<times> bytes) res" where
  "view_res r = map_sum id (map_prod id ibuf_content) r"

lemma ibuf_get_view: "ibuf_wf b \<Longrightarrow> view_res (ibuf_get b n) = get_bytes n (ibuf_content b)"
proof (cases "ibuf_get b n")
  case (Inl e)
  assume "ibuf_wf b"
  with Inl show ?thesis by (auto simp: ibuf_get_def get_bytes_def view_res_def split: if_splits)
next
  case (Inr p)
  assume wf: "ibuf_wf b"
  obtain d b' where p: "p = (d, b')" by force
  have "ibuf_content b = d @ ibuf_content b'" "length d = n"
    using ibuf_get_content[OF wf] Inr p by auto
  then show ?thesis using Inr p by (simp add: get_bytes_def view_res_def)
qed

lemma view_res_bind:
  "view_res (res_bind r (\<lambda>(d, b). Inr (f d, b))) = res_bind (view_res r) (\<lambda>(d, c). Inr (f d, c))"
  by (cases r) (auto simp: view_res_def)

lemma get_bytes_append [simp]: "length d = n \<Longrightarrow> get_bytes n (d @ r) = Inr (d, r)"
  by (simp add: get_bytes_def)

lemma get_n8_Cons [simp]: "get_n8 (x # r) = Inr (x, r)"
  by (simp add: get_n8_def get_bytes_def word_be_def nat_be_def)

lemma get_n8_Nil [simp]: "get_n8 [] = Inl EBADMSG"
  by (simp add: get_n8_def get_bytes_def)

lemma get_n16_append [simp]: "get_n16 (be_word 2 (v :: u16) @ r) = Inr (v, r)"
  by (simp add: get_n16_def word_be_be_word)

lemma get_n32_append [simp]: "get_n32 (be_word 4 (v :: u32) @ r) = Inr (v, r)"
  by (simp add: get_n32_def word_be_be_word)

lemma get_n64_append [simp]: "get_n64 (be_word 8 (v :: u64) @ r) = Inr (v, r)"
  by (simp add: get_n64_def word_be_be_word)

lemma get_n16_Inr: "get_n16 bs = Inr (v, r) \<Longrightarrow> bs = be_word 2 v @ r"
  by (auto simp: get_n16_def get_bytes_def res_bind_Inr_iff be_word_word_be split: if_splits)

lemma get_n32_Inr: "get_n32 bs = Inr (v, r) \<Longrightarrow> bs = be_word 4 v @ r"
  by (auto simp: get_n32_def get_bytes_def res_bind_Inr_iff be_word_word_be split: if_splits)

lemma get_n64_Inr: "get_n64 bs = Inr (v, r) \<Longrightarrow> bs = be_word 8 v @ r"
  by (auto simp: get_n64_def get_bytes_def res_bind_Inr_iff be_word_word_be split: if_splits)

text \<open>
  Writing to a buffer of fixed capacity, as ibuf_open() returns it, seen as appending to the list
  of its bytes.
\<close>

definition put_bytes :: "nat \<Rightarrow> bytes \<Rightarrow> bytes \<Rightarrow> bytes res" where
  "put_bytes cap out d =
     (if d = [] then Inr out
      else if length out + length d > cap then Inl ERANGE else Inr (out @ d))"

lemma put_bytes_fits: "length out + length d \<le> cap \<Longrightarrow> put_bytes cap out d = Inr (out @ d)"
  by (auto simp: put_bytes_def)

lemma ibuf_add_put_bytes:
  assumes "ibuf_wf b" and "i_rpos b = 0" and "length (i_buf b) = i_max b" and "i_max b \<le> SIZE_MAX"
    and "i_fd b \<noteq> IBUF_FD_MARK_ON_STACK"
  shows "map_sum id ibuf_content (ibuf_add ca b d) = put_bytes (i_max b) (ibuf_content b) d"
proof (cases "d = []")
  case True
  then show ?thesis by (simp add: ibuf_add_def put_bytes_def)
next
  case False
  have len: "length (ibuf_content b) = i_wpos b"
    using assms(1,2) length_ibuf_content[of b] by (simp add: ibuf_size_def)
  show ?thesis
  proof (cases "i_wpos b + length d > i_max b")
    case True
    then show ?thesis
      using False assms len by (auto simp: ibuf_add_def ibuf_reserve_def put_bytes_def)
  next
    case fits: False
    have "\<not> length d > SIZE_MAX - i_wpos b" using fits assms(4) by linarith
    then obtain b' where a: "ibuf_add ca b d = Inr b'"
      using fits False assms(3,5) by (simp add: ibuf_add_def ibuf_reserve_def)
    then show ?thesis
      using ib.put_content[OF assms(1) a] fits len False by (simp add: put_bytes_def)
  qed
qed

section \<open>Properties\<close>

text \<open>
  C24: in every buffer reachable through the interface the read position is at most the write
  position, the write position lies within the allocated memory, and a buffer on the heap never
  grows beyond its limit; so no operation touches memory outside the buffer.
\<close>

theorem ibuf_positions_in_bounds:
  assumes "ibuf_reachable ca b"
  shows "i_rpos b \<le> i_wpos b \<and> i_wpos b \<le> length (i_buf b) \<and>
    (i_fd b \<noteq> IBUF_FD_MARK_ON_STACK \<longrightarrow> length (i_buf b) \<le> i_max b)"
  using ibuf_reachable_wf[OF assms] by (simp add: ibuf_wf_def)

theorem ibuf_positions_in_bounds_witness:
  "\<exists>b. ibuf_reachable (\<lambda>_. True) b \<and> i_wpos b = 2 \<and> i_wpos b \<le> length (i_buf b)"
proof -
  let ?ca = "\<lambda>_. True"
  obtain b0 where o: "ibuf_dynamic ?ca 0 4 = Inr b0" by (simp add: ibuf_dynamic_def)
  obtain b where a: "ibuf_add ?ca b0 [1, 2] = Inr b" and w: "i_wpos b = 2"
    using o by (auto simp: ibuf_dynamic_def ibuf_add_def ibuf_reserve_def write_at_def
        IBUF_FD_MARK_ON_STACK_def SIZE_MAX_def)
  have "ibuf_reachable ?ca b"
    by (rule reach_step[OF reach_dynamic[OF o] step_add[OF a]])
  then show ?thesis using ibuf_positions_in_bounds[of ?ca b] w by blast
qed

text \<open>
  C25: whatever fields are appended to an empty buffer are read back in the same order, each
  whole, and then the buffer is empty.
\<close>

theorem ibuf_fields_roundtrip:
  assumes "ibuf_wf b" and "ibuf_size b = 0" and "put_all (ibuf_add ca) b ds = Inr b'"
  shows "\<exists>b''. get_all ibuf_get b' (map length ds) = Inr (ds, b'') \<and> ibuf_size b'' = 0"
proof -
  have "ibuf_content b = []" using assms(2) by (simp add: ibuf_content_def)
  from ib.put_get_all[OF assms(1) this assms(3)]
  obtain b'' where g: "get_all ibuf_get b' (map length ds) = Inr (ds, b'')" and "ibuf_content b'' = []"
    by blast
  moreover have "ibuf_wf b''"
  proof -
    have wf': "ibuf_wf b'" and c': "ibuf_content b' = concat ds @ []"
      using ib.put_all_content[OF assms(1,3)] \<open>ibuf_content b = []\<close> by auto
    from ib.get_all_content[OF wf' c'] g show ?thesis by auto
  qed
  ultimately show ?thesis using length_ibuf_content[of b''] by auto
qed

theorem ibuf_fields_roundtrip_witness:
  "\<exists>b b' b''. ibuf_open (\<lambda>_. True) 8 = Inr b \<and>
     put_all (ibuf_add (\<lambda>_. True)) b [[1, 2], [], [3]] = Inr b' \<and>
     get_all ibuf_get b' (map length [[1, 2 :: u8], [], [3]]) = Inr ([[1, 2], [], [3]], b'')"
proof -
  obtain b where o: "ibuf_open (\<lambda>_. True) 8 = Inr b" by (simp add: ibuf_open_def)
  have wf: "ibuf_wf b" and "ibuf_content b = []" using ibuf_open_wf[OF o] by auto
  then have sz: "ibuf_size b = 0" using length_ibuf_content[of b] by simp
  obtain b' where p: "put_all (ibuf_add (\<lambda>_. True)) b [[1, 2], [], [3]] = Inr b'"
    using o by (auto simp: ibuf_open_def ibuf_add_def ibuf_reserve_def write_at_def
        IBUF_FD_MARK_ON_STACK_def SIZE_MAX_def)
  show ?thesis using o p ibuf_fields_roundtrip[OF wf sz p] by blast
qed

text \<open>
  Reading a 32-bit number in network byte order from a buffer is parsing the list of its
  unread bytes, and a number appended to a buffer with no unread bytes is read back unchanged;
  values that do not fit are refused.
\<close>

lemma ibuf_n32_roundtrip:
  assumes "ibuf_wf b"
  shows "view_res (ibuf_get_n32 b) = get_n32 (ibuf_content b) \<and>
    (\<forall>b'. ibuf_content b = [] \<and> ibuf_add_n32 ca b v = Inr b' \<longrightarrow>
       v \<le> 0xffffffff \<and> (\<exists>b''. ibuf_get_n32 b' = Inr (ucast v, b'') \<and> ibuf_content b'' = []))"
proof (intro conjI allI impI)
  show "view_res (ibuf_get_n32 b) = get_n32 (ibuf_content b)"
    using assms by (simp add: ibuf_get_n32_def get_n32_def view_res_bind ibuf_get_view)
next
  fix b' assume a: "ibuf_content b = [] \<and> ibuf_add_n32 ca b v = Inr b'"
  then have v: "v \<le> 0xffffffff" and ad: "ibuf_add ca b (be_word 4 (ucast v :: u32)) = Inr b'"
    by (auto simp: ibuf_add_n32_def split: if_splits)
  show "v \<le> 0xffffffff" by (rule v)
  have wf': "ibuf_wf b'" and c: "ibuf_content b' = be_word 4 (ucast v :: u32) @ []"
    using ibuf_add_content[OF assms ad] a by auto
  have "view_res (ibuf_get_n32 b') = get_n32 (be_word 4 (ucast v :: u32) @ [])"
    using wf' by (simp only: c[symmetric] ibuf_get_n32_def get_n32_def view_res_bind ibuf_get_view)
  then have "view_res (ibuf_get_n32 b') = Inr (ucast v, [])" by (simp only: get_n32_append)
  then show "\<exists>b''. ibuf_get_n32 b' = Inr (ucast v, b'') \<and> ibuf_content b'' = []"
    by (cases "ibuf_get_n32 b'") (auto simp: view_res_def)
qed

end
