(* ===== verification/Rde_Sets.thy ===== *)
theory Rde_Sets
  imports Ibuf
begin

text \<open>
  The sorted tables of usr.sbin/bgpd/rde_sets.c, used for as-sets and for the AS numbers of a ROA,
  and the size classes of util.c their arrays grow by. A table is the list of the elements in use
  together with the capacity of its array; the key of an element is its first 32-bit word, a
  parameter of the operations that look at it. The NULL table is the option value None.
\<close>

section \<open>Size classes\<close>

text \<open>lb() is 31 minus the number of leading zero bits.\<close>

definition builtin_clz :: "u32 \<Rightarrow> nat" where
  "builtin_clz x = length (takeWhile (\<lambda>i. \<not> bit x i) (rev [0..<32]))"

definition lb :: "u32 \<Rightarrow> nat" where
  "lb x = 31 - builtin_clz x"

definition bin_of :: "u32 \<Rightarrow> nat \<Rightarrow> nat \<Rightarrow> u32" where
  "bin_of sz linear subbin =
     (let n_bits = lb (sz OR push_bit linear 1);
          shift = n_bits - subbin;
          mask = push_bit shift 1 - 1;
          rounded = sz + mask
      in rounded AND NOT mask)"

definition bin_of_attrs :: "u32 \<Rightarrow> u32" where
  "bin_of_attrs cnt = bin_of cnt 5 3"

definition bin_of_communities :: "u32 \<Rightarrow> u32" where
  "bin_of_communities cnt = bin_of cnt 5 2"

definition bin_of_adjout_prefixes :: "u32 \<Rightarrow> u32" where
  "bin_of_adjout_prefixes cnt = bin_of cnt 1 1"

definition bin_of_sets :: "u32 \<Rightarrow> u32" where
  "bin_of_sets cnt = bin_of cnt 5 3"

section \<open>Tables\<close>

text \<open>The fields of rdemem that count tables, their bytes and their elements.\<close>

record aset_mem =
  aset_cnt :: int
  aset_size :: int
  aset_nmemb :: int

record 'a set_table =
  st_elems :: "'a list"
  st_max :: nat
  st_size :: nat

definition sizeof_set_table :: int where
  "sizeof_set_table = 32"

definition set_nmemb :: "'a set_table \<Rightarrow> nat" where
  "set_nmemb st = length (st_elems st)"

definition set_new :: "can_alloc \<Rightarrow> aset_mem \<Rightarrow> nat \<Rightarrow> nat \<Rightarrow> (aset_mem \<times> 'a set_table) res" where
  "set_new ca m nmemb sz =
     (if \<not> ca (nat sizeof_set_table) then Inl ENOMEM
      else let n = (if nmemb = 0 then 4 else nmemb) in
        if \<not> ca (n * sz) then Inl ENOMEM
        else Inr (m\<lparr>aset_cnt := aset_cnt m + 1,
                    aset_size := aset_size m + sizeof_set_table + int sz * int n\<rparr>,
                  \<lparr>st_elems = [], st_max = n, st_size = sz\<rparr>))"

definition set_free :: "aset_mem \<Rightarrow> 'a set_table option \<Rightarrow> aset_mem" where
  "set_free m st = (case st of None \<Rightarrow> m | Some t \<Rightarrow>
     m\<lparr>aset_cnt := aset_cnt m - 1,
       aset_size := aset_size m - sizeof_set_table - int (st_size t) * int (st_max t),
       aset_nmemb := aset_nmemb m - int (set_nmemb t)\<rparr>)"

text \<open>
  The copy behind the last element leaves the array when the size class is too small for the
  count, which the branch OutOfBounds makes explicit.
\<close>

definition set_add ::
  "can_alloc \<Rightarrow> aset_mem \<Rightarrow> 'a set_table \<Rightarrow> 'a list \<Rightarrow> (aset_mem \<times> 'a set_table) res" where
  "set_add ca m st elms =
     (let nelms = length elms in
      if nelms = 0 then Inr (m, st)
      else if st_max st < nelms \<or> st_max st - nelms < set_nmemb st then
        (let new_size = unat (bin_of_sets (of_nat (set_nmemb st + nelms))) in
         if \<not> ca (new_size * st_size st) then Inl ENOMEM
         else if new_size < set_nmemb st + nelms then Inl OutOfBounds
         else Inr (m\<lparr>aset_size := aset_size m + int (st_size st) * (int new_size - int (st_max st)),
                     aset_nmemb := aset_nmemb m + int nelms\<rparr>,
                   st\<lparr>st_elems := st_elems st @ elms, st_max := new_size\<rparr>))
      else Inr (m\<lparr>aset_nmemb := aset_nmemb m + int nelms\<rparr>,
                st\<lparr>st_elems := st_elems st @ elms\<rparr>))"

definition set_get :: "'a set_table \<Rightarrow> 'a list \<times> nat" where
  "set_get st = (st_elems st, set_nmemb st)"

definition set_cmp :: "u32 \<Rightarrow> u32 \<Rightarrow> int" where
  "set_cmp a b = (if a > b then 1 else if a < b then -1 else 0)"

text \<open>qsort() with set_cmp puts the elements in the order of their keys.\<close>

definition set_prep :: "('a \<Rightarrow> u32) \<Rightarrow> 'a set_table option \<Rightarrow> 'a set_table option" where
  "set_prep key st = map_option (\<lambda>t. t\<lparr>st_elems := sort_key key (st_elems t)\<rparr>) st"

text \<open>The result is the index of the element the pointer of the source points to.\<close>

definition set_match :: "('a \<Rightarrow> u32) \<Rightarrow> 'a set_table option \<Rightarrow> u32 \<Rightarrow> nat option" where
  "set_match key a asnum = (case a of None \<Rightarrow> None
     | Some t \<Rightarrow> bsearch (\<lambda>e. set_cmp asnum (key e)) (st_elems t))"

definition set_equal :: "'a set_table option \<Rightarrow> 'a set_table option \<Rightarrow> bool" where
  "set_equal a b = (case (a, b) of
     (None, None) \<Rightarrow> True
   | (Some s, Some t) \<Rightarrow> set_nmemb s = set_nmemb t \<and> st_elems s = st_elems t
   | _ \<Rightarrow> False)"

section \<open>Named as-sets\<close>

record as_set =
  as_name :: string
  as_table :: "u32 set_table"
  as_lastchange :: int
  as_dirty :: bool

definition SET_NAME_LEN :: nat where
  "SET_NAME_LEN = 128"

definition as_sets_new ::
  "can_alloc \<Rightarrow> aset_mem \<Rightarrow> as_set list \<Rightarrow> string \<Rightarrow> nat \<Rightarrow> nat \<Rightarrow> (aset_mem \<times> as_set list \<times> as_set) res" where
  "as_sets_new ca m as_sets name nmemb sz =
     (if \<not> ca 1 then Inl ENOMEM
      else if length name \<ge> SET_NAME_LEN then Inl Fatal
      else res_bind (set_new ca m nmemb sz) (\<lambda>(m', st).
        let aset = \<lparr>as_name = name, as_table = st, as_lastchange = 0, as_dirty = False\<rparr>
        in Inr (m', as_sets @ [aset], aset)))"

fun as_sets_lookup :: "as_set list \<Rightarrow> string \<Rightarrow> as_set option" where
  "as_sets_lookup [] name = None"
| "as_sets_lookup (a # as_sets) name =
     (if as_name a = name then Some a else as_sets_lookup as_sets name)"

definition as_sets_free :: "aset_mem \<Rightarrow> as_set list \<Rightarrow> aset_mem" where
  "as_sets_free m as_sets = foldl (\<lambda>m a. set_free m (Some (as_table a))) m as_sets"

definition as_sets_mark_dirty :: "int \<Rightarrow> as_set list option \<Rightarrow> as_set list \<Rightarrow> as_set list" where
  "as_sets_mark_dirty now old new = map (\<lambda>n.
     case (case old of None \<Rightarrow> None | Some os \<Rightarrow> as_sets_lookup os (as_name n)) of
       None \<Rightarrow> n\<lparr>as_dirty := True, as_lastchange := now\<rparr>
     | Some o' \<Rightarrow>
         if \<not> set_equal (Some (as_table n)) (Some (as_table o'))
         then n\<lparr>as_dirty := True, as_lastchange := now\<rparr>
         else n\<lparr>as_lastchange := as_lastchange o'\<rparr>) new"

definition as_set_match :: "as_set \<Rightarrow> u32 \<Rightarrow> bool" where
  "as_set_match aset asnum = (set_match id (Some (as_table aset)) asnum \<noteq> None)"

section \<open>Size classes hold the count they are asked for\<close>

lemma builtin_clz_bit: 
  assumes "bit (x :: u32) i"
  shows "i \<le> lb x \<and> bit x (lb x)"
proof -
  let ?xs = "rev [0..<32]" and ?P = "\<lambda>i. \<not> bit x i"
  have i32: "i < 32" using bit_imp_le_length[OF assms] by simp
  define n where "n = builtin_clz x"
  have nlt: "n < 32"
  proof (rule ccontr)
    assume "\<not> n < 32"
    then have "takeWhile ?P ?xs = ?xs"
      using length_takeWhile_le[of ?P ?xs]
      by (metis n_def builtin_clz_def diff_zero length_rev length_upt linorder_not_less nle_le
          order_antisym_conv takeWhile_eq_take take_all_iff)
    then have "\<forall>j\<in>set ?xs. ?P j" by (metis takeWhile_eq_all_conv)
    then show False using assms i32 by auto
  qed
  have nth: "?xs ! j = 31 - j" if "j < 32" for j using that by (simp add: rev_nth)
  have b: "bit x (31 - n)"
    using nth_length_takeWhile[of ?P ?xs] nlt nth[OF nlt] by (simp add: n_def builtin_clz_def)
  have "i \<le> 31 - n"
  proof (rule ccontr)
    assume c: "\<not> i \<le> 31 - n"
    then have j: "31 - i < n" using i32 by simp
    then have "takeWhile ?P ?xs ! (31 - i) = ?xs ! (31 - i)"
      by (intro takeWhile_nth) (simp add: n_def builtin_clz_def)
    moreover have "takeWhile ?P ?xs ! (31 - i) \<in> set (takeWhile ?P ?xs)"
      using j by (intro nth_mem) (simp add: n_def builtin_clz_def)
    ultimately have "?P (?xs ! (31 - i))" using set_takeWhileD by metis
    then show False using assms i32 by (simp add: nth)
  qed
  with b show ?thesis by (simp add: lb_def n_def)
qed

lemma lb_le: "lb x \<le> 31"
  by (simp add: lb_def)


lemma round_up_ge: "0 < m \<Longrightarrow> (n :: nat) \<le> (n + (m - 1)) div m * m"
  using div_mult_mod_eq[of "n + (m - 1)" m] mod_less_divisor[of m "n + (m - 1)"] by linarith

lemma bin_of_ge:
  assumes "unat sz \<le> 2 ^ 31"
  shows "unat sz \<le> unat (bin_of sz linear subbin)"
proof -
  define k where "k = lb (sz OR push_bit linear 1) - subbin"
  have k: "k \<le> 31" using lb_le[of "sz OR push_bit linear 1"] by (simp add: k_def)
  have kk: "(2 :: nat) ^ k \<le> 2 ^ 31" using k by (rule power_increasing) simp
  have um: "unat (mask k :: u32) = 2 ^ k - 1"
    using k by (simp add: unat_mask)
  have us: "unat (sz + mask k) = unat sz + (2 ^ k - 1)"
  proof -
    have "unat sz + unat (mask k :: u32) < 2 ^ 32" using assms kk um by simp
    then show ?thesis by (simp add: um unat_plus_simple[THEN iffD1] word_le_nat_alt unat_word_ariths)
  qed
  have "bin_of sz linear subbin = (sz + mask k) AND NOT (mask k)"
    by (simp add: bin_of_def Let_def k_def mask_eq_exp_minus_1)
  then have "unat (bin_of sz linear subbin) = (unat sz + (2 ^ k - 1)) div 2 ^ k * 2 ^ k"
    by (simp add: unat_and_not_mask us)
  moreover have "unat sz \<le> (unat sz + (2 ^ k - 1)) div 2 ^ k * 2 ^ k"
    by (rule round_up_ge) simp
  ultimately show ?thesis by simp
qed


section \<open>The table interface\<close>

text \<open>
  What a client of a table relies on: elements are added behind the others, preparing the table
  keeps the elements and makes lookups by key complete.
\<close>

definition set_wf :: "'a set_table \<Rightarrow> bool" where
  "set_wf st = (set_nmemb st \<le> st_max st)"

definition set_sorted :: "('a \<Rightarrow> u32) \<Rightarrow> 'a set_table \<Rightarrow> bool" where
  "set_sorted key st = sorted (map key (st_elems st))"

primrec add_all :: "('t \<Rightarrow> 'e list \<Rightarrow> 't res) \<Rightarrow> 't \<Rightarrow> 'e list list \<Rightarrow> 't res" where
  "add_all add t [] = Inr t"
| "add_all add t (es # ess) = res_bind (add t es) (\<lambda>t'. add_all add t' ess)"

locale keyed_table =
  fixes key :: "'e \<Rightarrow> u32"
    and elems :: "'t \<Rightarrow> 'e list"
    and ready :: "'t \<Rightarrow> bool"
    and add :: "'t \<Rightarrow> 'e list \<Rightarrow> 't res"
    and prep :: "'t \<Rightarrow> 't"
    and find :: "'t \<Rightarrow> u32 \<Rightarrow> nat option"
  assumes add_elems: "add t es = Inr t' \<Longrightarrow> elems t' = elems t @ es"
    and prep_elems: "mset (elems (prep t)) = mset (elems t)"
    and prep_ready: "ready (prep t)"
    and find_Some: "find t k = Some i \<Longrightarrow> i < length (elems t) \<and> key (elems t ! i) = k"
    and find_None: "ready t \<Longrightarrow> find t k = None \<Longrightarrow> e \<in> set (elems t) \<Longrightarrow> key e \<noteq> k"
begin

lemma add_all_elems: "add_all add t ess = Inr t' \<Longrightarrow> elems t' = elems t @ concat ess"
  by (induction ess arbitrary: t) (auto simp: res_bind_Inr_iff dest: add_elems)

lemma find_iff: "ready t \<Longrightarrow> find t k \<noteq> None \<longleftrightarrow> (\<exists>e\<in>set (elems t). key e = k)"
  using find_None find_Some by (metis not_None_eq nth_mem)

lemma built_find:
  assumes "add_all add t ess = Inr t'"
  shows "find (prep t') k \<noteq> None \<longleftrightarrow> (\<exists>e\<in>set (elems t) \<union> set (concat ess). key e = k)"
proof -
  have "set (elems (prep t')) = set (elems t) \<union> set (concat ess)"
    using mset_eq_setD[OF prep_elems[of t']] add_all_elems[OF assms] by simp
  then show ?thesis using find_iff[OF prep_ready] by simp
qed

end

lemma set_cmp_simps [simp]: "set_cmp a b = 0 \<longleftrightarrow> a = b" "set_cmp a b > 0 \<longleftrightarrow> b < a"
  by (auto simp: set_cmp_def)

lemma sgn_set_cmp [simp]: "sgn (set_cmp a b) = set_cmp a b"
  by (simp add: set_cmp_def)

lemma set_sorted_bs_ordered:
  "set_sorted key st \<Longrightarrow> bs_ordered (\<lambda>e. set_cmp k (key e)) (st_elems st)"
  unfolding set_sorted_def bs_ordered_def sorted_map
  by (erule sorted_wrt_mono_rel[rotated]) (auto simp: set_cmp_def)

lemma set_add_elems: "set_add ca m st es = Inr (m', st') \<Longrightarrow> st_elems st' = st_elems st @ es"
  by (auto simp: set_add_def Let_def split: if_splits)

lemma set_add_wf: "set_add ca m st es = Inr (m', st') \<Longrightarrow> set_wf st \<Longrightarrow> set_wf st'"
  by (auto simp: set_add_def Let_def set_wf_def set_nmemb_def split: if_splits)

lemma set_match_Some:
  "set_match key (Some st) k = Some i \<Longrightarrow> i < set_nmemb st \<and> key (st_elems st ! i) = k"
  unfolding set_match_def set_nmemb_def by (auto dest: bsearch_Some)

lemma set_match_None:
  assumes "set_sorted key st" and "set_match key (Some st) k = None" and "e \<in> set (st_elems st)"
  shows "key e \<noteq> k"
  using bsearch_None[OF set_sorted_bs_ordered[OF assms(1)] _ assms(3), of k] assms(2)
  by (auto simp: set_match_def)

lemma set_prep_Some [simp]:
  "set_prep key (Some st) = Some (st\<lparr>st_elems := sort_key key (st_elems st)\<rparr>)"
  by (simp add: set_prep_def)

text \<open>The state of the interpretation is a table and the memory counters.\<close>

type_synonym 'a set_state = "aset_mem \<times> 'a set_table"

definition set_state_add :: "can_alloc \<Rightarrow> 'a set_state \<Rightarrow> 'a list \<Rightarrow> 'a set_state res" where
  "set_state_add ca s es = set_add ca (fst s) (snd s) es"

definition set_state_prep :: "('a \<Rightarrow> u32) \<Rightarrow> 'a set_state \<Rightarrow> 'a set_state" where
  "set_state_prep key s = (fst s, the (set_prep key (Some (snd s))))"

interpretation tb: keyed_table key "\<lambda>s. st_elems (snd s)" "\<lambda>s. set_sorted key (snd s)"
    "set_state_add ca" "set_state_prep key" "\<lambda>s. set_match key (Some (snd s))"
  for key :: "'a \<Rightarrow> u32" and ca
proof unfold_locales
  fix s :: "'a set_state" and k i e
  show "set_match key (Some (snd s)) k = Some i \<Longrightarrow>
      i < length (st_elems (snd s)) \<and> key (st_elems (snd s) ! i) = k"
    by (drule set_match_Some) (simp add: set_nmemb_def)
  show "set_sorted key (snd s) \<Longrightarrow> set_match key (Some (snd s)) k = None \<Longrightarrow>
      e \<in> set (st_elems (snd s)) \<Longrightarrow> key e \<noteq> k"
    by (rule set_match_None)
qed (auto simp: set_state_add_def set_state_prep_def set_sorted_def dest: set_add_elems)

lemma set_add_total:
  assumes "set_nmemb st + length es < 2 ^ 31" and "\<And>n. ca n"
  shows "\<exists>m' st'. set_add ca m st es = Inr (m', st')"
proof -
  define n where "n = set_nmemb st + length es"
  have u: "unat (of_nat n :: u32) = n"
    using assms(1) by (simp add: n_def unat_of_nat take_bit_nat_eq_self del: of_nat_add)
  then have "n \<le> unat (bin_of_sets (of_nat n))"
    using bin_of_ge[of "of_nat n" 5 3] assms(1) by (simp add: bin_of_sets_def n_def del: of_nat_add)
  then show ?thesis
    using assms(2) by (auto simp: set_add_def Let_def n_def simp del: of_nat_add)
qed

section \<open>Properties\<close>

text \<open>
  C29: an as-set built by set_new, any number of set_add calls and a final set_prep matches
  exactly the AS numbers that were added, whatever their order and multiplicity.
\<close>

theorem as_set_match_built:
  assumes "set_new ca m nmemb 4 = Inr s" and "add_all (set_state_add ca) s ess = Inr s'"
    and "set_prep id (Some (snd s')) = Some st"
  shows "as_set_match \<lparr>as_name = name, as_table = st, as_lastchange = t, as_dirty = d\<rparr> asnum \<longleftrightarrow>
    asnum \<in> set (concat ess)"
proof -
  have "st_elems (snd s) = []" using assms(1) by (auto simp: set_new_def Let_def split: if_splits)
  moreover have "st = snd (set_state_prep id s')"
    using assms(3) by (simp add: set_state_prep_def)
  ultimately show ?thesis
    using tb.built_find[OF assms(2), where key = id, of asnum] by (simp add: as_set_match_def)
qed

theorem as_set_match_built_witness:
  "\<exists>s s' st. set_new (\<lambda>_. True) \<lparr>aset_cnt = 0, aset_size = 0, aset_nmemb = 0\<rparr> 2 4 = Inr s \<and>
     add_all (set_state_add (\<lambda>_. True)) s [[65001, 7], [12 :: u32]] = Inr s' \<and>
     set_prep id (Some (snd s')) = Some st \<and>
     as_set_match \<lparr>as_name = ''a'', as_table = st, as_lastchange = 0, as_dirty = False\<rparr> 12"
proof -
  let ?m = "\<lparr>aset_cnt = 0, aset_size = 0, aset_nmemb = 0\<rparr>" and ?ca = "\<lambda>_ :: nat. True"
  obtain s :: "u32 set_state" where n: "set_new ?ca ?m 2 4 = Inr s" and s: "set_nmemb (snd s) = 0"
    by (auto simp: set_new_def set_nmemb_def)
  obtain s1 where a1: "set_state_add ?ca s [65001, 7] = Inr s1"
    using set_add_total[of "snd s" "[65001, 7]" ?ca "fst s"] s by (auto simp: set_state_add_def)
  then have "set_nmemb (snd s1) = 2"
    using tb.add_elems[OF a1] s by (simp add: set_nmemb_def)
  then obtain s' where a2: "set_state_add ?ca s1 [12] = Inr s'"
    using set_add_total[of "snd s1" "[12]" ?ca "fst s1"] by (auto simp: set_state_add_def)
  have a: "add_all (set_state_add ?ca) s [[65001, 7], [12]] = Inr s'" using a1 a2 by simp
  have "as_set_match \<lparr>as_name = ''a'', as_table = the (set_prep id (Some (snd s'))),
      as_lastchange = 0, as_dirty = False\<rparr> 12"
    using as_set_match_built[OF n a set_prep_Some, of "''a''" 0 False 12] by simp
  then show ?thesis using n a set_prep_Some[of id "snd s'"] by (metis option.sel)
qed

text \<open>
  The function set_add never writes outside its array: with memory available it succeeds for every table
  of less than 2^31 elements, appends the new ones, and keeps the number of elements within the capacity it accounts for.
\<close>

lemma set_add_in_bounds:
  assumes "set_wf st" and "set_nmemb st + length es < 2 ^ 31" and "\<forall>n. ca n"
  shows "\<exists>m' st'. set_add ca m st es = Inr (m', st') \<and> st_elems st' = st_elems st @ es \<and>
    set_nmemb st' \<le> st_max st' \<and>
    aset_size m' - aset_size m = int (st_size st) * (int (st_max st') - int (st_max st))"
proof -
  obtain m' st' where a: "set_add ca m st es = Inr (m', st')"
    using set_add_total[OF assms(2)] assms(3) by blast
  moreover have "aset_size m' - aset_size m = int (st_size st) * (int (st_max st') - int (st_max st))"
    using a by (auto simp: set_add_def Let_def split: if_splits)
  ultimately show ?thesis
    using set_add_elems[OF a] set_add_wf[OF a assms(1)] by (auto simp: set_wf_def)
qed

end
