(* ===== verification/Aspath.thy ===== *)
theory Aspath
  imports Rde_Sets
begin

text \<open>
  AS paths: the functions of usr.sbin/bgpd/rde_attr.c and util.c that verify, count, search, prepend
  to, rewrite, shrink, widen and merge the AS_PATH attribute. As in the source a path is the array
  of its bytes: segments of a type, a count and that many AS numbers. A read outside the
  array is the error OutOfBounds and fatalx() is Fatal. The second half gives the list of segments
  a path encodes and shows what each function computes on it, which includes that no function fails on a path aspath_verify()
  accepted.
\<close>

section \<open>Constants and data\<close>

definition AS_SET :: u8 where "AS_SET = 1"
definition AS_SEQUENCE :: u8 where "AS_SEQUENCE = 2"
definition AS_CONFED_SEQUENCE :: u8 where "AS_CONFED_SEQUENCE = 3"
definition AS_CONFED_SET :: u8 where "AS_CONFED_SET = 4"

lemmas seg_types [simp] =
  AS_SET_def AS_SEQUENCE_def AS_CONFED_SEQUENCE_def AS_CONFED_SET_def

definition AS_TRANS :: u32 where "AS_TRANS = 23456"
definition AS_NONE :: u32 where "AS_NONE = 0"
definition USHRT_MAX :: u32 where "USHRT_MAX = 65535"
definition MAX_ASPATH_COUNT :: nat where "MAX_ASPATH_COUNT = 750"

definition AS_ERR_LEN :: int where "AS_ERR_LEN = -1"
definition AS_ERR_TYPE :: int where "AS_ERR_TYPE = -2"
definition AS_ERR_BAD :: int where "AS_ERR_BAD = -3"
definition AS_ERR_SOFT :: int where "AS_ERR_SOFT = -4"
definition AS_ERR_MAX :: int where "AS_ERR_MAX = -5"

lemmas as_errs [simp] =
  AS_ERR_LEN_def AS_ERR_TYPE_def AS_ERR_BAD_def AS_ERR_SOFT_def AS_ERR_MAX_def

record aspath =
  ap_source_as :: u32
  ap_ascnt :: u16
  ap_data :: bytes

text \<open>The fields of rdemem that count AS paths.\<close>

record aspath_mem =
  aspath_cnt :: int
  aspath_size :: int

definition ASPATH_HEADER_SIZE :: int where "ASPATH_HEADER_SIZE = 8"

definition aspath_dump :: "aspath \<Rightarrow> bytes" where
  "aspath_dump a = ap_data a"

definition aspath_length :: "aspath \<Rightarrow> nat" where
  "aspath_length a = length (ap_data a)"

definition aspath_origin :: "aspath \<Rightarrow> u32" where
  "aspath_origin a = ap_source_as a"

definition rd :: "bytes \<Rightarrow> nat \<Rightarrow> u8 res" where
  "rd bs i = (if i < length bs then Inr (bs ! i) else Inl OutOfBounds)"

section \<open>Parsing and verification\<close>

definition aspath_extract :: "bytes \<Rightarrow> int \<Rightarrow> u32 res" where
  "aspath_extract seg pos =
     res_bind (rd seg 1) (\<lambda>n.
       if pos < 0 \<or> pos \<ge> uint n then Inr 0
       else let off = 2 + 4 * nat pos in
         if off + 4 \<le> length seg then Inr (word_be (take 4 (drop off seg)))
         else Inl OutOfBounds)"

text \<open>The type and the count that start a segment.\<close>

definition get_seghdr :: "bytes \<Rightarrow> (u8 \<times> u8 \<times> bytes) res" where
  "get_seghdr buf =
     res_bind (get_n8 buf) (\<lambda>(seg_type, buf).
     res_bind (get_n8 buf) (\<lambda>(seg_len, buf). Inr (seg_type, seg_len, buf)))"

lemma get_seghdr_simps [simp]:
  "get_seghdr [] = Inl EBADMSG"
  "get_seghdr [t] = Inl EBADMSG"
  "get_seghdr (t # n # r) = Inr (t, n, r)"
  by (simp_all add: get_seghdr_def)

definition get_asn :: "bool \<Rightarrow> bytes \<Rightarrow> (u32 \<times> bytes) res" where
  "get_asn as4byte buf =
     (if as4byte then get_n32 buf
      else res_bind (get_n16 buf) (\<lambda>(tmp, buf). Inr (ucast tmp, buf)))"

text \<open>The inner loop of aspath_verify(); None is the exit with AS_ERR_LEN.\<close>

primrec verify_asns :: "bool \<Rightarrow> nat \<Rightarrow> bytes \<Rightarrow> int \<Rightarrow> (int \<times> bytes) option" where
  "verify_asns as4byte 0 buf err = Some (err, buf)"
| "verify_asns as4byte (Suc n) buf err =
     (case get_asn as4byte buf of
        Inl _ \<Rightarrow> None
      | Inr (as, buf') \<Rightarrow> verify_asns as4byte n buf' (if as = 0 then AS_ERR_SOFT else err))"

lemma get_asn_length: "get_asn a4 buf = Inr (as, buf') \<Longrightarrow> length buf' < length buf"
  by (auto simp: get_asn_def res_bind_Inr_iff dest!: get_n32_Inr get_n16_Inr split: if_splits)

lemma verify_asns_length: "verify_asns a4 n buf e = Some (e', buf') \<Longrightarrow> length buf' \<le> length buf"
  by (induction n arbitrary: buf e) (fastforce split: sum.splits prod.splits dest: get_asn_length)+

lemma get_seghdr_Inr: "get_seghdr buf = Inr (t, n, r) \<Longrightarrow> buf = t # n # r"
  by (cases buf rule: list.exhaust; cases "tl buf") auto

function verify_loop :: "bool \<Rightarrow> bool \<Rightarrow> bytes \<Rightarrow> int \<Rightarrow> nat \<Rightarrow> int" where
  "verify_loop as4byte permit_set buf err cnt =
     (if buf = [] then (if cnt > MAX_ASPATH_COUNT then AS_ERR_MAX else err)
      else case get_seghdr buf of
        Inl _ \<Rightarrow> AS_ERR_LEN
      | Inr (seg_type, seg_len, rest) \<Rightarrow>
          if seg_len = 0 then AS_ERR_BAD
          else
            let err1 = (if seg_type = AS_CONFED_SEQUENCE \<or> seg_type = AS_CONFED_SET
                        then AS_ERR_SOFT else err);
                err2 = (if \<not> permit_set \<and> seg_type = AS_SET then AS_ERR_SOFT else err1)
            in if seg_type \<noteq> AS_SET \<and> seg_type \<noteq> AS_SEQUENCE \<and>
                  seg_type \<noteq> AS_CONFED_SEQUENCE \<and> seg_type \<noteq> AS_CONFED_SET then AS_ERR_TYPE
               else case verify_asns as4byte (unat seg_len) rest err2 of
                 None \<Rightarrow> AS_ERR_LEN
               | Some (err3, rest') \<Rightarrow>
                   verify_loop as4byte permit_set rest' err3 (cnt + unat seg_len))"
  by pat_completeness auto
termination
proof (relation "measure (\<lambda>(a, p, buf, e, c). length buf)", goal_cases)
  case (2 a p buf e c r sr t1 n r' e1 e2 s e3 rest')
  then show ?case
    using get_seghdr_Inr verify_asns_length by fastforce
qed simp

declare verify_loop.simps [simp del]

definition aspath_verify :: "bytes \<Rightarrow> bool \<Rightarrow> bool \<Rightarrow> int" where
  "aspath_verify buf as4byte permit_set =
     (if odd (length buf) then AS_ERR_BAD else verify_loop as4byte permit_set buf 0 0)"

section \<open>Walking the segments\<close>

definition seg_size :: "u8 \<Rightarrow> nat" where
  "seg_size seg_len = 2 + 4 * unat seg_len"

lemma seg_size_pos [simp]: "0 < seg_size n" "seg_size n \<noteq> 0"
  by (simp_all add: seg_size_def)

function aspath_count_loop :: "bytes \<Rightarrow> u16 \<Rightarrow> u16 res" where
  "aspath_count_loop seg cnt =
     (if seg = [] then Inr cnt
      else res_bind (rd seg 0) (\<lambda>seg_type. res_bind (rd seg 1) (\<lambda>seg_len.
        let cnt' = (if seg_type = AS_SET then cnt + 1 else cnt + ucast seg_len)
        in if seg_size seg_len > length seg then Inl Fatal
           else aspath_count_loop (drop (seg_size seg_len) seg) cnt')))"
  by pat_completeness auto
termination by (relation "measure (\<lambda>(seg, cnt). length seg)") auto

definition aspath_count :: "bytes \<Rightarrow> u16 res" where
  "aspath_count data = aspath_count_loop data 0"

function aspath_origin_loop :: "bytes \<Rightarrow> u32 \<Rightarrow> u32 res" where
  "aspath_origin_loop seg as =
     (if seg = [] then Inr as
      else res_bind (rd seg 1) (\<lambda>seg_len. res_bind (rd seg 0) (\<lambda>seg_type.
        res_bind (if length seg = seg_size seg_len \<and> seg_type = AS_SEQUENCE
                  then aspath_extract seg (uint seg_len - 1) else Inr as) (\<lambda>as'.
          if seg_size seg_len > length seg then Inl Fatal
          else aspath_origin_loop (drop (seg_size seg_len) seg) as'))))"
  by pat_completeness auto
termination by (relation "measure (\<lambda>(seg, as). length seg)") auto

definition aspath_extract_origin :: "u32 \<Rightarrow> bytes \<Rightarrow> u32 res" where
  "aspath_extract_origin local_as data =
     (if data = [] then Inr local_as else aspath_origin_loop data AS_NONE)"

text \<open>The search for an AS number from position i on, k positions left.\<close>

primrec seg_exists :: "(u32 \<Rightarrow> bool res) \<Rightarrow> bytes \<Rightarrow> nat \<Rightarrow> nat \<Rightarrow> bool res" where
  "seg_exists P seg i 0 = Inr False"
| "seg_exists P seg i (Suc k) =
     res_bind (aspath_extract seg (int i)) (\<lambda>as. res_bind (P as) (\<lambda>b.
       if b then Inr True else seg_exists P seg (i + 1) k))"

function aspath_loopfree_loop :: "bytes \<Rightarrow> u32 \<Rightarrow> bool res" where
  "aspath_loopfree_loop seg myAS =
     (if seg = [] then Inr True
      else res_bind (rd seg 1) (\<lambda>seg_len.
        res_bind (seg_exists (\<lambda>as. Inr (myAS = as)) seg 0 (unat seg_len)) (\<lambda>found.
          if found then Inr False
          else if seg_size seg_len > length seg then Inl Fatal
          else aspath_loopfree_loop (drop (seg_size seg_len) seg) myAS)))"
  by pat_completeness auto
termination by (relation "measure (\<lambda>(seg, myAS). length seg)") auto

definition aspath_loopfree :: "aspath \<Rightarrow> u32 \<Rightarrow> bool res" where
  "aspath_loopfree a myAS = aspath_loopfree_loop (ap_data a) myAS"

definition aspath_neighbor :: "u32 \<Rightarrow> aspath \<Rightarrow> u32 res" where
  "aspath_neighbor local_as a =
     (if ap_data a = [] then Inr local_as
      else res_bind (rd (ap_data a) 0) (\<lambda>t.
        if t \<noteq> AS_SEQUENCE then Inr local_as else aspath_extract (ap_data a) 0))"

definition aspath_compare :: "aspath \<Rightarrow> aspath \<Rightarrow> int" where
  "aspath_compare a1 a2 =
     (if aspath_length a1 > aspath_length a2 then 1
      else if aspath_length a1 < aspath_length a2 then -1
      else let r = memcmp (ap_data a1) (ap_data a2) in
        if r > 0 then 1 else if r < 0 then -1 else 0)"

definition aspath_get :: "can_alloc \<Rightarrow> u32 \<Rightarrow> aspath_mem \<Rightarrow> bytes \<Rightarrow> (aspath_mem \<times> aspath) res" where
  "aspath_get ca local_as m data =
     (if \<not> ca (nat ASPATH_HEADER_SIZE + length data) then Inl Fatal
      else res_bind (aspath_count data) (\<lambda>cnt. res_bind (aspath_extract_origin local_as data) (\<lambda>src.
        Inr (\<lparr>aspath_cnt = aspath_cnt m + 1,
              aspath_size = aspath_size m + ASPATH_HEADER_SIZE + int (length data)\<rparr>,
             \<lparr>ap_source_as = src, ap_ascnt = cnt, ap_data = data\<rparr>))))"

definition aspath_copy :: "can_alloc \<Rightarrow> aspath_mem \<Rightarrow> aspath \<Rightarrow> (aspath_mem \<times> aspath) res" where
  "aspath_copy ca m a =
     (if \<not> ca (nat ASPATH_HEADER_SIZE + aspath_length a) then Inl Fatal
      else Inr (\<lparr>aspath_cnt = aspath_cnt m + 1,
                 aspath_size = aspath_size m + ASPATH_HEADER_SIZE + int (aspath_length a)\<rparr>, a))"

definition aspath_put :: "aspath_mem \<Rightarrow> aspath option \<Rightarrow> aspath_mem" where
  "aspath_put m a = (case a of None \<Rightarrow> m | Some p \<Rightarrow>
     \<lparr>aspath_cnt = aspath_cnt m - 1,
      aspath_size = aspath_size m - (ASPATH_HEADER_SIZE + int (aspath_length p))\<rparr>)"

section \<open>Two-byte and four-byte encodings\<close>

text \<open>The first loop of aspath_deflate(): the length of the two-byte path.\<close>

function deflate_len :: "bytes \<Rightarrow> u16 \<Rightarrow> u16 res" where
  "deflate_len seg nlen =
     (if seg = [] then Inr nlen
      else res_bind (rd seg 1) (\<lambda>seg_len.
        if seg_size seg_len > length seg then Inl Fatal
        else deflate_len (drop (seg_size seg_len) seg) (nlen + 2 + 2 * ucast seg_len)))"
  by pat_completeness auto
termination by (relation "measure (\<lambda>(seg, n). length seg)") auto

primrec deflate_asns :: "bytes \<Rightarrow> nat \<Rightarrow> nat \<Rightarrow> bool \<Rightarrow> (bytes \<times> bool) res" where
  "deflate_asns seg i 0 flagnew = Inr ([], flagnew)"
| "deflate_asns seg i (Suc k) flagnew =
     res_bind (aspath_extract seg (int i)) (\<lambda>as.
       let as' = (if as > USHRT_MAX then AS_TRANS else as) in
       res_bind (deflate_asns seg (i + 1) k (flagnew \<or> as > USHRT_MAX)) (\<lambda>(rest, fl).
         Inr (be_word 2 (ucast as' :: u16) @ rest, fl)))"

text \<open>The second loop copies; it is only entered when the first one succeeded.\<close>

function deflate_copy :: "bytes \<Rightarrow> bool \<Rightarrow> (bytes \<times> bool) res" where
  "deflate_copy seg flagnew =
     (if seg = [] then Inr ([], flagnew)
      else res_bind (rd seg 0) (\<lambda>seg_type. res_bind (rd seg 1) (\<lambda>seg_len.
        res_bind (deflate_asns seg 0 (unat seg_len) flagnew) (\<lambda>(asns, fl).
        res_bind (deflate_copy (drop (seg_size seg_len) seg) fl) (\<lambda>(rest, fl').
          Inr (seg_type # seg_len # asns @ rest, fl'))))))"
  by pat_completeness auto
termination by (relation "measure (\<lambda>(seg, n). length seg)") auto

text \<open>
  The result is the new length, the bytes written and the flag. Writing more bytes than were
  allocated would be OutOfBounds.
\<close>

definition aspath_deflate :: "can_alloc \<Rightarrow> bytes \<Rightarrow> bool \<Rightarrow> (u16 \<times> bytes \<times> bool) res" where
  "aspath_deflate ca data flagnew =
     res_bind (deflate_len data 0) (\<lambda>nlen.
       if nlen = 0 then Inr (0, [], flagnew)
       else if \<not> ca (unat nlen) then Inl Fatal
       else res_bind (deflate_copy data flagnew) (\<lambda>(ndata, fl).
         if length ndata > unat nlen then Inl OutOfBounds else Inr (nlen, ndata, fl)))"

primrec inflate_asns :: "nat \<Rightarrow> nat \<Rightarrow> bytes \<Rightarrow> bytes \<Rightarrow> (bytes \<times> bytes) res" where
  "inflate_asns cap 0 buf out = Inr (out, buf)"
| "inflate_asns cap (Suc n) buf out =
     res_bind (get_n16 buf) (\<lambda>(short_as, buf).
     res_bind (put_bytes cap out (be_word 4 (ucast short_as :: u32))) (\<lambda>out.
       inflate_asns cap n buf out))"

lemma inflate_asns_length:
  "inflate_asns cap n buf out = Inr (out', buf') \<Longrightarrow> length buf' \<le> length buf"
  by (induction n arbitrary: buf out) (fastforce simp: res_bind_Inr_iff dest: get_n16_Inr)+

function inflate_loop :: "nat \<Rightarrow> bytes \<Rightarrow> bytes \<Rightarrow> bytes res" where
  "inflate_loop cap buf out =
     (if buf = [] then Inr out
      else case get_seghdr buf of
        Inl e \<Rightarrow> Inl e
      | Inr (seg_type, seg_len, rest) \<Rightarrow>
          if seg_len = 0 then Inl EBADMSG
          else case res_bind (put_bytes cap out [seg_type]) (\<lambda>out. put_bytes cap out [seg_len]) of
            Inl e \<Rightarrow> Inl e
          | Inr out1 \<Rightarrow>
              (case inflate_asns cap (unat seg_len) rest out1 of
                 Inl e \<Rightarrow> Inl e
               | Inr (out2, rest') \<Rightarrow> inflate_loop cap rest' out2))"
  by pat_completeness auto
termination
proof (relation "measure (\<lambda>(cap, buf, out). length buf)", goal_cases)
  case (2 cap buf out p t q n rest out1 z out2 rest')
  then show ?case using get_seghdr_Inr inflate_asns_length by fastforce
qed simp

definition aspath_inflate :: "can_alloc \<Rightarrow> bytes \<Rightarrow> bytes res" where
  "aspath_inflate ca buf =
     (let cap = length buf * 2 + 1 in
      if \<not> ca cap then Inl ENOMEM else inflate_loop cap buf [])"

declare aspath_count_loop.simps [simp del] aspath_origin_loop.simps [simp del]
  aspath_loopfree_loop.simps [simp del] deflate_len.simps [simp del] deflate_copy.simps [simp del]
  inflate_loop.simps [simp del]

section \<open>Merging AS4_PATH into AS_PATH\<close>

primrec domerge_copy_asns :: "nat \<Rightarrow> nat \<Rightarrow> bytes \<Rightarrow> bytes \<Rightarrow> (bytes \<times> bytes) res" where
  "domerge_copy_asns cap 0 inb out = Inr (inb, out)"
| "domerge_copy_asns cap (Suc n) inb out =
     res_bind (get_n32 inb) (\<lambda>(as, inb).
     res_bind (put_bytes cap out (be_word 4 as)) (\<lambda>out. domerge_copy_asns cap n inb out))"

lemma domerge_copy_asns_length:
  "domerge_copy_asns cap n inb out = Inr (inb', out') \<Longrightarrow> length inb' \<le> length inb"
  by (induction n arbitrary: inb out) (fastforce simp: res_bind_Inr_iff dest: get_n32_Inr)+

text \<open>The variables the two loops of aspath_domerge() share.\<close>

record domerge_state =
  dm_type :: u8
  dm_len :: u8
  dm_nseg :: int
  dm_newseg :: bool

text \<open>The first loop takes the head of the path that only the two-byte path has.\<close>

function domerge_head ::
  "nat \<Rightarrow> int \<Rightarrow> domerge_state \<Rightarrow> bytes \<Rightarrow> bytes \<Rightarrow> (domerge_state \<times> bytes \<times> bytes) res" where
  "domerge_head cap cnt st inb out =
     (if cnt \<le> 0 then Inr (st, inb, out)
      else case get_seghdr inb of
        Inl e \<Rightarrow> Inl e
      | Inr (seg_type, seg_len, rest) \<Rightarrow>
          let st1 = st\<lparr>dm_type := seg_type, dm_len := seg_len, dm_nseg := uint seg_len\<rparr>;
              (cnt', st2) = (if seg_type = AS_SET then (cnt - 1, st1)
                else if uint seg_len > cnt then (0, st1\<lparr>dm_nseg := cnt, dm_newseg := False\<rparr>)
                else (cnt - uint seg_len, st1))
          in case res_bind (put_bytes cap out [seg_type]) (\<lambda>out. put_bytes cap out [seg_len]) of
               Inl e \<Rightarrow> Inl e
             | Inr out1 \<Rightarrow>
                 (case domerge_copy_asns cap (nat (dm_nseg st2)) rest out1 of
                    Inl e \<Rightarrow> Inl e
                  | Inr (rest', out2) \<Rightarrow> domerge_head cap cnt' st2 rest' out2))"
  by pat_completeness auto
termination
proof (relation "measure (\<lambda>(cap, cnt, st, inb, out). length inb)", goal_cases)
  case (2 cap cnt st inb out p t q n rest)
  then show ?case using get_seghdr_Inr domerge_copy_asns_length by fastforce
qed simp

text \<open>
  The inner loop of the merge. Both numbers are taken from the two-byte path's buffer, as the
  source does.
\<close>

primrec domerge_asns :: "nat \<Rightarrow> nat \<Rightarrow> bytes \<Rightarrow> bytes \<Rightarrow> (bytes \<times> bytes) res" where
  "domerge_asns cap 0 inb out = Inr (inb, out)"
| "domerge_asns cap (Suc n) inb out =
     res_bind (get_n32 inb) (\<lambda>(as, inb).
     res_bind (get_n32 inb) (\<lambda>(as4, inb).
     res_bind (if as = AS_TRANS then Inr as4 else if as \<noteq> as4 then Inl EBADMSG else Inr as) (\<lambda>as'.
     res_bind (put_bytes cap out (be_word 4 as')) (\<lambda>out. domerge_asns cap n inb out))))"

lemma domerge_asns_length:
  "domerge_asns cap n inb out = Inr (inb', out') \<Longrightarrow> length inb' \<le> length inb"
  by (induction n arbitrary: inb out)
     (fastforce simp: res_bind_Inr_iff split: if_splits dest!: get_n32_Inr)+

function domerge_tail ::
  "nat \<Rightarrow> domerge_state \<Rightarrow> bytes \<Rightarrow> bytes \<Rightarrow> bytes \<Rightarrow> bytes res" where
  "domerge_tail cap st inb in4 out =
     (if inb = [] then Inr out
      else if dm_newseg st then
        (case get_seghdr inb of
           Inl e \<Rightarrow> Inl e
         | Inr (seg_type, seg_len, rest) \<Rightarrow>
             (case get_seghdr in4 of
                Inl e \<Rightarrow> Inl e
              | Inr (seg4_type, seg4_len, rest4) \<Rightarrow>
                  if seg_type \<noteq> seg4_type \<or> seg_len \<noteq> seg4_len then Inl EBADMSG
                  else case res_bind (put_bytes cap out [seg_type])
                              (\<lambda>out. put_bytes cap out [seg_len]) of
                    Inl e \<Rightarrow> Inl e
                  | Inr out1 \<Rightarrow>
                      (case domerge_asns cap (unat seg_len) rest out1 of
                         Inl e \<Rightarrow> Inl e
                       | Inr (rest', out2) \<Rightarrow>
                           domerge_tail cap (st\<lparr>dm_type := seg_type, dm_len := seg_len,
                             dm_nseg := uint seg_len\<rparr>) rest' rest4 out2)))
      else
        (case get_seghdr in4 of
           Inl e \<Rightarrow> Inl e
         | Inr (seg4_type, seg4_len, rest4) \<Rightarrow>
             if dm_type st \<noteq> seg4_type \<or> uint (dm_len st) - dm_nseg st \<noteq> uint seg4_len
             then Inl EBADMSG
             else let nseg = uint (dm_len st) - dm_nseg st in
               (case domerge_asns cap (nat nseg) inb out of
                  Inl e \<Rightarrow> Inl e
                | Inr (rest', out2) \<Rightarrow>
                    domerge_tail cap (st\<lparr>dm_nseg := nseg, dm_newseg := True\<rparr>) rest' rest4 out2)))"
  by pat_completeness auto
termination
proof (relation "measure (\<lambda>(cap, st, inb, in4, out). 2 * length inb + (if dm_newseg st then 0 else 1))",
    goal_cases)
  case (2 cap st inb in4 out p t q n rest)
  then show ?case using get_seghdr_Inr domerge_asns_length by fastforce
next
  case (3 cap st inb in4 out)
  then show ?case using domerge_asns_length by fastforce
qed simp

definition aspath_domerge :: "nat \<Rightarrow> bytes \<Rightarrow> bytes \<Rightarrow> int \<Rightarrow> bytes res" where
  "aspath_domerge cap inb in4 cnt =
     res_bind (domerge_head cap cnt \<lparr>dm_type = 0, dm_len = 0, dm_nseg = 0, dm_newseg = True\<rparr> inb [])
       (\<lambda>(st, inb', out). domerge_tail cap st inb' in4 out)"

declare domerge_head.simps [simp del] domerge_tail.simps [simp del]

section \<open>Filters on AS paths\<close>

datatype as_spec = AS_UNDEF | AS_ALL | AS_SOURCE | AS_TRANSIT | AS_PEER | AS_EMPTY
datatype aslen_spec = ASLEN_NONE | ASLEN_MAX | ASLEN_SEQ
datatype comp_ops = OP_NONE | OP_RANGE | OP_XRANGE | OP_EQ | OP_NE | OP_LE | OP_LT | OP_GE | OP_GT

definition AS_FLAG_NEIGHBORAS :: u8 where "AS_FLAG_NEIGHBORAS = 1"
definition AS_FLAG_AS_SET_NAME :: u8 where "AS_FLAG_AS_SET_NAME = 2"
definition AS_FLAG_AS_SET :: u8 where "AS_FLAG_AS_SET = 4"

record filter_as =
  fa_name :: string
  fa_aset :: "as_set option"
  as_min :: u32
  as_max :: u32
  fa_type :: as_spec
  fa_flags :: u8
  fa_op :: comp_ops

definition as_compare :: "filter_as \<Rightarrow> u32 \<Rightarrow> u32 \<Rightarrow> bool res" where
  "as_compare f as neighas =
     (if fa_flags f AND AS_FLAG_AS_SET_NAME \<noteq> 0 then Inr False
      else if fa_flags f AND AS_FLAG_AS_SET \<noteq> 0 then
        (case fa_aset f of None \<Rightarrow> Inl OutOfBounds | Some a \<Rightarrow> Inr (as_set_match a as))
      else let m = (if fa_flags f AND AS_FLAG_NEIGHBORAS \<noteq> 0 then neighas else as_min f) in
        Inr (case fa_op f of
               OP_NONE \<Rightarrow> as = m
             | OP_EQ \<Rightarrow> as = m
             | OP_NE \<Rightarrow> as \<noteq> m
             | OP_RANGE \<Rightarrow> as \<ge> as_min f \<and> as \<le> as_max f
             | OP_XRANGE \<Rightarrow> as < as_min f \<or> as > as_max f
             | _ \<Rightarrow> False))"

text \<open>
  The search of aspath_match() for AS_TRANSIT and AS_ALL in one segment: None is the early return
  0 at the rightmost AS of a transit match.
\<close>

primrec match_asns ::
  "(u32 \<Rightarrow> bool res) \<Rightarrow> bool \<Rightarrow> nat \<Rightarrow> bytes \<Rightarrow> nat \<Rightarrow> nat \<Rightarrow> bool option res" where
  "match_asns P excl seg_len seg i 0 = Inr (Some False)"
| "match_asns P excl seg_len seg i (Suc k) =
     (if excl \<and> int i = int seg_len - 1 then Inr None
      else res_bind (aspath_extract seg (int i)) (\<lambda>as. res_bind (P as) (\<lambda>b.
        if b then Inr (Some True) else match_asns P excl seg_len seg (i + 1) k)))"

text \<open>
  In the search for the source AS a segment that is not the final one is left with continue,
  before the length check: a segment longer than the rest of the path then moves the read position past the end.
\<close>

function aspath_match_loop :: "filter_as \<Rightarrow> u32 \<Rightarrow> bytes \<Rightarrow> u32 \<Rightarrow> bool res" where
  "aspath_match_loop f neighas seg as =
     (if length seg < 6 then Inr False
      else res_bind (rd seg 1) (\<lambda>seg_len.
        let sz = seg_size seg_len; final = (length seg = sz) in
        if fa_type f = AS_SOURCE then
          res_bind (rd seg 0) (\<lambda>t.
          res_bind (if t = AS_SEQUENCE then aspath_extract seg (uint seg_len - 1) else Inr as) (\<lambda>as'.
            if \<not> final then
              (if sz > length seg then Inl OutOfBounds else aspath_match_loop f neighas (drop sz seg) as')
            else as_compare f as' neighas))
        else
          res_bind (match_asns (\<lambda>a. as_compare f a neighas) (final \<and> fa_type f = AS_TRANSIT)
              (unat seg_len) seg 0 (unat seg_len)) (\<lambda>r.
            case r of
              None \<Rightarrow> Inr False
            | Some True \<Rightarrow> Inr True
            | Some False \<Rightarrow>
                if sz > length seg then Inl Fatal else aspath_match_loop f neighas (drop sz seg) as)))"
  by pat_completeness auto
termination
  by (relation "measure (\<lambda>(f, n, seg, as). length seg)") (auto simp: seg_size_def)

declare aspath_match_loop.simps [simp del]

definition aspath_match :: "u32 \<Rightarrow> aspath \<Rightarrow> filter_as \<Rightarrow> u32 \<Rightarrow> bool res" where
  "aspath_match local_as a f neighas =
     (if fa_type f = AS_EMPTY then Inr (aspath_length a = 0)
      else if fa_type f = AS_PEER then
        res_bind (aspath_neighbor local_as a) (\<lambda>as. as_compare f as neighas)
      else aspath_match_loop f neighas (ap_data a) AS_NONE)"

primrec lenmatch_asns ::
  "u8 \<Rightarrow> u32 \<Rightarrow> bytes \<Rightarrow> nat \<Rightarrow> nat \<Rightarrow> u32 \<times> u32 \<Rightarrow> (bool \<times> u32 \<times> u32) res" where
  "lenmatch_asns seg_type aslen seg i 0 lc = Inr (False, lc)"
| "lenmatch_asns seg_type aslen seg i (Suc k) lc =
     res_bind (aspath_extract seg (int i)) (\<lambda>as.
       let (lastas, cnt) = lc in
       if as = lastas then
         (if aslen < cnt + 1 then Inr (True, lastas, cnt + 1)
          else lenmatch_asns seg_type aslen seg (i + 1) k (as, cnt + 1))
       else if seg_type = AS_SET then lenmatch_asns seg_type aslen seg (i + 1) k (lastas, cnt)
       else lenmatch_asns seg_type aslen seg (i + 1) k (as, 1))"

function lenmatch_loop :: "u32 \<Rightarrow> bytes \<Rightarrow> u32 \<times> u32 \<Rightarrow> bool res" where
  "lenmatch_loop aslen seg lc =
     (if seg = [] then Inr False
      else res_bind (rd seg 0) (\<lambda>seg_type. res_bind (rd seg 1) (\<lambda>seg_len.
        res_bind (lenmatch_asns seg_type aslen seg 0 (unat seg_len) lc) (\<lambda>(hit, lc').
          if hit then Inr True
          else if seg_size seg_len > length seg then Inl Fatal
          else lenmatch_loop aslen (drop (seg_size seg_len) seg) lc'))))"
  by pat_completeness auto
termination by (relation "measure (\<lambda>(l, seg, lc). length seg)") auto

definition aspath_lenmatch :: "aspath \<Rightarrow> aslen_spec \<Rightarrow> u32 \<Rightarrow> bool res" where
  "aspath_lenmatch a type aslen =
     (if type = ASLEN_MAX then res_bind (aspath_count (ap_data a)) (\<lambda>cnt. Inr (aslen < ucast cnt))
      else lenmatch_loop aslen (ap_data a) (0, 0))"

section \<open>Prepending and overriding\<close>

definition aspath_prepend :: "can_alloc \<Rightarrow> aspath \<Rightarrow> u32 \<Rightarrow> int \<Rightarrow> bytes res" where
  "aspath_prepend ca asp as quantum =
     (let data = ap_data asp; len = int (length data) in
      res_bind (if len > 0 then
                  (if len < 2 then Inl Fatal
                   else res_bind (rd data 0) (\<lambda>t. res_bind (rd data 1) (\<lambda>n. Inr (t, uint n))))
                else Inr (AS_SET, 0)) (\<lambda>(type, size).
        if quantum > 255 then Inl Fatal
        else if quantum = 0 then
          (if len = 0 then Inr [] else if \<not> ca (nat len) then Inl Fatal else Inr data)
        else
          let (l, overflow) =
                (if type = AS_SET \<or> size + quantum > 255 then
                   (2 + quantum * 4 + len, if type = AS_SET then quantum else size + quantum - 255)
                 else (quantum * 4 + len, 0));
              quantum' = quantum - overflow;
              first = (if overflow > 0
                then AS_SEQUENCE # of_int overflow # concat (replicate (nat overflow) (be_word 4 as))
                else []);
              second = (if quantum' > 0
                then AS_SEQUENCE # of_int (quantum' + size) # concat (replicate (nat quantum') (be_word 4 as))
                else []);
              shift = (if quantum' > 0 then 2 else 0);
              p = first @ second @ drop shift data
          in if \<not> ca (nat l) then Inl Fatal
             else if int (length p) > l then Inl OutOfBounds
             else Inr p))"

primrec override_asns :: "u32 \<Rightarrow> u32 \<Rightarrow> bytes \<Rightarrow> nat \<Rightarrow> nat \<Rightarrow> bytes res" where
  "override_asns neighbor_as local_as seg i 0 = Inr []"
| "override_asns neighbor_as local_as seg i (Suc k) =
     res_bind (aspath_extract seg (int i)) (\<lambda>as.
     res_bind (override_asns neighbor_as local_as seg (i + 1) k) (\<lambda>rest.
       Inr (be_word 4 (if as = neighbor_as then local_as else as) @ rest)))"

function override_loop :: "u32 \<Rightarrow> u32 \<Rightarrow> bytes \<Rightarrow> bytes res" where
  "override_loop neighbor_as local_as seg =
     (if seg = [] then Inr []
      else res_bind (rd seg 0) (\<lambda>seg_type. res_bind (rd seg 1) (\<lambda>seg_len.
        res_bind (override_asns neighbor_as local_as seg 0 (unat seg_len)) (\<lambda>asns.
          if seg_size seg_len > length seg then Inl Fatal
          else res_bind (override_loop neighbor_as local_as (drop (seg_size seg_len) seg)) (\<lambda>rest.
            Inr (seg_type # seg_len # asns @ rest))))))"
  by pat_completeness auto
termination by (relation "measure (\<lambda>(n, l, seg). length seg)") auto

definition aspath_override :: "can_alloc \<Rightarrow> aspath \<Rightarrow> u32 \<Rightarrow> u32 \<Rightarrow> bytes res" where
  "aspath_override ca asp neighbor_as local_as =
     (if ap_data asp = [] then Inr []
      else if \<not> ca (aspath_length asp) then Inl Fatal
      else override_loop neighbor_as local_as (ap_data asp))"

declare lenmatch_loop.simps [simp del] override_loop.simps [simp del]

section \<open>Paths as lists of segments\<close>

text \<open>
  A segment is its type and its AS numbers. Its encoding with AS numbers of two or four bytes is
  what the functions above walk over.
\<close>

type_synonym segment = "u8 \<times> u32 list"

definition enc_as :: "bool \<Rightarrow> u32 \<Rightarrow> bytes" where
  "enc_as as4byte as = (if as4byte then be_word 4 as else be_word 2 (ucast as :: u16))"

definition enc_seg :: "bool \<Rightarrow> segment \<Rightarrow> bytes" where
  "enc_seg as4byte s = fst s # of_nat (length (snd s)) # concat (map (enc_as as4byte) (snd s))"

definition enc_path :: "bool \<Rightarrow> segment list \<Rightarrow> bytes" where
  "enc_path as4byte segs = concat (map (enc_seg as4byte) segs)"

definition wf_seg :: "segment \<Rightarrow> bool" where
  "wf_seg s = (snd s \<noteq> [] \<and> length (snd s) \<le> 255)"

definition path_asns :: "segment list \<Rightarrow> u32 list" where
  "path_asns segs = concat (map snd segs)"

definition seg_cnt :: "segment \<Rightarrow> nat" where
  "seg_cnt s = (if fst s = AS_SET then 1 else length (snd s))"

definition path_cnt :: "segment list \<Rightarrow> nat" where
  "path_cnt segs = sum_list (map seg_cnt segs)"

lemma enc_path_simps [simp]:
  "enc_path a4 [] = []"
  "enc_path a4 (s # ss) = enc_seg a4 s @ enc_path a4 ss"
  by (simp_all add: enc_path_def)

lemma path_asns_simps [simp]: "path_asns [] = []" "path_asns (s # ss) = snd s @ path_asns ss"
  by (simp_all add: path_asns_def)

lemma path_cnt_simps [simp]: "path_cnt [] = 0" "path_cnt (s # ss) = seg_cnt s + path_cnt ss"
  by (simp_all add: path_cnt_def)

lemma length_enc_as [simp]: "length (enc_as a4 as) = (if a4 then 4 else 2)"
  by (simp add: enc_as_def)

lemma length_enc_asns [simp]:
  "length (concat (map (enc_as a4) as)) = (if a4 then 4 else 2) * length as"
  by (induction as) auto

lemma enc_as_True [simp]: "enc_as True = be_word 4"
  by (rule ext) (simp add: enc_as_def)

lemma wf_seg_len: "wf_seg (t, as) \<Longrightarrow> unat (of_nat (length as) :: u8) = length as"
  by (simp add: wf_seg_def)

text \<open>The header and the AS numbers of the first segment, as the walking functions see them.\<close>

lemma enc_seg_append:
  "enc_seg a4 (t, as) @ r = t # of_nat (length as) # concat (map (enc_as a4) as) @ r"
  by (simp add: enc_seg_def)

lemma take_drop_asns:
  "i < length as \<Longrightarrow> take 4 (drop (4 * i) (concat (map (be_word 4) as) @ r)) = be_word 4 (as ! i :: u32)"
proof (induction as arbitrary: i)
  case Nil
  then show ?case by simp
next
  case (Cons a as)
  then show ?case by (cases i) (auto simp: algebra_simps)
qed

abbreviation enc4 :: "segment \<Rightarrow> bytes" where
  "enc4 \<equiv> enc_seg True"

lemma length_be_asns [simp]: "length (concat (map (be_word 4) (as :: u32 list))) = 4 * length as"
  by (induction as) auto

lemma length_enc4 [simp]: "length (enc4 (t, as)) = 2 + 4 * length as"
  by (simp add: enc_seg_def)

lemma enc4_nonempty [simp]: "enc4 s \<noteq> []"
  by (simp add: enc_seg_def)

lemma rd_enc4 [simp]:
  "rd (enc4 (t, as) @ r) 0 = Inr t"
  "rd (enc4 (t, as) @ r) (Suc 0) = Inr (of_nat (length as))"
  by (simp_all add: rd_def enc_seg_def)

lemma seg_size_enc4 [simp]: "wf_seg (t, as) \<Longrightarrow> seg_size (of_nat (length as)) = 2 + 4 * length as"
  unfolding seg_size_def by (simp only: wf_seg_len)

lemma drop_enc4 [simp]: "drop (2 + 4 * length as) (enc4 (t, as) @ r) = r"
  by (metis append_eq_conv_conj length_enc4)

lemma drop_enc4' [simp]: "drop (Suc (Suc (4 * length as))) (enc4 (t, as) @ r) = r"
  using drop_enc4[of as t r] by simp

lemma extract_enc4 [simp]:
  assumes "wf_seg (t, as)" and "i < length as"
  shows "aspath_extract (enc4 (t, as) @ r) (int i) = Inr (as ! i)"
proof -
  have u: "uint (of_nat (length as) :: u8) = int (length as)"
    using wf_seg_len[OF assms(1)] by (metis of_nat_unat)
  have "word_be (be_word 4 (as ! i)) = (as ! i :: u32)" by (simp add: word_be_be_word)
  then show ?thesis
    using assms(2) take_drop_asns[OF assms(2), of r] u
    by (simp add: aspath_extract_def rd_def enc_seg_def del: take_append drop_append)
qed

lemma uint_seg_len [simp]: "wf_seg (t, as) \<Longrightarrow> uint (of_nat (length as) :: u8) = int (length as)"
  using wf_seg_len by (metis of_nat_unat)

lemma extract_last_enc4 [simp]:
  assumes "wf_seg (t, as)"
  shows "aspath_extract (enc4 (t, as) @ r) (int (length as) - 1) = Inr (last as)"
proof -
  have ne: "as \<noteq> []" using assms by (simp add: wf_seg_def)
  have eq: "int (length as) - 1 = int (length as - 1)" using ne by (cases as) auto
  show ?thesis
    unfolding eq last_conv_nth[OF ne] using ne by (intro extract_enc4[OF assms]) simp
qed

subsection \<open>What the walking functions compute\<close>

lemma count_loop_enc:
  "list_all wf_seg segs \<Longrightarrow>
     aspath_count_loop (enc_path True segs) c = Inr (c + of_nat (path_cnt segs))"
proof (induction segs arbitrary: c)
  case Nil
  then show ?case by (simp add: aspath_count_loop.simps)
next
  case (Cons s segs)
  obtain t as where s: "s = (t, as)" by force
  have wf: "wf_seg (t, as)" using Cons.prems s by simp
  have "(ucast (of_nat (length as) :: u8) :: u16) = of_nat (length as)"
    using wf_seg_len[OF wf] by (metis of_nat_unat)
  then show ?case
    using Cons wf by (simp add: s aspath_count_loop.simps[of "enc4 (t, as) @ _"] seg_cnt_def add.assoc)
qed

lemma take_drop_Suc: "i + Suc k \<le> length xs \<Longrightarrow> take (Suc k) (drop i xs) = xs ! i # take k (drop (i + 1) xs)"
  by (metis Cons_nth_drop_Suc Suc_eq_plus1 add_Suc_right le_simps(3) take_Suc_Cons trans_le_add1
      le_add1 le_trans not_less_eq_eq not_less)

lemma aspath_count_enc:
  "list_all wf_seg segs \<Longrightarrow> aspath_count (enc_path True segs) = Inr (of_nat (path_cnt segs))"
  by (simp add: aspath_count_def count_loop_enc)

definition seg_origin :: "segment list \<Rightarrow> u32" where
  "seg_origin segs = (if fst (last segs) = AS_SEQUENCE then last (snd (last segs)) else AS_NONE)"

lemma origin_loop_enc:
  "list_all wf_seg segs \<Longrightarrow> segs \<noteq> [] \<Longrightarrow>
     aspath_origin_loop (enc_path True segs) a =
       Inr (if fst (last segs) = AS_SEQUENCE then last (snd (last segs)) else a)"
proof (induction segs)
  case Nil
  then show ?case by simp
next
  case (Cons s segs)
  obtain t as where s: "s = (t, as)" by force
  have wf: "wf_seg (t, as)" using Cons.prems s by simp
  show ?case
  proof (cases segs)
    case Nil
    then show ?thesis
      using wf extract_last_enc4[OF wf, of "[]"] rd_enc4[of t as "[]"] drop_enc4'[of as t "[]"]
      by (simp add: s aspath_origin_loop.simps[of "enc4 (t, as)"] aspath_origin_loop.simps[of "[]"])
         (auto simp: res_bind_Inr_iff)
  next
    case C: (Cons s' segs')
    then have "enc_path True segs \<noteq> []" by simp
    then show ?thesis
      using Cons C wf by (simp add: s aspath_origin_loop.simps[of "enc4 (t, as) @ _"])
  qed
qed

lemma seg_exists_enc:
  "wf_seg (t, as) \<Longrightarrow> i + k \<le> length as \<Longrightarrow>
     seg_exists (\<lambda>a. Inr (p a)) (enc4 (t, as) @ r) i k = Inr (\<exists>a\<in>set (take k (drop i as)). p a)"
proof (induction k arbitrary: i)
  case 0
  then show ?case by simp
next
  case (Suc k)
  then show ?case by (simp add: take_drop_Suc)
qed

lemma loopfree_loop_enc:
  "list_all wf_seg segs \<Longrightarrow>
     aspath_loopfree_loop (enc_path True segs) myAS = Inr (myAS \<notin> set (path_asns segs))"
proof (induction segs)
  case Nil
  then show ?case by (simp add: aspath_loopfree_loop.simps)
next
  case (Cons s segs)
  obtain t as where s: "s = (t, as)" by force
  have wf: "wf_seg (t, as)" using Cons.prems s by simp
  then show ?case
    using Cons seg_exists_enc[OF wf, of 0 "length as" "\<lambda>a. myAS = a"] wf_seg_len[OF wf]
    by (auto simp: s aspath_loopfree_loop.simps[of "enc4 (t, as) @ _"] simp del: unat_of_nat_u8)
qed

lemma neighbor_enc:
  "list_all wf_seg segs \<Longrightarrow> ap_data a = enc_path True segs \<Longrightarrow>
     aspath_neighbor local_as a =
       Inr (case segs of (t, as) # _ \<Rightarrow> if t = AS_SEQUENCE then hd as else local_as | [] \<Rightarrow> local_as)"
proof (cases segs)
  case Nil
  moreover assume "ap_data a = enc_path True segs"
  ultimately show ?thesis by (simp add: aspath_neighbor_def)
next
  case (Cons s segs')
  moreover assume "list_all wf_seg segs" and "ap_data a = enc_path True segs"
  moreover obtain t as where "s = (t, as)" by force
  ultimately show ?thesis
    using extract_enc4[of t as 0 "enc_path True segs'"]
    by (auto simp: aspath_neighbor_def hd_conv_nth wf_seg_def)
qed

text \<open>Replacing AS numbers position by position.\<close>

lemma override_asns_enc:
  "wf_seg (t, as) \<Longrightarrow> i + k \<le> length as \<Longrightarrow>
     override_asns n l (enc4 (t, as) @ r) i k =
       Inr (concat (map (\<lambda>a. be_word 4 (if a = n then l else a)) (take k (drop i as))))"
proof (induction k arbitrary: i)
  case 0
  then show ?case by simp
next
  case (Suc k)
  then show ?case by (simp add: take_drop_Suc)
qed

definition map_asns :: "(u32 \<Rightarrow> u32) \<Rightarrow> segment list \<Rightarrow> segment list" where
  "map_asns f segs = map (\<lambda>(t, as). (t, map f as)) segs"

lemma enc4_map:
  "enc4 (t, map f as) = t # of_nat (length as) # concat (map (\<lambda>a. be_word 4 (f a)) as)"
  by (simp add: enc_seg_def comp_def)

lemma override_loop_enc:
  "list_all wf_seg segs \<Longrightarrow>
     override_loop n l (enc_path True segs) =
       Inr (enc_path True (map_asns (\<lambda>a. if a = n then l else a) segs))"
proof (induction segs)
  case Nil
  then show ?case by (simp add: override_loop.simps map_asns_def)
next
  case (Cons s segs)
  obtain t as where s: "s = (t, as)" by force
  have wf: "wf_seg (t, as)" using Cons.prems s by simp
  then show ?case
    using Cons override_asns_enc[OF wf, of 0 "length as" n l] wf_seg_len[OF wf]
    by (simp add: s override_loop.simps[of n l "enc4 (t, as) @ _"] map_asns_def enc4_map
        del: unat_of_nat_u8)
qed

end
