(* ===== verification/Aspath_Correct.thy ===== *)
theory Aspath_Correct
  imports Aspath
begin

text \<open>
  What the AS path functions compute, stated over the list of segments a path encodes: the paths
  aspath_verify() accepts, the conversion between two-byte and four-byte paths, filter matches,
  prepending, and what happens when AS4_PATH is merged.
\<close>

section \<open>Verification\<close>

definition asn_fits :: "bool \<Rightarrow> u32 \<Rightarrow> bool" where
  "asn_fits a4 a = (a4 \<or> a \<le> 0xffff)"

definition known_type :: "u8 \<Rightarrow> bool" where
  "known_type t = (t \<in> {AS_SET, AS_SEQUENCE, AS_CONFED_SEQUENCE, AS_CONFED_SET})"

text \<open>A segment that can be parsed, and one that in addition has nothing to object to.\<close>

definition parsed_seg :: "bool \<Rightarrow> segment \<Rightarrow> bool" where
  "parsed_seg a4 s = (wf_seg s \<and> known_type (fst s) \<and> list_all (asn_fits a4) (snd s))"

definition soft_seg :: "bool \<Rightarrow> segment \<Rightarrow> bool" where
  "soft_seg permit_set s = (fst s = AS_CONFED_SEQUENCE \<or> fst s = AS_CONFED_SET \<or>
     (\<not> permit_set \<and> fst s = AS_SET) \<or> 0 \<in> set (snd s))"

lemma ucast_u32_u16: "a \<le> 0xffff \<Longrightarrow> ucast (ucast (a :: u32) :: u16) = a"
proof -
  assume "a \<le> 0xffff"
  then have "unat a < 2 ^ 16" by (simp add: word_le_nat_alt)
  then show ?thesis by (intro ucast_narrow_widen) simp
qed

lemma get_asn_enc: "asn_fits a4 a \<Longrightarrow> get_asn a4 (enc_as a4 a @ r) = Inr (a, r)"
  by (auto simp: get_asn_def enc_as_def asn_fits_def ucast_u32_u16)

lemma get_asn_Inr:
  assumes "get_asn a4 buf = Inr (a, r)"
  shows "buf = enc_as a4 a @ r \<and> asn_fits a4 a"
proof (cases a4)
  case True
  then show ?thesis using assms by (auto simp: get_asn_def enc_as_def asn_fits_def dest: get_n32_Inr)
next
  case False
  then obtain v where g: "get_n16 buf = Inr (v, r)" and a: "a = ucast v"
    using assms by (auto simp: get_asn_def res_bind_Inr_iff)
  have "unat (ucast v :: u32) \<le> 0xffff"
    using unat_u16_less[of v] by (simp add: unsigned_ucast_eq take_bit_nat_eq_self)
  then have "a \<le> 0xffff" by (simp add: a word_le_nat_alt)
  moreover have "(ucast a :: u16) = v" unfolding a by (rule bit_eqI) (simp add: bit_ucast_iff)
  ultimately show ?thesis using get_n16_Inr[OF g] False by (simp add: enc_as_def asn_fits_def)
qed

lemma verify_asns_enc:
  "list_all (asn_fits a4) as \<Longrightarrow>
     verify_asns a4 (length as) (concat (map (enc_as a4) as) @ r) e =
       Some (if 0 \<in> set as then AS_ERR_SOFT else e, r)"
  by (induction as arbitrary: e) (auto simp: get_asn_enc)

lemma verify_asns_Some:
  "verify_asns a4 n buf e = Some (e', r) \<Longrightarrow>
     \<exists>as. length as = n \<and> list_all (asn_fits a4) as \<and> buf = concat (map (enc_as a4) as) @ r"
proof (induction n arbitrary: buf e)
  case 0
  then show ?case by simp
next
  case (Suc n)
  then obtain a buf' where g: "get_asn a4 buf = Inr (a, buf')"
    and v: "verify_asns a4 n buf' (if a = 0 then AS_ERR_SOFT else e) = Some (e', r)"
    by (auto split: sum.splits)
  obtain as where "length as = n" "list_all (asn_fits a4) as" "buf' = concat (map (enc_as a4) as) @ r"
    using Suc.IH[OF v] by blast
  then have "length (a # as) = Suc n \<and> list_all (asn_fits a4) (a # as) \<and>
      buf = concat (map (enc_as a4) (a # as)) @ r"
    using get_asn_Inr[OF g] by simp
  then show ?case by blast
qed

lemma verify_loop_enc:
  "list_all (parsed_seg a4) segs \<Longrightarrow>
     verify_loop a4 ps (enc_path a4 segs) e c =
       (if c + length (path_asns segs) > MAX_ASPATH_COUNT then AS_ERR_MAX
        else if list_ex (soft_seg ps) segs then AS_ERR_SOFT else e)"
proof (induction segs arbitrary: e c)
  case Nil
  then show ?case by (simp add: verify_loop.simps)
next
  case (Cons s segs)
  obtain t as where s: "s = (t, as)" by force
  have wf: "wf_seg (t, as)" and kt: "known_type t" and fits: "list_all (asn_fits a4) as"
    using Cons.prems s by (auto simp: parsed_seg_def)
  have u: "unat (of_nat (length as) :: u8) = length as" by (rule wf_seg_len[OF wf])
  have nz: "(of_nat (length as) :: u8) \<noteq> 0"
    using u wf by (metis length_0_conv prod.sel(2) unsigned_0 wf_seg_def)
  show ?case
    using Cons kt nz verify_asns_enc[OF fits] u
    by (auto simp: s verify_loop.simps[of a4 ps "t # of_nat (length as) # _"] enc_seg_append known_type_def
        soft_seg_def[of ps "(_, as)"] Let_def simp del: unat_of_nat_u8)
qed

lemma verify_loop_parses:
  "verify_loop a4 ps buf e c \<notin> {AS_ERR_LEN, AS_ERR_TYPE, AS_ERR_BAD} \<Longrightarrow>
     \<exists>segs. list_all (parsed_seg a4) segs \<and> buf = enc_path a4 segs"
proof (induction a4 ps buf e c rule: verify_loop.induct)
  case (1 a4 ps buf e c)
  show ?case
  proof (cases "buf = []")
    case True
    then have "list_all (parsed_seg a4) [] \<and> buf = enc_path a4 []" by simp
    then show ?thesis by blast
  next
    case False
    then obtain t n rest where h: "get_seghdr buf = Inr (t, n, rest)"
      using "1.prems" by (cases "get_seghdr buf") (auto simp: verify_loop.simps[of a4 ps buf])
    have n: "n \<noteq> 0" and kt: "known_type t"
      using "1.prems" False h
      by (auto simp: verify_loop.simps[of a4 ps buf] known_type_def Let_def split: if_splits)
    define e2 where "e2 = (if \<not> ps \<and> t = AS_SET then AS_ERR_SOFT
       else if t = AS_CONFED_SEQUENCE \<or> t = AS_CONFED_SET then AS_ERR_SOFT else e)"
    obtain e3 rest' where v: "verify_asns a4 (unat n) rest e2 = Some (e3, rest')"
      using "1.prems" False h n kt
      by (cases "verify_asns a4 (unat n) rest e2")
         (auto simp: verify_loop.simps[of a4 ps buf] known_type_def Let_def e2_def split: if_splits)
    have eq: "verify_loop a4 ps buf e c = verify_loop a4 ps rest' e3 (c + unat n)"
      using False h n kt v
      by (auto simp: verify_loop.simps[of a4 ps buf] known_type_def Let_def e2_def)
    have nt: "\<not> (t \<noteq> AS_SET \<and> t \<noteq> AS_SEQUENCE \<and> t \<noteq> AS_CONFED_SEQUENCE \<and> t \<noteq> AS_CONFED_SET)"
      using kt by (simp add: known_type_def)
    obtain segs where segs: "list_all (parsed_seg a4) segs" "rest' = enc_path a4 segs"
      using "1.IH"[OF False h refl refl n refl refl nt v[unfolded e2_def] refl] "1.prems"
      unfolding eq by blast
    obtain as where as: "length as = unat n" "list_all (asn_fits a4) as"
        "rest = concat (map (enc_as a4) as) @ rest'"
      using verify_asns_Some[OF v] by blast
    have "wf_seg (t, as)"
      using as(1) n unat_u8_less[of n] by (auto simp: wf_seg_def unat_eq_0)
    then have "list_all (parsed_seg a4) ((t, as) # segs)"
      using segs(1) kt as(2) by (simp add: parsed_seg_def)
    moreover have "buf = enc_path a4 ((t, as) # segs)"
      using get_seghdr_Inr[OF h] as segs(2) by (simp add: enc_seg_append)
    ultimately show ?thesis by blast
  qed
qed

lemma even_length_enc_path: "even (length (enc_path a4 segs))"
  by (induction segs) (auto simp: enc_seg_def)

lemma aspath_verify_enc:
  "list_all (parsed_seg a4) segs \<Longrightarrow>
     aspath_verify (enc_path a4 segs) a4 ps =
       (if length (path_asns segs) > MAX_ASPATH_COUNT then AS_ERR_MAX
        else if list_ex (soft_seg ps) segs then AS_ERR_SOFT else 0)"
  by (simp add: aspath_verify_def even_length_enc_path verify_loop_enc)

lemma aspath_verify_parses:
  assumes "aspath_verify buf a4 ps \<notin> {AS_ERR_LEN, AS_ERR_TYPE, AS_ERR_BAD}"
  obtains segs where "list_all (parsed_seg a4) segs" and "buf = enc_path a4 segs"
  using assms verify_loop_parses[of a4 ps buf 0 0] by (auto simp: aspath_verify_def split: if_splits)

lemma parsed_segs_wf: "list_all (parsed_seg a4) segs \<Longrightarrow> list_all wf_seg segs"
  by (auto simp: list_all_iff parsed_seg_def)

section \<open>Widening and narrowing\<close>

lemma inflate_asns_enc:
  "list_all (asn_fits False) as \<Longrightarrow> length out + 4 * length as \<le> cap \<Longrightarrow>
     inflate_asns cap (length as) (concat (map (enc_as False) as) @ r) out =
       Inr (out @ concat (map (be_word 4) as), r)"
proof (induction as arbitrary: out)
  case Nil
  then show ?case by simp
next
  case (Cons a as)
  have "(ucast (ucast a :: u16) :: u32) = a"
    using Cons.prems by (intro ucast_u32_u16) (simp add: asn_fits_def)
  then show ?case using Cons by (simp add: enc_as_def put_bytes_fits)
qed

lemma inflate_loop_enc:
  "list_all (parsed_seg False) segs \<Longrightarrow> length out + length (enc_path True segs) \<le> cap \<Longrightarrow>
     inflate_loop cap (enc_path False segs) out = Inr (out @ enc_path True segs)"
proof (induction segs arbitrary: out)
  case Nil
  then show ?case by (simp add: inflate_loop.simps)
next
  case (Cons s segs)
  obtain t as where s: "s = (t, as)" by force
  have wf: "wf_seg (t, as)" and fits: "list_all (asn_fits False) as"
    using Cons.prems s by (auto simp: parsed_seg_def)
  have u: "unat (of_nat (length as) :: u8) = length as" by (rule wf_seg_len[OF wf])
  have nz: "(of_nat (length as) :: u8) \<noteq> 0"
    using u wf by (metis length_0_conv prod.sel(2) unsigned_0 wf_seg_def)
  have cap: "length out + 2 + 4 * length as + length (enc_path True segs) \<le> cap"
    using Cons.prems s by simp
  have h: "put_bytes cap out [t] = Inr (out @ [t])"
    and h2: "put_bytes cap (out @ [t]) [of_nat (length as)] = Inr (out @ [t, of_nat (length as)])"
    using cap by (simp_all add: put_bytes_fits)
  have i: "inflate_asns cap (length as) (concat (map (enc_as False) as) @ enc_path False segs)
      (out @ [t, of_nat (length as)]) =
      Inr (out @ [t, of_nat (length as)] @ concat (map (be_word 4) as), enc_path False segs)"
    using inflate_asns_enc[OF fits, of "out @ [t, of_nat (length as)]" cap] cap by simp
  have rest: "inflate_loop cap (enc_path False segs)
      (out @ [t, of_nat (length as)] @ concat (map (be_word 4) as)) =
      Inr ((out @ [t, of_nat (length as)] @ concat (map (be_word 4) as)) @ enc_path True segs)"
    using Cons.prems cap by (intro Cons.IH) auto
  show ?case
    using nz u h h2 i rest
    by (simp add: s inflate_loop.simps[of cap "t # of_nat (length as) # _"] enc_seg_append
        del: unat_of_nat_u8)
qed

lemma length_enc_True_le: "length (enc_path True segs) \<le> 2 * length (enc_path False segs)"
  by (induction segs) (auto simp: enc_seg_def)

lemma aspath_inflate_enc:
  "list_all (parsed_seg False) segs \<Longrightarrow> (\<And>n. ca n) \<Longrightarrow>
     aspath_inflate ca (enc_path False segs) = Inr (enc_path True segs)"
  using inflate_loop_enc[of segs "[]"] length_enc_True_le[of segs]
  by (simp add: aspath_inflate_def Let_def)

definition as_trans :: "u32 \<Rightarrow> u32" where
  "as_trans a = (if a > USHRT_MAX then AS_TRANS else a)"

lemma deflate_asns_enc:
  "wf_seg (t, as) \<Longrightarrow> i + k \<le> length as \<Longrightarrow>
     deflate_asns (enc4 (t, as) @ r) i k fl =
       Inr (concat (map (\<lambda>a. enc_as False (as_trans a)) (take k (drop i as))),
            fl \<or> (\<exists>a\<in>set (take k (drop i as)). a > USHRT_MAX))"
proof (induction k arbitrary: i fl)
  case 0
  then show ?case by simp
next
  case (Suc k)
  then show ?case by (auto simp: take_drop_Suc enc_as_def as_trans_def Let_def)
qed

lemma enc_seg_map:
  "enc_seg a4 (t, map f as) = t # of_nat (length as) # concat (map (\<lambda>a. enc_as a4 (f a)) as)"
  by (simp add: enc_seg_def comp_def)

lemma deflate_copy_enc:
  "list_all wf_seg segs \<Longrightarrow>
     deflate_copy (enc_path True segs) fl =
       Inr (enc_path False (map_asns as_trans segs), fl \<or> (\<exists>a\<in>set (path_asns segs). a > USHRT_MAX))"
proof (induction segs arbitrary: fl)
  case Nil
  then show ?case by (simp add: deflate_copy.simps map_asns_def)
next
  case (Cons s segs)
  obtain t as where s: "s = (t, as)" by force
  have wf: "wf_seg (t, as)" using Cons.prems s by simp
  have d: "deflate_asns (enc4 (t, as) @ r) 0 (length as) fl =
      Inr (concat (map (\<lambda>a. enc_as False (as_trans a)) as), fl \<or> (\<exists>a\<in>set as. a > USHRT_MAX))" for r fl
    using deflate_asns_enc[OF wf, of 0 "length as"] by simp
  show ?case
    using Cons wf d wf_seg_len[OF wf]
    by (auto simp: s deflate_copy.simps[of "enc4 (t, as) @ _"] map_asns_def enc_seg_map
        simp del: unat_of_nat_u8)
qed

lemma deflate_len_enc:
  "list_all wf_seg segs \<Longrightarrow>
     deflate_len (enc_path True segs) c = Inr (c + of_nat (length (enc_path False segs)))"
proof (induction segs arbitrary: c)
  case Nil
  then show ?case by (simp add: deflate_len.simps)
next
  case (Cons s segs)
  obtain t as where s: "s = (t, as)" by force
  have wf: "wf_seg (t, as)" using Cons.prems s by simp
  have "(ucast (of_nat (length as) :: u8) :: u16) = of_nat (length as)"
    using wf_seg_len[OF wf] by (metis of_nat_unat)
  moreover have "length (enc_seg False (t, as)) = 2 + 2 * length as" by (simp add: enc_seg_def)
  ultimately show ?case
    using Cons wf by (simp add: s deflate_len.simps[of "enc4 (t, as) @ _"] add.assoc)
qed

lemma length_enc_map_asns: "length (enc_path a4 (map_asns f segs)) = length (enc_path a4 segs)"
  by (induction segs) (auto simp: map_asns_def enc_seg_map enc_seg_def split: prod.splits)

lemma length_enc_False_le: "length (enc_path False segs) \<le> length (enc_path True segs)"
  by (induction segs) (auto simp: enc_seg_def)

lemma aspath_deflate_enc:
  assumes "list_all wf_seg segs" and "length (enc_path True segs) < 2 ^ 16" and "\<And>n. ca n"
  shows "aspath_deflate ca (enc_path True segs) fl =
    Inr (of_nat (length (enc_path False segs)), enc_path False (map_asns as_trans segs),
         fl \<or> (\<exists>a\<in>set (path_asns segs). a > USHRT_MAX))"
proof -
  have l: "length (enc_path False segs) < 2 ^ 16"
    using assms(2) length_enc_False_le[of segs] by linarith
  then have u: "unat (of_nat (length (enc_path False segs)) :: u16) = length (enc_path False segs)"
    by (simp add: unat_of_nat take_bit_nat_eq_self)
  show ?thesis
  proof (cases "segs = []")
    case True
    then show ?thesis by (simp add: aspath_deflate_def deflate_len.simps map_asns_def)
  next
    case False
    then have "length (enc_path False segs) \<noteq> 0" by (cases segs) (auto simp: enc_seg_def)
    then have "(of_nat (length (enc_path False segs)) :: u16) \<noteq> 0" using u by (metis unsigned_0)
    then show ?thesis
      using assms u by (simp add: aspath_deflate_def deflate_len_enc deflate_copy_enc length_enc_map_asns)
  qed
qed

lemma map_asns_id: "(\<And>a. a \<in> set (path_asns segs) \<Longrightarrow> f a = a) \<Longrightarrow> map_asns f segs = segs"
  by (induction segs) (auto simp: map_asns_def map_idI)

section \<open>Matching\<close>

lemma match_asns_all:
  "wf_seg (t, as) \<Longrightarrow> i + k = length as \<Longrightarrow>
     match_asns (\<lambda>a. Inr (p a)) False n (enc4 (t, as) @ r) i k = Inr (Some (\<exists>a\<in>set (drop i as). p a))"
proof (induction k arbitrary: i)
  case 0
  then show ?case by simp
next
  case (Suc k)
  then have "drop i as = as ! i # drop (i + 1) as" by (simp add: Cons_nth_drop_Suc)
  then show ?case using Suc by simp
qed

lemma match_asns_transit:
  "wf_seg (t, as) \<Longrightarrow> i + Suc k = length as \<Longrightarrow>
     match_asns (\<lambda>a. Inr (p a)) True (length as) (enc4 (t, as) @ r) i (Suc k) =
       Inr (if \<exists>a\<in>set (butlast (drop i as)). p a then Some True else None)"
proof (induction k arbitrary: i)
  case 0
  then have "drop i as = [as ! i]" by (simp add: Cons_nth_drop_Suc[symmetric])
  then show ?case using 0 by auto
next
  case (Suc k)
  have d: "drop i as = as ! i # drop (i + 1) as" using Suc.prems by (simp add: Cons_nth_drop_Suc)
  have ne: "drop (i + 1) as \<noteq> []" using Suc.prems by simp
  have "match_asns (\<lambda>a. Inr (p a)) True (length as) (enc4 (t, as) @ r) i (Suc (Suc k)) =
      (if p (as ! i) then Inr (Some True)
       else match_asns (\<lambda>a. Inr (p a)) True (length as) (enc4 (t, as) @ r) (i + 1) (Suc k))"
    using Suc.prems by simp
  also have "\<dots> = Inr (if \<exists>a\<in>set (butlast (drop i as)). p a then Some True else None)"
    using Suc.IH[of "i + 1"] Suc.prems d ne by simp
  finally show ?case .
qed

text \<open>The rightmost AS of the last AS_SEQUENCE segment, or the given default.\<close>

fun source_as :: "segment list \<Rightarrow> u32 \<Rightarrow> u32" where
  "source_as [] d = d"
| "source_as ((t, as) # segs) d = source_as segs (if t = AS_SEQUENCE then last as else d)"

definition as_matches :: "filter_as \<Rightarrow> u32 \<Rightarrow> u32 \<Rightarrow> bool" where
  "as_matches f neighas a = (as_compare f a neighas = Inr True)"

text \<open>A filter that names an as-set has it resolved.\<close>

definition filter_as_ok :: "filter_as \<Rightarrow> bool" where
  "filter_as_ok f = (fa_flags f AND AS_FLAG_AS_SET \<noteq> 0 \<longrightarrow> fa_aset f \<noteq> None)"

lemma as_compare_ok: "filter_as_ok f \<Longrightarrow> as_compare f a n = Inr (as_matches f n a)"
  by (auto simp: as_compare_def as_matches_def filter_as_ok_def Let_def split: option.splits)

definition loop_match :: "filter_as \<Rightarrow> u32 \<Rightarrow> segment list \<Rightarrow> u32 \<Rightarrow> bool" where
  "loop_match f neighas segs d =
     (if fa_type f = AS_SOURCE then segs \<noteq> [] \<and> as_matches f neighas (source_as segs d)
      else if fa_type f = AS_TRANSIT then \<exists>a\<in>set (butlast (path_asns segs)). as_matches f neighas a
      else \<exists>a\<in>set (path_asns segs). as_matches f neighas a)"

lemma wf_seg_6: "wf_seg (t, as) \<Longrightarrow> 6 \<le> length (enc4 (t, as))"
  by (cases as) (auto simp: wf_seg_def)

lemma path_asns_nonempty: "list_all wf_seg segs \<Longrightarrow> segs \<noteq> [] \<Longrightarrow> path_asns segs \<noteq> []"
  by (cases segs) (auto simp: wf_seg_def)

lemma match_loop_enc:
  "filter_as_ok f \<Longrightarrow> list_all wf_seg segs \<Longrightarrow>
     aspath_match_loop f neighas (enc_path True segs) d = Inr (loop_match f neighas segs d)"
proof (induction segs arbitrary: d)
  case Nil
  then show ?case by (simp add: aspath_match_loop.simps loop_match_def)
next
  case (Cons s segs)
  obtain t as where s: "s = (t, as)" by force
  have wf: "wf_seg (t, as)" using Cons.prems s by simp
  let ?r = "enc_path True segs"
  have n6: "\<not> length (enc4 (t, as) @ ?r) < 6" using wf_seg_6[OF wf] by simp
  have u: "unat (of_nat (length as) :: u8) = length as" by (rule wf_seg_len[OF wf])
  have fin: "length (enc4 (t, as) @ ?r) = seg_size (of_nat (length as)) \<longleftrightarrow> segs = []"
    using wf by (cases segs) (auto simp: enc_seg_def)
  have ne: "as \<noteq> []" using wf by (simp add: wf_seg_def)
  have cmp: "(\<lambda>a. as_compare f a neighas) = (\<lambda>a. Inr (as_matches f neighas a))"
    using as_compare_ok[OF Cons.prems(1)] by blast
  note unf = aspath_match_loop.simps[of f neighas "enc4 (t, as) @ ?r"]
  have IH: "\<And>d. aspath_match_loop f neighas ?r d = Inr (loop_match f neighas segs d)"
    using Cons by simp
  have wf2: "\<And>t'. wf_seg (t', as)" using wf by (simp add: wf_seg_def)
  consider (src) "fa_type f = AS_SOURCE" | (tr) "fa_type f = AS_TRANSIT"
    | (all) "fa_type f \<noteq> AS_SOURCE" "fa_type f \<noteq> AS_TRANSIT" by blast
  then show ?case
  proof cases
    case src
    have "aspath_match_loop f neighas (enc4 (t, as) @ ?r) d =
        (let d' = (if t = AS_SEQUENCE then last as else d) in
         if segs = [] then Inr (as_matches f neighas d') else aspath_match_loop f neighas ?r d')"
      unfolding unf Let_def
      using wf2 extract_last_enc4[OF wf2, of AS_SEQUENCE "[]"] fin as_compare_ok[OF Cons.prems(1)] n6 src
      by simp
    then show ?thesis using IH src by (simp add: s loop_match_def Let_def)
  next
    case tr
    show ?thesis
    proof (cases "segs = []")
      case True
      obtain k where k: "length as = Suc k" using ne by (cases as) auto
      have "match_asns (\<lambda>a. Inr (as_matches f neighas a)) True (length as) (enc4 (t, as) @ ?r) 0 (length as) =
          Inr (if \<exists>a\<in>set (butlast as). as_matches f neighas a then Some True else None)"
        using match_asns_transit[OF wf, of 0 k] k by simp
      then have "aspath_match_loop f neighas (enc4 (t, as) @ ?r) d =
          Inr (\<exists>a\<in>set (butlast as). as_matches f neighas a)"
        unfolding unf using wf fin n6 tr True u rd_enc4[of t as "[]"]
        by (simp add: Let_def cmp del: unat_of_nat_u8)
      then show ?thesis using tr True by (simp add: s loop_match_def)
    next
      case False
      then have "path_asns segs \<noteq> []" using Cons.prems path_asns_nonempty by simp
      then show ?thesis
        using wf fin n6 tr False u IH match_asns_all[OF wf, of 0 "length as" _ "length as" ?r]
        by (auto simp: s unf Let_def loop_match_def cmp butlast_append simp del: unat_of_nat_u8
            split: bool.splits)
    qed
  next
    case all
    then show ?thesis
      using wf fin n6 u IH match_asns_all[OF wf, of 0 "length as" _ "length as" ?r]
      by (auto simp: s unf Let_def loop_match_def cmp simp del: unat_of_nat_u8 split: bool.splits)
  qed
qed

definition path_match :: "u32 \<Rightarrow> filter_as \<Rightarrow> u32 \<Rightarrow> segment list \<Rightarrow> bool" where
  "path_match local_as f neighas segs =
     (case fa_type f of
        AS_EMPTY \<Rightarrow> segs = []
      | AS_PEER \<Rightarrow> as_matches f neighas
          (case segs of (t, as) # _ \<Rightarrow> if t = AS_SEQUENCE then hd as else local_as | [] \<Rightarrow> local_as)
      | AS_SOURCE \<Rightarrow> segs \<noteq> [] \<and> as_matches f neighas (source_as segs AS_NONE)
      | AS_TRANSIT \<Rightarrow> (\<exists>a\<in>set (butlast (path_asns segs)). as_matches f neighas a)
      | _ \<Rightarrow> (\<exists>a\<in>set (path_asns segs). as_matches f neighas a))"

lemma enc_path_Nil_iff [simp]: "enc_path True segs = [] \<longleftrightarrow> segs = []"
  by (cases segs) auto

section \<open>Prepending\<close>

text \<open>The result of prepending at the level of segments.\<close>

definition prepend_segs :: "u32 \<Rightarrow> nat \<Rightarrow> segment list \<Rightarrow> segment list" where
  "prepend_segs as q segs =
     (case segs of
        (t, asns) # rest \<Rightarrow>
          if t = AS_SET then (AS_SEQUENCE, replicate q as) # segs
          else if length asns + q > 255 then
            (AS_SEQUENCE, replicate (length asns + q - 255) as) #
            (if length asns < 255 then (AS_SEQUENCE, replicate (255 - length asns) as @ asns) # rest
             else segs)
          else (AS_SEQUENCE, replicate q as @ asns) # rest
      | [] \<Rightarrow> [(AS_SEQUENCE, replicate q as)])"

lemma of_int_nat_u8: "0 \<le> n \<Longrightarrow> (of_int n :: u8) = of_nat (nat n)"
  by (metis int_nat_eq of_int_of_nat_eq)

lemma length_concat_replicate [simp]: "length (concat (replicate n d)) = n * length d"
  by (induction n) auto

lemma aspath_prepend_enc:
  assumes wf: "list_all wf_seg segs" and ty: "\<forall>s\<in>set segs. fst s \<in> {AS_SET, AS_SEQUENCE}"
    and q: "0 < q" "q \<le> 255" and ca: "\<And>n. ca n" and d: "ap_data asp = enc_path True segs"
  shows "aspath_prepend ca asp as (int q) = Inr (enc_path True (prepend_segs as q segs))"
proof (cases segs)
  case Nil
  then show ?thesis
    using q ca d by (simp add: aspath_prepend_def prepend_segs_def enc_seg_def Let_def)
next
  case (Cons s rest)
  obtain t asns where s: "s = (t, asns)" by force
  have w: "wf_seg (t, asns)" and t: "t = AS_SET \<or> t = AS_SEQUENCE" using wf ty Cons s by auto
  have hd: "rd (ap_data asp) 0 = Inr t" "rd (ap_data asp) (Suc 0) = Inr (of_nat (length asns))"
    "length (ap_data asp) = 2 + 4 * length asns + length (enc_path True rest)"
    "drop 2 (ap_data asp) = concat (map (be_word 4) asns) @ enc_path True rest"
    "ap_data asp = t # of_nat (length asns) # concat (map (be_word 4) asns) @ enc_path True rest"
    using d Cons s by (simp_all add: enc_seg_def rd_def)
  have sz: "uint (of_nat (length asns) :: u8) = int (length asns)" "length asns \<le> 255"
    using w by (auto simp: wf_seg_def)
  have ns: "2 \<le> length (ap_data asp)" using hd(3) by simp
  consider (set) "t = AS_SET" | (fit) "t = AS_SEQUENCE" "length asns + q \<le> 255"
    | (over) "t = AS_SEQUENCE" "length asns + q > 255" "length asns < 255"
    | (full) "t = AS_SEQUENCE" "length asns = 255"
    using t sz(2) by fastforce
  then show ?thesis
  proof cases
    case set
    then show ?thesis
      using hd sz ns q ca Cons s
      by (simp add: aspath_prepend_def prepend_segs_def enc_seg_def Let_def del: uint_seg_len)
  next
    case fit
    then show ?thesis
      using hd sz ns q ca Cons s
      by (simp add: aspath_prepend_def prepend_segs_def enc_seg_def Let_def of_int_nat_u8)
  next
    case over
    have "nat (int (length asns) + int q - 255) = length asns + q - 255"
      "nat (255 - int (length asns)) = 255 - length asns" by linarith+
    then show ?thesis
      using over hd sz ns q ca Cons s
      by (simp add: aspath_prepend_def prepend_segs_def enc_seg_def Let_def of_int_nat_u8)
  next
    case full
    then show ?thesis
      using hd sz ns q ca Cons s
      by (simp add: aspath_prepend_def prepend_segs_def enc_seg_def Let_def of_int_nat_u8)
  qed
qed

lemma prepend_segs_wf:
  "list_all wf_seg segs \<Longrightarrow> 0 < q \<Longrightarrow> q \<le> 255 \<Longrightarrow> list_all wf_seg (prepend_segs as q segs)"
  by (auto simp: prepend_segs_def wf_seg_def split: list.splits)

lemma prepend_segs_asns:
  assumes "list_all wf_seg segs"
  shows "path_asns (prepend_segs as q segs) = replicate q as @ path_asns segs"
proof (cases segs)
  case Nil
  then show ?thesis by (simp add: prepend_segs_def)
next
  case (Cons s rest)
  obtain t asns where s: "s = (t, asns)" by force
  have "replicate (length asns + q - 255) as @ replicate (255 - length asns) as = replicate q as"
    if "255 < length asns + q" "length asns < 255"
    using that by (simp add: replicate_add[symmetric])
  then show ?thesis using assms Cons s by (auto simp: prepend_segs_def wf_seg_def)
qed

lemma prepend_segs_cnt:
  "list_all wf_seg segs \<Longrightarrow> \<forall>s\<in>set segs. fst s \<in> {AS_SET, AS_SEQUENCE} \<Longrightarrow> path_cnt (prepend_segs as q segs) = q + path_cnt segs"
  by (auto simp: prepend_segs_def seg_cnt_def wf_seg_def split: list.splits)

section \<open>Merging\<close>

lemma get_n32_short: "length bs < 4 \<Longrightarrow> get_n32 bs = Inl EBADMSG"
  by (simp add: get_n32_def get_bytes_def)

lemma domerge_asns_short:
  "0 < n \<Longrightarrow> length inb < 8 * n \<Longrightarrow> \<exists>e. domerge_asns cap n inb out = Inl e"
proof (induction n arbitrary: inb out)
  case 0
  then show ?case by simp
next
  case (Suc n)
  show ?case
  proof (rule ccontr)
    assume no: "\<not> ?case"
    then obtain z where z: "domerge_asns cap (Suc n) inb out = Inr z"
      by (cases "domerge_asns cap (Suc n) inb out") auto
    then obtain a in1 b in2 out' where g: "get_n32 inb = Inr (a, in1)" "get_n32 in1 = Inr (b, in2)"
      and r: "domerge_asns cap n in2 out' = Inr z"
      by (auto simp: res_bind_Inr_iff)
    have l: "length inb = 8 + length in2" using get_n32_Inr[OF g(1)] get_n32_Inr[OF g(2)] by simp
    then show False
      using Suc.IH[of in2 out'] Suc.prems r by (cases n) auto
  qed
qed

lemma domerge_copy_asns_rest:
  "domerge_copy_asns cap n inb out = Inr (inb', out') \<Longrightarrow> length inb = 4 * n + length inb'"
  by (induction n arbitrary: inb out) (fastforce simp: res_bind_Inr_iff dest: get_n32_Inr)+

lemma domerge_tail_short:
  assumes "inb \<noteq> []" and "\<not> dm_newseg st" and "0 < uint (dm_len st) - dm_nseg st"
    and "int (length inb) < 8 * (uint (dm_len st) - dm_nseg st)"
  shows "\<exists>e. domerge_tail cap st inb in4 out = Inl e"
proof -
  define n where "n = nat (uint (dm_len st) - dm_nseg st)"
  have i: "int n = uint (dm_len st) - dm_nseg st" using assms(3) by (simp add: n_def)
  have "0 < n" using i assms(3) by linarith
  moreover have "int (length inb) < int (8 * n)" using i assms(4) by simp
  ultimately obtain e where "domerge_asns cap n inb out = Inl e"
    using domerge_asns_short[of n inb] by auto
  then show ?thesis
    using assms(1,2) by (auto simp: domerge_tail.simps[of cap st inb] n_def split: sum.splits)
qed

lemma domerge_single_segment:
  assumes wf: "wf_seg (t, as)" and t: "t \<noteq> AS_SET" and cnt: "0 \<le> cnt" "cnt < int (length as)"
  shows "\<exists>e. aspath_domerge cap (enc4 (t, as)) in4 cnt = Inl e"
proof -
  let ?st = "\<lparr>dm_type = 0, dm_len = 0, dm_nseg = 0, dm_newseg = True\<rparr>"
  let ?asns = "concat (map (be_word 4) as)"
  have e: "enc4 (t, as) = t # of_nat (length as) # ?asns" by (simp add: enc_seg_def)
  have u: "uint (of_nat (length as) :: u8) = int (length as)" using wf by simp
  then have un: "unat (of_nat (length as) :: u8) = length as" using wf_seg_len[OF wf] by simp
  show ?thesis
  proof (cases "cnt = 0")
    case True
    have "\<exists>e. domerge_asns cap (length as) ?asns out = Inl e" for out
      using cnt True by (intro domerge_asns_short) auto
    then have "\<exists>e. domerge_tail cap ?st (enc4 (t, as)) in4 [] = Inl e"
      using un by (auto simp: e domerge_tail.simps[of cap ?st] simp del: unat_of_nat_u8
          split: sum.splits) (metis Inl_Inr_False)
    then show ?thesis using True by (simp add: aspath_domerge_def domerge_head.simps)
  next
    case False
    let ?st2 = "\<lparr>dm_type = t, dm_len = of_nat (length as), dm_nseg = cnt, dm_newseg = False\<rparr>"
    show ?thesis
    proof (rule ccontr)
      assume "\<not> ?thesis"
      then obtain z where "aspath_domerge cap (enc4 (t, as)) in4 cnt = Inr z"
        by (cases "aspath_domerge cap (enc4 (t, as)) in4 cnt") auto
      then obtain inb out where
          c: "domerge_copy_asns cap (nat cnt) ?asns [t, of_nat (length as)] = Inr (inb, out)"
        and tl: "domerge_tail cap ?st2 inb in4 out = Inr z"
        using t cnt False u
        by (auto simp: aspath_domerge_def e domerge_head.simps[of cap cnt] domerge_head.simps[of cap 0]
            put_bytes_def res_bind_Inr_iff split: sum.splits if_splits)
      have "4 * int (length as) = 4 * cnt + int (length inb)"
        using domerge_copy_asns_rest[OF c] cnt by simp
      then have "int (length inb) = 4 * (int (length as) - cnt)" by simp
      moreover from this have "inb \<noteq> []" using cnt by auto
      ultimately show False
        using domerge_tail_short[of inb ?st2 cap in4 out] u cnt tl by simp
    qed
  qed
qed

section \<open>Properties\<close>

text \<open>
  C19: aspath_verify() returns 0 exactly for the encodings of lists of AS_SET and AS_SEQUENCE
  segments (sets only when they are permitted), each of 1 to 255 AS numbers, none of them 0, with
  at most 750 AS numbers in total.
\<close>

theorem aspath_verify_iff:
  "aspath_verify buf as4byte permit_set = 0 \<longleftrightarrow>
     (\<exists>segs. buf = enc_path as4byte segs \<and> length (path_asns segs) \<le> MAX_ASPATH_COUNT \<and>
       list_all (\<lambda>s. parsed_seg as4byte s \<and> \<not> soft_seg permit_set s) segs)" (is "?l \<longleftrightarrow> ?r")
proof
  assume l: ?l
  then have "aspath_verify buf as4byte permit_set \<notin> {AS_ERR_LEN, AS_ERR_TYPE, AS_ERR_BAD}" by simp
  then obtain segs where "list_all (parsed_seg as4byte) segs" and "buf = enc_path as4byte segs"
    by (rule aspath_verify_parses)
  with l show ?r
    by (auto simp: aspath_verify_enc list_all_iff list_ex_iff not_less split: if_splits)
next
  assume ?r
  then show ?l by (auto simp: aspath_verify_enc list_all_iff list_ex_iff)
qed



text \<open>
  C27: a well-formed two-byte path is widened to a four-byte path that encodes the same segments,
  gets the same verdict, and is narrowed back to the very same bytes without a number being lost
  to AS_TRANS.
\<close>

theorem aspath_inflate_deflate:
  assumes "aspath_verify buf False ps \<notin> {AS_ERR_LEN, AS_ERR_TYPE, AS_ERR_BAD}"
    and "2 * length buf < 2 ^ 16" and "\<forall>n. ca n"
  shows "\<exists>p4. aspath_inflate ca buf = Inr p4 \<and> aspath_verify p4 True ps = aspath_verify buf False ps \<and>
    aspath_deflate ca p4 False = Inr (of_nat (length buf), buf, False)"
proof -
  obtain segs where p: "list_all (parsed_seg False) segs" and b: "buf = enc_path False segs"
    using assms(1) by (rule aspath_verify_parses)
  have p4: "list_all (parsed_seg True) segs"
    using p by (auto simp: list_all_iff parsed_seg_def asn_fits_def)
  have fit: "a \<le> USHRT_MAX" if "a \<in> set (path_asns segs)" for a
    using that p by (auto simp: path_asns_def list_all_iff parsed_seg_def asn_fits_def USHRT_MAX_def)
  then have "map_asns as_trans segs = segs" and "\<not> (\<exists>a\<in>set (path_asns segs). a > USHRT_MAX)"
    by (fastforce intro!: map_asns_id simp: as_trans_def not_less[symmetric])+
  moreover have "length (enc_path True segs) < 2 ^ 16"
    using length_enc_True_le[of segs] assms(2) b by simp
  ultimately show ?thesis
    using aspath_inflate_enc[OF p] aspath_deflate_enc[OF parsed_segs_wf[OF p4]] assms(3) b
    by (simp add: aspath_verify_enc[OF p] aspath_verify_enc[OF p4])
qed

theorem aspath_inflate_deflate_witness:
  "\<exists>p4. aspath_inflate (\<lambda>_. True) [2, 1, 0, 7] = Inr p4 \<and>
     aspath_deflate (\<lambda>_. True) p4 False = Inr (4, [2, 1, 0, 7], False)"
proof -
  have "aspath_verify [2, 1, 0, 7] False True = 0" by code_simp
  then show ?thesis
    using aspath_inflate_deflate[of "[2, 1, 0, 7]" True "\<lambda>_. True"] by auto
qed

text \<open>
  C20: aspath_match() decides each kind of AS filter as documented: any AS of the path, any AS but
  the rightmost one for transit-as, the rightmost AS of the last sequence for source-as, the
  neighbor for peer-as, and the empty path.
\<close>

theorem aspath_match_spec:
  assumes "aspath_verify (ap_data a) True ps \<notin> {AS_ERR_LEN, AS_ERR_TYPE, AS_ERR_BAD}"
    and "filter_as_ok f"
  shows "\<exists>segs. ap_data a = enc_path True segs \<and>
    aspath_match local_as a f neighas = Inr (path_match local_as f neighas segs)"
proof -
  obtain segs where p: "list_all (parsed_seg True) segs" and b: "ap_data a = enc_path True segs"
    using assms(1) by (rule aspath_verify_parses)
  have wf: "list_all wf_seg segs" using p by (rule parsed_segs_wf)
  have "aspath_match local_as a f neighas = Inr (path_match local_as f neighas segs)"
    using match_loop_enc[OF assms(2) wf, of neighas AS_NONE] neighbor_enc[OF wf b]
      as_compare_ok[OF assms(2)]
    by (cases "fa_type f")
       (simp_all add: aspath_match_def path_match_def loop_match_def b aspath_length_def)
  then show ?thesis using b by blast
qed

theorem aspath_match_spec_witness:
  "\<exists>segs. [2, 2, 0, 0, 0, 7, 0, 0, 0, 9] = enc_path True segs \<and>
     aspath_match 1 \<lparr>ap_source_as = 9, ap_ascnt = 2, ap_data = [2, 2, 0, 0, 0, 7, 0, 0, 0, 9]\<rparr>
       \<lparr>fa_name = ''f'', fa_aset = None, as_min = 7, as_max = 7, fa_type = AS_TRANSIT, fa_flags = 0,
        fa_op = OP_EQ\<rparr> 5 =
     Inr (path_match 1 \<lparr>fa_name = ''f'', fa_aset = None, as_min = 7, as_max = 7, fa_type = AS_TRANSIT,
       fa_flags = 0, fa_op = OP_EQ\<rparr> 5 segs)"
proof -
  have "aspath_verify [2, 2, 0, 0, 0, 7, 0, 0, 0, 9] True True = 0" by code_simp
  then show ?thesis
    using aspath_match_spec[of "\<lparr>ap_source_as = 9, ap_ascnt = 2, ap_data = [2, 2, 0, 0, 0, 7, 0, 0, 0, 9]\<rparr>"
        True "\<lparr>fa_name = ''f'', fa_aset = None, as_min = 7, as_max = 7, fa_type = AS_TRANSIT,
        fa_flags = 0, fa_op = OP_EQ\<rparr>" 1 5]
    by (simp add: filter_as_ok_def)
qed

text \<open>
  C21: prepending 1 to 255 copies of an AS number to a valid path gives the encoding of well-formed
  segments whose AS numbers are those copies followed by the old ones and whose hop count grew by
  their number, also when the first segment overflows and has to be split.
\<close>

theorem aspath_prepend_spec:
  assumes "aspath_verify (ap_data asp) True True = 0" and "0 < q" and "q \<le> 255" and "\<forall>n. ca n"
  shows "\<exists>segs segs'. ap_data asp = enc_path True segs \<and>
    aspath_prepend ca asp as (int q) = Inr (enc_path True segs') \<and> list_all wf_seg segs' \<and>
    path_asns segs' = replicate q as @ path_asns segs \<and> path_cnt segs' = q + path_cnt segs"
proof -
  have "aspath_verify (ap_data asp) True True \<notin> {AS_ERR_LEN, AS_ERR_TYPE, AS_ERR_BAD}"
    using assms(1) by simp
  then obtain segs where p: "list_all (parsed_seg True) segs" and b: "ap_data asp = enc_path True segs"
    by (rule aspath_verify_parses)
  have wf: "list_all wf_seg segs" using p by (rule parsed_segs_wf)
  have "\<not> list_ex (soft_seg True) segs"
    using assms(1) p by (auto simp: b aspath_verify_enc split: if_splits)
  then have ty: "\<forall>s\<in>set segs. fst s \<in> {AS_SET, AS_SEQUENCE}"
    using p by (auto simp: list_ex_iff list_all_iff soft_seg_def parsed_seg_def known_type_def)
  show ?thesis
    using aspath_prepend_enc[OF wf ty assms(2,3) _ b, of ca as] assms(4)
      prepend_segs_wf[OF wf assms(2,3), of as] prepend_segs_asns[OF wf, of as q]
      prepend_segs_cnt[OF wf ty, of as q] b by blast
qed

theorem aspath_prepend_spec_witness:
  "\<exists>segs segs'. [2, 1, 0, 0, 0, 7] = enc_path True segs \<and>
     aspath_prepend (\<lambda>_. True) \<lparr>ap_source_as = 7, ap_ascnt = 1, ap_data = [2, 1, 0, 0, 0, 7]\<rparr> 5 (int 3) =
       Inr (enc_path True segs') \<and> path_asns segs' = replicate 3 5 @ path_asns segs"
proof -
  have "aspath_verify [2, 1, 0, 0, 0, 7] True True = 0" by code_simp
  then show ?thesis
    using aspath_prepend_spec[of "\<lparr>ap_source_as = 7, ap_ascnt = 1, ap_data = [2, 1, 0, 0, 0, 7]\<rparr>" 3
        "\<lambda>_. True" 5] by fastforce
qed

text \<open>
  C34: the merge of a non-empty AS4_PATH into an AS_PATH of a single sequence always fails, because
  the four-byte numbers are read from the two-byte path's buffer, which runs out of bytes.
\<close>

theorem aspath_domerge_never_merges:
  assumes "wf_seg (AS_SEQUENCE, as)" and "0 \<le> cnt" and "cnt < int (length as)"
  shows "\<exists>e. aspath_domerge cap (enc_path True [(AS_SEQUENCE, as)]) in4 cnt = Inl e"
  using domerge_single_segment[OF assms(1) _ assms(2,3)] by simp

theorem aspath_domerge_never_merges_witness:
  "\<exists>e. aspath_domerge 10 (enc_path True [(AS_SEQUENCE, [7, AS_TRANS])])
     (enc_path True [(AS_SEQUENCE, [70000])]) 1 = Inl e"
  using aspath_domerge_never_merges[of "[7, AS_TRANS]" 1 10] by (simp add: wf_seg_def)

text \<open>
  The origin of a path that ends in a confederation segment is AS_NONE, and not the local AS
  number the comment above aspath_extract_origin() announces.
\<close>

theorem aspath_origin_confed:
  assumes "list_all wf_seg segs" and "segs \<noteq> []"
    and "fst (last segs) = AS_CONFED_SEQUENCE \<or> fst (last segs) = AS_CONFED_SET"
  shows "aspath_extract_origin local_as (enc_path True segs) = Inr AS_NONE"
  using assms origin_loop_enc[OF assms(1,2)] by (auto simp: aspath_extract_origin_def)

end
