(* ===== verification/Attr.thy ===== *)
theory Attr
  imports Aspath_Correct
begin

text \<open>
  The optional attributes of a route (the attr functions of usr.sbin/bgpd/rde_attr.c). An attribute
  is an object shared between routes: attr_optadd() looks it up in a global table, allocates it when
  it is new, and counts references; a route holds an array of pointers, sorted by
  type, with the free slots at the end. Pointers are addresses in an explicit heap, so sharing and
  reference counts are part of the model. SipHash24 is the parameter hashf.
\<close>

section \<open>State\<close>

record attr =
  a_hash :: u64
  a_data :: bytes
  a_refcnt :: int
  a_flags :: u8
  a_type :: u8

record attr_state =
  at_heap :: "nat \<rightharpoonup> attr"
  at_table :: "nat list"
  at_next :: nat
  attr_cnt :: int
  attr_refs :: int
  attr_dataz :: int
  attr_dcnt :: int

text \<open>The part of struct rde_aspath the decision process, the filters and the attributes use.\<close>

record rde_aspath =
  others :: "nat option list"
  asp_aspath :: aspath
  asp_flags :: u32
  med :: u32
  lpref :: u32
  weight :: u32
  rtlabelid :: u16
  pftableid :: u16
  origin :: u8

definition ATTR_EXTLEN :: u8 where "ATTR_EXTLEN = 0x10"
definition ATTR_RESERVED :: u8 where "ATTR_RESERVED = 0x0f"
definition ATTR_DEFMASK :: u8 where "ATTR_DEFMASK = ATTR_RESERVED OR ATTR_EXTLEN"
definition UCHAR_MAX :: nat where "UCHAR_MAX = 255"

text \<open>The type field of the attribute a pointer points to.\<close>

definition ty :: "attr_state \<Rightarrow> nat \<Rightarrow> u8" where
  "ty st p = (case at_heap st p of Some a \<Rightarrow> a_type a | None \<Rightarrow> 0)"

section \<open>Encoding\<close>

definition attr_writebuf ::
  "can_alloc \<Rightarrow> ibuf \<Rightarrow> u8 \<Rightarrow> u8 \<Rightarrow> bytes option \<Rightarrow> u16 \<Rightarrow> ibuf res" where
  "attr_writebuf ca buf flags type data data_len =
     (let flags1 = flags AND NOT ATTR_DEFMASK;
          flags2 = (if data_len > 255 then flags1 OR ATTR_EXTLEN else flags1);
          hdr = (if data_len > 255
                 then [flags2, type, ucast (drop_bit 8 data_len AND 0xff), ucast (data_len AND 0xff)]
                 else [flags2, type, ucast (data_len AND 0xff)])
      in res_bind (ibuf_add ca buf hdr) (\<lambda>buf.
           case data of None \<Rightarrow> Inr buf | Some d \<Rightarrow> ibuf_add ca buf d))"

section \<open>The table of attributes\<close>

definition attr_calc_hash :: "(bytes \<Rightarrow> u64) \<Rightarrow> u8 \<Rightarrow> bytes \<Rightarrow> u64" where
  "attr_calc_hash hashf type data = hashf (data @ [type])"

definition attr_match :: "attr \<Rightarrow> u8 \<Rightarrow> u8 \<Rightarrow> bytes \<Rightarrow> bool" where
  "attr_match oa flags type data =
     (a_type oa = type \<and> a_flags oa = flags \<and> length (a_data oa) = length data \<and>
      (length (a_data oa) = 0 \<or> memcmp (a_data oa) data = 0))"

definition attr_eq :: "attr \<Rightarrow> attr \<Rightarrow> bool" where
  "attr_eq oa ob =
     (a_hash oa = a_hash ob \<and> a_type oa = a_type ob \<and> a_flags oa = a_flags ob \<and>
      length (a_data oa) = length (a_data ob) \<and>
      (length (a_data oa) = 0 \<or> memcmp (a_data oa) (a_data ob) = 0))"

definition attr_lookup :: "attr_state \<Rightarrow> u8 \<Rightarrow> u8 \<Rightarrow> bytes \<Rightarrow> u64 \<Rightarrow> nat option" where
  "attr_lookup st flags type data h =
     (let fl = flags AND NOT ATTR_DEFMASK in
      List.find (\<lambda>p. case at_heap st p of
          Some a \<Rightarrow> a_hash a = h \<and> attr_match a fl type data | None \<Rightarrow> False) (at_table st))"

definition attr_alloc ::
  "can_alloc \<Rightarrow> attr_state \<Rightarrow> u8 \<Rightarrow> u8 \<Rightarrow> bytes \<Rightarrow> u64 \<Rightarrow> (attr_state \<times> nat) res" where
  "attr_alloc ca st flags type data h =
     (if \<not> ca 1 \<or> (data \<noteq> [] \<and> \<not> ca (length data)) then Inl Fatal
      else
        let a = \<lparr>a_hash = h, a_data = data, a_refcnt = 0, a_flags = flags AND NOT ATTR_DEFMASK,
                 a_type = type\<rparr>;
            p = at_next st
        in if (\<exists>q\<in>set (at_table st). case at_heap st q of Some b \<Rightarrow> attr_eq a b | None \<Rightarrow> False)
           then Inl Fatal
           else Inr (st\<lparr>at_heap := (at_heap st)(p \<mapsto> a), at_table := p # at_table st, at_next := p + 1,
                        attr_cnt := attr_cnt st + 1,
                        attr_dcnt := attr_dcnt st + (if data \<noteq> [] then 1 else 0),
                        attr_dataz := attr_dataz st + int (length data)\<rparr>, p))"

definition attr_put :: "attr_state \<Rightarrow> nat option \<Rightarrow> attr_state res" where
  "attr_put st ptr =
     (case ptr of None \<Rightarrow> Inr st
      | Some p \<Rightarrow>
          (case at_heap st p of None \<Rightarrow> Inl OutOfBounds
           | Some a \<Rightarrow>
               let st1 = st\<lparr>attr_refs := attr_refs st - 1\<rparr>;
                   a1 = a\<lparr>a_refcnt := a_refcnt a - 1\<rparr>
               in if a_refcnt a1 > 0 then Inr (st1\<lparr>at_heap := (at_heap st)(p \<mapsto> a1)\<rparr>)
                  else Inr (st1\<lparr>at_heap := (at_heap st)(p := None),
                                at_table := remove1 p (at_table st),
                                attr_dcnt := attr_dcnt st - (if a_data a \<noteq> [] then 1 else 0),
                                attr_dataz := attr_dataz st - int (length (a_data a)),
                                attr_cnt := attr_cnt st - 1\<rparr>)))"

section \<open>The attributes of a route\<close>

text \<open>The loop that rejects a second attribute of the same type: True when the type is there.\<close>

fun opt_present :: "attr_state \<Rightarrow> u8 \<Rightarrow> nat option list \<Rightarrow> bool" where
  "opt_present st type (Some p # ps) =
     (if type = ty st p then True else if type < ty st p then False else opt_present st type ps)"
| "opt_present st type _ = False"

text \<open>
  The insertion loop: the new pointer is put into its place and the pointers behind it move up.
  The second component is the pointer left over when no slot is free.
\<close>

fun opt_insert :: "attr_state \<Rightarrow> nat \<Rightarrow> nat option list \<Rightarrow> nat option list \<times> nat option" where
  "opt_insert st a [] = ([], Some a)"
| "opt_insert st a (None # ps) = (Some a # ps, None)"
| "opt_insert st a (Some p # ps) =
     (if ty st a < ty st p
      then let (qs, c) = opt_insert st p ps in (Some a # qs, c)
      else let (qs, c) = opt_insert st a ps in (Some p # qs, c))"

definition attr_ref :: "attr_state \<Rightarrow> nat \<Rightarrow> attr_state" where
  "attr_ref st p = st\<lparr>at_heap := (at_heap st)(p := map_option (\<lambda>a. a\<lparr>a_refcnt := a_refcnt a + 1\<rparr>) (at_heap st p)),
                      attr_refs := attr_refs st + 1\<rparr>"

text \<open>Inr None stands for the return value -1: an attribute of this type is already there.\<close>

definition attr_optadd ::
  "can_alloc \<Rightarrow> (bytes \<Rightarrow> u64) \<Rightarrow> attr_state \<Rightarrow> rde_aspath \<Rightarrow> u8 \<Rightarrow> u8 \<Rightarrow> bytes \<Rightarrow>
     (attr_state \<times> rde_aspath) option res" where
  "attr_optadd ca hashf st asp flags type data =
     (if opt_present st type (others asp) then Inr None
      else let h = attr_calc_hash hashf type data in
        res_bind (case attr_lookup st flags type data h of
                    Some p \<Rightarrow> Inr (st, p)
                  | None \<Rightarrow> attr_alloc ca st flags type data h) (\<lambda>(st1, a).
          let st2 = attr_ref st1 a; (ps, left) = opt_insert st2 a (others asp)
          in case left of
               None \<Rightarrow> Inr (Some (st2, asp\<lparr>others := ps\<rparr>))
             | Some c \<Rightarrow>
                 if length (others asp) = UCHAR_MAX then Inl Fatal
                 else let l = min (unat (bin_of_attrs (of_nat (length (others asp) + 1)))) UCHAR_MAX in
                   if \<not> ca (8 * l) then Inl Fatal
                   else if l \<le> length (others asp) then Inl OutOfBounds
                   else Inr (Some (st2, asp\<lparr>others := ps @ [Some c] @
                               replicate (l - length (others asp) - 1) None\<rparr>))))"

fun opt_find :: "attr_state \<Rightarrow> u8 \<Rightarrow> nat option list \<Rightarrow> nat option" where
  "opt_find st type (Some p # ps) =
     (if type = ty st p then Some p else if type < ty st p then None else opt_find st type ps)"
| "opt_find st type _ = None"

definition attr_optget :: "attr_state \<Rightarrow> rde_aspath \<Rightarrow> u8 \<Rightarrow> nat option" where
  "attr_optget st asp type = opt_find st type (others asp)"

fun put_each :: "attr_state \<Rightarrow> nat option list \<Rightarrow> attr_state res" where
  "put_each st [] = Inr st"
| "put_each st (p # ps) = res_bind (attr_put st p) (\<lambda>st'. put_each st' ps)"

definition attr_freeall :: "attr_state \<Rightarrow> rde_aspath \<Rightarrow> (attr_state \<times> rde_aspath) res" where
  "attr_freeall st asp = res_bind (put_each st (others asp)) (\<lambda>st'. Inr (st', asp\<lparr>others := []\<rparr>))"

fun copy_each :: "attr_state \<Rightarrow> nat option list \<Rightarrow> attr_state \<times> nat option list" where
  "copy_each st (Some p # ps) =
     (let (st', qs) = copy_each (attr_ref st p) ps in (st', Some p # qs))"
| "copy_each st ps = (st, replicate (length ps) None)"

definition attr_copy ::
  "can_alloc \<Rightarrow> attr_state \<Rightarrow> rde_aspath \<Rightarrow> rde_aspath \<Rightarrow> (attr_state \<times> rde_aspath) res" where
  "attr_copy ca st t s =
     res_bind (if others t \<noteq> [] then attr_freeall st t else Inr (st, t)) (\<lambda>(st1, t1).
       if others s = [] then Inr (st1, t1\<lparr>others := []\<rparr>)
       else if \<not> ca (8 * length (others s)) then Inl Fatal
       else let (st2, ps) = copy_each st1 (others s) in Inr (st2, t1\<lparr>others := ps\<rparr>))"

fun others_equal :: "nat option list \<Rightarrow> nat option list \<Rightarrow> bool" where
  "others_equal (p # ps) (q # qs) = (if p \<noteq> q then False else if p = None then True else others_equal ps qs)"
| "others_equal _ _ = True"

definition attr_equal :: "rde_aspath \<Rightarrow> rde_aspath \<Rightarrow> bool" where
  "attr_equal a b =
     (if length (others a) \<noteq> length (others b) then False else others_equal (others a) (others b))"

text \<open>The search of attr_free(): the pointers without the given one, the free slot at the end.\<close>

fun opt_remove :: "nat \<Rightarrow> nat option list \<Rightarrow> nat option list option" where
  "opt_remove p [] = None"
| "opt_remove p (q # qs) =
     (if q = Some p then Some (qs @ [None])
      else if q = None then None
      else map_option (\<lambda>rs. q # rs) (opt_remove p qs))"

definition attr_free :: "attr_state \<Rightarrow> rde_aspath \<Rightarrow> nat \<Rightarrow> (attr_state \<times> rde_aspath) res" where
  "attr_free st asp p =
     (case opt_remove p (others asp) of
        None \<Rightarrow> Inr (st, asp)
      | Some ps \<Rightarrow> res_bind (attr_put st (Some p)) (\<lambda>st'. Inr (st', asp\<lparr>others := ps\<rparr>)))"

section \<open>Merging AS4_PATH\<close>

definition aspath_merge ::
  "can_alloc \<Rightarrow> u32 \<Rightarrow> aspath_mem \<Rightarrow> attr_state \<Rightarrow> rde_aspath \<Rightarrow> nat \<Rightarrow>
     (aspath_mem \<times> attr_state \<times> rde_aspath) res" where
  "aspath_merge ca local_as m st a p =
     (case at_heap st p of None \<Rightarrow> Inl OutOfBounds
      | Some at \<Rightarrow>
          res_bind (aspath_count (a_data at)) (\<lambda>ascnt.
            if ascnt > ap_ascnt (asp_aspath a) then
              res_bind (attr_free st a p) (\<lambda>(st', a'). Inr (m, st', a'))
            else if length (a_data at) > aspath_length (asp_aspath a) then Inl EBADMSG
            else if aspath_length (asp_aspath a) > 0 \<and> \<not> ca (aspath_length (asp_aspath a)) then Inl Fatal
            else res_bind (aspath_domerge (aspath_length (asp_aspath a)) (aspath_dump (asp_aspath a))
                     (a_data at) (uint (ap_ascnt (asp_aspath a)) - uint ascnt)) (\<lambda>out.
              res_bind (aspath_get ca local_as (aspath_put m (Some (asp_aspath a))) out) (\<lambda>(m', ap).
              res_bind (attr_free st (a\<lparr>asp_aspath := ap\<rparr>) p) (\<lambda>(st', a').
                Inr (m', st', a'))))))"

end
