(* ===== verification/Attr_Correct.thy ===== *)
theory Attr_Correct
  imports Attr
begin

text \<open>
  The attributes of a route behave as a map from types to data: attr_optadd() adds a type that is not
  there, attr_free() removes one, and neither fails on a list the other attributes of the route
  are well-formed in, in whatever way the attributes are shared between routes.
\<close>

section \<open>Well-formed lists\<close>

definition ptrs_ok :: "attr_state \<Rightarrow> nat list \<Rightarrow> bool" where
  "ptrs_ok st ps \<longleftrightarrow> (\<forall>p\<in>set ps. at_heap st p \<noteq> None \<and> 1 < ty st p) \<and> sorted_wrt (\<lambda>p q. ty st p < ty st q) ps"

definition attr_tab :: "attr_state \<Rightarrow> bool" where
  "attr_tab st \<longleftrightarrow> (\<forall>p\<ge>at_next st. at_heap st p = None)"

definition attr_ok :: "attr_state \<Rightarrow> rde_aspath \<Rightarrow> bool" where
  "attr_ok st a \<longleftrightarrow> attr_tab st \<and> length (others a) \<le> UCHAR_MAX \<and>
     (\<exists>ps k. others a = map Some ps @ replicate k None \<and> ptrs_ok st ps)"

text \<open>The data of the attribute of a type.\<close>

definition attrs_map :: "attr_state \<Rightarrow> rde_aspath \<Rightarrow> u8 \<rightharpoonup> bytes" where
  "attrs_map st a t = Option.bind (attr_optget st a t) (\<lambda>p. map_option a_data (at_heap st p))"

lemma sorted_types_less: "sorted_wrt (\<lambda>p q. ty st p < ty st q) (p # ps) \<Longrightarrow> q \<in> set ps \<Longrightarrow> ty st p < ty st q"
  by simp

lemma find_absent: "(\<And>p. p \<in> set ps \<Longrightarrow> \<not> P p) \<Longrightarrow> List.find P ps = None"
  by (simp add: find_None_iff)

lemma opt_find_list:
  "sorted_wrt (\<lambda>p q. ty st p < ty st q) ps \<Longrightarrow> opt_find st t (map Some ps @ replicate k None) = List.find (\<lambda>p. ty st p = t) ps"
proof (induction ps)
  case Nil
  then show ?case by (cases k) auto
next
  case (Cons p ps)
  have "t < ty st p \<Longrightarrow> List.find (\<lambda>p. ty st p = t) ps = None"
    using Cons.prems by (intro find_absent) auto
  then show ?case using Cons by auto
qed

lemma opt_present_find: "opt_present st t ps \<longleftrightarrow> opt_find st t ps \<noteq> None"
  by (induction st t ps rule: opt_present.induct) auto

lemma ty_eq_find:
  "ptrs_ok st ps \<Longrightarrow> p \<in> set ps \<Longrightarrow> List.find (\<lambda>q. ty st q = ty st p) ps = Some p"
proof (induction ps)
  case (Cons q ps)
  then show ?case
    by (cases "p = q") (auto simp: ptrs_ok_def)
qed simp

lemma attr_ok_optget:
  assumes "attr_ok st a"
  obtains ps k where "others a = map Some ps @ replicate k None" "ptrs_ok st ps"
    "\<And>t. attr_optget st a t = List.find (\<lambda>p. ty st p = t) ps" "length (others a) \<le> UCHAR_MAX"
  using assms opt_find_list by (auto simp: attr_ok_def attr_optget_def ptrs_ok_def)

lemma attr_optget_heap:
  assumes "attr_ok st a" "attr_optget st a t = Some p"
  shows "\<exists>x. at_heap st p = Some x \<and> a_type x = t \<and> attrs_map st a t = Some (a_data x)" "1 < t"
proof -
  obtain ps k where ps: "others a = map Some ps @ replicate k None" "ptrs_ok st ps"
    "\<And>t. attr_optget st a t = List.find (\<lambda>p. ty st p = t) ps" using attr_ok_optget[OF assms(1)] by metis
  then have p: "p \<in> set ps" "ty st p = t" using assms(2) by (auto simp: find_Some_iff)
  then show "\<exists>x. at_heap st p = Some x \<and> a_type x = t \<and> attrs_map st a t = Some (a_data x)" "1 < t"
    using ps(2) assms(2) by (auto simp: ptrs_ok_def ty_def attrs_map_def)
qed

lemma attrs_map_None: "attr_ok st a \<Longrightarrow> attrs_map st a t = None \<longleftrightarrow> attr_optget st a t = None"
  using attr_optget_heap[of st a t] by (cases "attr_optget st a t") (auto simp: attrs_map_def)

section \<open>Adding\<close>

lemma opt_insert_list:
  assumes "sorted_wrt (\<lambda>p q. ty st p < ty st q) ps" "\<forall>p\<in>set ps. ty st p \<noteq> ty st a"
  shows "opt_insert st a (map Some ps @ replicate k None) =
    (if k = 0 then (map Some (butlast (insort_key (ty st) a ps)), Some (last (insort_key (ty st) a ps)))
     else (map Some (insort_key (ty st) a ps) @ replicate (k - 1) None, None))"
  using assms
proof (induction ps arbitrary: a)
  case Nil
  then show ?case by (cases k) auto
next
  case (Cons p ps)
  have ne: "ty st a \<noteq> ty st p" using Cons.prems(2) by auto
  have nil: "insort_key (ty st) x ps \<noteq> []" for x by simp
  show ?case
  proof (cases "ty st a < ty st p")
    case True
    have "\<forall>q\<in>set ps. ty st q \<noteq> ty st p" using Cons.prems(1) by auto
    moreover have "insort_key (ty st) p ps = p # ps" using Cons.prems(1) by (cases ps) auto
    ultimately show ?thesis using True Cons.IH[of p] Cons.prems by (auto simp: less_imp_le)
  next
    case False
    then have "\<not> ty st a \<le> ty st p" using ne by auto
    then show ?thesis using False Cons.IH[of a] Cons.prems nil by (auto split: if_splits)
  qed
qed

lemma insort_strict:
  "sorted_wrt (\<lambda>p q. ty st p < ty st q) ps \<Longrightarrow> \<forall>p\<in>set ps. ty st p \<noteq> ty st a \<Longrightarrow>
     sorted_wrt (\<lambda>p q. ty st p < ty st q) (insort_key (ty st) a ps)"
  by (induction ps) (auto simp: set_insort_key order.strict_iff_order)

lemma find_insort:
  assumes "sorted_wrt (\<lambda>p q. ty st p < ty st q) ps" "\<forall>p\<in>set ps. ty st p \<noteq> ty st a"
  shows "List.find (\<lambda>p. ty st p = t) (insort_key (ty st) a ps) = (if ty st a = t then Some a else List.find (\<lambda>p. ty st p = t) ps)"
  using assms(2) by (induction ps) auto

lemma types_bound: "ptrs_ok st ps \<Longrightarrow> length ps \<le> 254"
proof -
  assume ok: "ptrs_ok st ps"
  have d: "distinct (map (\<lambda>p. unat (ty st p)) ps)"
    using ok unfolding ptrs_ok_def by (induction ps) (auto simp: word_less_nat_alt)
  have "set (map (\<lambda>p. unat (ty st p)) ps) \<subseteq> {2..<256}"
    using ok unat_u8_less by (force simp: ptrs_ok_def word_less_nat_alt)
  from card_mono[OF _ this] show ?thesis using distinct_card[OF d] by simp
qed

text \<open>References to an attribute change neither its type nor its data.\<close>

lemma attr_ref_heap: "at_heap (attr_ref st a) p = None \<longleftrightarrow> at_heap st p = None"
  "ty (attr_ref st a) p = ty st p" "map_option a_data (at_heap (attr_ref st a) p) = map_option a_data (at_heap st p)"
  "at_next (attr_ref st a) = at_next st"
  by (auto simp: attr_ref_def ty_def option.map_comp o_def split: option.splits)

lemma attr_lookup_Some:
  assumes "attr_lookup st flags type data h = Some p"
  shows "\<exists>x. at_heap st p = Some x \<and> a_type x = type \<and> a_data x = data"
  using assms
  by (auto simp: attr_lookup_def Let_def find_Some_iff attr_match_def memcmp_eq_0 split: option.splits)

lemma attr_alloc_ok:
  assumes "attr_lookup st flags type data h = None" "\<forall>n. ca n"
  shows "\<exists>st'. attr_alloc ca st flags type data h = Inr (st', at_next st) \<and>
    at_heap st' = (at_heap st)(at_next st \<mapsto> \<lparr>a_hash = h, a_data = data, a_refcnt = 0, a_flags = flags AND NOT ATTR_DEFMASK, a_type = type\<rparr>) \<and>
    at_next st' = at_next st + 1"
proof -
  let ?a = "\<lparr>a_hash = h, a_data = data, a_refcnt = 0, a_flags = flags AND NOT ATTR_DEFMASK, a_type = type\<rparr>"
  have "\<not> attr_eq ?a b" if "q \<in> set (at_table st)" "at_heap st q = Some b" for q b
  proof
    assume "attr_eq ?a b"
    then have "a_hash b = h \<and> attr_match b (flags AND NOT ATTR_DEFMASK) type data"
      by (auto simp: attr_eq_def attr_match_def memcmp_eq_0)
    then show False using assms(1) that by (auto simp: attr_lookup_def Let_def find_None_iff)
  qed
  then have no: "\<not> (\<exists>q\<in>set (at_table st). case at_heap st q of Some b \<Rightarrow> attr_eq ?a b | None \<Rightarrow> False)"
    by (auto split: option.splits)
  show ?thesis unfolding attr_alloc_def Let_def using no assms(2) by auto
qed

text \<open>The attribute a new pointer is put for, found in the table or made.\<close>

lemma attr_obtain:
  assumes "attr_tab st" "\<forall>n. ca n" "ptrs_ok st ps" "\<forall>p\<in>set ps. ty st p \<noteq> type"
  shows "\<exists>st1 a. (case attr_lookup st flags type data h of Some p \<Rightarrow> Inr (st, p) | None \<Rightarrow> attr_alloc ca st flags type data h) = Inr (st1, a) \<and>
    attr_tab st1 \<and> ty st1 a = type \<and> map_option a_data (at_heap st1 a) = Some data \<and> a \<notin> set ps \<and>
    (\<forall>p\<in>set ps. at_heap st1 p = at_heap st p)"
proof (cases "attr_lookup st flags type data h")
  case (Some p)
  then obtain x where "at_heap st p = Some x" "a_type x = type" "a_data x = data" using attr_lookup_Some by blast
  then show ?thesis using Some assms by (auto simp: ty_def)
next
  case None
  obtain st' where s: "attr_alloc ca st flags type data h = Inr (st', at_next st)"
    "at_heap st' = (at_heap st)(at_next st \<mapsto> \<lparr>a_hash = h, a_data = data, a_refcnt = 0, a_flags = flags AND NOT ATTR_DEFMASK, a_type = type\<rparr>)"
    "at_next st' = at_next st + 1" using attr_alloc_ok[OF None assms(2)] by blast
  have "at_next st \<notin> set ps" using assms(1,3) by (auto simp: attr_tab_def ptrs_ok_def)
  then show ?thesis using None s assms(1) by (auto simp: attr_tab_def ty_def)
qed

lemma ptrs_ok_cong:
  "ptrs_ok st ps \<Longrightarrow> \<forall>p\<in>set ps. (at_heap st' p = None \<longleftrightarrow> at_heap st p = None) \<and> ty st' p = ty st p \<Longrightarrow> ptrs_ok st' ps"
  unfolding ptrs_ok_def by (metis (mono_tags, lifting) sorted_wrt_mono_rel)

lemma attrs_map_list:
  assumes "others a = map Some ps @ replicate k None" "ptrs_ok st ps"
  shows "attrs_map st a t = Option.bind (List.find (\<lambda>p. ty st p = t) ps) (\<lambda>p. map_option a_data (at_heap st p))"
  using opt_find_list[of st ps t k] assms by (simp add: attrs_map_def attr_optget_def ptrs_ok_def)

text \<open>What the list holds with one more attribute in it.\<close>

lemma insort_views:
  assumes ps: "others asp = map Some ps @ replicate k None" "ptrs_ok st ps"
    and st': "\<forall>p\<in>set ps. ty st' p = ty st p" "\<forall>p\<in>set ps. map_option a_data (at_heap st' p) = map_option a_data (at_heap st p)"
    and a: "map_option a_data (at_heap st' a) = Some data" "\<forall>p\<in>set ps. ty st' p \<noteq> ty st' a"
    and qs: "ptrs_ok st' ps" "ptrs_ok st' (insort_key (ty st') a ps)" "others asp' = map Some (insort_key (ty st') a ps) @ replicate k' None"
  shows "attrs_map st' asp' = (attrs_map st asp)(ty st' a \<mapsto> data)" "\<forall>u. u \<noteq> ty st' a \<longrightarrow> attr_optget st' asp' u = attr_optget st asp u"
proof -
  have srt: "sorted_wrt (\<lambda>p q. ty st' p < ty st' q) ps" using qs(1) by (simp add: ptrs_ok_def)
  have f: "List.find (\<lambda>p. ty st' p = t') ps = List.find (\<lambda>p. ty st p = t') ps" for t' using st'(1) by (intro find_cong) auto
  show "attrs_map st' asp' = (attrs_map st asp)(ty st' a \<mapsto> data)"
  proof
    fix t'
    have "p \<in> set ps" if "List.find (\<lambda>p. ty st p = t') ps = Some p" for p using that by (auto simp: find_Some_iff)
    then have "Option.bind (List.find (\<lambda>p. ty st' p = t') ps) (\<lambda>p. map_option a_data (at_heap st' p)) = attrs_map st asp t'"
      using f attrs_map_list[OF ps, of t'] st'(2) by (cases "List.find (\<lambda>p. ty st p = t') ps") simp_all
    then show "attrs_map st' asp' t' = ((attrs_map st asp)(ty st' a \<mapsto> data)) t'"
      using attrs_map_list[OF qs(3,2)] find_insort[OF srt a(2)] a(1) by auto
  qed
  show "\<forall>u. u \<noteq> ty st' a \<longrightarrow> attr_optget st' asp' u = attr_optget st asp u"
    using opt_find_list[of st' "insort_key (ty st') a ps" _ k'] opt_find_list[of st ps _ k] qs(2,3) ps find_insort[OF srt a(2)] f
    by (simp add: attr_optget_def ptrs_ok_def)
qed

text \<open>The array is long enough for all types, and grows when it is full.\<close>

lemma attr_room:
  assumes n: "n \<le> 254" and l: "l = min (unat (bin_of_attrs (of_nat (n + 1)))) UCHAR_MAX"
  shows "n < l" "l \<le> UCHAR_MAX" "n \<noteq> UCHAR_MAX"
proof -
  have "unat (of_nat (n + 1) :: u32) = n + 1" using n by (subst unat_of_nat) (simp add: take_bit_nat_eq_self del: of_nat_Suc)
  then have "n + 1 \<le> unat (bin_of_attrs (of_nat (n + 1)))"
    using bin_of_ge[of "of_nat (n + 1)" 5 3] n unfolding bin_of_attrs_def by (simp only:) simp
  then show "n < l" "l \<le> UCHAR_MAX" "n \<noteq> UCHAR_MAX" using n by (auto simp: l UCHAR_MAX_def)
qed

lemma attr_optadd_array:
  assumes ps: "others asp = map Some ps @ replicate k None" "length ps \<le> 254" "length (others asp) \<le> UCHAR_MAX" and ca: "\<forall>n. ca n"
    and new: "\<not> opt_present st type (others asp)"
    and o: "(case attr_lookup st flags type data (attr_calc_hash hashf type data) of Some p \<Rightarrow> Inr (st, p)
      | None \<Rightarrow> attr_alloc ca st flags type data (attr_calc_hash hashf type data)) = Inr (st1, a)"
    and ins: "opt_insert (attr_ref st1 a) a (others asp) =
      (if k = 0 then (map Some (butlast qs), Some (last qs)) else (map Some qs @ replicate (k - 1) None, None))"
    and qs: "length qs = length ps + 1"
  shows "\<exists>k'. attr_optadd ca hashf st asp flags type data = Inr (Some (attr_ref st1 a, asp\<lparr>others := map Some qs @ replicate k' None\<rparr>)) \<and>
    length qs + k' \<le> UCHAR_MAX"
proof (cases "k = 0")
  case False
  then show ?thesis using ps new o ins qs unfolding attr_optadd_def Let_def by (intro exI[of _ "k - 1"]) auto
next
  case k0: True
  define n where "n = length (others asp)"
  define l where "l = min (unat (bin_of_attrs (of_nat (n + 1)))) UCHAR_MAX"
  have n: "n = length ps" using ps(1) k0 by (simp add: n_def)
  then have l: "n < l" "l \<le> UCHAR_MAX" "n \<noteq> UCHAR_MAX" using attr_room[OF _ l_def] ps(2) by auto
  have "map Some (butlast qs) @ [Some (last qs)] @ r = map Some qs @ r" for r
    using qs by (metis append.assoc append_butlast_last_id length_0_conv add_is_0 one_neq_zero list.simps(8,9) map_append)
  moreover have "attr_optadd ca hashf st asp flags type data =
      Inr (Some (attr_ref st1 a, asp\<lparr>others := map Some (butlast qs) @ [Some (last qs)] @ replicate (l - n - 1) None\<rparr>))"
    using new o ins k0 l ca unfolding attr_optadd_def n_def[symmetric] Let_def l_def[symmetric] by auto
  ultimately show ?thesis using l n qs by (intro exI[of _ "l - n - 1"]) auto
qed

lemma attr_optadd_ok:
  assumes ok: "attr_ok st asp" and ca: "\<forall>n. ca n" and t: "1 < type"
  shows "\<exists>r. attr_optadd ca hashf st asp flags type data = Inr r \<and> (r = None \<longleftrightarrow> attrs_map st asp type \<noteq> None) \<and>
    (\<forall>st' asp'. r = Some (st', asp') \<longrightarrow> attr_ok st' asp' \<and> asp' = asp\<lparr>others := others asp'\<rparr> \<and>
       attrs_map st' asp' = (attrs_map st asp)(type \<mapsto> data) \<and> (\<forall>u. u \<noteq> type \<longrightarrow> attr_optget st' asp' u = attr_optget st asp u))"
proof -
  obtain ps k where ps: "others asp = map Some ps @ replicate k None" "ptrs_ok st ps"
    "\<And>t. attr_optget st asp t = List.find (\<lambda>p. ty st p = t) ps" "length (others asp) \<le> UCHAR_MAX"
    using attr_ok_optget[OF ok] by metis
  have tab: "attr_tab st" using ok by (simp add: attr_ok_def)
  have pres: "opt_present st type (others asp) \<longleftrightarrow> attrs_map st asp type \<noteq> None"
    using attrs_map_None[OF ok] by (simp add: opt_present_find attr_optget_def)
  show ?thesis
  proof (cases "attrs_map st asp type = None")
    case False
    then show ?thesis using pres by (auto simp: attr_optadd_def)
  next
    case True
    have new: "\<forall>p\<in>set ps. ty st p \<noteq> type" using True attrs_map_None[OF ok] ps(3) by (auto simp: find_None_iff)
    obtain st1 a where o: "(case attr_lookup st flags type data (attr_calc_hash hashf type data) of Some p \<Rightarrow> Inr (st, p)
        | None \<Rightarrow> attr_alloc ca st flags type data (attr_calc_hash hashf type data)) = Inr (st1, a)"
      "attr_tab st1" "ty st1 a = type" "map_option a_data (at_heap st1 a) = Some data" "a \<notin> set ps"
      "\<forall>p\<in>set ps. at_heap st1 p = at_heap st p" using attr_obtain[OF tab ca ps(2) new] by blast
    define st2 where "st2 = attr_ref st1 a"
    define qs where "qs = insort_key (ty st2) a ps"
    have ty1: "\<forall>p\<in>set ps. ty st1 p = ty st p" using o(6) by (simp add: ty_def)
    have tya: "ty st2 a = type" and tyq: "\<forall>p\<in>set ps. ty st2 p = ty st p" and tab2: "attr_tab st2"
      and dt: "map_option a_data (at_heap st2 a) = Some data" "\<forall>p\<in>set ps. map_option a_data (at_heap st2 p) = map_option a_data (at_heap st p)"
      and hp: "\<forall>p\<in>set ps. at_heap st2 p = None \<longleftrightarrow> at_heap st p = None"
      using o(2-6) ty1 by (auto simp: st2_def attr_ref_heap attr_tab_def)
    have psok: "ptrs_ok st2 ps" using ptrs_ok_cong[OF ps(2)] tyq hp by blast
    have ne: "\<forall>p\<in>set ps. ty st2 p \<noteq> ty st2 a" using tya tyq new by auto
    have srt: "sorted_wrt (\<lambda>p q. ty st2 p < ty st2 q) ps" using psok by (simp add: ptrs_ok_def)
    have qsok: "ptrs_ok st2 qs"
      using psok insort_strict[OF srt ne] tya t dt(1) by (auto simp: ptrs_ok_def qs_def set_insort_key)
    obtain k' where r: "attr_optadd ca hashf st asp flags type data = Inr (Some (st2, asp\<lparr>others := map Some qs @ replicate k' None\<rparr>))"
      "length qs + k' \<le> UCHAR_MAX"
      using attr_optadd_array[OF ps(1) types_bound[OF ps(2)] ps(4) ca _ o(1), of qs] pres True
        opt_insert_list[OF srt ne, of k] ps(1) unfolding st2_def[symmetric] qs_def by auto
    then have "attr_ok st2 (asp\<lparr>others := map Some qs @ replicate k' None\<rparr>)" using tab2 qsok by (auto simp: attr_ok_def)
    then show ?thesis
      using r True insort_views[OF ps(1,2) tyq dt(2,1) ne psok qsok[unfolded qs_def], of "asp\<lparr>others := map Some qs @ replicate k' None\<rparr>" k'] tya
      by (auto simp: qs_def)
  qed
qed

section \<open>Removing\<close>

lemma opt_remove_list:
  "distinct ps \<Longrightarrow> p \<in> set ps \<Longrightarrow> opt_remove p (map Some ps @ replicate k None) = Some (map Some (remove1 p ps) @ replicate (k + 1) None)"
  by (induction ps) (auto simp: replicate_append_same)

lemma ptrs_ok_distinct: "ptrs_ok st ps \<Longrightarrow> distinct ps"
  unfolding ptrs_ok_def by (induction ps) auto

lemma attr_put_ok:
  assumes "at_heap st p \<noteq> None"
  shows "\<exists>st'. attr_put st (Some p) = Inr st' \<and> at_next st' = at_next st \<and> (\<forall>q. q \<noteq> p \<longrightarrow> at_heap st' q = at_heap st q) \<and>
    (at_heap st' p \<noteq> None \<longrightarrow> at_heap st p \<noteq> None)"
  using assms by (auto simp: attr_put_def Let_def)

lemma sorted_wrt_remove1: "sorted_wrt R xs \<Longrightarrow> sorted_wrt R (remove1 x xs)"
  by (induction xs) (auto dest: set_remove1_subset[THEN subsetD])

lemma find_remove1:
  assumes "ptrs_ok st ps" "p \<in> set ps"
  shows "List.find (\<lambda>q. ty st q = t) (remove1 p ps) = (if ty st p = t then None else List.find (\<lambda>q. ty st q = t) ps)"
  using assms
proof (induction ps)
  case (Cons q ps)
  have ok: "ptrs_ok st ps" using Cons.prems(1) by (simp add: ptrs_ok_def)
  have l: "\<forall>r\<in>set ps. ty st q < ty st r" using Cons.prems(1) by (simp add: ptrs_ok_def)
  show ?case
  proof (cases "p = q")
    case True
    then show ?thesis using l by (auto simp: find_None_iff)
  next
    case False
    then show ?thesis using Cons.IH[OF ok] Cons.prems(2) l by auto
  qed
qed simp

lemma attr_free_ok:
  assumes ok: "attr_ok st a" and g: "attr_optget st a t = Some p"
  shows "\<exists>st' a'. attr_free st a p = Inr (st', a') \<and> attr_ok st' a' \<and> a' = a\<lparr>others := others a'\<rparr> \<and>
    attrs_map st' a' = (attrs_map st a)(t := None) \<and> (\<forall>u. u \<noteq> t \<longrightarrow> attr_optget st' a' u = attr_optget st a u)"
proof -
  obtain ps k where ps: "others a = map Some ps @ replicate k None" "ptrs_ok st ps"
    "\<And>t. attr_optget st a t = List.find (\<lambda>p. ty st p = t) ps" "length (others a) \<le> UCHAR_MAX"
    using attr_ok_optget[OF ok] by metis
  have p: "p \<in> set ps" "ty st p = t" using g ps(3) by (auto simp: find_Some_iff)
  obtain st' where s: "attr_put st (Some p) = Inr st'" "at_next st' = at_next st" "\<forall>q. q \<noteq> p \<longrightarrow> at_heap st' q = at_heap st q"
    "at_heap st' p \<noteq> None \<longrightarrow> at_heap st p \<noteq> None"
    using attr_put_ok[of st p] ps(2) p(1) by (auto simp: ptrs_ok_def)
  define qs where "qs = remove1 p ps"
  define a' where "a' = a\<lparr>others := map Some qs @ replicate (k + 1) None\<rparr>"
  have d: "distinct ps" using ptrs_ok_distinct[OF ps(2)] .
  have qp: "\<forall>q\<in>set qs. q \<noteq> p \<and> q \<in> set ps" using d by (auto simp: qs_def set_remove1_eq)
  have "ptrs_ok st qs" using ps(2) qp sorted_wrt_remove1[of "\<lambda>p q. ty st p < ty st q" ps p] unfolding ptrs_ok_def qs_def[symmetric] by blast
  then have qok: "ptrs_ok st' qs" using ptrs_ok_cong[of st qs st'] qp s(3) by (simp add: ty_def)
  have r: "attr_free st a p = Inr (st', a')"
    using opt_remove_list[OF d p(1)] s(1) ps(1) by (simp add: attr_free_def a'_def qs_def)
  have o': "others a' = map Some qs @ replicate (k + 1) None" by (simp add: a'_def)
  have "length qs + 1 = length ps" using p(1) by (simp add: qs_def length_remove1 Suc_pred[OF length_pos_if_in_set])
  then have len: "length (others a') \<le> UCHAR_MAX" using ps(1,4) o' by simp
  have "at_heap st' q = None" if "q \<ge> at_next st" for q
    using that ok s(3,4) by (cases "q = p") (auto simp: attr_ok_def attr_tab_def)
  then have aok: "attr_ok st' a'" unfolding attr_ok_def attr_tab_def s(2) using len o' qok by blast
  have f: "List.find (\<lambda>q. ty st' q = u) qs = (if u = t then None else attr_optget st a u)" for u
  proof -
    have "List.find (\<lambda>q. ty st' q = u) qs = List.find (\<lambda>q. ty st q = u) qs"
      using qp s(3) by (intro find_cong) (auto simp: ty_def)
    then show ?thesis using find_remove1[OF ps(2) p(1), of u] p(2) ps(3) by (auto simp: qs_def)
  qed
  have get: "attr_optget st' a' u = (if u = t then None else attr_optget st a u)" for u
    using opt_find_list[of st' qs u "k + 1"] f qok o' by (simp add: attr_optget_def ptrs_ok_def)
  have "attrs_map st' a' = (attrs_map st a)(t := None)"
  proof
    fix u
    have "q \<noteq> p" if "attr_optget st a u = Some q" "u \<noteq> t" for q
      using that ps(3) p(2) by (auto simp: find_Some_iff)
    then show "attrs_map st' a' u = ((attrs_map st a)(t := None)) u"
      using get[of u] s(3) by (cases "attr_optget st a u") (auto simp: attrs_map_def)
  qed
  then show ?thesis using r aok get by (auto simp: a'_def)
qed

lemma put_each_ok:
  "distinct ps \<Longrightarrow> \<forall>p\<in>set ps. at_heap st p \<noteq> None \<Longrightarrow>
     \<exists>st'. put_each st (map Some ps @ replicate k None) = Inr st' \<and> at_next st' = at_next st \<and> (\<forall>q. at_heap st q = None \<longrightarrow> at_heap st' q = None)"
proof (induction ps arbitrary: st)
  case Nil
  have "put_each st (replicate k None) = Inr st" by (induction k) (auto simp: attr_put_def)
  then show ?case by simp
next
  case (Cons p ps)
  obtain st1 where s: "attr_put st (Some p) = Inr st1" "at_next st1 = at_next st" "\<forall>q. q \<noteq> p \<longrightarrow> at_heap st1 q = at_heap st q"
    using attr_put_ok[of st p] Cons.prems(2) by auto
  have "\<forall>q\<in>set ps. at_heap st1 q \<noteq> None" using Cons.prems s(3) by auto
  then obtain st2 where "put_each st1 (map Some ps @ replicate k None) = Inr st2" "at_next st2 = at_next st1"
    "\<forall>q. at_heap st1 q = None \<longrightarrow> at_heap st2 q = None" using Cons.IH[of st1] Cons.prems(1) by auto
  moreover have "at_heap st q = None \<Longrightarrow> at_heap st1 q = None" for q using s(3) Cons.prems(2) by (cases "q = p") auto
  ultimately show ?case using s(1,2) by auto
qed

lemma attr_freeall_ok:
  assumes "attr_ok st a"
  shows "\<exists>st'. attr_freeall st a = Inr (st', a\<lparr>others := []\<rparr>) \<and> attr_tab st'"
proof -
  obtain ps k where ps: "others a = map Some ps @ replicate k None" "ptrs_ok st ps" using assms by (auto simp: attr_ok_def)
  then show ?thesis
    using put_each_ok[OF ptrs_ok_distinct[OF ps(2)], of st k] assms
    by (auto simp: ptrs_ok_def attr_freeall_def attr_ok_def attr_tab_def)
qed

lemma attr_ok_empty: "attr_tab st \<Longrightarrow> others a = [] \<Longrightarrow> attr_ok st a"
  by (auto simp: attr_ok_def ptrs_ok_def UCHAR_MAX_def)

end
