(* ===== verification/Timer.thy ===== *)
theory Timer
  imports Ibuf
begin

text \<open>
  Monotonic time (usr.sbin/bgpd/monotime.h) and the timers of a session (timer.c). A timer list
  keeps the running timers in the order of their due times and the stopped ones behind them, so
  that the session engine only looks at the head. Times are integers: a microsecond count leaves
  long long only after 292,000 years.
\<close>

section \<open>Monotonic time\<close>

type_synonym monotime = int

definition MONOTIME_RES :: int where "MONOTIME_RES = 1000 * 1000"

definition monotime_clear :: monotime where "monotime_clear = 0"

definition monotime_valid :: "monotime \<Rightarrow> bool" where "monotime_valid mt = (mt > 0)"

definition monotime_cmp :: "monotime \<Rightarrow> monotime \<Rightarrow> int" where
  "monotime_cmp a b = (if a > b then 1 else if a < b then -1 else 0)"

definition monotime_add :: "monotime \<Rightarrow> monotime \<Rightarrow> monotime" where
  "monotime_add add1 add2 = add1 + add2"

definition monotime_sub :: "monotime \<Rightarrow> monotime \<Rightarrow> monotime" where
  "monotime_sub minu subt = minu - subt"

text \<open>C division truncates towards zero.\<close>

definition cdiv :: "int \<Rightarrow> int \<Rightarrow> int" where
  "cdiv a b = sgn a * sgn b * (\<bar>a\<bar> div \<bar>b\<bar>)"

definition monotime_to_msec :: "monotime \<Rightarrow> int" where
  "monotime_to_msec mt = cdiv mt (cdiv MONOTIME_RES 1000)"

definition monotime_to_sec :: "monotime \<Rightarrow> int" where
  "monotime_to_sec mt = cdiv mt MONOTIME_RES"

definition monotime_from_sec :: "int \<Rightarrow> monotime" where
  "monotime_from_sec sec = sec * MONOTIME_RES"

definition monotime_to_time :: "monotime \<Rightarrow> int \<Rightarrow> monotime \<Rightarrow> int" where
  "monotime_to_time now wall mt = wall - monotime_to_sec (monotime_sub now mt)"

definition time_to_monotime :: "monotime \<Rightarrow> int \<Rightarrow> int \<Rightarrow> monotime" where
  "time_to_monotime now wall t =
     (if wall < t then monotime_clear else monotime_sub now (monotime_from_sec (wall - t)))"

section \<open>Timers\<close>

datatype Timer =
    Timer_None | Timer_ConnectRetry | Timer_Keepalive | Timer_Hold | Timer_SendHold
  | Timer_IdleHold | Timer_IdleHoldReset | Timer_CarpUndemote | Timer_RestartTimeout
  | Timer_SessionDown | Timer_Rtr_Refresh | Timer_Rtr_Retry | Timer_Rtr_Expire | Timer_Rtr_Active
  | Timer_Mrt_Reopen | Timer_Max

record timer =
  t_type :: Timer
  t_val :: monotime

type_synonym timer_head = "timer list"

definition timer_get :: "timer_head \<Rightarrow> Timer \<Rightarrow> timer option" where
  "timer_get th ty = List.find (\<lambda>t. t_type t = ty) th"

definition timer_nextisdue :: "timer_head \<Rightarrow> monotime \<Rightarrow> timer option" where
  "timer_nextisdue th now = (case th of [] \<Rightarrow> None
     | t # _ \<Rightarrow> if monotime_valid (t_val t) \<and> monotime_cmp (t_val t) now \<le> 0 then Some t else None)"

definition timer_nextduein :: "timer_head \<Rightarrow> monotime" where
  "timer_nextduein th = (case th of [] \<Rightarrow> monotime_clear
     | t # _ \<Rightarrow> if monotime_valid (t_val t) then t_val t else monotime_clear)"

text \<open>The result is the due time of a running timer.\<close>

definition timer_running :: "timer_head \<Rightarrow> Timer \<Rightarrow> monotime option" where
  "timer_running th ty = (case timer_get th ty of None \<Rightarrow> None
     | Some t \<Rightarrow> if monotime_valid (t_val t) then Some (t_val t) else None)"

fun timer_insert :: "timer \<Rightarrow> timer_head \<Rightarrow> timer_head" where
  "timer_insert t [] = [t]"
| "timer_insert t (x # xs) =
     (if \<not> monotime_valid (t_val x) \<or> monotime_cmp (t_val x) (t_val t) > 0 then t # x # xs
      else x # timer_insert t xs)"

definition timer_unlink :: "timer_head \<Rightarrow> Timer \<Rightarrow> timer_head" where
  "timer_unlink th ty = (case List.extract (\<lambda>t. t_type t = ty) th of
     None \<Rightarrow> th | Some (xs, _, ys) \<Rightarrow> xs @ ys)"

text \<open>The part of timer_set() after the due time is known and a new timer is allocated.\<close>

definition timer_set_at :: "timer_head \<Rightarrow> Timer \<Rightarrow> monotime \<Rightarrow> timer_head" where
  "timer_set_at th ty ms = (case timer_get th ty of
     None \<Rightarrow> timer_insert \<lparr>t_type = ty, t_val = ms\<rparr> th
   | Some t \<Rightarrow>
       if monotime_cmp (t_val t) ms = 0 then th
       else timer_insert (t\<lparr>t_val := ms\<rparr>) (timer_unlink th ty))"

definition timer_set :: "can_alloc \<Rightarrow> monotime \<Rightarrow> timer_head \<Rightarrow> Timer \<Rightarrow> u32 \<Rightarrow> timer_head res" where
  "timer_set ca now th ty offset =
     (let ms = monotime_add (monotime_from_sec (uint offset)) now in
      if timer_get th ty = None \<and> \<not> ca 1 then Inl Fatal
      else Inr (timer_set_at th ty ms))"

definition timer_stop :: "timer_head \<Rightarrow> Timer \<Rightarrow> timer_head" where
  "timer_stop th ty = (case timer_get th ty of None \<Rightarrow> th
     | Some t \<Rightarrow> timer_unlink th ty @ [t\<lparr>t_val := monotime_clear\<rparr>])"

definition timer_remove :: "timer_head \<Rightarrow> Timer \<Rightarrow> timer_head" where
  "timer_remove th ty = (case timer_get th ty of None \<Rightarrow> th | Some t \<Rightarrow> timer_unlink th ty)"

definition timer_remove_all :: "timer_head \<Rightarrow> timer_head" where
  "timer_remove_all th = []"

section \<open>Invariant\<close>

text \<open>Each type at most once; due times ascend and the stopped timers come last.\<close>

definition timer_le :: "timer \<Rightarrow> timer \<Rightarrow> bool" where
  "timer_le a b = (monotime_valid (t_val b) \<longrightarrow> monotime_valid (t_val a) \<and> t_val a \<le> t_val b)"

definition timers_ok :: "timer_head \<Rightarrow> bool" where
  "timers_ok th = (distinct (map t_type th) \<and> sorted_wrt timer_le th)"

lemma mset_timer_insert [simp]: "mset (timer_insert t th) = add_mset t (mset th)"
  by (induction th) auto

lemma set_timer_insert [simp]: "set (timer_insert t th) = insert t (set th)"
  using mset_eq_setD[OF mset_timer_insert[of t th, folded mset.simps(2)]] by simp

lemma timer_unlink_filter:
  "distinct (map t_type th) \<Longrightarrow> timer_unlink th ty = filter (\<lambda>t. t_type t \<noteq> ty) th"
proof (induction th)
  case Nil
  then show ?case by (simp add: timer_unlink_def extract_Nil_code)
next
  case (Cons t th)
  have "t_type t = ty \<Longrightarrow> filter (\<lambda>t. t_type t \<noteq> ty) th = th"
    using Cons.prems by (intro filter_True) (metis distinct.simps(2) image_eqI list.set_map list.simps(9))
  then show ?case
    using Cons by (auto simp: timer_unlink_def extract_Cons_code split: option.splits)
qed

lemma timer_get_Some:
  "distinct (map t_type th) \<Longrightarrow> timer_get th ty = Some t \<longleftrightarrow> t \<in> set th \<and> t_type t = ty"
proof
  assume "timer_get th ty = Some t"
  then show "t \<in> set th \<and> t_type t = ty" unfolding timer_get_def
    by (auto simp: find_Some_iff)
next
  assume d: "distinct (map t_type th)" and t: "t \<in> set th \<and> t_type t = ty"
  then obtain s where s: "timer_get th ty = Some s"
    unfolding timer_get_def by (cases "List.find (\<lambda>t. t_type t = ty) th") (auto simp: find_None_iff)
  then have "s \<in> set th \<and> t_type s = ty" unfolding timer_get_def by (auto simp: find_Some_iff)
  then have "s = t" using d t by (metis distinct_map inj_onD)
  then show "timer_get th ty = Some t" using s by simp
qed

lemma timer_get_the:
  "distinct (map t_type th) \<Longrightarrow> timer_get th ty = Some t \<Longrightarrow>
     t \<in> set th \<and> t_type t = ty \<and> (\<forall>t'\<in>set th. t_type t' = ty \<longrightarrow> t' = t)"
  using timer_get_Some[of th ty] by (metis option.inject)

lemma other_types: "ty \<notin> t_type ` {x \<in> set th. t_type x \<noteq> ty}"
  by auto

lemma timer_get_None: "timer_get th ty = None \<longleftrightarrow> ty \<notin> t_type ` set th"
  by (auto simp: timer_get_def find_None_iff)

lemma timer_insert_sorted:
  "sorted_wrt timer_le th \<Longrightarrow> monotime_valid (t_val t) \<Longrightarrow> sorted_wrt timer_le (timer_insert t th)"
  by (induction th) (auto simp: timer_le_def monotime_cmp_def split: if_splits)

lemma timers_ok_filter: "timers_ok th \<Longrightarrow> timers_ok (filter P th)"
  by (simp add: timers_ok_def sorted_wrt_filter distinct_map_filter)

lemma timers_ok_insert:
  "timers_ok th \<Longrightarrow> t_type t \<notin> t_type ` set th \<Longrightarrow> monotime_valid (t_val t) \<Longrightarrow> timers_ok (timer_insert t th)"
proof -
  assume a: "timers_ok th" "t_type t \<notin> t_type ` set th" "monotime_valid (t_val t)"
  have "mset (map t_type (timer_insert t th)) = mset (t_type t # map t_type th)" by simp
  then have "distinct (map t_type (timer_insert t th))"
    using a by (metis distinct.simps(2) list.set_map mset_eq_imp_distinct_iff timers_ok_def)
  then show ?thesis using a timer_insert_sorted by (simp add: timers_ok_def)
qed

lemma timers_ok_append_stopped:
  "timers_ok th \<Longrightarrow> t_type t \<notin> t_type ` set th \<Longrightarrow> \<not> monotime_valid (t_val t) \<Longrightarrow> timers_ok (th @ [t])"
  by (auto simp: timers_ok_def sorted_wrt_append timer_le_def)

section \<open>The timer interface\<close>

text \<open>
  What the session engine relies on: a list of timers behaves as a map from timer types to due
  times, and the head tells whether any timer is due.
\<close>

locale timer_queue =
  fixes due :: "'th \<Rightarrow> 'k \<Rightarrow> int option" and ok :: "'th \<Rightarrow> bool"
    and set_at :: "'th \<Rightarrow> 'k \<Rightarrow> int \<Rightarrow> 'th" and stop :: "'th \<Rightarrow> 'k \<Rightarrow> 'th"
    and next_due :: "'th \<Rightarrow> int \<Rightarrow> 'k option"
  assumes set_ok: "ok th \<Longrightarrow> at > 0 \<Longrightarrow> ok (set_at th k at)"
    and stop_ok: "ok th \<Longrightarrow> ok (stop th k)"
    and due_set: "ok th \<Longrightarrow> at > 0 \<Longrightarrow> due (set_at th k at) = (due th)(k := Some at)"
    and due_stop: "ok th \<Longrightarrow> due (stop th k) = (due th)(k := None)"
    and next_Some: "ok th \<Longrightarrow> next_due th now = Some k \<Longrightarrow>
      \<exists>at. due th k = Some at \<and> at \<le> now \<and> (\<forall>k' at'. due th k' = Some at' \<longrightarrow> at \<le> at')"
    and next_None: "ok th \<Longrightarrow> next_due th now = None \<Longrightarrow> due th k = Some at \<Longrightarrow> now < at"
begin

text \<open>The loop that handles every timer that is due and stops it ends with none due.\<close>

fun run_due :: "nat \<Rightarrow> 'th \<Rightarrow> int \<Rightarrow> 'k list \<times> 'th" where
  "run_due 0 th now = ([], th)"
| "run_due (Suc n) th now = (case next_due th now of None \<Rightarrow> ([], th)
     | Some k \<Rightarrow> let (ks, th') = run_due n (stop th k) now in (k # ks, th'))"

lemma run_due_spec:
  "ok th \<Longrightarrow> finite (dom (due th)) \<Longrightarrow> card {k. \<exists>at. due th k = Some at \<and> at \<le> now} \<le> n \<Longrightarrow>
     set (fst (run_due n th now)) = {k. \<exists>at. due th k = Some at \<and> at \<le> now} \<and>
     distinct (fst (run_due n th now)) \<and>
     (\<forall>k at. due (snd (run_due n th now)) k = Some at \<longleftrightarrow> due th k = Some at \<and> now < at)"
proof (induction n arbitrary: th)
  case 0
  let ?D = "{k. \<exists>at. due th k = Some at \<and> at \<le> now}"
  have "finite ?D" using 0(2) by (rule finite_subset[rotated]) auto
  then have e: "?D = {}" using 0(3) by simp
  then have "due th k = Some at \<Longrightarrow> now < at" for k at by (metis (mono_tags) empty_Collect_eq linorder_not_le)
  then show ?case using e by auto
next
  case (Suc n)
  let ?D = "{k. \<exists>at. due th k = Some at \<and> at \<le> now}"
  show ?case
  proof (cases "next_due th now")
    case None
    then have "due th k = Some at \<Longrightarrow> now < at" for k at using next_None[OF Suc.prems(1)] by blast
    then show ?thesis using None by (auto simp: linorder_not_le[symmetric])
  next
    case (Some k)
    have k: "k \<in> ?D" using next_Some[OF Suc.prems(1) Some] by auto
    have f: "finite ?D" using Suc.prems(2) by (rule finite_subset[rotated]) auto
    have d: "{k'. \<exists>at. due (stop th k) k' = Some at \<and> at \<le> now} = ?D - {k}"
      using due_stop[OF Suc.prems(1)] by auto
    have "card (?D - {k}) \<le> n" using Suc.prems(3) f k by simp
    moreover have "finite (dom (due (stop th k)))" using due_stop[OF Suc.prems(1)] Suc.prems(2) by simp
    ultimately have IH: "set (fst (run_due n (stop th k) now)) = ?D - {k}"
      "distinct (fst (run_due n (stop th k) now))"
      "\<And>k' at. due (snd (run_due n (stop th k) now)) k' = Some at \<longleftrightarrow> due (stop th k) k' = Some at \<and> now < at"
      using Suc.IH[OF stop_ok[OF Suc.prems(1)], of k] d by simp_all
    have "due (snd (run_due n (stop th k) now)) k' = Some at \<longleftrightarrow> due th k' = Some at \<and> now < at" for k' at
      unfolding IH(3) due_stop[OF Suc.prems(1)] using k by auto
    then show ?thesis using Some IH(1,2) k by (auto simp: case_prod_beta)
  qed
qed

end

lemma timer_running_iff:
  "timers_ok th \<Longrightarrow> timer_running th ty = Some at \<longleftrightarrow>
     (\<exists>t\<in>set th. t_type t = ty \<and> t_val t = at \<and> monotime_valid at)"
proof -
  assume "timers_ok th"
  then have d: "distinct (map t_type th)" by (simp add: timers_ok_def)
  show ?thesis
  proof (cases "timer_get th ty")
    case None
    then show ?thesis using timer_get_None[of th ty] by (force simp: timer_running_def)
  next
    case (Some t)
    then show ?thesis using timer_get_the[OF d Some] by (auto simp: timer_running_def)
  qed
qed

lemma timer_set_at_ok: "timers_ok th \<Longrightarrow> at > 0 \<Longrightarrow> timers_ok (timer_set_at th ty at)"
proof -
  assume a: "timers_ok th" "at > 0"
  have d: "distinct (map t_type th)" using a by (simp add: timers_ok_def)
  show ?thesis
  proof (cases "timer_get th ty")
    case None
    then show ?thesis
      using timers_ok_insert[OF a(1), of "\<lparr>t_type = ty, t_val = at\<rparr>"] a(2) timer_get_None[of th ty]
      by (simp add: timer_set_at_def monotime_valid_def)
  next
    case (Some t)
    then have "t_type t = ty" using timer_get_Some[OF d] by simp
    then show ?thesis
      using timers_ok_insert[OF timers_ok_filter[OF a(1)], of "t\<lparr>t_val := at\<rparr>" "\<lambda>t. t_type t \<noteq> ty"] a Some other_types[of ty th]
      by (auto simp: timer_set_at_def timer_unlink_filter[OF d] monotime_valid_def)
  qed
qed

lemma timer_stop_ok: "timers_ok th \<Longrightarrow> timers_ok (timer_stop th ty)"
proof -
  assume a: "timers_ok th"
  have d: "distinct (map t_type th)" using a by (simp add: timers_ok_def)
  show ?thesis
  proof (cases "timer_get th ty")
    case None
    then show ?thesis using a by (simp add: timer_stop_def)
  next
    case (Some t)
    then have "t_type t = ty" using timer_get_Some[OF d] by simp
    then show ?thesis
      using timers_ok_append_stopped[OF timers_ok_filter[OF a], of "t\<lparr>t_val := monotime_clear\<rparr>" "\<lambda>t. t_type t \<noteq> ty"] Some other_types[of ty th]
      by (auto simp: timer_stop_def timer_unlink_filter[OF d] monotime_valid_def monotime_clear_def)
  qed
qed

lemma timer_remove_ok: "timers_ok th \<Longrightarrow> timers_ok (timer_remove th ty)"
  using timers_ok_filter[of th "\<lambda>t. t_type t \<noteq> ty"] timer_unlink_filter[of th ty]
  by (simp add: timer_remove_def timers_ok_def split: option.splits)

lemma timer_running_set_at:
  assumes a: "timers_ok th" "at > 0"
  shows "timer_running (timer_set_at th ty at) = (timer_running th)(ty := Some at)"
proof (rule ext, rule option.expand)
  have d: "distinct (map t_type th)" using a by (simp add: timers_ok_def)
  have s: "x \<in> set (timer_set_at th ty at) \<longleftrightarrow> x = \<lparr>t_type = ty, t_val = at\<rparr> \<or> x \<in> set th \<and> t_type x \<noteq> ty" for x
  proof (cases "timer_get th ty")
    case None
    then show ?thesis using timer_get_None[of th ty] by (auto simp: timer_set_at_def)
  next
    case (Some t)
    note t = timer_get_the[OF d Some]
    then show ?thesis using Some
      by (cases t) (auto simp: timer_set_at_def timer_unlink_filter[OF d] monotime_cmp_def split: if_splits)
  qed
  have s': "set (timer_set_at th ty at) = insert \<lparr>t_type = ty, t_val = at\<rparr> {x \<in> set th. t_type x \<noteq> ty}"
    using s by blast
  have k: "timer_running (timer_set_at th ty at) k = Some v \<longleftrightarrow> ((timer_running th)(ty := Some at)) k = Some v" for k v
    unfolding timer_running_iff[OF timer_set_at_ok[OF a]] using a(2)
    by (cases "k = ty") (auto simp: s' timer_running_iff[OF a(1)] monotime_valid_def)
  then show "(timer_running (timer_set_at th ty at) k = None) = (((timer_running th)(ty := Some at)) k = None)"
    and "timer_running (timer_set_at th ty at) k \<noteq> None \<Longrightarrow> ((timer_running th)(ty := Some at)) k \<noteq> None \<Longrightarrow>
      the (timer_running (timer_set_at th ty at) k) = the (((timer_running th)(ty := Some at)) k)" for k
    by (metis not_None_eq)+
qed

lemma timer_running_stop:
  assumes a: "timers_ok th"
  shows "timer_running (timer_stop th ty) = (timer_running th)(ty := None)"
proof (rule ext, rule option.expand)
  have d: "distinct (map t_type th)" using a by (simp add: timers_ok_def)
  have s: "monotime_valid (t_val x) \<Longrightarrow> x \<in> set (timer_stop th ty) \<longleftrightarrow> x \<in> set th \<and> t_type x \<noteq> ty" for x
    using timer_get_None[of th ty]
    by (cases "timer_get th ty")
      (auto simp: timer_stop_def timer_unlink_filter[OF d] monotime_valid_def monotime_clear_def)
  have k: "timer_running (timer_stop th ty) k = Some v \<longleftrightarrow> ((timer_running th)(ty := None)) k = Some v" for k v
    unfolding timer_running_iff[OF timer_stop_ok[OF a]]
    using s by (cases "k = ty") (auto simp: timer_running_iff[OF a])
  then show "(timer_running (timer_stop th ty) k = None) = (((timer_running th)(ty := None)) k = None)"
    and "timer_running (timer_stop th ty) k \<noteq> None \<Longrightarrow> ((timer_running th)(ty := None)) k \<noteq> None \<Longrightarrow>
      the (timer_running (timer_stop th ty) k) = the (((timer_running th)(ty := None)) k)" for k
    by (metis not_None_eq)+
qed

interpretation tq: timer_queue timer_running timers_ok timer_set_at timer_stop
    "\<lambda>th now. map_option t_type (timer_nextisdue th now)"
proof
  fix th :: timer_head and now k at
  assume ok: "timers_ok th"
  show "\<exists>at. timer_running th k = Some at \<and> at \<le> now \<and> (\<forall>k' at'. timer_running th k' = Some at' \<longrightarrow> at \<le> at')"
    if n: "map_option t_type (timer_nextisdue th now) = Some k"
  proof -
    obtain t ts where t: "th = t # ts" "t_type t = k" "monotime_valid (t_val t)" "t_val t \<le> now"
      using n by (cases th) (auto simp: timer_nextisdue_def monotime_cmp_def split: if_splits)
    then have "timer_running th k' = Some at' \<Longrightarrow> t_val t \<le> at'" for k' at'
      using ok timer_running_iff[OF ok] by (auto simp: timers_ok_def timer_le_def)
    then show ?thesis using t timer_running_iff[OF ok, of k "t_val t"] by auto
  qed
  show "now < at" if "map_option t_type (timer_nextisdue th now) = None" "timer_running th k = Some at"
    using that timer_running_iff[OF ok, of k at] ok
    by (fastforce simp: timer_nextisdue_def monotime_cmp_def timers_ok_def timer_le_def
        split: list.splits if_splits)
qed (simp_all add: timer_set_at_ok timer_stop_ok timer_running_set_at timer_running_stop)

section \<open>Properties\<close>

text \<open>Every list of timers the functions of timer.c can produce, at any times.\<close>

inductive timers_reach :: "timer_head \<Rightarrow> bool" where
  init: "timers_reach []"
| set: "timers_reach th \<Longrightarrow> now > 0 \<Longrightarrow> timer_set ca now th ty offset = Inr th' \<Longrightarrow> timers_reach th'"
| stop: "timers_reach th \<Longrightarrow> timers_reach (timer_stop th ty)"
| remove: "timers_reach th \<Longrightarrow> timers_reach (timer_remove th ty)"
| remove_all: "timers_reach th \<Longrightarrow> timers_reach (timer_remove_all th)"

lemma timer_set_positive: "now > 0 \<Longrightarrow> monotime_add (monotime_from_sec (uint (offset :: u32))) now > 0"
  by (simp add: monotime_add_def monotime_from_sec_def MONOTIME_RES_def add_nonneg_pos)

lemma timers_reach_ok: "timers_reach th \<Longrightarrow> timers_ok th"
proof (induction rule: timers_reach.induct)
  case init
  then show ?case by (simp add: timers_ok_def)
next
  case (set th now ca ty offset th')
  then show ?case
    using timer_set_at_ok[OF set.IH timer_set_positive] by (auto simp: timer_set_def Let_def split: if_splits)
qed (simp_all add: timer_stop_ok timer_remove_ok timer_remove_all_def timers_ok_def[of "[]"])

text \<open>
  C26: in every reachable timer list, timer_nextisdue() finds a timer exactly when some running timer
  is due, and then the one with the earliest due time: looking at the head misses none.
\<close>

theorem timer_nextisdue_complete:
  assumes "timers_reach th"
  shows "case timer_nextisdue th now of
      None \<Rightarrow> \<forall>ty at. timer_running th ty = Some at \<longrightarrow> now < at
    | Some t \<Rightarrow> timer_running th (t_type t) = Some (t_val t) \<and> t_val t \<le> now \<and>
        (\<forall>ty at. timer_running th ty = Some at \<longrightarrow> t_val t \<le> at)"
proof (cases "timer_nextisdue th now")
  case None
  then show ?thesis using tq.next_None[OF timers_reach_ok[OF assms]] by simp
next
  case (Some t)
  obtain at where at: "timer_running th (t_type t) = Some at" "at \<le> now"
    and least: "\<forall>ty at'. timer_running th ty = Some at' \<longrightarrow> at \<le> at'"
    using tq.next_Some[OF timers_reach_ok[OF assms], of now "t_type t"] Some by auto
  have "t \<in> set th" "monotime_valid (t_val t)"
    using Some by (auto simp: timer_nextisdue_def split: list.splits if_splits)
  then have "timer_running th (t_type t) = Some (t_val t)"
    using timer_running_iff[OF timers_reach_ok[OF assms]] by auto
  then show ?thesis using Some at least by simp
qed

theorem timer_nextisdue_complete_witness:
  "\<exists>th. timers_reach th \<and> timer_running th Timer_Hold = Some 90000005 \<and>
     timer_nextisdue th 30000004 = None \<and> map_option t_type (timer_nextisdue th 30000005) = Some Timer_Keepalive"
proof -
  obtain th1 where s1: "timer_set (\<lambda>_. True) 5 [] Timer_Hold 90 = Inr th1"
    and th1: "th1 = [\<lparr>t_type = Timer_Hold, t_val = 90000005\<rparr>]"
    by (simp add: timer_set_def timer_set_at_def timer_get_def monotime_add_def monotime_from_sec_def MONOTIME_RES_def)
  obtain th where s2: "timer_set (\<lambda>_. True) 5 th1 Timer_Keepalive 30 = Inr th"
    and th: "th = [\<lparr>t_type = Timer_Keepalive, t_val = 30000005\<rparr>, \<lparr>t_type = Timer_Hold, t_val = 90000005\<rparr>]"
    using th1 by (simp add: timer_set_def timer_set_at_def timer_get_def monotime_add_def monotime_from_sec_def
        MONOTIME_RES_def monotime_cmp_def monotime_valid_def)
  have r: "timers_reach th"
    using timers_reach.set[OF timers_reach.set[OF timers_reach.init _ s1] _ s2] by simp
  have run: "timer_running th Timer_Hold = Some 90000005" "timer_running th Timer_Keepalive = Some 30000005"
    by (simp_all add: th timer_running_def timer_get_def monotime_valid_def)
  have "timer_nextisdue th 30000004 = None"
    using timer_nextisdue_complete[OF r, of 30000004] run
    by (cases "timer_nextisdue th 30000004") (auto simp: th timer_running_def timer_get_def monotime_valid_def split: if_splits)
  moreover have "map_option t_type (timer_nextisdue th 30000005) = Some Timer_Keepalive"
    by (simp add: th timer_nextisdue_def monotime_valid_def monotime_cmp_def)
  ultimately show ?thesis using r run(1) by blast
qed

text \<open>
  The loop of the session engine that takes the next due timer and stops it, run often enough,
  handles every due timer once and no other, and leaves the timers that are not due running.
\<close>

lemma timer_loop_drains:
  assumes "timers_reach th" and "length th \<le> n"
  shows "set (fst (tq.run_due n th now)) = {ty. \<exists>at. timer_running th ty = Some at \<and> at \<le> now} \<and>
    distinct (fst (tq.run_due n th now)) \<and>
    (\<forall>ty at. timer_running (snd (tq.run_due n th now)) ty = Some at \<longleftrightarrow> timer_running th ty = Some at \<and> now < at)"
proof -
  have ok: "timers_ok th" using timers_reach_ok[OF assms(1)] .
  have d: "dom (timer_running th) \<subseteq> set (map t_type th)" using timer_running_iff[OF ok] by force
  have "{ty. \<exists>at. timer_running th ty = Some at \<and> at \<le> now} \<subseteq> set (map t_type th)" using d by auto
  then have "card {ty. \<exists>at. timer_running th ty = Some at \<and> at \<le> now} \<le> card (set (map t_type th))"
    by (rule card_mono[rotated]) simp
  also have "\<dots> \<le> length th" using card_length[of "map t_type th"] by simp
  finally have "card {ty. \<exists>at. timer_running th ty = Some at \<and> at \<le> now} \<le> length th" .
  then show ?thesis using tq.run_due_spec[OF ok finite_subset[OF d], of now n] assms(2) by simp
qed

end
