(* ===== verification/Session.thy ===== *)
theory Session
  imports Aspath Timer
begin

text \<open>
  The state of a BGP session and the operations of the session engine on it (usr.sbin/bgpd/session.c
  and session_bgp.c, session.h): timers, sockets, the messages to the other processes, graceful
  restart and the change of state. What leaves the process is recorded in the field outs in the order
  it happens. Memory, the clock and the outcome of system calls are the argument env. The messages
  and the state machine are in Session_Msg and Session_Fsm.
\<close>

section \<open>Constants and types\<close>

datatype session_state = STATE_NONE | STATE_IDLE | STATE_CONNECT | STATE_ACTIVE | STATE_OPENSENT
  | STATE_OPENCONFIRM | STATE_ESTABLISHED

datatype session_events = EVNT_NONE | EVNT_START | EVNT_STOP | EVNT_CON_OPEN | EVNT_CON_CLOSED
  | EVNT_CON_OPENFAIL | EVNT_CON_FATAL | EVNT_TIMER_CONNRETRY | EVNT_TIMER_HOLDTIME
  | EVNT_TIMER_KEEPALIVE | EVNT_TIMER_SENDHOLD | EVNT_RCVD_OPEN | EVNT_RCVD_KEEPALIVE
  | EVNT_RCVD_UPDATE | EVNT_RCVD_NOTIFICATION | EVNT_RCVD_GRACE_NOTIFICATION

datatype role = ROLE_NONE | ROLE_CUSTOMER | ROLE_PROVIDER | ROLE_RS | ROLE_RS_CLIENT | ROLE_PEER

definition INTERVAL_HOLD_INITIAL :: u16 where "INTERVAL_HOLD_INITIAL = 240"
definition INTERVAL_HOLD :: u16 where "INTERVAL_HOLD = 90"
definition INTERVAL_IDLE_HOLD_INITIAL :: u32 where "INTERVAL_IDLE_HOLD_INITIAL = 30"
definition INTERVAL_HOLD_DEMOTED :: u32 where "INTERVAL_HOLD_DEMOTED = 60"
definition INTERVAL_STALE :: u32 where "INTERVAL_STALE = 180"
definition INTERVAL_SESSION_DOWN :: u32 where "INTERVAL_SESSION_DOWN = 3600"
definition MAX_IDLE_HOLD :: u32 where "MAX_IDLE_HOLD = 3600"
definition SESSION_CLEAR_DELAY :: u32 where "SESSION_CLEAR_DELAY = 5"

definition AID_UNSPEC :: nat where "AID_UNSPEC = 0"
definition AID_MIN :: nat where "AID_MIN = 1"
definition AID_MAX :: nat where "AID_MAX = 8"

definition CAPA_GR_PRESENT :: u8 where "CAPA_GR_PRESENT = 0x01"
definition CAPA_GR_RESTART :: u8 where "CAPA_GR_RESTART = 0x02"
definition CAPA_GR_FORWARD :: u8 where "CAPA_GR_FORWARD = 0x04"
definition CAPA_GR_RESTARTING :: u8 where "CAPA_GR_RESTARTING = 0x08"
definition CAPA_GR_FINISHED :: u8 where "CAPA_GR_FINISHED = 0x10"

text \<open>The arrays indexed by address family are functions; grestart is flattened.\<close>

record capabilities =
  gr_timeout :: u16
  gr_flags :: "nat \<Rightarrow> u8"
  gr_restart :: u8
  gr_notification :: u8
  cap_mp :: "nat \<Rightarrow> u8"
  cap_add_path :: "nat \<Rightarrow> u8"
  cap_ext_nh :: "nat \<Rightarrow> u8"
  cap_refresh :: u8
  cap_as4byte :: u8
  cap_enhanced_rr :: u8
  cap_policy :: u8
  cap_ext_msg :: u8

definition no_capa :: capabilities where
  "no_capa = \<lparr>gr_timeout = 0, gr_flags = (\<lambda>_. 0), gr_restart = 0, gr_notification = 0, cap_mp = (\<lambda>_. 0),
     cap_add_path = (\<lambda>_. 0), cap_ext_nh = (\<lambda>_. 0), cap_refresh = 0, cap_as4byte = 0, cap_enhanced_rr = 0,
     cap_policy = 0, cap_ext_msg = 0\<rparr>"

text \<open>The configuration of a neighbor, as far as the session engine reads it.\<close>

record peer_config =
  pc_capabilities :: capabilities
  pc_demote_group :: bool
  pc_remote_as :: u32
  pc_local_as :: u32
  pc_role :: role
  pc_holdtime :: u16
  pc_min_holdtime :: u16
  pc_connectretry :: u16
  pc_max_prefix_restart :: u16
  pc_max_out_prefix_restart :: u16
  pc_reason :: bytes
  pc_staletime :: u16
  pc_local_short_as :: u16
  pc_template :: bool
  pc_ebgp :: bool
  pc_passive :: bool
  pc_down :: bool
  pc_enforce_as_off :: bool

record peer_stats =
  msg_sent_open :: nat
  msg_sent_update :: nat
  msg_sent_notification :: nat
  msg_sent_keepalive :: nat
  msg_sent_rrefresh :: nat
  msg_rcvd_open :: nat
  msg_rcvd_update :: nat
  msg_rcvd_notification :: nat
  msg_rcvd_keepalive :: nat
  msg_rcvd_rrefresh :: nat
  refresh_rcvd_req :: nat
  refresh_rcvd_borr :: nat
  refresh_rcvd_eorr :: nat
  refresh_sent_req :: nat
  refresh_sent_borr :: nat
  refresh_sent_eorr :: nat
  last_sent_errcode :: u8
  last_sent_suberr :: u8
  last_rcvd_errcode :: u8
  last_rcvd_suberr :: u8
  last_reason :: bytes
  last_updown :: monotime
  last_read :: monotime
  last_write :: monotime

text \<open>What a session sends to the route decision engine, the parent and the kernel.\<close>

datatype out =
    RdeAdd
  | RdeUp u32 u16 capabilities
  | RdeDown
  | RdeDelete
  | RdeStale nat
  | RdeNograce nat
  | RdeFlush nat
  | RdeUpdate bytes
  | RdeRefresh nat u8
  | RdeRestarted nat
  | RdeXoff
  | RdeXon
  | Demote int
  | Md5Reload
  | SockClose int
  | SockWrite "bytes list"

text \<open>
  The read side of a message buffer is the queue of complete messages, the bytes not yet looked at
  and the message being put together (its length and what has arrived of it).
\<close>

record peer =
  p_conf :: peer_config
  p_stats :: peer_stats
  capa_ann :: capabilities
  capa_peer :: capabilities
  capa_neg :: capabilities
  p_timers :: timer_head
  wqueue :: "bytes list"
  rqueue :: "bytes list"
  rbuf :: bytes
  rpmsg :: "(nat \<times> bytes) option"
  p_template :: bool
  p_fd :: int
  IdleHoldTime :: u32
  p_local_bgpid :: u32
  p_remote_bgpid :: u32
  state :: session_state
  prev_state :: session_state
  p_remote_role :: role
  p_short_as :: u16
  p_holdtime :: u16
  depend_ok :: bool
  demoted :: u8
  rpending :: bool
  rdesession :: bool
  throttled :: bool
  p_delete :: bool
  outs :: "out list"

text \<open>
  The outcome of the calls from socket() to connect() when a connection is made, and the rest of
  what a step takes from its environment: memory, the clock, the configured stale time, whether the
  route decision engine is attached, and whether the authentication and the options of an accepted
  socket could be set up.
\<close>

datatype connect_result = NoSocket | ConnectFails int | ConnectInProgress int | ConnectDone int

record session_env =
  e_ca :: can_alloc
  e_now :: monotime
  e_connect :: connect_result
  e_staletime :: u16
  e_rde :: bool
  e_auth_ok :: bool
  e_setup_ok :: bool

section \<open>Sequences of steps\<close>

text \<open>The steps of a function one after the other; a fatal error ends the process.\<close>

primrec do_all :: "('s \<Rightarrow> 's res) list \<Rightarrow> 's \<Rightarrow> 's res" where
  "do_all [] s = Inr s"
| "do_all (f # fs) s = res_bind (f s) (do_all fs)"

definition upd :: "('s \<Rightarrow> 's) \<Rightarrow> 's \<Rightarrow> 's res" where
  "upd f s = Inr (f s)"

section \<open>Timers, sockets and messages to other processes\<close>

definition tset :: "session_env \<Rightarrow> Timer \<Rightarrow> (peer \<Rightarrow> u32) \<Rightarrow> peer \<Rightarrow> peer res" where
  "tset e t off p = res_bind (timer_set (e_ca e) (e_now e) (p_timers p) t (off p)) (\<lambda>th. Inr (p\<lparr>p_timers := th\<rparr>))"

definition tstop :: "Timer \<Rightarrow> peer \<Rightarrow> peer res" where
  "tstop t p = Inr (p\<lparr>p_timers := timer_stop (p_timers p) t\<rparr>)"

definition emit :: "out \<Rightarrow> peer \<Rightarrow> peer res" where
  "emit x p = Inr (p\<lparr>outs := outs p @ [x]\<rparr>)"

definition imsg_rde :: "session_env \<Rightarrow> out \<Rightarrow> peer \<Rightarrow> peer res" where
  "imsg_rde e x p = (if e_rde e then emit x p else Inr p)"

definition session_close :: "peer \<Rightarrow> peer res" where
  "session_close p = Inr (p\<lparr>p_fd := -1, outs := (if p_fd p \<noteq> -1 then outs p @ [SockClose (p_fd p)] else outs p)\<rparr>)"

definition session_demote :: "int \<Rightarrow> peer \<Rightarrow> peer res" where
  "session_demote level = do_all [emit (Demote level), upd (\<lambda>p. p\<lparr>demoted := demoted p + of_int level\<rparr>)]"

definition session_md5_reload :: "peer \<Rightarrow> peer res" where
  "session_md5_reload p = (if \<not> p_template p then emit Md5Reload p else Inr p)"

definition start_timer_holdtime :: "session_env \<Rightarrow> peer \<Rightarrow> peer res" where
  "start_timer_holdtime e p =
     (if p_holdtime p > 0 then tset e Timer_Hold (\<lambda>p. ucast (p_holdtime p)) p else tstop Timer_Hold p)"

definition start_timer_sendholdtime :: "session_env \<Rightarrow> peer \<Rightarrow> peer res" where
  "start_timer_sendholdtime e p =
     (let holdtime = (if p_holdtime p > INTERVAL_HOLD then p_holdtime p else INTERVAL_HOLD) in
      if p_holdtime p > 0 then tset e Timer_SendHold (\<lambda>p. ucast holdtime) p else tstop Timer_SendHold p)"

definition start_timer_keepalive :: "session_env \<Rightarrow> peer \<Rightarrow> peer res" where
  "start_timer_keepalive e p =
     (if p_holdtime p > 0 then tset e Timer_Keepalive (\<lambda>p. ucast (p_holdtime p div 3)) p else tstop Timer_Keepalive p)"

section \<open>Graceful restart, up and down\<close>

text \<open>One address family in the loop of session_graceful_restart().\<close>

definition restart_aid :: "session_env \<Rightarrow> nat \<Rightarrow> peer \<Rightarrow> peer res" where
  "restart_aid e i p =
     (if gr_flags (capa_neg p) i AND CAPA_GR_PRESENT \<noteq> 0 then
        do_all [imsg_rde e (RdeStale i),
                upd (\<lambda>p. p\<lparr>capa_neg := (capa_neg p)\<lparr>gr_flags := (gr_flags (capa_neg p))(i := CAPA_GR_RESTARTING)\<rparr>\<rparr>)] p
      else if cap_mp (capa_neg p) i \<noteq> 0 then
        do_all [imsg_rde e (RdeNograce i),
                upd (\<lambda>p. p\<lparr>capa_neg := (capa_neg p)\<lparr>gr_flags := (gr_flags (capa_neg p))(i := 0)\<rparr>\<rparr>)] p
      else Inr p)"

definition session_graceful_restart :: "session_env \<Rightarrow> peer \<Rightarrow> peer res" where
  "session_graceful_restart e p =
     (let st0 = (if pc_staletime (p_conf p) \<noteq> 0 then ucast (pc_staletime (p_conf p)) else ucast (e_staletime e)) :: u32;
          st1 = (if st0 > ucast (gr_timeout (capa_neg p)) then ucast (gr_timeout (capa_neg p)) else st0);
          st2 = (if st1 < INTERVAL_SESSION_DOWN - INTERVAL_STALE then INTERVAL_SESSION_DOWN - INTERVAL_STALE else st1)
      in do_all ([tset e Timer_RestartTimeout (\<lambda>_. st1),
                  upd (\<lambda>p. p\<lparr>p_stats := (p_stats p)\<lparr>last_updown := e_now e\<rparr>\<rparr>),
                  tset e Timer_SessionDown (\<lambda>_. st2 + INTERVAL_STALE)] @
                 map (restart_aid e) [AID_MIN..<AID_MAX]) p)"

definition session_graceful_flush :: "session_env \<Rightarrow> nat \<Rightarrow> peer \<Rightarrow> peer res" where
  "session_graceful_flush e aid = imsg_rde e (RdeFlush aid)"

definition stop_aid :: "session_env \<Rightarrow> nat \<Rightarrow> peer \<Rightarrow> peer res" where
  "stop_aid e i =
     do_all [\<lambda>p. if gr_flags (capa_neg p) i AND (CAPA_GR_RESTARTING OR CAPA_GR_FINISHED) = CAPA_GR_RESTARTING
                then session_graceful_flush e i p else Inr p,
             upd (\<lambda>p. p\<lparr>capa_neg := (capa_neg p)\<lparr>gr_flags := (gr_flags (capa_neg p))(i := gr_flags (capa_neg p) i OR CAPA_GR_FINISHED)\<rparr>\<rparr>)]"

definition session_graceful_stop :: "session_env \<Rightarrow> peer \<Rightarrow> peer res" where
  "session_graceful_stop e = do_all (map (stop_aid e) [AID_MIN..<AID_MAX])"

definition session_down :: "session_env \<Rightarrow> peer \<Rightarrow> peer res" where
  "session_down e = do_all
     [upd (\<lambda>p. p\<lparr>capa_neg := no_capa, p_stats := (p_stats p)\<lparr>last_updown := e_now e\<rparr>\<rparr>),
      tset e Timer_SessionDown (\<lambda>_. INTERVAL_SESSION_DOWN),
      imsg_rde e RdeDown]"

definition session_up :: "session_env \<Rightarrow> peer \<Rightarrow> peer res" where
  "session_up e = do_all
     [upd (\<lambda>p. p\<lparr>p_stats := (p_stats p)\<lparr>last_sent_errcode := 0, last_sent_suberr := 0, last_rcvd_errcode := 0,
                    last_rcvd_suberr := 0, last_reason := []\<rparr>\<rparr>),
      tstop Timer_SessionDown,
      \<lambda>p. if \<not> rdesession p then do_all [imsg_rde e RdeAdd, upd (\<lambda>p. p\<lparr>rdesession := True\<rparr>)] p else Inr p,
      upd (\<lambda>p. p\<lparr>p_stats := (p_stats p)\<lparr>last_updown := e_now e\<rparr>\<rparr>),
      \<lambda>p. imsg_rde e (RdeUp (p_remote_bgpid p) (p_short_as p) (capa_neg p)) p]"

section \<open>Changing state\<close>

definition session_open_state :: "session_state \<Rightarrow> bool" where
  "session_open_state s = (s \<in> {STATE_OPENSENT, STATE_OPENCONFIRM, STATE_ESTABLISHED})"

definition reset_timers :: "peer \<Rightarrow> peer res" where
  "reset_timers = do_all
     [tstop Timer_ConnectRetry, tstop Timer_Keepalive, tstop Timer_Hold, tstop Timer_SendHold,
      tstop Timer_IdleHold, tstop Timer_IdleHoldReset]"

text \<open>The exponential back-off at the end of the entry into the idle state.\<close>

definition back_off :: "u32 \<Rightarrow> u32" where
  "back_off t = (let t2 = t * 2; t3 = (if t2 = 0 then INTERVAL_IDLE_HOLD_INITIAL else t2)
     in if t3 > MAX_IDLE_HOLD then MAX_IDLE_HOLD else t3)"

definition graceful_event :: "peer \<Rightarrow> session_events \<Rightarrow> bool" where
  "graceful_event p event =
     (gr_restart (capa_neg p) = 2 \<and>
      (event = EVNT_CON_CLOSED \<or> event = EVNT_CON_FATAL \<or>
       gr_notification (capa_neg p) \<noteq> 0 \<and>
         (event = EVNT_RCVD_GRACE_NOTIFICATION \<or> event = EVNT_TIMER_HOLDTIME \<or> event = EVNT_TIMER_SENDHOLD)))"

text \<open>How the session goes on from the idle state: the timer for the next start, and its back-off.\<close>

definition idle_react :: "session_env \<Rightarrow> session_events \<Rightarrow> peer \<Rightarrow> peer res" where
  "idle_react e event p =
     (if prev_state p = STATE_NONE then Inr p
      else if prev_state p = STATE_ESTABLISHED \<and> event = EVNT_STOP then session_down e p
      else if prev_state p = STATE_ESTABLISHED \<and> graceful_event p event then
        do_all [tset e Timer_IdleHold (\<lambda>_. 0), session_graceful_restart e] p
      else do_all
        [\<lambda>p. if prev_state p = STATE_ESTABLISHED then do_all [tset e Timer_IdleHold IdleHoldTime, session_down e] p
             else if event \<noteq> EVNT_STOP then tset e Timer_IdleHold IdleHoldTime p
             else Inr p,
         upd (\<lambda>p. p\<lparr>IdleHoldTime := back_off (IdleHoldTime p)\<rparr>)] p)"

definition enter_idle :: "session_env \<Rightarrow> session_events \<Rightarrow> peer \<Rightarrow> peer res" where
  "enter_idle e event = do_all
     [\<lambda>p. if prev_state p = STATE_ESTABLISHED \<and> pc_demote_group (p_conf p) \<and> demoted p = 0 then session_demote 1 p else Inr p,
      \<lambda>p. if session_open_state (prev_state p) \<and> wqueue p \<noteq> [] then emit (SockWrite (wqueue p)) p else Inr p,
      upd (\<lambda>p. p\<lparr>p_holdtime := INTERVAL_HOLD_INITIAL\<rparr>),
      reset_timers,
      session_close,
      upd (\<lambda>p. p\<lparr>wqueue := [], rqueue := [], rbuf := [], rpmsg := None, rpending := False, capa_peer := no_capa\<rparr>),
      session_md5_reload,
      \<lambda>p. if prev_state p = STATE_NONE \<or> prev_state p = STATE_ESTABLISHED
          then Inr (p\<lparr>capa_ann := pc_capabilities (p_conf p)\<rparr>) else Inr p,
      idle_react e event]"

definition enter_connect :: "session_env \<Rightarrow> peer \<Rightarrow> peer res" where
  "enter_connect e p =
     (if prev_state p = STATE_ESTABLISHED \<and> gr_restart (capa_neg p) = 2 then
        do_all [session_graceful_restart e, upd (\<lambda>p. p\<lparr>p_holdtime := INTERVAL_HOLD_INITIAL\<rparr>), reset_timers, session_close,
                upd (\<lambda>p. p\<lparr>wqueue := [], rqueue := [], rbuf := [], rpmsg := None, capa_peer := no_capa\<rparr>)] p
      else Inr p)"

definition enter_established :: "session_env \<Rightarrow> peer \<Rightarrow> peer res" where
  "enter_established e = do_all
     [tset e Timer_IdleHoldReset IdleHoldTime,
      \<lambda>p. if demoted p \<noteq> 0 then tset e Timer_CarpUndemote (\<lambda>_. INTERVAL_HOLD_DEMOTED) p else Inr p,
      session_up e]"

definition change_state :: "session_env \<Rightarrow> session_state \<Rightarrow> session_events \<Rightarrow> peer \<Rightarrow> peer res" where
  "change_state e st event p0 =
     (let p = p0\<lparr>prev_state := state p0, state := st\<rparr> in
      case st of
        STATE_IDLE \<Rightarrow> enter_idle e event p
      | STATE_CONNECT \<Rightarrow> enter_connect e p
      | STATE_ACTIVE \<Rightarrow> session_md5_reload p
      | STATE_ESTABLISHED \<Rightarrow> enter_established e p
      | _ \<Rightarrow> Inr p)"

text \<open>
  The event EVNT_CON_FATAL in any state, which a failed allocation raises from inside another
  event; the lemma fsm_fatal_is_event of Session_Fsm shows it is the reaction of the state machine.
\<close>

definition fsm_fatal :: "session_env \<Rightarrow> peer \<Rightarrow> peer res" where
  "fsm_fatal e p =
     (if state p = STATE_NONE \<or> state p = STATE_IDLE then Inr p else change_state e STATE_IDLE EVNT_CON_FATAL p)"

end
