(* ===== verification/Session_Msg.thy ===== *)
theory Session_Msg
  imports Session
begin

text \<open>
  The messages of a BGP session (usr.sbin/bgpd/session_bgp.c): building OPEN, KEEPALIVE, UPDATE,
  NOTIFICATION and ROUTE-REFRESH messages, checking message headers, and parsing and negotiating
  the capabilities of an OPEN message. A message that cannot be built is handled as a fatal
  connection error.
\<close>

section \<open>Constants\<close>

definition BGP_OPEN :: u8 where "BGP_OPEN = 1"
definition BGP_UPDATE :: u8 where "BGP_UPDATE = 2"
definition BGP_NOTIFICATION :: u8 where "BGP_NOTIFICATION = 3"
definition BGP_KEEPALIVE :: u8 where "BGP_KEEPALIVE = 4"
definition BGP_RREFRESH :: u8 where "BGP_RREFRESH = 5"
definition BGP_VERSION :: u8 where "BGP_VERSION = 4"
definition MAX_PKTSIZE :: nat where "MAX_PKTSIZE = 4096"
definition MAX_EXT_PKTSIZE :: nat where "MAX_EXT_PKTSIZE = 65535"
definition MSGSIZE_HEADER :: nat where "MSGSIZE_HEADER = 19"
definition MSGSIZE_HEADER_MARKER :: nat where "MSGSIZE_HEADER_MARKER = 16"
definition MSGSIZE_NOTIFICATION_MIN :: nat where "MSGSIZE_NOTIFICATION_MIN = 21"
definition MSGSIZE_OPEN_MIN :: nat where "MSGSIZE_OPEN_MIN = 29"
definition MSGSIZE_UPDATE_MIN :: nat where "MSGSIZE_UPDATE_MIN = 23"
definition MSGSIZE_KEEPALIVE :: nat where "MSGSIZE_KEEPALIVE = MSGSIZE_HEADER"
definition MSGSIZE_RREFRESH :: nat where "MSGSIZE_RREFRESH = MSGSIZE_HEADER + 4"
definition MSGSIZE_RREFRESH_MIN :: nat where "MSGSIZE_RREFRESH_MIN = MSGSIZE_RREFRESH"
definition MSG_PROCESS_LIMIT :: nat where "MSG_PROCESS_LIMIT = 25"

lemmas msg_consts = BGP_OPEN_def BGP_UPDATE_def BGP_NOTIFICATION_def BGP_KEEPALIVE_def BGP_RREFRESH_def
  MAX_PKTSIZE_def MAX_EXT_PKTSIZE_def MSGSIZE_HEADER_def MSGSIZE_HEADER_MARKER_def MSGSIZE_NOTIFICATION_MIN_def
  MSGSIZE_OPEN_MIN_def MSGSIZE_UPDATE_MIN_def MSGSIZE_KEEPALIVE_def MSGSIZE_RREFRESH_def

definition ERR_HEADER :: u8 where "ERR_HEADER = 1"
definition ERR_OPEN :: u8 where "ERR_OPEN = 2"
definition ERR_UPDATE :: u8 where "ERR_UPDATE = 3"
definition ERR_HOLDTIMEREXPIRED :: u8 where "ERR_HOLDTIMEREXPIRED = 4"
definition ERR_FSM :: u8 where "ERR_FSM = 5"
definition ERR_CEASE :: u8 where "ERR_CEASE = 6"
definition ERR_FSM_UNEX_OPENSENT :: u8 where "ERR_FSM_UNEX_OPENSENT = 1"
definition ERR_FSM_UNEX_OPENCONFIRM :: u8 where "ERR_FSM_UNEX_OPENCONFIRM = 2"
definition ERR_FSM_UNEX_ESTABLISHED :: u8 where "ERR_FSM_UNEX_ESTABLISHED = 3"
definition ERR_CEASE_MAX_PREFIX :: u8 where "ERR_CEASE_MAX_PREFIX = 1"
definition ERR_CEASE_MAX_SENT_PREFIX :: u8 where "ERR_CEASE_MAX_SENT_PREFIX = 10"
definition ERR_RREFRESH :: u8 where "ERR_RREFRESH = 7"
definition ERR_SENDHOLDTIMEREXPIRED :: u8 where "ERR_SENDHOLDTIMEREXPIRED = 8"
definition ERR_CEASE_ADMIN_DOWN :: u8 where "ERR_CEASE_ADMIN_DOWN = 2"
definition ERR_CEASE_ADMIN_RESET :: u8 where "ERR_CEASE_ADMIN_RESET = 4"
definition ERR_CEASE_CONN_REJECT :: u8 where "ERR_CEASE_CONN_REJECT = 5"
definition ERR_CEASE_OTHER_CHANGE :: u8 where "ERR_CEASE_OTHER_CHANGE = 6"
definition ERR_CEASE_COLLISION :: u8 where "ERR_CEASE_COLLISION = 7"
definition ERR_CEASE_RSRC_EXHAUST :: u8 where "ERR_CEASE_RSRC_EXHAUST = 8"
definition ERR_CEASE_HARD_RESET :: u8 where "ERR_CEASE_HARD_RESET = 9"
definition ERR_HDR_SYNC :: u8 where "ERR_HDR_SYNC = 1"
definition ERR_HDR_LEN :: u8 where "ERR_HDR_LEN = 2"
definition ERR_HDR_TYPE :: u8 where "ERR_HDR_TYPE = 3"
definition ERR_OPEN_VERSION :: u8 where "ERR_OPEN_VERSION = 1"
definition ERR_OPEN_AS :: u8 where "ERR_OPEN_AS = 2"
definition ERR_OPEN_BGPID :: u8 where "ERR_OPEN_BGPID = 3"
definition ERR_OPEN_OPT :: u8 where "ERR_OPEN_OPT = 4"
definition ERR_OPEN_HOLDTIME :: u8 where "ERR_OPEN_HOLDTIME = 6"
definition ERR_OPEN_CAPA :: u8 where "ERR_OPEN_CAPA = 7"
definition ERR_OPEN_ROLE :: u8 where "ERR_OPEN_ROLE = 11"
definition ERR_RR_INV_LEN :: u8 where "ERR_RR_INV_LEN = 1"

definition ROUTE_REFRESH_REQUEST :: u8 where "ROUTE_REFRESH_REQUEST = 0"
definition ROUTE_REFRESH_BEGIN_RR :: u8 where "ROUTE_REFRESH_BEGIN_RR = 1"
definition ROUTE_REFRESH_END_RR :: u8 where "ROUTE_REFRESH_END_RR = 2"

definition CAPA_MP :: u8 where "CAPA_MP = 1"
definition CAPA_REFRESH :: u8 where "CAPA_REFRESH = 2"
definition CAPA_EXT_NEXTHOP :: u8 where "CAPA_EXT_NEXTHOP = 5"
definition CAPA_EXT_MSG :: u8 where "CAPA_EXT_MSG = 6"
definition CAPA_ROLE :: u8 where "CAPA_ROLE = 9"
definition CAPA_RESTART :: u8 where "CAPA_RESTART = 64"
definition CAPA_AS4BYTE :: u8 where "CAPA_AS4BYTE = 65"
definition CAPA_ADD_PATH :: u8 where "CAPA_ADD_PATH = 69"
definition CAPA_ENHANCED_RR :: u8 where "CAPA_ENHANCED_RR = 70"
definition CAPA_GR_TIMEMASK :: u16 where "CAPA_GR_TIMEMASK = 0x0fff"
definition CAPA_GR_R_FLAG :: u16 where "CAPA_GR_R_FLAG = 0x8000"
definition CAPA_GR_N_FLAG :: u16 where "CAPA_GR_N_FLAG = 0x4000"
definition CAPA_GR_F_FLAG :: u8 where "CAPA_GR_F_FLAG = 0x80"
definition CAPA_AP_RECV :: u8 where "CAPA_AP_RECV = 0x01"
definition CAPA_AP_SEND :: u8 where "CAPA_AP_SEND = 0x02"
definition CAPA_AP_BIDIR :: u8 where "CAPA_AP_BIDIR = 0x03"
definition CAPA_AP_MASK :: u8 where "CAPA_AP_MASK = 0x0f"
definition CAPA_AP_RECV_ENFORCE :: u8 where "CAPA_AP_RECV_ENFORCE = 0x10"
definition CAPA_AP_SEND_ENFORCE :: u8 where "CAPA_AP_SEND_ENFORCE = 0x20"
definition OPT_PARAM_CAPABILITIES :: u8 where "OPT_PARAM_CAPABILITIES = 2"
definition OPT_PARAM_EXT_LEN :: u8 where "OPT_PARAM_EXT_LEN = 255"

definition AID_INET :: nat where "AID_INET = 1"
definition AID_INET6 :: nat where "AID_INET6 = 2"
definition AID_VPN_IPv4 :: nat where "AID_VPN_IPv4 = 3"
definition AFI_IPv6 :: u16 where "AFI_IPv6 = 2"

section \<open>Address families\<close>

definition aid_vals :: "(u16 \<times> u8) list" where
  "aid_vals = [(0, 0), (1, 1), (2, 1), (1, 128), (2, 128), (1, 133), (2, 133), (25, 70)]"

definition aid2afi :: "nat \<Rightarrow> (u16 \<times> u8) option" where
  "aid2afi i = (if i \<noteq> AID_UNSPEC \<and> i < AID_MAX then Some (aid_vals ! i) else None)"

definition afi2aid :: "u16 \<Rightarrow> u8 \<Rightarrow> nat option" where
  "afi2aid afi safi = List.find (\<lambda>i. aid_vals ! i = (afi, safi)) [AID_MIN..<AID_MAX]"

section \<open>Building messages\<close>

definition marker :: bytes where "marker = replicate 16 0xff"

text \<open>
  The error counts of the source only tell whether any addition failed, in which case the buffer
  is thrown away; the model stops at the first failure.
\<close>

definition session_newmsg :: "session_env \<Rightarrow> u8 \<Rightarrow> nat \<Rightarrow> ibuf res" where
  "session_newmsg e msgtype len =
     res_bind (ibuf_open (e_ca e) len) (\<lambda>b.
     res_bind (ibuf_add (e_ca e) b marker) (\<lambda>b.
     res_bind (ibuf_add_n16 (e_ca e) b (of_nat len)) (\<lambda>b. ibuf_add_n8 (e_ca e) b (ucast msgtype))))"

definition session_sendmsg :: "ibuf \<Rightarrow> peer \<Rightarrow> peer res" where
  "session_sendmsg b p = Inr (p\<lparr>wqueue := wqueue p @ [ibuf_content b]\<rparr>)"

text \<open>A message that was built is queued and the rest of the steps follow; otherwise EVNT_CON_FATAL.\<close>

definition send_or_fail :: "session_env \<Rightarrow> ibuf res \<Rightarrow> (peer \<Rightarrow> peer res) \<Rightarrow> peer \<Rightarrow> peer res" where
  "send_or_fail e r k p = (case r of Inl _ \<Rightarrow> fsm_fatal e p | Inr b \<Rightarrow> res_bind (session_sendmsg b p) k)"

definition stat :: "(peer_stats \<Rightarrow> peer_stats) \<Rightarrow> peer \<Rightarrow> peer res" where
  "stat f = upd (\<lambda>p. p\<lparr>p_stats := f (p_stats p)\<rparr>)"

definition session_keepalive :: "session_env \<Rightarrow> peer \<Rightarrow> peer res" where
  "session_keepalive e =
     send_or_fail e (session_newmsg e BGP_KEEPALIVE MSGSIZE_KEEPALIVE)
       (do_all [start_timer_keepalive e, stat (\<lambda>s. s\<lparr>msg_sent_keepalive := msg_sent_keepalive s + 1\<rparr>)])"

definition session_update :: "session_env \<Rightarrow> bytes \<Rightarrow> peer \<Rightarrow> peer res" where
  "session_update e data p =
     (let maxsize = (if cap_ext_msg (capa_neg p) \<noteq> 0 then MAX_EXT_PKTSIZE else MAX_PKTSIZE); len = length data in
      if state p \<noteq> STATE_ESTABLISHED then Inr p
      else if len < MSGSIZE_UPDATE_MIN - MSGSIZE_HEADER \<or> len > maxsize - MSGSIZE_HEADER then Inr p
      else send_or_fail e
        (res_bind (session_newmsg e BGP_UPDATE (MSGSIZE_HEADER + len)) (\<lambda>b. ibuf_add (e_ca e) b data))
        (do_all [start_timer_keepalive e, stat (\<lambda>s. s\<lparr>msg_sent_update := msg_sent_update s + 1\<rparr>)]) p)"

definition session_req_hard_reset :: "u8 \<Rightarrow> u8 \<Rightarrow> bool" where
  "session_req_hard_reset errcode subcode =
     (if errcode = ERR_HOLDTIMEREXPIRED \<or> errcode = ERR_SENDHOLDTIMEREXPIRED then False
      else if errcode = ERR_CEASE \<and> (subcode = ERR_CEASE_CONN_REJECT \<or> subcode = ERR_CEASE_OTHER_CHANGE \<or>
        subcode = ERR_CEASE_COLLISION \<or> subcode = ERR_CEASE_RSRC_EXHAUST) then False
      else True)"

text \<open>The data of a notification is cut to the size of a message.\<close>

definition session_notification :: "session_env \<Rightarrow> u8 \<Rightarrow> u8 \<Rightarrow> bytes option \<Rightarrow> peer \<Rightarrow> peer res" where
  "session_notification e errcode subcode data p =
     (if \<not> session_open_state (state p) then Inr p
      else
        let hard = (gr_notification (capa_neg p) \<noteq> 0 \<and> session_req_hard_reset errcode subcode);
            hl = (if hard then 2 else 0 :: nat);
            d = (case data of None \<Rightarrow> [] | Some d \<Rightarrow> take (MAX_PKTSIZE - MSGSIZE_NOTIFICATION_MIN - hl) d);
            b = res_bind (session_newmsg e BGP_NOTIFICATION (MSGSIZE_NOTIFICATION_MIN + hl + length d)) (\<lambda>b.
              res_bind (if hard then res_bind (ibuf_add_n8 (e_ca e) b (ucast ERR_CEASE))
                                       (\<lambda>b. ibuf_add_n8 (e_ca e) b (ucast ERR_CEASE_HARD_RESET)) else Inr b) (\<lambda>b.
              res_bind (ibuf_add_n8 (e_ca e) b (ucast errcode)) (\<lambda>b.
              res_bind (ibuf_add_n8 (e_ca e) b (ucast subcode)) (\<lambda>b. ibuf_add (e_ca e) b d))))
        in send_or_fail e b
          (stat (\<lambda>s. s\<lparr>msg_sent_notification := msg_sent_notification s + 1, last_sent_errcode := errcode,
                       last_sent_suberr := subcode\<rparr>)) p)"

definition session_rrefresh :: "session_env \<Rightarrow> nat \<Rightarrow> u8 \<Rightarrow> peer \<Rightarrow> peer res" where
  "session_rrefresh e a subtype p =
     (let send = (\<lambda>p. case aid2afi a of None \<Rightarrow> Inl Fatal | Some (afi, safi) \<Rightarrow>
            send_or_fail e (res_bind (session_newmsg e BGP_RREFRESH MSGSIZE_RREFRESH) (\<lambda>b.
                res_bind (ibuf_add_n16 (e_ca e) b (ucast afi)) (\<lambda>b.
                res_bind (ibuf_add_n8 (e_ca e) b (ucast subtype)) (\<lambda>b. ibuf_add_n8 (e_ca e) b (ucast safi)))))
              (stat (\<lambda>s. s\<lparr>msg_sent_rrefresh := msg_sent_rrefresh s + 1\<rparr>)) p)
      in if subtype = ROUTE_REFRESH_REQUEST then
           do_all [stat (\<lambda>s. s\<lparr>refresh_sent_req := refresh_sent_req s + 1\<rparr>), send] p
         else if subtype = ROUTE_REFRESH_BEGIN_RR \<or> subtype = ROUTE_REFRESH_END_RR then
           (if cap_enhanced_rr (capa_neg p) = 0 then Inr p
            else do_all [stat (\<lambda>s. if subtype = ROUTE_REFRESH_BEGIN_RR then s\<lparr>refresh_sent_borr := refresh_sent_borr s + 1\<rparr>
                                   else s\<lparr>refresh_sent_eorr := refresh_sent_eorr s + 1\<rparr>), send] p)
         else Inl Fatal)"

text \<open>The second component is False for the return value -1.\<close>

definition session_neighbor_rrefresh :: "session_env \<Rightarrow> peer \<Rightarrow> (peer \<times> bool) res" where
  "session_neighbor_rrefresh e p =
     (if cap_refresh (capa_neg p) = 0 \<and> cap_enhanced_rr (capa_neg p) = 0 then Inr (p, False)
      else res_bind (do_all (map (\<lambda>i p. if cap_mp (capa_neg p) i \<noteq> 0 then session_rrefresh e i ROUTE_REFRESH_REQUEST p else Inr p)
              [AID_MIN..<AID_MAX]) p) (\<lambda>p. Inr (p, True)))"

section \<open>The OPEN message\<close>

definition role2capa :: "role \<Rightarrow> u8 res" where
  "role2capa r = (case r of ROLE_CUSTOMER \<Rightarrow> Inr 3 | ROLE_PROVIDER \<Rightarrow> Inr 0 | ROLE_RS \<Rightarrow> Inr 1
     | ROLE_RS_CLIENT \<Rightarrow> Inr 2 | ROLE_PEER \<Rightarrow> Inr 4 | ROLE_NONE \<Rightarrow> Inl Fatal)"

definition capa2role :: "u8 \<Rightarrow> role" where
  "capa2role v = (if v = 0 then ROLE_PROVIDER else if v = 1 then ROLE_RS else if v = 2 then ROLE_RS_CLIENT
     else if v = 3 then ROLE_CUSTOMER else if v = 4 then ROLE_PEER else ROLE_NONE)"

text \<open>The additions of each function, in order; without an address family there are none.\<close>

definition capa_ops :: "session_env \<Rightarrow> u8 \<Rightarrow> u8 \<Rightarrow> (ibuf \<Rightarrow> ibuf res) list" where
  "capa_ops e capa_code capa_len =
     [\<lambda>b. ibuf_add_n8 (e_ca e) b (ucast capa_code), \<lambda>b. ibuf_add_n8 (e_ca e) b (ucast capa_len)]"

definition mp_ops :: "session_env \<Rightarrow> nat \<Rightarrow> (ibuf \<Rightarrow> ibuf res) list option" where
  "mp_ops e i = map_option (\<lambda>(afi, safi).
     [\<lambda>b. ibuf_add_n16 (e_ca e) b (ucast afi), \<lambda>b. ibuf_add_zero (e_ca e) b 1, \<lambda>b. ibuf_add_n8 (e_ca e) b (ucast safi)])
     (aid2afi i)"

definition afi_ops :: "session_env \<Rightarrow> nat \<Rightarrow> u8 \<Rightarrow> (ibuf \<Rightarrow> ibuf res) list option" where
  "afi_ops e i flags = map_option (\<lambda>(afi, safi).
     [\<lambda>b. ibuf_add_n16 (e_ca e) b (ucast afi), \<lambda>b. ibuf_add_n8 (e_ca e) b (ucast safi), \<lambda>b. ibuf_add_n8 (e_ca e) b (ucast flags)])
     (aid2afi i)"

definition ext_nh_ops :: "session_env \<Rightarrow> nat \<Rightarrow> (ibuf \<Rightarrow> ibuf res) list option" where
  "ext_nh_ops e i = map_option (\<lambda>(afi, safi).
     [\<lambda>b. ibuf_add_n16 (e_ca e) b (ucast afi), \<lambda>b. ibuf_add_n16 (e_ca e) b (ucast safi), \<lambda>b. ibuf_add_n16 (e_ca e) b (ucast AFI_IPv6)])
     (aid2afi i)"

definition run_ops :: "(ibuf \<Rightarrow> ibuf res) list option \<Rightarrow> ibuf \<Rightarrow> ibuf res" where
  "run_ops ops b = (case ops of None \<Rightarrow> Inl EINVAL | Some fs \<Rightarrow> do_all fs b)"

definition session_capa_add :: "session_env \<Rightarrow> u8 \<Rightarrow> u8 \<Rightarrow> ibuf \<Rightarrow> ibuf res" where
  "session_capa_add e capa_code capa_len = do_all (capa_ops e capa_code capa_len)"

definition session_capa_add_mp :: "session_env \<Rightarrow> nat \<Rightarrow> ibuf \<Rightarrow> ibuf res" where
  "session_capa_add_mp e i = run_ops (mp_ops e i)"

definition session_capa_add_afi :: "session_env \<Rightarrow> nat \<Rightarrow> u8 \<Rightarrow> ibuf \<Rightarrow> ibuf res" where
  "session_capa_add_afi e i flags = run_ops (afi_ops e i flags)"

definition session_capa_add_ext_nh :: "session_env \<Rightarrow> nat \<Rightarrow> ibuf \<Rightarrow> ibuf res" where
  "session_capa_add_ext_nh e i = run_ops (ext_nh_ops e i)"

text \<open>The steps that write the capabilities of an OPEN message, in the order of the source.\<close>

definition steps_if :: "bool \<Rightarrow> (ibuf \<Rightarrow> ibuf res) list \<Rightarrow> (ibuf \<Rightarrow> ibuf res) list" where
  "steps_if c fs = (if c then fs else [])"

definition mp_aids :: "peer \<Rightarrow> nat list" where
  "mp_aids p = filter (\<lambda>i. cap_mp (capa_ann p) i \<noteq> 0) [AID_MIN..<AID_MAX]"

definition open_capas :: "session_env \<Rightarrow> peer \<Rightarrow> (ibuf \<Rightarrow> ibuf res) list" where
  "open_capas e p =
     (let a = capa_ann p; mpcapa = length (mp_aids p);
          v4 = cap_mp a AID_INET \<noteq> 0; vpn4 = cap_mp a AID_VPN_IPv4 \<noteq> 0;
          rst = list_ex (\<lambda>i. gr_flags (capa_neg p) i AND CAPA_GR_RESTARTING \<noteq> 0) [AID_MIN..<AID_MAX];
          hdr = (if rst then 0 else CAPA_GR_R_FLAG) OR (if gr_notification a \<noteq> 0 then CAPA_GR_N_FLAG else 0)
      in concat (map (\<lambda>i. [session_capa_add e CAPA_MP 4, session_capa_add_mp e i]) (mp_aids p)) @
         steps_if (cap_refresh a \<noteq> 0) [session_capa_add e CAPA_REFRESH 0] @
         steps_if (cap_ext_nh a AID_INET \<noteq> 0)
           ([session_capa_add e CAPA_EXT_NEXTHOP ((if v4 then 6 else 0) + (if vpn4 then 6 else 0))] @
            steps_if v4 [session_capa_add_ext_nh e AID_INET] @ steps_if vpn4 [session_capa_add_ext_nh e AID_VPN_IPv4]) @
         steps_if (cap_ext_msg a \<noteq> 0) [session_capa_add e CAPA_EXT_MSG 0] @
         steps_if (pc_ebgp (p_conf p) \<and> cap_policy a \<noteq> 0 \<and> pc_role (p_conf p) \<noteq> ROLE_NONE \<and>
               (v4 \<or> cap_mp a AID_INET6 \<noteq> 0 \<or> mpcapa = 0))
           [session_capa_add e CAPA_ROLE 1,
            \<lambda>b. res_bind (role2capa (pc_role (p_conf p))) (\<lambda>r. ibuf_add_n8 (e_ca e) b (ucast r))] @
         steps_if (gr_restart a \<noteq> 0) [session_capa_add e CAPA_RESTART 2, \<lambda>b. ibuf_add_n16 (e_ca e) b (ucast hdr)] @
         steps_if (cap_as4byte a \<noteq> 0) [session_capa_add e CAPA_AS4BYTE 4, \<lambda>b. ibuf_add_n32 (e_ca e) b (ucast (pc_local_as (p_conf p)))] @
         steps_if (cap_add_path a AID_MIN \<noteq> 0)
           ([session_capa_add e CAPA_ADD_PATH (if mpcapa \<noteq> 0 then of_nat (4 * mpcapa) else 4)] @
            (if mpcapa \<noteq> 0 then map (\<lambda>i. session_capa_add_afi e i (cap_add_path a i AND CAPA_AP_MASK)) (mp_aids p)
             else [session_capa_add_afi e AID_INET (cap_add_path a AID_INET AND CAPA_AP_MASK)])) @
         steps_if (cap_enhanced_rr a \<noteq> 0) [session_capa_add e CAPA_ENHANCED_RR 0])"

definition open_msg :: "session_env \<Rightarrow> peer \<Rightarrow> ibuf res" where
  "open_msg e p =
     res_bind (ibuf_dynamic (e_ca e) 0 (MAX_PKTSIZE - MSGSIZE_OPEN_MIN - 6)) (\<lambda>opb0.
     res_bind (do_all (open_capas e p) opb0) (\<lambda>opb.
       let opl = ibuf_size opb; extlen = (opl \<noteq> 0 \<and> opl + 2 \<ge> 255);
           optparamlen = (if opl = 0 then 0 else if extlen then 255 else opl + 2);
           len = MSGSIZE_OPEN_MIN + opl + (if opl = 0 then 0 else if extlen then 6 else 2);
           add8 = (\<lambda>v b. ibuf_add_n8 (e_ca e) b v); add16 = (\<lambda>v b. ibuf_add_n16 (e_ca e) b v)
       in res_bind (session_newmsg e BGP_OPEN len) (do_all
            ([add8 4, add16 (ucast (pc_local_short_as (p_conf p))), add16 (ucast (pc_holdtime (p_conf p))),
              \<lambda>b. ibuf_add_n32 (e_ca e) b (ucast (p_local_bgpid p)), add8 (of_nat optparamlen)] @
             steps_if extlen [add8 (ucast OPT_PARAM_EXT_LEN), add16 (of_nat (opl + 1 + 2))] @
             steps_if (optparamlen \<noteq> 0)
               [add8 (ucast OPT_PARAM_CAPABILITIES), (if extlen then add16 (of_nat opl) else add8 (of_nat opl)),
                \<lambda>b. ibuf_add_ibuf (e_ca e) b opb]))))"

definition session_open :: "session_env \<Rightarrow> peer \<Rightarrow> peer res" where
  "session_open e p = send_or_fail e (open_msg e p) (stat (\<lambda>s. s\<lparr>msg_sent_open := msg_sent_open s + 1\<rparr>)) p"

end
