(* ===== verification/Addr.thy ===== *)
theory Addr
  imports BGP_Prelude
begin

text \<open>
  Network addresses: struct bgpd_addr, the masking and comparison functions of usr.sbin/bgpd/util.c
  and the bit functions of rde_trie.c. An IPv4 address is the 32-bit value in host order (the
  htonl and ntohl pairs of the source cancel out), an IPv6 address the 128-bit value whose big-endian
  bytes are the array s6_addr. The members of the address union are separate fields here; every
  function reads the one that belongs to the address family. The interface addr_family gives the
  view the tries use: an address is the list of its bits, the most significant first.
\<close>

section \<open>Addresses\<close>

type_synonym in_addr = u32
type_synonym in6_addr = "128 word"

definition AID_UNSPEC :: u8 where "AID_UNSPEC = 0"
definition AID_INET :: u8 where "AID_INET = 1"
definition AID_INET6 :: u8 where "AID_INET6 = 2"
definition AID_VPN_IPv4 :: u8 where "AID_VPN_IPv4 = 3"
definition AID_VPN_IPv6 :: u8 where "AID_VPN_IPv6 = 4"
definition AID_FLOWSPECv4 :: u8 where "AID_FLOWSPECv4 = 5"
definition AID_FLOWSPECv6 :: u8 where "AID_FLOWSPECv6 = 6"
definition AID_EVPN :: u8 where "AID_EVPN = 7"
definition AID_MAX :: u8 where "AID_MAX = 8"

lemmas aids [simp] = AID_UNSPEC_def AID_INET_def AID_INET6_def AID_VPN_IPv4_def AID_VPN_IPv6_def
  AID_FLOWSPECv4_def AID_FLOWSPECv6_def AID_EVPN_def AID_MAX_def

record bgpd_addr =
  v4 :: in_addr
  v6 :: in6_addr
  rd8 :: u64
  scope_id :: u32
  aid :: u8
  labelstack :: bytes

abbreviation s6_addr :: "in6_addr \<Rightarrow> bytes" where
  "s6_addr a \<equiv> be_word 16 a"

section \<open>Masking\<close>

definition prefixlen2mask :: "nat \<Rightarrow> u32" where
  "prefixlen2mask prefixlen = (if prefixlen = 0 then 0 else push_bit (32 - prefixlen) 0xffffffff)"

definition inet4applymask :: "in_addr \<Rightarrow> nat \<Rightarrow> in_addr" where
  "inet4applymask src prefixlen = src AND prefixlen2mask prefixlen"

text \<open>The bytes of the mask inet6applymask() builds.\<close>

definition inet6maskbyte :: "nat \<Rightarrow> nat \<Rightarrow> u8" where
  "inet6maskbyte prefixlen i =
     (if i < prefixlen div 8 then 0xff
      else if i = prefixlen div 8 \<and> prefixlen mod 8 \<noteq> 0
      then ucast (drop_bit (prefixlen mod 8) (0xff00 :: u32)) else 0)"

definition inet6applymask :: "in6_addr \<Rightarrow> nat \<Rightarrow> in6_addr" where
  "inet6applymask src prefixlen =
     word_be (map (\<lambda>i. s6_addr src ! i AND inet6maskbyte prefixlen i) [0..<16])"

definition applymask :: "bgpd_addr \<Rightarrow> nat \<Rightarrow> bgpd_addr" where
  "applymask src prefixlen =
     (if aid src = AID_INET \<or> aid src = AID_VPN_IPv4
      then src\<lparr>v4 := inet4applymask (v4 src) prefixlen\<rparr>
      else if aid src = AID_INET6 \<or> aid src = AID_VPN_IPv6
      then src\<lparr>v6 := inet6applymask (v6 src) prefixlen\<rparr>
      else src)"

section \<open>Bits\<close>

definition inet4findmsb :: "in_addr \<Rightarrow> in_addr \<Rightarrow> nat" where
  "inet4findmsb a b =
     (let v = a XOR b; r = 0;
          (r, v) = (if v > 0xffff then (r + 16, drop_bit 16 v) else (r, v));
          (r, v) = (if v > 0x00ff then (r + 8, drop_bit 8 v) else (r, v));
          (r, v) = (if v > 0x000f then (r + 4, drop_bit 4 v) else (r, v));
          (r, v) = (if v > 0x0003 then (r + 2, drop_bit 2 v) else (r, v));
          r = (if v > 0x0001 then r + 1 else r)
      in 31 - r)"

text \<open>The index of the first octet that differs.\<close>

fun first_diff :: "bytes \<Rightarrow> bytes \<Rightarrow> nat" where
  "first_diff (a # as) (b # bs) = (if a = b then Suc (first_diff as bs) else 0)"
| "first_diff _ _ = 0"

definition inet6findmsb :: "in6_addr \<Rightarrow> in6_addr \<Rightarrow> nat" where
  "inet6findmsb a b =
     (let i = first_diff (s6_addr a) (s6_addr b);
          x = (s6_addr a ! i) XOR (s6_addr b ! i); r = 0;
          (r, x) = (if x > 0xf then (r + 4, drop_bit 4 x) else (r, x));
          (r, x) = (if x > 0x3 then (r + 2, drop_bit 2 x) else (r, x));
          r = (if x > 0x1 then r + 1 else r)
      in i * 8 + 7 - r)"

definition inet4isset :: "in_addr \<Rightarrow> nat \<Rightarrow> bool" where
  "inet4isset addr i = (addr AND push_bit (31 - i) 1 \<noteq> 0)"

definition inet6isset :: "in6_addr \<Rightarrow> nat \<Rightarrow> bool" where
  "inet6isset addr i = ((s6_addr addr ! (i div 8)) AND drop_bit (i mod 8) 0x80 \<noteq> 0)"

definition inet4setbit :: "in_addr \<Rightarrow> nat \<Rightarrow> in_addr" where
  "inet4setbit addr i = addr OR push_bit (31 - i) 1"

definition inet6setbit :: "in6_addr \<Rightarrow> nat \<Rightarrow> in6_addr" where
  "inet6setbit addr i =
     word_be ((s6_addr addr)[i div 8 := (s6_addr addr ! (i div 8)) OR drop_bit (i mod 8) 0x80])"

section \<open>Comparing prefixes\<close>

text \<open>The whole octets of an IPv6 comparison, then the bits of the last one.\<close>

fun octets_compare :: "bytes \<Rightarrow> bytes \<Rightarrow> nat \<Rightarrow> int" where
  "octets_compare (a # as) (b # bs) (Suc n) =
     (if a \<noteq> b then uint a - uint b else octets_compare as bs n)"
| "octets_compare _ _ _ = 0"

definition inet6compare :: "in6_addr \<Rightarrow> in6_addr \<Rightarrow> nat \<Rightarrow> int" where
  "inet6compare a b prefixlen =
     (let c = octets_compare (s6_addr a) (s6_addr b) (prefixlen div 8) in
      if c \<noteq> 0 then c
      else if prefixlen mod 8 = 0 then 0
      else let m = ucast (drop_bit (prefixlen mod 8) (0xff00 :: u32)) :: u8;
               aa = (s6_addr a ! (prefixlen div 8)) AND m; ba = (s6_addr b ! (prefixlen div 8)) AND m
           in if aa \<noteq> ba then uint aa - uint ba else 0)"

definition labels_compare :: "bytes \<Rightarrow> bytes \<Rightarrow> int" where
  "labels_compare a b =
     (if length a > length b then 1 else if length a < length b then -1 else memcmp a b)"

definition prefix_compare :: "bgpd_addr \<Rightarrow> bgpd_addr \<Rightarrow> nat \<Rightarrow> int" where
  "prefix_compare a b prefixlen =
     (if aid a \<noteq> aid b then uint (aid a) - uint (aid b)
      else let vpn = (aid a = AID_VPN_IPv4 \<or> aid a = AID_VPN_IPv6) in
        if vpn \<and> rd8 a > rd8 b then 1
        else if vpn \<and> rd8 a < rd8 b then -1
        else if aid a = AID_VPN_IPv4 \<or> aid a = AID_INET then
          (if prefixlen = 0 then 0
           else if prefixlen > 32 then -1
           else let m = prefixlen2mask prefixlen; aa = v4 a AND m; ba = v4 b AND m in
             if aa > ba then 1 else if aa < ba then -1
             else if vpn then labels_compare (labelstack a) (labelstack b) else 0)
        else if aid a = AID_VPN_IPv6 \<or> aid a = AID_INET6 then
          (if prefixlen = 0 then 0
           else if prefixlen > 128 then -1
           else let c = inet6compare (v6 a) (v6 b) prefixlen in
             if c \<noteq> 0 then c
             else if vpn then labels_compare (labelstack a) (labelstack b) else 0)
        else -1)"

section \<open>Addresses as lists of bits\<close>

definition msb_bits :: "nat \<Rightarrow> 'a::len word \<Rightarrow> bool list" where
  "msb_bits n a = map (\<lambda>i. bit a (n - 1 - i)) [0..<n]"

lemma length_msb_bits [simp]: "length (msb_bits n a) = n"
  by (simp add: msb_bits_def)

lemma nth_msb_bits [simp]: "i < n \<Longrightarrow> msb_bits n a ! i = bit a (n - 1 - i)"
  by (simp add: msb_bits_def)

lemma msb_bits_inject:
  assumes "LENGTH('a) = n"
  shows "msb_bits n a = msb_bits n b \<longleftrightarrow> a = (b :: 'a::len word)"
proof
  assume eq: "msb_bits n a = msb_bits n b"
  show "a = b"
  proof (rule bit_word_eqI)
    fix k assume "k < LENGTH('a)"
    then have "n - 1 - k < n" and "n - 1 - (n - 1 - k) = k" using assms by auto
    then show "bit a k = bit b k" using eq by (metis nth_msb_bits)
  qed
qed simp

text \<open>What the tries need of an address family of width w.\<close>

locale addr_family =
  fixes w :: nat
    and bits :: "'a \<Rightarrow> bool list"
    and applym :: "'a \<Rightarrow> nat \<Rightarrow> 'a"
    and findmsb :: "'a \<Rightarrow> 'a \<Rightarrow> nat"
    and isset :: "'a \<Rightarrow> nat \<Rightarrow> bool"
    and setbit :: "'a \<Rightarrow> nat \<Rightarrow> 'a"
    and zero :: 'a
  assumes length_bits [simp]: "length (bits a) = w"
    and bits_inject: "bits a = bits b \<longleftrightarrow> a = b"
    and bits_applym: "n \<le> w \<Longrightarrow> bits (applym a n) = take n (bits a) @ replicate (w - n) False"
    and isset_bits: "i < w \<Longrightarrow> isset a i = bits a ! i"
    and bits_setbit: "i < w \<Longrightarrow> bits (setbit a i) = (bits a)[i := True]"
    and bits_zero: "bits zero = replicate w False"
    and findmsb_less: "a \<noteq> b \<Longrightarrow> findmsb a b < w"
    and findmsb_differs: "a \<noteq> b \<Longrightarrow> bits a ! findmsb a b \<noteq> bits b ! findmsb a b"
    and findmsb_same: "a \<noteq> b \<Longrightarrow> take (findmsb a b) (bits a) = take (findmsb a b) (bits b)"
begin

lemma applym_eq_iff:
  "n \<le> w \<Longrightarrow> applym a n = applym b n \<longleftrightarrow> take n (bits a) = take n (bits b)"
  by (simp add: bits_inject[symmetric] bits_applym)

lemma applym_applym: "m \<le> n \<Longrightarrow> n \<le> w \<Longrightarrow> applym (applym a n) m = applym a m"
  by (simp add: bits_inject[symmetric] bits_applym min_absorb1)

lemma take_applym: "m \<le> n \<Longrightarrow> n \<le> w \<Longrightarrow> take m (bits (applym a n)) = take m (bits a)"
  by (simp add: bits_applym min_absorb1)

lemma isset_applym: "i < n \<Longrightarrow> n \<le> w \<Longrightarrow> isset (applym a n) i = isset a i"
  by (simp add: isset_bits bits_applym nth_append)

end

section \<open>IPv4\<close>

lemma bit_prefixlen2mask: "n \<le> 32 \<Longrightarrow> bit (prefixlen2mask n) k \<longleftrightarrow> 32 - n \<le> k \<and> k < 32"
proof -
  assume n: "n \<le> 32"
  have "(0xffffffff :: u32) = mask 32" by (simp add: mask_eq_exp_minus_1)
  then have b: "bit (0xffffffff :: u32) j \<longleftrightarrow> j < 32" for j
    by (simp only: bit_mask_iff possible_bit_word) simp
  have "bit (push_bit (32 - n) 0xffffffff :: u32) k \<longleftrightarrow> 32 - n \<le> k \<and> k < 32"
    by (simp only: bit_push_bit_iff b possible_bit_word) auto
  then show ?thesis using n by (cases "n = 0") (simp_all add: prefixlen2mask_def)
qed

lemma msb_bits_inet4applymask:
  "n \<le> 32 \<Longrightarrow> msb_bits 32 (inet4applymask a n) = take n (msb_bits 32 a) @ replicate (32 - n) False"
proof (rule nth_equalityI)
  fix i assume n: "n \<le> 32" and "i < length (msb_bits 32 (inet4applymask a n))"
  then have i: "i < 32" by simp
  have "bit (inet4applymask a n) (31 - i) \<longleftrightarrow> bit a (31 - i) \<and> i < n"
    using n i by (auto simp: inet4applymask_def bit_and_iff bit_prefixlen2mask)
  then show "msb_bits 32 (inet4applymask a n) ! i = (take n (msb_bits 32 a) @ replicate (32 - n) False) ! i"
    using n i by (auto simp: nth_append)
qed simp

lemma inet4isset_bits: "i < 32 \<Longrightarrow> inet4isset a i = msb_bits 32 a ! i"
  by (simp add: inet4isset_def and_exp_eq_0_iff_not_bit)

lemma msb_bits_inet4setbit: "i < 32 \<Longrightarrow> msb_bits 32 (inet4setbit a i) = (msb_bits 32 a)[i := True]"
proof (rule nth_equalityI)
  fix j assume i: "i < 32" and "j < length (msb_bits 32 (inet4setbit a i))"
  then have j: "j < 32" by simp
  then have "bit (inet4setbit a i) (31 - j) \<longleftrightarrow> bit a (31 - j) \<or> i = j"
    using i by (auto simp: inet4setbit_def bit_or_iff bit_exp_iff)
  then show "msb_bits 32 (inet4setbit a i) ! j = (msb_bits 32 a)[i := True] ! j"
    using i j by (auto simp: nth_list_update)
qed simp

text \<open>One halving step of the search for the highest bit that is set.\<close>

lemma msb_step:
  assumes "v = drop_bit r x" and "v \<noteq> 0" and "unat v < 2 ^ (2 * k)"
    and "(r', v') = (if unat v > 2 ^ k - 1 then (r + k, drop_bit k v) else (r, v))"
  shows "v' = drop_bit r' (x :: 'a::len word) \<and> v' \<noteq> 0 \<and> unat v' < 2 ^ k"
proof (cases "unat v > 2 ^ k - 1")
  case True
  have "2 ^ k \<le> unat v" using True by simp
  then have "unat v div 2 ^ k \<noteq> 0" by (simp add: div_eq_0_iff not_less)
  moreover have "unat v div 2 ^ k < 2 ^ k"
    using assms(3) by (intro less_mult_imp_div_less) (simp add: power_add[symmetric] mult_2)
  moreover have "unat (drop_bit k v) = unat v div 2 ^ k"
    unfolding unat_drop_bit_eq by (rule drop_bit_eq_div)
  ultimately have "unat (drop_bit k v) \<noteq> 0" and "unat (drop_bit k v) < 2 ^ k" by simp_all
  moreover from this have "drop_bit k v \<noteq> 0" by (metis unsigned_0)
  ultimately show ?thesis using True assms(1,4) by (simp add: add.commute)
next
  case False
  then have "unat v < 2 ^ k" by (metis Suc_pred' less_Suc_eq_le not_less zero_less_numeral zero_less_power)
  then show ?thesis using False assms by simp
qed

text \<open>A value of one bit is the highest bit of the word it was shifted out of.\<close>

lemma msb_found:
  assumes "v = drop_bit r (x :: 'a::len word)" and "v \<noteq> 0" and "unat v < 2 ^ 1"
  shows "bit x r \<and> (\<forall>j>r. \<not> bit x j)"
proof -
  have "unat v \<noteq> 0" using assms(2) by (simp add: unat_eq_0)
  then have "unat v = unat (1 :: 'a word)" using assms(3) by simp
  then have v: "v = 1" by (rule unsigned_word_eqI)
  have "bit v 0" by (simp add: v)
  then have "bit x r" by (simp add: assms(1) bit_drop_bit_eq)
  moreover have "\<not> bit x j" if "j > r" for j
  proof -
    have "\<not> bit v (j - r)" using that by (simp add: v bit_1_iff)
    then show ?thesis using that by (simp add: assms(1) bit_drop_bit_eq)
  qed
  ultimately show ?thesis by blast
qed

lemma xor_neq_0: "a \<noteq> b \<Longrightarrow> a XOR b \<noteq> (0 :: 'a::len word)"
  by (metis xor.assoc xor.left_neutral xor_self_eq xor.right_neutral)

lemma inet4findmsb_bit:
  assumes "a \<noteq> b"
  shows "\<exists>r. inet4findmsb a b = 31 - r \<and> r < 32 \<and> bit (a XOR b) r \<and> (\<forall>j>r. \<not> bit (a XOR b) j)"
proof -
  define v0 where "v0 = a XOR b"
  have nz: "v0 \<noteq> 0" using assms xor_neq_0 by (simp add: v0_def)
  obtain r1 :: nat and v1 where s1: "(r1, v1) = (if unat v0 > 2 ^ 16 - 1 then (0 + 16, drop_bit 16 v0) else (0, v0))"
    by (metis surj_pair)
  have i1: "v1 = drop_bit r1 v0 \<and> v1 \<noteq> 0 \<and> unat v1 < 2 ^ (2 * 8)"
    using msb_step[OF _ nz _ s1, of v0] unat_u32_less[of v0] by auto
  obtain r2 v2 where s2: "(r2, v2) = (if unat v1 > 2 ^ 8 - 1 then (r1 + 8, drop_bit 8 v1) else (r1, v1))"
    by (metis surj_pair)
  have i2: "v2 = drop_bit r2 v0 \<and> v2 \<noteq> 0 \<and> unat v2 < 2 ^ (2 * 4)"
    using msb_step[OF _ _ _ s2, of v0] i1 by auto
  obtain r3 v3 where s3: "(r3, v3) = (if unat v2 > 2 ^ 4 - 1 then (r2 + 4, drop_bit 4 v2) else (r2, v2))"
    by (metis surj_pair)
  have i3: "v3 = drop_bit r3 v0 \<and> v3 \<noteq> 0 \<and> unat v3 < 2 ^ (2 * 2)"
    using msb_step[OF _ _ _ s3, of v0] i2 by auto
  obtain r4 v4 where s4: "(r4, v4) = (if unat v3 > 2 ^ 2 - 1 then (r3 + 2, drop_bit 2 v3) else (r3, v3))"
    by (metis surj_pair)
  have i4: "v4 = drop_bit r4 v0 \<and> v4 \<noteq> 0 \<and> unat v4 < 2 ^ (2 * 1)"
    using msb_step[OF _ _ _ s4, of v0] i3 by auto
  obtain r5 v5 where s5: "(r5, v5) = (if unat v4 > 2 ^ 1 - 1 then (r4 + 1, drop_bit 1 v4) else (r4, v4))"
    by (metis surj_pair)
  have i5: "v5 = drop_bit r5 v0 \<and> v5 \<noteq> 0 \<and> unat v5 < 2 ^ 1"
    using msb_step[OF _ _ _ s5, of v0] i4 by auto
  have "inet4findmsb a b = 31 - r5"
    using s1[symmetric] s2[symmetric] s3[symmetric] s4[symmetric] s5[symmetric]
    by (simp add: inet4findmsb_def v0_def[symmetric] word_less_nat_alt Let_def split del: if_split)
       (auto split: if_splits)
  moreover have "bit v0 r5 \<and> (\<forall>j>r5. \<not> bit v0 j)" using i5 msb_found by blast
  moreover from this have "r5 < 32" using bit_imp_le_length by fastforce
  ultimately show ?thesis unfolding v0_def by blast
qed

text \<open>From the highest bit of the exclusive or to the first position where the bit lists differ.\<close>

lemma msb_bits_first_diff:
  assumes "r < n" and "bit (a XOR b) r" and "\<forall>j>r. \<not> bit (a XOR b) j"
  shows "msb_bits n a ! (n - 1 - r) \<noteq> msb_bits n (b :: 'a::len word) ! (n - 1 - r) \<and>
    take (n - 1 - r) (msb_bits n a) = take (n - 1 - r) (msb_bits n b)"
proof
  have "n - 1 - (n - 1 - r) = r" using assms(1) by simp
  then show "msb_bits n a ! (n - 1 - r) \<noteq> msb_bits n b ! (n - 1 - r)"
    using assms(1,2) by (simp add: bit_xor_iff)
  show "take (n - 1 - r) (msb_bits n a) = take (n - 1 - r) (msb_bits n b)"
  proof (rule nth_equalityI)
    fix i assume "i < length (take (n - 1 - r) (msb_bits n a))"
    then have i: "i < n - 1 - r" by simp
    then have "n - 1 - i > r" by simp
    then show "take (n - 1 - r) (msb_bits n a) ! i = take (n - 1 - r) (msb_bits n b) ! i"
      using assms(3) i by (auto simp: bit_xor_iff)
  qed simp
qed

interpretation v4: addr_family 32 "msb_bits 32" inet4applymask inet4findmsb inet4isset inet4setbit "0 :: in_addr"
proof unfold_locales
  fix a b :: in_addr
  show "msb_bits 32 a = msb_bits 32 b \<longleftrightarrow> a = b" by (rule msb_bits_inject) simp
  show "msb_bits 32 (0 :: in_addr) = replicate 32 False" by (rule nth_equalityI) auto
  assume "a \<noteq> b"
  then obtain r where r: "inet4findmsb a b = 31 - r" "r < 32" "bit (a XOR b) r" "\<forall>j>r. \<not> bit (a XOR b) j"
    using inet4findmsb_bit by blast
  show "inet4findmsb a b < 32" using r by simp
  show "msb_bits 32 a ! inet4findmsb a b \<noteq> msb_bits 32 b ! inet4findmsb a b"
    "take (inet4findmsb a b) (msb_bits 32 a) = take (inet4findmsb a b) (msb_bits 32 b)"
    using msb_bits_first_diff[OF r(2-4)] r(1) by simp_all
qed (simp_all add: msb_bits_inet4applymask inet4isset_bits msb_bits_inet4setbit)

section \<open>IPv6\<close>

lemma be_nat_nth: "i < n \<Longrightarrow> be_nat n k ! i = of_nat (k div 256 ^ (n - 1 - i))"
proof (induction n arbitrary: k)
  case 0
  then show ?case by simp
next
  case (Suc n)
  show ?case
  proof (cases "i < n")
    case True
    then have "Suc (n - 1 - i) = n - i" by simp
    then have "k div 256 div 256 ^ (n - 1 - i) = k div 256 ^ (n - i)"
      by (metis div_mult2_eq power_Suc)
    then show ?thesis using Suc True by (simp add: nth_append)
  next
    case False
    then show ?thesis using Suc.prems by (simp add: nth_append less_Suc_eq)
  qed
qed

lemma bit_be_word_nth:
  "i < n \<Longrightarrow> j < 8 \<Longrightarrow> bit (be_word n (a :: 'a::len word) ! i) j = bit a (8 * (n - 1 - i) + j)"
proof -
  assume i: "i < n" and j: "j < 8"
  have "(256 :: nat) ^ (n - 1 - i) = 2 ^ (8 * (n - 1 - i))" by (simp add: power_mult)
  then have "be_word n a ! i = of_nat (drop_bit (8 * (n - 1 - i)) (unat a))"
    using i by (simp add: be_word_def be_nat_nth drop_bit_eq_div)
  moreover have "bit (of_nat x :: u8) j \<longleftrightarrow> bit x j" for x :: nat
  proof -
    have "bit (unat (of_nat x :: u8)) j \<longleftrightarrow> bit x j"
      using j by (simp only: unsigned_of_nat of_nat_id bit_take_bit_iff) simp
    then show ?thesis by (simp only: bit_unsigned_iff) simp
  qed
  ultimately show ?thesis by (simp add: bit_drop_bit_eq bit_unsigned_iff)
qed

text \<open>Bit k of an address is a bit of the octet k div 8.\<close>

lemma msb_bits_s6: "k < 128 \<Longrightarrow> msb_bits 128 (a :: in6_addr) ! k = bit (s6_addr a ! (k div 8)) (7 - k mod 8)"
proof -
  assume k: "k < 128"
  have "k div 8 < 16" and "k mod 8 < 8" and "k = 8 * (k div 8) + k mod 8" using k by simp_all
  then have "8 * (16 - 1 - k div 8) + (7 - k mod 8) = 127 - k" by linarith
  then show ?thesis
    using k bit_be_word_nth[of "k div 8" 16 "7 - k mod 8" a] by simp
qed

lemma s6_addr_word_be: "length bs = 16 \<Longrightarrow> s6_addr (word_be bs :: in6_addr) = bs"
  by (rule be_word_word_be) simp_all

lemma bit_ff00: "bit (0xff00 :: u32) q \<longleftrightarrow> 8 \<le> q \<and> q < 16"
proof -
  have "(0xff00 :: u32) = push_bit 8 (mask 8)" by (simp add: mask_eq_exp_minus_1)
  then show ?thesis by (simp only: bit_push_bit_iff bit_mask_iff possible_bit_word) auto
qed

lemma bit_ff: "bit (0xff :: u8) q \<longleftrightarrow> q < 8"
proof -
  have "(0xff :: u8) = mask 8" by (simp add: mask_eq_exp_minus_1)
  then show ?thesis by (simp only: bit_mask_iff possible_bit_word) simp
qed

lemma bit_inet6maskbyte: "j < 8 \<Longrightarrow> bit (inet6maskbyte n i) (7 - j) \<longleftrightarrow> 8 * i + j < n"
proof -
  assume j: "j < 8"
  consider "i < n div 8" | "i = n div 8" | "i > n div 8" by linarith
  then show ?thesis
  proof cases
    case 1
    then have "8 * i + j < n" using j by linarith
    then show ?thesis using 1 by (simp add: inet6maskbyte_def bit_ff del: bit_numeral_word_iff)
  next
    case 2
    have n: "n = 8 * i + n mod 8" using 2 by simp
    have "bit (ucast (drop_bit (n mod 8) (0xff00 :: u32)) :: u8) (7 - j) \<longleftrightarrow> j < n mod 8"
      using j by (simp only: bit_ucast_iff bit_drop_bit_eq comp_def bit_ff00) auto
    moreover have "8 * i + j < n \<longleftrightarrow> j < n mod 8" by (subst (1) n) simp
    ultimately show ?thesis using 2 by (auto simp: inet6maskbyte_def)
  next
    case 3
    then have "\<not> 8 * i + j < n" by linarith
    then show ?thesis using 3 by (simp add: inet6maskbyte_def)
  qed
qed

lemma msb_bits_inet6applymask:
  "n \<le> 128 \<Longrightarrow> msb_bits 128 (inet6applymask a n) = take n (msb_bits 128 a) @ replicate (128 - n) False"
proof (rule nth_equalityI)
  fix k assume n: "n \<le> 128" and "k < length (msb_bits 128 (inet6applymask a n))"
  then have k: "k < 128" by simp
  then have d: "k div 8 < 16" and m: "k mod 8 < 8" and e: "8 * (k div 8) + k mod 8 = k" by auto
  have "s6_addr (inet6applymask a n) ! (k div 8) = s6_addr a ! (k div 8) AND inet6maskbyte n (k div 8)"
    unfolding inet6applymask_def using d by (simp add: s6_addr_word_be)
  then have "msb_bits 128 (inet6applymask a n) ! k \<longleftrightarrow> msb_bits 128 a ! k \<and> k < n"
    using k bit_inet6maskbyte[OF m, of n "k div 8"] e by (simp only: msb_bits_s6 bit_and_iff)
  then show "msb_bits 128 (inet6applymask a n) ! k = (take n (msb_bits 128 a) @ replicate (128 - n) False) ! k"
    using n k by (auto simp: nth_append)
qed simp

lemma drop_bit_0x80: "m < 8 \<Longrightarrow> drop_bit m (0x80 :: u8) = 2 ^ (7 - m)"
proof -
  assume "m < 8"
  then have "m = 0 \<or> m = 1 \<or> m = 2 \<or> m = 3 \<or> m = 4 \<or> m = 5 \<or> m = 6 \<or> m = 7" by linarith
  then show ?thesis by (elim disjE) simp_all
qed

lemma inet6isset_bits: "i < 128 \<Longrightarrow> inet6isset a i = msb_bits 128 a ! i"
  unfolding inet6isset_def msb_bits_s6 by (simp add: drop_bit_0x80 and_exp_eq_0_iff_not_bit)

lemma msb_bits_inet6setbit: "i < 128 \<Longrightarrow> msb_bits 128 (inet6setbit a i) = (msb_bits 128 a)[i := True]"
proof (rule nth_equalityI)
  fix k assume i: "i < 128" and "k < length (msb_bits 128 (inet6setbit a i))"
  then have k: "k < 128" by simp
  have s: "s6_addr (inet6setbit a i) =
      (s6_addr a)[i div 8 := (s6_addr a ! (i div 8)) OR 2 ^ (7 - i mod 8)]"
    unfolding inet6setbit_def by (simp add: s6_addr_word_be drop_bit_0x80)
  have "msb_bits 128 (inet6setbit a i) ! k \<longleftrightarrow> msb_bits 128 a ! k \<or> k = i"
  proof (cases "k div 8 = i div 8")
    case True
    have "k mod 8 < 8" "i mod 8 < 8" by simp_all
    then have "7 - k mod 8 = 7 - i mod 8 \<longleftrightarrow> k mod 8 = i mod 8" by linarith
    also have "\<dots> \<longleftrightarrow> k = i" using True by (metis div_mult_mod_eq)
    finally show ?thesis
      using True i k by (auto simp: msb_bits_s6 s bit_or_iff bit_exp_iff simp del: nth_msb_bits)
  next
    case False
    then show ?thesis using i k by (auto simp: msb_bits_s6 s simp del: nth_msb_bits)
  qed
  then show "msb_bits 128 (inet6setbit a i) ! k = (msb_bits 128 a)[i := True] ! k"
    using i k by (auto simp: nth_list_update)
qed simp

lemma first_diff_less:
  "length as = length bs \<Longrightarrow> as \<noteq> bs \<Longrightarrow> first_diff as bs < length as \<and>
     as ! first_diff as bs \<noteq> bs ! first_diff as bs \<and> take (first_diff as bs) as = take (first_diff as bs) bs"
  by (induction as bs rule: first_diff.induct) auto

lemma u8_findmsb_bit:
  assumes "x \<noteq> (0 :: u8)"
  shows "\<exists>r. (let r = 0;
          (r, x) = (if x > 0xf then (r + 4, drop_bit 4 x) else (r, x));
          (r, x) = (if x > 0x3 then (r + 2, drop_bit 2 x) else (r, x))
      in (if x > 0x1 then r + 1 else r)) = r \<and> r < 8 \<and> bit x r \<and> (\<forall>j>r. \<not> bit x j)"
proof -
  obtain r3 :: nat and v3 where s3: "(r3, v3) = (if unat x > 2 ^ 4 - 1 then (0 + 4, drop_bit 4 x) else (0, x))"
    by (metis surj_pair)
  have i3: "v3 = drop_bit r3 x \<and> v3 \<noteq> 0 \<and> unat v3 < 2 ^ (2 * 2)"
    using msb_step[OF _ assms _ s3, of x] unat_u8_less[of x] by auto
  obtain r4 v4 where s4: "(r4, v4) = (if unat v3 > 2 ^ 2 - 1 then (r3 + 2, drop_bit 2 v3) else (r3, v3))"
    by (metis surj_pair)
  have i4: "v4 = drop_bit r4 x \<and> v4 \<noteq> 0 \<and> unat v4 < 2 ^ (2 * 1)"
    using msb_step[OF _ _ _ s4, of x] i3 by auto
  obtain r5 v5 where s5: "(r5, v5) = (if unat v4 > 2 ^ 1 - 1 then (r4 + 1, drop_bit 1 v4) else (r4, v4))"
    by (metis surj_pair)
  have i5: "v5 = drop_bit r5 x \<and> v5 \<noteq> 0 \<and> unat v5 < 2 ^ 1"
    using msb_step[OF _ _ _ s5, of x] i4 by auto
  have b: "bit x r5 \<and> (\<forall>j>r5. \<not> bit x j)" using i5 msb_found by blast
  then have "r5 < 8" using bit_imp_le_length by fastforce
  then show ?thesis
    using s3[symmetric] s4[symmetric] s5[symmetric] b
    by (intro exI[of _ r5])
       (simp add: word_less_nat_alt Let_def split del: if_split, auto split: if_splits)
qed

lemma inet6findmsb_bits:
  assumes "a \<noteq> b"
  shows "inet6findmsb a b < 128 \<and> msb_bits 128 a ! inet6findmsb a b \<noteq> msb_bits 128 b ! inet6findmsb a b \<and>
    take (inet6findmsb a b) (msb_bits 128 a) = take (inet6findmsb a b) (msb_bits 128 b)"
proof -
  define i where "i = first_diff (s6_addr a) (s6_addr b)"
  have "s6_addr a \<noteq> s6_addr b" using assms word_be_be_word[of 16 a] word_be_be_word[of 16 b] by auto
  then have i: "i < 16" and d: "s6_addr a ! i \<noteq> s6_addr b ! i" and t: "take i (s6_addr a) = take i (s6_addr b)"
    using first_diff_less[of "s6_addr a" "s6_addr b"] by (simp_all add: i_def)
  obtain r where r: "r < 8" "bit (s6_addr a ! i XOR s6_addr b ! i) r"
      "\<forall>j>r. \<not> bit (s6_addr a ! i XOR s6_addr b ! i) j"
    and f: "inet6findmsb a b = i * 8 + 7 - r"
    using u8_findmsb_bit[OF xor_neq_0[OF d]] by (auto simp: inet6findmsb_def i_def[symmetric] Let_def)
  define k where "k = inet6findmsb a b"
  have ke: "k = i * 8 + (7 - r)" using f r(1) by (simp add: k_def)
  have s: "s < 8 \<Longrightarrow> (i * 8 + s) mod 8 = s" for s by simp
  have k: "k < 128" "k div 8 = i" using r(1) i by (simp_all add: ke)
  have "k mod 8 = 7 - r" unfolding ke by (rule s) simp
  then have k: "k < 128" "k div 8 = i" "7 - k mod 8 = r" using k r(1) by simp_all
  have "msb_bits 128 a ! k \<noteq> msb_bits 128 b ! k"
    using r(2) k by (simp add: msb_bits_s6 bit_xor_iff del: nth_msb_bits)
  moreover have "take k (msb_bits 128 a) = take k (msb_bits 128 b)"
  proof (rule nth_equalityI)
    fix q assume "q < length (take k (msb_bits 128 a))"
    then have q: "q < k" "q < 128" using k(1) by auto
    have "msb_bits 128 a ! q = msb_bits 128 b ! q"
    proof (cases "q div 8 < i")
      case True
      then have "s6_addr a ! (q div 8) = s6_addr b ! (q div 8)" using t by (metis nth_take)
      then show ?thesis using q by (simp add: msb_bits_s6 del: nth_msb_bits)
    next
      case False
      have qi: "q div 8 = i" using False q(1) k(2) div_le_mono[of q k 8] by simp
      then have "q = i * 8 + q mod 8" using div_mult_mod_eq[of q 8] by simp
      then have "q mod 8 < 7 - r" using q(1) ke by linarith
      then have "7 - q mod 8 > r" by linarith
      moreover note qi
      ultimately show ?thesis using r(3) q by (simp add: msb_bits_s6 bit_xor_iff del: nth_msb_bits)
    qed
    then show "take k (msb_bits 128 a) ! q = take k (msb_bits 128 b) ! q" using q by simp
  qed simp
  ultimately show ?thesis using k(1) unfolding k_def by blast
qed

interpretation v6: addr_family 128 "msb_bits 128" inet6applymask inet6findmsb inet6isset inet6setbit "0 :: in6_addr"
proof unfold_locales
  fix a b :: in6_addr
  show "msb_bits 128 a = msb_bits 128 b \<longleftrightarrow> a = b" by (rule msb_bits_inject) simp
  show "msb_bits 128 (0 :: in6_addr) = replicate 128 False" by (rule nth_equalityI) auto
  assume "a \<noteq> b"
  from inet6findmsb_bits[OF this]
  show "inet6findmsb a b < 128" "msb_bits 128 a ! inet6findmsb a b \<noteq> msb_bits 128 b ! inet6findmsb a b"
    "take (inet6findmsb a b) (msb_bits 128 a) = take (inet6findmsb a b) (msb_bits 128 b)" by blast+
qed (simp_all add: msb_bits_inet6applymask inet6isset_bits msb_bits_inet6setbit del: nth_msb_bits)

section \<open>Comparing prefixes is comparing bits\<close>

lemma octets_compare_eq_0:
  "n \<le> length as \<Longrightarrow> length as = length bs \<Longrightarrow> octets_compare as bs n = 0 \<longleftrightarrow> (\<forall>i<n. as ! i = bs ! i)"
proof (induction as bs n rule: octets_compare.induct)
  case (1 a as b bs n)
  then show ?case
    using unsigned_word_eqI[of a b] by (auto simp: less_Suc_eq_0_disj)
qed auto

lemma inet6applymask_eq_iff:
  "inet6applymask a n = inet6applymask b n \<longleftrightarrow>
     (\<forall>i<16. s6_addr a ! i AND inet6maskbyte n i = s6_addr b ! i AND inet6maskbyte n i)"
  unfolding inet6applymask_def by (subst word_be_eq_iff) auto

lemma and_ff [simp]: "(x :: u8) AND 0xff = x"
  by (rule bit_word_eqI) (simp add: bit_and_iff bit_ff del: bit_numeral_word_iff)

lemma inet6compare_eq_0:
  assumes "n \<le> 128"
  shows "inet6compare a b n = 0 \<longleftrightarrow> inet6applymask a n = inet6applymask b n"
proof -
  let ?m = "ucast (drop_bit (n mod 8) (0xff00 :: u32)) :: u8" and ?A = "s6_addr a" and ?B = "s6_addr b"
  have le: "n div 8 \<le> 16" using div_le_mono[OF assms, of 8] by simp
  have lt: "n div 8 < 16" if "n mod 8 \<noteq> 0"
  proof -
    have "n \<noteq> 128" using that by auto
    then show ?thesis using assms by (simp add: div_less_iff_less_mult)
  qed
  have "inet6compare a b n = 0 \<longleftrightarrow>
      (\<forall>i<n div 8. ?A ! i = ?B ! i) \<and> (n mod 8 \<noteq> 0 \<longrightarrow> ?A ! (n div 8) AND ?m = ?B ! (n div 8) AND ?m)"
    using octets_compare_eq_0[of "n div 8" ?A ?B] le
      unsigned_word_eqI[of "?A ! (n div 8) AND ?m" "?B ! (n div 8) AND ?m"]
    by (auto simp: inet6compare_def Let_def)
  also have "\<dots> \<longleftrightarrow> (\<forall>i<16. ?A ! i AND inet6maskbyte n i = ?B ! i AND inet6maskbyte n i)"
    using le lt by (auto simp: inet6maskbyte_def split: if_splits)
  finally show ?thesis by (simp add: inet6applymask_eq_iff)
qed



end
