(* ===== verification/Nlri.thy ===== *)
theory Nlri
  imports Addr Ibuf
begin

text \<open>
  Prefixes on the wire: the functions of usr.sbin/bgpd/util.c that read the NLRI of an UPDATE message
  and pt_writebuf() of rde_prefix.c, which writes it, for IPv4, IPv6, VPNv4, VPNv6, EVPN and flow
  specifications. What is read can be announced again and is read back as the same prefix.
\<close>

section \<open>Data\<close>

record evpn_addr =
  ev_v4 :: in_addr
  ev_v6 :: in6_addr
  ethtag :: u32
  mac :: bytes
  esi :: bytes
  ev_aid :: u8
  ev_type :: u8

text \<open>A prefix with its length; the EVPN part of the address union is a component of its own.\<close>

record nlri =
  nl_addr :: bgpd_addr
  nl_evpn :: evpn_addr
  nl_plen :: u8

definition addr0 :: bgpd_addr where
  "addr0 = \<lparr>v4 = 0, v6 = 0, rd8 = 0, scope_id = 0, aid = 0, labelstack = []\<rparr>"

definition ESI_ADDR_LEN :: nat where "ESI_ADDR_LEN = 10"
definition ETHER_ADDR_LEN :: nat where "ETHER_ADDR_LEN = 6"
definition EVPN_ROUTE_TYPE_2 :: u8 where "EVPN_ROUTE_TYPE_2 = 2"
definition EVPN_ROUTE_TYPE_3 :: u8 where "EVPN_ROUTE_TYPE_3 = 3"
definition BGP_MPLS_BOS :: u8 where "BGP_MPLS_BOS = 1"

text \<open>The size of labelstack[] in struct bgpd_addr.\<close>

definition LABELSTACK_SIZE :: nat where "LABELSTACK_SIZE = 18"

definition evpn0 :: evpn_addr where
  "evpn0 = \<lparr>ev_v4 = 0, ev_v6 = 0, ethtag = 0, mac = replicate ETHER_ADDR_LEN 0, esi = replicate ESI_ADDR_LEN 0,
     ev_aid = 0, ev_type = 0\<rparr>"

definition PREFIX_SIZE :: "nat \<Rightarrow> nat" where
  "PREFIX_SIZE x = (x + 7) div 8 + 1"

definition addrmask :: "u8 list" where
  "addrmask = [0x00, 0x80, 0xc0, 0xe0, 0xf0, 0xf8, 0xfc, 0xfe, 0xff]"

section \<open>Reading\<close>

fun extract_loop :: "nat \<Rightarrow> bytes \<Rightarrow> (bytes \<times> bytes) res" where
  "extract_loop pfxlen buf =
     (if pfxlen = 0 then Inr ([], buf)
      else case buf of
        [] \<Rightarrow> Inl EBADMSG
      | tmp # r \<Rightarrow>
          if pfxlen < 8 then Inr ([tmp AND addrmask ! pfxlen], r)
          else res_bind (extract_loop (pfxlen - 8) r) (\<lambda>(a, r'). Inr (tmp # a, r')))"

declare extract_loop.simps [simp del]

text \<open>The bytes are written over the start of a zeroed address of max bytes.\<close>

definition extract_prefix_buf :: "bytes \<Rightarrow> nat \<Rightarrow> nat \<Rightarrow> (bytes \<times> bytes) res" where
  "extract_prefix_buf buf pfxlen mx =
     (let plen = PREFIX_SIZE pfxlen - 1 in
      if length buf < plen \<or> mx < plen then Inl EBADMSG
      else res_bind (extract_loop pfxlen buf) (\<lambda>(a, r). Inr (a @ replicate (mx - length a) 0, r)))"

definition set_v4 :: "bytes \<Rightarrow> bgpd_addr \<Rightarrow> bgpd_addr" where
  "set_v4 d a = a\<lparr>v4 := word_be d\<rparr>"

definition set_v6 :: "bytes \<Rightarrow> bgpd_addr \<Rightarrow> bgpd_addr" where
  "set_v6 d a = a\<lparr>v6 := word_be d\<rparr>"

text \<open>The end of the functions below, for addresses of up to max bytes.\<close>

definition get_addr ::
  "nat \<Rightarrow> (bytes \<Rightarrow> bgpd_addr \<Rightarrow> bgpd_addr) \<Rightarrow> bgpd_addr \<Rightarrow> nat \<Rightarrow> bytes \<Rightarrow> (nlri \<times> bytes) res" where
  "get_addr mx setter prefix pfxlen buf =
     (if pfxlen > 8 * mx then Inl EBADMSG
      else res_bind (extract_prefix_buf buf pfxlen mx) (\<lambda>(d, r).
        Inr (\<lparr>nl_addr = setter d prefix, nl_evpn = evpn0, nl_plen = of_nat pfxlen\<rparr>, r)))"

definition nlri_get_prefix :: "bytes \<Rightarrow> (nlri \<times> bytes) res" where
  "nlri_get_prefix buf =
     res_bind (get_n8 buf) (\<lambda>(pfxlen, buf). get_addr 4 set_v4 (addr0\<lparr>aid := AID_INET\<rparr>) (unat pfxlen) buf)"

definition nlri_get_prefix6 :: "bytes \<Rightarrow> (nlri \<times> bytes) res" where
  "nlri_get_prefix6 buf =
     res_bind (get_n8 buf) (\<lambda>(pfxlen, buf). get_addr 16 set_v6 (addr0\<lparr>aid := AID_INET6\<rparr>) (unat pfxlen) buf)"

text \<open>The label stack: the labels, the bits left of the length and the rest of the buffer.\<close>

function label_loop :: "bool \<Rightarrow> nat \<Rightarrow> bytes \<Rightarrow> bytes \<Rightarrow> (bytes \<times> nat \<times> bytes) res" where
  "label_loop withdraw pfxlen labels buf =
     (if length labels + 3 > LABELSTACK_SIZE \<or> pfxlen < 3 * 8 then Inl EBADMSG
      else res_bind (get_bytes 3 buf) (\<lambda>(l, r).
        if withdraw then Inr (labels, pfxlen - 3 * 8, r)
        else if l ! 2 AND BGP_MPLS_BOS \<noteq> 0 then Inr (labels @ l, pfxlen - 3 * 8, r)
        else label_loop withdraw (pfxlen - 3 * 8) (labels @ l) r))"
  by pat_completeness auto

termination label_loop
  by (relation "measure (\<lambda>(w, n, l, b). n)") auto

declare label_loop.simps [simp del]

definition get_vpn ::
  "nat \<Rightarrow> (bytes \<Rightarrow> bgpd_addr \<Rightarrow> bgpd_addr) \<Rightarrow> u8 \<Rightarrow> bytes \<Rightarrow> bool \<Rightarrow> (nlri \<times> bytes) res" where
  "get_vpn mx setter fam buf withdraw =
     res_bind (get_n8 buf) (\<lambda>(pfxlen, buf).
     res_bind (label_loop withdraw (unat pfxlen) [] buf) (\<lambda>(labels, pfxlen, buf).
       if pfxlen < 8 * 8 then Inl EBADMSG
       else res_bind (get_n64 buf) (\<lambda>(rd, buf).
         get_addr mx setter (addr0\<lparr>aid := fam, labelstack := labels, rd8 := rd\<rparr>) (pfxlen - 8 * 8) buf)))"

definition nlri_get_vpn4 :: "bytes \<Rightarrow> bool \<Rightarrow> (nlri \<times> bytes) res" where
  "nlri_get_vpn4 = get_vpn 4 set_v4 AID_VPN_IPv4"

definition nlri_get_vpn6 :: "bytes \<Rightarrow> bool \<Rightarrow> (nlri \<times> bytes) res" where
  "nlri_get_vpn6 = get_vpn 16 set_v6 AID_VPN_IPv6"

text \<open>The destination of an EVPN route; only MAC/IP routes may have none.\<close>

definition get_evpn_dst :: "bool \<Rightarrow> u8 \<Rightarrow> evpn_addr \<Rightarrow> bytes \<Rightarrow> (evpn_addr \<times> bytes) res" where
  "get_evpn_dst none_ok pfxlen ev b =
     (if pfxlen = 0 \<and> none_ok then Inr (ev, b)
      else if pfxlen = 32 then res_bind (get_bytes 4 b) (\<lambda>(d, b). Inr (ev\<lparr>ev_aid := AID_INET, ev_v4 := word_be d\<rparr>, b))
      else if pfxlen = 128 then res_bind (get_bytes 16 b) (\<lambda>(d, b). Inr (ev\<lparr>ev_aid := AID_INET6, ev_v6 := word_be d\<rparr>, b))
      else Inl EBADMSG)"

definition get_evpn2 :: "bytes \<Rightarrow> nlri res" where
  "get_evpn2 b =
     res_bind (get_n64 b) (\<lambda>(rd, b).
     res_bind (get_bytes ESI_ADDR_LEN b) (\<lambda>(es, b).
     res_bind (get_n32 b) (\<lambda>(tag, b).
     res_bind (get_n8 b) (\<lambda>(maclen, b).
       if maclen \<noteq> 48 then Inl EBADMSG
       else res_bind (get_bytes ETHER_ADDR_LEN b) (\<lambda>(m, b).
            res_bind (get_n8 b) (\<lambda>(pfxlen, b).
            res_bind (get_evpn_dst True pfxlen (evpn0\<lparr>ev_type := EVPN_ROUTE_TYPE_2, esi := es, ethtag := tag, mac := m\<rparr>) b) (\<lambda>(ev, b).
              if length b \<noteq> 3 \<and> length b \<noteq> 6 then Inl EBADMSG
              else Inr \<lparr>nl_addr = addr0\<lparr>aid := AID_EVPN, rd8 := rd, labelstack := b\<rparr>, nl_evpn = ev, nl_plen = pfxlen\<rparr>)))))))"

definition get_evpn3 :: "bytes \<Rightarrow> nlri res" where
  "get_evpn3 b =
     res_bind (get_n64 b) (\<lambda>(rd, b).
     res_bind (get_n32 b) (\<lambda>(tag, b).
     res_bind (get_n8 b) (\<lambda>(pfxlen, b).
     res_bind (get_evpn_dst False pfxlen (evpn0\<lparr>ev_type := EVPN_ROUTE_TYPE_3, ethtag := tag\<rparr>) b) (\<lambda>(ev, b).
       if length b \<noteq> 0 then Inl EBADMSG
       else Inr \<lparr>nl_addr = addr0\<lparr>aid := AID_EVPN, rd8 := rd\<rparr>, nl_evpn = ev, nl_plen = pfxlen\<rparr>))))"

definition nlri_get_evpn :: "bytes \<Rightarrow> (nlri \<times> bytes) res" where
  "nlri_get_evpn buf =
     res_bind (get_n8 buf) (\<lambda>(type, buf).
     res_bind (get_n8 buf) (\<lambda>(nlrilen, buf).
       if type = EVPN_ROUTE_TYPE_2 then
         res_bind (get_bytes (unat nlrilen) buf) (\<lambda>(b, r). res_bind (get_evpn2 b) (\<lambda>p. Inr (p, r)))
       else if type = EVPN_ROUTE_TYPE_3 then
         res_bind (get_bytes (unat nlrilen) buf) (\<lambda>(b, r). res_bind (get_evpn3 b) (\<lambda>p. Inr (p, r)))
       else Inl EBADMSG))"

section \<open>Writing\<close>

text \<open>An entry of the prefix tree: a prefix or a flow specification.\<close>

datatype pt_entry = Pt nlri | Pt_flow u8 bytes

text \<open>pt_fill() on the prefixes above: the address masked, the length cut to the address; None is a family it does not know.\<close>

definition pt_fill :: "nlri \<Rightarrow> nlri option" where
  "pt_fill p =
     (let a = nl_addr p; n = unat (nl_plen p) in
      if aid a = AID_INET then
        Some \<lparr>nl_addr = addr0\<lparr>aid := aid a, v4 := inet4applymask (v4 a) (min n 32)\<rparr>, nl_evpn = evpn0, nl_plen = of_nat (min n 32)\<rparr>
      else if aid a = AID_INET6 then
        Some \<lparr>nl_addr = addr0\<lparr>aid := aid a, v6 := inet6applymask (v6 a) (min n 128)\<rparr>, nl_evpn = evpn0, nl_plen = of_nat (min n 128)\<rparr>
      else if aid a = AID_VPN_IPv4 then
        Some \<lparr>nl_addr = addr0\<lparr>aid := aid a, v4 := inet4applymask (v4 a) (min n 32), rd8 := rd8 a, labelstack := labelstack a\<rparr>,
              nl_evpn = evpn0, nl_plen = of_nat (min n 32)\<rparr>
      else if aid a = AID_VPN_IPv6 then
        Some \<lparr>nl_addr = addr0\<lparr>aid := aid a, v6 := inet6applymask (v6 a) (min n 128), rd8 := rd8 a, labelstack := labelstack a\<rparr>,
              nl_evpn = evpn0, nl_plen = of_nat (min n 128)\<rparr>
      else if aid a = AID_EVPN then
        (let ev = nl_evpn p; fixed = (\<lambda>ev n. Some \<lparr>nl_addr = addr0\<lparr>aid := aid a, rd8 := rd8 a, labelstack := labelstack a\<rparr>,
              nl_evpn = ev, nl_plen = of_nat n\<rparr>) in
         if ev_aid ev = AID_UNSPEC then fixed (ev\<lparr>ev_v4 := 0, ev_v6 := 0\<rparr>) n
         else if ev_aid ev = AID_INET then fixed (ev\<lparr>ev_v6 := 0\<rparr>) (min n 32)
         else if ev_aid ev = AID_INET6 then fixed (ev\<lparr>ev_v4 := 0\<rparr>) (min n 128)
         else None)
      else None)"

datatype wfield = N8 nat | Raw bytes | Zero nat

fun put_field :: "can_alloc \<Rightarrow> wfield \<Rightarrow> ibuf \<Rightarrow> ibuf res" where
  "put_field ca (N8 n) b = ibuf_add_n8 ca b (of_nat n)"
| "put_field ca (Raw d) b = ibuf_add ca b d"
| "put_field ca (Zero n) b = ibuf_add_zero ca b n"

primrec put_fields :: "can_alloc \<Rightarrow> wfield list \<Rightarrow> ibuf \<Rightarrow> ibuf res" where
  "put_fields ca [] b = Inr b"
| "put_fields ca (x # xs) b = res_bind (put_field ca x b) (put_fields ca xs)"

definition vpn_fields :: "bytes \<Rightarrow> nlri \<Rightarrow> bool \<Rightarrow> wfield list" where
  "vpn_fields d p withdraw =
     (let a = nl_addr p; plen = unat (nl_plen p) in
      [N8 (plen + 8 * 8 + (if withdraw then 3 * 8 else length (labelstack a) * 8))] @
      (if withdraw then [N8 0x80, Zero 2] else [Raw (labelstack a)]) @
      [Raw (be_word 8 (rd8 a)), Raw (take (PREFIX_SIZE plen - 1) d)])"

text \<open>The destination of an EVPN route, None for an address family that cannot be written.\<close>

definition evpn_dst :: "bool \<Rightarrow> evpn_addr \<Rightarrow> wfield list option" where
  "evpn_dst none_ok ev =
     (if ev_aid ev = AID_UNSPEC \<and> none_ok then Some []
      else if ev_aid ev = AID_INET then Some [Raw (be_word 4 (ev_v4 ev))]
      else if ev_aid ev = AID_INET6 then Some [Raw (be_word 16 (ev_v6 ev))]
      else None)"

definition evpn_fields :: "nlri \<Rightarrow> wfield list option" where
  "evpn_fields p =
     (let ev = nl_evpn p; a = nl_addr p; plen = unat (nl_plen p) in
      if ev_type ev = EVPN_ROUTE_TYPE_2 then
        map_option (\<lambda>dst. [N8 (unat (ev_type ev)),
            N8 (PREFIX_SIZE (8 * 8 + ESI_ADDR_LEN * 8 + 4 * 8 + 8 + ETHER_ADDR_LEN * 8 + 8 + plen + length (labelstack a) * 8) - 1),
            Raw (be_word 8 (rd8 a)), Raw (esi ev), Raw (be_word 4 (ethtag ev)), N8 (ETHER_ADDR_LEN * 8), Raw (mac ev), N8 plen] @
            dst @ [Raw (labelstack a)]) (evpn_dst True ev)
      else if ev_type ev = EVPN_ROUTE_TYPE_3 then
        map_option (\<lambda>dst. [N8 (unat (ev_type ev)), N8 (PREFIX_SIZE (8 * 8 + 4 * 8 + 8 + plen) - 1),
            Raw (be_word 8 (rd8 a)), Raw (be_word 4 (ethtag ev)), N8 plen] @ dst) (evpn_dst False ev)
      else Some [N8 (unat (ev_type ev))])"

definition FLOWSPEC_LEN_LIMIT :: nat where "FLOWSPEC_LEN_LIMIT = 0xf0"

definition flow_fields :: "bytes \<Rightarrow> wfield list" where
  "flow_fields flow =
     (let flowlen = length flow in
      if flowlen < FLOWSPEC_LEN_LIMIT then [N8 flowlen, Raw flow]
      else [N8 (or 0xf0 (drop_bit 8 flowlen)), N8 flowlen, Raw flow])"

definition pt_fields :: "pt_entry \<Rightarrow> bool \<Rightarrow> wfield list option res" where
  "pt_fields pte withdraw = (case pte of
     Pt_flow fam flow \<Rightarrow> Inr (Some (flow_fields flow))
   | Pt p \<Rightarrow>
       let a = nl_addr p; plen = unat (nl_plen p) in
       if aid a = AID_INET then Inr (Some [N8 plen, Raw (take (PREFIX_SIZE plen - 1) (be_word 4 (v4 a)))])
       else if aid a = AID_INET6 then Inr (Some [N8 plen, Raw (take (PREFIX_SIZE plen - 1) (be_word 16 (v6 a)))])
       else if aid a = AID_VPN_IPv4 then Inr (Some (vpn_fields (be_word 4 (v4 a)) p withdraw))
       else if aid a = AID_VPN_IPv6 then Inr (Some (vpn_fields (be_word 16 (v6 a)) p withdraw))
       else if aid a = AID_EVPN then Inr (evpn_fields p)
       else Inl Fatal)"

definition UINT16_MAX :: nat where "UINT16_MAX = 65535"

definition pt_writebuf :: "can_alloc \<Rightarrow> ibuf \<Rightarrow> pt_entry \<Rightarrow> bool \<Rightarrow> bool \<Rightarrow> u32 \<Rightarrow> ibuf res" where
  "pt_writebuf ca buf pte withdraw add_path pathid =
     res_bind (ibuf_dynamic ca 32 UINT16_MAX) (\<lambda>tmp.
     res_bind (if add_path then ibuf_add_n32 ca tmp (ucast pathid) else Inr tmp) (\<lambda>tmp.
     res_bind (pt_fields pte withdraw) (\<lambda>fs.
       case fs of None \<Rightarrow> Inl EBADMSG
       | Some xs \<Rightarrow> res_bind (put_fields ca xs tmp) (\<lambda>tmp.
           if withdraw \<and> ibuf_left buf < ibuf_size tmp + 2 then Inl EBADMSG
           else ibuf_add_ibuf ca buf tmp))))"


section \<open>The order of the prefix tree\<close>

definition cmp_of :: "'a::linorder \<Rightarrow> 'a \<Rightarrow> int" where
  "cmp_of a b = (if a > b then 1 else if a < b then -1 else 0)"

text \<open>One comparison after the other, the first that is not equal decides.\<close>

fun first_cmp :: "int list \<Rightarrow> int" where
  "first_cmp [] = 0"
| "first_cmp (c # cs) = (if c \<noteq> 0 then c else first_cmp cs)"

definition sign :: "int \<Rightarrow> int" where
  "sign i = cmp_of i 0"

definition pt_prefix_cmp :: "nlri \<Rightarrow> nlri \<Rightarrow> int res" where
  "pt_prefix_cmp p q =
     (let a = nl_addr p; b = nl_addr q in
      if aid a \<noteq> aid b then Inr (cmp_of (aid a) (aid b))
      else if aid a = AID_INET then Inr (first_cmp [cmp_of (v4 a) (v4 b), cmp_of (nl_plen p) (nl_plen q)])
      else if aid a = AID_INET6 then
        Inr (first_cmp [sign (memcmp (s6_addr (v6 a)) (s6_addr (v6 b))), cmp_of (nl_plen p) (nl_plen q)])
      else if aid a = AID_VPN_IPv4 then
        Inr (first_cmp [cmp_of (rd8 a) (rd8 b), cmp_of (v4 a) (v4 b), cmp_of (nl_plen p) (nl_plen q)])
      else if aid a = AID_VPN_IPv6 then
        Inr (first_cmp [cmp_of (rd8 a) (rd8 b), sign (memcmp (s6_addr (v6 a)) (s6_addr (v6 b))), cmp_of (nl_plen p) (nl_plen q)])
      else if aid a = AID_EVPN then
        let ea = nl_evpn p; eb = nl_evpn q;
            c = first_cmp [cmp_of (ethtag ea) (ethtag eb), sign (memcmp (mac ea) (mac eb)), cmp_of (nl_plen p) (nl_plen q)] in
        if c \<noteq> 0 then Inr c
        else if ev_aid ea = AID_UNSPEC then Inr 0
        else if ev_aid ea = AID_INET then Inr (sign (memcmp (be_word 4 (ev_v4 ea)) (be_word 4 (ev_v4 eb))))
        else if ev_aid ea = AID_INET6 then Inr (sign (memcmp (be_word 16 (ev_v6 ea)) (be_word 16 (ev_v6 eb))))
        else Inl Fatal
      else Inl Fatal)"

section \<open>What is read again\<close>

lemma extract_loop_again:
  "extract_loop n buf = Inr (a, r) \<Longrightarrow> length a = PREFIX_SIZE n - 1 \<and> extract_loop n (a @ r') = Inr (a, r')"
proof (induction n buf arbitrary: a r rule: extract_loop.induct)
  case (1 n buf)
  show ?case
  proof (cases "n = 0")
    case False
    then obtain t b where b: "buf = t # b" using 1(2) by (cases buf) (auto simp: extract_loop.simps[of n])
    show ?thesis
    proof (cases "n < 8")
      case True
      then show ?thesis using 1(2) b False by (auto simp: extract_loop.simps[of n] PREFIX_SIZE_def)
    next
      case g: False
      then obtain a' where a': "extract_loop (n - 8) b = Inr (a', r)" "a = t # a'"
        using 1(2) b False by (auto simp: extract_loop.simps[of n] res_bind_Inr_iff)
      then have "length a' = PREFIX_SIZE (n - 8) - 1 \<and> extract_loop (n - 8) (a' @ r') = Inr (a', r')"
        using 1(1)[OF False b g a'(1)] by simp
      moreover have "PREFIX_SIZE n = Suc (PREFIX_SIZE (n - 8))" using g by (auto simp: PREFIX_SIZE_def)
      ultimately show ?thesis using a'(2) False g by (simp add: extract_loop.simps[of n] PREFIX_SIZE_def)
    qed
  qed (use 1(2) in \<open>simp add: extract_loop.simps PREFIX_SIZE_def\<close>)
qed

lemma bit_addrmask: "n < 8 \<Longrightarrow> n \<le> j \<Longrightarrow> j < 8 \<Longrightarrow> \<not> bit (addrmask ! n) (7 - j)"
proof -
  have "\<forall>n\<in>set [0..<8]. \<forall>j\<in>set [n..<8]. \<not> bit (addrmask ! n) (7 - j)" by code_simp
  then show "n < 8 \<Longrightarrow> n \<le> j \<Longrightarrow> j < 8 \<Longrightarrow> ?thesis" by simp
qed

lemma extract_loop_masked:
  "extract_loop n buf = Inr (a, r) \<Longrightarrow> i < length a \<Longrightarrow> j < 8 \<Longrightarrow> n \<le> 8 * i + j \<Longrightarrow> \<not> bit (a ! i) (7 - j)"
proof (induction n buf arbitrary: a r i rule: extract_loop.induct)
  case (1 n buf)
  have n: "n \<noteq> 0" using 1(2,3) by (cases n) (auto simp: extract_loop.simps)
  then obtain t b where b: "buf = t # b" using 1(2) by (cases buf) (auto simp: extract_loop.simps[of n])
  show ?case
  proof (cases "n < 8")
    case True
    then show ?thesis using 1 b n bit_addrmask[of n j] by (auto simp: extract_loop.simps[of n] bit_and_iff)
  next
    case g: False
    then obtain a' where a': "extract_loop (n - 8) b = Inr (a', r)" "a = t # a'"
      using 1(2) b n by (auto simp: extract_loop.simps[of n] res_bind_Inr_iff)
    then show ?thesis using 1(1)[OF n b g a'(1), of "i - 1"] 1(3-5) g by (cases i) auto
  qed
qed

lemma extract_prefix_again:
  assumes "extract_prefix_buf buf n mx = Inr (d, r)"
  shows "length d = mx" "extract_prefix_buf (take (PREFIX_SIZE n - 1) d @ r') n mx = Inr (d, r')"
    "PREFIX_SIZE n - 1 \<le> mx"
    "i < mx \<Longrightarrow> j < 8 \<Longrightarrow> n \<le> 8 * i + j \<Longrightarrow> \<not> bit (d ! i) (7 - j)"
proof -
  obtain a where a: "extract_loop n buf = Inr (a, r)" "d = a @ replicate (mx - length a) 0" "PREFIX_SIZE n - 1 \<le> mx"
    using assms by (auto simp: extract_prefix_buf_def Let_def res_bind_Inr_iff split: if_splits)
  have l: "length a = PREFIX_SIZE n - 1" "extract_loop n (a @ r') = Inr (a, r')"
    using extract_loop_again[OF a(1)] by auto
  show "length d = mx" "PREFIX_SIZE n - 1 \<le> mx" using a l by auto
  show "extract_prefix_buf (take (PREFIX_SIZE n - 1) d @ r') n mx = Inr (d, r')"
    using a l by (simp add: extract_prefix_buf_def Let_def)
  show "i < mx \<Longrightarrow> j < 8 \<Longrightarrow> n \<le> 8 * i + j \<Longrightarrow> \<not> bit (d ! i) (7 - j)"
    using extract_loop_masked[OF a(1), of i j] a(2) by (auto simp: nth_append)
qed

text \<open>An address whose bits behind the prefix are zero is left alone by the masks.\<close>

lemma masked_word:
  assumes "8 * m = LENGTH('a)" "length d = m" and z: "\<And>i j. i < m \<Longrightarrow> j < 8 \<Longrightarrow> n \<le> 8 * i + j \<Longrightarrow> \<not> bit (d ! i) (7 - j)"
  shows "n \<le> k \<Longrightarrow> k < 8 * m \<Longrightarrow> \<not> msb_bits (8 * m) (word_be d :: 'a::len word) ! k"
proof -
  assume k: "n \<le> k" "k < 8 * m"
  let ?i = "k div 8" and ?j = "k mod 8"
  have i: "?i < m" "?j < 8" "n \<le> 8 * ?i + ?j" using k by auto
  have "\<not> bit (be_word m (word_be d :: 'a word) ! ?i) (7 - ?j)"
    using z[OF i] be_word_word_be[OF assms(1,2)] by simp
  moreover have "8 * (m - 1 - ?i) + (7 - ?j) = 8 * m - 1 - k"
  proof -
    obtain q where "m = ?i + 1 + q" using i(1) by (metis Suc_eq_plus1 less_iff_Suc_add add_Suc_right add.commute)
    then show ?thesis using mult_div_mod_eq[of 8 k] i(2) by linarith
  qed
  ultimately show ?thesis using i k by (simp add: bit_be_word_nth)
qed


lemma masked_fixed:
  assumes "n \<le> w" "length bs = w" "\<And>k. n \<le> k \<Longrightarrow> k < w \<Longrightarrow> \<not> bs ! k"
  shows "take n bs @ replicate (w - n) False = bs"
proof (rule nth_equalityI)
  fix i assume "i < length (take n bs @ replicate (w - n) False)"
  then show "(take n bs @ replicate (w - n) False) ! i = bs ! i"
    using assms by (cases "i < n") (auto simp: nth_append)
qed (use assms in simp)

lemma masked_v4:
  assumes "extract_prefix_buf buf n 4 = Inr (d, r)" "n \<le> 32"
  shows "inet4applymask (word_be d) n = word_be d"
  using masked_word[where 'a = 32 and m = 4 and d = d and n = n] extract_prefix_again(1,4)[OF assms(1)] assms(2)
    masked_fixed[of n 32 "msb_bits 32 (word_be d :: u32)"] msb_bits_inet4applymask[of n "word_be d"]
  by (simp add: msb_bits_inject[symmetric, of 32])

lemma masked_v6:
  assumes "extract_prefix_buf buf n 16 = Inr (d, r)" "n \<le> 128"
  shows "inet6applymask (word_be d) n = word_be d"
  using masked_word[where 'a = 128 and m = 16 and d = d and n = n] extract_prefix_again(1,4)[OF assms(1)] assms(2)
    masked_fixed[of n 128 "msb_bits 128 (word_be d :: in6_addr)"] msb_bits_inet6applymask[of n "word_be d"]
  by (simp add: msb_bits_inject[symmetric, of 128])


section \<open>What is written\<close>

fun enc_field :: "wfield \<Rightarrow> bytes" where
  "enc_field (N8 n) = [of_nat n]"
| "enc_field (Raw d) = d"
| "enc_field (Zero n) = replicate n 0"

fun field_ok :: "wfield \<Rightarrow> bool" where
  "field_ok (N8 n) = (n \<le> 255)"
| "field_ok _ = True"

definition enc_fields :: "wfield list \<Rightarrow> bytes" where
  "enc_fields xs = concat (map enc_field xs)"

lemma enc_fields_simps [simp]: "enc_fields [] = []" "enc_fields (x # xs) = enc_field x @ enc_fields xs"
  "enc_fields (xs @ ys) = enc_fields xs @ enc_fields ys"
  by (simp_all add: enc_fields_def)

lemma be_word_1: "n \<le> 255 \<Longrightarrow> be_word 1 (ucast (of_nat n :: u64) :: u8) = [of_nat n]"
proof -
  assume n: "n \<le> 255"
  then have "unat (ucast (of_nat n :: u64) :: u8) = n"
    by (simp add: unsigned_ucast_eq unat_of_nat take_bit_nat_eq_self)
  then show ?thesis by (simp add: be_word_def)
qed

lemma put_field_roomy:
  assumes "roomy b (length (enc_field x) + n)" "\<forall>n. ca n" "field_ok x"
  shows "\<exists>b'. put_field ca x b = Inr b' \<and> roomy b' n \<and> ibuf_content b' = ibuf_content b @ enc_field x"
proof (cases x)
  case (N8 k)
  then have k: "k \<le> 255" using assms(3) by simp
  then have "\<not> (of_nat k :: u64) > 0xff"
    by (simp add: word_less_nat_alt unat_of_nat take_bit_nat_eq_self not_less)
  then show ?thesis using ibuf_add_roomy[of b "[of_nat k]" n ca] assms(1,2) N8 be_word_1[OF k] by (simp add: ibuf_add_n8_def)
next
  case (Raw d)
  then show ?thesis using ibuf_add_roomy[of b d n ca] assms by simp
next
  case (Zero k)
  have "ibuf_add_zero ca b k = ibuf_add ca b (replicate k 0)" by (simp add: ibuf_add_zero_def ibuf_add_def)
  then show ?thesis using ibuf_add_roomy[of b "replicate k 0" n ca] assms Zero by simp
qed

lemma put_fields_roomy:
  "roomy b (length (enc_fields xs) + n) \<Longrightarrow> \<forall>n. ca n \<Longrightarrow> list_all field_ok xs \<Longrightarrow>
     \<exists>b'. put_fields ca xs b = Inr b' \<and> roomy b' n \<and> ibuf_content b' = ibuf_content b @ enc_fields xs"
proof (induction xs arbitrary: b)
  case (Cons x xs)
  obtain b1 where b1: "put_field ca x b = Inr b1" "roomy b1 (length (enc_fields xs) + n)"
    "ibuf_content b1 = ibuf_content b @ enc_field x"
    using put_field_roomy[of b x "length (enc_fields xs) + n" ca] Cons.prems by (auto simp: add.assoc)
  then obtain b2 where "put_fields ca xs b1 = Inr b2" "roomy b2 n" "ibuf_content b2 = ibuf_content b1 @ enc_fields xs"
    using Cons.IH[OF b1(2) Cons.prems(2)] Cons.prems(3) by (simp only: list.pred_inject) blast
  then show ?case using b1(1,3) by (intro exI[of _ b2]) simp
qed simp

lemma pt_writebuf_roomy:
  assumes fs: "pt_fields pte withdraw = Inr (Some xs)" "list_all field_ok xs" and ca: "\<forall>n. ca n"
    and l: "length (enc_fields xs) \<le> 1000" and buf: "roomy buf (length (enc_fields xs) + 6)"
  shows "\<exists>buf'. pt_writebuf ca buf pte withdraw add_path pathid = Inr buf' \<and>
    ibuf_content buf' = ibuf_content buf @ (if add_path then be_word 4 pathid else []) @ enc_fields xs"
proof -
  obtain t0 where t0: "ibuf_dynamic ca 32 UINT16_MAX = Inr t0" "roomy t0 (1000 + 4)" "ibuf_content t0 = []"
    using ca ibuf_dynamic_wf[of ca 32 UINT16_MAX]
    by (auto simp: ibuf_dynamic_def roomy_def ibuf_left_def UINT16_MAX_def SIZE_MAX_def IBUF_FD_MARK_ON_STACK_def)
  have "\<exists>t1. (if add_path then ibuf_add_n32 ca t0 (ucast pathid) else Inr t0) = Inr t1 \<and> roomy t1 (length (enc_fields xs)) \<and>
      ibuf_content t1 = (if add_path then be_word 4 pathid else [])"
  proof (cases add_path)
    case True
    have v: "\<not> (ucast pathid :: u64) > 0xffffffff"
      using unsigned_less[of pathid, where 'a = nat] by (simp add: word_less_nat_alt unsigned_ucast_eq not_less take_bit_nat_eq_self)
    have "(ucast (ucast pathid :: u64) :: u32) = pathid" by (rule ucast_up_ucast_id) (simp add: is_up)
    moreover have "roomy t0 (length (be_word 4 pathid) + length (enc_fields xs))" using t0(2) l by (simp add: roomy_def)
    ultimately show ?thesis using ibuf_add_roomy[of t0 "be_word 4 pathid" "length (enc_fields xs)" ca] ca v t0(3) True
      by (auto simp: ibuf_add_n32_def)
  next
    case False
    then show ?thesis using t0(2,3) l by (simp add: roomy_def)
  qed
  then obtain t1 where t1: "(if add_path then ibuf_add_n32 ca t0 (ucast pathid) else Inr t0) = Inr t1"
    "roomy t1 (length (enc_fields xs))" "ibuf_content t1 = (if add_path then be_word 4 pathid else [])" by blast
  obtain t2 where t2: "put_fields ca xs t1 = Inr t2" "roomy t2 0" "ibuf_content t2 = ibuf_content t1 @ enc_fields xs"
    using put_fields_roomy[of t1 xs 0 ca] t1(2) ca fs(2) by auto
  have sz: "ibuf_size t2 = length (ibuf_content t2)" using t2(2) by (simp add: roomy_def)
  have r: "roomy buf (length (ibuf_content t2) + 0)" "ibuf_size t2 + 2 \<le> ibuf_left buf"
    using buf t2(3) t1(3) sz by (auto simp: roomy_def split: if_splits)
  show ?thesis
    using ibuf_add_roomy[OF r(1) ca] t0(1) t1(1,3) t2(1,3) fs(1) r(2)
    by (auto simp: pt_writebuf_def ibuf_add_ibuf_def)
qed


section \<open>Round trip\<close>

text \<open>
  The switch over the address family in rde_update_dispatch(); None is a family whose NLRI is skipped.
\<close>

definition nlri_get :: "u8 \<Rightarrow> bool \<Rightarrow> bytes \<Rightarrow> (nlri \<times> bytes) res option" where
  "nlri_get fam withdraw buf =
     (if fam = AID_INET then Some (nlri_get_prefix buf)
      else if fam = AID_INET6 then Some (nlri_get_prefix6 buf)
      else if fam = AID_VPN_IPv4 then Some (nlri_get_vpn4 buf withdraw)
      else if fam = AID_VPN_IPv6 then Some (nlri_get_vpn6 buf withdraw)
      else if fam = AID_EVPN then Some (nlri_get_evpn buf)
      else None)"

lemma get_n8_Inr: "get_n8 bs = Inr (x, r) \<longleftrightarrow> bs = x # r"
  by (cases bs) auto

lemma label_loop_again:
  "label_loop False n ls buf = Inr (labels, n', r) \<Longrightarrow>
     \<exists>l. labels = ls @ l \<and> n = n' + 8 * length l \<and> length labels \<le> LABELSTACK_SIZE \<and>
       (\<forall>r'. label_loop False n ls (l @ r') = Inr (labels, n', r'))"
proof (induction "False" n ls buf rule: label_loop.induct)
  case (1 n ls buf)
  then obtain l0 b where g: "get_bytes 3 buf = Inr (l0, b)" and c: "length ls + 3 \<le> LABELSTACK_SIZE" "24 \<le> n"
    by (auto simp: label_loop.simps[of False n] res_bind_Inr_iff split: if_splits)
  have l0: "length l0 = 3" using g by (auto simp: get_bytes_def split: if_splits)
  show ?case
  proof (cases "l0 ! 2 AND BGP_MPLS_BOS \<noteq> 0")
    case True
    then have "labels = ls @ l0" "n' = n - 24" using 1(2) g c by (auto simp: label_loop.simps[of False n])
    then show ?thesis using True c l0 by (intro exI[of _ l0]) (auto simp: label_loop.simps[of False n])
  next
    case False
    then have s: "label_loop False (n - 24) (ls @ l0) b = Inr (labels, n', r)"
      using 1(2) g c by (auto simp: label_loop.simps[of False n])
    obtain l where l: "labels = (ls @ l0) @ l" "n - 24 = n' + 8 * length l" "length labels \<le> LABELSTACK_SIZE"
      "\<And>r'. label_loop False (n - 24) (ls @ l0) (l @ r') = Inr (labels, n', r')"
      using 1(1)[of l0 b] c False s by auto
    then show ?thesis using False c l0 by (intro exI[of _ "l0 @ l"]) (auto simp: label_loop.simps[of False n])
  qed
qed

lemma label_loop_withdraw:
  "24 \<le> n \<Longrightarrow> length l = 3 \<Longrightarrow> label_loop True n [] (l @ r) = Inr ([], n - 24, r)"
  by (simp add: label_loop.simps LABELSTACK_SIZE_def)

lemma get_addr_Inr:
  "get_addr mx setter a n buf = Inr (p, r) \<longleftrightarrow>
     (\<exists>d. n \<le> 8 * mx \<and> extract_prefix_buf buf n mx = Inr (d, r) \<and> p = \<lparr>nl_addr = setter d a, nl_evpn = evpn0, nl_plen = of_nat n\<rparr>)"
  by (auto simp: get_addr_def res_bind_Inr_iff)

lemma get_n64_be [simp]: "get_n64 (be_word 8 w @ r) = Inr (w, r)"
  by (simp add: get_n64_def word_be_be_word)

lemma get_bytes_Inr: "get_bytes n bs = Inr (d, r) \<longleftrightarrow> bs = d @ r \<and> length d = n"
  by (auto simp: get_bytes_def)

text \<open>
  Given how an address is set, cut to its mask and encoded, the prefixes read for it are kept by
  pt_fill() and read back from what pt_fields() gives.
\<close>

definition unlabelled :: "nlri \<Rightarrow> nlri" where
  "unlabelled p = (if aid (nl_addr p) = AID_EVPN then p else p\<lparr>nl_addr := (nl_addr p)\<lparr>labelstack := []\<rparr>\<rparr>)"

definition rereads :: "u8 \<Rightarrow> bool \<Rightarrow> nlri \<Rightarrow> nlri \<Rightarrow> bool" where
  "rereads fam withdraw p q = (\<exists>xs. pt_fields (Pt p) withdraw = Inr (Some xs) \<and> list_all field_ok xs \<and>
     length (enc_fields xs) \<le> 100 \<and> (\<forall>r. nlri_get fam withdraw (enc_fields xs @ r) = Some (Inr (q, r))))"

lemma of_nat_unat8: "n \<le> 255 \<Longrightarrow> unat (of_nat n :: u8) = n"
  by simp

lemma rereads_v4:
  assumes "nlri_get_prefix bs = Inr (p, r)"
  shows "pt_fill p = Some p" "rereads AID_INET withdraw p (unlabelled p)"
proof -
  obtain l b d where p: "bs = l # b" "unat l \<le> 32" "extract_prefix_buf b (unat l) 4 = Inr (d, r)"
    "p = \<lparr>nl_addr = set_v4 d (addr0\<lparr>aid := AID_INET\<rparr>), nl_evpn = evpn0, nl_plen = l\<rparr>"
    using assms by (auto simp: nlri_get_prefix_def res_bind_Inr_iff get_n8_Inr get_addr_Inr)
  note e = extract_prefix_again[OF p(3)]
  show "pt_fill p = Some p"
    using p(2,4) masked_v4[OF p(3)] by (simp add: pt_fill_def set_v4_def addr0_def Let_def min_def)
  have "unlabelled p = p" using p(4) by (simp add: unlabelled_def set_v4_def addr0_def)
  then show "rereads AID_INET withdraw p (unlabelled p)"
    using p(2,4) e
    by (auto simp: rereads_def pt_fields_def Let_def nlri_get_def nlri_get_prefix_def get_addr_def set_v4_def addr0_def be_word_word_be)
qed

lemma rereads_v6:
  assumes "nlri_get_prefix6 bs = Inr (p, r)"
  shows "pt_fill p = Some p" "rereads AID_INET6 withdraw p (unlabelled p)"
proof -
  obtain l b d where p: "bs = l # b" "unat l \<le> 128" "extract_prefix_buf b (unat l) 16 = Inr (d, r)"
    "p = \<lparr>nl_addr = set_v6 d (addr0\<lparr>aid := AID_INET6\<rparr>), nl_evpn = evpn0, nl_plen = l\<rparr>"
    using assms by (auto simp: nlri_get_prefix6_def res_bind_Inr_iff get_n8_Inr get_addr_Inr)
  note e = extract_prefix_again[OF p(3)]
  show "pt_fill p = Some p"
    using p(2,4) masked_v6[OF p(3)] by (simp add: pt_fill_def set_v6_def addr0_def Let_def min_def)
  have "unlabelled p = p" using p(4) by (simp add: unlabelled_def set_v6_def addr0_def)
  then show "rereads AID_INET6 withdraw p (unlabelled p)"
    using p(2,4) e
    by (auto simp: rereads_def pt_fields_def Let_def nlri_get_def nlri_get_prefix6_def get_addr_def set_v6_def addr0_def be_word_word_be)
qed

lemma get_vpn_Inr:
  assumes "get_vpn mx setter fam bs False = Inr (p, r)"
  shows "\<exists>labels rd n d b. n + 64 + 8 * length labels \<le> 255 \<and> length labels \<le> LABELSTACK_SIZE \<and> n \<le> 8 * mx \<and>
    extract_prefix_buf b n mx = Inr (d, r) \<and>
    p = \<lparr>nl_addr = setter d (addr0\<lparr>aid := fam, labelstack := labels, rd8 := rd\<rparr>), nl_evpn = evpn0, nl_plen = of_nat n\<rparr> \<and>
    (\<forall>r'. label_loop False (n + 64 + 8 * length labels) [] (labels @ r') = Inr (labels, n + 64, r'))"
proof -
  obtain l b labels m b2 rd b3 where p: "bs = l # b" "label_loop False (unat l) [] b = Inr (labels, m, b2)" "64 \<le> m"
    "get_addr mx setter (addr0\<lparr>aid := fam, labelstack := labels, rd8 := rd\<rparr>) (m - 64) b3 = Inr (p, r)"
    using assms by (auto simp: get_vpn_def res_bind_Inr_iff get_n8_Inr split: if_splits)
  obtain n where n: "m = n + 64" using p(3) by (metis le_add_diff_inverse2)
  have ll: "unat l = n + 64 + 8 * length labels" "length labels \<le> LABELSTACK_SIZE"
    "\<forall>r'. label_loop False (n + 64 + 8 * length labels) [] (labels @ r') = Inr (labels, n + 64, r')"
    using label_loop_again[OF p(2)] n by auto
  obtain d where "n \<le> 8 * mx" "extract_prefix_buf b3 n mx = Inr (d, r)"
    "p = \<lparr>nl_addr = setter d (addr0\<lparr>aid := fam, labelstack := labels, rd8 := rd\<rparr>), nl_evpn = evpn0, nl_plen = of_nat n\<rparr>"
    using p(4) n by (auto simp: get_addr_Inr)
  then show ?thesis using ll unat_u8_less[of l] by (intro exI[of _ labels] exI[of _ rd] exI[of _ n] exI[of _ d] exI[of _ b3]) simp
qed

lemma get_vpn_again:
  assumes "extract_prefix_buf b n mx = Inr (d, r)" "n \<le> 8 * mx" "n + 64 + 8 * length labels \<le> 255"
    "\<forall>r'. label_loop False (n + 64 + 8 * length labels) [] (labels @ r') = Inr (labels, n + 64, r')"
  shows "get_vpn mx setter fam (of_nat (n + 64 + 8 * length labels) # labels @ be_word 8 rd @ take (PREFIX_SIZE n - 1) d @ r') False =
      Inr (\<lparr>nl_addr = setter d (addr0\<lparr>aid := fam, labelstack := labels, rd8 := rd\<rparr>), nl_evpn = evpn0, nl_plen = of_nat n\<rparr>, r')"
    "mx \<le> 16 \<Longrightarrow> get_vpn mx setter fam (of_nat (n + 64 + 24) # [l1, l2, l3] @ be_word 8 rd @ take (PREFIX_SIZE n - 1) d @ r') True =
      Inr (\<lparr>nl_addr = setter d (addr0\<lparr>aid := fam, labelstack := [], rd8 := rd\<rparr>), nl_evpn = evpn0, nl_plen = of_nat n\<rparr>, r')"
proof -
  note e = extract_prefix_again(2)[OF assms(1), of r']
  have u: "unat (of_nat (n + 64 + 8 * length labels) :: u8) = n + 64 + 8 * length labels"
    using assms(3) by (intro of_nat_unat8)
  show "get_vpn mx setter fam (of_nat (n + 64 + 8 * length labels) # labels @ be_word 8 rd @ take (PREFIX_SIZE n - 1) d @ r') False =
      Inr (\<lparr>nl_addr = setter d (addr0\<lparr>aid := fam, labelstack := labels, rd8 := rd\<rparr>), nl_evpn = evpn0, nl_plen = of_nat n\<rparr>, r')"
    unfolding get_vpn_def get_n8_Cons res_bind.simps prod.case u using assms(2,4) e by (simp add: get_addr_def)
  assume "mx \<le> 16"
  then have w: "unat (of_nat (n + 64 + 24) :: u8) = n + 64 + 24" using assms(2) by (intro of_nat_unat8) simp
  have ll: "label_loop True (n + 64 + 24) [] ([l1, l2, l3] @ x) = Inr ([], n + 64, x)" for x
    using label_loop_withdraw[of "n + 64 + 24" "[l1, l2, l3]"] by simp
  show "get_vpn mx setter fam (of_nat (n + 64 + 24) # [l1, l2, l3] @ be_word 8 rd @ take (PREFIX_SIZE n - 1) d @ r') True =
      Inr (\<lparr>nl_addr = setter d (addr0\<lparr>aid := fam, labelstack := [], rd8 := rd\<rparr>), nl_evpn = evpn0, nl_plen = of_nat n\<rparr>, r')"
    unfolding get_vpn_def get_n8_Cons res_bind.simps prod.case w ll using assms(2) e by (simp add: get_addr_def)
qed

text \<open>The fields of a VPN prefix, for both families.\<close>

lemma vpn_fields_again:
  assumes "extract_prefix_buf b n mx = Inr (d, r)" "n \<le> 8 * mx" "n + 64 + 8 * length labels \<le> 255" "mx \<le> 16"
    "\<forall>r'. label_loop False (n + 64 + 8 * length labels) [] (labels @ r') = Inr (labels, n + 64, r')"
    and p: "nl_plen p = of_nat n" "labelstack (nl_addr p) = labels" "rd8 (nl_addr p) = rd"
  shows "list_all field_ok (vpn_fields d p withdraw)" "length (enc_fields (vpn_fields d p withdraw)) \<le> 100"
    "get_vpn mx setter fam (enc_fields (vpn_fields d p withdraw) @ r') withdraw =
      Inr (\<lparr>nl_addr = setter d (addr0\<lparr>aid := fam, labelstack := if withdraw then [] else labels, rd8 := rd\<rparr>),
            nl_evpn = evpn0, nl_plen = of_nat n\<rparr>, r')"
proof -
  have n: "unat (nl_plen p) = n" using assms(3) p(1) by simp
  have m: "PREFIX_SIZE n - 1 \<le> 16" using assms(2,4) by (simp add: PREFIX_SIZE_def)
  show "list_all field_ok (vpn_fields d p withdraw)"
    using assms(2-4) n p(2) by (auto simp: vpn_fields_def Let_def)
  show "length (enc_fields (vpn_fields d p withdraw)) \<le> 100"
    using assms(3) m n p(2) by (auto simp: vpn_fields_def Let_def)
  show "get_vpn mx setter fam (enc_fields (vpn_fields d p withdraw) @ r') withdraw =
      Inr (\<lparr>nl_addr = setter d (addr0\<lparr>aid := fam, labelstack := if withdraw then [] else labels, rd8 := rd\<rparr>),
            nl_evpn = evpn0, nl_plen = of_nat n\<rparr>, r')"
    using get_vpn_again(1)[OF assms(1,2,3,5), of setter fam rd r'] get_vpn_again(2)[OF assms(1,2,3,5,4), of setter fam 128 0 0 rd r'] n p(2,3)
    by (cases withdraw) (simp_all add: vpn_fields_def Let_def mult.commute numeral_2_eq_2)
qed

lemma rereads_vpn4:
  assumes "nlri_get_vpn4 bs False = Inr (p, r)"
  shows "pt_fill p = Some p" "rereads AID_VPN_IPv4 withdraw p (if withdraw then unlabelled p else p)"
proof -
  obtain labels rd n d b where p: "n + 64 + 8 * length labels \<le> 255" "length labels \<le> LABELSTACK_SIZE" "n \<le> 8 * 4"
    "extract_prefix_buf b n 4 = Inr (d, r)"
    "p = \<lparr>nl_addr = set_v4 d (addr0\<lparr>aid := AID_VPN_IPv4, labelstack := labels, rd8 := rd\<rparr>), nl_evpn = evpn0, nl_plen = of_nat n\<rparr>"
    "\<forall>r'. label_loop False (n + 64 + 8 * length labels) [] (labels @ r') = Inr (labels, n + 64, r')"
    using get_vpn_Inr[OF assms[unfolded nlri_get_vpn4_def]] by blast
  show "pt_fill p = Some p"
    using p(1,3,5) masked_v4[OF p(4)] by (simp add: pt_fill_def set_v4_def addr0_def Let_def min_def)
  have d: "be_word 4 (v4 (nl_addr p)) = d"
    using p(5) extract_prefix_again(1)[OF p(4)] by (simp add: set_v4_def be_word_word_be)
  have q: "(if withdraw then unlabelled p else p) = \<lparr>nl_addr = set_v4 d (addr0\<lparr>aid := AID_VPN_IPv4, labelstack := if withdraw then [] else labels, rd8 := rd\<rparr>),
      nl_evpn = evpn0, nl_plen = of_nat n\<rparr>"
    using p(5) by (simp add: unlabelled_def set_v4_def addr0_def)
  have a: "nl_plen p = of_nat n" "labelstack (nl_addr p) = labels" "rd8 (nl_addr p) = rd" "aid (nl_addr p) = AID_VPN_IPv4"
    using p(5) by (simp_all add: set_v4_def addr0_def)
  show "rereads AID_VPN_IPv4 withdraw p (if withdraw then unlabelled p else p)"
    unfolding rereads_def q using vpn_fields_again(1,2)[OF p(4,3,1) _ p(6) a(1,2,3), of withdraw] vpn_fields_again(3)[OF p(4,3,1) _ p(6) a(1,2,3), of set_v4 _ withdraw] a(4) d
    by (intro exI[of _ "vpn_fields d p withdraw"]) (simp add: pt_fields_def Let_def nlri_get_def nlri_get_vpn4_def)
qed

lemma rereads_vpn6:
  assumes "nlri_get_vpn6 bs False = Inr (p, r)"
  shows "pt_fill p = Some p" "rereads AID_VPN_IPv6 withdraw p (if withdraw then unlabelled p else p)"
proof -
  obtain labels rd n d b where p: "n + 64 + 8 * length labels \<le> 255" "length labels \<le> LABELSTACK_SIZE" "n \<le> 8 * 16"
    "extract_prefix_buf b n 16 = Inr (d, r)"
    "p = \<lparr>nl_addr = set_v6 d (addr0\<lparr>aid := AID_VPN_IPv6, labelstack := labels, rd8 := rd\<rparr>), nl_evpn = evpn0, nl_plen = of_nat n\<rparr>"
    "\<forall>r'. label_loop False (n + 64 + 8 * length labels) [] (labels @ r') = Inr (labels, n + 64, r')"
    using get_vpn_Inr[OF assms[unfolded nlri_get_vpn6_def]] by blast
  show "pt_fill p = Some p"
    using p(1,3,5) masked_v6[OF p(4)] by (simp add: pt_fill_def set_v6_def addr0_def Let_def min_def)
  have d: "be_word 16 (v6 (nl_addr p)) = d"
    using p(5) extract_prefix_again(1)[OF p(4)] by (simp add: set_v6_def be_word_word_be)
  have q: "(if withdraw then unlabelled p else p) = \<lparr>nl_addr = set_v6 d (addr0\<lparr>aid := AID_VPN_IPv6, labelstack := if withdraw then [] else labels, rd8 := rd\<rparr>),
      nl_evpn = evpn0, nl_plen = of_nat n\<rparr>"
    using p(5) by (simp add: unlabelled_def set_v6_def addr0_def)
  have a: "nl_plen p = of_nat n" "labelstack (nl_addr p) = labels" "rd8 (nl_addr p) = rd" "aid (nl_addr p) = AID_VPN_IPv6"
    using p(5) by (simp_all add: set_v6_def addr0_def)
  show "rereads AID_VPN_IPv6 withdraw p (if withdraw then unlabelled p else p)"
    unfolding rereads_def q using vpn_fields_again(1,2)[OF p(4,3,1) _ p(6) a(1,2,3), of withdraw] vpn_fields_again(3)[OF p(4,3,1) _ p(6) a(1,2,3), of set_v6 _ withdraw] a(4) d
    by (intro exI[of _ "vpn_fields d p withdraw"]) (simp add: pt_fields_def Let_def nlri_get_def nlri_get_vpn6_def)
qed

lemma get_n32_be [simp]: "get_n32 (be_word 4 w @ r) = Inr (w, r)"
  by (simp add: get_n32_def word_be_be_word)

text \<open>The destination of an EVPN route is written as it was read.\<close>

lemma evpn_dst_again:
  assumes "get_evpn_dst none_ok pfxlen ev b = Inr (ev', r)" "ev_aid ev = 0"
  shows "\<exists>dst. evpn_dst none_ok ev' = Some [Raw dst] \<and> b = dst @ r \<and> length dst * 8 = unat pfxlen \<and> length dst \<le> 16 \<or>
    evpn_dst none_ok ev' = Some [] \<and> b = r \<and> pfxlen = 0"
    "ev_type ev' = ev_type ev" "esi ev' = esi ev" "ethtag ev' = ethtag ev" "mac ev' = mac ev"
    "ev_v4 ev = 0 \<Longrightarrow> ev_v6 ev = 0 \<Longrightarrow>
       (ev_aid ev' = 0 \<and> ev_v4 ev' = 0 \<and> ev_v6 ev' = 0) \<or> (ev_aid ev' = AID_INET \<and> unat pfxlen = 32 \<and> ev_v6 ev' = 0) \<or>
       (ev_aid ev' = AID_INET6 \<and> unat pfxlen = 128 \<and> ev_v4 ev' = 0)"
  using assms by (auto simp: get_evpn_dst_def evpn_dst_def res_bind_Inr_iff get_bytes_Inr be_word_word_be split: if_splits)

lemma rereads_evpn2:
  assumes g: "get_evpn2 b = Inr p"
  shows "pt_fill p = Some p" "\<exists>xs. evpn_fields p = Some ([N8 2, N8 (length b)] @ xs) \<and> enc_fields xs = b \<and> list_all field_ok xs \<and> length b \<le> 60"
    "aid (nl_addr p) = AID_EVPN"
proof -
  obtain rd es tag m pfxlen b1 ev lb where b: "b = be_word 8 rd @ es @ be_word 4 tag @ 48 # m @ pfxlen # b1" "length es = 10" "length m = 6"
    and d: "get_evpn_dst True pfxlen (evpn0\<lparr>ev_type := EVPN_ROUTE_TYPE_2, esi := es, ethtag := tag, mac := m\<rparr>) b1 = Inr (ev, lb)"
    and l: "length lb = 3 \<or> length lb = 6"
    and p: "p = \<lparr>nl_addr = addr0\<lparr>aid := AID_EVPN, rd8 := rd, labelstack := lb\<rparr>, nl_evpn = ev, nl_plen = pfxlen\<rparr>"
    using g by (auto simp: get_evpn2_def res_bind_Inr_iff get_n8_Inr get_bytes_Inr ESI_ADDR_LEN_def ETHER_ADDR_LEN_def
        dest!: get_n64_Inr get_n32_Inr split: if_splits)
  note e = evpn_dst_again[OF d]
  have ev: "ev_type ev = EVPN_ROUTE_TYPE_2" "esi ev = es" "ethtag ev = tag" "mac ev = m"
    using e(2-5) by (simp_all add: evpn0_def)
  show "aid (nl_addr p) = AID_EVPN" by (simp add: p)
  show "pt_fill p = Some p"
    using e(6) p by (auto simp: pt_fill_def Let_def evpn0_def addr0_def min_def)
  obtain xd dst where x: "evpn_dst True ev = Some xd" "enc_fields xd = dst" "b1 = dst @ lb" "length dst * 8 = unat pfxlen"
    "length dst \<le> 16" "list_all field_ok xd"
    using e(1) by (auto simp: evpn0_def)
  have plen: "PREFIX_SIZE (8 * 8 + ESI_ADDR_LEN * 8 + 4 * 8 + 8 + ETHER_ADDR_LEN * 8 + 8 + unat pfxlen + length lb * 8) - 1 = length b"
    using x(3,4) b by (simp add: PREFIX_SIZE_def ESI_ADDR_LEN_def ETHER_ADDR_LEN_def)
  show "\<exists>xs. evpn_fields p = Some ([N8 2, N8 (length b)] @ xs) \<and> enc_fields xs = b \<and> list_all field_ok xs \<and> length b \<le> 60"
    using x l b plen unat_u8_less[of pfxlen]
    by (auto simp: evpn_fields_def Let_def p ev EVPN_ROUTE_TYPE_2_def ETHER_ADDR_LEN_def)
qed

lemma rereads_evpn3:
  assumes g: "get_evpn3 b = Inr p"
  shows "pt_fill p = Some p" "\<exists>xs. evpn_fields p = Some ([N8 3, N8 (length b)] @ xs) \<and> enc_fields xs = b \<and> list_all field_ok xs \<and> length b \<le> 60"
    "aid (nl_addr p) = AID_EVPN"
proof -
  obtain rd tag pfxlen b1 ev where b: "b = be_word 8 rd @ be_word 4 tag @ pfxlen # b1"
    and d: "get_evpn_dst False pfxlen (evpn0\<lparr>ev_type := EVPN_ROUTE_TYPE_3, ethtag := tag\<rparr>) b1 = Inr (ev, [])"
    and p: "p = \<lparr>nl_addr = addr0\<lparr>aid := AID_EVPN, rd8 := rd\<rparr>, nl_evpn = ev, nl_plen = pfxlen\<rparr>"
    using g by (auto simp: get_evpn3_def res_bind_Inr_iff get_n8_Inr dest!: get_n64_Inr get_n32_Inr split: if_splits)
  note e = evpn_dst_again[OF d]
  have ev: "ev_type ev = EVPN_ROUTE_TYPE_3" "ethtag ev = tag" using e(2-5) by (simp_all add: evpn0_def)
  show "aid (nl_addr p) = AID_EVPN" by (simp add: p)
  show "pt_fill p = Some p"
    using e(6) p by (auto simp: pt_fill_def Let_def evpn0_def addr0_def min_def)
  obtain xd where x: "evpn_dst False ev = Some xd" "enc_fields xd = b1" "length b1 * 8 = unat pfxlen"
    "length b1 \<le> 16" "list_all field_ok xd"
    using e(1) by (auto simp: evpn0_def)
  have plen: "PREFIX_SIZE (8 * 8 + 4 * 8 + 8 + unat pfxlen) - 1 = length b"
    using x(3) b by (simp add: PREFIX_SIZE_def)
  show "\<exists>xs. evpn_fields p = Some ([N8 3, N8 (length b)] @ xs) \<and> enc_fields xs = b \<and> list_all field_ok xs \<and> length b \<le> 60"
    using x b plen unat_u8_less[of pfxlen]
    by (auto simp: evpn_fields_def Let_def p ev EVPN_ROUTE_TYPE_2_def EVPN_ROUTE_TYPE_3_def)
qed

lemma rereads_evpn:
  assumes "nlri_get_evpn bs = Inr (p, r)"
  shows "pt_fill p = Some p" "rereads AID_EVPN withdraw p p" "aid (nl_addr p) = AID_EVPN"
proof -
  obtain t n b where b: "bs = t # n # b @ r" "length b = unat n" "t = 2 \<and> get_evpn2 b = Inr p \<or> t = 3 \<and> get_evpn3 b = Inr p"
    using assms by (auto simp: nlri_get_evpn_def res_bind_Inr_iff get_n8_Inr get_bytes_Inr EVPN_ROUTE_TYPE_2_def EVPN_ROUTE_TYPE_3_def split: if_splits)
  then obtain xs where x: "evpn_fields p = Some ([N8 (unat t), N8 (length b)] @ xs)" "enc_fields xs = b" "list_all field_ok xs" "length b \<le> 60"
    "pt_fill p = Some p" "aid (nl_addr p) = AID_EVPN"
    using rereads_evpn2[of b p] rereads_evpn3[of b p] by auto
  have n: "(of_nat (length b) :: u8) = n" using b(2) by simp
  have "nlri_get_evpn (t # n # b @ r') = Inr (p, r')" for r'
    using b(2,3) by (auto simp: nlri_get_evpn_def EVPN_ROUTE_TYPE_2_def EVPN_ROUTE_TYPE_3_def)
  then show "rereads AID_EVPN withdraw p p"
    unfolding rereads_def using x n b(3)
    by (intro exI[of _ "[N8 (unat t), N8 (length b)] @ xs"]) (auto simp: pt_fields_def Let_def nlri_get_def)
  show "pt_fill p = Some p" "aid (nl_addr p) = AID_EVPN" using x by auto
qed

lemma nlri_get_rereads:
  assumes "nlri_get fam False bs = Some (Inr (p, r))"
  shows "pt_fill p = Some p" "rereads fam withdraw p (if withdraw then unlabelled p else p)"
proof -
  have q: "pt_fill p = Some p \<and> rereads fam withdraw p (if withdraw then unlabelled p else p)"
  proof -
    consider "fam = AID_INET" "nlri_get_prefix bs = Inr (p, r)" | "fam = AID_INET6" "nlri_get_prefix6 bs = Inr (p, r)"
      | "fam = AID_VPN_IPv4" "nlri_get_vpn4 bs False = Inr (p, r)" | "fam = AID_VPN_IPv6" "nlri_get_vpn6 bs False = Inr (p, r)"
      | "fam = AID_EVPN" "nlri_get_evpn bs = Inr (p, r)"
      using assms by (auto simp: nlri_get_def split: if_splits)
    then show ?thesis
    proof cases
      case 1
      moreover have "unlabelled p = p"
        using 1(2) by (auto simp: nlri_get_prefix_def get_addr_Inr res_bind_Inr_iff unlabelled_def set_v4_def addr0_def)
      ultimately show ?thesis using rereads_v4[OF 1(2)] by simp
    next
      case 2
      moreover have "unlabelled p = p"
        using 2(2) by (auto simp: nlri_get_prefix6_def get_addr_Inr res_bind_Inr_iff unlabelled_def set_v6_def addr0_def)
      ultimately show ?thesis using rereads_v6[OF 2(2)] by simp
    next
      case 3
      then show ?thesis using rereads_vpn4(1)[OF 3(2)] rereads_vpn4(2)[OF 3(2), of withdraw] by auto
    next
      case 4
      then show ?thesis using rereads_vpn6(1)[OF 4(2)] rereads_vpn6(2)[OF 4(2), of withdraw] by auto
    next
      case 5
      then show ?thesis using rereads_evpn(1,3)[OF 5(2)] rereads_evpn(2)[OF 5(2), of withdraw] by (auto simp: unlabelled_def)
    qed
  qed
  then show "pt_fill p = Some p" "rereads fam withdraw p (if withdraw then unlabelled p else p)" by auto
qed

text \<open>
  C38: every prefix read from an UPDATE message, of any family and whatever bits follow the prefix, can be
  announced and withdrawn again: pt_fill() leaves it as it is, pt_writebuf() writes it, behind the path
  identifier if there is one, and reading what was written gives the same prefix, for a withdrawal
  without its labels.
\<close>

theorem nlri_roundtrip:
  assumes "nlri_get fam False bs = Some (Inr (p, r))" and "\<forall>n. ca n" and "roomy buf 106"
  shows "pt_fill p = Some p \<and> (\<exists>buf' enc. pt_writebuf ca buf (Pt p) withdraw add_path pathid = Inr buf' \<and>
    ibuf_content buf' = ibuf_content buf @ (if add_path then be_word 4 pathid else []) @ enc \<and>
    (\<forall>r'. nlri_get fam withdraw (enc @ r') = Some (Inr (if withdraw then unlabelled p else p, r'))))"
proof -
  obtain xs where x: "pt_fields (Pt p) withdraw = Inr (Some xs)" "list_all field_ok xs" "length (enc_fields xs) \<le> 100"
    "\<And>r'. nlri_get fam withdraw (enc_fields xs @ r') = Some (Inr (if withdraw then unlabelled p else p, r'))"
    using nlri_get_rereads(2)[OF assms(1), of withdraw] by (auto simp: rereads_def)
  have "roomy buf (length (enc_fields xs) + 6)" using assms(3) x(3) by (simp add: roomy_def)
  then show ?thesis using pt_writebuf_roomy[OF x(1,2) assms(2), of buf add_path pathid] x(3,4) nlri_get_rereads(1)[OF assms(1)] by auto
qed

theorem nlri_roundtrip_witness:
  "\<exists>p r buf. nlri_get AID_INET False [20, 10, 1, 0xff, 7] = Some (Inr (p, r)) \<and> ibuf_open (\<lambda>_. True) 200 = Inr buf \<and>
     (\<exists>buf' enc. pt_writebuf (\<lambda>_. True) buf (Pt p) True True 9 = Inr buf' \<and> ibuf_content buf' = ibuf_content buf @ be_word 4 (9 :: u32) @ enc \<and>
     nlri_get AID_INET True enc = Some (Inr (unlabelled p, [])))"
proof -
  obtain p r where p: "nlri_get AID_INET False [20, 10, 1, 0xff, 7] = Some (Inr (p, r))"
    by (simp add: nlri_get_def nlri_get_prefix_def get_addr_def extract_prefix_buf_def extract_loop.simps PREFIX_SIZE_def)
  obtain buf where b: "ibuf_open (\<lambda>_. True) 200 = Inr buf" "roomy buf 106"
    by (auto simp: ibuf_open_def roomy_def ibuf_wf_def ibuf_left_def SIZE_MAX_def IBUF_FD_MARK_ON_STACK_def)
  show ?thesis using nlri_roundtrip[OF p _ b(2), of "\<lambda>_. True" True True 9] p b(1)
    by simp (metis append_Nil2)
qed

text \<open>
  C40: a flow specification of 256 bytes or more is never announced: the second byte of its length is
  written from the whole length, which does not fit, and pt_writebuf() fails for every buffer.
\<close>

theorem long_flow_never_written:
  assumes "256 \<le> length flow" "length flow < 2 ^ 16"
  shows "\<exists>e. pt_writebuf ca buf (Pt_flow fam flow) withdraw add_path pathid = Inl e"
proof -
  have "(of_nat (length flow) :: u64) > 0xff"
    using assms by (simp add: word_less_nat_alt unat_of_nat take_bit_nat_eq_self)
  then have "ibuf_add_n8 ca b (of_nat (length flow)) = Inl EINVAL" for b by (simp add: ibuf_add_n8_def)
  then have "\<exists>e. put_fields ca (flow_fields flow) b = Inl e" for b
    using assms by (cases "put_field ca (N8 (or 0xf0 (drop_bit 8 (length flow)))) b") (auto simp: flow_fields_def Let_def FLOWSPEC_LEN_LIMIT_def)
  then have f: "\<exists>e. res_bind (put_fields ca (flow_fields flow) b) g = Inl e" for b g by (metis res_bind.simps(1))
  show ?thesis
    by (cases "ibuf_dynamic ca 32 UINT16_MAX"; cases "if add_path then ibuf_add_n32 ca (projr (ibuf_dynamic ca 32 UINT16_MAX)) (ucast pathid)
        else Inr (projr (ibuf_dynamic ca 32 UINT16_MAX))") (use f in \<open>auto simp: pt_writebuf_def pt_fields_def\<close>)
qed

theorem long_flow_never_written_witness:
  "\<exists>e. pt_writebuf (\<lambda>_. True) (ibuf_from_buffer []) (Pt_flow AID_FLOWSPECv4 (replicate 256 0)) False False 0 = Inl e"
  using long_flow_never_written[of "replicate 256 0"] by simp

lemma cmp_of_0 [simp]: "cmp_of a b = 0 \<longleftrightarrow> a = b"
  by (auto simp: cmp_of_def)

lemma first_cmp_0: "first_cmp cs = 0 \<longleftrightarrow> (\<forall>c\<in>set cs. c = 0)"
  by (induction cs) auto

lemma sign_memcmp_0: "length a = length b \<Longrightarrow> sign (memcmp a b) = 0 \<longleftrightarrow> a = b"
  by (simp add: sign_def memcmp_eq_0)

lemma s6_addr_inject: "s6_addr a = s6_addr b \<longleftrightarrow> a = b"
proof -
  have "word_be (s6_addr x) = x" for x :: in6_addr by (rule word_be_be_word) simp
  then show ?thesis by metis
qed

text \<open>A prefix as read: the fields that do not belong to its family are zero.\<close>

lemma nlri_get_shape:
  assumes "nlri_get fam False bs = Some (Inr (p, r))" "fam \<noteq> AID_EVPN"
  shows "aid (nl_addr p) = fam" "nl_evpn p = evpn0" "scope_id (nl_addr p) = 0"
    "fam = AID_INET \<or> fam = AID_VPN_IPv4 \<Longrightarrow> v6 (nl_addr p) = 0" "fam = AID_INET6 \<or> fam = AID_VPN_IPv6 \<Longrightarrow> v4 (nl_addr p) = 0"
    "fam = AID_INET \<or> fam = AID_INET6 \<Longrightarrow> rd8 (nl_addr p) = 0"
    "fam \<in> {AID_INET, AID_INET6, AID_VPN_IPv4, AID_VPN_IPv6}"
  using assms
  by (auto simp: nlri_get_def nlri_get_prefix_def nlri_get_prefix6_def nlri_get_vpn4_def nlri_get_vpn6_def get_vpn_def
      res_bind_Inr_iff get_addr_Inr set_v4_def set_v6_def addr0_def split: if_splits)

text \<open>
  C39: the order of the prefix tree tells prefixes of IPv4, IPv6 and their VPN families apart exactly by family,
  route distinguisher, address and length: two prefixes read from messages compare equal if and only
  if they differ at most in their labels.
\<close>

theorem pt_prefix_cmp_same:
  assumes "nlri_get fam False bs = Some (Inr (p, r))" "nlri_get fam' False bs' = Some (Inr (q, r'))"
    "fam \<noteq> AID_EVPN" "fam' \<noteq> AID_EVPN"
  shows "pt_prefix_cmp p q = Inr 0 \<longleftrightarrow> unlabelled p = unlabelled q"
  using nlri_get_shape[OF assms(1,3)] nlri_get_shape[OF assms(2,4)]
  by (cases p; cases q; cases "nl_addr p"; cases "nl_addr q")
     (auto simp: pt_prefix_cmp_def Let_def first_cmp_0 sign_memcmp_0 s6_addr_inject unlabelled_def)

theorem pt_prefix_cmp_same_witness:
  "\<exists>p q r r'. nlri_get AID_INET False [8, 10] = Some (Inr (p, r)) \<and> nlri_get AID_INET False [8, 11] = Some (Inr (q, r')) \<and>
     pt_prefix_cmp p q \<noteq> Inr 0"
proof -
  have "\<exists>p r. nlri_get AID_INET False [8, x] = Some (Inr (p, r)) \<and> v4 (nl_addr p) = word_be [x, 0, 0, 0]" for x
    by (simp add: nlri_get_def nlri_get_prefix_def get_addr_def extract_prefix_buf_def extract_loop.simps PREFIX_SIZE_def set_v4_def upt_rec
        numeral_3_eq_3)
  from this[of 10] this[of 11] obtain p q r r' where pq: "nlri_get AID_INET False [8, 10] = Some (Inr (p, r))" "v4 (nl_addr p) = word_be [10, 0, 0, 0]"
    "nlri_get AID_INET False [8, 11] = Some (Inr (q, r'))" "v4 (nl_addr q) = word_be [11, 0, 0, 0]" by auto
  have "v4 (nl_addr p) \<noteq> v4 (nl_addr q)" unfolding pq(2,4) by (simp add: word_be_eq_iff)
  moreover have "v4 (nl_addr (unlabelled x)) = v4 (nl_addr x)" for x by (simp add: unlabelled_def)
  ultimately have "unlabelled p \<noteq> unlabelled q" by metis
  then show ?thesis using pt_prefix_cmp_same[OF pq(1,3)] pq(1,3) by auto
qed

text \<open>
  EVPN routes with the same Ethernet tag, MAC address and destination share one entry, whatever
  their route distinguisher and their type.
\<close>

lemma evpn_cmp_ignores_rd:
  assumes "aid (nl_addr p) = AID_EVPN" "ev_aid (nl_evpn p) \<in> {AID_UNSPEC, AID_INET, AID_INET6}"
    "q = p\<lparr>nl_addr := (nl_addr p)\<lparr>rd8 := d\<rparr>, nl_evpn := (nl_evpn p)\<lparr>ev_type := t\<rparr>\<rparr>"
  shows "pt_prefix_cmp p q = Inr 0"
proof -
  have "memcmp x x = 0" for x by (simp add: memcmp_eq_0)
  then show ?thesis using assms by (auto simp: pt_prefix_cmp_def Let_def sign_def)
qed

end
