(* ===== verification/Rde_Decide.thy ===== *)
theory Rde_Decide
  imports Attr Addr Timer
begin

text \<open>
  The decision process of usr.sbin/bgpd/rde_decide.c: the comparison of two paths to the same
  prefix, and the list of paths of a rib entry that prefix_evaluate() keeps in order of preference.
  A prefix is a value with the identity of its pointer; the dmetric field, which the list
  operations write, is a map from that identity in the rib entry. The message to the kernel routing table and the
  queueing of updates, which rde.c does, are events in the order of the calls.
\<close>

section \<open>Data\<close>

record rde_peer =
  peer_id :: nat
  ebgp :: u8
  remote_bgpid :: u32
  remote_addr :: bgpd_addr

record prefix =
  p_id :: nat
  p_aspath :: "rde_aspath option"
  p_peer :: rde_peer
  lastchange :: monotime
  path_id :: u32
  path_id_tx :: u32
  p_flags :: u8
  nhflags :: u8

record rib_entry =
  prefix_h :: "prefix list"
  dmetric :: "nat \<Rightarrow> int"

text \<open>What the decision process reads of the rest of the RDE.\<close>

record decision_env =
  conf_flags :: u32
  env_local_as :: u32
  env_attrs :: attr_state

definition BGPD_FLAG_DECISION_MASK :: u32 where "BGPD_FLAG_DECISION_MASK = 0x0f00"
definition BGPD_FLAG_DECISION_ROUTEAGE :: u32 where "BGPD_FLAG_DECISION_ROUTEAGE = 0x0100"
definition BGPD_FLAG_DECISION_MED_ALWAYS :: u32 where "BGPD_FLAG_DECISION_MED_ALWAYS = 0x0400"

definition F_ATTR_LOOP :: u32 where "F_ATTR_LOOP = 0x00200"
definition F_ATTR_OTC_LEAK :: u32 where "F_ATTR_OTC_LEAK = 0x02000"
definition F_ATTR_PARSE_ERR :: u32 where "F_ATTR_PARSE_ERR = 0x10000"

definition PREFIX_FLAG_FILTERED :: u8 where "PREFIX_FLAG_FILTERED = 0x04"
definition NEXTHOP_VALID :: u8 where "NEXTHOP_VALID = 0x80"

definition PREFIX_DMETRIC_INVALID :: int where "PREFIX_DMETRIC_INVALID = 1"
definition PREFIX_DMETRIC_BEST :: int where "PREFIX_DMETRIC_BEST = 5"

definition ATTR_ORIGINATOR_ID :: u8 where "ATTR_ORIGINATOR_ID = 9"
definition ATTR_CLUSTER_LIST :: u8 where "ATTR_CLUSTER_LIST = 10"

definition F_RIB_NOEVALUATE :: u16 where "F_RIB_NOEVALUATE = 0x0002"
definition F_RIB_NOFIB :: u16 where "F_RIB_NOFIB = 0x0004"

definition rde_decisionflags :: "decision_env \<Rightarrow> u32" where
  "rde_decisionflags env = conf_flags env AND BGPD_FLAG_DECISION_MASK"

definition med_always :: "decision_env \<Rightarrow> bool" where
  "med_always env = (rde_decisionflags env AND BGPD_FLAG_DECISION_MED_ALWAYS \<noteq> 0)"

definition route_age :: "decision_env \<Rightarrow> bool" where
  "route_age env = (rde_decisionflags env AND BGPD_FLAG_DECISION_ROUTEAGE \<noteq> 0)"

definition prefix_filtered :: "prefix \<Rightarrow> bool" where
  "prefix_filtered p = (p_flags p AND PREFIX_FLAG_FILTERED \<noteq> 0)"

definition prefix_nhvalid :: "prefix \<Rightarrow> bool" where
  "prefix_nhvalid p = (nhflags p AND NEXTHOP_VALID \<noteq> 0)"

definition prefix_eligible :: "prefix \<Rightarrow> bool" where
  "prefix_eligible p =
     (if prefix_filtered p then False
      else case p_aspath p of
        None \<Rightarrow> False
      | Some asp \<Rightarrow>
          if asp_flags asp AND (F_ATTR_LOOP OR F_ATTR_OTC_LEAK OR F_ATTR_PARSE_ERR) \<noteq> 0 then False
          else if \<not> prefix_nhvalid p then False
          else True)"

section \<open>Comparison\<close>

text \<open>The router identifier of step 10: a short ORIGINATOR_ID makes the copy read past its data.\<close>

definition cmp_bgpid :: "decision_env \<Rightarrow> prefix \<Rightarrow> rde_aspath \<Rightarrow> u32 res" where
  "cmp_bgpid env p asp =
     (case attr_optget (env_attrs env) asp ATTR_ORIGINATOR_ID of
        None \<Rightarrow> Inr (remote_bgpid (p_peer p))
      | Some a \<Rightarrow>
          (case at_heap (env_attrs env) a of
             None \<Rightarrow> Inl OutOfBounds
           | Some at \<Rightarrow> if length (a_data at) < 4 then Inl OutOfBounds else Inr (word_be (take 4 (a_data at)))))"

definition cluster_cnt :: "decision_env \<Rightarrow> rde_aspath \<Rightarrow> nat res" where
  "cluster_cnt env asp =
     (case attr_optget (env_attrs env) asp ATTR_CLUSTER_LIST of
        None \<Rightarrow> Inr 0
      | Some a \<Rightarrow>
          (case at_heap (env_attrs env) a of
             None \<Rightarrow> Inl OutOfBounds
           | Some at \<Rightarrow> Inr (length (a_data at) div 4)))"

text \<open>Steps 12 and 13, the peer address and the path identifier.\<close>

definition cmp_addr :: "prefix \<Rightarrow> prefix \<Rightarrow> int res" where
  "cmp_addr p1 p2 =
     (let a1 = remote_addr (p_peer p1); a2 = remote_addr (p_peer p2); rv = 4 in
      if aid a1 < aid a2 then Inr rv
      else if aid a1 > aid a2 then Inr (- rv)
      else if aid a1 \<noteq> AID_INET \<and> aid a1 \<noteq> AID_INET6 then Inl Fatal
      else if (if aid a1 = AID_INET then v4 a1 < v4 a2 else v6 a1 < v6 a2) then Inr rv
      else if (if aid a1 = AID_INET then v4 a1 > v4 a2 else v6 a1 > v6 a2) then Inr (- rv)
      else if path_id p1 < path_id p2 then Inr rv
      else if path_id p1 > path_id p2 then Inr (- rv)
      else Inl Fatal)"

text \<open>Steps 6 to 11, then the rest.\<close>

definition cmp_late :: "decision_env \<Rightarrow> prefix \<Rightarrow> rde_aspath \<Rightarrow> prefix \<Rightarrow> rde_aspath \<Rightarrow> int res" where
  "cmp_late env p1 asp1 p2 asp2 =
     (let e1 = ebgp (p_peer p1); e2 = ebgp (p_peer p2) in
      if e1 \<noteq> e2 \<and> e1 \<noteq> 0 then Inr 2
      else if e1 \<noteq> e2 \<and> e2 \<noteq> 0 then Inr (-2)
      else if weight asp1 > weight asp2 then Inr 3
      else if weight asp1 < weight asp2 then Inr (-3)
      else if route_age env \<and> monotime_cmp (lastchange p1) (lastchange p2) = -1 then Inr 4
      else if route_age env \<and> monotime_cmp (lastchange p1) (lastchange p2) = 1 then Inr (-4)
      else res_bind (cmp_bgpid env p1 asp1) (\<lambda>p1id. res_bind (cmp_bgpid env p2 asp2) (\<lambda>p2id.
        if p1id < p2id then Inr 4
        else if p1id > p2id then Inr (-4)
        else res_bind (cluster_cnt env asp1) (\<lambda>p1cnt. res_bind (cluster_cnt env asp2) (\<lambda>p2cnt.
          if p1cnt < p2cnt then Inr 4
          else if p1cnt > p2cnt then Inr (-4)
          else cmp_addr p1 p2)))))"

text \<open>The value and the testall flag; None is the NULL pointer.\<close>

definition prefix_cmp :: "decision_env \<Rightarrow> prefix option \<Rightarrow> prefix option \<Rightarrow> (int \<times> nat) res" where
  "prefix_cmp env o1 o2 =
     (case o1 of None \<Rightarrow> Inr (-1, 0)
      | Some p1 \<Rightarrow> (case o2 of None \<Rightarrow> Inr (1, 0)
      | Some p2 \<Rightarrow>
        if \<not> prefix_eligible p2 then Inr (1, 0)
        else if \<not> prefix_eligible p1 then Inr (-1, 0)
        else (case (p_aspath p1, p_aspath p2) of
          (Some asp1, Some asp2) \<Rightarrow>
            if lpref asp1 > lpref asp2 then Inr (2, 0)
            else if lpref asp1 < lpref asp2 then Inr (-2, 0)
            else if ap_ascnt (asp_aspath asp1) < ap_ascnt (asp_aspath asp2) then Inr (2, 0)
            else if ap_ascnt (asp_aspath asp1) > ap_ascnt (asp_aspath asp2) then Inr (-2, 0)
            else if origin asp1 < origin asp2 then Inr (2, 0)
            else if origin asp1 > origin asp2 then Inr (-2, 0)
            else res_bind (if med_always env then Inr True
                           else res_bind (aspath_neighbor (env_local_as env) (asp_aspath asp1)) (\<lambda>n1.
                                res_bind (aspath_neighbor (env_local_as env) (asp_aspath asp2)) (\<lambda>n2.
                                  Inr (n1 = n2)))) (\<lambda>comparable.
              if comparable \<and> med asp1 < med asp2 then Inr (2, if med_always env then 0 else 2)
              else if comparable \<and> med asp1 > med asp2 then Inr (-2, if med_always env then 0 else 2)
              else res_bind (cmp_late env p1 asp1 p2 asp2) (\<lambda>rv. Inr (rv, if med_always env then 0 else 1)))
        | _ \<Rightarrow> Inl Fatal)))"

section \<open>The list of a rib entry\<close>

definition prefix_set_dmetric ::
  "decision_env \<Rightarrow> (nat \<Rightarrow> int) \<Rightarrow> prefix option \<Rightarrow> prefix option \<Rightarrow> (nat \<Rightarrow> int) res" where
  "prefix_set_dmetric env dm pp np =
     (case np of None \<Rightarrow> Inr dm
      | Some x \<Rightarrow>
          (case pp of
             None \<Rightarrow> Inr (dm(p_id x := (if prefix_eligible x then PREFIX_DMETRIC_BEST else PREFIX_DMETRIC_INVALID)))
           | Some _ \<Rightarrow> res_bind (prefix_cmp env pp np) (\<lambda>(c, testall). Inr (dm(p_id x := c)))))"

definition last_opt :: "'a list \<Rightarrow> 'a option" where
  "last_opt xs = (if xs = [] then None else Some (last xs))"

definition hd_opt :: "'a list \<Rightarrow> 'a option" where
  "hd_opt xs = (case xs of [] \<Rightarrow> None | x # _ \<Rightarrow> Some x)"

text \<open>
  The state of the scan of prefix_insert(): the elements left of the scan position that are still
  on the list, the insertion point, the flags selected and removed, the redo queue and dmetric.
\<close>

record scan_state =
  sc_done :: "prefix list"
  insertp :: "prefix option"
  selected :: bool
  removed :: bool
  redo :: "prefix list"
  sc_dm :: "nat \<Rightarrow> int"

definition fix_removed :: "decision_env \<Rightarrow> scan_state \<Rightarrow> prefix \<Rightarrow> scan_state res" where
  "fix_removed env s xp =
     (if removed s
      then res_bind (prefix_set_dmetric env (sc_dm s) (last_opt (sc_done s)) (Some xp)) (\<lambda>dm.
             Inr (s\<lparr>sc_dm := dm, removed := False\<rparr>))
      else Inr s)"

text \<open>The loop; the second component of the result is the part of the list behind the scan.\<close>

fun insert_scan :: "decision_env \<Rightarrow> prefix \<Rightarrow> scan_state \<Rightarrow> prefix list \<Rightarrow> (scan_state \<times> prefix list) res" where
  "insert_scan env new s [] = Inr (s, [])"
| "insert_scan env new s (xp # rest) =
     res_bind (prefix_cmp env (Some new) (Some xp)) (\<lambda>(c, testall).
       if c > 0 then
         if testall = 2 then insert_scan env new (s\<lparr>redo := redo s @ [xp], removed := True\<rparr>) rest
         else
           let s1 = (if testall = 1 then s\<lparr>selected := True\<rparr> else s) in
           res_bind (fix_removed env s1 xp) (\<lambda>s2.
             if testall = 0 then Inr (s2\<lparr>sc_done := sc_done s2 @ [xp]\<rparr>, rest)
             else insert_scan env new (s2\<lparr>sc_done := sc_done s2 @ [xp]\<rparr>) rest)
       else
         let s1 = (if testall = 2 then s\<lparr>selected := False\<rparr> else s);
             s2 = (if \<not> selected s1 then s1\<lparr>insertp := Some xp\<rparr> else s1) in
         res_bind (fix_removed env s2 xp) (\<lambda>s3.
           insert_scan env new (s3\<lparr>sc_done := sc_done s3 @ [xp]\<rparr>) rest))"

text \<open>TAILQ_INSERT_AFTER: the list up to the element with the given identity, and the rest.\<close>

fun split_after :: "nat \<Rightarrow> prefix list \<Rightarrow> prefix list \<times> prefix list" where
  "split_after i [] = ([], [])"
| "split_after i (x # xs) =
     (if p_id x = i then ([x], xs) else let (a, b) = split_after i xs in (x # a, b))"

primrec res_foldl :: "('s \<Rightarrow> 'a \<Rightarrow> 's res) \<Rightarrow> 's \<Rightarrow> 'a list \<Rightarrow> 's res" where
  "res_foldl f s [] = Inr s"
| "res_foldl f s (x # xs) = res_bind (f s x) (\<lambda>s'. res_foldl f s' xs)"

lemma res_foldl_cong [fundef_cong]:
  "xs = ys \<Longrightarrow> s = t \<Longrightarrow> (\<And>s x. x \<in> set ys \<Longrightarrow> f s x = g s x) \<Longrightarrow> res_foldl f s xs = res_foldl g t ys"
proof (induction ys arbitrary: xs s t)
  case (Cons y ys)
  then have "res_foldl f s' ys = res_foldl g s' ys" for s' by simp
  then show ?case using Cons.prems by simp
qed simp

lemma res_bind_cong [fundef_cong]:
  "m = n \<Longrightarrow> (\<And>x. n = Inr x \<Longrightarrow> f x = g x) \<Longrightarrow> res_bind m f = res_bind n g"
  by (cases n) auto

text \<open>The MED of a path; a path is only put on the redo queue of one with a smaller MED.\<close>

definition med_of :: "prefix \<Rightarrow> nat" where
  "med_of p = (case p_aspath p of None \<Rightarrow> 0 | Some asp \<Rightarrow> unat (med asp))"

lemma prefix_cmp_testall2:
  "prefix_cmp env (Some a) (Some b) = Inr (c, 2) \<Longrightarrow> c > 0 \<Longrightarrow> med_of a < med_of b"
  by (auto simp: prefix_cmp_def med_of_def word_less_nat_alt res_bind_Inr_iff
      split: if_splits option.splits)

lemma fix_removed_redo: "fix_removed env s x = Inr s' \<Longrightarrow> redo s' = redo s"
  by (auto simp: fix_removed_def res_bind_Inr_iff split: if_splits)

lemma insert_scan_redo:
  "insert_scan env new s rest = Inr (s', rest') \<Longrightarrow> x \<in> set (redo s') \<Longrightarrow>
     x \<in> set (redo s) \<or> med_of new < med_of x"
proof (induction rest arbitrary: s)
  case (Cons xp rest)
  obtain c t where c: "prefix_cmp env (Some new) (Some xp) = Inr (c, t)"
    using Cons.prems(1) by (auto simp: res_bind_Inr_iff)
  show ?case
  proof (cases "c > 0 \<and> t = 2")
    case True
    then have "insert_scan env new (s\<lparr>redo := redo s @ [xp], removed := True\<rparr>) rest = Inr (s', rest')"
      using Cons.prems(1) c by simp
    from Cons.IH[OF this Cons.prems(2)] show ?thesis using prefix_cmp_testall2[of env new xp c] c True by auto
  next
    case False
    then obtain s2 where "redo s2 = redo s" and r: "insert_scan env new (s2\<lparr>sc_done := sc_done s2 @ [xp]\<rparr>) rest = Inr (s', rest') \<or> redo s' = redo s2"
      using Cons.prems(1) c by (auto simp: res_bind_Inr_iff Let_def dest: fix_removed_redo split: if_splits)
    then show ?thesis using r Cons.IH[of "s2\<lparr>sc_done := sc_done s2 @ [xp]\<rparr>"] Cons.prems(2) by auto
  qed
qed simp

text \<open>
  prefix_insert(): with ep the scan starts there and the insertion point is ep unless it moves. The
  redo queue is reinserted behind new.
\<close>

function (sequential) prefix_insert ::
  "decision_env \<Rightarrow> prefix \<Rightarrow> prefix option \<Rightarrow> rib_entry \<Rightarrow> rib_entry res" where
  "prefix_insert env new ep re =
     (let left = (case ep of None \<Rightarrow> [] | Some e \<Rightarrow> takeWhile (\<lambda>x. p_id x \<noteq> p_id e) (prefix_h re));
          right = drop (length left) (prefix_h re) in
      res_bind (insert_scan env new
          \<lparr>sc_done = left, insertp = ep, selected = False, removed = False, redo = [], sc_dm = dmetric re\<rparr> right)
        (\<lambda>(s, rest).
          let xs = sc_done s @ rest;
              (before, after) = (case insertp s of None \<Rightarrow> ([], xs) | Some i \<Rightarrow> split_after (p_id i) xs) in
          res_bind (prefix_set_dmetric env (sc_dm s) (insertp s) (Some new)) (\<lambda>dm1.
          res_bind (prefix_set_dmetric env dm1 (Some new) (hd_opt after)) (\<lambda>dm2.
            res_foldl (\<lambda>re xp. prefix_insert env xp (Some new) re)
              (re\<lparr>prefix_h := before @ new # after, dmetric := dm2\<rparr>) (redo s)))))"
  by pat_completeness auto

termination prefix_insert
proof (relation "measure (\<lambda>(env, new, ep, re). 2 ^ 32 - med_of new)")
  fix env new ep re left right p s rest xs q before after dm1 dm2 xp re'
  assume "insert_scan env new
      \<lparr>sc_done = left, insertp = ep, selected = False, removed = False, redo = [], sc_dm = dmetric re\<rparr> right = Inr p"
    "(s, rest) = p" "xp \<in> set (redo s)"
  then have "med_of new < med_of xp" using insert_scan_redo by fastforce
  moreover have "med_of xp < 2 ^ 32"
  proof (cases "p_aspath xp")
    case (Some asp)
    then show ?thesis using unsigned_less[of "med asp", where ?'a = nat] by (simp add: med_of_def)
  qed (simp add: med_of_def)
  ultimately show "((env, xp, Some new, re'), env, new, ep, re) \<in> measure (\<lambda>(env, new, ep, re). 2 ^ 32 - med_of new)"
    by simp
qed simp

declare prefix_insert.simps [simp del]

text \<open>The scan of prefix_remove() for paths the removed one may have displaced.\<close>

fun remove_scan :: "decision_env \<Rightarrow> prefix \<Rightarrow> scan_state \<Rightarrow> prefix list \<Rightarrow> (scan_state \<times> prefix list) res" where
  "remove_scan env old s [] = Inr (s, [])"
| "remove_scan env old s (xp # rest) =
     res_bind (prefix_cmp env (Some old) (Some xp)) (\<lambda>(c, testall).
       if testall = 2 then remove_scan env old (s\<lparr>redo := redo s @ [xp], removed := True\<rparr>) rest
       else res_bind (fix_removed env s xp) (\<lambda>s1.
         if testall = 0 then Inr (s1\<lparr>sc_done := sc_done s1 @ [xp]\<rparr>, rest)
         else remove_scan env old (s1\<lparr>sc_done := sc_done s1 @ [xp]\<rparr>) rest))"

definition prefix_remove :: "decision_env \<Rightarrow> prefix \<Rightarrow> rib_entry \<Rightarrow> rib_entry res" where
  "prefix_remove env old re =
     (let left = takeWhile (\<lambda>x. p_id x \<noteq> p_id old) (prefix_h re);
          right = drop (length left + 1) (prefix_h re);
          s0 = \<lparr>sc_done = left, insertp = None, selected = False, removed = False, redo = [], sc_dm = dmetric re\<rparr> in
      if length left = length (prefix_h re) then Inl OutOfBounds
      else res_bind (prefix_cmp env (Some old) (hd_opt right)) (\<lambda>(c, testall).
        res_bind (if testall > 0 then remove_scan env old s0 right else Inr (s0, right)) (\<lambda>(s, rest).
          let xs = sc_done s @ rest in
          res_bind (prefix_set_dmetric env (sc_dm s) (last_opt left) (hd_opt (drop (length left) xs))) (\<lambda>dm.
            res_foldl (\<lambda>re xp. prefix_insert env xp None re)
              (re\<lparr>prefix_h := xs, dmetric := dm\<rparr>) (redo s)))))"

section \<open>Evaluation\<close>

datatype eval_mode = EVAL_NONE | EVAL_SYNC | EVAL_REEVAL | EVAL_DEFAULT | EVAL_ALL

datatype decision_event =
    Send_kroute (kr_new: "prefix option") (kr_old: "prefix option")
  | Enqueue_updates (eu_peer: "rde_peer option") (eu_new: "prefix option") (eu_old_pathid_tx: u32) (eu_mode: eval_mode)

definition same_ptr :: "prefix option \<Rightarrow> prefix option \<Rightarrow> bool" where
  "same_ptr a b = (map_option p_id a = map_option p_id b)"

definition prefix_best :: "u16 \<Rightarrow> rib_entry \<Rightarrow> prefix option" where
  "prefix_best rib_flags re =
     (if rib_flags AND F_RIB_NOEVALUATE \<noteq> 0 then None
      else case prefix_h re of
        [] \<Rightarrow> None
      | xp # _ \<Rightarrow> if \<not> prefix_eligible xp then None else Some xp)"

definition unlink_prefix :: "nat \<Rightarrow> prefix list \<Rightarrow> prefix list" where
  "unlink_prefix i xs = filter (\<lambda>x. p_id x \<noteq> i) xs"

text \<open>The decision and its events, after the list has been changed.\<close>

definition evaluate_events ::
  "u16 \<Rightarrow> bool \<Rightarrow> prefix option \<Rightarrow> prefix option \<Rightarrow> rde_peer option \<Rightarrow> prefix option \<Rightarrow> prefix option \<Rightarrow> u32 \<Rightarrow>
     decision_event list" where
  "evaluate_events rib_flags eval_all oldbest newbest peer new old old_pathid_tx =
     (if \<not> same_ptr oldbest newbest \<or> (old \<noteq> None \<and> same_ptr newbest old) then
        (if rib_flags AND F_RIB_NOFIB = 0 then [Send_kroute newbest oldbest] else []) @
        [Enqueue_updates peer new old_pathid_tx EVAL_DEFAULT]
      else if eval_all then
        (if old = None \<and> new = None then [] else [Enqueue_updates peer new old_pathid_tx EVAL_ALL])
      else [])"

definition prefix_evaluate ::
  "decision_env \<Rightarrow> u16 \<Rightarrow> bool \<Rightarrow> rib_entry \<Rightarrow> prefix option \<Rightarrow> prefix option \<Rightarrow>
     (rib_entry \<times> decision_event list) res" where
  "prefix_evaluate env rib_flags eval_all re new old =
     (if old = None \<and> new = None then Inl Fatal
      else if rib_flags AND F_RIB_NOEVALUATE \<noteq> 0 then
        let re1 = (case old of None \<Rightarrow> re | Some o' \<Rightarrow> re\<lparr>prefix_h := unlink_prefix (p_id o') (prefix_h re)\<rparr>) in
        Inr (case new of None \<Rightarrow> re1
             | Some n \<Rightarrow> re1\<lparr>prefix_h := n # prefix_h re1, dmetric := (dmetric re1)(p_id n := PREFIX_DMETRIC_INVALID)\<rparr>, [])
      else
        let oldbest = prefix_best rib_flags re in
        res_bind (case old of None \<Rightarrow> Inr re | Some o' \<Rightarrow> prefix_remove env o' re) (\<lambda>re1.
        res_bind (case new of None \<Rightarrow> Inr re1 | Some n \<Rightarrow> prefix_insert env n None re1) (\<lambda>re2.
          let newbest = prefix_best rib_flags re2 in
          Inr (re2, case new of
              None \<Rightarrow> evaluate_events rib_flags eval_all oldbest newbest
                       (map_option p_peer old) None old (case old of None \<Rightarrow> 0 | Some o' \<Rightarrow> path_id_tx o')
            | Some n \<Rightarrow>
                if prefix_eligible n
                then evaluate_events rib_flags eval_all oldbest newbest (Some (p_peer n)) (Some n) None 0
                else evaluate_events rib_flags eval_all oldbest newbest (map_option p_peer old) None old
                       (case old of None \<Rightarrow> 0 | Some o' \<Rightarrow> path_id_tx o')))))"

datatype nexthop_state = NEXTHOP_LOOKUP | NEXTHOP_UNREACH | NEXTHOP_REACH | NEXTHOP_FLAPPED

definition set_nhvalid :: "nexthop_state \<Rightarrow> prefix \<Rightarrow> prefix" where
  "set_nhvalid state p = (if state = NEXTHOP_REACH then p\<lparr>nhflags := nhflags p OR NEXTHOP_VALID\<rparr>
     else p\<lparr>nhflags := nhflags p AND NOT NEXTHOP_VALID\<rparr>)"

text \<open>The prefix is identified with its pointer, so the changed one compares equal to itself.\<close>

definition prefix_evaluate_nexthop ::
  "decision_env \<Rightarrow> u16 \<Rightarrow> bool \<Rightarrow> rib_entry \<Rightarrow> prefix \<Rightarrow> nexthop_state \<Rightarrow> nexthop_state \<Rightarrow>
     (rib_entry \<times> decision_event list) res" where
  "prefix_evaluate_nexthop env rib_flags eval_all re p state oldstate =
     (if rib_flags AND F_RIB_NOEVALUATE \<noteq> 0 then Inr (re, [])
      else if oldstate = state then
        Inr (re, if state = NEXTHOP_REACH \<and> rib_flags AND F_RIB_NOFIB = 0 \<and>
                    same_ptr (Some p) (prefix_best rib_flags re)
                 then [Send_kroute (Some p) None] else [])
      else
        let oldbest = prefix_best rib_flags re in
        res_bind (prefix_remove env p re) (\<lambda>re1.
          let old_pathid_tx = (if prefix_eligible p then path_id_tx p else 0);
              new = set_nhvalid state p in
          res_bind (prefix_insert env new None re1) (\<lambda>re2.
            let newbest = prefix_best rib_flags re2;
                pathid = (if prefix_eligible new then 0 else old_pathid_tx);
                new' = (if prefix_eligible new then Some new else None) in
            Inr (re2,
              if pathid = 0 \<and> new' = None then []
              else if \<not> same_ptr oldbest newbest \<or> same_ptr newbest (Some p) then
                (if rib_flags AND F_RIB_NOFIB = 0 then [Send_kroute newbest oldbest] else []) @
                [Enqueue_updates (Some (p_peer p)) new' pathid EVAL_DEFAULT]
              else if eval_all then [Enqueue_updates (Some (p_peer p)) new' pathid EVAL_ALL]
              else []))))"

end
