(* ===== verification/Rde_Nexthop.thy ===== *)
theory Rde_Nexthop
  imports Rde_Decide
begin

text \<open>
  The table of next hops of usr.sbin/bgpd/rde_rib.c as far as the filters use it: a next hop is found
  or created by its address, shared by reference count, and freed with its last reference. A pointer
  is a number, the tree is the list of the pointers in it, and the requests to the parent process are
  recorded in order.
\<close>

section \<open>Data\<close>

record nexthop =
  exit_nexthop :: bgpd_addr
  nh_refcnt :: int
  nh_state :: nexthop_state
  nh_prefixes :: "nat list"
  next_prefix :: "nat option"

record nexthop_mem =
  nh_heap :: "nat \<rightharpoonup> nexthop"
  nexthoptable :: "nat list"
  nh_next :: nat
  nexthop_cnt :: int
  nexthop_msgs :: "(bgpd_addr \<times> bool) list"

definition NEXTHOP_SELF :: u8 where "NEXTHOP_SELF = 0x01"
definition NEXTHOP_REJECT :: u8 where "NEXTHOP_REJECT = 0x02"
definition NEXTHOP_BLACKHOLE :: u8 where "NEXTHOP_BLACKHOLE = 0x04"
definition NEXTHOP_NOMODIFY :: u8 where "NEXTHOP_NOMODIFY = 0x08"

section \<open>Lookup\<close>

definition IN6_IS_ADDR_LINKLOCAL :: "in6_addr \<Rightarrow> bool" where
  "IN6_IS_ADDR_LINKLOCAL a = (s6_addr a ! 0 = 0xfe \<and> s6_addr a ! 1 AND 0xc0 = 0x80)"

text \<open>nexthop_cmp() returns 0; addresses of other families than IPv4 and IPv6 are a fatal error.\<close>

definition nexthop_same :: "bgpd_addr \<Rightarrow> bgpd_addr \<Rightarrow> bool" where
  "nexthop_same a b =
     (aid a = aid b \<and>
      (if aid a = AID_INET then v4 a = v4 b
       else v6 a = v6 b \<and> (IN6_IS_ADDR_LINKLOCAL (v6 a) \<longrightarrow> scope_id a = scope_id b)))"

definition at :: "nexthop_mem \<Rightarrow> nat \<Rightarrow> nexthop res" where
  "at m p = (case nh_heap m p of None \<Rightarrow> Inl OutOfBounds | Some nh \<Rightarrow> Inr nh)"

definition nexthop_addr :: "nexthop_mem \<Rightarrow> nat \<Rightarrow> bgpd_addr" where
  "nexthop_addr m p = (case nh_heap m p of None \<Rightarrow> \<lparr>v4 = 0, v6 = 0, rd8 = 0, scope_id = 0, aid = AID_UNSPEC, labelstack = []\<rparr> | Some nh \<Rightarrow> exit_nexthop nh)"

text \<open>
  A search in the tree meets an entry of the family it looks for if there is one, so that it is fatal
  exactly for a family nexthop_cmp() does not know when the table has an entry of it.
\<close>

definition nexthop_lookup :: "nexthop_mem \<Rightarrow> bgpd_addr \<Rightarrow> nat option res" where
  "nexthop_lookup m a =
     (if aid a \<noteq> AID_INET \<and> aid a \<noteq> AID_INET6 \<and> list_ex (\<lambda>p. aid (nexthop_addr m p) = aid a) (nexthoptable m) then Inl Fatal
      else Inr (List.find (\<lambda>p. nexthop_same a (nexthop_addr m p)) (nexthoptable m)))"

section \<open>References\<close>

definition nexthop_ref :: "nexthop_mem \<Rightarrow> nat option \<Rightarrow> nexthop_mem res" where
  "nexthop_ref m ptr = (case ptr of
     None \<Rightarrow> Inr m
   | Some p \<Rightarrow> res_bind (at m p) (\<lambda>nh. Inr (m\<lparr>nh_heap := (nh_heap m)(p \<mapsto> nh\<lparr>nh_refcnt := nh_refcnt nh + 1\<rparr>)\<rparr>)))"

text \<open>The second component tells whether the next hop is gone.\<close>

definition nexthop_unref :: "nexthop_mem \<Rightarrow> nat option \<Rightarrow> (nexthop_mem \<times> bool) res" where
  "nexthop_unref m ptr = (case ptr of
     None \<Rightarrow> Inr (m, False)
   | Some p \<Rightarrow> res_bind (at m p) (\<lambda>nh.
       if nh_refcnt nh - 1 > 0 then Inr (m\<lparr>nh_heap := (nh_heap m)(p \<mapsto> nh\<lparr>nh_refcnt := nh_refcnt nh - 1\<rparr>)\<rparr>, False)
       else if nh_prefixes nh \<noteq> [] \<or> nh_state nh = NEXTHOP_LOOKUP then Inl Fatal
       else if next_prefix nh \<noteq> None then Inl Fatal
       else Inr (m\<lparr>nh_heap := (nh_heap m)(p := None), nexthoptable := filter (\<lambda>q. q \<noteq> p) (nexthoptable m),
                   nexthop_cnt := nexthop_cnt m - 1, nexthop_msgs := nexthop_msgs m @ [(exit_nexthop nh, False)]\<rparr>, True)))"

definition nexthop_get :: "can_alloc \<Rightarrow> nexthop_mem \<Rightarrow> bgpd_addr \<Rightarrow> (nexthop_mem \<times> nat) res" where
  "nexthop_get ca m a =
     res_bind (nexthop_lookup m a) (\<lambda>r. case r of
       Some p \<Rightarrow> res_bind (nexthop_ref m (Some p)) (\<lambda>m. Inr (m, p))
     | None \<Rightarrow>
         if \<not> ca 1 then Inl Fatal
         else
           let p = nh_next m;
               nh = \<lparr>exit_nexthop = a, nh_refcnt = 1, nh_state = NEXTHOP_LOOKUP, nh_prefixes = [], next_prefix = None\<rparr>
           in res_bind (nexthop_ref (m\<lparr>nh_heap := (nh_heap m)(p \<mapsto> nh), nexthoptable := nexthoptable m @ [p], nh_next := p + 1,
                nexthop_cnt := nexthop_cnt m + 1, nexthop_msgs := nexthop_msgs m @ [(a, True)]\<rparr>) (Some p)) (\<lambda>m. Inr (m, p)))"

section \<open>Modification by a filter\<close>

datatype nexthop_action = NH_SET nat | NH_REJECT | NH_BLACKHOLE | NH_NOMODIFY | NH_SELF

definition nexthop_modify ::
  "nexthop_mem \<Rightarrow> nexthop_action \<Rightarrow> u8 \<Rightarrow> nat option \<Rightarrow> u8 \<Rightarrow> (nexthop_mem \<times> nat option \<times> u8) res" where
  "nexthop_modify m act fam nexthop flags = (case act of
     NH_REJECT \<Rightarrow> Inr (m, nexthop, NEXTHOP_REJECT)
   | NH_BLACKHOLE \<Rightarrow> Inr (m, nexthop, NEXTHOP_BLACKHOLE)
   | NH_NOMODIFY \<Rightarrow> Inr (m, nexthop, NEXTHOP_NOMODIFY)
   | NH_SELF \<Rightarrow> Inr (m, nexthop, NEXTHOP_SELF)
   | NH_SET setnh \<Rightarrow>
       res_bind (at m setnh) (\<lambda>nh.
         if fam \<noteq> aid (exit_nexthop nh) then Inr (m, nexthop, flags)
         else res_bind (nexthop_unref m nexthop) (\<lambda>(m, _). res_bind (nexthop_ref m (Some setnh)) (\<lambda>m. Inr (m, Some setnh, 0)))))"

end
