(* ===== verification/Name2id.thy ===== *)
theory Name2id
  imports Ibuf
begin

text \<open>
  The numbered labels of usr.sbin/bgpd/name2id.c: route labels and pf tables are named in the
  configuration and carried in routes as 16-bit numbers with a reference count. A list of labels is
  kept in the order of the numbers.
\<close>

section \<open>Labels\<close>

record n2id_label =
  nl_name :: string
  nl_id :: u16
  nl_ref :: int

type_synonym n2id_labels = "n2id_label list"

definition IDVAL_MAX :: u16 where "IDVAL_MAX = 50000"

text \<open>The first loop of _name2id(): the label of a name gets another reference.\<close>

fun label_named :: "string \<Rightarrow> n2id_labels \<Rightarrow> (n2id_labels \<times> u16) option" where
  "label_named name [] = None"
| "label_named name (l # ls) =
     (if name = nl_name l then Some (l\<lparr>nl_ref := nl_ref l + 1\<rparr> # ls, nl_id l)
      else case label_named name ls of None \<Rightarrow> None | Some (ls', i) \<Rightarrow> Some (l # ls', i))"

text \<open>The second loop: the first number that is free, and the labels before and after it.\<close>

fun free_slot :: "u16 \<Rightarrow> n2id_labels \<Rightarrow> n2id_labels \<times> u16 \<times> n2id_labels" where
  "free_slot new_id [] = ([], new_id, [])"
| "free_slot new_id (p # ps) =
     (if nl_id p \<noteq> new_id then ([], new_id, p # ps)
      else case free_slot (new_id + 1) ps of (before, i, after) \<Rightarrow> (p # before, i, after))"

text \<open>The allocations of the label and of the copy of its name may fail; 0 is then returned.\<close>

definition name2id :: "can_alloc \<Rightarrow> n2id_labels \<Rightarrow> string \<Rightarrow> n2id_labels \<times> u16" where
  "name2id ca head name =
     (if name = [] then (head, 0)
      else case label_named name head of
        Some r \<Rightarrow> r
      | None \<Rightarrow> (case free_slot 1 head of (before, new_id, after) \<Rightarrow>
          if new_id > IDVAL_MAX then (head, 0)
          else if \<not> ca 1 \<or> \<not> ca (length name + 1) then (head, 0)
          else (before @ [\<lparr>nl_name = name, nl_id = new_id, nl_ref = 1\<rparr>] @ after, new_id)))"

definition id2name :: "n2id_labels \<Rightarrow> u16 \<Rightarrow> string" where
  "id2name head i =
     (if i = 0 then []
      else case List.find (\<lambda>l. nl_id l = i) head of None \<Rightarrow> [] | Some l \<Rightarrow> nl_name l)"

fun unref_label :: "u16 \<Rightarrow> n2id_labels \<Rightarrow> n2id_labels" where
  "unref_label i [] = []"
| "unref_label i (p # ps) =
     (if i = nl_id p then (if nl_ref p - 1 = 0 then ps else p\<lparr>nl_ref := nl_ref p - 1\<rparr> # ps)
      else p # unref_label i ps)"

definition unref :: "n2id_labels \<Rightarrow> u16 \<Rightarrow> n2id_labels" where
  "unref head i = (if i = 0 then head else unref_label i head)"

fun ref_label :: "u16 \<Rightarrow> n2id_labels \<Rightarrow> (n2id_labels \<times> u16)" where
  "ref_label i [] = ([], 0)"
| "ref_label i (p # ps) =
     (if nl_id p = i then (p\<lparr>nl_ref := nl_ref p + 1\<rparr> # ps, i)
      else case ref_label i ps of (ps', r) \<Rightarrow> (p # ps', r))"

definition ref :: "n2id_labels \<Rightarrow> u16 \<Rightarrow> n2id_labels \<times> u16" where
  "ref head i = (if i = 0 then (head, 0) else ref_label i head)"

section \<open>Invariant\<close>

text \<open>The numbers increase from 1 on, the names differ and are not empty, and every label is referenced.\<close>

definition labels_ok :: "n2id_labels \<Rightarrow> bool" where
  "labels_ok head = (sorted_wrt (<) (map nl_id head) \<and> distinct (map nl_name head) \<and>
     list_all (\<lambda>l. 0 < nl_id l \<and> nl_id l \<le> IDVAL_MAX \<and> nl_name l \<noteq> [] \<and> 0 < nl_ref l) head)"

text \<open>What a list of labels stands for: a name and a reference count for every number in use.\<close>

definition lab :: "n2id_labels \<Rightarrow> u16 \<Rightarrow> (string \<times> int) option" where
  "lab head = map_of (map (\<lambda>l. (nl_id l, nl_name l, nl_ref l)) head)"

lemma lab_simps [simp]: "lab [] = Map.empty" "lab (l # ls) = (lab ls)(nl_id l \<mapsto> (nl_name l, nl_ref l))"
  by (simp_all add: lab_def)

lemma lab_None: "lab head i = None \<longleftrightarrow> i \<notin> nl_id ` set head"
  by (induction head) auto

lemma lab_append: "lab (xs @ ys) = lab ys ++ lab xs"
  by (simp add: lab_def)

lemma labels_ok_Nil [simp]: "labels_ok []"
  by (simp add: labels_ok_def)

lemma labels_ok_Cons:
  "labels_ok (l # ls) \<longleftrightarrow> labels_ok ls \<and> (\<forall>x \<in> set ls. nl_id l < nl_id x \<and> nl_name x \<noteq> nl_name l) \<and>
     0 < nl_id l \<and> nl_id l \<le> IDVAL_MAX \<and> nl_name l \<noteq> [] \<and> 0 < nl_ref l"
  unfolding labels_ok_def by (auto intro: rev_image_eqI)

lemma label_above: "labels_ok (l # ls) \<Longrightarrow> lab ls (nl_id l) = None"
  by (auto simp: labels_ok_Cons lab_None)

section \<open>The operations on what the list stands for\<close>

lemma label_named_None: "label_named name head = None \<longleftrightarrow> name \<notin> nl_name ` set head"
  by (induction head) (auto split: option.splits)

lemma label_named_keys: "label_named name head = Some (head', i) \<Longrightarrow> map nl_id head' = map nl_id head \<and> map nl_name head' = map nl_name head"
  by (induction head arbitrary: head') (auto split: if_splits option.splits)

lemma ok_keys:
  assumes "labels_ok ls" and "map nl_id ls' = map nl_id ls" and "map nl_name ls' = map nl_name ls" and "list_all (\<lambda>l. 0 < nl_ref l) ls'"
  shows "labels_ok ls'"
proof -
  have "list_all (\<lambda>l. 0 < nl_id l \<and> nl_id l \<le> IDVAL_MAX) ls' = list_all (\<lambda>i. 0 < i \<and> i \<le> IDVAL_MAX) (map nl_id ls')"
    "list_all (\<lambda>l. nl_name l \<noteq> []) ls' = list_all (\<lambda>n. n \<noteq> []) (map nl_name ls')" by (simp_all add: list_all_iff)
  then show ?thesis using assms unfolding labels_ok_def by (auto simp: list_all_iff)
qed

lemma label_named_Some:
  "labels_ok head \<Longrightarrow> label_named name head = Some (head', i) \<Longrightarrow>
     \<exists>r. lab head i = Some (name, r) \<and> lab head' = (lab head)(i \<mapsto> (name, r + 1)) \<and> list_all (\<lambda>l. 0 < nl_ref l) head' \<and> i \<noteq> 0"
proof (induction head arbitrary: head')
  case (Cons l ls)
  have ok: "labels_ok ls" "list_all (\<lambda>l. 0 < nl_ref l) ls" "0 < nl_ref l" "0 < nl_id l"
    using Cons.prems(1) by (auto simp: labels_ok_def list_all_iff)
  show ?case
  proof (cases "name = nl_name l")
    case True
    then show ?thesis using Cons.prems(2) ok by (auto simp: word_gt_0)
  next
    case False
    then obtain ls' where ls': "label_named name ls = Some (ls', i)" "head' = l # ls'" using Cons.prems(2) by (auto split: option.splits)
    from Cons.IH[OF ok(1) ls'(1)] obtain r where r: "lab ls i = Some (name, r)" "lab ls' = (lab ls)(i \<mapsto> (name, r + 1))"
      "list_all (\<lambda>l. 0 < nl_ref l) ls'" "i \<noteq> 0" by blast
    have "i \<noteq> nl_id l" using label_above[OF Cons.prems(1)] r(1) by auto
    then show ?thesis using r ls'(2) ok(3) by (auto simp: fun_upd_twist)
  qed
qed simp

lemma step_above:
  fixes k :: u16
  assumes "k \<le> IDVAL_MAX"
  shows "k + 1 \<le> IDVAL_MAX + 1" and "k < j \<Longrightarrow> k + 1 \<le> j" and "unat (k + 1) = unat k + 1" and "k < k + 1"
proof -
  have u: "unat k \<le> 50000" using assms by (simp add: IDVAL_MAX_def word_le_nat_alt)
  then show n: "unat (k + 1) = unat k + 1" by (simp add: unat_word_ariths)
  show "k + 1 \<le> IDVAL_MAX + 1" using u n by (simp add: word_le_nat_alt IDVAL_MAX_def)
  show "k < j \<Longrightarrow> k + 1 \<le> j" using n by (simp add: word_le_nat_alt word_less_nat_alt)
  show "k < k + 1" using n by (simp add: word_less_nat_alt)
qed

lemma free_slot_facts:
  assumes "free_slot k head = (before, i, after)" and "labels_ok head" and "\<forall>x \<in> set head. k \<le> nl_id x" and "k \<le> IDVAL_MAX + 1"
  shows "head = before @ after \<and> (\<forall>x \<in> set before. nl_id x < i) \<and> (\<forall>x \<in> set after. i < nl_id x) \<and> k \<le> i \<and> i \<le> IDVAL_MAX + 1 \<and>
    unat i = unat k + length before"
  using assms
proof (induction head arbitrary: k before)
  case (Cons p ps)
  note ok = Cons.prems(2)[unfolded labels_ok_Cons]
  show ?case
  proof (cases "nl_id p = k")
    case True
    then obtain b where b: "free_slot (k + 1) ps = (b, i, after)" "before = p # b" using Cons.prems(1) by (auto split: prod.splits)
    have "k \<le> IDVAL_MAX" using ok True by blast
    note st = step_above[OF this]
    have "\<forall>x \<in> set ps. k + 1 \<le> nl_id x" using ok True st(2) by blast
    from Cons.IH[OF b(1) _ this st(1)] ok have "ps = b @ after \<and> (\<forall>x \<in> set b. nl_id x < i) \<and> (\<forall>x \<in> set after. i < nl_id x) \<and> k + 1 \<le> i \<and>
      i \<le> IDVAL_MAX + 1 \<and> unat i = unat (k + 1) + length b" by blast
    then show ?thesis using b(2) True st(3,4) by auto
  next
    case False
    then have "k < nl_id p" using Cons.prems(3) by (simp add: order_neq_le_trans)
    then show ?thesis using Cons.prems(1,4) ok False by (auto intro: less_trans)
  qed
qed auto

lemma labels_ok_insert:
  assumes "labels_ok (xs @ ys)" and "\<forall>x \<in> set xs. nl_id x < nl_id l" and "\<forall>y \<in> set ys. nl_id l < nl_id y" and "nl_name l \<notin> nl_name ` set (xs @ ys)"
    and "0 < nl_id l" and "nl_id l \<le> IDVAL_MAX" and "nl_name l \<noteq> []" and "0 < nl_ref l"
  shows "labels_ok (xs @ l # ys)"
  using assms unfolding labels_ok_def by (auto simp: sorted_wrt_append)

lemma lab_insert:
  assumes "labels_ok (xs @ ys)" and "\<forall>x \<in> set xs. nl_id x < nl_id l" and "\<forall>y \<in> set ys. nl_id l < nl_id y"
  shows "lab (xs @ l # ys) = (lab (xs @ ys))(nl_id l \<mapsto> (nl_name l, nl_ref l))" and "lab (xs @ ys) (nl_id l) = None"
proof -
  have "lab xs (nl_id l) = None" using assms(2) by (auto simp: lab_None)
  then show "lab (xs @ l # ys) = (lab (xs @ ys))(nl_id l \<mapsto> (nl_name l, nl_ref l))"
    by (auto simp: lab_append fun_eq_iff map_add_def split: option.splits)
  show "lab (xs @ ys) (nl_id l) = None" using assms(2,3) by (fastforce simp: lab_None)
qed

lemma name2id_new:
  assumes "labels_ok head" and "free_slot 1 head = (before, i, after)" and "i \<le> IDVAL_MAX" and "name \<noteq> []" and "name \<notin> nl_name ` set head"
  shows "labels_ok (before @ [\<lparr>nl_name = name, nl_id = i, nl_ref = 1\<rparr>] @ after) \<and> i \<noteq> 0 \<and> lab head i = None \<and>
    lab (before @ [\<lparr>nl_name = name, nl_id = i, nl_ref = 1\<rparr>] @ after) = (lab head)(i \<mapsto> (name, 1))"
proof -
  have p: "\<forall>x \<in> set head. 1 \<le> nl_id x" using assms(1) by (auto simp: labels_ok_def list_all_iff word_le_nat_alt word_less_nat_alt)
  have "(1::u16) \<le> IDVAL_MAX + 1" by (simp add: IDVAL_MAX_def)
  from free_slot_facts[OF assms(2,1) p this] have f: "head = before @ after" "\<forall>x \<in> set before. nl_id x < i" "\<forall>x \<in> set after. i < nl_id x" "1 \<le> i" by blast+
  have i0: "0 < i" using f(4) by (metis word_gt_0 word_le_0_iff zero_neq_one)
  let ?l = "\<lparr>nl_name = name, nl_id = i, nl_ref = 1\<rparr>"
  have "labels_ok (before @ ?l # after)" using labels_ok_insert[of before after ?l] assms f(1-3) i0 by simp
  moreover have "lab (before @ ?l # after) = (lab head)(i \<mapsto> (name, 1))" "lab head i = None"
    using lab_insert[of before after ?l] assms(1) f(1-3) by simp_all
  ultimately show ?thesis using i0 by (simp add: word_gt_0)
qed

lemma free_slot_found:
  assumes "labels_ok head" and "free_slot 1 head = (before, i, after)" and "length head < 50000"
  shows "i \<le> IDVAL_MAX"
proof -
  have p: "\<forall>x \<in> set head. 1 \<le> nl_id x" using assms(1) by (auto simp: labels_ok_def list_all_iff word_le_nat_alt word_less_nat_alt)
  have "(1::u16) \<le> IDVAL_MAX + 1" by (simp add: IDVAL_MAX_def)
  from free_slot_facts[OF assms(2,1) p this] have "head = before @ after" "unat i = 1 + length before" by simp_all
  then show ?thesis using assms(3) by (simp add: word_le_nat_alt IDVAL_MAX_def)
qed

lemma id2name_lab: "i \<noteq> 0 \<Longrightarrow> id2name head i = (case lab head i of None \<Rightarrow> [] | Some (n, _) \<Rightarrow> n)"
  by (induction head) (auto simp: id2name_def)

lemma unref_law:
  assumes "labels_ok head"
  shows "labels_ok (unref_label i head) \<and> lab (unref_label i head) =
    (case lab head i of None \<Rightarrow> lab head | Some (n, r) \<Rightarrow> if r = 1 then (lab head)(i := None) else (lab head)(i \<mapsto> (n, r - 1))) \<and>
    set (map nl_id (unref_label i head)) \<subseteq> set (map nl_id head) \<and> set (map nl_name (unref_label i head)) \<subseteq> set (map nl_name head)"
  using assms
proof (induction head)
  case (Cons l ls)
  note ok = Cons.prems[unfolded labels_ok_Cons]
  show ?case
  proof (cases "i = nl_id l")
    case True
    then show ?thesis using ok label_above[OF Cons.prems] by (auto simp: labels_ok_Cons fun_upd_idem)
  next
    case False
    from Cons.IH ok have ih: "labels_ok (unref_label i ls)" "lab (unref_label i ls) =
      (case lab ls i of None \<Rightarrow> lab ls | Some (n, r) \<Rightarrow> if r = 1 then (lab ls)(i := None) else (lab ls)(i \<mapsto> (n, r - 1)))"
      "set (map nl_id (unref_label i ls)) \<subseteq> set (map nl_id ls)" "set (map nl_name (unref_label i ls)) \<subseteq> set (map nl_name ls)" by blast+
    have "\<forall>x \<in> set (unref_label i ls). nl_id l < nl_id x \<and> nl_name x \<noteq> nl_name l"
    proof
      fix x assume "x \<in> set (unref_label i ls)"
      then have "nl_id x \<in> set (map nl_id ls)" "nl_name x \<in> set (map nl_name ls)" using ih(3,4) by auto
      then show "nl_id l < nl_id x \<and> nl_name x \<noteq> nl_name l" using ok by auto
    qed
    then have "labels_ok (l # unref_label i ls)" using ih(1) ok by (simp add: labels_ok_Cons)
    then show ?thesis using ih(2-4) False by (auto simp: fun_upd_twist split: option.splits)
  qed
qed simp

lemma ref_law:
  assumes "labels_ok head"
  shows "labels_ok (fst (ref_label i head)) \<and> (case lab head i of None \<Rightarrow> ref_label i head = (head, 0)
     | Some (n, r) \<Rightarrow> snd (ref_label i head) = i \<and> lab (fst (ref_label i head)) = (lab head)(i \<mapsto> (n, r + 1))) \<and>
    map nl_id (fst (ref_label i head)) = map nl_id head \<and> map nl_name (fst (ref_label i head)) = map nl_name head"
  using assms
proof (induction head)
  case (Cons l ls)
  note ok = Cons.prems[unfolded labels_ok_Cons]
  show ?case
  proof (cases "nl_id l = i")
    case True
    then show ?thesis using ok by (auto simp: labels_ok_Cons)
  next
    case False
    obtain ls' k where r: "ref_label i ls = (ls', k)" by (cases "ref_label i ls")
    from Cons.IH ok r have ih: "labels_ok ls'" "case lab ls i of None \<Rightarrow> ls' = ls \<and> k = 0 | Some (n, r) \<Rightarrow> k = i \<and> lab ls' = (lab ls)(i \<mapsto> (n, r + 1))"
      "map nl_id ls' = map nl_id ls" "map nl_name ls' = map nl_name ls" by (auto split: option.splits)
    have "list_all (\<lambda>l. 0 < nl_ref l) (l # ls')" using ih(1) ok by (auto simp: labels_ok_def list_all_iff)
    then have "labels_ok (l # ls')" using ok_keys[OF Cons.prems, of "l # ls'"] ih(3,4) by simp
    then show ?thesis using ih(2-4) False r by (auto simp: fun_upd_twist split: option.splits)
  qed
qed simp

section \<open>Reachable lists\<close>

inductive labels_reach :: "n2id_labels \<Rightarrow> bool" where
  init: "labels_reach []"
| named: "labels_reach head \<Longrightarrow> labels_reach (fst (name2id ca head name))"
| refd: "labels_reach head \<Longrightarrow> labels_reach (fst (ref head i))"
| unrefd: "labels_reach head \<Longrightarrow> labels_reach (unref head i)"

lemma name2id_law:
  assumes "labels_ok head" and "name2id ca head name = (head', i)"
  shows "labels_ok head' \<and> (i = 0 \<longrightarrow> head' = head) \<and>
    (i \<noteq> 0 \<longrightarrow> id2name head' i = name \<and>
       (\<exists>r. lab head' = (lab head)(i \<mapsto> (name, r + 1)) \<and> (lab head i = Some (name, r) \<or> lab head i = None \<and> r = 0)))"
proof (cases "label_named name head")
  case (Some x)
  show ?thesis
  proof (cases "name = []")
    case True
    then show ?thesis using assms by (auto simp: name2id_def)
  next
    case False
    then have x: "label_named name head = Some (head', i)" using Some assms(2) by (simp add: name2id_def)
    obtain r where r: "lab head i = Some (name, r)" "lab head' = (lab head)(i \<mapsto> (name, r + 1))" "list_all (\<lambda>l. 0 < nl_ref l) head'" "i \<noteq> 0"
      using label_named_Some[OF assms(1) x] by blast
    have "labels_ok head'" using ok_keys[OF assms(1)] label_named_keys[OF x] r(3) by blast
    then show ?thesis using r by (auto simp: id2name_lab)
  qed
next
  case None
  then have n: "name \<notin> nl_name ` set head" by (simp add: label_named_None)
  obtain before k after where f: "free_slot 1 head = (before, k, after)" by (cases "free_slot 1 head")
  show ?thesis
  proof (cases "name = [] \<or> k > IDVAL_MAX \<or> \<not> ca 1 \<or> \<not> ca (length name + 1)")
    case True
    then have "name2id ca head name = (head, 0)" using None f by (auto simp: name2id_def)
    then show ?thesis using assms by simp
  next
    case False
    then have h: "head' = before @ [\<lparr>nl_name = name, nl_id = k, nl_ref = 1\<rparr>] @ after" "i = k" using assms(2) None f by (auto simp: name2id_def)
    have k: "k \<le> IDVAL_MAX" "name \<noteq> []" using False by auto
    note w = name2id_new[OF assms(1) f k n]
    then have "id2name head' i = name" using h by (simp add: id2name_lab)
    then show ?thesis using h w by auto
  qed
qed

lemma name2id_succeeds:
  assumes "labels_ok head" and "name \<noteq> []" and "length head < 50000" and "\<forall>n. ca n" and "name2id ca head name = (head', i)"
  shows "i \<noteq> 0"
proof (cases "label_named name head")
  case None
  then have n: "name \<notin> nl_name ` set head" by (simp add: label_named_None)
  obtain before k after where f: "free_slot 1 head = (before, k, after)" by (cases "free_slot 1 head")
  have k: "k \<le> IDVAL_MAX" using free_slot_found[OF assms(1) f assms(3)] .
  then have "\<not> IDVAL_MAX < k" by simp
  then have "i = k" using assms(2,4,5) None f by (simp add: name2id_def)
  then show ?thesis using name2id_new[OF assms(1) f k assms(2) n] by blast
next
  case (Some x)
  then show ?thesis using assms(2,5) label_named_Some[OF assms(1)] by (auto simp: name2id_def)
qed

lemma labels_reach_ok: "labels_reach head \<Longrightarrow> labels_ok head"
proof (induction rule: labels_reach.induct)
  case (named head ca name)
  then show ?case using name2id_law[of head ca name] by (cases "name2id ca head name") simp
next
  case (refd head i)
  then show ?case using ref_law by (simp add: ref_def)
next
  case (unrefd head i)
  then show ?case using unref_law by (simp add: unref_def)
qed simp

text \<open>C31: In every list of labels the operations reach, a name is given a number that stands for it:
  with memory and less than 50000 labels a name that is not empty gets a number other than 0, and that
  number is the name of its label until as many references are dropped as were taken; taking and
  dropping references changes only the count of that one label, and a number no longer referenced
  is free again.\<close>

theorem label_references:
  assumes "labels_reach head" and "i \<noteq> 0"
  shows "(\<forall>ca name head'. name2id ca head name = (head', i) \<longrightarrow> id2name head' i = name \<and>
      (\<exists>r. lab head' = (lab head)(i \<mapsto> (name, r + 1)) \<and> (lab head i = Some (name, r) \<or> lab head i = None \<and> r = 0))) \<and>
    (\<forall>ca name. name \<noteq> [] \<longrightarrow> length head < 50000 \<longrightarrow> (\<forall>n. ca n) \<longrightarrow> snd (name2id ca head name) \<noteq> 0) \<and>
    (case lab head i of
        None \<Rightarrow> ref head i = (head, 0) \<and> lab (unref head i) = lab head
      | Some (name, r) \<Rightarrow> lab (fst (ref head i)) = (lab head)(i \<mapsto> (name, r + 1)) \<and> snd (ref head i) = i \<and>
          lab (unref head i) = (lab head)(i := (if r = 1 then None else Some (name, r - 1))))"
proof (intro conjI allI impI)
  note ok = labels_reach_ok[OF assms(1)]
  show "id2name head' i = name" "\<exists>r. lab head' = (lab head)(i \<mapsto> (name, r + 1)) \<and> (lab head i = Some (name, r) \<or> lab head i = None \<and> r = 0)"
    if "name2id ca head name = (head', i)" for ca name head' using name2id_law[OF ok that] assms(2) by blast+
  show "snd (name2id ca head name) \<noteq> 0" if "name \<noteq> []" "length head < 50000" "\<forall>n. ca n" for ca name
    using name2id_succeeds[OF ok that] by (cases "name2id ca head name") simp
  show "case lab head i of
        None \<Rightarrow> ref head i = (head, 0) \<and> lab (unref head i) = lab head
      | Some (name, r) \<Rightarrow> lab (fst (ref head i)) = (lab head)(i \<mapsto> (name, r + 1)) \<and> snd (ref head i) = i \<and>
          lab (unref head i) = (lab head)(i := (if r = 1 then None else Some (name, r - 1)))"
    using ref_law[OF ok, of i] unref_law[OF ok, of i] assms(2) by (auto simp: ref_def unref_def split: option.splits)
qed

theorem label_references_witness:
  "id2name (fst (name2id (\<lambda>_. True) [\<lparr>nl_name = ''a'', nl_id = 1, nl_ref = 1\<rparr>] ''b'')) 2 = ''b'' \<and>
   snd (name2id (\<lambda>_. True) [\<lparr>nl_name = ''a'', nl_id = 1, nl_ref = 1\<rparr>] ''b'') = 2"
proof -
  let ?h = "[\<lparr>nl_name = ''a'', nl_id = 1, nl_ref = 1\<rparr>]"
  have "fst (name2id (\<lambda>_. True) [] ''a'') = ?h" by code_simp
  then have r: "labels_reach ?h" using labels_reach.named[OF labels_reach.init, of "\<lambda>_. True" "''a''"] by simp
  have n: "snd (name2id (\<lambda>_. True) ?h ''b'') = 2" by code_simp
  then have "name2id (\<lambda>_. True) ?h ''b'' = (fst (name2id (\<lambda>_. True) ?h ''b''), 2)" by (metis prod.collapse)
  moreover have "(2::u16) \<noteq> 0" by simp
  ultimately show ?thesis using label_references[OF r, of 2] n by blast
qed

end
