(* ===== verification/Community.thy ===== *)
theory Community
  imports Attr
begin

text \<open>
  BGP communities (usr.sbin/bgpd/rde_community.c): a sorted array of basic, extended and large
  communities with pattern matching, the wire format of the three attributes, and the global table
  of shared collections. The array is the list of its entries in use together with its capacity.
  The correctness proofs are in Community_Correct.
\<close>

section \<open>Data\<close>

record community =
  cm_flags :: u32
  data1 :: u32
  data2 :: u32
  data3 :: u32

record rde_community =
  cm_hash :: u64
  cm_size :: nat
  cmflags :: u8
  cm_refcnt :: int
  communities :: "community list"

text \<open>The configuration of the peer the expansion of neighbor-as and local-as reads.\<close>

record peer_as =
  conf_remote_as :: u32
  conf_local_as :: u32

definition COMMUNITY_TYPE_BASIC :: u8 where "COMMUNITY_TYPE_BASIC = 8"
definition COMMUNITY_TYPE_EXT :: u8 where "COMMUNITY_TYPE_EXT = 16"
definition COMMUNITY_TYPE_LARGE :: u8 where "COMMUNITY_TYPE_LARGE = 32"
definition COMMUNITY_ANY :: u8 where "COMMUNITY_ANY = 1"
definition COMMUNITY_NEIGHBOR_AS :: u8 where "COMMUNITY_NEIGHBOR_AS = 2"
definition COMMUNITY_LOCAL_AS :: u8 where "COMMUNITY_LOCAL_AS = 3"
definition EXT_COMMUNITY_NON_TRANSITIVE :: u32 where "EXT_COMMUNITY_NON_TRANSITIVE = 0x40"
definition EXT_COMMUNITY_VALUE :: u32 where "EXT_COMMUNITY_VALUE = 0x3f"
definition EXT_COMMUNITY_TRANS_TWO_AS :: u32 where "EXT_COMMUNITY_TRANS_TWO_AS = 0"
definition EXT_COMMUNITY_TRANS_IPV4 :: u32 where "EXT_COMMUNITY_TRANS_IPV4 = 1"
definition EXT_COMMUNITY_TRANS_FOUR_AS :: u32 where "EXT_COMMUNITY_TRANS_FOUR_AS = 2"
definition PARTIAL_COMMUNITIES :: u8 where "PARTIAL_COMMUNITIES = 1"
definition PARTIAL_LARGE_COMMUNITIES :: u8 where "PARTIAL_LARGE_COMMUNITIES = 2"
definition PARTIAL_EXT_COMMUNITIES :: u8 where "PARTIAL_EXT_COMMUNITIES = 4"
definition PARTIAL_DIRTY :: u8 where "PARTIAL_DIRTY = 8"
definition ATTR_OPTIONAL :: u8 where "ATTR_OPTIONAL = 0x80"
definition ATTR_TRANSITIVE :: u8 where "ATTR_TRANSITIVE = 0x40"
definition ATTR_PARTIAL :: u8 where "ATTR_PARTIAL = 0x20"
definition ATTR_COMMUNITIES :: u8 where "ATTR_COMMUNITIES = 8"
definition ATTR_EXT_COMMUNITIES :: u8 where "ATTR_EXT_COMMUNITIES = 16"
definition ATTR_LARGE_COMMUNITIES :: u8 where "ATTR_LARGE_COMMUNITIES = 32"

lemmas community_consts = COMMUNITY_TYPE_BASIC_def COMMUNITY_TYPE_EXT_def COMMUNITY_TYPE_LARGE_def
  COMMUNITY_ANY_def COMMUNITY_NEIGHBOR_AS_def COMMUNITY_LOCAL_AS_def
lemmas ext_consts = EXT_COMMUNITY_NON_TRANSITIVE_def EXT_COMMUNITY_VALUE_def EXT_COMMUNITY_TRANS_TWO_AS_def
  EXT_COMMUNITY_TRANS_IPV4_def EXT_COMMUNITY_TRANS_FOUR_AS_def USHRT_MAX_def
lemmas cattr_consts = ATTR_OPTIONAL_def ATTR_TRANSITIVE_def ATTR_PARTIAL_def ATTR_COMMUNITIES_def
  ATTR_EXT_COMMUNITIES_def ATTR_LARGE_COMMUNITIES_def

text \<open>The cast of the flags to uint8_t that reads the type.\<close>

definition ctype :: "community \<Rightarrow> u8" where
  "ctype c = ucast (cm_flags c)"

definition no_community :: community where
  "no_community = \<lparr>cm_flags = 0, data1 = 0, data2 = 0, data3 = 0\<rparr>"

definition full_mask :: community where
  "full_mask = \<lparr>cm_flags = -1, data1 = -1, data2 = -1, data3 = -1\<rparr>"

section \<open>Expanding filter communities\<close>

text \<open>
  The value and its mask; None is the return value -1. The argument hm tells whether the caller
  passed a mask; without one the mask returned is not used.
\<close>

definition apply_flag :: "u32 \<Rightarrow> u8 \<Rightarrow> peer_as option \<Rightarrow> bool \<Rightarrow> (u32 \<times> u32) option" where
  "apply_flag inp flag peer hm =
     (if flag = COMMUNITY_ANY then (if hm then Some (0, 0) else None)
      else if flag = COMMUNITY_NEIGHBOR_AS then map_option (\<lambda>p. (conf_remote_as p, -1)) peer
      else if flag = COMMUNITY_LOCAL_AS then map_option (\<lambda>p. (conf_local_as p, -1)) peer
      else Some (inp, -1))"

definition flag1 :: "community \<Rightarrow> u8" where "flag1 c = ucast (drop_bit 8 (cm_flags c))"
definition flag2 :: "community \<Rightarrow> u8" where "flag2 c = ucast (drop_bit 16 (cm_flags c))"
definition flag3 :: "community \<Rightarrow> u8" where "flag3 c = ucast (drop_bit 24 (cm_flags c))"

text \<open>The first two fields, which every kind of community expands in the same way.\<close>

definition fc2c_pair :: "community \<Rightarrow> peer_as option \<Rightarrow> bool \<Rightarrow> community \<Rightarrow> community \<Rightarrow> (community \<times> community) option" where
  "fc2c_pair fc peer hm c m =
     (case apply_flag (data1 fc) (flag1 fc) peer hm of None \<Rightarrow> None | Some (d1, m1) \<Rightarrow>
      case apply_flag (data2 fc) (flag2 fc) peer hm of None \<Rightarrow> None | Some (d2, m2) \<Rightarrow>
        Some (c\<lparr>data1 := d1, data2 := d2\<rparr>, m\<lparr>data1 := m1, data2 := m2\<rparr>))"

definition fc2c_basic :: "community \<Rightarrow> peer_as option \<Rightarrow> bool \<Rightarrow> community \<Rightarrow> community \<Rightarrow> (community \<times> community) option" where
  "fc2c_basic fc peer hm c m =
     (case fc2c_pair fc peer hm c m of None \<Rightarrow> None | Some (c', m') \<Rightarrow>
        if data1 c' > USHRT_MAX \<or> data2 c' > USHRT_MAX then None else Some (c', m'))"

definition fc2c_large :: "community \<Rightarrow> peer_as option \<Rightarrow> bool \<Rightarrow> community \<Rightarrow> community \<Rightarrow> (community \<times> community) option" where
  "fc2c_large fc peer hm c m =
     (case fc2c_pair fc peer hm c m of None \<Rightarrow> None | Some (c', m') \<Rightarrow>
      case apply_flag (data3 fc) (flag3 fc) peer hm of None \<Rightarrow> None | Some (d3, m3) \<Rightarrow>
        Some (c'\<lparr>data3 := d3\<rparr>, m'\<lparr>data3 := m3\<rparr>))"

text \<open>Extended communities; the type is the signed value of data3 shifted down by 8 bits.\<close>

definition ext_type :: "u32 \<Rightarrow> u32" where
  "ext_type d3 = signed_drop_bit 8 d3"

definition fc2c_ext :: "community \<Rightarrow> peer_as option \<Rightarrow> bool \<Rightarrow> community \<Rightarrow> community \<Rightarrow> (community \<times> community) option" where
  "fc2c_ext fc peer hm c m =
     (let type = ext_type (data3 fc); subtype = data3 fc AND 0xff in
      if flag3 fc = COMMUNITY_ANY then
        (if hm then Some (c, m\<lparr>data1 := 0, data2 := 0, data3 := 0\<rparr>) else None)
      else if type = -1 then
        (if flag1 fc \<noteq> COMMUNITY_ANY \<or> \<not> hm then None
         else Some (c\<lparr>data3 := subtype\<rparr>, m\<lparr>data1 := 0, data2 := 0, data3 := 0xff\<rparr>))
      else
        let c1 = c\<lparr>data3 := push_bit 8 type OR subtype\<rparr>; v = type AND EXT_COMMUNITY_VALUE in
        if flag1 fc = COMMUNITY_ANY then
          (if hm then Some (c1, m\<lparr>data1 := 0, data2 := 0\<rparr>) else None)
        else if v = EXT_COMMUNITY_TRANS_TWO_AS \<or> v = EXT_COMMUNITY_TRANS_FOUR_AS then
          map_option (\<lambda>(c', m'). (c', m'\<lparr>data3 := data3 m' AND NOT (push_bit 8 EXT_COMMUNITY_TRANS_FOUR_AS)\<rparr>))
            (fc2c_pair fc peer hm c1 m)
        else if v = EXT_COMMUNITY_TRANS_IPV4 then
          (case fc2c_pair fc peer hm c1 m of None \<Rightarrow> None | Some (c', m') \<Rightarrow>
             if data2 c' > USHRT_MAX then None else Some (c', m'))
        else Some (c1\<lparr>data1 := data1 fc, data2 := data2 fc\<rparr>, m))"

definition fc2c :: "community \<Rightarrow> peer_as option \<Rightarrow> bool \<Rightarrow> (community \<times> community) option res" where
  "fc2c fc peer hm =
     (let c = no_community\<lparr>cm_flags := ucast (ctype fc)\<rparr> in
      if ctype fc = COMMUNITY_TYPE_BASIC then Inr (fc2c_basic fc peer hm c full_mask)
      else if ctype fc = COMMUNITY_TYPE_LARGE then Inr (fc2c_large fc peer hm c full_mask)
      else if ctype fc = COMMUNITY_TYPE_EXT then Inr (fc2c_ext fc peer hm c full_mask)
      else Inl Fatal)"

section \<open>The sorted array\<close>

definition fast_match :: "community \<Rightarrow> community \<Rightarrow> int" where
  "fast_match a b =
     (if ctype a \<noteq> ctype b then (if ctype a > ctype b then 1 else -1)
      else if data1 a \<noteq> data1 b then (if data1 a > data1 b then 1 else -1)
      else if data2 a \<noteq> data2 b then (if data2 a > data2 b then 1 else -1)
      else if data3 a \<noteq> data3 b then (if data3 a > data3 b then 1 else -1)
      else 0)"

definition mask_match :: "community \<Rightarrow> community \<Rightarrow> community \<Rightarrow> int" where
  "mask_match a b m =
     (if ctype a \<noteq> ctype b then (if ctype a > ctype b then 1 else -1)
      else if data1 a AND data1 m \<noteq> data1 b AND data1 m then
        (if data1 a AND data1 m > data1 b AND data1 m then 1 else -1)
      else if data2 a AND data2 m \<noteq> data2 b AND data2 m then
        (if data2 a AND data2 m > data2 b AND data2 m then 1 else -1)
      else if data3 a AND data3 m \<noteq> data3 b AND data3 m then
        (if data3 a AND data3 m > data3 b AND data3 m then 1 else -1)
      else 0)"

text \<open>The search for the slot of a new entry; None when it is already present.\<close>

fun insert_slot :: "community \<Rightarrow> community list \<Rightarrow> community list option" where
  "insert_slot c [] = Some [c]"
| "insert_slot c (x # xs) =
     (if fast_match x c = 0 then None
      else if fast_match x c > 0 then Some (c # x # xs)
      else map_option (\<lambda>ys. x # ys) (insert_slot c xs))"

definition insert_community :: "can_alloc \<Rightarrow> rde_community \<Rightarrow> community \<Rightarrow> rde_community res" where
  "insert_community ca comm c =
     res_bind (let n = length (communities comm) in
       if n + 1 > cm_size comm then
         let newsize = unat (bin_of_communities (of_nat (n + 1))) in
         if \<not> ca (16 * newsize) then Inl Fatal
         else if newsize < n + 1 then Inl OutOfBounds
         else Inr (comm\<lparr>cm_size := newsize\<rparr>)
       else Inr comm) (\<lambda>comm.
       Inr (case insert_slot c (communities comm) of
              None \<Rightarrow> comm
            | Some cs \<Rightarrow> comm\<lparr>communities := cs, cmflags := cmflags comm OR PARTIAL_DIRTY\<rparr>))"

definition non_transitive_ext_community :: "community \<Rightarrow> bool" where
  "non_transitive_ext_community c =
     (ctype c = COMMUNITY_TYPE_EXT \<and> drop_bit 8 (data3 c) AND EXT_COMMUNITY_NON_TRANSITIVE \<noteq> 0)"

definition community_match :: "rde_community \<Rightarrow> community \<Rightarrow> peer_as option \<Rightarrow> bool res" where
  "community_match comm fc peer =
     (if communities comm = [] then Inr False
      else if drop_bit 8 (cm_flags fc) = 0 then
        Inr (bsearch (fast_match fc) (communities comm) \<noteq> None)
      else res_bind (fc2c fc peer True) (\<lambda>r. case r of
          None \<Rightarrow> Inr False
        | Some (test, m) \<Rightarrow> Inr (list_ex (\<lambda>c. mask_match c test m = 0) (communities comm))))"

text \<open>Each type of community has its own loop, since the array is ordered by type.\<close>

fun count_ext :: "u8 \<Rightarrow> community list \<Rightarrow> nat" where
  "count_ext type [] = 0"
| "count_ext type (c # cs) =
     (if ctype c = type then 1 + count_ext type cs
      else if ctype c > type then 0 else count_ext type cs)"

definition community_count :: "rde_community \<Rightarrow> u8 \<Rightarrow> nat" where
  "community_count comm type =
     (if type = COMMUNITY_TYPE_BASIC then length (takeWhile (\<lambda>c. ctype c = type) (communities comm))
      else if type = COMMUNITY_TYPE_EXT then count_ext type (communities comm)
      else if type = COMMUNITY_TYPE_LARGE then length (takeWhile (\<lambda>c. ctype c = type) (rev (communities comm)))
      else 0)"

text \<open>The choice of the two or four octet AS form; None is the early return 0.\<close>

definition ext_fit :: "community \<Rightarrow> community option" where
  "ext_fit s =
     (if ctype s = COMMUNITY_TYPE_EXT \<and>
         (ext_type (data3 s) AND EXT_COMMUNITY_VALUE = EXT_COMMUNITY_TRANS_TWO_AS \<or>
          ext_type (data3 s) AND EXT_COMMUNITY_VALUE = EXT_COMMUNITY_TRANS_FOUR_AS) then
        (if data1 s > USHRT_MAX \<and> data2 s > USHRT_MAX then None
         else if data1 s > USHRT_MAX then
           Some (s\<lparr>data3 := data3 s AND 0xff OR push_bit 8 EXT_COMMUNITY_TRANS_FOUR_AS\<rparr>)
         else Some (s\<lparr>data3 := data3 s AND 0xff OR push_bit 8 EXT_COMMUNITY_TRANS_TWO_AS\<rparr>))
      else Some s)"

definition community_set ::
  "can_alloc \<Rightarrow> rde_community \<Rightarrow> community \<Rightarrow> peer_as option \<Rightarrow> (rde_community \<times> bool) res" where
  "community_set ca comm fc peer =
     (if drop_bit 8 (cm_flags fc) = 0 then
        res_bind (insert_community ca comm fc) (\<lambda>comm'. Inr (comm', True))
      else res_bind (fc2c fc peer False) (\<lambda>r. case r of
          None \<Rightarrow> Inr (comm, False)
        | Some (s, _) \<Rightarrow> (case ext_fit s of
            None \<Rightarrow> Inr (comm, False)
          | Some s' \<Rightarrow> res_bind (insert_community ca comm s') (\<lambda>comm'. Inr (comm', True)))))"

definition community_delete ::
  "rde_community \<Rightarrow> community \<Rightarrow> peer_as option \<Rightarrow> rde_community res" where
  "community_delete comm fc peer =
     (if communities comm = [] then Inr comm
      else if drop_bit 8 (cm_flags fc) = 0 then
        Inr (case bsearch (fast_match fc) (communities comm) of
               None \<Rightarrow> comm
             | Some i \<Rightarrow> comm\<lparr>communities := take i (communities comm) @ drop (i + 1) (communities comm),
                              cmflags := cmflags comm OR PARTIAL_DIRTY\<rparr>)
      else res_bind (fc2c fc peer True) (\<lambda>r. case r of
          None \<Rightarrow> Inr comm
        | Some (test, m) \<Rightarrow>
            let cs = filter (\<lambda>c. mask_match c test m \<noteq> 0) (communities comm) in
            Inr (if length cs = length (communities comm) then comm
                 else comm\<lparr>communities := cs, cmflags := cmflags comm OR PARTIAL_DIRTY\<rparr>)))"

section \<open>Reading the wire format\<close>

text \<open>
  The loops over the attribute. The result False is the return value -1; the entries read before
  the error stay in the collection.
\<close>

definition basic_community :: "u16 \<Rightarrow> u16 \<Rightarrow> community" where
  "basic_community d1 d2 = \<lparr>cm_flags = ucast COMMUNITY_TYPE_BASIC, data1 = ucast d1, data2 = ucast d2, data3 = 0\<rparr>"

function add_basic :: "can_alloc \<Rightarrow> rde_community \<Rightarrow> bytes \<Rightarrow> (rde_community \<times> bool) res" where
  "add_basic ca comm buf =
     (if buf = [] then Inr (comm, True)
      else case get_n16 buf of Inl _ \<Rightarrow> Inr (comm, False) | Inr (d1, buf1) \<Rightarrow>
       case get_n16 buf1 of Inl _ \<Rightarrow> Inr (comm, False) | Inr (d2, buf2) \<Rightarrow>
         res_bind (insert_community ca comm (basic_community d1 d2)) (\<lambda>comm'. add_basic ca comm' buf2))"
  by pat_completeness auto
termination by (relation "measure (\<lambda>(ca, comm, buf). length buf)") (auto dest!: get_n16_Inr)

definition community_add :: "can_alloc \<Rightarrow> rde_community \<Rightarrow> u8 \<Rightarrow> bytes \<Rightarrow> (rde_community \<times> bool) res" where
  "community_add ca comm flags buf =
     (if length buf = 0 \<or> length buf mod 4 \<noteq> 0 then Inr (comm, False)
      else add_basic ca (if flags AND ATTR_PARTIAL \<noteq> 0 then comm\<lparr>cmflags := cmflags comm OR PARTIAL_COMMUNITIES\<rparr> else comm) buf)"

definition large_community :: "u32 \<Rightarrow> u32 \<Rightarrow> u32 \<Rightarrow> community" where
  "large_community d1 d2 d3 = \<lparr>cm_flags = ucast COMMUNITY_TYPE_LARGE, data1 = d1, data2 = d2, data3 = d3\<rparr>"

function add_large :: "can_alloc \<Rightarrow> rde_community \<Rightarrow> bytes \<Rightarrow> (rde_community \<times> bool) res" where
  "add_large ca comm buf =
     (if buf = [] then Inr (comm, True)
      else case get_n32 buf of Inl _ \<Rightarrow> Inr (comm, False) | Inr (d1, buf1) \<Rightarrow>
       case get_n32 buf1 of Inl _ \<Rightarrow> Inr (comm, False) | Inr (d2, buf2) \<Rightarrow>
       case get_n32 buf2 of Inl _ \<Rightarrow> Inr (comm, False) | Inr (d3, buf3) \<Rightarrow>
         res_bind (insert_community ca comm (large_community d1 d2 d3)) (\<lambda>comm'. add_large ca comm' buf3))"
  by pat_completeness auto
termination by (relation "measure (\<lambda>(ca, comm, buf). length buf)") (auto dest!: get_n32_Inr)

definition community_large_add :: "can_alloc \<Rightarrow> rde_community \<Rightarrow> u8 \<Rightarrow> bytes \<Rightarrow> (rde_community \<times> bool) res" where
  "community_large_add ca comm flags buf =
     (if length buf = 0 \<or> length buf mod 12 \<noteq> 0 then Inr (comm, False)
      else add_large ca (if flags AND ATTR_PARTIAL \<noteq> 0 then comm\<lparr>cmflags := cmflags comm OR PARTIAL_LARGE_COMMUNITIES\<rparr> else comm) buf)"

text \<open>The two layouts of an extended community.\<close>

definition ext_decode :: "u64 \<Rightarrow> community" where
  "ext_decode c =
     (let type = ucast (drop_bit 56 c) :: u32; v = type AND EXT_COMMUNITY_VALUE;
          wide = (v = EXT_COMMUNITY_TRANS_FOUR_AS \<or> v = EXT_COMMUNITY_TRANS_IPV4)
      in \<lparr>cm_flags = ucast COMMUNITY_TYPE_EXT,
          data1 = (if wide then ucast (drop_bit 16 c) else ucast (drop_bit 32 c AND 0xffff)),
          data2 = (if wide then ucast (c AND 0xffff) else ucast c),
          data3 = ucast (drop_bit 48 c)\<rparr>)"

function add_ext :: "can_alloc \<Rightarrow> bool \<Rightarrow> rde_community \<Rightarrow> bytes \<Rightarrow> (rde_community \<times> bool) res" where
  "add_ext ca ebgp comm buf =
     (if buf = [] then Inr (comm, True)
      else case get_n64 buf of Inl _ \<Rightarrow> Inr (comm, False) | Inr (c, buf') \<Rightarrow>
        if ebgp \<and> (ucast (drop_bit 56 c) :: u32) AND EXT_COMMUNITY_NON_TRANSITIVE \<noteq> 0 then add_ext ca ebgp comm buf'
        else res_bind (insert_community ca comm (ext_decode c)) (\<lambda>comm'. add_ext ca ebgp comm' buf'))"
  by pat_completeness auto
termination by (relation "measure (\<lambda>(ca, ebgp, comm, buf). length buf)") (auto dest!: get_n64_Inr)

declare add_basic.simps [simp del] add_large.simps [simp del] add_ext.simps [simp del]

definition community_ext_add :: "can_alloc \<Rightarrow> rde_community \<Rightarrow> u8 \<Rightarrow> bool \<Rightarrow> bytes \<Rightarrow> (rde_community \<times> bool) res" where
  "community_ext_add ca comm flags ebgp buf =
     (if length buf = 0 \<or> length buf mod 8 \<noteq> 0 then Inr (comm, False)
      else add_ext ca ebgp (if flags AND ATTR_PARTIAL \<noteq> 0 then comm\<lparr>cmflags := cmflags comm OR PARTIAL_EXT_COMMUNITIES\<rparr> else comm) buf)"

section \<open>Writing the wire format\<close>

definition ext_encode :: "community \<Rightarrow> u64" where
  "ext_encode cp =
     (let v = drop_bit 8 (data3 cp) AND EXT_COMMUNITY_VALUE; e = push_bit 48 (ucast (data3 cp)) in
      if v = EXT_COMMUNITY_TRANS_FOUR_AS \<or> v = EXT_COMMUNITY_TRANS_IPV4 then
        e OR push_bit 16 (ucast (data1 cp)) OR (ucast (data2 cp) AND 0xffff)
      else e OR push_bit 32 (ucast (data1 cp) AND 0xffff) OR ucast (data2 cp))"

text \<open>The counting loop: how many entries are written, the first of them and where it stopped.\<close>

fun count_written :: "u8 \<Rightarrow> bool \<Rightarrow> nat \<Rightarrow> community list \<Rightarrow> nat \<Rightarrow> nat option \<Rightarrow> nat \<times> nat option \<times> nat" where
  "count_written t ebgp l [] num start = (num, start, l)"
| "count_written t ebgp l (cp # cs) num start =
     (if ctype cp = t then
        (if ebgp \<and> non_transitive_ext_community cp then count_written t ebgp (l + 1) cs num start
         else count_written t ebgp (l + 1) cs (num + 1) (case start of None \<Rightarrow> Some l | Some s \<Rightarrow> Some s))
      else if ctype cp > t then (num, start, l)
      else count_written t ebgp (l + 1) cs num start)"

fun write_entries :: "can_alloc \<Rightarrow> u8 \<Rightarrow> bool \<Rightarrow> community list \<Rightarrow> ibuf \<Rightarrow> ibuf res" where
  "write_entries ca type ebgp [] buf = Inr buf"
| "write_entries ca type ebgp (cp # cs) buf =
     (if type = ATTR_COMMUNITIES then
        res_bind (ibuf_add_n16 ca buf (ucast (data1 cp))) (\<lambda>buf.
        res_bind (ibuf_add_n16 ca buf (ucast (data2 cp))) (\<lambda>buf. write_entries ca type ebgp cs buf))
      else if type = ATTR_EXT_COMMUNITIES then
        (if ebgp \<and> non_transitive_ext_community cp then write_entries ca type ebgp cs buf
         else res_bind (ibuf_add_n64 ca buf (ext_encode cp)) (\<lambda>buf. write_entries ca type ebgp cs buf))
      else
        res_bind (ibuf_add_n32 ca buf (ucast (data1 cp))) (\<lambda>buf.
        res_bind (ibuf_add_n32 ca buf (ucast (data2 cp))) (\<lambda>buf.
        res_bind (ibuf_add_n32 ca buf (ucast (data3 cp))) (\<lambda>buf. write_entries ca type ebgp cs buf))))"

text \<open>EINVAL stands for the return values -1 that set no errno.\<close>

definition community_writebuf :: "can_alloc \<Rightarrow> rde_community \<Rightarrow> u8 \<Rightarrow> bool \<Rightarrow> ibuf \<Rightarrow> ibuf res" where
  "community_writebuf ca comm type ebgp buf =
     (let write = (\<lambda>pflag size t.
        let flags = ATTR_OPTIONAL OR ATTR_TRANSITIVE OR (if cmflags comm AND pflag \<noteq> 0 then ATTR_PARTIAL else 0);
            (num, start, end) = count_written t ebgp 0 (communities comm) 0 None
        in if num = 0 then Inr buf
           else if num > 32767 div size then Inl EINVAL
           else res_bind (attr_writebuf ca buf flags type None (of_nat (num * size))) (\<lambda>buf.
             write_entries ca type ebgp (drop (the start) (take end (communities comm))) buf))
      in if type = ATTR_COMMUNITIES then write PARTIAL_COMMUNITIES 4 COMMUNITY_TYPE_BASIC
         else if type = ATTR_EXT_COMMUNITIES then write PARTIAL_EXT_COMMUNITIES 8 COMMUNITY_TYPE_EXT
         else if type = ATTR_LARGE_COMMUNITIES then write PARTIAL_LARGE_COMMUNITIES 12 COMMUNITY_TYPE_LARGE
         else Inl EINVAL)"

section \<open>Shared collections\<close>

text \<open>
  The global table of collections: an explicit heap, since routes share its elements. SipHash24
  over the entries and the flags is the parameter hashf; the table compares hash and contents.
\<close>

record comm_state =
  comm_heap :: "nat \<rightharpoonup> rde_community"
  commtable :: "nat list"
  comm_next :: nat
  comm_size :: int
  comm_nmemb :: int
  comm_cnt :: int

definition communities_equal :: "rde_community \<Rightarrow> rde_community \<Rightarrow> bool" where
  "communities_equal a b =
     (if length (communities a) \<noteq> length (communities b) then False
      else if cmflags a \<noteq> cmflags b then False
      else if communities a = [] then True
      else communities a = communities b)"

definition communities_calc_hash :: "(community list \<Rightarrow> u8 \<Rightarrow> u64) \<Rightarrow> rde_community \<Rightarrow> rde_community" where
  "communities_calc_hash hashf comm =
     (if cmflags comm AND PARTIAL_DIRTY \<noteq> 0 then
        let fl = cmflags comm AND NOT PARTIAL_DIRTY in
        comm\<lparr>cmflags := fl, cm_hash := hashf (communities comm) fl\<rparr>
      else comm)"

definition comm_find :: "comm_state \<Rightarrow> rde_community \<Rightarrow> nat option" where
  "comm_find st comm = List.find (\<lambda>p. case comm_heap st p of
     None \<Rightarrow> False | Some e \<Rightarrow> cm_hash e = cm_hash comm \<and> communities_equal comm e) (commtable st)"

text \<open>The lookup also stores the hash in its argument, which is returned with the result.\<close>

definition communities_lookup ::
  "(community list \<Rightarrow> u8 \<Rightarrow> u64) \<Rightarrow> comm_state \<Rightarrow> rde_community \<Rightarrow> rde_community \<times> nat option" where
  "communities_lookup hashf st comm =
     (let comm' = communities_calc_hash hashf comm in (comm', comm_find st comm'))"

definition communities_copy :: "can_alloc \<Rightarrow> rde_community \<Rightarrow> rde_community res" where
  "communities_copy ca from =
     (if communities from \<noteq> [] \<and> \<not> ca (16 * length (communities from)) then Inl Fatal
      else Inr \<lparr>cm_hash = cm_hash from, cm_size = length (communities from), cmflags = cmflags from,
                cm_refcnt = 0, communities = communities from\<rparr>)"

definition communities_link ::
  "can_alloc \<Rightarrow> (community list \<Rightarrow> u8 \<Rightarrow> u64) \<Rightarrow> comm_state \<Rightarrow> rde_community \<Rightarrow>
     (comm_state \<times> rde_community \<times> nat) res" where
  "communities_link ca hashf st comm =
     (if \<not> ca 40 then Inl Fatal
      else res_bind (communities_copy ca comm) (\<lambda>n.
        let comm' = communities_calc_hash hashf comm in
        case comm_find st n of
          Some f \<Rightarrow> Inr (st, comm', f)
        | None \<Rightarrow>
            Inr (st\<lparr>comm_heap := (comm_heap st)(comm_next st \<mapsto> n\<lparr>cm_refcnt := 1\<rparr>),
                    commtable := comm_next st # commtable st, comm_next := comm_next st + 1,
                    comm_size := comm_size st + int (cm_size n),
                    comm_nmemb := comm_nmemb st + int (length (communities n)),
                    comm_cnt := comm_cnt st + 1\<rparr>, comm', comm_next st)))"

definition communities_unlink :: "comm_state \<Rightarrow> nat \<Rightarrow> comm_state res" where
  "communities_unlink st p =
     (case comm_heap st p of None \<Rightarrow> Inl OutOfBounds
      | Some comm \<Rightarrow>
          if cm_refcnt comm \<noteq> 1 then Inl Fatal
          else Inr (st\<lparr>comm_heap := (comm_heap st)(p := None), commtable := remove1 p (commtable st),
                       comm_size := comm_size st - int (cm_size comm),
                       comm_nmemb := comm_nmemb st - int (length (communities comm)),
                       comm_cnt := comm_cnt st - 1\<rparr>))"

definition communities_clean :: "rde_community \<Rightarrow> rde_community res" where
  "communities_clean comm =
     (if cm_refcnt comm \<noteq> 0 then Inl Fatal
      else Inr \<lparr>cm_hash = 0, cm_size = 0, cmflags = 0, cm_refcnt = 0, communities = []\<rparr>)"

definition htobe64 :: "u64 \<Rightarrow> bytes" where
  "htobe64 v = be_word 8 v"

text \<open>A route distinguisher from an extended community; None is the return value -1.\<close>

definition community_to_rd :: "community \<Rightarrow> bytes option res" where
  "community_to_rd fc =
     res_bind (fc2c fc None False) (\<lambda>r. Inr (case r of
       None \<Rightarrow> None
     | Some (c, _) \<Rightarrow>
         let v = drop_bit 8 (data3 c) AND EXT_COMMUNITY_VALUE in
         if v = EXT_COMMUNITY_TRANS_TWO_AS then
           Some (htobe64 (push_bit 32 (ucast (data1 c) AND 0xffff) OR ucast (data2 c)))
         else if v = EXT_COMMUNITY_TRANS_IPV4 then
           Some (htobe64 (push_bit 48 1 OR push_bit 16 (ucast (data1 c)) OR (ucast (data2 c) AND 0xffff)))
         else if v = EXT_COMMUNITY_TRANS_FOUR_AS then
           Some (htobe64 (push_bit 48 2 OR push_bit 16 (ucast (data1 c)) OR (ucast (data2 c) AND 0xffff)))
         else None))"

end
