(* ===== verification/Rde_Trie.thy ===== *)
theory Rde_Trie
  imports Addr Rde_Sets
begin

text \<open>
  The path-compressed tries of usr.sbin/bgpd/rde_trie.c, which hold prefix-sets and ROA tables. The
  source has every function twice, for IPv4 and IPv6, with the same text up to the address
  functions; here the text is once, over a record of address functions, and instantiated for both
  families. A node is a value; the pointer trie_add_v4() returns is the key of the node (masked
  address and length) and writing through it is trie_modify. The last section shows that a
  lookup in a trie built from any list of entries decides what a search through the list would.
\<close>

section \<open>Data\<close>

record 'a addr_ops =
  ao_width :: nat
  ao_applymask :: "'a \<Rightarrow> nat \<Rightarrow> 'a"
  ao_findmsb :: "'a \<Rightarrow> 'a \<Rightarrow> nat"
  ao_isset :: "'a \<Rightarrow> nat \<Rightarrow> bool"
  ao_setbit :: "'a \<Rightarrow> nat \<Rightarrow> 'a"
  ao_zero :: 'a
  ao_size :: int

definition v4_ops :: "in_addr addr_ops" where
  "v4_ops = \<lparr>ao_width = 32, ao_applymask = inet4applymask, ao_findmsb = inet4findmsb,
     ao_isset = inet4isset, ao_setbit = inet4setbit, ao_zero = 0, ao_size = 40\<rparr>"

definition v6_ops :: "in6_addr addr_ops" where
  "v6_ops = \<lparr>ao_width = 128, ao_applymask = inet6applymask, ao_findmsb = inet6findmsb,
     ao_isset = inet6isset, ao_setbit = inet6setbit, ao_zero = 0, ao_size = 64\<rparr>"

record roa_set =
  rs_as :: u32
  rs_maxlen :: u32

datatype 'a tentry =
    TNil
  | TNode (trie0: "'a tentry") (trie1: "'a tentry") (tset: "roa_set set_table option")
      (taddr: 'a) (plenmask: 'a) (tplen: nat) (tnode: bool)

record trie_head =
  root_v4 :: "in_addr tentry"
  root_v6 :: "in6_addr tentry"
  match_default_v4 :: bool
  match_default_v6 :: bool
  v4_cnt :: nat
  v6_cnt :: nat

definition trie_empty :: trie_head where
  "trie_empty = \<lparr>root_v4 = TNil, root_v6 = TNil, match_default_v4 = False, match_default_v6 = False,
     v4_cnt = 0, v6_cnt = 0\<rparr>"

text \<open>The fields of rdemem that count trie nodes, and those of the ROA tables.\<close>

record trie_mem =
  pset_cnt :: int
  pset_size :: int
  tm_aset :: aset_mem

section \<open>Insertion\<close>

definition new_node :: "'a addr_ops \<Rightarrow> 'a \<Rightarrow> nat \<Rightarrow> 'a tentry" where
  "new_node ops p plen = TNode TNil TNil None p (ao_zero ops) plen True"

text \<open>The walk of trie_add_v4() and trie_add_v6() for the masked prefix p.\<close>

fun trie_ins :: "'a addr_ops \<Rightarrow> 'a \<Rightarrow> nat \<Rightarrow> 'a tentry \<Rightarrow> 'a tentry" where
  "trie_ins ops p plen TNil = new_node ops p plen"
| "trie_ins ops p plen (TNode l r s a m n nd) =
     (let minlen = (if n > plen then plen else n); mp = ao_applymask ops p minlen in
      if a \<noteq> mp then
        let bp = ao_findmsb ops a mp; ba = ao_applymask ops a bp in
        if ao_isset ops a bp
        then TNode (new_node ops p plen) (TNode l r s a m n nd) None ba (ao_zero ops) bp False
        else TNode (TNode l r s a m n nd) (new_node ops p plen) None ba (ao_zero ops) bp False
      else if n > plen then
        if ao_isset ops a plen
        then TNode TNil (TNode l r s a m n nd) None p (ao_zero ops) plen True
        else TNode (TNode l r s a m n nd) TNil None p (ao_zero ops) plen True
      else if n = plen then TNode l r s a m n True
      else if ao_isset ops p n then TNode l (trie_ins ops p plen r) s a m n nd
      else TNode (trie_ins ops p plen l) r s a m n nd)"

text \<open>What the same walk adds to the prefix counter and to the number of nodes.\<close>

fun trie_ins_counts :: "'a addr_ops \<Rightarrow> 'a \<Rightarrow> nat \<Rightarrow> 'a tentry \<Rightarrow> nat \<times> int" where
  "trie_ins_counts ops p plen TNil = (1, 1)"
| "trie_ins_counts ops p plen (TNode l r s a m n nd) =
     (let minlen = (if n > plen then plen else n); mp = ao_applymask ops p minlen in
      if a \<noteq> mp then (1, 2)
      else if n > plen then (1, 1)
      else if n = plen then (if nd then 0 else 1, 0)
      else if ao_isset ops p n then trie_ins_counts ops p plen r
      else trie_ins_counts ops p plen l)"

text \<open>Writing to the prefixlen mask and the set of the node with a given key.\<close>

fun trie_modify ::
  "'a addr_ops \<Rightarrow> ('a \<times> roa_set set_table option \<Rightarrow> 'a \<times> roa_set set_table option) \<Rightarrow> 'a \<Rightarrow> nat \<Rightarrow>
     'a tentry \<Rightarrow> 'a tentry" where
  "trie_modify ops f p plen TNil = TNil"
| "trie_modify ops f p plen (TNode l r s a m n nd) =
     (if n = plen \<and> a = p then (let (m', s') = f (m, s) in TNode l r s' a m' n nd)
      else if n < plen then
        (if ao_isset ops p n then TNode l (trie_modify ops f p plen r) s a m n nd
         else TNode (trie_modify ops f p plen l) r s a m n nd)
      else TNode l r s a m n nd)"

fun trie_find :: "'a addr_ops \<Rightarrow> 'a \<Rightarrow> nat \<Rightarrow> 'a tentry \<Rightarrow> ('a \<times> roa_set set_table option) option" where
  "trie_find ops p plen TNil = None"
| "trie_find ops p plen (TNode l r s a m n nd) =
     (if n = plen \<and> a = p then Some (m, s)
      else if n < plen then
        (if ao_isset ops p n then trie_find ops p plen r else trie_find ops p plen l)
      else None)"

text \<open>
  trie_add_v4() and trie_add_v6(): the trie with the node and the key that stands for the pointer;
  None when no node can be allocated.
\<close>

definition trie_add_node ::
  "'a addr_ops \<Rightarrow> can_alloc \<Rightarrow> trie_mem \<Rightarrow> 'a tentry \<Rightarrow> 'a \<Rightarrow> nat \<Rightarrow>
     (trie_mem \<times> 'a tentry \<times> nat \<times> 'a) option" where
  "trie_add_node ops ca m t prefix plen =
     (let p = ao_applymask ops prefix plen; (c, k) = trie_ins_counts ops p plen t in
      if k > 0 \<and> \<not> ca (nat (ao_size ops)) then None
      else Some (m\<lparr>pset_cnt := pset_cnt m + k, pset_size := pset_size m + k * ao_size ops\<rparr>,
                 trie_ins ops p plen t, c, p))"

definition trie_add_v4 ::
  "can_alloc \<Rightarrow> trie_mem \<Rightarrow> trie_head \<Rightarrow> in_addr \<Rightarrow> nat \<Rightarrow> (trie_mem \<times> trie_head \<times> in_addr) option" where
  "trie_add_v4 ca m th prefix plen =
     map_option (\<lambda>(m', t, c, p). (m', th\<lparr>root_v4 := t, v4_cnt := v4_cnt th + c\<rparr>, p))
       (trie_add_node v4_ops ca m (root_v4 th) prefix plen)"

definition trie_add_v6 ::
  "can_alloc \<Rightarrow> trie_mem \<Rightarrow> trie_head \<Rightarrow> in6_addr \<Rightarrow> nat \<Rightarrow> (trie_mem \<times> trie_head \<times> in6_addr) option" where
  "trie_add_v6 ca m th prefix plen =
     map_option (\<lambda>(m', t, c, p). (m', th\<lparr>root_v6 := t, v6_cnt := v6_cnt th + c\<rparr>, p))
       (trie_add_node v6_ops ca m (root_v6 th) prefix plen)"

text \<open>The loop that sets the bits min - 1 to max - 1 of a prefixlen mask.\<close>

definition set_range :: "'a addr_ops \<Rightarrow> nat \<Rightarrow> nat \<Rightarrow> 'a \<Rightarrow> 'a" where
  "set_range ops mn mx m = foldl (\<lambda>m i. ao_setbit ops m (i - 1)) m [mn..<mx + 1]"

text \<open>The last component tells whether the function returns 0.\<close>

definition trie_add ::
  "can_alloc \<Rightarrow> trie_mem \<Rightarrow> trie_head \<Rightarrow> bgpd_addr \<Rightarrow> nat \<Rightarrow> nat \<Rightarrow> nat \<Rightarrow> trie_mem \<times> trie_head \<times> bool" where
  "trie_add ca m th prefix plen mn mx =
     (if plen > mn \<or> mn > mx then (m, th, False)
      else if aid prefix \<noteq> AID_INET \<and> aid prefix \<noteq> AID_INET6 then (m, th, False)
      else
        let th1 = (if mn = 0 then
                     (if aid prefix = AID_INET then th\<lparr>match_default_v4 := True\<rparr>
                      else th\<lparr>match_default_v6 := True\<rparr>) else th)
        in if mn = 0 \<and> mx = 0 then (m, th1, True)
           else let mn' = (if mn = 0 then 1 else mn) in
             if aid prefix = AID_INET then
               (if mx > 32 then (m, th1, False)
                else case trie_add_v4 ca m th1 (v4 prefix) plen of
                  None \<Rightarrow> (m, th1, False)
                | Some (m', th2, p) \<Rightarrow>
                    (m', th2\<lparr>root_v4 := trie_modify v4_ops (\<lambda>(k, s). (set_range v4_ops mn' mx k, s))
                           p plen (root_v4 th2)\<rparr>, True))
             else
               (if mx > 128 then (m, th1, False)
                else case trie_add_v6 ca m th1 (v6 prefix) plen of
                  None \<Rightarrow> (m, th1, False)
                | Some (m', th2, p) \<Rightarrow>
                    (m', th2\<lparr>root_v6 := trie_modify v6_ops (\<lambda>(k, s). (set_range v6_ops mn' mx k, s))
                           p plen (root_v6 th2)\<rparr>, True)))"

section \<open>ROA tables\<close>

record roa =
  roa_aid :: u8
  roa_prefixlen :: nat
  roa_maxlen :: u8
  roa_asnum :: u32
  roa_expires :: int
  roa_inet :: in_addr
  roa_inet6 :: in6_addr

text \<open>
  The part of trie_roa_add() after the node is found: the new table of the node, or None when
  memory runs out. The first component tells whether the function returns 0.
\<close>

definition roa_set_add ::
  "can_alloc \<Rightarrow> aset_mem \<Rightarrow> roa_set set_table option \<Rightarrow> u32 \<Rightarrow> u8 \<Rightarrow>
     bool \<times> aset_mem \<times> roa_set set_table option" where
  "roa_set_add ca m st asnum maxlen =
     (case (case st of None \<Rightarrow> set_new ca m 1 8 | Some t \<Rightarrow> Inr (m, t)) of
        Inl _ \<Rightarrow> (False, m, None)
      | Inr (m1, t) \<Rightarrow>
          (case set_match rs_as (Some t) asnum of
             Some i \<Rightarrow>
               (True, m1, Some (if rs_maxlen (st_elems t ! i) < ucast maxlen
                                then t\<lparr>st_elems := (st_elems t)[i := (st_elems t ! i)\<lparr>rs_maxlen := ucast maxlen\<rparr>]\<rparr>
                                else t))
           | None \<Rightarrow>
               (case set_add ca m1 t [\<lparr>rs_as = asnum, rs_maxlen = ucast maxlen\<rparr>] of
                  Inl _ \<Rightarrow> (False, m1, Some t)
                | Inr (m2, t') \<Rightarrow> (True, m2, set_prep rs_as (Some t')))))"

definition roa_node_add ::
  "'a addr_ops \<Rightarrow> can_alloc \<Rightarrow> trie_mem \<Rightarrow> 'a tentry \<Rightarrow> 'a \<Rightarrow> nat \<Rightarrow> u32 \<Rightarrow> u8 \<Rightarrow>
     trie_mem \<times> 'a tentry \<times> bool" where
  "roa_node_add ops ca m t p plen asnum maxlen =
     (case trie_find ops p plen t of
        None \<Rightarrow> (m, t, False)
      | Some (k, s) \<Rightarrow>
          let (ok, am, s') = roa_set_add ca (tm_aset m) s asnum maxlen
          in (m\<lparr>tm_aset := am\<rparr>, trie_modify ops (\<lambda>(k, s). (k, s')) p plen t, ok))"

definition trie_roa_add ::
  "can_alloc \<Rightarrow> trie_mem \<Rightarrow> trie_head \<Rightarrow> roa \<Rightarrow> trie_mem \<times> trie_head \<times> bool" where
  "trie_roa_add ca m th r =
     (if roa_aid r = AID_INET then
        (if roa_prefixlen r > 32 then (m, th, False)
         else case trie_add_v4 ca m th (roa_inet r) (roa_prefixlen r) of
           None \<Rightarrow> (m, th, False)
         | Some (m', th', p) \<Rightarrow>
             let (m2, t, ok) = roa_node_add v4_ops ca m' (root_v4 th') p (roa_prefixlen r)
                                 (roa_asnum r) (roa_maxlen r)
             in (m2, th'\<lparr>root_v4 := t\<rparr>, ok))
      else if roa_aid r = AID_INET6 then
        (if roa_prefixlen r > 128 then (m, th, False)
         else case trie_add_v6 ca m th (roa_inet6 r) (roa_prefixlen r) of
           None \<Rightarrow> (m, th, False)
         | Some (m', th', p) \<Rightarrow>
             let (m2, t, ok) = roa_node_add v6_ops ca m' (root_v6 th') p (roa_prefixlen r)
                                 (roa_asnum r) (roa_maxlen r)
             in (m2, th'\<lparr>root_v6 := t\<rparr>, ok))
      else (m, th, False))"

section \<open>Removal\<close>

fun trie_free_node :: "'a addr_ops \<Rightarrow> trie_mem \<Rightarrow> 'a tentry \<Rightarrow> trie_mem" where
  "trie_free_node ops m TNil = m"
| "trie_free_node ops m (TNode l r s a k n nd) =
     (let m1 = trie_free_node ops m l; m2 = trie_free_node ops m1 r
      in m2\<lparr>tm_aset := set_free (tm_aset m2) s, pset_cnt := pset_cnt m2 - 1,
            pset_size := pset_size m2 - ao_size ops\<rparr>)"

definition trie_free :: "trie_mem \<Rightarrow> trie_head \<Rightarrow> trie_mem \<times> trie_head" where
  "trie_free m th =
     (trie_free_node v6_ops (trie_free_node v4_ops m (root_v4 th)) (root_v6 th), trie_empty)"

section \<open>Lookup\<close>

fun trie_match_node :: "'a addr_ops \<Rightarrow> 'a tentry \<Rightarrow> 'a \<Rightarrow> nat \<Rightarrow> bool \<Rightarrow> bool" where
  "trie_match_node ops TNil prefix plen orlonger = False"
| "trie_match_node ops (TNode l r s a m n nd) prefix plen orlonger =
     (if n > plen then False
      else if a \<noteq> ao_applymask ops prefix n then False
      else if nd \<and> orlonger then True
      else if nd \<and> ao_isset ops m (plen - 1) then True
      else if n = ao_width ops then False
      else if ao_isset ops prefix n then trie_match_node ops r prefix plen orlonger
      else trie_match_node ops l prefix plen orlonger)"

definition trie_match_v4 :: "trie_head \<Rightarrow> in_addr \<Rightarrow> nat \<Rightarrow> bool \<Rightarrow> bool" where
  "trie_match_v4 th prefix plen orlonger =
     (if plen = 0 then match_default_v4 th
      else trie_match_node v4_ops (root_v4 th) prefix plen orlonger)"

definition trie_match_v6 :: "trie_head \<Rightarrow> in6_addr \<Rightarrow> nat \<Rightarrow> bool \<Rightarrow> bool" where
  "trie_match_v6 th prefix plen orlonger =
     (if plen = 0 then match_default_v6 th
      else trie_match_node v6_ops (root_v6 th) prefix plen orlonger)"

definition trie_match :: "trie_head \<Rightarrow> bgpd_addr \<Rightarrow> nat \<Rightarrow> bool \<Rightarrow> bool" where
  "trie_match th prefix plen orlonger =
     (if aid prefix = AID_INET then trie_match_v4 th (v4 prefix) plen orlonger
      else if aid prefix = AID_INET6 then trie_match_v6 th (v6 prefix) plen orlonger
      else False)"

datatype roa_validity = ROA_NOTFOUND | ROA_INVALID | ROA_VALID

fun trie_roa_check_node ::
  "'a addr_ops \<Rightarrow> 'a tentry \<Rightarrow> 'a \<Rightarrow> nat \<Rightarrow> u32 \<Rightarrow> roa_validity \<Rightarrow> roa_validity" where
  "trie_roa_check_node ops TNil prefix plen as validity = validity"
| "trie_roa_check_node ops (TNode l r s a m n nd) prefix plen as validity =
     (if n > plen then validity
      else if a \<noteq> ao_applymask ops prefix n then validity
      else
        let validity' = (if nd then ROA_INVALID else validity) in
        if nd \<and> as \<noteq> 0 \<and>
           (case set_match rs_as s as of
              None \<Rightarrow> False
            | Some i \<Rightarrow> plen = n \<or> plen \<le> unat (rs_maxlen (st_elems (the s) ! i)))
        then ROA_VALID
        else if n = ao_width ops then validity'
        else if ao_isset ops prefix n then trie_roa_check_node ops r prefix plen as validity'
        else trie_roa_check_node ops l prefix plen as validity')"

definition trie_roa_check_v4 :: "trie_head \<Rightarrow> in_addr \<Rightarrow> nat \<Rightarrow> u32 \<Rightarrow> roa_validity" where
  "trie_roa_check_v4 th prefix plen as =
     trie_roa_check_node v4_ops (root_v4 th) prefix plen as ROA_NOTFOUND"

definition trie_roa_check_v6 :: "trie_head \<Rightarrow> in6_addr \<Rightarrow> nat \<Rightarrow> u32 \<Rightarrow> roa_validity" where
  "trie_roa_check_v6 th prefix plen as =
     trie_roa_check_node v6_ops (root_v6 th) prefix plen as ROA_NOTFOUND"

definition trie_roa_check :: "trie_head \<Rightarrow> bgpd_addr \<Rightarrow> nat \<Rightarrow> u32 \<Rightarrow> roa_validity" where
  "trie_roa_check th prefix plen as =
     (if aid prefix = AID_INET then trie_roa_check_v4 th (v4 prefix) plen as
      else if aid prefix = AID_INET6 then trie_roa_check_v6 th (v6 prefix) plen as
      else ROA_NOTFOUND)"

section \<open>Comparison\<close>

fun trie_equal_node :: "'a tentry \<Rightarrow> 'a tentry \<Rightarrow> bool" where
  "trie_equal_node TNil TNil = True"
| "trie_equal_node (TNode l r s a m n nd) (TNode l' r' s' a' m' n' nd') =
     (if a \<noteq> a' \<or> n \<noteq> n' \<or> nd \<noteq> nd' \<or> m \<noteq> m' then False
      else if \<not> set_equal s s' then False
      else trie_equal_node l l' \<and> trie_equal_node r r')"
| "trie_equal_node _ _ = False"

definition trie_equal :: "trie_head \<Rightarrow> trie_head \<Rightarrow> bool" where
  "trie_equal a b =
     (match_default_v4 a = match_default_v4 b \<and> match_default_v6 a = match_default_v6 b \<and>
      trie_equal_node (root_v4 a) (root_v4 b) \<and> trie_equal_node (root_v6 a) (root_v6 b))"

end
