(* ===== verification/Rde_Filter.thy ===== *)
theory Rde_Filter
  imports Rde_Nexthop Name2id Community Rde_Trie
begin

text \<open>
  The route filters of usr.sbin/bgpd/rde_filter.c: matching a rule against a route, the changes a
  matching rule makes to the attributes of the route, and the evaluation of a list of rules with the
  skip steps that jump over rules for other neighbors, on input, and with a list made for each
  neighbor on output (peer_apply_out_filter() of rde_peer.c). Equal filters and filter sets are
  shared by the code; here they are values.
\<close>

section \<open>Rules\<close>

text \<open>The neighbor of a route: struct rde_peer with its configuration.\<close>

record filter_peer =
  fp_id :: u32
  fp_groupid :: u32
  fp_remote_as :: u32
  fp_local_as :: u32
  fp_ebgp :: u8
  fp_remote_addr :: bgpd_addr

definition peer_as_of :: "filter_peer \<Rightarrow> peer_as" where
  "peer_as_of p = \<lparr>conf_remote_as = fp_remote_as p, conf_local_as = fp_local_as p\<rparr>"

record filter_prefix =
  fx_addr :: bgpd_addr
  fx_op :: comp_ops
  fx_len :: u8
  fx_len_min :: u8
  fx_len_max :: u8

definition FILTER_NEXTHOP_ADDR :: u8 where "FILTER_NEXTHOP_ADDR = 1"
definition FILTER_NEXTHOP_NEIGHBOR :: u8 where "FILTER_NEXTHOP_NEIGHBOR = 2"
definition PREFIXSET_FLAG_LONGER :: u32 where "PREFIXSET_FLAG_LONGER = 0x08"
definition MAX_COMM_MATCH :: nat where "MAX_COMM_MATCH = 3"
definition ROA_MASK :: u8 where "ROA_MASK = 0x3"
definition ASPA_MASK :: u8 where "ASPA_MASK = 0x3"
definition F_ATTR_MED :: u32 where "F_ATTR_MED = 0x00010"
definition F_ATTR_MED_ANNOUNCE :: u32 where "F_ATTR_MED_ANNOUNCE = 0x00020"

text \<open>A validation state to match is None when it is not set.\<close>

record filter_match =
  fm_prefix :: filter_prefix
  fm_nexthop_addr :: bgpd_addr
  fm_nexthop_flags :: u8
  fm_as :: filter_as
  fm_aslen :: u32
  fm_aslen_type :: aslen_spec
  fm_community :: "community list"
  fm_prefixset_flags :: u32
  fm_prefixset :: "trie_head option"
  fm_originset :: "trie_head option"
  fm_ovs :: "u8 option"
  fm_avs :: "u8 option"
  fm_maxcomm :: int
  fm_maxextcomm :: int
  fm_maxlargecomm :: int

datatype filter_action = ACTION_NONE | ACTION_ALLOW | ACTION_DENY

datatype rde_filter_set_elm =
    ACTION_SET_LOCALPREF u32
  | ACTION_SET_RELATIVE_LOCALPREF u32
  | ACTION_SET_MED u32
  | ACTION_SET_RELATIVE_MED u32
  | ACTION_SET_WEIGHT u32
  | ACTION_SET_RELATIVE_WEIGHT u32
  | ACTION_SET_PREPEND_SELF u8
  | ACTION_SET_PREPEND_PEER u8
  | ACTION_SET_AS_OVERRIDE
  | ACTION_SET_NEXTHOP nat
  | ACTION_SET_NEXTHOP_REJECT
  | ACTION_SET_NEXTHOP_BLACKHOLE
  | ACTION_SET_NEXTHOP_NOMODIFY
  | ACTION_SET_NEXTHOP_SELF
  | ACTION_DEL_COMMUNITY community
  | ACTION_SET_COMMUNITY community
  | ACTION_PFTABLE u16
  | ACTION_RTLABEL u16
  | ACTION_SET_ORIGIN u8

text \<open>
  The pointers skip[] to later rules are positions in the list; the length of the list is NULL. No
  filter set is the NULL pointer.
\<close>

record filter_rule =
  fr_peerid :: u32
  fr_groupid :: u32
  fr_remote_as :: u32
  fr_ebgp :: u8
  fr_ibgp :: u8
  fr_match :: filter_match
  fr_set :: "rde_filter_set_elm list option"
  fr_skip :: "nat \<Rightarrow> nat"
  fr_action :: filter_action
  fr_quick :: bool

text \<open>The state of a route under evaluation, with the tables its attributes refer to.\<close>

record filterstate =
  fs_aspath :: rde_aspath
  fs_communities :: rde_community
  fs_nexthop :: "nat option"
  fs_nhflags :: u8
  fs_vstate :: u8
  fs_paths :: aspath_mem
  fs_nexthops :: nexthop_mem
  fs_pftables :: n2id_labels
  fs_rtlabels :: n2id_labels

record filter_env =
  fe_ca :: can_alloc
  fe_local_as :: u32

section \<open>Changing a route\<close>

text \<open>A signed 32-bit change to an unsigned metric, which stops at the ends of its range.\<close>

definition relative_metric :: "u32 \<Rightarrow> u32 \<Rightarrow> u32" where
  "relative_metric x rel =
     (if sint rel > 0 then (if x > -1 - rel then -1 else x + rel)
      else (if x < 0 - rel then 0 else x + rel))"

definition set_path :: "(rde_aspath \<Rightarrow> rde_aspath) \<Rightarrow> filterstate \<Rightarrow> filterstate" where
  "set_path f s = s\<lparr>fs_aspath := f (fs_aspath s)\<rparr>"

text \<open>The AS path is replaced by one with the given bytes.\<close>

definition new_aspath :: "filter_env \<Rightarrow> bytes res \<Rightarrow> filterstate \<Rightarrow> filterstate res" where
  "new_aspath e np s =
     res_bind np (\<lambda>data.
     res_bind (aspath_get (fe_ca e) (fe_local_as e) (aspath_put (fs_paths s) (Some (asp_aspath (fs_aspath s)))) data) (\<lambda>(m, a).
       Inr (set_path (\<lambda>p. p\<lparr>asp_aspath := a\<rparr>) (s\<lparr>fs_paths := m\<rparr>))))"

definition modify_nexthop :: "nexthop_action \<Rightarrow> u8 \<Rightarrow> filterstate \<Rightarrow> filterstate res" where
  "modify_nexthop act fam s =
     res_bind (nexthop_modify (fs_nexthops s) act fam (fs_nexthop s) (fs_nhflags s)) (\<lambda>(m, nh, fl).
       Inr (s\<lparr>fs_nexthops := m, fs_nexthop := nh, fs_nhflags := fl\<rparr>))"

definition apply_elm ::
  "filter_env \<Rightarrow> filter_peer \<Rightarrow> filter_peer option \<Rightarrow> u8 \<Rightarrow> rde_filter_set_elm \<Rightarrow> filterstate \<Rightarrow> filterstate res" where
  "apply_elm e peer from fam elm s = (case elm of
     ACTION_SET_LOCALPREF v \<Rightarrow> Inr (set_path (\<lambda>p. p\<lparr>lpref := v\<rparr>) s)
   | ACTION_SET_RELATIVE_LOCALPREF r \<Rightarrow> Inr (set_path (\<lambda>p. p\<lparr>lpref := relative_metric (lpref p) r\<rparr>) s)
   | ACTION_SET_MED v \<Rightarrow> Inr (set_path (\<lambda>p. p\<lparr>asp_flags := asp_flags p OR (F_ATTR_MED OR F_ATTR_MED_ANNOUNCE), med := v\<rparr>) s)
   | ACTION_SET_RELATIVE_MED r \<Rightarrow>
       Inr (set_path (\<lambda>p. p\<lparr>asp_flags := asp_flags p OR (F_ATTR_MED OR F_ATTR_MED_ANNOUNCE), med := relative_metric (med p) r\<rparr>) s)
   | ACTION_SET_WEIGHT v \<Rightarrow> Inr (set_path (\<lambda>p. p\<lparr>weight := v\<rparr>) s)
   | ACTION_SET_RELATIVE_WEIGHT r \<Rightarrow> Inr (set_path (\<lambda>p. p\<lparr>weight := relative_metric (weight p) r\<rparr>) s)
   | ACTION_SET_PREPEND_SELF n \<Rightarrow> new_aspath e (aspath_prepend (fe_ca e) (asp_aspath (fs_aspath s)) (fp_local_as peer) (uint n)) s
   | ACTION_SET_PREPEND_PEER n \<Rightarrow> (case from of None \<Rightarrow> Inr s
       | Some f \<Rightarrow> new_aspath e (aspath_prepend (fe_ca e) (asp_aspath (fs_aspath s)) (fp_remote_as f) (uint n)) s)
   | ACTION_SET_AS_OVERRIDE \<Rightarrow> (case from of None \<Rightarrow> Inr s
       | Some f \<Rightarrow> new_aspath e (aspath_override (fe_ca e) (asp_aspath (fs_aspath s)) (fp_remote_as f) (fp_local_as f)) s)
   | ACTION_SET_NEXTHOP nh \<Rightarrow> modify_nexthop (NH_SET nh) fam s
   | ACTION_SET_NEXTHOP_REJECT \<Rightarrow> modify_nexthop NH_REJECT fam s
   | ACTION_SET_NEXTHOP_BLACKHOLE \<Rightarrow> modify_nexthop NH_BLACKHOLE fam s
   | ACTION_SET_NEXTHOP_NOMODIFY \<Rightarrow> modify_nexthop NH_NOMODIFY fam s
   | ACTION_SET_NEXTHOP_SELF \<Rightarrow> modify_nexthop NH_SELF fam s
   | ACTION_SET_COMMUNITY c \<Rightarrow>
       res_bind (community_set (fe_ca e) (fs_communities s) c (Some (peer_as_of peer))) (\<lambda>(cs, _). Inr (s\<lparr>fs_communities := cs\<rparr>))
   | ACTION_DEL_COMMUNITY c \<Rightarrow>
       res_bind (community_delete (fs_communities s) c (Some (peer_as_of peer))) (\<lambda>cs. Inr (s\<lparr>fs_communities := cs\<rparr>))
   | ACTION_PFTABLE i \<Rightarrow>
       (case ref (unref (fs_pftables s) (pftableid (fs_aspath s))) i of (h, r) \<Rightarrow>
          Inr (set_path (\<lambda>p. p\<lparr>pftableid := r\<rparr>) (s\<lparr>fs_pftables := h\<rparr>)))
   | ACTION_RTLABEL i \<Rightarrow>
       (case ref (unref (fs_rtlabels s) (rtlabelid (fs_aspath s))) i of (h, r) \<Rightarrow>
          Inr (set_path (\<lambda>p. p\<lparr>rtlabelid := r\<rparr>) (s\<lparr>fs_rtlabels := h\<rparr>)))
   | ACTION_SET_ORIGIN v \<Rightarrow> Inr (set_path (\<lambda>p. p\<lparr>origin := v\<rparr>) s))"

fun apply_elms ::
  "filter_env \<Rightarrow> filter_peer \<Rightarrow> filter_peer option \<Rightarrow> u8 \<Rightarrow> rde_filter_set_elm list \<Rightarrow> filterstate \<Rightarrow> filterstate res" where
  "apply_elms e peer from fam [] s = Inr s"
| "apply_elms e peer from fam (x # xs) s = res_bind (apply_elm e peer from fam x s) (apply_elms e peer from fam xs)"

definition rde_apply_set ::
  "filter_env \<Rightarrow> rde_filter_set_elm list option \<Rightarrow> filter_peer \<Rightarrow> filter_peer option \<Rightarrow> filterstate \<Rightarrow> u8 \<Rightarrow> filterstate res" where
  "rde_apply_set e rfs peer from s fam = (case rfs of None \<Rightarrow> Inr s | Some elms \<Rightarrow> apply_elms e peer from fam elms s)"

section \<open>Matching a route\<close>

definition rde_prefix_match :: "filter_prefix \<Rightarrow> bgpd_addr \<Rightarrow> u8 \<Rightarrow> bool" where
  "rde_prefix_match fp prefix plen =
     (if aid (fx_addr fp) \<noteq> aid prefix then False
      else if prefix_compare prefix (fx_addr fp) (unat (fx_len fp)) \<noteq> 0 then False
      else case fx_op fp of
        OP_NONE \<Rightarrow> plen = fx_len fp
      | OP_EQ \<Rightarrow> plen = fx_len_min fp
      | OP_NE \<Rightarrow> plen \<noteq> fx_len_min fp
      | OP_RANGE \<Rightarrow> plen \<ge> fx_len_min fp \<and> plen \<le> fx_len_max fp
      | OP_XRANGE \<Rightarrow> plen < fx_len_min fp \<or> plen > fx_len_max fp
      | _ \<Rightarrow> False)"

text \<open>The loop over the communities of a rule.\<close>

fun match_communities :: "rde_community \<Rightarrow> peer_as option \<Rightarrow> community list \<Rightarrow> bool res" where
  "match_communities cs peer [] = Inr True"
| "match_communities cs peer (c # r) =
     (if cm_flags c = 0 then Inr True
      else res_bind (community_match cs c peer) (\<lambda>b. if b then match_communities cs peer r else Inr False))"

definition match_nexthop :: "filter_match \<Rightarrow> filter_peer option \<Rightarrow> filterstate \<Rightarrow> bool res" where
  "match_nexthop m from s =
     (if fm_nexthop_flags m = 0 then Inr True
      else case fs_nexthop s of None \<Rightarrow> Inr False
      | Some p \<Rightarrow> res_bind (at (fs_nexthops s) p) (\<lambda>nh.
          res_bind (if fm_nexthop_flags m = FILTER_NEXTHOP_ADDR then Inr (fm_nexthop_addr m)
                    else case from of None \<Rightarrow> Inl OutOfBounds | Some f \<Rightarrow> Inr (fp_remote_addr f)) (\<lambda>cmpaddr.
            if aid cmpaddr \<noteq> aid (exit_nexthop nh) then Inr False
            else if aid cmpaddr = AID_INET then Inr (v4 cmpaddr = v4 (exit_nexthop nh))
            else if aid cmpaddr = AID_INET6 then Inr (v6 cmpaddr = v6 (exit_nexthop nh))
            else Inl Fatal)))"

text \<open>One condition after the other; the first that does not hold ends the match.\<close>

primrec all_hold :: "bool res list \<Rightarrow> bool res" where
  "all_hold [] = Inr True"
| "all_hold (c # cs) = res_bind c (\<lambda>b. if b then all_hold cs else Inr False)"

definition rde_filter_match ::
  "filter_env \<Rightarrow> filter_match \<Rightarrow> filter_peer \<Rightarrow> filter_peer option \<Rightarrow> filterstate \<Rightarrow> bgpd_addr \<Rightarrow> u8 \<Rightarrow> bool res" where
  "rde_filter_match e m peer from s prefix plen =
     (let path = asp_aspath (fs_aspath s); cs = fs_communities s in
      all_hold
        [Inr (case fm_ovs m of None \<Rightarrow> True | Some v \<Rightarrow> fs_vstate s AND ROA_MASK = v),
         Inr (case fm_avs m of None \<Rightarrow> True | Some v \<Rightarrow> drop_bit 4 (fs_vstate s) AND ASPA_MASK = v),
         if fa_type (fm_as m) \<noteq> AS_UNDEF then aspath_match (fe_local_as e) path (fm_as m) (fp_remote_as peer) else Inr True,
         if fm_aslen_type m \<noteq> ASLEN_NONE then aspath_lenmatch path (fm_aslen_type m) (fm_aslen m) else Inr True,
         match_communities cs (Some (peer_as_of peer)) (take MAX_COMM_MATCH (fm_community m)),
         Inr (fm_maxcomm m = 0 \<or> \<not> fm_maxcomm m > int (community_count cs COMMUNITY_TYPE_BASIC)),
         Inr (fm_maxextcomm m = 0 \<or> \<not> fm_maxextcomm m > int (community_count cs COMMUNITY_TYPE_EXT)),
         Inr (fm_maxlargecomm m = 0 \<or> \<not> fm_maxlargecomm m > int (community_count cs COMMUNITY_TYPE_LARGE)),
         match_nexthop m from s,
         Inr (case fm_originset m of None \<Rightarrow> True
              | Some th \<Rightarrow> trie_roa_check th prefix (unat plen) (aspath_origin path) = ROA_VALID),
         Inr (if fm_prefixset_flags m \<noteq> 0 then
                (case fm_prefixset m of None \<Rightarrow> False
                 | Some th \<Rightarrow> trie_match th prefix (unat plen) (fm_prefixset_flags m AND PREFIXSET_FLAG_LONGER \<noteq> 0))
              else if aid (fx_addr (fm_prefix m)) \<noteq> 0 then rde_prefix_match (fm_prefix m) prefix plen
              else True)])"

section \<open>Evaluating the rules of a rib\<close>

text \<open>
  A rule that is for the neighbor: when it matches, its changes are made and its action is taken.
  The last component tells whether the evaluation ends here.
\<close>

definition eval_rule ::
  "filter_env \<Rightarrow> filter_peer \<Rightarrow> filter_peer option \<Rightarrow> bgpd_addr \<Rightarrow> u8 \<Rightarrow> filter_match \<Rightarrow> rde_filter_set_elm list option \<Rightarrow>
   filter_action \<Rightarrow> bool \<Rightarrow> filter_action \<times> filterstate \<Rightarrow> (filter_action \<times> filterstate \<times> bool) res" where
  "eval_rule e peer from prefix plen m rset act quick = (\<lambda>(action, s).
     res_bind (rde_filter_match e m peer from s prefix plen) (\<lambda>matched.
       if matched then
         res_bind (rde_apply_set e rset peer from s (aid prefix)) (\<lambda>s'.
           Inr (if act \<noteq> ACTION_NONE then act else action, s', quick))
       else Inr (action, s, False)))"

definition RDE_FILTER_SKIP_PEERID :: nat where "RDE_FILTER_SKIP_PEERID = 0"
definition RDE_FILTER_SKIP_GROUPID :: nat where "RDE_FILTER_SKIP_GROUPID = 1"
definition RDE_FILTER_SKIP_REMOTE_AS :: nat where "RDE_FILTER_SKIP_REMOTE_AS = 2"
definition RDE_FILTER_SKIP_COUNT :: nat where "RDE_FILTER_SKIP_COUNT = 3"

text \<open>
  The loop of rde_filter(), from the rule at a position; the first argument bounds the number of
  rules it may look at, and None is a loop that goes on beyond that bound.
\<close>

fun filter_loop ::
  "nat \<Rightarrow> filter_env \<Rightarrow> filter_rule list \<Rightarrow> filter_peer \<Rightarrow> filter_peer option \<Rightarrow> bgpd_addr \<Rightarrow> u8 \<Rightarrow> nat \<Rightarrow>
   filter_action \<times> filterstate \<Rightarrow> (filter_action \<times> filterstate) res option" where
  "filter_loop 0 e rules peer from prefix plen i as = None"
| "filter_loop (Suc n) e rules peer from prefix plen i as =
     (if i \<ge> length rules then Some (Inr as)
      else
        let f = rules ! i in
        if fr_peerid f \<noteq> 0 \<and> fr_peerid f \<noteq> fp_id peer then
          filter_loop n e rules peer from prefix plen (fr_skip f RDE_FILTER_SKIP_PEERID) as
        else if fr_groupid f \<noteq> 0 \<and> fr_groupid f \<noteq> fp_groupid peer then
          filter_loop n e rules peer from prefix plen (fr_skip f RDE_FILTER_SKIP_GROUPID) as
        else if fr_remote_as f \<noteq> 0 \<and> fr_remote_as f \<noteq> fp_remote_as peer then
          filter_loop n e rules peer from prefix plen (fr_skip f RDE_FILTER_SKIP_REMOTE_AS) as
        else if fr_ebgp f \<noteq> 0 \<and> fp_ebgp peer = 0 then filter_loop n e rules peer from prefix plen (i + 1) as
        else if fr_ibgp f \<noteq> 0 \<and> fp_ebgp peer \<noteq> 0 then filter_loop n e rules peer from prefix plen (i + 1) as
        else case eval_rule e peer from prefix plen (fr_match f) (fr_set f) (fr_action f) (fr_quick f) as of
          Inl x \<Rightarrow> Some (Inl x)
        | Inr (action, s, stop) \<Rightarrow>
            if stop then Some (Inr (action, s)) else filter_loop n e rules peer from prefix plen (i + 1) (action, s))"

definition rde_filter ::
  "filter_env \<Rightarrow> filter_rule list option \<Rightarrow> filter_peer \<Rightarrow> filter_peer option \<Rightarrow> bgpd_addr \<Rightarrow> u8 \<Rightarrow> filterstate \<Rightarrow>
   (filter_action \<times> filterstate) res option" where
  "rde_filter e head peer from prefix plen s =
     (if asp_flags (fs_aspath s) AND F_ATTR_PARSE_ERR \<noteq> 0 then Some (Inr (ACTION_DENY, s))
      else case head of
        None \<Rightarrow> Some (Inr (ACTION_DENY, s))
      | Some rules \<Rightarrow>
          if aid prefix = AID_FLOWSPECv4 \<or> aid prefix = AID_FLOWSPECv6 then Some (Inr (ACTION_ALLOW, s))
          else filter_loop (length rules + 1) e rules peer from prefix plen 0 (ACTION_DENY, s))"

section \<open>Skip steps\<close>

definition skip_key :: "nat \<Rightarrow> filter_rule \<Rightarrow> u32" where
  "skip_key i f =
     (if i = RDE_FILTER_SKIP_PEERID then fr_peerid f
      else if i = RDE_FILTER_SKIP_GROUPID then fr_groupid f
      else fr_remote_as f)"

text \<open>RDE_FILTER_SET_SKIP_STEPS: the rules from the head up to the current one skip to the current one.\<close>

definition write_skip :: "nat \<Rightarrow> nat \<Rightarrow> nat \<Rightarrow> filter_rule list \<Rightarrow> filter_rule list" where
  "write_skip i cur j rs = rs[j := (rs ! j)\<lparr>fr_skip := (fr_skip (rs ! j))(i := cur)\<rparr>]"

definition set_skip_steps :: "nat \<Rightarrow> nat \<Rightarrow> nat \<Rightarrow> filter_rule list \<Rightarrow> filter_rule list" where
  "set_skip_steps i cur head rules = fold (write_skip i cur) [head..<cur] rules"

definition skip_one :: "nat \<Rightarrow> nat \<Rightarrow> nat \<Rightarrow> (nat \<Rightarrow> nat) \<times> filter_rule list \<Rightarrow> (nat \<Rightarrow> nat) \<times> filter_rule list" where
  "skip_one cur prev i = (\<lambda>(head, rules).
     if skip_key i (rules ! cur) \<noteq> skip_key i (rules ! prev)
     then (head(i := cur), set_skip_steps i cur (head i) rules) else (head, rules))"

text \<open>The first rule is its own predecessor.\<close>

definition skip_step :: "nat \<Rightarrow> (nat \<Rightarrow> nat) \<times> filter_rule list \<Rightarrow> (nat \<Rightarrow> nat) \<times> filter_rule list" where
  "skip_step cur = fold (skip_one cur (cur - 1)) [0..<RDE_FILTER_SKIP_COUNT]"

definition rde_filter_calc_skip_steps :: "filter_rule list \<Rightarrow> filter_rule list" where
  "rde_filter_calc_skip_steps rules =
     (case fold skip_step [0..<length rules] (\<lambda>_. 0, rules) of (head, rs) \<Rightarrow>
        fold (\<lambda>i rs. set_skip_steps i (length rules) (head i) rs) [0..<RDE_FILTER_SKIP_COUNT] rs)"

section \<open>The rules of one neighbor\<close>

record rde_filter_rule =
  rf_match :: filter_match
  rf_set :: "rde_filter_set_elm list"
  rf_action :: filter_action
  rf_quick :: bool

definition rde_filter_skip_rule :: "filter_peer option \<Rightarrow> filter_rule option \<Rightarrow> bool" where
  "rde_filter_skip_rule p r = (case (p, r) of
     (Some peer, Some f) \<Rightarrow>
       fr_peerid f \<noteq> 0 \<and> fr_peerid f \<noteq> fp_id peer \<or>
       fr_groupid f \<noteq> 0 \<and> fr_groupid f \<noteq> fp_groupid peer \<or>
       fr_remote_as f \<noteq> 0 \<and> fr_remote_as f \<noteq> fp_remote_as peer \<or>
       fr_ebgp f \<noteq> 0 \<and> fr_ebgp f \<noteq> fp_ebgp peer \<or>
       fr_ibgp f \<noteq> 0 \<and> fr_ibgp f \<noteq> (if fp_ebgp peer = 0 then 1 else 0)
   | _ \<Rightarrow> False)"

text \<open>The filter set of a rule is referenced when the rule is copied, which a rule without one does not survive.\<close>

definition rde_filter_fill :: "filter_rule \<Rightarrow> rde_filter_rule res" where
  "rde_filter_fill fr = (case fr_set fr of
     None \<Rightarrow> Inl OutOfBounds
   | Some rset \<Rightarrow> Inr \<lparr>rf_match = fr_match fr, rf_set = rset, rf_action = fr_action fr, rf_quick = fr_quick fr\<rparr>)"

fun peer_apply_out_filter :: "filter_peer \<Rightarrow> filter_rule list \<Rightarrow> rde_filter_rule list res" where
  "peer_apply_out_filter peer [] = Inr []"
| "peer_apply_out_filter peer (fr # rules) =
     (if rde_filter_skip_rule (Some peer) (Some fr) then peer_apply_out_filter peer rules
      else res_bind (rde_filter_fill fr) (\<lambda>r. res_bind (peer_apply_out_filter peer rules) (\<lambda>rs. Inr (r # rs))))"

fun out_loop ::
  "filter_env \<Rightarrow> rde_filter_rule list \<Rightarrow> filter_peer \<Rightarrow> filter_peer option \<Rightarrow> bgpd_addr \<Rightarrow> u8 \<Rightarrow>
   filter_action \<times> filterstate \<Rightarrow> (filter_action \<times> filterstate) res" where
  "out_loop e [] peer from prefix plen as = Inr as"
| "out_loop e (f # fs) peer from prefix plen as =
     res_bind (eval_rule e peer from prefix plen (rf_match f) (Some (rf_set f)) (rf_action f) (rf_quick f) as) (\<lambda>(action, s, stop).
       if stop then Inr (action, s) else out_loop e fs peer from prefix plen (action, s))"

definition rde_filter_out ::
  "filter_env \<Rightarrow> rde_filter_rule list \<Rightarrow> filter_peer \<Rightarrow> filter_peer option \<Rightarrow> bgpd_addr \<Rightarrow> u8 \<Rightarrow> filterstate \<Rightarrow>
   (filter_action \<times> filterstate) res" where
  "rde_filter_out e rf peer from prefix plen s =
     (if asp_flags (fs_aspath s) AND F_ATTR_PARSE_ERR \<noteq> 0 then Inr (ACTION_DENY, s)
      else if aid prefix = AID_FLOWSPECv4 \<or> aid prefix = AID_FLOWSPECv6 then Inr (ACTION_ALLOW, s)
      else out_loop e rf peer from prefix plen (ACTION_DENY, s))"

section \<open>The state of a route\<close>

text \<open>The validation states are packed into one byte.\<close>

definition rde_filterstate_set_vstate :: "filterstate \<Rightarrow> u8 \<Rightarrow> u8 \<Rightarrow> filterstate" where
  "rde_filterstate_set_vstate s roa_vstate aspa_vstate =
     s\<lparr>fs_vstate := push_bit 4 aspa_vstate OR (roa_vstate AND ROA_MASK)\<rparr>"

text \<open>The import of VPN routes looks for one of a list of communities.\<close>

fun rde_l3vpn_import :: "rde_community \<Rightarrow> community list \<Rightarrow> bool res" where
  "rde_l3vpn_import comm [] = Inr False"
| "rde_l3vpn_import comm (c # cs) = res_bind (community_match comm c None) (\<lambda>b. if b then Inr True else rde_l3vpn_import comm cs)"

end
