(* ===== verification/Rde_Aspa.thy ===== *)
theory Rde_Aspa
  imports Aspath_Correct Timer
begin

text \<open>
  ASPA validation (usr.sbin/bgpd/rde_aspa.c): a hash table of customer AS numbers with their
  providers, filled in descending order and read very often, and the walk over an AS path that
  classifies it for routes received from a customer or peer (only up) and from a provider (down
  and up). Pointers into the arrays are indices, so moved elements and adjusted table entries are
  part of the model. The correctness proofs are in Aspa_Correct.
\<close>

section \<open>Data\<close>

datatype cp_state = UNKNOWN | NOT_PROVIDER | PROVIDER

datatype aspa_validity = ASPA_UNKNOWN | ASPA_INVALID | ASPA_VALID

record rde_aspa_set =
  set_as :: u32
  set_num :: nat
  set_pas :: nat
  set_next :: bool

record rde_aspa =
  aspa_table :: "nat \<Rightarrow> nat option"
  aspa_mask :: u32
  maxset :: nat
  sets :: "rde_aspa_set list"
  aspa_data :: "u32 list"
  maxdata :: nat
  curdata :: nat
  curset :: nat
  aspa_lastchange :: monotime

record aspa_state =
  nhops :: int
  nup_p :: int
  nup_u :: int
  nup_np :: int
  ndown_p :: int
  ndown_u :: int
  ndown_np :: int

record rde_aspa_state =
  onlyup :: aspa_validity
  downup :: aspa_validity

record aspa_mem =
  aspa_cnt :: int
  aspa_size :: int

definition hash :: "u32 \<Rightarrow> u32" where
  "hash h0 =
     (let h1 = h0 XOR drop_bit 16 h0;
          h2 = h1 * 0x85ebca6b;
          h3 = h2 XOR drop_bit 13 h2;
          h4 = h3 * 0xc2b2ae35
      in h4 XOR drop_bit 16 h4)"

section \<open>Lookup\<close>

text \<open>The loop of aspa_lookup() over neighbours in the array; reading behind it is OutOfBounds.\<close>

function lookup_walk :: "rde_aspa_set list \<Rightarrow> nat \<Rightarrow> u32 \<Rightarrow> nat res" where
  "lookup_walk xs i asnum =
     (if i \<ge> length xs then Inl OutOfBounds
      else if set_as (xs ! i) < asnum \<and> set_next (xs ! i) then lookup_walk xs (i + 1) asnum
      else Inr i)"
  by pat_completeness auto
termination by (relation "measure (\<lambda>(xs, i, asnum). length xs - i)") auto

declare lookup_walk.simps [simp del]

definition aspa_lookup :: "rde_aspa \<Rightarrow> u32 \<Rightarrow> nat option res" where
  "aspa_lookup ra asnum =
     (case aspa_table ra (unat (hash asnum AND aspa_mask ra)) of
        None \<Rightarrow> Inr None
      | Some i \<Rightarrow> res_bind (lookup_walk (sets ra) i asnum) (\<lambda>j.
          Inr (if set_as (sets ra ! j) = asnum then Some j else None)))"

definition pas_nth :: "rde_aspa \<Rightarrow> rde_aspa_set \<Rightarrow> nat \<Rightarrow> u32 res" where
  "pas_nth ra aspa i =
     (if set_pas aspa + i < length (aspa_data ra) then Inr (aspa_data ra ! (set_pas aspa + i)) else Inl OutOfBounds)"

text \<open>The two searches for a provider: linear for small sets, by halving for large ones.\<close>

function cp_linear :: "rde_aspa \<Rightarrow> rde_aspa_set \<Rightarrow> u32 \<Rightarrow> nat \<Rightarrow> cp_state res" where
  "cp_linear ra aspa pas i =
     (if i < set_num aspa then
        res_bind (pas_nth ra aspa i) (\<lambda>p.
          if p = pas then Inr PROVIDER
          else if p > pas then Inr NOT_PROVIDER
          else cp_linear ra aspa pas (i + 1))
      else Inr NOT_PROVIDER)"
  by pat_completeness auto
termination by (relation "measure (\<lambda>(ra, aspa, pas, i). set_num aspa - i)") auto

function cp_halving :: "rde_aspa \<Rightarrow> rde_aspa_set \<Rightarrow> u32 \<Rightarrow> nat \<Rightarrow> nat \<Rightarrow> cp_state res" where
  "cp_halving ra aspa pas i lim =
     (if lim \<noteq> 0 then
        let x = lim div 2 in
        res_bind (pas_nth ra aspa (i + x)) (\<lambda>p.
          if p = pas then Inr PROVIDER
          else if p < pas then cp_halving ra aspa pas (i + x + 1) ((lim - 1) div 2)
          else cp_halving ra aspa pas i (lim div 2))
      else Inr NOT_PROVIDER)"
  by pat_completeness auto
termination by (relation "measure (\<lambda>(ra, aspa, pas, i, lim). lim)") auto

declare cp_linear.simps [simp del] cp_halving.simps [simp del]

definition aspa_cp_lookup :: "rde_aspa \<Rightarrow> u32 \<Rightarrow> u32 \<Rightarrow> cp_state res" where
  "aspa_cp_lookup ra cas pas =
     res_bind (aspa_lookup ra cas) (\<lambda>r. case r of
        None \<Rightarrow> Inr UNKNOWN
      | Some j \<Rightarrow>
          let aspa = sets ra ! j in
          if set_num aspa < 16 then cp_linear ra aspa pas 0
          else cp_halving ra aspa pas 0 (set_num aspa))"

section \<open>Walking the path\<close>

text \<open>One AS number of the path; the second component is prevas.\<close>

definition aspa_hop :: "rde_aspa \<Rightarrow> u32 \<Rightarrow> aspa_state \<times> u32 \<Rightarrow> (aspa_state \<times> u32) res" where
  "aspa_hop ra as sp =
     (let (s, prevas) = sp in
      if as = prevas then Inr (s, prevas)
      else
        let s1 = s\<lparr>nhops := nhops s + 1\<rparr> in
        if prevas = 0 then Inr (s1, as)
        else
          res_bind (aspa_cp_lookup ra prevas as) (\<lambda>d.
            let s2 = (case d of
                UNKNOWN \<Rightarrow> if ndown_u s1 = 0 then s1\<lparr>ndown_u := nhops s1\<rparr> else s1
              | PROVIDER \<Rightarrow> if ndown_p s1 + 1 = nhops s1 then s1\<lparr>ndown_p := nhops s1\<rparr> else s1
              | NOT_PROVIDER \<Rightarrow> if ndown_np s1 = 0 then s1\<lparr>ndown_np := nhops s1\<rparr> else s1)
            in res_bind (aspa_cp_lookup ra as prevas) (\<lambda>u.
              let s3 = (case u of
                  UNKNOWN \<Rightarrow> s2\<lparr>nup_p := 0, nup_u := nhops s2 - 1\<rparr>
                | PROVIDER \<Rightarrow> if nup_p s2 = 0 then s2\<lparr>nup_p := nhops s2 - 1\<rparr> else s2
                | NOT_PROVIDER \<Rightarrow> s2\<lparr>nup_p := 0, nup_np := nhops s2 - 1\<rparr>)
              in Inr (s3, as))))"

primrec aspa_seg :: "rde_aspa \<Rightarrow> bytes \<Rightarrow> nat \<Rightarrow> nat \<Rightarrow> aspa_state \<times> u32 \<Rightarrow> (aspa_state \<times> u32) res" where
  "aspa_seg ra seg i 0 sp = Inr sp"
| "aspa_seg ra seg i (Suc k) sp =
     res_bind (aspath_extract seg (int i)) (\<lambda>as.
     res_bind (aspa_hop ra as sp) (\<lambda>sp'. aspa_seg ra seg (i + 1) k sp'))"

text \<open>The outer loop; Inr None is the return value -1 for a segment that is not a sequence.\<close>

function aspa_walk :: "rde_aspa \<Rightarrow> bytes \<Rightarrow> aspa_state \<times> u32 \<Rightarrow> (aspa_state \<times> u32) option res" where
  "aspa_walk ra seg sp =
     (if seg = [] then Inr (Some sp)
      else res_bind (rd seg 0) (\<lambda>seg_type. res_bind (rd seg 1) (\<lambda>seg_len.
        if seg_type \<noteq> AS_SEQUENCE then Inr None
        else res_bind (aspa_seg ra seg 0 (unat seg_len) sp) (\<lambda>sp'.
          if seg_size seg_len > length seg then Inl OutOfBounds
          else aspa_walk ra (drop (seg_size seg_len) seg) sp'))))"
  by pat_completeness auto
termination by (relation "measure (\<lambda>(ra, seg, sp). length seg)") auto

declare aspa_walk.simps [simp del]

definition aspa_check_aspath :: "rde_aspa \<Rightarrow> aspath \<Rightarrow> aspa_state \<Rightarrow> aspa_state option res" where
  "aspa_check_aspath ra a s =
     res_bind (aspa_walk ra (aspath_dump a) (s\<lparr>ndown_p := 1\<rparr>, 0)) (\<lambda>r.
       Inr (map_option (\<lambda>(s, prevas). if nup_p s = 0 then s\<lparr>nup_p := nhops s\<rparr> else s) r))"

definition aspa_check_finalize :: "aspa_state \<Rightarrow> rde_aspa_state" where
  "aspa_check_finalize state =
     \<lparr>onlyup = (if nup_np state \<noteq> 0 then ASPA_INVALID
                else if nup_u state \<noteq> 0 then ASPA_UNKNOWN
                else ASPA_VALID),
      downup = (if nhops state \<le> 2 then ASPA_VALID
                else if nup_p state - ndown_p state \<le> 1 then ASPA_VALID
                else if nup_np state \<noteq> 0 \<and> ndown_np state \<noteq> 0 \<and> nup_np state - ndown_np state \<ge> 0 then ASPA_INVALID
                else ASPA_UNKNOWN)\<rparr>"

definition aspa_state0 :: aspa_state where
  "aspa_state0 = \<lparr>nhops = 0, nup_p = 0, nup_u = 0, nup_np = 0, ndown_p = 0, ndown_u = 0, ndown_np = 0\<rparr>"

definition aspa_validation :: "rde_aspa option \<Rightarrow> aspath \<Rightarrow> rde_aspa_state res" where
  "aspa_validation ra a =
     (case ra of
        None \<Rightarrow> Inr \<lparr>onlyup = ASPA_UNKNOWN, downup = ASPA_UNKNOWN\<rparr>
      | Some t \<Rightarrow>
          if aspath_length a = 0 then Inr \<lparr>onlyup = ASPA_INVALID, downup = ASPA_INVALID\<rparr>
          else res_bind (aspa_check_aspath t a aspa_state0) (\<lambda>r.
            Inr (case r of
              None \<Rightarrow> \<lparr>onlyup = ASPA_INVALID, downup = ASPA_INVALID\<rparr>
            | Some state \<Rightarrow> aspa_check_finalize state)))"

section \<open>The table\<close>

text \<open>The loop that doubles the table size until it holds the entries.\<close>

function hsize_loop :: "nat \<Rightarrow> nat \<Rightarrow> nat" where
  "hsize_loop hsize entries = (if 0 < hsize \<and> hsize < entries then hsize_loop (hsize * 2) entries else hsize)"
  by pat_completeness auto
termination by (relation "measure (\<lambda>(h, e). e - h)") auto

declare hsize_loop.simps [simp del]

definition sizeof_aspa_set :: int where "sizeof_aspa_set = 24"

definition zero_set :: rde_aspa_set where
  "zero_set = \<lparr>set_as = 0, set_num = 0, set_pas = 0, set_next = False\<rparr>"

text \<open>The data array comes from malloc(); its first contents are the parameter junk.\<close>

definition aspa_table_prep ::
  "can_alloc \<Rightarrow> monotime \<Rightarrow> (nat \<Rightarrow> u32) \<Rightarrow> aspa_mem \<Rightarrow> nat \<Rightarrow> nat \<Rightarrow> (aspa_mem \<times> rde_aspa option) res" where
  "aspa_table_prep ca now junk m entries datasize =
     (if entries = 0 then Inr (m, None)
      else if entries > 0xffffffff div 2 then Inl Fatal
      else
        let hsize = hsize_loop 1024 entries in
        if \<not> ca 1 \<or> \<not> ca (8 * hsize) \<or> \<not> ca (24 * entries) \<or> \<not> ca datasize then Inl Fatal
        else
          let md = datasize div 4 in
          Inr (m\<lparr>aspa_cnt := aspa_cnt m + int entries,
                 aspa_size := aspa_size m + int entries * sizeof_aspa_set + int md * 4\<rparr>,
               Some \<lparr>aspa_table = (\<lambda>_. None), aspa_mask = of_nat hsize - 1, maxset = entries,
                     sets = replicate entries zero_set, aspa_data = map junk [0..<md], maxdata = md,
                     curdata = 0, curset = 0, aspa_lastchange = now\<rparr>))"

definition aspa_add_set :: "rde_aspa \<Rightarrow> u32 \<Rightarrow> u32 list \<Rightarrow> rde_aspa res" where
  "aspa_add_set ra cas pas =
     (if curset ra \<ge> maxset ra then Inl Fatal
      else
        let h = unat (hash cas AND aspa_mask ra);
            entry = (\<lambda>next. \<lparr>set_as = cas, set_num = length pas, set_pas = curdata ra, set_next = next\<rparr>);
            fill = (\<lambda>ra'. if maxdata ra - curdata ra < length pas then Inl Fatal
                          else Inr (ra'\<lparr>aspa_data := take (curdata ra) (aspa_data ra) @ pas @
                                          drop (curdata ra + length pas) (aspa_data ra),
                                        curdata := curdata ra + length pas\<rparr>))
        in case aspa_table ra h of
             None \<Rightarrow>
               fill (ra\<lparr>sets := (sets ra)[curset ra := entry (set_next (sets ra ! curset ra))],
                        curset := curset ra + 1,
                        aspa_table := (aspa_table ra)(h := Some (curset ra))\<rparr>)
           | Some i \<Rightarrow>
               if set_as (sets ra ! i) \<le> cas then Inl Fatal
               else fill (ra\<lparr>sets := take i (sets ra) @ entry True # drop i (take (curset ra) (sets ra)) @
                                       drop (curset ra + 1) (sets ra),
                             curset := curset ra + 1,
                             aspa_table := (\<lambda>j. case aspa_table ra j of None \<Rightarrow> None
                                | Some k \<Rightarrow> Some (if j \<le> unat (aspa_mask ra) \<and> k > i then k + 1 else k))(h := Some i)\<rparr>))"

definition aspa_table_free :: "aspa_mem \<Rightarrow> rde_aspa option \<Rightarrow> aspa_mem" where
  "aspa_table_free m ra = (case ra of None \<Rightarrow> m | Some t \<Rightarrow>
     m\<lparr>aspa_cnt := aspa_cnt m - int (maxset t),
       aspa_size := aspa_size m - (int (maxset t) * sizeof_aspa_set + int (maxdata t) * 4)\<rparr>)"

definition aspa_table_equal :: "rde_aspa option \<Rightarrow> rde_aspa option \<Rightarrow> bool" where
  "aspa_table_equal a b = (case (a, b) of
     (None, None) \<Rightarrow> True
   | (Some ra, Some rb) \<Rightarrow>
       if maxset ra \<noteq> maxset rb \<or> maxdata ra \<noteq> maxdata rb then False
       else list_all (\<lambda>i. set_as (sets ra ! i) = set_as (sets rb ! i) \<and> set_num (sets ra ! i) = set_num (sets rb ! i))
              [0..<maxset ra] \<and> aspa_data ra = aspa_data rb
   | _ \<Rightarrow> False)"

definition aspa_table_unchanged :: "rde_aspa option \<Rightarrow> rde_aspa option \<Rightarrow> rde_aspa option" where
  "aspa_table_unchanged ra old = (case (ra, old) of
     (Some t, Some u) \<Rightarrow> Some (t\<lparr>aspa_lastchange := aspa_lastchange u\<rparr>) | _ \<Rightarrow> ra)"

end
