(* ===== verification/Rde_Update.thy ===== *)
theory Rde_Update
  imports Session_Msg Nlri Rde_Filter Rde_Aspa
begin

text \<open>
  The reception of UPDATE messages in usr.sbin/bgpd/rde.c: the path attributes with the error handling of
  RFC 7606, the merge of the four-byte attributes of old neighbors, route reflection, the next hop of
  multiprotocol routes, and rde_update_dispatch(), which turns a message into withdrawn and announced
  routes. Every step takes the state and returns it with the NOTIFICATION that ends the session, if
  there is one; a fatal exit of the process is an error value. Of the RIBs the Adj-RIB-In of the
  neighbor is kept, for the prefix limit; the calls that hand routes on to the RIBs are recorded in order.
\<close>

section \<open>Data\<close>

definition F_ATTR_ORIGIN :: u32 where "F_ATTR_ORIGIN = 0x00001"
definition F_ATTR_ASPATH :: u32 where "F_ATTR_ASPATH = 0x00002"
definition F_ATTR_NEXTHOP :: u32 where "F_ATTR_NEXTHOP = 0x00004"
definition F_ATTR_LOCALPREF :: u32 where "F_ATTR_LOCALPREF = 0x00008"
definition F_ATTR_MP_REACH :: u32 where "F_ATTR_MP_REACH = 0x00040"
definition F_ATTR_MP_UNREACH :: u32 where "F_ATTR_MP_UNREACH = 0x00080"
definition F_ATTR_AS4BYTE_NEW :: u32 where "F_ATTR_AS4BYTE_NEW = 0x00100"
definition F_ATTR_OTC :: u32 where "F_ATTR_OTC = 0x01000"

definition ATTR_UNDEF :: u8 where "ATTR_UNDEF = 0"
definition ATTR_ORIGIN :: u8 where "ATTR_ORIGIN = 1"
definition ATTR_ASPATH :: u8 where "ATTR_ASPATH = 2"
definition ATTR_NEXTHOP :: u8 where "ATTR_NEXTHOP = 3"
definition ATTR_MED :: u8 where "ATTR_MED = 4"
definition ATTR_LOCALPREF :: u8 where "ATTR_LOCALPREF = 5"
definition ATTR_ATOMIC_AGGREGATE :: u8 where "ATTR_ATOMIC_AGGREGATE = 6"
definition ATTR_AGGREGATOR :: u8 where "ATTR_AGGREGATOR = 7"
definition ATTR_MP_REACH_NLRI :: u8 where "ATTR_MP_REACH_NLRI = 14"
definition ATTR_MP_UNREACH_NLRI :: u8 where "ATTR_MP_UNREACH_NLRI = 15"
definition ATTR_AS4_PATH :: u8 where "ATTR_AS4_PATH = 17"
definition ATTR_AS4_AGGREGATOR :: u8 where "ATTR_AS4_AGGREGATOR = 18"
definition ATTR_OTC :: u8 where "ATTR_OTC = 35"
definition ATTR_WELL_KNOWN :: u8 where "ATTR_WELL_KNOWN = ATTR_TRANSITIVE"

definition ERR_UPD_ATTRLIST :: u8 where "ERR_UPD_ATTRLIST = 1"
definition ERR_UPD_UNKNWN_WK_ATTR :: u8 where "ERR_UPD_UNKNWN_WK_ATTR = 2"
definition ERR_UPD_MISSNG_WK_ATTR :: u8 where "ERR_UPD_MISSNG_WK_ATTR = 3"
definition ERR_UPD_ATTRFLAGS :: u8 where "ERR_UPD_ATTRFLAGS = 4"
definition ERR_UPD_ATTRLEN :: u8 where "ERR_UPD_ATTRLEN = 5"
definition ERR_UPD_NEXTHOP :: u8 where "ERR_UPD_NEXTHOP = 8"
definition ERR_UPD_OPTATTR :: u8 where "ERR_UPD_OPTATTR = 9"
definition ERR_UPD_NETWORK :: u8 where "ERR_UPD_NETWORK = 10"
definition ERR_UPD_ASPATH :: u8 where "ERR_UPD_ASPATH = 11"

definition ORIGIN_INCOMPLETE :: u8 where "ORIGIN_INCOMPLETE = 2"
definition DEFAULT_LPREF :: u32 where "DEFAULT_LPREF = 100"
definition ASPA_NEVER_KNOWN :: u8 where "ASPA_NEVER_KNOWN = 8"

text \<open>struct rde_peer with its configuration, as far as an UPDATE is concerned.\<close>

record update_peer =
  up_conf :: filter_peer
  up_capa :: capabilities
  up_role :: role
  up_enforce_as :: bool
  up_enforce_local_as :: bool
  up_permit_as_set :: bool
  up_local_if_scope :: u32
  up_remote_bgpid :: u32
  up_max_prefix :: u32

record update_env =
  ue_ca :: can_alloc
  ue_hashf :: "bytes \<Rightarrow> u64"
  ue_local_as :: u32
  ue_bgpid :: u32
  ue_clusterid :: u32
  ue_reflector :: bool
  ue_aspa :: "rde_aspa option"
  ue_roa :: trie_head

text \<open>The calls of rde_update_withdraw(), rde_update_update() and rde_peer_recv_eor().\<close>

datatype update_op = Withdraw u32 nlri | Announce u32 nlri filterstate | Recv_eor u8

text \<open>
  The buffers of the MP attributes are the whole attribute, which goes into an error message, and
  what is left to read of it.
\<close>

record update_state =
  us_fs :: filterstate
  us_attrs :: attr_state
  us_aspa :: rde_aspa_state
  us_reach :: "bytes \<times> bytes"
  us_unreach :: "bytes \<times> bytes"
  us_adjin :: "(u32 \<times> nlri) list"
  us_prefix_cnt :: u32
  us_ops :: "update_op list"

type_synonym upd = "(update_state \<times> (u8 \<times> u8 \<times> bytes) option) res"

definition go :: "update_state \<Rightarrow> upd" where
  "go s = Inr (s, None)"

definition rde_update_error :: "u8 \<Rightarrow> u8 \<Rightarrow> bytes \<Rightarrow> update_state \<Rightarrow> upd" where
  "rde_update_error err suberr opt s = Inr (s, Some (err, suberr, opt))"

definition then_do :: "upd \<Rightarrow> (update_state \<Rightarrow> upd) \<Rightarrow> upd" where
  "then_do m f = (case m of Inl e \<Rightarrow> Inl e | Inr (s, er) \<Rightarrow> (case er of None \<Rightarrow> f s | Some x \<Rightarrow> Inr (s, er)))"

definition lift :: "update_state res \<Rightarrow> upd" where
  "lift m = res_bind m go"

definition bad_len :: "bytes \<Rightarrow> update_state \<Rightarrow> upd" where
  "bad_len whole = rde_update_error ERR_UPDATE ERR_UPD_ATTRLEN whole"

definition bad_flags :: "bytes \<Rightarrow> update_state \<Rightarrow> upd" where
  "bad_flags whole = rde_update_error ERR_UPDATE ERR_UPD_ATTRFLAGS whole"

definition bad_list :: "update_state \<Rightarrow> upd" where
  "bad_list = rde_update_error ERR_UPDATE ERR_UPD_ATTRLIST []"

section \<open>Access to the state\<close>

definition asp :: "update_state \<Rightarrow> rde_aspath" where
  "asp s = fs_aspath (us_fs s)"

definition upd_asp :: "(rde_aspath \<Rightarrow> rde_aspath) \<Rightarrow> update_state \<Rightarrow> update_state" where
  "upd_asp f s = s\<lparr>us_fs := set_path f (us_fs s)\<rparr>"

definition has_flag :: "u32 \<Rightarrow> update_state \<Rightarrow> bool" where
  "has_flag fl s = (asp_flags (asp s) AND fl \<noteq> 0)"

definition set_flag :: "u32 \<Rightarrow> update_state \<Rightarrow> update_state" where
  "set_flag fl = upd_asp (\<lambda>p. p\<lparr>asp_flags := asp_flags p OR fl\<rparr>)"

definition with_attrs :: "attr_state \<times> rde_aspath \<Rightarrow> update_state \<Rightarrow> update_state" where
  "with_attrs r s = upd_asp (\<lambda>_. snd r) (s\<lparr>us_attrs := fst r\<rparr>)"

definition peer_has_as4byte :: "update_peer \<Rightarrow> bool" where
  "peer_has_as4byte p = (cap_as4byte (up_capa p) \<noteq> 0)"

definition peer_has_add_path :: "update_peer \<Rightarrow> u8 \<Rightarrow> u8 \<Rightarrow> bool" where
  "peer_has_add_path p fam mode = (if fam \<ge> Addr.AID_MAX then False else cap_add_path (up_capa p) (unat fam) AND mode \<noteq> 0)"

definition peer_has_ext_nexthop :: "update_peer \<Rightarrow> u8 \<Rightarrow> bool" where
  "peer_has_ext_nexthop p fam = (if fam \<ge> Addr.AID_MAX then False else cap_ext_nh (up_capa p) (unat fam) \<noteq> 0)"

definition peer_permit_as_set :: "update_peer \<Rightarrow> bool" where
  "peer_permit_as_set p = up_permit_as_set p"

definition is_ebgp :: "update_peer \<Rightarrow> bool" where
  "is_ebgp p = (fp_ebgp (up_conf p) \<noteq> 0)"

definition CHECK_FLAGS :: "u8 \<Rightarrow> u8 \<Rightarrow> u8 \<Rightarrow> bool" where
  "CHECK_FLAGS s t m = (s AND NOT (ATTR_DEFMASK OR m) = t)"

section \<open>Path attributes\<close>

text \<open>The label optattr: the attribute is added to the list of the route.\<close>

definition optattr :: "update_env \<Rightarrow> u8 \<Rightarrow> u8 \<Rightarrow> bytes \<Rightarrow> update_state \<Rightarrow> upd" where
  "optattr e flags type data s =
     res_bind (attr_optadd (ue_ca e) (ue_hashf e) (us_attrs s) (asp s) flags type data) (\<lambda>r.
       case r of None \<Rightarrow> bad_list s | Some x \<Rightarrow> go (with_attrs x s))"

definition attr_origin :: "u8 \<Rightarrow> bytes \<Rightarrow> bytes \<Rightarrow> update_state \<Rightarrow> upd" where
  "attr_origin flags whole data s =
     (if \<not> CHECK_FLAGS flags ATTR_WELL_KNOWN 0 then bad_flags whole s
      else case data of
        [o'] \<Rightarrow>
          if has_flag F_ATTR_ORIGIN s then bad_list s
          else let s1 = set_flag F_ATTR_ORIGIN (upd_asp (\<lambda>p. p\<lparr>origin := o'\<rparr>) s)
               in go (if o' > ORIGIN_INCOMPLETE then set_flag F_ATTR_PARSE_ERR s1 else s1)
      | _ \<Rightarrow> bad_len whole s)"

definition attr_aspath :: "update_env \<Rightarrow> update_peer \<Rightarrow> u8 \<Rightarrow> bytes \<Rightarrow> bytes \<Rightarrow> update_state \<Rightarrow> upd" where
  "attr_aspath e peer flags whole data s =
     (if \<not> CHECK_FLAGS flags ATTR_WELL_KNOWN 0 then bad_flags whole s
      else if has_flag F_ATTR_ASPATH s then bad_list s
      else let er = aspath_verify data (peer_has_as4byte peer) (peer_permit_as_set peer) in
        if er \<noteq> 0 \<and> er \<noteq> AS_ERR_SOFT then rde_update_error ERR_UPDATE ERR_UPD_ASPATH [] s
        else res_bind (if peer_has_as4byte peer then Inr data
                       else case aspath_inflate (ue_ca e) data of Inl x \<Rightarrow> Inl Fatal | Inr d \<Rightarrow> Inr d) (\<lambda>d.
          let s1 = set_flag F_ATTR_ASPATH (if er = AS_ERR_SOFT then set_flag F_ATTR_PARSE_ERR s else s) in
          res_bind (aspath_get (ue_ca e) (ue_local_as e) (fs_paths (us_fs s)) d) (\<lambda>(m, a).
            go (upd_asp (\<lambda>p. p\<lparr>asp_aspath := a\<rparr>) (s1\<lparr>us_fs := (us_fs s1)\<lparr>fs_paths := m\<rparr>\<rparr>)))))"

definition IN_MULTICAST :: "u32 \<Rightarrow> bool" where
  "IN_MULTICAST i = (i AND 0xf0000000 = 0xe0000000)"

text \<open>The next hop of the state is given back and replaced.\<close>

definition set_nexthop :: "update_env \<Rightarrow> bgpd_addr \<Rightarrow> update_state \<Rightarrow> upd" where
  "set_nexthop e a s =
     res_bind (nexthop_unref (fs_nexthops (us_fs s)) (fs_nexthop (us_fs s))) (\<lambda>(m, gone).
     res_bind (nexthop_get (ue_ca e) m a) (\<lambda>(m, p).
       go (s\<lparr>us_fs := (us_fs s)\<lparr>fs_nexthops := m, fs_nexthop := Some p\<rparr>\<rparr>)))"

definition attr_nexthop :: "update_env \<Rightarrow> u8 \<Rightarrow> bytes \<Rightarrow> bytes \<Rightarrow> update_state \<Rightarrow> upd" where
  "attr_nexthop e flags whole data s =
     (if \<not> CHECK_FLAGS flags ATTR_WELL_KNOWN 0 then bad_flags whole s
      else if length data \<noteq> 4 then bad_len whole s
      else if has_flag F_ATTR_NEXTHOP s then bad_list s
      else let s1 = set_flag F_ATTR_NEXTHOP s in
        if IN_MULTICAST (word_be data) then rde_update_error ERR_UPDATE ERR_UPD_NEXTHOP whole s1
        else set_nexthop e (addr0\<lparr>aid := AID_INET, v4 := word_be data\<rparr>) s1)"

definition attr_med :: "u8 \<Rightarrow> bytes \<Rightarrow> bytes \<Rightarrow> update_state \<Rightarrow> upd" where
  "attr_med flags whole data s =
     (if \<not> CHECK_FLAGS flags ATTR_OPTIONAL 0 then bad_flags whole s
      else if length data \<noteq> 4 then bad_len whole s
      else if has_flag F_ATTR_MED s then bad_list s
      else go (set_flag F_ATTR_MED (upd_asp (\<lambda>p. p\<lparr>med := word_be data\<rparr>) s)))"

definition attr_localpref :: "update_peer \<Rightarrow> u8 \<Rightarrow> bytes \<Rightarrow> bytes \<Rightarrow> update_state \<Rightarrow> upd" where
  "attr_localpref peer flags whole data s =
     (if \<not> CHECK_FLAGS flags ATTR_WELL_KNOWN 0 then bad_flags whole s
      else if length data \<noteq> 4 then bad_len whole s
      else if is_ebgp peer then go s
      else if has_flag F_ATTR_LOCALPREF s then bad_list s
      else go (set_flag F_ATTR_LOCALPREF (upd_asp (\<lambda>p. p\<lparr>lpref := word_be data\<rparr>) s)))"

definition attr_aggregator :: "update_env \<Rightarrow> update_peer \<Rightarrow> u8 \<Rightarrow> bytes \<Rightarrow> bytes \<Rightarrow> update_state \<Rightarrow> upd" where
  "attr_aggregator e peer flags whole data s =
     (if \<not> CHECK_FLAGS flags (ATTR_OPTIONAL OR ATTR_TRANSITIVE) ATTR_PARTIAL then bad_flags whole s
      else if (\<not> peer_has_as4byte peer \<and> length data \<noteq> 6) \<or> (peer_has_as4byte peer \<and> length data \<noteq> 8) then go s
      else if \<not> peer_has_as4byte peer then
        let t = [0, 0] @ data in
        if take 4 t = [0, 0, 0, 0] then go s else optattr e flags ATTR_AGGREGATOR t s
      else if (word_be (take 4 data) :: u32) = 0 then go s
      else optattr e flags ATTR_AGGREGATOR data s)"

text \<open>The three community attributes: a malformed one makes the routes of the update ineligible.\<close>

definition attr_community ::
  "(rde_community \<Rightarrow> (rde_community \<times> bool) res) \<Rightarrow> u8 \<Rightarrow> bytes \<Rightarrow> update_state \<Rightarrow> upd" where
  "attr_community add flags whole s =
     (if \<not> CHECK_FLAGS flags (ATTR_OPTIONAL OR ATTR_TRANSITIVE) ATTR_PARTIAL then bad_flags whole s
      else res_bind (add (fs_communities (us_fs s))) (\<lambda>(cs, good).
        let s1 = s\<lparr>us_fs := (us_fs s)\<lparr>fs_communities := cs\<rparr>\<rparr> in
        go (if good then s1 else set_flag F_ATTR_PARSE_ERR s1)))"

definition attr_cluster_list :: "update_env \<Rightarrow> update_peer \<Rightarrow> u8 \<Rightarrow> bytes \<Rightarrow> bytes \<Rightarrow> update_state \<Rightarrow> upd" where
  "attr_cluster_list e peer flags whole data s =
     (if \<not> CHECK_FLAGS flags ATTR_OPTIONAL 0 then bad_flags whole s
      else if is_ebgp peer then go s
      else if length data mod 4 \<noteq> 0 \<or> length data = 0 then go (set_flag F_ATTR_PARSE_ERR s)
      else optattr e flags ATTR_CLUSTER_LIST data s)"

definition attr_mp_reach :: "u8 \<Rightarrow> bytes \<Rightarrow> bytes \<Rightarrow> update_state \<Rightarrow> upd" where
  "attr_mp_reach flags whole data s =
     (if \<not> CHECK_FLAGS flags ATTR_OPTIONAL 0 then bad_flags whole s
      else if length data < 5 then bad_len whole s
      else if has_flag F_ATTR_MP_REACH s then bad_list s
      else go ((set_flag F_ATTR_MP_REACH s)\<lparr>us_reach := (whole, data)\<rparr>))"

definition attr_mp_unreach :: "u8 \<Rightarrow> bytes \<Rightarrow> bytes \<Rightarrow> update_state \<Rightarrow> upd" where
  "attr_mp_unreach flags whole data s =
     (if \<not> CHECK_FLAGS flags ATTR_OPTIONAL 0 then bad_flags whole s
      else if length data < 3 then bad_len whole s
      else if has_flag F_ATTR_MP_UNREACH s then bad_list s
      else go ((set_flag F_ATTR_MP_UNREACH s)\<lparr>us_unreach := (whole, data)\<rparr>))"

definition attr_as4_aggregator :: "update_env \<Rightarrow> u8 \<Rightarrow> bytes \<Rightarrow> bytes \<Rightarrow> update_state \<Rightarrow> upd" where
  "attr_as4_aggregator e flags whole data s =
     (if \<not> CHECK_FLAGS flags (ATTR_OPTIONAL OR ATTR_TRANSITIVE) ATTR_PARTIAL then bad_flags whole s
      else if length data \<noteq> 8 then go s
      else if (word_be (take 4 data) :: u32) = 0 then go s
      else optattr e flags ATTR_AS4_AGGREGATOR data (set_flag F_ATTR_AS4BYTE_NEW s))"

definition attr_as4_path :: "update_env \<Rightarrow> update_peer \<Rightarrow> u8 \<Rightarrow> bytes \<Rightarrow> bytes \<Rightarrow> update_state \<Rightarrow> upd" where
  "attr_as4_path e peer flags whole data s =
     (if \<not> CHECK_FLAGS flags (ATTR_OPTIONAL OR ATTR_TRANSITIVE) ATTR_PARTIAL then bad_flags whole s
      else if aspath_verify data True (peer_permit_as_set peer) \<noteq> 0 then go s
      else optattr e flags ATTR_AS4_PATH data (set_flag F_ATTR_AS4BYTE_NEW s))"

definition attr_otc :: "update_env \<Rightarrow> update_peer \<Rightarrow> u8 \<Rightarrow> bytes \<Rightarrow> bytes \<Rightarrow> update_state \<Rightarrow> upd" where
  "attr_otc e peer flags whole data s =
     (if \<not> CHECK_FLAGS flags (ATTR_OPTIONAL OR ATTR_TRANSITIVE) ATTR_PARTIAL then bad_flags whole s
      else if length data \<noteq> 4 then go (set_flag F_ATTR_PARSE_ERR s)
      else
        let leak = (up_role peer = ROLE_PROVIDER \<or> up_role peer = ROLE_RS \<or>
                    up_role peer = ROLE_PEER \<and> word_be data \<noteq> fp_remote_as (up_conf peer));
            s1 = (if leak then set_flag F_ATTR_OTC_LEAK s else s)
        in optattr e flags ATTR_OTC data (set_flag F_ATTR_OTC s1))"

text \<open>The switch of rde_attr_parse(), on an attribute whose header has been read.\<close>

definition rde_attr_parse :: "update_env \<Rightarrow> update_peer \<Rightarrow> u8 \<Rightarrow> u8 \<Rightarrow> bytes \<Rightarrow> bytes \<Rightarrow> update_state \<Rightarrow> upd" where
  "rde_attr_parse e peer flags type whole data s =
     (if type = ATTR_UNDEF then go s
      else if type = ATTR_ORIGIN then attr_origin flags whole data s
      else if type = ATTR_ASPATH then attr_aspath e peer flags whole data s
      else if type = ATTR_NEXTHOP then attr_nexthop e flags whole data s
      else if type = ATTR_MED then attr_med flags whole data s
      else if type = ATTR_LOCALPREF then attr_localpref peer flags whole data s
      else if type = ATTR_ATOMIC_AGGREGATE then
        (if \<not> CHECK_FLAGS flags ATTR_WELL_KNOWN 0 then bad_flags whole s
         else if length data \<noteq> 0 then bad_len whole s
         else optattr e flags type data s)
      else if type = ATTR_AGGREGATOR then attr_aggregator e peer flags whole data s
      else if type = ATTR_COMMUNITIES then
        attr_community (\<lambda>c. community_add (ue_ca e) c flags data) flags whole s
      else if type = ATTR_LARGE_COMMUNITIES then
        attr_community (\<lambda>c. community_large_add (ue_ca e) c flags data) flags whole s
      else if type = ATTR_EXT_COMMUNITIES then
        attr_community (\<lambda>c. community_ext_add (ue_ca e) c flags (is_ebgp peer) data) flags whole s
      else if type = ATTR_ORIGINATOR_ID then
        (if \<not> CHECK_FLAGS flags ATTR_OPTIONAL 0 then bad_flags whole s
         else if length data \<noteq> 4 then bad_len whole s
         else optattr e flags type data s)
      else if type = ATTR_CLUSTER_LIST then attr_cluster_list e peer flags whole data s
      else if type = ATTR_MP_REACH_NLRI then attr_mp_reach flags whole data s
      else if type = ATTR_MP_UNREACH_NLRI then attr_mp_unreach flags whole data s
      else if type = ATTR_AS4_AGGREGATOR then attr_as4_aggregator e flags whole data s
      else if type = ATTR_AS4_PATH then attr_as4_path e peer flags whole data s
      else if type = ATTR_OTC then attr_otc e peer flags whole data s
      else if flags AND ATTR_OPTIONAL = 0 then rde_update_error ERR_UPDATE ERR_UPD_UNKNWN_WK_ATTR whole s
      else optattr e flags type data s)"

text \<open>The header: flags, type, the whole attribute, its data and the rest; None is a message that is too short.\<close>

definition attr_header :: "bytes \<Rightarrow> (u8 \<times> u8 \<times> bytes \<times> bytes \<times> bytes) option" where
  "attr_header buf =
     (case res_bind (get_n8 buf) (\<lambda>(flags, b). res_bind (get_n8 b) (\<lambda>(type, b).
         if flags AND ATTR_EXTLEN \<noteq> 0
         then res_bind (get_n16 b) (\<lambda>(n, b). Inr (flags, type, unat n, 4, b))
         else res_bind (get_n8 b) (\<lambda>(n, b). Inr (flags, type, unat n, 3 :: nat, b)))) of
        Inl _ \<Rightarrow> None
      | Inr (flags, type, alen, hlen, b) \<Rightarrow>
          if length b < alen then None
          else Some (flags, type, take (hlen + alen) buf, take alen b, drop alen b))"

lemma attr_header_length: "attr_header buf = Some (f, t, w, d, r) \<Longrightarrow> length r < length buf"
  by (auto simp: attr_header_def get_n8_def get_n16_def get_bytes_def res_bind_Inr_iff
      split: sum.splits if_splits prod.splits)

function attr_loop :: "update_env \<Rightarrow> update_peer \<Rightarrow> bytes \<Rightarrow> update_state \<Rightarrow> upd" where
  "attr_loop e peer buf s =
     (if buf = [] then go s
      else case attr_header buf of
        None \<Rightarrow> bad_list s
      | Some (flags, type, whole, data, rest) \<Rightarrow>
          then_do (rde_attr_parse e peer flags type whole data s) (attr_loop e peer rest))"
  by pat_completeness auto

termination attr_loop
  by (relation "measure (\<lambda>(e, p, b, s). length b)") (auto dest: attr_header_length)

declare attr_loop.simps [simp del]

definition rde_attr_missing :: "rde_aspath \<Rightarrow> bool \<Rightarrow> nat \<Rightarrow> u8" where
  "rde_attr_missing a external nlrilen =
     (if nlrilen = 0 \<and> asp_flags a AND F_ATTR_MP_UNREACH \<noteq> 0 \<and> asp_flags a AND F_ATTR_MP_REACH = 0 then 0
      else if asp_flags a AND F_ATTR_ORIGIN = 0 then ATTR_ORIGIN
      else if asp_flags a AND F_ATTR_ASPATH = 0 then ATTR_ASPATH
      else if nlrilen \<noteq> 0 \<and> asp_flags a AND F_ATTR_NEXTHOP = 0 then ATTR_NEXTHOP
      else if \<not> external \<and> asp_flags a AND F_ATTR_LOCALPREF = 0 then ATTR_LOCALPREF
      else 0)"

section \<open>Four-byte AS numbers\<close>

definition free_attr :: "nat option \<Rightarrow> update_state \<Rightarrow> update_state res" where
  "free_attr p s = (case p of None \<Rightarrow> Inr s
     | Some a \<Rightarrow> res_bind (attr_free (us_attrs s) (asp s) a) (\<lambda>r. Inr (with_attrs r s)))"

text \<open>attr_optadd() where it cannot fail, as the code has it.\<close>

definition must_add :: "update_env \<Rightarrow> u8 \<Rightarrow> u8 \<Rightarrow> bytes \<Rightarrow> update_state \<Rightarrow> update_state res" where
  "must_add e flags type data s =
     res_bind (attr_optadd (ue_ca e) (ue_hashf e) (us_attrs s) (asp s) flags type data) (\<lambda>r.
       case r of None \<Rightarrow> Inl Fatal | Some x \<Rightarrow> Inr (with_attrs x s))"

definition attr_data :: "update_state \<Rightarrow> nat \<Rightarrow> bytes res" where
  "attr_data s p = (case at_heap (us_attrs s) p of None \<Rightarrow> Inl OutOfBounds | Some a \<Rightarrow> Inr (a_data a))"

text \<open>The first bytes of the data of an attribute, read with memcpy() or memcmp().\<close>

definition attr_word :: "update_state \<Rightarrow> nat \<Rightarrow> u32 res" where
  "attr_word s p = res_bind (attr_data s p) (\<lambda>d. if length d < 4 then Inl OutOfBounds else Inr (word_be (take 4 d)))"

definition is_exit :: "cerror \<Rightarrow> bool" where
  "is_exit x = (x = Fatal \<or> x = OutOfBounds)"

definition merge_as4_path :: "update_env \<Rightarrow> nat option \<Rightarrow> update_state \<Rightarrow> update_state res" where
  "merge_as4_path e nasp s = (case nasp of
     None \<Rightarrow> Inr s
   | Some p \<Rightarrow>
       (case aspath_merge (ue_ca e) (ue_local_as e) (fs_paths (us_fs s)) (us_attrs s) (asp s) p of
          Inl x \<Rightarrow> if is_exit x then Inl x else Inr (set_flag F_ATTR_PARSE_ERR s)
        | Inr (m, r) \<Rightarrow> Inr (with_attrs r (s\<lparr>us_fs := (us_fs s)\<lparr>fs_paths := m\<rparr>\<rparr>))))"

definition rde_as4byte_fixup :: "update_env \<Rightarrow> update_peer \<Rightarrow> update_state \<Rightarrow> update_state res" where
  "rde_as4byte_fixup e peer s =
     (if \<not> has_flag F_ATTR_AS4BYTE_NEW s \<or> \<not> has_flag F_ATTR_ASPATH s \<or> has_flag F_ATTR_PARSE_ERR s then Inr s
      else
        let nasp = attr_optget (us_attrs s) (asp s) ATTR_AS4_PATH;
            naggr = attr_optget (us_attrs s) (asp s) ATTR_AS4_AGGREGATOR;
            oaggr = attr_optget (us_attrs s) (asp s) ATTR_AGGREGATOR;
            drop_new = (\<lambda>s. res_bind (free_attr nasp s) (free_attr naggr));
            finish = (\<lambda>s. res_bind (free_attr naggr s) (merge_as4_path e nasp)) in
        if peer_has_as4byte peer then drop_new s
        else case oaggr of
          None \<Rightarrow> finish s
        | Some o' \<Rightarrow>
            res_bind (attr_word s o') (\<lambda>as.
              if as \<noteq> AS_TRANS then drop_new s
              else case naggr of
                None \<Rightarrow> finish s
              | Some n \<Rightarrow>
                  res_bind (free_attr oaggr s) (\<lambda>s.
                  res_bind (attr_data s n) (\<lambda>d.
                  res_bind (must_add e (ATTR_OPTIONAL OR ATTR_TRANSITIVE) ATTR_AGGREGATOR d s) finish))))"

section \<open>Route reflection\<close>

fun cluster_has :: "bytes \<Rightarrow> bytes \<Rightarrow> bool res" where
  "cluster_has cid [] = Inr False"
| "cluster_has cid (a # b # c # d # r) = (if [a, b, c, d] = cid then Inr True else cluster_has cid r)"
| "cluster_has cid _ = Inl OutOfBounds"

definition reflect_cluster :: "update_env \<Rightarrow> update_state \<Rightarrow> update_state res" where
  "reflect_cluster e s =
     (if \<not> ue_reflector e then Inr s
      else
        let cid = be_word 4 (ue_clusterid e) in
        case attr_optget (us_attrs s) (asp s) ATTR_CLUSTER_LIST of
          None \<Rightarrow> must_add e ATTR_OPTIONAL ATTR_CLUSTER_LIST cid s
        | Some p \<Rightarrow>
            res_bind (attr_data s p) (\<lambda>d.
            res_bind (cluster_has cid d) (\<lambda>mine.
              if mine then Inr (set_flag F_ATTR_LOOP s)
              else if length d + 4 > UINT16_MAX then Inl Fatal
              else if \<not> ue_ca e (length d + 4) then Inl Fatal
              else res_bind (free_attr (Some p) s) (must_add e ATTR_OPTIONAL ATTR_CLUSTER_LIST (cid @ d)))))"

definition rde_reflector :: "update_env \<Rightarrow> update_peer \<Rightarrow> update_state \<Rightarrow> update_state res" where
  "rde_reflector e peer s =
     (if has_flag F_ATTR_PARSE_ERR s then Inr s
      else case attr_optget (us_attrs s) (asp s) ATTR_ORIGINATOR_ID of
        Some p \<Rightarrow> res_bind (attr_word s p) (\<lambda>cid.
          if cid = ue_bgpid e then Inr (set_flag F_ATTR_LOOP s) else reflect_cluster e s)
      | None \<Rightarrow>
          if ue_reflector e then
            res_bind (must_add e ATTR_OPTIONAL ATTR_ORIGINATOR_ID
                (be_word 4 (if is_ebgp peer then ue_bgpid e else up_remote_bgpid peer)) s) (reflect_cluster e)
          else Inr s)"

section \<open>Next hops of multiprotocol routes\<close>

text \<open>An IPv6 next hop; a link-local one needs the interface of the session.\<close>

definition v6_nexthop :: "update_peer \<Rightarrow> bytes \<Rightarrow> bgpd_addr option" where
  "v6_nexthop peer d =
     (if length d < 16 then None
      else let a = addr0\<lparr>aid := AID_INET6, v6 := word_be (take 16 d)\<rparr> in
        if IN6_IS_ADDR_LINKLOCAL (v6 a) then
          (if up_local_if_scope peer \<noteq> 0 then Some (a\<lparr>scope_id := up_local_if_scope peer\<rparr>) else None)
        else Some a)"

definition v4_nexthop :: "bytes \<Rightarrow> bgpd_addr option" where
  "v4_nexthop d = (if length d < 4 then None else Some (addr0\<lparr>aid := AID_INET, v4 := word_be (take 4 d)\<rparr>))"

text \<open>The address for a family and the bytes of the next hop: None is an error, Some None no next hop.\<close>

definition mp_nexthop :: "update_peer \<Rightarrow> u8 \<Rightarrow> bytes \<Rightarrow> bgpd_addr option option" where
  "mp_nexthop peer fam nh =
     (let n = length nh;
          fam = (if fam = AID_INET \<and> peer_has_ext_nexthop peer AID_INET \<and> (n = 16 \<or> n = 32) then AID_INET6 else fam);
          fam = (if fam = AID_VPN_IPv4 \<and> peer_has_ext_nexthop peer AID_VPN_IPv4 \<and> (n = 24 \<or> n = 48) then AID_VPN_IPv6 else fam) in
      if fam = AID_INET6 then (if n \<noteq> 16 \<and> n \<noteq> 32 then None else map_option Some (v6_nexthop peer nh))
      else if fam = AID_VPN_IPv4 then (if n \<noteq> 12 then None else map_option Some (v4_nexthop (drop 8 nh)))
      else if fam = AID_VPN_IPv6 then (if n \<noteq> 24 \<and> n \<noteq> 48 then None else map_option Some (v6_nexthop peer (drop 8 nh)))
      else if fam = AID_EVPN then
        (if n = 4 then map_option Some (v4_nexthop nh)
         else if n = 16 \<or> n = 32 then map_option Some (v6_nexthop peer nh) else None)
      else if fam = AID_FLOWSPECv4 \<or> fam = AID_FLOWSPECv6 then (if n \<noteq> 0 then None else Some None)
      else None)"

text \<open>The result is the step and the rest of the attribute; None is the return value -1.\<close>

definition rde_get_mp_nexthop :: "update_peer \<Rightarrow> u8 \<Rightarrow> bytes \<Rightarrow> (bgpd_addr option \<times> bytes) option" where
  "rde_get_mp_nexthop peer fam buf =
     (case res_bind (get_n8 buf) (\<lambda>(nhlen, b). res_bind (get_bytes (unat nhlen) b) (\<lambda>(nh, b).
         res_bind (get_bytes 1 b) (\<lambda>(snpa, b). Inr (nh, b)))) of
        Inl _ \<Rightarrow> None
      | Inr (nh, b) \<Rightarrow> map_option (\<lambda>a. (a, b)) (mp_nexthop peer fam nh))"

section \<open>Routes\<close>

definition roa_code :: "roa_validity \<Rightarrow> u8" where
  "roa_code v = (case v of ROA_NOTFOUND \<Rightarrow> 0 | ROA_INVALID \<Rightarrow> 1 | ROA_VALID \<Rightarrow> 2)"

definition aspa_code :: "aspa_validity \<Rightarrow> u8" where
  "aspa_code v = (case v of ASPA_UNKNOWN \<Rightarrow> 0 | ASPA_INVALID \<Rightarrow> 1 | ASPA_VALID \<Rightarrow> 2)"

definition rde_roa_validity :: "trie_head \<Rightarrow> bgpd_addr \<Rightarrow> u8 \<Rightarrow> u32 \<Rightarrow> u8" where
  "rde_roa_validity th prefix plen as = roa_code (trie_roa_check th prefix (unat plen) as) AND ROA_MASK"

definition rde_aspa_validity :: "update_peer \<Rightarrow> rde_aspa_state \<Rightarrow> u8 \<Rightarrow> u8" where
  "rde_aspa_validity peer st fam =
     (if \<not> is_ebgp peer then ASPA_NEVER_KNOWN
      else if fam \<noteq> AID_INET \<and> fam \<noteq> AID_INET6 then ASPA_NEVER_KNOWN
      else if up_role peer = ROLE_NONE then aspa_code ASPA_UNKNOWN
      else if up_role peer = ROLE_CUSTOMER then aspa_code (downup st)
      else aspa_code (onlyup st))"

text \<open>A path of the neighbor in the Adj-RIB-In: prefix_bypeer() on the entry of the prefix.\<close>

definition same_route :: "u32 \<Rightarrow> nlri \<Rightarrow> u32 \<times> nlri \<Rightarrow> bool" where
  "same_route pathid p = (\<lambda>(i, q). i = pathid \<and> pt_prefix_cmp p q = Inr 0)"

text \<open>
  rde_update_update() up to the RIBs behind the Adj-RIB-In: the validation state, the count of the
  prefixes and the limit.
\<close>

definition rde_update_update :: "update_env \<Rightarrow> update_peer \<Rightarrow> u32 \<Rightarrow> nlri \<Rightarrow> update_state \<Rightarrow> upd" where
  "rde_update_update e peer pathid p s =
     (let roa = rde_roa_validity (ue_roa e) (nl_addr p) (nl_plen p) (aspath_origin (asp_aspath (asp s)));
          aspa = rde_aspa_validity peer (us_aspa s) (aid (nl_addr p));
          fs = rde_filterstate_set_vstate (us_fs s) roa aspa;
          new = \<not> list_ex (same_route pathid p) (us_adjin s);
          s1 = s\<lparr>us_fs := fs, us_adjin := (if new then us_adjin s @ [(pathid, p)] else us_adjin s),
                 us_prefix_cnt := us_prefix_cnt s + (if new then 1 else 0), us_ops := us_ops s @ [Announce pathid p fs]\<rparr> in
      if up_max_prefix peer \<noteq> 0 \<and> us_prefix_cnt s1 > up_max_prefix peer
      then rde_update_error ERR_CEASE ERR_CEASE_MAX_PREFIX [] s1
      else go s1)"

definition rde_update_withdraw :: "u32 \<Rightarrow> nlri \<Rightarrow> update_state \<Rightarrow> upd" where
  "rde_update_withdraw pathid p s =
     go (s\<lparr>us_adjin := filter (\<lambda>k. \<not> same_route pathid p k) (us_adjin s),
           us_prefix_cnt := us_prefix_cnt s - (if list_ex (same_route pathid p) (us_adjin s) then 1 else 0),
           us_ops := us_ops s @ [Withdraw pathid p]\<rparr>)"

definition rde_peer_recv_eor :: "u8 \<Rightarrow> update_state \<Rightarrow> update_state" where
  "rde_peer_recv_eor fam s = s\<lparr>us_ops := us_ops s @ [Recv_eor fam]\<rparr>"

text \<open>
  One entry of the NLRI of a family: the path identifier, the prefix and the rest; None is an error,
  Some None an unknown family, whose entries are skipped. IPv4 in MP_UNREACH_NLRI is an error.
\<close>

definition nlri_entry :: "update_peer \<Rightarrow> u8 \<Rightarrow> bool \<Rightarrow> bool \<Rightarrow> bytes \<Rightarrow> (u32 \<times> nlri \<times> bytes) option option" where
  "nlri_entry peer fam mp withdraw buf =
     (case (if peer_has_add_path peer fam CAPA_AP_RECV then get_n32 buf else Inr (0, buf)) of
        Inl _ \<Rightarrow> None
      | Inr (pathid, b) \<Rightarrow>
          if mp \<and> withdraw \<and> fam = AID_INET then None
          else case nlri_get fam withdraw b of
            None \<Rightarrow> Some None
          | Some (Inl _) \<Rightarrow> None
          | Some (Inr (p, r)) \<Rightarrow> Some (Some (pathid, p, r)))"

lemma extract_prefix_length: "extract_prefix_buf b n m = Inr (d, r) \<Longrightarrow> length r \<le> length b"
proof -
  have "extract_loop n b = Inr (a, r) \<Longrightarrow> length r \<le> length b" for n b a r
  proof (induction n b arbitrary: a r rule: extract_loop.induct)
    case (1 n b)
    then show ?case by (cases b) (fastforce simp: extract_loop.simps[of n] res_bind_Inr_iff split: if_splits)+
  qed
  then show "extract_prefix_buf b n m = Inr (d, r) \<Longrightarrow> length r \<le> length b"
    by (auto simp: extract_prefix_buf_def Let_def res_bind_Inr_iff split: if_splits)
qed

lemma label_loop_length: "label_loop w n ls b = Inr (l, m, r) \<Longrightarrow> length r \<le> length b"
proof (induction w n ls b rule: label_loop.induct)
  case (1 w n ls b)
  then show ?case
    by (fastforce simp: label_loop.simps[of w n] res_bind_Inr_iff get_bytes_Inr split: if_splits)
qed

lemma nlri_get_length: "nlri_get fam w b = Some (Inr (p, r)) \<Longrightarrow> length r < length b"
  by (auto simp: nlri_get_def nlri_get_prefix_def nlri_get_prefix6_def nlri_get_vpn4_def nlri_get_vpn6_def get_vpn_def
      nlri_get_evpn_def get_addr_Inr res_bind_Inr_iff get_n8_Inr get_bytes_Inr
      dest!: extract_prefix_length label_loop_length get_n64_Inr split: if_splits)

lemma nlri_entry_length: "nlri_entry peer fam mp w b = Some (Some (i, p, r)) \<Longrightarrow> length r < length b"
  by (auto simp: nlri_entry_def get_n32_def get_bytes_def res_bind_Inr_iff dest!: nlri_get_length
      split: if_splits sum.splits option.splits)

function nlri_loop ::
  "update_peer \<Rightarrow> u8 \<Rightarrow> bool \<Rightarrow> bool \<Rightarrow> (update_state \<Rightarrow> upd) \<Rightarrow> (u32 \<Rightarrow> nlri \<Rightarrow> update_state \<Rightarrow> upd) \<Rightarrow> bytes \<Rightarrow> update_state \<Rightarrow> upd" where
  "nlri_loop peer fam mp withdraw bad act buf s =
     (if buf = [] then go s
      else case nlri_entry peer fam mp withdraw buf of
        None \<Rightarrow> bad s
      | Some None \<Rightarrow> go s
      | Some (Some (pathid, p, r)) \<Rightarrow> then_do (act pathid p s) (nlri_loop peer fam mp withdraw bad act r))"
  by pat_completeness auto

termination nlri_loop
  by (relation "measure (\<lambda>(peer, fam, mp, w, bad, act, b, s). length b)") (auto dest: nlri_entry_length)

declare nlri_loop.simps [simp del]

section \<open>The message\<close>

definition path0 :: rde_aspath where
  "path0 = \<lparr>others = [], asp_aspath = \<lparr>ap_source_as = 0, ap_ascnt = 0, ap_data = []\<rparr>, asp_flags = 0, med = 0,
     lpref = DEFAULT_LPREF, weight = 0, rtlabelid = 0, pftableid = 0, origin = ORIGIN_INCOMPLETE\<rparr>"

text \<open>rde_filterstate_init() and path_prep(); a NULL AS path is one without the flag F_ATTR_ASPATH.\<close>

definition rde_filterstate_init :: "update_state \<Rightarrow> update_state" where
  "rde_filterstate_init s =
     s\<lparr>us_fs := (us_fs s)\<lparr>fs_aspath := path0,
         fs_communities := \<lparr>cm_hash = 0, cm_size = 0, cmflags = 0, cm_refcnt = 0, communities = []\<rparr>,
         fs_nexthop := None, fs_nhflags := 0, fs_vstate := 0\<rparr>,
       us_aspa := \<lparr>onlyup = ASPA_UNKNOWN, downup = ASPA_UNKNOWN\<rparr>, us_reach := ([], []), us_unreach := ([], [])\<rparr>"

text \<open>rde_filterstate_clean() with path_clean(): everything the state refers to is given back.\<close>

definition rde_filterstate_clean :: "update_state \<Rightarrow> update_state res" where
  "rde_filterstate_clean s =
     (let fs = us_fs s; a = fs_aspath fs in
      res_bind (attr_freeall (us_attrs s) a) (\<lambda>(at1, a1).
      res_bind (communities_clean (fs_communities fs)) (\<lambda>cs.
      res_bind (nexthop_unref (fs_nexthops fs) (fs_nexthop fs)) (\<lambda>(m, gone).
        Inr (s\<lparr>us_attrs := at1,
          us_fs := fs\<lparr>fs_aspath := a1, fs_communities := cs, fs_nexthops := m, fs_nexthop := None,
            fs_rtlabels := unref (fs_rtlabels fs) (rtlabelid a), fs_pftables := unref (fs_pftables fs) (pftableid a),
            fs_paths := aspath_put (fs_paths fs) (if has_flag F_ATTR_ASPATH s then Some (asp_aspath a) else None)\<rparr>\<rparr>)))))"

definition enforce_neighbor_as :: "update_env \<Rightarrow> update_peer \<Rightarrow> update_state \<Rightarrow> upd" where
  "enforce_neighbor_as e peer s =
     (if has_flag F_ATTR_ASPATH s \<and> up_enforce_as peer then
        res_bind (aspath_neighbor (ue_local_as e) (asp_aspath (asp s))) (\<lambda>fas.
          if fp_remote_as (up_conf peer) \<noteq> fas then rde_update_error ERR_UPDATE ERR_UPD_ASPATH [] s else go s)
      else go s)"

definition mark_loop :: "update_peer \<Rightarrow> update_state \<Rightarrow> update_state res" where
  "mark_loop peer s =
     (if has_flag F_ATTR_ASPATH s \<and> is_ebgp peer \<and> up_enforce_local_as peer then
        res_bind (aspath_loopfree (asp_aspath (asp s)) (fp_local_as (up_conf peer))) (\<lambda>free.
          Inr (if free then s else set_flag F_ATTR_LOOP s))
      else Inr s)"

definition cache_aspa :: "update_env \<Rightarrow> update_peer \<Rightarrow> update_state \<Rightarrow> update_state res" where
  "cache_aspa e peer s =
     (if has_flag F_ATTR_ASPATH s \<and> is_ebgp peer then
        res_bind (aspa_validation (ue_aspa e) (asp_aspath (asp s))) (\<lambda>st. Inr (s\<lparr>us_aspa := st\<rparr>))
      else Inr s)"

definition parse_attrs :: "update_env \<Rightarrow> update_peer \<Rightarrow> bytes \<Rightarrow> bytes \<Rightarrow> update_state \<Rightarrow> upd" where
  "parse_attrs e peer attrs nlris s =
     (if attrs = [] then go s
      else then_do (attr_loop e peer attrs s) (\<lambda>s.
        let missing = rde_attr_missing (asp s) (is_ebgp peer) (length nlris) in
        if missing \<noteq> 0 then rde_update_error ERR_UPDATE ERR_UPD_MISSNG_WK_ATTR [missing] s
        else then_do (lift (rde_as4byte_fixup e peer s)) (\<lambda>s.
             then_do (enforce_neighbor_as e peer s) (\<lambda>s.
             lift (res_bind (mark_loop peer s) (\<lambda>s. res_bind (rde_reflector e peer s) (cache_aspa e peer)))))))"

definition withdraw_nlri :: "update_peer \<Rightarrow> bytes \<Rightarrow> update_state \<Rightarrow> upd" where
  "withdraw_nlri peer wd s =
     (let bad = rde_update_error ERR_UPDATE ERR_UPD_NETWORK [] in
      if wd \<noteq> [] \<and> cap_mp (up_capa peer) (unat AID_INET) = 0 then bad s
      else nlri_loop peer AID_INET False True bad rde_update_withdraw wd s)"

text \<open>The AFI and SAFI at the start of an MP attribute: the family and the rest.\<close>

definition mp_family :: "bytes \<Rightarrow> (u8 \<times> bytes) option" where
  "mp_family buf =
     (case res_bind (get_n16 buf) (\<lambda>(afi, b). res_bind (get_n8 b) (\<lambda>(safi, b). Inr (afi, safi, b))) of
        Inl _ \<Rightarrow> None
      | Inr (afi, safi, b) \<Rightarrow> map_option (\<lambda>i. (of_nat i, b)) (afi2aid afi safi))"

definition only_unreach :: "update_state \<Rightarrow> bool" where
  "only_unreach s = (asp_flags (asp s) AND NOT F_ATTR_MP_UNREACH = 0)"

definition mp_unreach :: "update_peer \<Rightarrow> update_state \<Rightarrow> upd" where
  "mp_unreach peer s =
     (let (whole, buf) = us_unreach s; bad = rde_update_error ERR_UPDATE ERR_UPD_OPTATTR whole in
      case mp_family buf of
        None \<Rightarrow> bad s
      | Some (fam, b) \<Rightarrow>
          if cap_mp (up_capa peer) (unat fam) = 0 then bad s
          else nlri_loop peer fam True True bad rde_update_withdraw b
                 (if only_unreach s \<and> b = [] then rde_peer_recv_eor fam s else s))"

text \<open>Routes of neighbors that must not learn them elsewhere are marked with the attribute OTC.\<close>

definition inject_otc :: "update_env \<Rightarrow> update_peer \<Rightarrow> update_state \<Rightarrow> upd" where
  "inject_otc e peer s =
     (if \<not> has_flag F_ATTR_OTC s \<and> (up_role peer = ROLE_CUSTOMER \<or> up_role peer = ROLE_RS_CLIENT \<or> up_role peer = ROLE_PEER) then
        then_do (optattr e (ATTR_OPTIONAL OR ATTR_TRANSITIVE) ATTR_OTC (be_word 4 (fp_remote_as (up_conf peer))) s)
          (\<lambda>s. go (set_flag F_ATTR_OTC s))
      else go s)"

definition announce_nlri :: "update_env \<Rightarrow> update_peer \<Rightarrow> bytes \<Rightarrow> update_state \<Rightarrow> upd" where
  "announce_nlri e peer nlris s =
     (let bad = rde_update_error ERR_UPDATE ERR_UPD_NETWORK [] in
      if nlris = [] then go s
      else if cap_mp (up_capa peer) (unat AID_INET) = 0 then bad s
      else then_do (inject_otc e peer s) (nlri_loop peer AID_INET False False bad (rde_update_update e peer) nlris))"

definition drop_nexthop :: "update_state \<Rightarrow> update_state res" where
  "drop_nexthop s =
     res_bind (nexthop_unref (fs_nexthops (us_fs s)) (fs_nexthop (us_fs s))) (\<lambda>(m, gone).
       Inr (s\<lparr>us_fs := (us_fs s)\<lparr>fs_nexthops := m, fs_nexthop := None\<rparr>\<rparr>))"

definition mp_reach :: "update_env \<Rightarrow> update_peer \<Rightarrow> update_state \<Rightarrow> upd" where
  "mp_reach e peer s =
     (let (whole, buf) = us_reach s; bad = rde_update_error ERR_UPDATE ERR_UPD_OPTATTR whole in
      if buf = [] then go s
      else case mp_family buf of
        None \<Rightarrow> bad s
      | Some (fam, b) \<Rightarrow>
          if cap_mp (up_capa peer) (unat fam) = 0 then bad s
          else then_do (if fam = AID_INET6 \<or> fam = AID_INET then inject_otc e peer s
                        else go (upd_asp (\<lambda>p. p\<lparr>asp_flags := asp_flags p AND NOT F_ATTR_OTC_LEAK\<rparr>) s)) (\<lambda>s.
               then_do (lift (drop_nexthop s)) (\<lambda>s.
                 case rde_get_mp_nexthop peer fam b of
                   None \<Rightarrow> bad s
                 | Some (nh, r) \<Rightarrow>
                     then_do (case nh of None \<Rightarrow> go s | Some a \<Rightarrow> set_nexthop e a s)
                       (nlri_loop peer fam True False bad (rde_update_update e peer) r))))"

definition update_body :: "update_env \<Rightarrow> update_peer \<Rightarrow> bytes \<Rightarrow> bytes \<Rightarrow> bytes \<Rightarrow> update_state \<Rightarrow> upd" where
  "update_body e peer wd attrs nlris s =
     then_do (parse_attrs e peer attrs nlris s) (\<lambda>s.
     then_do (withdraw_nlri peer wd s) (\<lambda>s.
       let announce = (\<lambda>s. then_do (announce_nlri e peer nlris s) (mp_reach e peer)) in
       if snd (us_unreach s) = [] then announce s
       else then_do (mp_unreach peer s) (\<lambda>s. if only_unreach s then go s else announce s)))"

text \<open>The three parts of the message.\<close>

definition update_parts :: "bytes \<Rightarrow> (bytes \<times> bytes \<times> bytes) option" where
  "update_parts buf =
     (case res_bind (get_n16 buf) (\<lambda>(n, b). res_bind (get_bytes (unat n) b) (\<lambda>(wd, b).
         res_bind (get_n16 b) (\<lambda>(m, b). res_bind (get_bytes (unat m) b) (\<lambda>(attrs, b). Inr (wd, attrs, b))))) of
        Inl _ \<Rightarrow> None
      | Inr parts \<Rightarrow> Some parts)"

definition rde_update_dispatch :: "update_env \<Rightarrow> update_peer \<Rightarrow> bytes \<Rightarrow> update_state \<Rightarrow> upd" where
  "rde_update_dispatch e peer buf s =
     (case update_parts buf of
        None \<Rightarrow> bad_list s
      | Some (wd, attrs, nlris) \<Rightarrow>
          if attrs = [] \<and> nlris \<noteq> [] then bad_list s
          else if attrs = [] \<and> wd = [] then go (rde_peer_recv_eor AID_INET s)
          else res_bind (update_body e peer wd attrs nlris (rde_filterstate_init s)) (\<lambda>(s1, er).
               res_bind (rde_filterstate_clean s1) (\<lambda>s2. Inr (s2, er))))"

end
