(* ===== verification/Trie_Correct.thy ===== *)
theory Trie_Correct
  imports Rde_Trie
begin

text \<open>
  Correctness of the tries. A trie represents a finite map from prefixes (masked address and length)
  to a prefixlen mask and a ROA table. Insertion updates the map at one prefix, provided no more
  specific prefix inside the new one is already there, and lookups search the map for covering
  prefixes. The proofs are done once, over any address family, and interpreted for IPv4 and IPv6.
\<close>

section \<open>Invariant and abstraction\<close>

text \<open>The keys of all nodes, and the keys and contents of the real ones.\<close>

fun tkeys :: "'a tentry \<Rightarrow> ('a \<times> nat) set" where
  "tkeys TNil = {}"
| "tkeys (TNode l r s a m n nd) = insert (a, n) (tkeys l \<union> tkeys r)"

fun tnodes :: "'a tentry \<Rightarrow> ('a \<times> nat \<times> 'a \<times> roa_set set_table option) set" where
  "tnodes TNil = {}"
| "tnodes (TNode l r s a m n nd) = (if nd then {(a, n, m, s)} else {}) \<union> tnodes l \<union> tnodes r"

text \<open>A key that belongs below the node (a, n), into the subtree of branch b.\<close>

definition below :: "'a addr_ops \<Rightarrow> 'a \<Rightarrow> nat \<Rightarrow> bool \<Rightarrow> 'a \<times> nat \<Rightarrow> bool" where
  "below ops a n b k = (n < snd k \<and> ao_applymask ops (fst k) n = a \<and> ao_isset ops (fst k) n = b)"

text \<open>
  Lengths increase and addresses extend each other along every path; addresses are masked; internal
  nodes have two subtrees and no contents.
\<close>

fun trie_wf :: "'a addr_ops \<Rightarrow> 'a tentry \<Rightarrow> bool" where
  "trie_wf ops TNil = True"
| "trie_wf ops (TNode l r s a m n nd) =
     (n \<le> ao_width ops \<and> ao_applymask ops a n = a \<and> trie_wf ops l \<and> trie_wf ops r \<and>
      (\<forall>k\<in>tkeys l. below ops a n False k) \<and> (\<forall>k\<in>tkeys r. below ops a n True k) \<and>
      (\<not> nd \<longrightarrow> l \<noteq> TNil \<and> r \<noteq> TNil \<and> m = ao_zero ops \<and> s = None))"

text \<open>A more specific prefix inside (p, plen).\<close>

definition inside :: "'a addr_ops \<Rightarrow> 'a \<Rightarrow> nat \<Rightarrow> 'a \<times> nat \<Rightarrow> bool" where
  "inside ops p plen k = (plen < snd k \<and> ao_applymask ops (fst k) plen = p)"

lemma tnodes_tkeys: "(a, n, m, s) \<in> tnodes t \<Longrightarrow> (a, n) \<in> tkeys t"
  by (induction t) (auto split: if_splits)

locale trie_ops =
  addr_family "ao_width ops" bits "ao_applymask ops" "ao_findmsb ops" "ao_isset ops" "ao_setbit ops"
    "ao_zero ops"
  for ops :: "'a addr_ops" and bits
begin

lemma trie_wf_real: "trie_wf ops t \<Longrightarrow> t \<noteq> TNil \<Longrightarrow> \<exists>x. x \<in> tnodes t"
  by (induction t) auto

lemma wf_keys:
  "trie_wf ops t \<Longrightarrow> (a, n) \<in> tkeys t \<Longrightarrow> n \<le> ao_width ops \<and> ao_applymask ops a n = a"
  by (induction t) auto

text \<open>Under a node that lies inside a prefix there is a real node inside it.\<close>

lemma inside_real:
  assumes "trie_wf ops (TNode l r s a m n nd)" and "inside ops p plen (a, n)"
  shows "\<exists>a' n' m' s'. (a', n', m', s') \<in> tnodes (TNode l r s a m n nd) \<and> inside ops p plen (a', n')"
proof -
  obtain a' n' m' s' where x: "(a', n', m', s') \<in> tnodes (TNode l r s a m n nd)"
    using trie_wf_real[OF assms(1)] by (metis prod_cases4 tentry.distinct(1))
  have k: "(a', n') = (a, n) \<or> below ops a n True (a', n') \<or> below ops a n False (a', n')"
    using tnodes_tkeys[OF x] assms(1) by auto
  have "inside ops p plen (a', n')"
  proof (cases "(a', n') = (a, n)")
    case True
    then show ?thesis using assms(2) by simp
  next
    case False
    then have lt: "n < n'" and a: "ao_applymask ops a' n = a" using k by (auto simp: below_def)
    have le: "n \<le> ao_width ops" using assms(1) by simp
    then have "ao_applymask ops a' plen = ao_applymask ops a plen"
      using assms(2) a applym_applym[of plen n a'] by (simp add: inside_def)
    then show ?thesis using assms(2) lt by (simp add: inside_def)
  qed
  then show ?thesis using x by blast
qed

lemma take_neq_findmsb:
  assumes "take k (bits a) \<noteq> take k (bits b)" and "k \<le> ao_width ops"
  shows "ao_findmsb ops a b < k"
proof (rule ccontr)
  assume "\<not> ?thesis"
  then have "k \<le> ao_findmsb ops a b" by simp
  moreover have "a \<noteq> b" using assms(1) by auto
  ultimately have "take k (bits a) = take k (bits b)"
    using findmsb_same[of a b] by (metis min.absorb1 take_take)
  then show False using assms(1) by simp
qed

text \<open>Where a new node leaves the path of an old one.\<close>

lemma branch_point:
  assumes wf: "ao_applymask ops a n = a" "n \<le> ao_width ops"
    and p: "ao_applymask ops p plen = p" "plen \<le> ao_width ops"
    and ni: "\<not> inside ops p plen (a, n)"
    and ne: "a \<noteq> ao_applymask ops p (min n plen)"
  defines "bp \<equiv> ao_findmsb ops a (ao_applymask ops p (min n plen))"
  shows "bp < n \<and> bp < plen \<and> ao_applymask ops a bp = ao_applymask ops p bp \<and>
    ao_isset ops a bp \<noteq> ao_isset ops p bp"
proof -
  let ?k = "min n plen" and ?mp = "ao_applymask ops p (min n plen)"
  have k: "?k \<le> ao_width ops" using wf(2) by simp
  have "take ?k (bits a) \<noteq> take ?k (bits ?mp)"
  proof
    assume eq: "take ?k (bits a) = take ?k (bits ?mp)"
    then have e2: "ao_applymask ops a ?k = ?mp"
      using applym_eq_iff[OF k, of a ?mp] applym_applym[of ?k ?k p] k by simp
    show False
    proof (cases "n \<le> plen")
      case True
      then show ?thesis using e2 wf(1) ne by (simp add: min_absorb1)
    next
      case False
      then show ?thesis using e2 ni p(1) by (simp add: inside_def min_absorb2)
    qed
  qed
  then have b: "bp < ?k" unfolding bp_def by (rule take_neq_findmsb[OF _ k])
  have "take bp (bits a) = take bp (bits ?mp)" unfolding bp_def by (rule findmsb_same[OF ne])
  then have "take bp (bits a) = take bp (bits p)" using b k by (simp add: take_applym)
  moreover have "ao_isset ops a bp \<noteq> ao_isset ops p bp"
  proof -
    have bw: "bp < ao_width ops" using b wf(2) by simp
    have "bits a ! bp \<noteq> bits ?mp ! bp" unfolding bp_def by (rule findmsb_differs[OF ne])
    then have "ao_isset ops a bp \<noteq> ao_isset ops ?mp bp" using bw by (simp only: isset_bits) simp
    then show ?thesis using isset_applym[OF b k, of p] by simp
  qed
  ultimately show ?thesis using b wf(2) by (simp add: applym_eq_iff)
qed

text \<open>Keys that belong below a node stay there when they are shortened to a branch point.\<close>

lemma below_shorten:
  assumes "below ops a0 n0 b (a, n)" and "below ops a0 n0 b (p, plen)"
    and "bp \<le> ao_width ops" and "ao_applymask ops a bp = ao_applymask ops p bp" and "bp < ao_width ops"
    and "ao_isset ops a bp \<noteq> ao_isset ops p bp" and "n0 < ao_width ops"
  shows "below ops a0 n0 b (ao_applymask ops a bp, bp)"
proof -
  have "n0 < bp"
  proof (rule ccontr)
    assume "\<not> n0 < bp"
    then have "bp < n0 \<or> bp = n0" by linarith
    then have "ao_isset ops a bp = ao_isset ops p bp"
    proof
      assume "bp < n0"
      then have "ao_isset ops a bp = ao_isset ops (ao_applymask ops a n0) bp"
        and "ao_isset ops p bp = ao_isset ops (ao_applymask ops p n0) bp"
        using assms(7) by (simp_all add: isset_applym)
      then show ?thesis using assms(1,2) by (simp add: below_def)
    next
      assume "bp = n0"
      then show ?thesis using assms(1,2) by (simp add: below_def)
    qed
    then show False using assms(6) by simp
  qed
  then show ?thesis
    using assms(1,3) applym_applym[of n0 bp a] isset_applym[of n0 bp a] by (simp add: below_def)
qed

lemma ins_below:
  assumes "trie_wf ops t" and "ao_applymask ops p plen = p" and "plen \<le> ao_width ops"
    and "\<forall>x\<in>tnodes t. \<not> inside ops p plen (fst x, fst (snd x))"
    and "\<forall>k\<in>tkeys t. below ops a0 n0 b k" and "below ops a0 n0 b (p, plen)"
  shows "\<forall>k\<in>tkeys (trie_ins ops p plen t). below ops a0 n0 b k"
  using assms(1,4,5)
proof (induction t)
  case TNil
  then show ?case using assms(6) by (simp add: new_node_def)
next
  case (TNode l r s a m n nd)
  have ni: "\<not> inside ops p plen (a, n)"
    using inside_real[OF TNode.prems(1), of p plen] TNode.prems(2) by fastforce
  have wfa: "ao_applymask ops a n = a" "n \<le> ao_width ops" using TNode.prems(1) by auto
  have ba: "below ops a0 n0 b (a, n)" using TNode.prems(3) by simp
  have n0: "n0 < ao_width ops" using assms(3,6) by (simp add: below_def)
  have il: "\<forall>k\<in>tkeys (trie_ins ops p plen l). below ops a0 n0 b k"
    and ir: "\<forall>k\<in>tkeys (trie_ins ops p plen r). below ops a0 n0 b k"
    using TNode by auto
  show ?case
  proof (cases "a = ao_applymask ops p (min n plen)")
    case False
    let ?bp = "ao_findmsb ops a (ao_applymask ops p (min n plen))"
    note bp = branch_point[OF wfa assms(2,3) ni False]
    have "below ops a0 n0 b (ao_applymask ops a ?bp, ?bp)"
      using bp assms(3) n0 by (intro below_shorten[OF ba assms(6)]) auto
    then show ?thesis
      using False TNode.prems(3) assms(6) by (auto simp: new_node_def Let_def min_def split: if_splits)
  next
    case True
    then show ?thesis
      using TNode.prems(3) assms(6) il ir by (auto simp: Let_def min_def split: if_splits)
  qed
qed

text \<open>Insertion keeps the invariant and adds at most the new prefix, with empty contents.\<close>

lemma ins_wf:
  assumes "trie_wf ops t" and "ao_applymask ops p plen = p" and "plen \<le> ao_width ops"
    and "\<forall>x\<in>tnodes t. \<not> inside ops p plen (fst x, fst (snd x))"
  shows "trie_wf ops (trie_ins ops p plen t) \<and> trie_ins ops p plen t \<noteq> TNil \<and>
    tnodes (trie_ins ops p plen t) = tnodes t \<union>
      (if \<exists>m s. (p, plen, m, s) \<in> tnodes t then {} else {(p, plen, ao_zero ops, None)})"
  using assms(1,4)
proof (induction t)
  case TNil
  then show ?case using assms(2,3) by (simp add: new_node_def)
next
  case (TNode l r s a m n nd)
  have ni: "\<not> inside ops p plen (a, n)"
    using inside_real[OF TNode.prems(1), of p plen] TNode.prems(2) by fastforce
  have wfa: "ao_applymask ops a n = a" "n \<le> ao_width ops" using TNode.prems(1) by auto
  have bl: "\<forall>k\<in>tkeys l. below ops a n False k" and br: "\<forall>k\<in>tkeys r. below ops a n True k"
    using TNode.prems(1) by auto
  show ?case
  proof (cases "a = ao_applymask ops p (min n plen)")
    case False
    define bp where "bp = ao_findmsb ops a (ao_applymask ops p (min n plen))"
    note b = branch_point[OF wfa assms(2,3) ni False, folded bp_def]
    have w: "bp \<le> ao_width ops" using b wfa(2) by linarith
    have mn: "(if n > plen then plen else n) = min n plen" by (simp add: min_def)
    have ba: "below ops (ao_applymask ops a bp) bp (ao_isset ops a bp) k"
      if "k \<in> tkeys (TNode l r s a m n nd)" for k
    proof (cases "k = (a, n)")
      case True
      then show ?thesis using b by (simp add: below_def)
    next
      case False
      then have k: "n < snd k" "ao_applymask ops (fst k) n = a" using that bl br by (auto simp: below_def)
      then show ?thesis
        using b wfa(2) applym_applym[of bp n "fst k"] isset_applym[of bp n "fst k"]
        by (simp add: below_def)
    qed
    have bpp: "below ops (ao_applymask ops a bp) bp (ao_isset ops p bp) (p, plen)"
      using b by (simp add: below_def)
    have none: "\<not> (\<exists>m' s'. (p, plen, m', s') \<in> tnodes (TNode l r s a m n nd))"
      using ba b tnodes_tkeys by (fastforce simp: below_def)
    have "ao_applymask ops (ao_applymask ops a bp) bp = ao_applymask ops a bp"
      using w by (simp add: applym_applym)
    moreover have "trie_ins ops p plen (TNode l r s a m n nd) =
        (if ao_isset ops a bp
         then TNode (new_node ops p plen) (TNode l r s a m n nd) None (ao_applymask ops a bp) (ao_zero ops) bp False
         else TNode (TNode l r s a m n nd) (new_node ops p plen) None (ao_applymask ops a bp) (ao_zero ops) bp False)"
      unfolding trie_ins.simps Let_def mn using False by (simp add: bp_def)
    ultimately show ?thesis
      using TNode.prems(1) ba bpp none w b assms(2,3)
      by (cases "ao_isset ops a bp") (auto simp: new_node_def)
  next
    case True
    then have le: "n \<le> plen" using ni assms(2) by (auto simp: inside_def min_def split: if_splits)
    then have a: "a = ao_applymask ops p n" using True by (simp add: min_absorb1)
    have nk: "n < n'" if "(p', n', m', s') \<in> tnodes l \<or> (p', n', m', s') \<in> tnodes r" for p' n' m' s'
      using that bl br tnodes_tkeys by (fastforce simp: below_def)
    show ?thesis
    proof (cases "n = plen")
      case eq: True
      then have ap: "a = p" using a assms(2) by simp
      then have "trie_ins ops p plen (TNode l r s a m n nd) = TNode l r s a m n True"
        using eq a by (simp add: Let_def)
      moreover have "(\<exists>m' s'. (p, plen, m', s') \<in> tnodes (TNode l r s a m n nd)) \<longleftrightarrow> nd"
        using nk eq ap by auto
      ultimately show ?thesis using TNode.prems(1) ap eq by auto
    next
      case False
      then have lt: "n < plen" using le by simp
      have bp: "below ops a n (ao_isset ops p n) (p, plen)" using lt a by (simp add: below_def)
      have no_l: "ao_isset ops p n \<Longrightarrow> (p, plen, m', s') \<notin> tnodes l" for m' s'
        using bl tnodes_tkeys by (fastforce simp: below_def)
      have no_r: "\<not> ao_isset ops p n \<Longrightarrow> (p, plen, m', s') \<notin> tnodes r" for m' s'
        using br tnodes_tkeys by (fastforce simp: below_def)
      have eq: "trie_ins ops p plen (TNode l r s a m n nd) =
          (if ao_isset ops p n then TNode l (trie_ins ops p plen r) s a m n nd
           else TNode (trie_ins ops p plen l) r s a m n nd)"
        using lt a by (simp add: Let_def)
      show ?thesis
      proof (cases "ao_isset ops p n")
        case True
        have "\<forall>k\<in>tkeys (trie_ins ops p plen r). below ops a n True k"
          using TNode.prems True bp by (intro ins_below[OF _ assms(2,3)]) auto
        then show ?thesis
          using True eq TNode.IH(2) TNode.prems no_l lt by auto
      next
        case False
        have "\<forall>k\<in>tkeys (trie_ins ops p plen l). below ops a n False k"
          using TNode.prems False bp by (intro ins_below[OF _ assms(2,3)]) auto
        then show ?thesis
          using False eq TNode.IH(1) TNode.prems no_r lt by auto
      qed
    qed
  qed
qed

text \<open>Writing to one node, and finding it.\<close>

lemma modify_keys [simp]: "tkeys (trie_modify ops f p plen t) = tkeys t"
  by (induction t) (auto split: prod.splits)

lemma modify_TNil [simp]: "trie_modify ops f p plen t = TNil \<longleftrightarrow> t = TNil"
  by (cases t) (auto split: prod.splits)

lemma modify_wf:
  "trie_wf ops t \<Longrightarrow> (p, plen, m, s) \<in> tnodes t \<Longrightarrow> trie_wf ops (trie_modify ops f p plen t)"
proof (induction t)
  case TNil
  then show ?case by simp
next
  case (TNode l r s' a m' n nd)
  have nl: "(p, plen, m, s) \<notin> tnodes l" "(p, plen, m, s) \<notin> tnodes r" if "\<not> n < plen"
    using TNode.prems(1) that tnodes_tkeys by (fastforce simp: below_def)+
  have ll: "(p, plen, m, s) \<notin> tnodes l" if "ao_isset ops p n"
    using TNode.prems(1) that tnodes_tkeys by (fastforce simp: below_def)
  have rr: "(p, plen, m, s) \<notin> tnodes r" if "\<not> ao_isset ops p n"
    using TNode.prems(1) that tnodes_tkeys by (fastforce simp: below_def)
  show ?case
    using TNode nl ll rr by (auto split: prod.splits if_splits)
qed

definition upd_node ::
  "('a \<times> roa_set set_table option \<Rightarrow> 'a \<times> roa_set set_table option) \<Rightarrow> 'a \<Rightarrow> nat \<Rightarrow>
     'a \<times> nat \<times> 'a \<times> roa_set set_table option \<Rightarrow> 'a \<times> nat \<times> 'a \<times> roa_set set_table option" where
  "upd_node f p plen x =
     (if (fst x, fst (snd x)) = (p, plen) then (p, plen, f (snd (snd x))) else x)"

lemma modify_nodes:
  "trie_wf ops t \<Longrightarrow> (p, plen, m, s) \<in> tnodes t \<Longrightarrow>
     tnodes (trie_modify ops f p plen t) = upd_node f p plen ` tnodes t"
proof (induction t)
  case TNil
  then show ?case by simp
next
  case (TNode l r s' a m' n nd)
  have id: "upd_node f p plen ` tnodes t = tnodes t" if "(p, plen) \<notin> tkeys t" for t
    using that tnodes_tkeys by (force simp: upd_node_def intro!: image_cong[of _ _ _ id, simplified])
  have kl: "(p, plen) \<in> tkeys l \<Longrightarrow> n < plen \<and> \<not> ao_isset ops p n"
    and kr: "(p, plen) \<in> tkeys r \<Longrightarrow> n < plen \<and> ao_isset ops p n"
    using TNode.prems(1) by (auto simp: below_def)
  have il: "(p, plen, m, s) \<in> tnodes l \<Longrightarrow> (p, plen) \<in> tkeys l"
    and ir: "(p, plen, m, s) \<in> tnodes r \<Longrightarrow> (p, plen) \<in> tkeys r"
    by (rule tnodes_tkeys, assumption)+
  have h: "upd_node f p plen (a, n, m', s') = (a, n, m', s')" if "\<not> (n = plen \<and> a = p)"
    using that by (auto simp: upd_node_def)
  consider (here) "n = plen \<and> a = p" | (left) "(p, plen, m, s) \<in> tnodes l" "\<not> (n = plen \<and> a = p)"
    | (right) "(p, plen, m, s) \<in> tnodes r" "\<not> (n = plen \<and> a = p)"
    using TNode.prems(2) by (auto split: if_splits)
  then show ?case
  proof cases
    case here
    then have "(p, plen) \<notin> tkeys l" "(p, plen) \<notin> tkeys r" using kl kr by auto
    then show ?thesis using here id[of l] id[of r]
      by (auto simp: upd_node_def image_Un split: prod.splits)
  next
    case left
    then have "(p, plen) \<notin> tkeys r" "n < plen" "\<not> ao_isset ops p n" using kl kr il by auto
    then show ?thesis
      using left TNode.IH(1) TNode.prems(1) id[of r] h by (simp add: image_Un)
  next
    case right
    then have "(p, plen) \<notin> tkeys l" "n < plen" "ao_isset ops p n" using kl kr ir by auto
    then show ?thesis
      using right TNode.IH(2) TNode.prems(1) id[of l] h by (simp add: image_Un)
  qed
qed

lemma find_node:
  "trie_wf ops t \<Longrightarrow> (p, plen, m, s) \<in> tnodes t \<Longrightarrow> trie_find ops p plen t = Some (m, s)"
proof (induction t)
  case TNil
  then show ?case by simp
next
  case (TNode l r s' a m' n nd)
  have kl: "(p, plen, m, s) \<in> tnodes l \<Longrightarrow> n < plen \<and> \<not> ao_isset ops p n"
    and kr: "(p, plen, m, s) \<in> tnodes r \<Longrightarrow> n < plen \<and> ao_isset ops p n"
    using TNode.prems(1) tnodes_tkeys by (fastforce simp: below_def)+
  show ?case using TNode kl kr by (auto split: if_splits)
qed

lemma node_unique:
  assumes "trie_wf ops t" and "(p, plen, m, s) \<in> tnodes t" and "(p, plen, m', s') \<in> tnodes t"
  shows "m = m' \<and> s = s'"
  using find_node[OF assms(1,2)] find_node[OF assms(1,3)] by simp

section \<open>Lookup\<close>

text \<open>A node off the path of a prefix, or longer than it, has no covering node below it.\<close>

lemma no_cover:
  assumes "trie_wf ops (TNode l r s a m n nd)" and "(a', n', m', s') \<in> tnodes l \<union> tnodes r"
    and "plen \<le> ao_width ops" and "n > plen \<or> a \<noteq> ao_applymask ops prefix n"
  shows "\<not> (n' \<le> plen \<and> a' = ao_applymask ops prefix n')"
proof -
  have k: "n < n'" "ao_applymask ops a' n = a" "n \<le> ao_width ops"
    using assms(1,2) tnodes_tkeys by (fastforce simp: below_def)+
  moreover have "n' \<le> plen \<Longrightarrow> a' = ao_applymask ops prefix n' \<Longrightarrow> ao_applymask ops a' n = ao_applymask ops prefix n"
    using k(1) assms(3) by (simp add: applym_applym)
  ultimately show ?thesis using assms(4) by auto
qed

lemma side_cover:
  assumes "trie_wf ops (TNode l r s a m n nd)"
    and "(a', n', m', s') \<in> (if ao_isset ops prefix n then tnodes l else tnodes r)"
    and "n' \<le> ao_width ops"
  shows "a' \<noteq> ao_applymask ops prefix n'"
proof
  assume a: "a' = ao_applymask ops prefix n'"
  have "n < n'" and "ao_isset ops a' n \<noteq> ao_isset ops prefix n"
    using assms(1,2) tnodes_tkeys by (fastforce simp: below_def split: if_splits)+
  then show False using a assms(3) isset_applym[of n n' prefix] by simp
qed

text \<open>The nodes that cover a prefix, as the length and the contents.\<close>

definition cov :: "'a tentry \<Rightarrow> 'a \<Rightarrow> nat \<Rightarrow> (nat \<times> 'a \<times> roa_set set_table option) set" where
  "cov t prefix plen = {(n, m, s). n \<le> plen \<and> (ao_applymask ops prefix n, n, m, s) \<in> tnodes t}"

lemma cov_TNil [simp]: "cov TNil prefix plen = {}"
  by (simp add: cov_def)

lemma cov_off:
  assumes "trie_wf ops (TNode l r s a m n nd)" and "plen \<le> ao_width ops"
    and "n > plen \<or> a \<noteq> ao_applymask ops prefix n"
  shows "cov (TNode l r s a m n nd) prefix plen = {}"
  using no_cover[OF assms(1) _ assms(2,3)] assms(3) by (fastforce simp: cov_def split: if_splits)

lemma cov_on:
  assumes wf: "trie_wf ops (TNode l r s a m n nd)" and w: "plen \<le> ao_width ops"
    and on: "\<not> (n > plen \<or> a \<noteq> ao_applymask ops prefix n)"
  shows "cov (TNode l r s a m n nd) prefix plen =
    (if nd then {(n, m, s)} else {}) \<union> cov (if ao_isset ops prefix n then r else l) prefix plen"
proof (rule set_eqI)
  fix x :: "nat \<times> 'a \<times> roa_set set_table option"
  obtain n' m' s' where x: "x = (n', m', s')" by (cases x)
  have "n' \<le> plen \<Longrightarrow> (ao_applymask ops prefix n', n', m', s') \<in> tnodes l \<union> tnodes r \<Longrightarrow>
      (ao_applymask ops prefix n', n', m', s') \<in> tnodes (if ao_isset ops prefix n then r else l)"
    using side_cover[OF wf, where prefix = prefix and n' = n' and m' = m' and s' = s' and
        a' = "ao_applymask ops prefix n'"] w by (auto split: if_splits)
  then show "x \<in> cov (TNode l r s a m n nd) prefix plen \<longleftrightarrow>
      x \<in> (if nd then {(n, m, s)} else {}) \<union> cov (if ao_isset ops prefix n then r else l) prefix plen"
    using on by (auto simp: x cov_def split: if_splits)
qed

lemma full_no_children:
  assumes "trie_wf ops (TNode l r s a m n nd)" and "n = ao_width ops"
  shows "l = TNil \<and> r = TNil"
proof -
  have "tkeys l = {}" "tkeys r = {}"
    using assms wf_keys[of l] wf_keys[of r] by (fastforce simp: below_def)+
  then show ?thesis by (cases l; cases r) auto
qed

lemma match_node_iff:
  "plen \<le> ao_width ops \<Longrightarrow> trie_wf ops t \<Longrightarrow>
     trie_match_node ops t prefix plen orlonger \<longleftrightarrow>
     (\<exists>(n, m, s) \<in> cov t prefix plen. orlonger \<or> ao_isset ops m (plen - 1))"
proof (induction t)
  case TNil
  then show ?case by simp
next
  case (TNode l r s a m n nd)
  show ?case
  proof (cases "n > plen \<or> a \<noteq> ao_applymask ops prefix n")
    case True
    then show ?thesis using cov_off[OF TNode.prems(2,1) True] by auto
  next
    case False
    let ?c = "if ao_isset ops prefix n then r else l"
    have "trie_match_node ops (TNode l r s a m n nd) prefix plen orlonger \<longleftrightarrow>
        nd \<and> (orlonger \<or> ao_isset ops m (plen - 1)) \<or> trie_match_node ops ?c prefix plen orlonger"
      using False full_no_children[OF TNode.prems(2)] by auto
    moreover have "trie_match_node ops ?c prefix plen orlonger \<longleftrightarrow>
        (\<exists>(n, m, s) \<in> cov ?c prefix plen. orlonger \<or> ao_isset ops m (plen - 1))"
      using TNode by simp
    ultimately show ?thesis unfolding cov_on[OF TNode.prems(2,1) False] by (auto split: if_splits)
  qed
qed

text \<open>The verdict of one covering ROA node.\<close>

definition roa_node_valid :: "nat \<Rightarrow> u32 \<Rightarrow> nat \<times> 'a \<times> roa_set set_table option \<Rightarrow> bool" where
  "roa_node_valid plen as x = (as \<noteq> 0 \<and>
     (case set_match rs_as (snd (snd x)) as of
        None \<Rightarrow> False
      | Some i \<Rightarrow> plen = fst x \<or> plen \<le> unat (rs_maxlen (st_elems (the (snd (snd x))) ! i))))"

lemma roa_check_node:
  "plen \<le> ao_width ops \<Longrightarrow> trie_wf ops t \<Longrightarrow>
     trie_roa_check_node ops t prefix plen as v =
       (if \<exists>x\<in>cov t prefix plen. roa_node_valid plen as x then ROA_VALID
        else if cov t prefix plen \<noteq> {} then ROA_INVALID else v)"
proof (induction t arbitrary: v)
  case TNil
  then show ?case by simp
next
  case (TNode l r s a m n nd)
  show ?case
  proof (cases "n > plen \<or> a \<noteq> ao_applymask ops prefix n")
    case True
    then show ?thesis using cov_off[OF TNode.prems(2,1) True] by auto
  next
    case False
    have v: "roa_node_valid plen as (n, m, s) \<longleftrightarrow> as \<noteq> 0 \<and> (case set_match rs_as s as of
        None \<Rightarrow> False | Some i \<Rightarrow> plen = n \<or> plen \<le> unat (rs_maxlen (st_elems (the s) ! i)))"
      by (auto simp: roa_node_valid_def split: option.splits)
    have "trie_roa_check_node ops (TNode l r s a m n nd) prefix plen as v' =
        (if nd \<and> roa_node_valid plen as (n, m, s) then ROA_VALID
         else trie_roa_check_node ops (if ao_isset ops prefix n then r else l) prefix plen as
                (if nd then ROA_INVALID else v'))" for v'
      using False v full_no_children[OF TNode.prems(2)] by (auto simp: Let_def)
    moreover have "trie_roa_check_node ops (if ao_isset ops prefix n then r else l) prefix plen as v' =
        (if \<exists>x\<in>cov (if ao_isset ops prefix n then r else l) prefix plen. roa_node_valid plen as x then ROA_VALID
         else if cov (if ao_isset ops prefix n then r else l) prefix plen \<noteq> {} then ROA_INVALID else v')" for v'
      using TNode by auto
    ultimately show ?thesis
      unfolding cov_on[OF TNode.prems(2,1) False] by auto
  qed
qed

section \<open>Adding an entry\<close>

lemma add_entry:
  assumes wf: "trie_wf ops t" and p: "ao_applymask ops p plen = p" "plen \<le> ao_width ops"
    and ni: "\<forall>x\<in>tnodes t. \<not> inside ops p plen (fst x, fst (snd x))"
  shows "\<exists>m0 s0. trie_find ops p plen (trie_ins ops p plen t) = Some (m0, s0) \<and>
    ((p, plen, m0, s0) \<in> tnodes t \<or> (\<forall>x. (p, plen, x) \<notin> tnodes t) \<and> m0 = ao_zero ops \<and> s0 = None) \<and>
    (\<forall>f. trie_wf ops (trie_modify ops f p plen (trie_ins ops p plen t))) \<and>
    (\<forall>f x. (p, plen, x) \<in> tnodes (trie_modify ops f p plen (trie_ins ops p plen t)) \<longleftrightarrow> x = f (m0, s0)) \<and>
    (\<forall>f a n x. (a, n) \<noteq> (p, plen) \<longrightarrow>
      ((a, n, x) \<in> tnodes (trie_modify ops f p plen (trie_ins ops p plen t)) \<longleftrightarrow> (a, n, x) \<in> tnodes t))"
proof -
  let ?u = "trie_ins ops p plen t"
  have w: "trie_wf ops ?u" and nd: "tnodes ?u = tnodes t \<union>
      (if \<exists>m s. (p, plen, m, s) \<in> tnodes t then {} else {(p, plen, ao_zero ops, None)})"
    using ins_wf[OF wf p ni] by auto
  obtain m0 s0 where old: "(p, plen, m0, s0) \<in> tnodes t \<or>
      (\<forall>x. (p, plen, x) \<notin> tnodes t) \<and> m0 = ao_zero ops \<and> s0 = None" by (metis prod.collapse)
  then have mem: "(p, plen, m0, s0) \<in> tnodes ?u" using nd by auto
  have uniq: "y = (m0, s0)" if "(p, plen, y) \<in> tnodes ?u" for y
    using node_unique[OF w mem, of "fst y" "snd y"] that by (simp add: prod_eq_iff)
  have here: "(p, plen, x) \<in> upd_node f p plen ` tnodes ?u \<longleftrightarrow> x = f (m0, s0)" for f x
  proof
    assume "(p, plen, x) \<in> upd_node f p plen ` tnodes ?u"
    then obtain b k y where y: "(b, k, y) \<in> tnodes ?u" and e: "(p, plen, x) = upd_node f p plen (b, k, y)"
      by auto
    then have k: "(b, k) = (p, plen)" by (auto simp: upd_node_def split: if_splits)
    then have "y = (m0, s0)" using y uniq by simp
    then show "x = f (m0, s0)" using k e by (simp add: upd_node_def)
  next
    assume "x = f (m0, s0)"
    then have "(p, plen, x) = upd_node f p plen (p, plen, m0, s0)" by (simp add: upd_node_def)
    then show "(p, plen, x) \<in> upd_node f p plen ` tnodes ?u" using mem by (rule image_eqI)
  qed
  have there: "(a, n, x) \<in> upd_node f p plen ` tnodes ?u \<longleftrightarrow> (a, n, x) \<in> tnodes t"
    if ne: "(a, n) \<noteq> (p, plen)" for f a n x
  proof
    assume "(a, n, x) \<in> upd_node f p plen ` tnodes ?u"
    then obtain y where y: "y \<in> tnodes ?u" and e: "(a, n, x) = upd_node f p plen y" by auto
    then have "y = (a, n, x)" using ne by (auto simp: upd_node_def split: if_splits)
    then show "(a, n, x) \<in> tnodes t" using y nd ne by (auto split: if_splits)
  next
    assume "(a, n, x) \<in> tnodes t"
    moreover have "(a, n, x) = upd_node f p plen (a, n, x)" using ne by (auto simp: upd_node_def)
    ultimately show "(a, n, x) \<in> upd_node f p plen ` tnodes ?u" using nd by blast
  qed
  show ?thesis
    using find_node[OF w mem] old modify_wf[OF w mem] here there
    unfolding modify_nodes[OF w mem] by blast
qed

text \<open>The bits of a prefixlen mask.\<close>

lemma isset_setbit:
  "i < ao_width ops \<Longrightarrow> j < ao_width ops \<Longrightarrow> ao_isset ops (ao_setbit ops m j) i \<longleftrightarrow> i = j \<or> ao_isset ops m i"
  by (simp add: isset_bits bits_setbit nth_list_update)

lemma isset_set_range:
  assumes "1 \<le> mn" and "mx \<le> ao_width ops" and "i < ao_width ops"
  shows "ao_isset ops (set_range ops mn mx m) i \<longleftrightarrow> ao_isset ops m i \<or> (mn \<le> i + 1 \<and> i + 1 \<le> mx)"
proof -
  have "ao_isset ops (foldl (\<lambda>m j. ao_setbit ops m (j - 1)) m js) i \<longleftrightarrow> ao_isset ops m i \<or> i + 1 \<in> set js"
    if "\<forall>j\<in>set js. 1 \<le> j \<and> j \<le> ao_width ops" for js
    using that
  proof (induction js arbitrary: m)
    case Nil
    then show ?case by simp
  next
    case (Cons j js)
    then have "j - 1 < ao_width ops" and "i = j - 1 \<longleftrightarrow> i + 1 = j" by auto
    then show ?case using Cons assms(3) isset_setbit[of i "j - 1" m] by auto
  qed
  from this[of "[mn..<mx + 1]"] show ?thesis
    using assms(1,2) by (auto simp: set_range_def)
qed

lemma isset_zero: "i < ao_width ops \<Longrightarrow> \<not> ao_isset ops (ao_zero ops) i"
  by (simp add: isset_bits bits_zero)

section \<open>Prefix-sets\<close>

text \<open>
  A trie holds a list of entries, each a masked prefix and a range of lengths, when its real nodes
  are the prefixes of the entries and the masks have the lengths of all entries with that prefix.
\<close>

definition pset_rep :: "'a tentry \<Rightarrow> (('a \<times> nat) \<times> nat \<times> nat) list \<Rightarrow> bool" where
  "pset_rep t es \<longleftrightarrow> trie_wf ops t \<and>
     (\<forall>a n. (\<exists>x. (a, n, x) \<in> tnodes t) \<longleftrightarrow> (a, n) \<in> fst ` set es) \<and>
     (\<forall>a n m s i. (a, n, m, s) \<in> tnodes t \<longrightarrow> i < ao_width ops \<longrightarrow>
        (ao_isset ops m i \<longleftrightarrow> (\<exists>mn mx. ((a, n), mn, mx) \<in> set es \<and> mn \<le> i + 1 \<and> i + 1 \<le> mx)))"

lemma pset_rep_empty: "pset_rep TNil []"
  by (simp add: pset_rep_def)

lemma pset_rep_add:
  assumes rep: "pset_rep t es" and p: "ao_applymask ops p plen = p" "plen \<le> ao_width ops"
    and ni: "\<forall>e\<in>set es. \<not> inside ops p plen (fst e)" and r: "1 \<le> mn" "mx \<le> ao_width ops"
  shows "pset_rep (trie_modify ops (\<lambda>(k, s). (set_range ops mn mx k, s)) p plen (trie_ins ops p plen t))
    (es @ [((p, plen), mn, mx)])"
proof -
  let ?f = "\<lambda>(k, s). (set_range ops mn mx k, s)" and ?es = "es @ [((p, plen), mn, mx)]"
  let ?t = "trie_modify ops ?f p plen (trie_ins ops p plen t)"
  have wf: "trie_wf ops t" using rep by (simp add: pset_rep_def)
  have kt: "(\<exists>x. (a, n, x) \<in> tnodes t) \<longleftrightarrow> (a, n) \<in> fst ` set es" for a n
    using rep unfolding pset_rep_def by blast
  have ni': "\<forall>x\<in>tnodes t. \<not> inside ops p plen (fst x, fst (snd x))"
    using kt ni by (metis (no_types, lifting) image_iff prod.collapse)
  obtain m0 s0 where "trie_find ops p plen (trie_ins ops p plen t) = Some (m0, s0)"
    and old: "(p, plen, m0, s0) \<in> tnodes t \<or> (\<forall>x. (p, plen, x) \<notin> tnodes t) \<and> m0 = ao_zero ops \<and> s0 = None"
    and B: "\<And>f. trie_wf ops (trie_modify ops f p plen (trie_ins ops p plen t))"
      "\<And>f x. (p, plen, x) \<in> tnodes (trie_modify ops f p plen (trie_ins ops p plen t)) \<longleftrightarrow> x = f (m0, s0)"
      "\<And>f a n x. (a, n) \<noteq> (p, plen) \<Longrightarrow>
        (a, n, x) \<in> tnodes (trie_modify ops f p plen (trie_ins ops p plen t)) \<longleftrightarrow> (a, n, x) \<in> tnodes t"
    using add_entry[OF wf p ni'] by blast
  have A: "trie_wf ops ?t" "\<And>x. (p, plen, x) \<in> tnodes ?t \<longleftrightarrow> x = ?f (m0, s0)"
      "\<And>a n x. (a, n) \<noteq> (p, plen) \<Longrightarrow> (a, n, x) \<in> tnodes ?t \<longleftrightarrow> (a, n, x) \<in> tnodes t"
    using B by blast+
  have m0: "ao_isset ops m0 i \<longleftrightarrow> (\<exists>mn mx. ((p, plen), mn, mx) \<in> set es \<and> mn \<le> i + 1 \<and> i + 1 \<le> mx)"
    if i: "i < ao_width ops" for i
  proof (cases "(p, plen, m0, s0) \<in> tnodes t")
    case True
    then show ?thesis using rep i unfolding pset_rep_def by blast
  next
    case False
    then have z: "m0 = ao_zero ops" and "(p, plen) \<notin> fst ` set es" using old kt[of p plen] by auto
    then have "((p, plen), mn, mx) \<notin> set es" for mn mx by (metis fst_conv image_eqI)
    then show ?thesis using isset_zero[OF i] z by simp
  qed
  have keys: "(\<exists>x. (a, n, x) \<in> tnodes ?t) \<longleftrightarrow> (a, n) \<in> fst ` set ?es" for a n
  proof (cases "(a, n) = (p, plen)")
    case True
    then show ?thesis using A(2) by auto
  next
    case False
    then show ?thesis using A(3)[OF False] kt[of a n] by auto
  qed
  have bits: "ao_isset ops m i \<longleftrightarrow> (\<exists>mn mx. ((a, n), mn, mx) \<in> set ?es \<and> mn \<le> i + 1 \<and> i + 1 \<le> mx)"
    if x: "(a, n, m, s) \<in> tnodes ?t" and i: "i < ao_width ops" for a n m s i
  proof (cases "(a, n) = (p, plen)")
    case True
    then have "m = set_range ops mn mx m0" using x A(2)[of "(m, s)"] by simp
    then show ?thesis using True isset_set_range[OF r i] m0[OF i] by auto
  next
    case False
    then have "(a, n, m, s) \<in> tnodes t" using x A(3)[OF False] by simp
    then have "ao_isset ops m i \<longleftrightarrow> (\<exists>mn mx. ((a, n), mn, mx) \<in> set es \<and> mn \<le> i + 1 \<and> i + 1 \<le> mx)"
      using rep i unfolding pset_rep_def by blast
    then show ?thesis using False by auto
  qed
  show ?thesis unfolding pset_rep_def using A(1) keys bits by blast
qed

lemma pset_match:
  assumes rep: "pset_rep t es" and n: "1 \<le> n" "n \<le> ao_width ops"
  shows "trie_match_node ops t q n orlonger \<longleftrightarrow>
    (\<exists>pl mn mx. ((ao_applymask ops q pl, pl), mn, mx) \<in> set es \<and> pl \<le> n \<and>
       (orlonger \<or> mn \<le> n \<and> n \<le> mx))"
proof -
  have wf: "trie_wf ops t" using rep by (simp add: pset_rep_def)
  have b: "ao_isset ops m (n - 1) \<longleftrightarrow> (\<exists>mn mx. ((a, pl), mn, mx) \<in> set es \<and> mn \<le> n \<and> n \<le> mx)"
    if "(a, pl, m, s) \<in> tnodes t" for a pl m s
  proof -
    have "n - 1 < ao_width ops" using n by simp
    then have "ao_isset ops m (n - 1) \<longleftrightarrow>
        (\<exists>mn mx. ((a, pl), mn, mx) \<in> set es \<and> mn \<le> n - 1 + 1 \<and> n - 1 + 1 \<le> mx)"
      using rep that unfolding pset_rep_def by blast
    then show ?thesis using n(1) by simp
  qed
  have k: "(\<exists>x. (a, pl, x) \<in> tnodes t) \<longleftrightarrow> (\<exists>mn mx. ((a, pl), mn, mx) \<in> set es)" for a pl
  proof -
    have "(\<exists>x. (a, pl, x) \<in> tnodes t) \<longleftrightarrow> (a, pl) \<in> fst ` set es"
      using rep unfolding pset_rep_def by blast
    also have "\<dots> \<longleftrightarrow> (\<exists>mn mx. ((a, pl), mn, mx) \<in> set es)" by force
    finally show ?thesis .
  qed
  have "trie_match_node ops t q n orlonger \<longleftrightarrow> (\<exists>pl m s. pl \<le> n \<and>
      (ao_applymask ops q pl, pl, m, s) \<in> tnodes t \<and> (orlonger \<or> ao_isset ops m (n - 1)))"
    unfolding match_node_iff[OF n(2) wf] cov_def by blast
  also have "\<dots> \<longleftrightarrow> (\<exists>pl mn mx. ((ao_applymask ops q pl, pl), mn, mx) \<in> set es \<and> pl \<le> n \<and>
       (orlonger \<or> mn \<le> n \<and> n \<le> mx))"
    (is "?L \<longleftrightarrow> ?R")
  proof
    assume ?L
    then obtain pl m s where x: "pl \<le> n" "(ao_applymask ops q pl, pl, m, s) \<in> tnodes t"
      and o: "orlonger \<or> ao_isset ops m (n - 1)" by blast
    show ?R
    proof (cases orlonger)
      case True
      then show ?thesis using k x by blast
    next
      case False
      then show ?thesis using b[OF x(2)] x o by blast
    qed
  next
    assume ?R
    then obtain pl mn mx where e: "((ao_applymask ops q pl, pl), mn, mx) \<in> set es" "pl \<le> n"
      and o: "orlonger \<or> mn \<le> n \<and> n \<le> mx" by blast
    then obtain m s where x: "(ao_applymask ops q pl, pl, m, s) \<in> tnodes t"
      using k by (metis prod.collapse)
    then show ?L using b[OF x] e o by blast
  qed
  finally show ?thesis .
qed

end

end
