(* ===== verification/Pset_Roa.thy ===== *)
theory Pset_Roa
  imports Trie_Correct
begin

text \<open>
  Prefix-sets and ROA sets from end to end: the orders of config.c in which the configuration is
  sent to the RDE, the tries built from it in that order, and what a lookup decides. A prefix-set
  matches what a search through its items matches, and a ROA lookup is the origin validation of
  RFC 6811. Both need the addresses of the items to be masked, which host() of config.c does not
  do: the last section has the lookup that fails.
\<close>

section \<open>The orders of config.c\<close>

record prefixset_item =
  psi_addr :: bgpd_addr
  psi_len :: nat
  psi_len_min :: nat
  psi_len_max :: nat

definition memcmp_addr :: "u8 \<Rightarrow> in_addr \<Rightarrow> in_addr \<Rightarrow> in6_addr \<Rightarrow> in6_addr \<Rightarrow> int res" where
  "memcmp_addr af a4 b4 a6 b6 =
     (if af = AID_INET then Inr (if a4 < b4 then -1 else if a4 > b4 then 1 else 0)
      else if af = AID_INET6 then Inr (if a6 < b6 then -1 else if a6 > b6 then 1 else 0)
      else Inl Fatal)"

definition prefixset_cmp :: "prefixset_item \<Rightarrow> prefixset_item \<Rightarrow> int res" where
  "prefixset_cmp a b =
     (if aid (psi_addr a) < aid (psi_addr b) then Inr (-1)
      else if aid (psi_addr a) > aid (psi_addr b) then Inr 1
      else res_bind (memcmp_addr (aid (psi_addr a)) (v4 (psi_addr a)) (v4 (psi_addr b))
                       (v6 (psi_addr a)) (v6 (psi_addr b))) (\<lambda>i.
        Inr (if i > 0 then 1
             else if i < 0 then -1
             else if psi_len a < psi_len b then -1
             else if psi_len a > psi_len b then 1
             else if psi_len_min a < psi_len_min b then -1
             else if psi_len_min a > psi_len_min b then 1
             else if psi_len_max a < psi_len_max b then -1
             else if psi_len_max a > psi_len_max b then 1
             else 0)))"

definition roa_cmp :: "roa \<Rightarrow> roa \<Rightarrow> int res" where
  "roa_cmp a b =
     (if roa_aid a < roa_aid b then Inr (-1)
      else if roa_aid a > roa_aid b then Inr 1
      else res_bind (memcmp_addr (roa_aid a) (roa_inet a) (roa_inet b)
                       (roa_inet6 a) (roa_inet6 b)) (\<lambda>i.
        Inr (if i > 0 then 1
             else if i < 0 then -1
             else if roa_prefixlen a < roa_prefixlen b then -1
             else if roa_prefixlen a > roa_prefixlen b then 1
             else if roa_asnum a < roa_asnum b then -1
             else if roa_asnum a > roa_asnum b then 1
             else if roa_maxlen a < roa_maxlen b then -1
             else if roa_maxlen a > roa_maxlen b then 1
             else 0)))"

text \<open>The messages IMSG_RECONF_PREFIX_SET_ITEM and IMSG_RECONF_ROA_ITEM of rde.c, one per item.\<close>

definition prefix_set_items ::
  "can_alloc \<Rightarrow> trie_mem \<Rightarrow> prefixset_item list \<Rightarrow> trie_mem \<times> trie_head" where
  "prefix_set_items ca m items = foldl (\<lambda>(m, th) psi.
     case trie_add ca m th (psi_addr psi) (psi_len psi) (psi_len_min psi) (psi_len_max psi) of
       (m', th', ok) \<Rightarrow> (m', th')) (m, trie_empty) items"

definition roa_items :: "can_alloc \<Rightarrow> trie_mem \<Rightarrow> roa list \<Rightarrow> trie_mem \<times> trie_head" where
  "roa_items ca m items = foldl (\<lambda>(m, th) r.
     case trie_roa_add ca m th r of (m', th', ok) \<Rightarrow> (m', th')) (m, trie_empty) items"

section \<open>ROA tables of a node\<close>

text \<open>
  A node's table holds a list of pairs of AS and maximal length: it is sorted, has each AS once,
  and knows for each AS the largest of its lengths.
\<close>

definition roa_tab :: "roa_set set_table option \<Rightarrow> (u32 \<times> nat) list \<Rightarrow> bool" where
  "roa_tab s xs = (case s of None \<Rightarrow> xs = []
     | Some t \<Rightarrow> set_sorted rs_as t \<and> distinct (map rs_as (st_elems t)) \<and> set_nmemb t \<le> length xs \<and>
         (\<forall>as v. (\<exists>e\<in>set (st_elems t). rs_as e = as \<and> v \<le> unat (rs_maxlen e)) \<longleftrightarrow>
                 (\<exists>mx. (as, mx) \<in> set xs \<and> v \<le> mx)))"

lemma roa_tab_sets:
  "roa_tab (Some t) xs \<Longrightarrow> (\<exists>e\<in>set (st_elems t). rs_as e = as \<and> v \<le> unat (rs_maxlen e)) \<longleftrightarrow>
     (\<exists>mx. (as, mx) \<in> set xs \<and> v \<le> mx)"
  by (simp add: roa_tab_def)

lemma distinct_key_nth:
  "distinct (map f xs) \<Longrightarrow> i < length xs \<Longrightarrow> e \<in> set xs \<Longrightarrow> f e = f (xs ! i) \<Longrightarrow> e = xs ! i"
  by (auto simp: distinct_conv_nth in_set_conv_nth)

lemma set_update_distinct_key:
  assumes "distinct (map f xs)" and "i < length xs"
  shows "set (xs[i := y]) = insert y {e \<in> set xs. f e \<noteq> f (xs ! i)}"
  using assms distinct_key_nth[OF assms] distinct_map[of f xs]
  by (subst set_update_distinct) auto

lemma unat_ucast_u8 [simp]: "unat (ucast (x :: u8) :: u32) = unat x"
proof -
  have "unat x < 2 ^ 32" using unsigned_less[of x, where ?'a = nat] by simp
  then show ?thesis by (simp add: unsigned_ucast_eq take_bit_nat_eq_self)
qed

lemma roa_tab_update:
  assumes tab: "roa_tab (Some t) xs" and m: "set_match rs_as (Some t) as = Some i"
  shows "roa_tab (Some (if rs_maxlen (st_elems t ! i) < ucast mx
      then t\<lparr>st_elems := (st_elems t)[i := (st_elems t ! i)\<lparr>rs_maxlen := ucast (mx :: u8)\<rparr>]\<rparr> else t))
    (xs @ [(as, unat mx)])"
proof -
  let ?e = "st_elems t ! i"
  have i: "i < length (st_elems t)" "rs_as ?e = as"
    using set_match_Some[OF m] by (simp_all add: set_nmemb_def)
  have d: "distinct (map rs_as (st_elems t))" using tab by (simp add: roa_tab_def)
  have key: "map rs_as ((st_elems t)[i := ?e\<lparr>rs_maxlen := y\<rparr>]) = map rs_as (st_elems t)" for y
    by (simp add: map_update list_update_same_conv i)
  have only: "e \<in> set (st_elems t) \<Longrightarrow> rs_as e = as \<Longrightarrow> e = ?e" for e
    using distinct_key_nth[OF d i(1)] i(2) by simp
  have lt: "rs_maxlen ?e < ucast mx \<longleftrightarrow> unat (rs_maxlen ?e) < unat mx"
    by (simp add: word_less_nat_alt)
  have old: "(\<exists>mx. (as', mx) \<in> set xs \<and> v \<le> mx) \<longleftrightarrow>
      (\<exists>e\<in>set (st_elems t). rs_as e = as' \<and> v \<le> unat (rs_maxlen e))" for as' v
    using roa_tab_sets[OF tab] by simp
  have new: "(\<exists>mx'. (as', mx') \<in> set (xs @ [(as, unat mx)]) \<and> v \<le> mx') \<longleftrightarrow>
      (\<exists>e\<in>set (st_elems t). rs_as e = as' \<and> v \<le> unat (rs_maxlen e)) \<or> as' = as \<and> v \<le> unat mx" for as' v
    using old[of as' v] by auto
  have ei: "?e \<in> set (st_elems t)" using i(1) by simp
  show ?thesis
  proof (cases "rs_maxlen ?e < ucast mx")
    case True
    have "(\<exists>e\<in>set ((st_elems t)[i := ?e\<lparr>rs_maxlen := ucast mx\<rparr>]). rs_as e = as' \<and> v \<le> unat (rs_maxlen e)) \<longleftrightarrow>
        (\<exists>e\<in>set (st_elems t). rs_as e = as' \<and> v \<le> unat (rs_maxlen e)) \<or> as' = as \<and> v \<le> unat mx" for as' v
      using True only lt i(2) unfolding set_update_distinct_key[OF d i(1)] by force
    then show ?thesis
      using True tab new key by (simp add: roa_tab_def set_sorted_def set_nmemb_def)
  next
    case False
    then have le: "unat mx \<le> unat (rs_maxlen ?e)" using lt by simp
    have "(\<exists>mx'. (as', mx') \<in> set (xs @ [(as, unat mx)]) \<and> v \<le> mx') \<longleftrightarrow>
        (\<exists>e\<in>set (st_elems t). rs_as e = as' \<and> v \<le> unat (rs_maxlen e))" for as' v
      unfolding new using le ei i(2) by (auto intro: order_trans[OF _ le])
    then show ?thesis
      using False tab unfolding roa_tab_def by (simp del: Un_iff set_append)
  qed
qed

lemma roa_tab_insert:
  assumes "set_sorted rs_as t" "distinct (map rs_as (st_elems t))" "set_nmemb t \<le> length xs"
    and old: "\<And>as v. (\<exists>e\<in>set (st_elems t). rs_as e = as \<and> v \<le> unat (rs_maxlen e)) \<longleftrightarrow>
      (\<exists>mx. (as, mx) \<in> set xs \<and> v \<le> mx)"
    and m: "set_match rs_as (Some t) as = None" and n: "length xs + 1 < 2 ^ 31" and ca: "\<And>n. ca n"
  shows "\<exists>m2 t'. set_add ca m1 t [\<lparr>rs_as = as, rs_maxlen = ucast (mx :: u8)\<rparr>] = Inr (m2, t') \<and>
    roa_tab (set_prep rs_as (Some t')) (xs @ [(as, unat mx)])"
proof -
  let ?e = "\<lparr>rs_as = as, rs_maxlen = ucast mx\<rparr> :: roa_set"
  obtain m2 t' where a: "set_add ca m1 t [?e] = Inr (m2, t')"
    using set_add_total[of t "[?e]" ca m1] assms(3) n ca by fastforce
  have el: "st_elems t' = st_elems t @ [?e]" using set_add_elems[OF a] .
  have fresh: "as \<notin> rs_as ` set (st_elems t)"
    using set_match_None[OF assms(1) m] by auto
  have "distinct (map rs_as (sort_key rs_as (st_elems t @ [?e])))"
  proof -
    have "mset (map rs_as (sort_key rs_as (st_elems t @ [?e]))) = mset (map rs_as (st_elems t @ [?e]))"
      by simp
    moreover have "distinct (map rs_as (st_elems t @ [?e]))" using assms(2) fresh by simp
    ultimately show ?thesis by (metis mset_eq_imp_distinct_iff)
  qed
  moreover have "(\<exists>e\<in>set (sort_key rs_as (st_elems t @ [?e])). rs_as e = as' \<and> v \<le> unat (rs_maxlen e)) \<longleftrightarrow>
      (\<exists>mx'. (as', mx') \<in> set (xs @ [(as, unat mx)]) \<and> v \<le> mx')" for as' v
    using old[of as' v] by auto
  ultimately have "roa_tab (set_prep rs_as (Some t')) (xs @ [(as, unat mx)])"
    using assms(3) by (simp add: roa_tab_def el set_sorted_def set_nmemb_def)
  then show ?thesis using a by blast
qed

lemma roa_set_add_tab:
  assumes tab: "roa_tab s xs" and n: "length xs + 1 < 2 ^ 31" and ca: "\<And>n. ca n"
  shows "\<exists>m' s'. roa_set_add ca m s as mx = (True, m', s') \<and> roa_tab s' (xs @ [(as, unat mx)])"
proof (cases s)
  case None
  let ?t = "\<lparr>st_elems = [], st_max = 1, st_size = 8\<rparr> :: roa_set set_table"
  obtain m1 where "set_new ca m 1 8 = Inr (m1, ?t)" using ca by (simp add: set_new_def Let_def)
  moreover have "set_match rs_as (Some ?t) as = None"
    by (cases "set_match rs_as (Some ?t) as") (auto dest: set_match_Some simp: set_nmemb_def)
  moreover have "xs = []" using tab None by (simp add: roa_tab_def)
  ultimately show ?thesis
    using roa_tab_insert[of ?t xs as ca m1 mx] None n ca
    by (fastforce simp: roa_set_add_def set_sorted_def set_nmemb_def)
next
  case (Some t)
  show ?thesis
  proof (cases "set_match rs_as (Some t) as")
    case None
    then show ?thesis
      using roa_tab_insert[of t xs as ca m mx] tab Some n ca
      by (fastforce simp: roa_set_add_def roa_tab_def)
  next
    case (Some i)
    then show ?thesis
      using roa_tab_update[of t xs as i mx] tab \<open>s = Some t\<close> by (auto simp: roa_set_add_def)
  qed
qed

lemma roa_tab_valid:
  assumes "roa_tab s xs"
  shows "(case set_match rs_as s as of None \<Rightarrow> False
      | Some i \<Rightarrow> plen = n \<or> plen \<le> unat (rs_maxlen (st_elems (the s) ! i))) \<longleftrightarrow>
    (\<exists>mx. (as, mx) \<in> set xs \<and> (plen = n \<or> plen \<le> mx))"
proof (cases s)
  case None
  then show ?thesis using assms by (simp add: roa_tab_def set_match_def)
next
  case (Some t)
  have srt: "set_sorted rs_as t" and d: "distinct (map rs_as (st_elems t))"
    using assms Some by (auto simp: roa_tab_def)
  have R: "(\<exists>mx. (as, mx) \<in> set xs \<and> (plen = n \<or> plen \<le> mx)) \<longleftrightarrow>
      (\<exists>e\<in>set (st_elems t). rs_as e = as \<and> (plen = n \<or> plen \<le> unat (rs_maxlen e)))"
    using roa_tab_sets[of t xs as plen] roa_tab_sets[of t xs as 0] assms Some by auto
  show ?thesis
  proof (cases "set_match rs_as (Some t) as")
    case None
    then show ?thesis using R set_match_None[OF srt None] Some by auto
  next
    case (Some i)
    then have i: "i < length (st_elems t)" "rs_as (st_elems t ! i) = as"
      using set_match_Some by (auto simp: set_nmemb_def)
    then show ?thesis
      using R Some \<open>s = Some t\<close> distinct_key_nth[OF d i(1)] by (auto simp: nth_mem)
  qed
qed

section \<open>ROA tries\<close>

text \<open>
  The verdict of RFC 6811 over a list of ROAs, each a masked prefix, an AS and a maximal length: a
  route is valid when a covering ROA has its origin AS and allows its length, invalid when only
  other ROAs cover it, and not found when none does.
\<close>

definition roa_covers :: "'a addr_ops \<Rightarrow> 'a \<Rightarrow> nat \<Rightarrow> 'a \<times> nat \<Rightarrow> bool" where
  "roa_covers ops q n p = (snd p \<le> n \<and> fst p = ao_applymask ops q (snd p))"

definition rfc6811 :: "'a addr_ops \<Rightarrow> (('a \<times> nat) \<times> u32 \<times> nat) list \<Rightarrow> 'a \<Rightarrow> nat \<Rightarrow> u32 \<Rightarrow> roa_validity" where
  "rfc6811 ops rs q n as =
     (if as \<noteq> 0 \<and> (\<exists>r\<in>set rs. roa_covers ops q n (fst r) \<and> fst (snd r) = as \<and>
           n \<le> max (snd (fst r)) (snd (snd r))) then ROA_VALID
      else if \<exists>r\<in>set rs. roa_covers ops q n (fst r) then ROA_INVALID
      else ROA_NOTFOUND)"

lemma proj_iff: "y \<in> set (map snd (filter (\<lambda>r. fst r = k) rs)) \<longleftrightarrow> (k, y) \<in> set rs"
  by force

context trie_ops
begin

definition roa_rep :: "'a tentry \<Rightarrow> (('a \<times> nat) \<times> u32 \<times> nat) list \<Rightarrow> bool" where
  "roa_rep t rs \<longleftrightarrow> trie_wf ops t \<and>
     (\<forall>a n. (\<exists>x. (a, n, x) \<in> tnodes t) \<longleftrightarrow> (a, n) \<in> fst ` set rs) \<and>
     (\<forall>a n m s. (a, n, m, s) \<in> tnodes t \<longrightarrow> roa_tab s (map snd (filter (\<lambda>r. fst r = (a, n)) rs)))"

lemma roa_rep_empty: "roa_rep TNil []"
  by (simp add: roa_rep_def)

lemma roa_rep_add:
  assumes rep: "roa_rep t rs" and p: "ao_applymask ops p plen = p" "plen \<le> ao_width ops"
    and ni: "\<forall>r\<in>set rs. \<not> inside ops p plen (fst r)"
    and n: "length rs + 1 < 2 ^ 31" and ca: "\<And>n. ca n"
  shows "\<exists>m' t'. roa_node_add ops ca m (trie_ins ops p plen t) p plen as mx = (m', t', True) \<and>
    roa_rep t' (rs @ [((p, plen), as, unat mx)])"
proof -
  let ?L = "\<lambda>rs a n. map snd (filter (\<lambda>r. fst r = (a, n)) rs)"
  let ?rs = "rs @ [((p, plen), as, unat mx)]"
  have wf: "trie_wf ops t" using rep by (simp add: roa_rep_def)
  have kt: "(\<exists>x. (a, n, x) \<in> tnodes t) \<longleftrightarrow> (a, n) \<in> fst ` set rs" for a n
    using rep unfolding roa_rep_def by blast
  have tab: "(a, n, m, s) \<in> tnodes t \<Longrightarrow> roa_tab s (?L rs a n)" for a n m s
    using rep unfolding roa_rep_def by blast
  have ni': "\<forall>x\<in>tnodes t. \<not> inside ops p plen (fst x, fst (snd x))"
    using kt ni by (metis (no_types, lifting) image_iff prod.collapse)
  obtain m0 s0 where find: "trie_find ops p plen (trie_ins ops p plen t) = Some (m0, s0)"
    and old: "(p, plen, m0, s0) \<in> tnodes t \<or> (\<forall>x. (p, plen, x) \<notin> tnodes t) \<and> m0 = ao_zero ops \<and> s0 = None"
    and B: "\<And>f. trie_wf ops (trie_modify ops f p plen (trie_ins ops p plen t))"
      "\<And>f x. (p, plen, x) \<in> tnodes (trie_modify ops f p plen (trie_ins ops p plen t)) \<longleftrightarrow> x = f (m0, s0)"
      "\<And>f a n x. (a, n) \<noteq> (p, plen) \<Longrightarrow>
        (a, n, x) \<in> tnodes (trie_modify ops f p plen (trie_ins ops p plen t)) \<longleftrightarrow> (a, n, x) \<in> tnodes t"
    using add_entry[OF wf p ni'] by blast
  have "roa_tab s0 (?L rs p plen)"
  proof (cases "(p, plen, m0, s0) \<in> tnodes t")
    case False
    then have "s0 = None" and "(p, plen) \<notin> fst ` set rs" using old kt[of p plen] by auto
    then show ?thesis by (force simp: roa_tab_def filter_empty_conv)
  qed (rule tab)
  moreover have "length (?L rs p plen) + 1 < 2 ^ 31"
    using n le_less_trans[OF length_filter_le[of "\<lambda>r. fst r = (p, plen)" rs]] by simp
  ultimately obtain am s1 where add: "roa_set_add ca (tm_aset m) s0 as mx = (True, am, s1)"
    and tab1: "roa_tab s1 (?L rs p plen @ [(as, unat mx)])"
    using roa_set_add_tab ca by blast
  let ?f = "\<lambda>(k :: 'a, s :: roa_set set_table option). (k, s1)"
  let ?t = "trie_modify ops ?f p plen (trie_ins ops p plen t)"
  have A: "trie_wf ops ?t" "\<And>x. (p, plen, x) \<in> tnodes ?t \<longleftrightarrow> x = (m0, s1)"
      "\<And>a n x. (a, n) \<noteq> (p, plen) \<Longrightarrow> (a, n, x) \<in> tnodes ?t \<longleftrightarrow> (a, n, x) \<in> tnodes t"
    using B(1) B(2)[of _ ?f] B(3) by auto
  have keys: "(\<exists>x. (a, n, x) \<in> tnodes ?t) \<longleftrightarrow> (a, n) \<in> fst ` set ?rs" for a n
  proof (cases "(a, n) = (p, plen)")
    case True
    then show ?thesis using A(2) by auto
  next
    case False
    then show ?thesis using A(3)[OF False] kt[of a n] by auto
  qed
  have "roa_tab s (?L ?rs a n)" if x: "(a, n, k, s) \<in> tnodes ?t" for a n k s
  proof (cases "(a, n) = (p, plen)")
    case True
    then show ?thesis using x A(2) tab1 by simp
  next
    case False
    then show ?thesis using x A(3)[OF False] tab by auto
  qed
  then have "roa_rep ?t ?rs" unfolding roa_rep_def using A(1) keys by blast
  moreover have "roa_node_add ops ca m (trie_ins ops p plen t) p plen as mx = (m\<lparr>tm_aset := am\<rparr>, ?t, True)"
    by (simp add: roa_node_add_def find add)
  ultimately show ?thesis by blast
qed

lemma roa_check_rfc6811:
  assumes rep: "roa_rep t rs" and n: "n \<le> ao_width ops"
  shows "trie_roa_check_node ops t q n as ROA_NOTFOUND = rfc6811 ops rs q n as"
proof -
  have wf: "trie_wf ops t" using rep by (simp add: roa_rep_def)
  have kt: "(\<exists>x. (a, k, x) \<in> tnodes t) \<longleftrightarrow> (a, k) \<in> fst ` set rs" for a k
    using rep unfolding roa_rep_def by blast
  have cov: "x \<in> cov t q n \<longleftrightarrow> fst x \<le> n \<and> (ao_applymask ops q (fst x), x) \<in> tnodes t" for x
    by (cases x) (simp add: cov_def)
  have ex: "(\<exists>r\<in>set rs. roa_covers ops q n (fst r)) \<longleftrightarrow> cov t q n \<noteq> {}"
  proof -
    have "(\<exists>r\<in>set rs. roa_covers ops q n (fst r)) \<longleftrightarrow> (\<exists>k\<le>n. (ao_applymask ops q k, k) \<in> fst ` set rs)"
      by (force simp: roa_covers_def)
    then show ?thesis unfolding kt[symmetric] using cov by (metis ex_in_conv fst_conv prod.collapse)
  qed
  have valid: "roa_node_valid n as x \<longleftrightarrow> as \<noteq> 0 \<and>
      (\<exists>mx. ((ao_applymask ops q (fst x), fst x), as, mx) \<in> set rs \<and> n \<le> max (fst x) mx)"
    if x: "x \<in> cov t q n" for x
  proof -
    have "fst x \<le> n" and "(ao_applymask ops q (fst x), fst x, fst (snd x), snd (snd x)) \<in> tnodes t"
      using x cov by simp_all
    then have "roa_tab (snd (snd x))
        (map snd (filter (\<lambda>r. fst r = (ao_applymask ops q (fst x), fst x)) rs))"
      using rep unfolding roa_rep_def by blast
    from roa_tab_valid[OF this, where as = as and plen = n and n = "fst x"] show ?thesis
      using \<open>fst x \<le> n\<close> unfolding roa_node_valid_def proj_iff
      by (auto simp: le_max_iff_disj dest: order_antisym)
  qed
  have "(\<exists>x\<in>cov t q n. roa_node_valid n as x) \<longleftrightarrow> as \<noteq> 0 \<and>
      (\<exists>r\<in>set rs. roa_covers ops q n (fst r) \<and> fst (snd r) = as \<and> n \<le> max (snd (fst r)) (snd (snd r)))"
    (is "?L \<longleftrightarrow> ?R")
  proof
    assume ?L
    then obtain x where x: "x \<in> cov t q n" "roa_node_valid n as x" by blast
    then obtain mx where "((ao_applymask ops q (fst x), fst x), as, mx) \<in> set rs" "n \<le> max (fst x) mx"
      and "as \<noteq> 0" using valid by blast
    then show ?R using x(1) cov by (intro conjI bexI) (auto simp: roa_covers_def)
  next
    assume ?R
    then obtain a k mx where r: "((a, k), as, mx) \<in> set rs" "roa_covers ops q n (a, k)"
      "n \<le> max k mx" and as: "as \<noteq> 0" by auto
    then have "(ao_applymask ops q k, k) \<in> fst ` set rs" "k \<le> n" "a = ao_applymask ops q k"
      by (force simp: roa_covers_def)+
    then obtain x where "(k, x) \<in> cov t q n" using kt[of "ao_applymask ops q k" k] cov by auto
    then show ?L using valid[of "(k, x)"] r(1,3) as \<open>a = _\<close> by (intro bexI) auto
  qed
  then show ?thesis
    unfolding roa_check_node[OF n wf] rfc6811_def using ex by auto
qed

end

section \<open>Insertion in address order\<close>

text \<open>
  With addresses compared as numbers, which is how memcmp() compares them, no prefix follows a more
  specific one inside it.
\<close>

locale ordered_trie_ops = trie_ops ops bits for ops :: "'a::linorder addr_ops" and bits +
  assumes applym_le: "n \<le> ao_width ops \<Longrightarrow> ao_applymask ops a n \<le> a"
begin

lemma lex_not_inside:
  assumes "a < b \<or> a = b \<and> na \<le> nb" and "nb \<le> ao_width ops"
  shows "\<not> inside ops b nb (a, na)"
  using assms applym_le[OF assms(2), of a] by (auto simp: inside_def)

end

lemma msb_bits_le:
  assumes "\<And>i. i < LENGTH('a) \<Longrightarrow> msb_bits LENGTH('a) x ! i \<Longrightarrow> msb_bits LENGTH('a) y ! i"
  shows "x \<le> (y :: 'a::len word)"
proof -
  have "bit x i \<Longrightarrow> bit y i" for i
    using assms[of "LENGTH('a) - 1 - i"] bit_imp_le_length[of x i] by simp
  then have "x = y AND x" by (intro bit_eqI) (auto simp: bit_and_iff)
  then show ?thesis by (metis word_and_le2)
qed

lemma applym_nth_imp: "i < w \<Longrightarrow> length xs = w \<Longrightarrow> (take n xs @ replicate (w - n) False) ! i \<Longrightarrow> xs ! i"
  by (auto simp: nth_append split: if_splits)

lemma v4_ops_simps [simp]:
  "ao_width v4_ops = 32" "ao_applymask v4_ops = inet4applymask" "ao_findmsb v4_ops = inet4findmsb"
  "ao_isset v4_ops = inet4isset" "ao_setbit v4_ops = inet4setbit" "ao_zero v4_ops = 0"
  by (simp_all add: v4_ops_def)

lemma v6_ops_simps [simp]:
  "ao_width v6_ops = 128" "ao_applymask v6_ops = inet6applymask" "ao_findmsb v6_ops = inet6findmsb"
  "ao_isset v6_ops = inet6isset" "ao_setbit v6_ops = inet6setbit" "ao_zero v6_ops = 0"
  by (simp_all add: v6_ops_def)

interpretation v4t: ordered_trie_ops v4_ops "msb_bits 32"
proof (intro ordered_trie_ops.intro trie_ops.intro ordered_trie_ops_axioms.intro)
  fix a :: in_addr and n assume n: "n \<le> ao_width v4_ops"
  then have "msb_bits 32 (inet4applymask a n) ! i \<Longrightarrow> msb_bits 32 a ! i" if "i < 32" for i
    using applym_nth_imp[of i 32 "msb_bits 32 a" n] that
    by (simp only: v4.bits_applym v4_ops_simps length_msb_bits)
  then show "ao_applymask v4_ops a n \<le> a"
    using msb_bits_le[of "inet4applymask a n" a] by (simp del: nth_msb_bits)
qed (simp add: v4.addr_family_axioms)

interpretation v6t: ordered_trie_ops v6_ops "msb_bits 128"
proof (intro ordered_trie_ops.intro trie_ops.intro ordered_trie_ops_axioms.intro)
  fix a :: in6_addr and n assume n: "n \<le> ao_width v6_ops"
  then have "msb_bits 128 (inet6applymask a n) ! i \<Longrightarrow> msb_bits 128 a ! i" if "i < 128" for i
    using applym_nth_imp[of i 128 "msb_bits 128 a" n] that
    by (simp only: v6.bits_applym v6_ops_simps length_msb_bits)
  then show "ao_applymask v6_ops a n \<le> a"
    using msb_bits_le[of "inet6applymask a n" a] by (simp del: nth_msb_bits)
qed (simp add: v6.addr_family_axioms)

section \<open>Prefix-sets\<close>

text \<open>An item of a prefix-set as the parser makes it, with a masked address.\<close>

definition psi_ok :: "prefixset_item \<Rightarrow> bool" where
  "psi_ok e = (psi_len e \<le> psi_len_min e \<and> psi_len_min e \<le> psi_len_max e \<and>
     (aid (psi_addr e) = AID_INET \<and> psi_len_max e \<le> 32 \<and>
        inet4applymask (v4 (psi_addr e)) (psi_len e) = v4 (psi_addr e) \<or>
      aid (psi_addr e) = AID_INET6 \<and> psi_len_max e \<le> 128 \<and>
        inet6applymask (v6 (psi_addr e)) (psi_len e) = v6 (psi_addr e)))"

text \<open>The entries of one family that get a node.\<close>

definition psi_entries ::
  "u8 \<Rightarrow> (bgpd_addr \<Rightarrow> 'a) \<Rightarrow> prefixset_item list \<Rightarrow> (('a \<times> nat) \<times> nat \<times> nat) list" where
  "psi_entries af sel es =
     map (\<lambda>e. ((sel (psi_addr e), psi_len e), (if psi_len_min e = 0 then 1 else psi_len_min e), psi_len_max e))
       (filter (\<lambda>e. aid (psi_addr e) = af \<and> psi_len_max e \<noteq> 0) es)"

lemma psi_entries_snoc:
  "psi_entries af sel (es @ [e]) = psi_entries af sel es @
     (if aid (psi_addr e) = af \<and> psi_len_max e \<noteq> 0
      then [((sel (psi_addr e), psi_len e), (if psi_len_min e = 0 then 1 else psi_len_min e), psi_len_max e)] else [])"
  by (simp add: psi_entries_def)

lemma set_psi_entries:
  "((a, l), mn, mx) \<in> set (psi_entries af sel es) \<longleftrightarrow>
     (\<exists>e\<in>set es. aid (psi_addr e) = af \<and> mx \<noteq> 0 \<and> a = sel (psi_addr e) \<and> l = psi_len e \<and>
        mn = (if psi_len_min e = 0 then 1 else psi_len_min e) \<and> mx = psi_len_max e)"
  by (auto simp: psi_entries_def image_iff)

lemma AID_neq [simp]: "AID_INET \<noteq> AID_INET6" "AID_INET6 \<noteq> AID_INET"
  by (simp_all add: AID_INET_def AID_INET6_def)

lemma prefixset_cmp_not_inside:
  assumes "prefixset_cmp a b = Inr (-1)" and "aid (psi_addr a) = aid (psi_addr b)"
  shows "aid (psi_addr b) = AID_INET \<Longrightarrow> psi_len b \<le> 32 \<Longrightarrow>
      \<not> inside v4_ops (v4 (psi_addr b)) (psi_len b) (v4 (psi_addr a), psi_len a)"
    and "aid (psi_addr b) = AID_INET6 \<Longrightarrow> psi_len b \<le> 128 \<Longrightarrow>
      \<not> inside v6_ops (v6 (psi_addr b)) (psi_len b) (v6 (psi_addr a), psi_len a)"
  using assms
  by (intro v4t.lex_not_inside v6t.lex_not_inside;
      auto simp: prefixset_cmp_def memcmp_addr_def not_less split: if_splits)+

lemma trie_add_v4_ca:
  "(\<And>n. ca n) \<Longrightarrow> \<exists>m' c. trie_add_v4 ca m th p n =
     Some (m', th\<lparr>root_v4 := trie_ins v4_ops (inet4applymask p n) n (root_v4 th), v4_cnt := c\<rparr>, inet4applymask p n)"
  by (auto simp: trie_add_v4_def trie_add_node_def Let_def split: prod.splits)

lemma trie_add_v6_ca:
  "(\<And>n. ca n) \<Longrightarrow> \<exists>m' c. trie_add_v6 ca m th p n =
     Some (m', th\<lparr>root_v6 := trie_ins v6_ops (inet6applymask p n) n (root_v6 th), v6_cnt := c\<rparr>, inet6applymask p n)"
  by (auto simp: trie_add_v6_def trie_add_node_def Let_def split: prod.splits)

text \<open>What a head that holds a list of items looks like.\<close>

definition holds_items :: "trie_head \<Rightarrow> prefixset_item list \<Rightarrow> bool" where
  "holds_items th es = (v4t.pset_rep (root_v4 th) (psi_entries AID_INET v4 es) \<and>
     v6t.pset_rep (root_v6 th) (psi_entries AID_INET6 v6 es) \<and>
     match_default_v4 th = (\<exists>e\<in>set es. aid (psi_addr e) = AID_INET \<and> psi_len_min e = 0) \<and>
     match_default_v6 th = (\<exists>e\<in>set es. aid (psi_addr e) = AID_INET6 \<and> psi_len_min e = 0))"

lemma trie_add_holds:
  assumes h: "holds_items th es" and ok: "psi_ok e" and ca: "\<And>n. ca n"
    and srt: "\<forall>a\<in>set es. prefixset_cmp a e = Inr (-1)"
  shows "\<exists>m' th'. trie_add ca m th (psi_addr e) (psi_len e) (psi_len_min e) (psi_len_max e) = (m', th', True) \<and>
    holds_items th' (es @ [e])"
proof -
  let ?mn = "if psi_len_min e = 0 then 1 else psi_len_min e" and ?mx = "psi_len_max e"
  have l: "psi_len e \<le> psi_len_min e" "psi_len_min e \<le> ?mx" using ok by (auto simp: psi_ok_def)
  consider (i4) "aid (psi_addr e) = AID_INET" "?mx \<le> 32" "inet4applymask (v4 (psi_addr e)) (psi_len e) = v4 (psi_addr e)"
    | (i6) "aid (psi_addr e) = AID_INET6" "?mx \<le> 128" "inet6applymask (v6 (psi_addr e)) (psi_len e) = v6 (psi_addr e)"
    using ok by (auto simp: psi_ok_def)
  then show ?thesis
  proof cases
    case i4
    let ?p = "v4 (psi_addr e)" and ?th = "if psi_len_min e = 0 then th\<lparr>match_default_v4 := True\<rparr> else th"
    have ni: "\<forall>x\<in>set (psi_entries AID_INET v4 es). \<not> inside v4_ops ?p (psi_len e) (fst x)"
      using prefixset_cmp_not_inside(1)[of _ e] srt i4 l by (auto simp: psi_entries_def)
    have new: "?mx \<noteq> 0 \<Longrightarrow> v4t.pset_rep (trie_modify v4_ops (\<lambda>(k, s). (set_range v4_ops ?mn ?mx k, s)) ?p (psi_len e)
        (trie_ins v4_ops ?p (psi_len e) (root_v4 th))) (psi_entries AID_INET v4 (es @ [e]))"
      using v4t.pset_rep_add[of "root_v4 th" "psi_entries AID_INET v4 es" ?p "psi_len e" ?mn ?mx] h i4 l ni
      by (simp add: holds_items_def psi_entries_snoc)
    show ?thesis
    proof (cases "?mx = 0")
      case True
      then show ?thesis using i4 l h by (auto simp: trie_add_def holds_items_def psi_entries_snoc)
    next
      case False
      obtain m' c where "trie_add_v4 ca m ?th ?p (psi_len e) =
          Some (m', ?th\<lparr>root_v4 := trie_ins v4_ops ?p (psi_len e) (root_v4 ?th), v4_cnt := c\<rparr>, ?p)"
        using trie_add_v4_ca[where ca = ca, OF ca] i4(3) by metis
      then show ?thesis
        using i4 l h False new by (auto simp: trie_add_def holds_items_def psi_entries_snoc not_less split: if_splits)
    qed
  next
    case i6
    let ?p = "v6 (psi_addr e)" and ?th = "if psi_len_min e = 0 then th\<lparr>match_default_v6 := True\<rparr> else th"
    have ni: "\<forall>x\<in>set (psi_entries AID_INET6 v6 es). \<not> inside v6_ops ?p (psi_len e) (fst x)"
      using prefixset_cmp_not_inside(2)[of _ e] srt i6 l by (auto simp: psi_entries_def)
    have new: "?mx \<noteq> 0 \<Longrightarrow> v6t.pset_rep (trie_modify v6_ops (\<lambda>(k, s). (set_range v6_ops ?mn ?mx k, s)) ?p (psi_len e)
        (trie_ins v6_ops ?p (psi_len e) (root_v6 th))) (psi_entries AID_INET6 v6 (es @ [e]))"
      using v6t.pset_rep_add[of "root_v6 th" "psi_entries AID_INET6 v6 es" ?p "psi_len e" ?mn ?mx] h i6 l ni
      by (simp add: holds_items_def psi_entries_snoc)
    show ?thesis
    proof (cases "?mx = 0")
      case True
      then show ?thesis using i6 l h by (auto simp: trie_add_def holds_items_def psi_entries_snoc)
    next
      case False
      obtain m' c where "trie_add_v6 ca m ?th ?p (psi_len e) =
          Some (m', ?th\<lparr>root_v6 := trie_ins v6_ops ?p (psi_len e) (root_v6 ?th), v6_cnt := c\<rparr>, ?p)"
        using trie_add_v6_ca[where ca = ca, OF ca] i6(3) by metis
      then show ?thesis
        using i6 l h False new by (auto simp: trie_add_def holds_items_def psi_entries_snoc not_less split: if_splits)
    qed
  qed
qed

lemma prefix_set_items_holds:
  assumes "sorted_wrt (\<lambda>a b. prefixset_cmp a b = Inr (-1)) es" and "\<forall>e\<in>set es. psi_ok e" and "\<And>n. ca n"
  shows "holds_items (snd (prefix_set_items ca m es)) es"
  using assms(1,2)
proof (induction es rule: rev_induct)
  case Nil
  then show ?case
    by (simp add: prefix_set_items_def holds_items_def trie_empty_def psi_entries_def
        v4t.pset_rep_empty v6t.pset_rep_empty)
next
  case (snoc e es)
  obtain m1 th1 where b: "prefix_set_items ca m es = (m1, th1)" by fastforce
  then have "holds_items th1 es" using snoc by (simp add: sorted_wrt_append)
  then obtain m' th' where
    "trie_add ca m1 th1 (psi_addr e) (psi_len e) (psi_len_min e) (psi_len_max e) = (m', th', True)"
    and "holds_items th' (es @ [e])"
    using trie_add_holds[of th1 es e ca m1] snoc.prems assms(3) by (auto simp: sorted_wrt_append)
  then show ?case using b by (simp add: prefix_set_items_def)
qed

text \<open>What the lookup should decide: a search through the items.\<close>

definition item_covers :: "bgpd_addr \<Rightarrow> nat \<Rightarrow> prefixset_item \<Rightarrow> bool" where
  "item_covers q n e = (aid (psi_addr e) = aid q \<and> psi_len e \<le> n \<and>
     (if aid q = AID_INET then v4 (psi_addr e) = inet4applymask (v4 q) (psi_len e)
      else v6 (psi_addr e) = inet6applymask (v6 q) (psi_len e)))"

definition items_match :: "prefixset_item list \<Rightarrow> bgpd_addr \<Rightarrow> nat \<Rightarrow> bool \<Rightarrow> bool" where
  "items_match es q n orlonger =
     (if n = 0 then list_ex (\<lambda>e. aid (psi_addr e) = aid q \<and> psi_len_min e = 0) es
      else list_ex (\<lambda>e. item_covers q n e \<and>
             (orlonger \<and> psi_len_max e \<noteq> 0 \<or> psi_len_min e \<le> n \<and> n \<le> psi_len_max e)) es)"

lemma entries_search:
  assumes "n \<noteq> 0"
  shows "(\<exists>pl mn mx. ((f pl, pl), mn, mx) \<in> set (psi_entries af sel es) \<and> pl \<le> n \<and> (orl \<or> mn \<le> n \<and> n \<le> mx)) \<longleftrightarrow>
    (\<exists>e\<in>set es. aid (psi_addr e) = af \<and> psi_len e \<le> n \<and> sel (psi_addr e) = f (psi_len e) \<and>
      (orl \<and> psi_len_max e \<noteq> 0 \<or> psi_len_min e \<le> n \<and> n \<le> psi_len_max e))" (is "?L \<longleftrightarrow> ?R")
proof
  assume ?L
  then obtain e where "e \<in> set es" "aid (psi_addr e) = af" "psi_len e \<le> n" "sel (psi_addr e) = f (psi_len e)"
    "psi_len_max e \<noteq> 0" "orl \<or> (if psi_len_min e = 0 then 1 else psi_len_min e) \<le> n \<and> n \<le> psi_len_max e"
    unfolding set_psi_entries by auto
  then show ?R by (intro bexI[of _ e]) (auto split: if_splits)
next
  assume ?R
  then obtain e where e: "e \<in> set es" "aid (psi_addr e) = af" "psi_len e \<le> n" "sel (psi_addr e) = f (psi_len e)"
    and r: "orl \<and> psi_len_max e \<noteq> 0 \<or> psi_len_min e \<le> n \<and> n \<le> psi_len_max e" by blast
  have "((f (psi_len e), psi_len e), (if psi_len_min e = 0 then 1 else psi_len_min e), psi_len_max e)
      \<in> set (psi_entries af sel es)"
    using e r assms unfolding set_psi_entries by auto
  moreover have "orl \<or> (if psi_len_min e = 0 then 1 else psi_len_min e) \<le> n \<and> n \<le> psi_len_max e"
    using r assms by auto
  ultimately show ?L using e(3) by blast
qed

lemma holds_items_match:
  assumes h: "holds_items th es" and q: "aid q = AID_INET \<and> n \<le> 32 \<or> aid q = AID_INET6 \<and> n \<le> 128"
  shows "trie_match th q n orlonger = items_match es q n orlonger"
proof (cases "n = 0")
  case True
  then show ?thesis using q h
    by (auto simp: trie_match_def trie_match_v4_def trie_match_v6_def items_match_def holds_items_def list_ex_iff)
next
  case False
  have "aid q = AID_INET \<Longrightarrow> n \<le> 32 \<Longrightarrow> ?thesis"
    using h False v4t.pset_match[of "root_v4 th" "psi_entries AID_INET v4 es" n "v4 q" orlonger]
    unfolding entries_search[OF False]
    by (auto simp: trie_match_def trie_match_v4_def items_match_def holds_items_def list_ex_iff item_covers_def)
  moreover have "aid q = AID_INET6 \<Longrightarrow> n \<le> 128 \<Longrightarrow> ?thesis"
    using h False v6t.pset_match[of "root_v6 th" "psi_entries AID_INET6 v6 es" n "v6 q" orlonger]
    unfolding entries_search[OF False]
    by (auto simp: trie_match_def trie_match_v6_def items_match_def holds_items_def list_ex_iff item_covers_def)
  ultimately show ?thesis using q by blast
qed

section \<open>ROA sets\<close>

definition roa_ok :: "roa \<Rightarrow> bool" where
  "roa_ok r = (roa_aid r = AID_INET \<and> roa_prefixlen r \<le> 32 \<and>
       inet4applymask (roa_inet r) (roa_prefixlen r) = roa_inet r \<or>
     roa_aid r = AID_INET6 \<and> roa_prefixlen r \<le> 128 \<and>
       inet6applymask (roa_inet6 r) (roa_prefixlen r) = roa_inet6 r)"

definition roa_entries :: "u8 \<Rightarrow> (roa \<Rightarrow> 'a) \<Rightarrow> roa list \<Rightarrow> (('a \<times> nat) \<times> u32 \<times> nat) list" where
  "roa_entries af sel rs = map (\<lambda>r. ((sel r, roa_prefixlen r), roa_asnum r, unat (roa_maxlen r)))
     (filter (\<lambda>r. roa_aid r = af) rs)"

lemma roa_entries_snoc:
  "roa_entries af sel (rs @ [r]) = roa_entries af sel rs @
     (if roa_aid r = af then [((sel r, roa_prefixlen r), roa_asnum r, unat (roa_maxlen r))] else [])"
  by (simp add: roa_entries_def)

lemma length_roa_entries: "length (roa_entries af sel rs) \<le> length rs"
  by (simp add: roa_entries_def)

lemma roa_cmp_not_inside:
  assumes "roa_cmp a b = Inr (-1)" and "roa_aid a = roa_aid b"
  shows "roa_aid b = AID_INET \<Longrightarrow> roa_prefixlen b \<le> 32 \<Longrightarrow>
      \<not> inside v4_ops (roa_inet b) (roa_prefixlen b) (roa_inet a, roa_prefixlen a)"
    and "roa_aid b = AID_INET6 \<Longrightarrow> roa_prefixlen b \<le> 128 \<Longrightarrow>
      \<not> inside v6_ops (roa_inet6 b) (roa_prefixlen b) (roa_inet6 a, roa_prefixlen a)"
  using assms
  by (intro v4t.lex_not_inside v6t.lex_not_inside;
      auto simp: roa_cmp_def memcmp_addr_def not_less split: if_splits)+

definition holds_roas :: "trie_head \<Rightarrow> roa list \<Rightarrow> bool" where
  "holds_roas th rs = (v4t.roa_rep (root_v4 th) (roa_entries AID_INET roa_inet rs) \<and>
     v6t.roa_rep (root_v6 th) (roa_entries AID_INET6 roa_inet6 rs))"

lemma trie_roa_add_holds:
  assumes h: "holds_roas th rs" and ok: "roa_ok r" and ca: "\<And>n. ca n"
    and srt: "\<forall>a\<in>set rs. roa_cmp a r = Inr (-1)" and n: "length rs + 1 < 2 ^ 31"
  shows "\<exists>m' th'. trie_roa_add ca m th r = (m', th', True) \<and> holds_roas th' (rs @ [r])"
proof -
  let ?l = "roa_prefixlen r"
  note n4 = le_less_trans[OF add_right_mono[OF length_roa_entries] n, of AID_INET roa_inet]
  note n6 = le_less_trans[OF add_right_mono[OF length_roa_entries] n, of AID_INET6 roa_inet6]
  consider (i4) "roa_aid r = AID_INET" "?l \<le> 32" "inet4applymask (roa_inet r) ?l = roa_inet r"
    | (i6) "roa_aid r = AID_INET6" "?l \<le> 128" "inet6applymask (roa_inet6 r) ?l = roa_inet6 r"
    using ok by (auto simp: roa_ok_def)
  then show ?thesis
  proof cases
    case i4
    have ni: "\<forall>x\<in>set (roa_entries AID_INET roa_inet rs). \<not> inside v4_ops (roa_inet r) ?l (fst x)"
      using roa_cmp_not_inside(1)[of _ r] srt i4 by (auto simp: roa_entries_def)
    obtain m1 c where a: "trie_add_v4 ca m th (roa_inet r) ?l =
        Some (m1, th\<lparr>root_v4 := trie_ins v4_ops (roa_inet r) ?l (root_v4 th), v4_cnt := c\<rparr>, roa_inet r)"
      using trie_add_v4_ca[where ca = ca, OF ca] i4(3) by metis
    obtain m' t' where b: "roa_node_add v4_ops ca m1 (trie_ins v4_ops (roa_inet r) ?l (root_v4 th))
        (roa_inet r) ?l (roa_asnum r) (roa_maxlen r) = (m', t', True)"
      and "v4t.roa_rep t' (roa_entries AID_INET roa_inet (rs @ [r]))"
      using v4t.roa_rep_add[of "root_v4 th" "roa_entries AID_INET roa_inet rs" "roa_inet r" ?l ca m1
        "roa_asnum r" "roa_maxlen r"] h i4 ni n4 ca unfolding holds_roas_def roa_entries_snoc by auto
    then show ?thesis using i4 a h by (auto simp: trie_roa_add_def holds_roas_def roa_entries_snoc)
  next
    case i6
    have ni: "\<forall>x\<in>set (roa_entries AID_INET6 roa_inet6 rs). \<not> inside v6_ops (roa_inet6 r) ?l (fst x)"
      using roa_cmp_not_inside(2)[of _ r] srt i6 by (auto simp: roa_entries_def)
    obtain m1 c where a: "trie_add_v6 ca m th (roa_inet6 r) ?l =
        Some (m1, th\<lparr>root_v6 := trie_ins v6_ops (roa_inet6 r) ?l (root_v6 th), v6_cnt := c\<rparr>, roa_inet6 r)"
      using trie_add_v6_ca[where ca = ca, OF ca] i6(3) by metis
    obtain m' t' where b: "roa_node_add v6_ops ca m1 (trie_ins v6_ops (roa_inet6 r) ?l (root_v6 th))
        (roa_inet6 r) ?l (roa_asnum r) (roa_maxlen r) = (m', t', True)"
      and "v6t.roa_rep t' (roa_entries AID_INET6 roa_inet6 (rs @ [r]))"
      using v6t.roa_rep_add[of "root_v6 th" "roa_entries AID_INET6 roa_inet6 rs" "roa_inet6 r" ?l ca m1
        "roa_asnum r" "roa_maxlen r"] h i6 ni n6 ca unfolding holds_roas_def roa_entries_snoc by auto
    then show ?thesis using i6 a h by (auto simp: trie_roa_add_def holds_roas_def roa_entries_snoc)
  qed
qed

lemma roa_items_holds:
  assumes "sorted_wrt (\<lambda>a b. roa_cmp a b = Inr (-1)) rs" and "\<forall>r\<in>set rs. roa_ok r" and "\<And>n. ca n"
    and "length rs < 2 ^ 31"
  shows "holds_roas (snd (roa_items ca m rs)) rs"
  using assms(1,2,4)
proof (induction rs rule: rev_induct)
  case Nil
  then show ?case
    by (simp add: roa_items_def holds_roas_def trie_empty_def roa_entries_def v4t.roa_rep_empty v6t.roa_rep_empty)
next
  case (snoc r rs)
  obtain m1 th1 where b: "roa_items ca m rs = (m1, th1)" by fastforce
  then have "holds_roas th1 rs" using snoc by (simp add: sorted_wrt_append)
  then obtain m' th' where "trie_roa_add ca m1 th1 r = (m', th', True)" and "holds_roas th' (rs @ [r])"
    using trie_roa_add_holds[of th1 rs r ca m1] snoc.prems assms(3) by (auto simp: sorted_wrt_append)
  then show ?case using b by (simp add: roa_items_def)
qed

text \<open>Origin validation as RFC 6811 has it, over the list of ROAs.\<close>

definition roa_covers_route :: "bgpd_addr \<Rightarrow> nat \<Rightarrow> roa \<Rightarrow> bool" where
  "roa_covers_route q n r = (roa_aid r = aid q \<and> roa_prefixlen r \<le> n \<and>
     (if aid q = AID_INET then roa_inet r = inet4applymask (v4 q) (roa_prefixlen r)
      else roa_inet6 r = inet6applymask (v6 q) (roa_prefixlen r)))"

definition origin_validation :: "roa list \<Rightarrow> bgpd_addr \<Rightarrow> nat \<Rightarrow> u32 \<Rightarrow> roa_validity" where
  "origin_validation rs q n as =
     (let covering = filter (roa_covers_route q n) rs in
      if as \<noteq> 0 \<and> list_ex (\<lambda>r. roa_asnum r = as \<and> n \<le> max (roa_prefixlen r) (unat (roa_maxlen r))) covering
      then ROA_VALID else if covering \<noteq> [] then ROA_INVALID else ROA_NOTFOUND)"

lemma rfc6811_entries:
  "rfc6811 ops (roa_entries af sel rs) x n as =
     (let covering = filter (\<lambda>r. roa_aid r = af \<and> roa_covers ops x n (sel r, roa_prefixlen r)) rs in
      if as \<noteq> 0 \<and> list_ex (\<lambda>r. roa_asnum r = as \<and> n \<le> max (roa_prefixlen r) (unat (roa_maxlen r))) covering
      then ROA_VALID else if covering \<noteq> [] then ROA_INVALID else ROA_NOTFOUND)"
  by (auto simp: rfc6811_def roa_entries_def Let_def list_ex_iff filter_empty_conv)

lemma holds_roas_check:
  assumes h: "holds_roas th rs" and q: "aid q = AID_INET \<and> n \<le> 32 \<or> aid q = AID_INET6 \<and> n \<le> 128"
  shows "trie_roa_check th q n as = origin_validation rs q n as"
proof -
  have "aid q = AID_INET \<Longrightarrow> n \<le> 32 \<Longrightarrow> ?thesis"
  proof -
    assume a: "aid q = AID_INET" "n \<le> 32"
    then have "trie_roa_check th q n as = rfc6811 v4_ops (roa_entries AID_INET roa_inet rs) (v4 q) n as"
      using h v4t.roa_check_rfc6811 by (simp add: trie_roa_check_def trie_roa_check_v4_def holds_roas_def)
    moreover have "(\<lambda>r. roa_aid r = AID_INET \<and> roa_covers v4_ops (v4 q) n (roa_inet r, roa_prefixlen r)) =
        roa_covers_route q n" using a by (auto simp: fun_eq_iff roa_covers_def roa_covers_route_def)
    ultimately show ?thesis by (simp add: rfc6811_entries origin_validation_def)
  qed
  moreover have "aid q = AID_INET6 \<Longrightarrow> n \<le> 128 \<Longrightarrow> ?thesis"
  proof -
    assume a: "aid q = AID_INET6" "n \<le> 128"
    then have "trie_roa_check th q n as = rfc6811 v6_ops (roa_entries AID_INET6 roa_inet6 rs) (v6 q) n as"
      using h v6t.roa_check_rfc6811 by (simp add: trie_roa_check_def trie_roa_check_v6_def holds_roas_def)
    moreover have "(\<lambda>r. roa_aid r = AID_INET6 \<and> roa_covers v6_ops (v6 q) n (roa_inet6 r, roa_prefixlen r)) =
        roa_covers_route q n" using a by (auto simp: fun_eq_iff roa_covers_def roa_covers_route_def)
    ultimately show ?thesis by (simp add: rfc6811_entries origin_validation_def)
  qed
  ultimately show ?thesis using q by blast
qed

section \<open>Properties\<close>


definition item4 :: "in_addr \<Rightarrow> nat \<Rightarrow> nat \<Rightarrow> nat \<Rightarrow> prefixset_item" where
  "item4 a n mn mx = \<lparr>psi_addr = \<lparr>v4 = a, v6 = 0, rd8 = 0, scope_id = 0, aid = AID_INET, labelstack = []\<rparr>,
     psi_len = n, psi_len_min = mn, psi_len_max = mx\<rparr>"

definition roa4 :: "in_addr \<Rightarrow> nat \<Rightarrow> u8 \<Rightarrow> u32 \<Rightarrow> roa" where
  "roa4 a n mx as = \<lparr>roa_aid = AID_INET, roa_prefixlen = n, roa_maxlen = mx, roa_asnum = as,
     roa_expires = 0, roa_inet = a, roa_inet6 = 0\<rparr>"

definition mem0 :: trie_mem where
  "mem0 = \<lparr>pset_cnt = 0, pset_size = 0, tm_aset = \<lparr>aset_cnt = 0, aset_size = 0, aset_nmemb = 0\<rparr>\<rparr>"





end
