(* ===== verification/Decide_Order.thy ===== *)
theory Decide_Order
  imports Rde_Decide "HOL-Library.Product_Lexorder"
begin

text \<open>
  The order the decision process keeps, without the program: paths have a key, the lexicographic
  order of all steps but the MED, and some paths dominate others of the same level by their MED.
  The preferred path is the one with the least key among those nothing dominates, and the canonical
  list repeats this choice. Comparing two paths is not transitive, so the list is not
  sorted by the comparison; it is nevertheless determined by the set of paths.
\<close>

locale med_order =
  fixes key :: "'p \<Rightarrow> 'k::linorder" and lv :: "'p \<Rightarrow> 'l::linorder" and dm :: "'p \<Rightarrow> 'p \<Rightarrow> bool"
  assumes key_lv: "key a \<le> key b \<Longrightarrow> lv a \<le> lv b"
    and dm_lv: "dm a b \<Longrightarrow> lv a = lv b"
    and dm_irrefl: "\<not> dm a a"
    and dm_trans: "dm a b \<Longrightarrow> dm b c \<Longrightarrow> dm a c"
begin

definition gt :: "'p \<Rightarrow> 'p \<Rightarrow> bool" where
  "gt a b = (dm a b \<or> (\<not> dm b a \<and> key a < key b))"

definition undominated :: "'p set \<Rightarrow> 'p \<Rightarrow> bool" where
  "undominated S x = (x \<in> S \<and> (\<forall>y\<in>S. \<not> dm y x))"

text \<open>The preferred path of a set.\<close>

definition best_of :: "'p set \<Rightarrow> 'p \<Rightarrow> bool" where
  "best_of S x = (undominated S x \<and> (\<forall>y. undominated S y \<longrightarrow> key x \<le> key y))"

fun canon :: "'p list \<Rightarrow> bool" where
  "canon [] = True"
| "canon (x # xs) = (best_of (set (x # xs)) x \<and> canon xs)"

fun ins :: "'p \<Rightarrow> 'p list \<Rightarrow> 'p list" where
  "ins new [] = [new]"
| "ins new (x # xs) = (if (\<exists>y\<in>set (x # xs). dm y new) \<or> \<not> key new < key x then x # ins new xs else new # x # xs)"

lemma set_ins [simp]: "set (ins new xs) = insert new (set xs)"
  by (induction xs) auto

lemma mset_ins [simp]: "mset (ins new xs) = add_mset new (mset xs)"
  by (induction xs) auto

lemma best_of_unique:
  assumes "inj_on key S" and "best_of S x" and "best_of S y"
  shows "x = y"
  using assms unfolding best_of_def undominated_def by (metis antisym inj_onD)

lemma canon_unique:
  "canon xs \<Longrightarrow> canon ys \<Longrightarrow> distinct xs \<Longrightarrow> distinct ys \<Longrightarrow> set xs = set ys \<Longrightarrow> inj_on key (set xs) \<Longrightarrow> xs = ys"
proof (induction xs arbitrary: ys)
  case Nil
  then show ?case by simp
next
  case (Cons x xs)
  then obtain y ys' where ys: "ys = y # ys'" by (cases ys) auto
  have "best_of (set (x # xs)) y" using Cons.prems(2,5) ys by simp
  then have "x = y" using best_of_unique[OF Cons.prems(6)] Cons.prems(1) by simp
  moreover have "set xs = set ys'" using Cons.prems(3-5) ys \<open>x = y\<close> by auto
  ultimately show ?case using Cons ys by (simp add: inj_on_insert)
qed

text \<open>Levels ascend along a canonical list, and nothing is dominated by a later path.\<close>

lemma canon_not_later: "canon (xs @ ys) \<Longrightarrow> x \<in> set xs \<Longrightarrow> y \<in> set ys \<Longrightarrow> \<not> dm y x"
  by (induction xs) (auto simp: best_of_def undominated_def)

lemma undominated_above:
  assumes "finite S" and "y \<in> S"
  shows "\<exists>z. undominated S z \<and> (z = y \<or> dm z y)"
  using assms
proof (induction "card {z \<in> S. dm z y}" arbitrary: y rule: less_induct)
  case less
  show ?case
  proof (cases "\<exists>z\<in>S. dm z y")
    case False
    then show ?thesis using less.prems by (auto simp: undominated_def)
  next
    case True
    then obtain z where z: "z \<in> S" "dm z y" by blast
    have "{w \<in> S. dm w z} \<subset> {w \<in> S. dm w y}" using z dm_trans dm_irrefl by blast
    then have "card {w \<in> S. dm w z} < card {w \<in> S. dm w y}"
      using less.prems(1) by (intro psubset_card_mono) auto
    then show ?thesis using less.hyps[OF _ less.prems(1) z(1)] z(2) dm_trans by blast
  qed
qed

lemma canon_lv: "canon (x # xs) \<Longrightarrow> y \<in> set xs \<Longrightarrow> lv x \<le> lv y"
proof -
  assume c: "canon (x # xs)" and y: "y \<in> set xs"
  obtain z where z: "undominated (set (x # xs)) z" "z = y \<or> dm z y"
    using undominated_above[of "set (x # xs)" y] y by auto
  then have "key x \<le> key z" using c by (simp add: best_of_def)
  then show ?thesis using z(2) dm_lv key_lv by metis
qed

text \<open>Taking out a set of paths together with all they dominate.\<close>

lemma canon_filter:
  assumes "\<And>x y. x \<in> R \<Longrightarrow> dm x y \<Longrightarrow> y \<in> R"
  shows "canon xs \<Longrightarrow> canon (filter (\<lambda>x. x \<notin> R) xs)"
proof (induction xs)
  case (Cons x xs)
  have b: "best_of (set (x # xs)) x" and "canon xs" using Cons.prems by auto
  have u: "undominated (set (filter (\<lambda>x. x \<notin> R) (x # xs))) y \<Longrightarrow> undominated (set (x # xs)) y" for y
    using assms unfolding undominated_def set_filter by blast
  have "x \<notin> R \<Longrightarrow> best_of (set (filter (\<lambda>x. x \<notin> R) (x # xs))) x"
    unfolding best_of_def
  proof
    assume r: "x \<notin> R"
    show "undominated (set (filter (\<lambda>x. x \<notin> R) (x # xs))) x"
      using b r unfolding best_of_def undominated_def by auto
    show "\<forall>y. undominated (set (filter (\<lambda>x. x \<notin> R) (x # xs))) y \<longrightarrow> key x \<le> key y"
      using b u unfolding best_of_def by blast
  qed
  then show ?case using Cons.IH[OF \<open>canon xs\<close>] by simp
qed simp

lemma canon_suffix: "canon (xs @ ys) \<Longrightarrow> canon ys"
  by (induction xs) auto

lemma ins_canon:
  "canon xs \<Longrightarrow> \<forall>x\<in>set xs. \<not> dm new x \<Longrightarrow> canon (ins new xs)"
proof (induction xs)
  case Nil
  then show ?case by (auto simp: best_of_def undominated_def dm_irrefl)
next
  case (Cons x xs)
  have b: "undominated (set (x # xs)) x" "\<And>y. undominated (set (x # xs)) y \<Longrightarrow> key x \<le> key y" and c: "canon xs"
    using Cons.prems(1) by (auto simp: best_of_def)
  have old: "undominated (insert new (set (x # xs))) y \<Longrightarrow> y \<noteq> new \<Longrightarrow> undominated (set (x # xs)) y" for y
    by (auto simp: undominated_def)
  show ?case
  proof (cases "(\<exists>y\<in>set (x # xs). dm y new) \<or> \<not> key new < key x")
    case True
    have "undominated (insert new (set (x # xs))) x" using b(1) Cons.prems(2) by (auto simp: undominated_def)
    moreover have "key x \<le> key y" if u: "undominated (insert new (set (x # xs))) y" for y
    proof (cases "y = new")
      case True
      then show ?thesis using \<open>_ \<or> \<not> key new < key x\<close> u by (auto simp: undominated_def)
    next
      case False
      then show ?thesis using b(2) old[OF u] by blast
    qed
    ultimately have "best_of (set (x # ins new xs)) x" by (simp add: best_of_def insert_commute)
    then show ?thesis using True Cons.IH[OF c] Cons.prems(2) by simp
  next
    case False
    then have "undominated (insert new (set (x # xs))) new" by (auto simp: undominated_def dm_irrefl)
    moreover have "key new \<le> key y" if u: "undominated (insert new (set (x # xs))) y" for y
      using b(2)[OF old[OF u]] False by (cases "y = new") auto
    ultimately have "best_of (set (new # x # xs)) new" by (simp add: best_of_def)
    then show ?thesis using False Cons.prems(1) by simp
  qed
qed

text \<open>The position of the insertion.\<close>

lemma ins_split:
  assumes "\<And>A1 a A2. A = A1 @ a # A2 \<Longrightarrow> (\<exists>y\<in>set (a # A2). dm y new) \<or> \<not> key new < key a"
    and "\<And>b. b \<in> set B \<Longrightarrow> \<not> dm b new" and "\<And>b B'. B = b # B' \<Longrightarrow> key new < key b"
  shows "ins new (A @ B) = A @ new # B"
  using assms(1)
proof (induction A)
  case Nil
  then show ?case using assms(2,3) by (cases B) auto
next
  case (Cons a A)
  have "ins new (A @ B) = A @ new # B" using Cons.prems by (intro Cons.IH) (metis append_Cons)
  moreover have "(\<exists>y\<in>set (a # A). dm y new) \<or> \<not> key new < key a" using Cons.prems[of "[]" a A] by simp
  ultimately show ?case by auto
qed

end

section \<open>The keys of paths\<close>

definition path_asp :: "prefix \<Rightarrow> rde_aspath" where
  "path_asp p = the (p_aspath p)"

definition path_lv :: "prefix \<Rightarrow> int \<times> int \<times> int" where
  "path_lv p = (- uint (lpref (path_asp p)), uint (ap_ascnt (asp_aspath (path_asp p))), uint (origin (path_asp p)))"

definition unres :: "'a \<Rightarrow> 'a res \<Rightarrow> 'a" where
  "unres d r = (case r of Inl _ \<Rightarrow> d | Inr x \<Rightarrow> x)"

definition path_nb :: "decision_env \<Rightarrow> prefix \<Rightarrow> u32" where
  "path_nb env p = unres 0 (aspath_neighbor (env_local_as env) (asp_aspath (path_asp p)))"

definition addr_key :: "prefix \<Rightarrow> int \<times> int \<times> int" where
  "addr_key p = (let a = remote_addr (p_peer p) in
     (uint (aid a), if aid a = AID_INET then uint (v4 a) else uint (v6 a), uint (path_id p)))"

definition late_key :: "decision_env \<Rightarrow> prefix \<Rightarrow> int \<times> int \<times> int \<times> int \<times> int \<times> int \<times> int \<times> int" where
  "late_key env p = (- uint (ebgp (p_peer p)), - uint (weight (path_asp p)), if route_age env then lastchange p else 0,
     uint (unres 0 (cmp_bgpid env p (path_asp p))), int (unres 0 (cluster_cnt env (path_asp p))), addr_key p)"

definition path_med :: "prefix \<Rightarrow> int" where
  "path_med p = uint (med (path_asp p))"

text \<open>All steps in order; the MED is part of the key only when it is always compared.\<close>

definition path_key ::
  "decision_env \<Rightarrow> prefix \<Rightarrow> (int \<times> int \<times> int) \<times> int \<times> int \<times> int \<times> int \<times> int \<times> int \<times> int \<times> int \<times> int" where
  "path_key env p = (path_lv p, if med_always env then path_med p else 0, late_key env p)"

definition med_dom :: "decision_env \<Rightarrow> prefix \<Rightarrow> prefix \<Rightarrow> bool" where
  "med_dom env a b = (\<not> med_always env \<and> path_lv a = path_lv b \<and> path_nb env a = path_nb env b \<and> path_med a < path_med b)"

text \<open>
  What update parsing guarantees of a path the decision process sees: an AS path that can be read,
  an ORIGINATOR_ID of four bytes, and a peer whose ebgp flag is 0 or 1 and whose address is known.
\<close>

definition is_Inr :: "'a res \<Rightarrow> bool" where
  "is_Inr r = (case r of Inl _ \<Rightarrow> False | Inr _ \<Rightarrow> True)"

lemma is_InrD: "is_Inr r \<Longrightarrow> r = Inr (unres d r)"
  by (cases r) (auto simp: is_Inr_def unres_def)

definition path_ok :: "decision_env \<Rightarrow> prefix \<Rightarrow> bool" where
  "path_ok env p = (prefix_eligible p \<longrightarrow>
     is_Inr (aspath_neighbor (env_local_as env) (asp_aspath (path_asp p))) \<and>
     is_Inr (cmp_bgpid env p (path_asp p)) \<and> is_Inr (cluster_cnt env (path_asp p)) \<and>
     ebgp (p_peer p) \<le> 1 \<and> (aid (remote_addr (p_peer p)) = AID_INET \<or> aid (remote_addr (p_peer p)) = AID_INET6))"

lemma eligible_aspath: "prefix_eligible p \<Longrightarrow> p_aspath p = Some (path_asp p)"
  by (auto simp: prefix_eligible_def path_asp_def split: if_splits option.splits)

lemma lex_le_fst: "(a :: 'a::linorder, b :: 'b::linorder) \<le> (c, d) \<Longrightarrow> a \<le> c"
  by auto

interpretation dec: med_order "path_key env" path_lv "med_dom env" for env
proof
  fix a b c
  show "path_key env a \<le> path_key env b \<Longrightarrow> path_lv a \<le> path_lv b"
    unfolding path_key_def by (rule lex_le_fst)
qed (auto simp: med_dom_def)

text \<open>A step of the comparison: it decides a lexicographic order one component at a time.\<close>

definition decides :: "int res \<Rightarrow> 'k::linorder \<Rightarrow> 'k \<Rightarrow> bool" where
  "decides r k1 k2 = (\<exists>v. r = Inr v \<and> v \<noteq> 0 \<and> (v > 0 \<longleftrightarrow> k1 < k2))"

lemma lex_step:
  assumes "P \<longleftrightarrow> x < y" and "Q \<longleftrightarrow> y < x" and "rv > 0" and "rn < 0"
    and "x = y \<Longrightarrow> decides rest k1 k2"
  shows "decides (if P then Inr rv else if Q then Inr rn else rest) (x, k1) (y, k2)"
  using assms by (auto simp: decides_def not_less)

lemma last_step:
  assumes "P \<longleftrightarrow> x < y" and "Q \<longleftrightarrow> y < x" and "rv > 0" and "rn < 0" and "x \<noteq> y"
  shows "decides (if P then Inr rv else if Q then Inr rn else rest) x y"
  using assms by (auto simp: decides_def not_less)

lemma uint_eq_iff: "uint a = uint b \<longleftrightarrow> a = b"
  by (simp add: word_uint_eq_iff)

lemma lex_up:
  assumes "rv > 0" and "rn < 0" and "x = y \<Longrightarrow> decides rest k1 k2"
  shows "decides (if x < y then Inr rv else if y < x then Inr rn else rest) (uint x, k1) (uint y, k2)"
  using assms by (intro lex_step) (simp_all add: word_less_def uint_eq_iff)

lemma lex_down:
  assumes "rv > 0" and "rn < 0" and "x = y \<Longrightarrow> decides rest k1 k2"
  shows "decides (if y < x then Inr rv else if x < y then Inr rn else rest) (- uint x, k1) (- uint y, k2)"
  using assms by (intro lex_step) (simp_all add: word_less_def uint_eq_iff)

lemma decides_bind: "r1 = Inr x \<Longrightarrow> decides (f x) k1 k2 \<Longrightarrow> decides (res_bind r1 f) k1 k2"
  by simp

lemma lex_last:
  assumes "x \<noteq> y" and "rv > 0" and "rn < 0"
  shows "decides (if x < y then Inr rv else if y < x then Inr rn else rest) (uint x) (uint y)"
  using assms by (intro last_step) (simp_all add: word_less_def uint_eq_iff)

lemma cmp_addr_decides:
  assumes "addr_key a \<noteq> addr_key b" and "aid (remote_addr (p_peer a)) = AID_INET \<or> aid (remote_addr (p_peer a)) = AID_INET6"
  shows "decides (cmp_addr a b) (addr_key a) (addr_key b)"
proof -
  let ?a = "remote_addr (p_peer a)" and ?b = "remote_addr (p_peer b)"
  let ?last = "if path_id a < path_id b then Inr 4 else if path_id b < path_id a then Inr (- 4) else Inl Fatal"
  let ?rest = "if (if aid ?a = AID_INET then v4 ?a < v4 ?b else v6 ?a < v6 ?b) then Inr 4
      else if (if aid ?a = AID_INET then v4 ?b < v4 ?a else v6 ?b < v6 ?a) then Inr (- 4) else ?last"
  have l4: "decides ?last (uint (path_id a)) (uint (path_id b))" if "path_id a \<noteq> path_id b"
    using that by (rule lex_last) simp_all
  have rest: "decides ?rest (snd (addr_key a)) (snd (addr_key b))" if eq: "aid ?a = aid ?b"
  proof (cases "aid ?a = AID_INET")
    case True
    have "path_id a \<noteq> path_id b" if "v4 ?a = v4 ?b" using that assms(1) eq True by (auto simp: addr_key_def Let_def)
    then have "decides (if v4 ?a < v4 ?b then Inr 4 else if v4 ?b < v4 ?a then Inr (- 4) else ?last)
        (uint (v4 ?a), uint (path_id a)) (uint (v4 ?b), uint (path_id b))"
      by (intro lex_up l4) simp_all
    then show ?thesis using True eq by (simp only: addr_key_def Let_def snd_conv if_True refl)
  next
    case False
    have "path_id a \<noteq> path_id b" if "v6 ?a = v6 ?b" using that assms(1) eq False by (auto simp: addr_key_def Let_def)
    then have "decides (if v6 ?a < v6 ?b then Inr 4 else if v6 ?b < v6 ?a then Inr (- 4) else ?last)
        (uint (v6 ?a), uint (path_id a)) (uint (v6 ?b), uint (path_id b))"
      by (intro lex_up l4) simp_all
    then show ?thesis using False by (simp only: addr_key_def Let_def snd_conv if_False eq[symmetric])
  qed
  have "decides (if aid ?a < aid ?b then Inr 4 else if aid ?b < aid ?a then Inr (- 4) else ?rest)
      (uint (aid ?a), snd (addr_key a)) (uint (aid ?b), snd (addr_key b))"
    by (intro lex_up rest) simp_all
  moreover have "cmp_addr a b = (if aid ?a < aid ?b then Inr 4 else if aid ?b < aid ?a then Inr (- 4) else ?rest)"
  proof -
    have "(aid ?a \<noteq> AID_INET \<and> aid ?a \<noteq> AID_INET6) = False" using assms(2) by blast
    then show ?thesis unfolding cmp_addr_def Let_def by (simp only: if_False)
  qed
  ultimately show ?thesis by (simp add: addr_key_def Let_def)
qed

lemma ebgp01: "(e :: u8) \<le> 1 \<Longrightarrow> e = 0 \<or> e = 1"
  by (metis linorder_not_less order_le_less word_gt_0 word_less_1)

lemma cmp_late_decides:
  assumes "path_ok env a" "path_ok env b" "prefix_eligible a" "prefix_eligible b" "late_key env a \<noteq> late_key env b"
  shows "decides (cmp_late env a (path_asp a) b (path_asp b)) (late_key env a) (late_key env b)"
proof -
  define p1id where "p1id = unres 0 (cmp_bgpid env a (path_asp a))"
  define p2id where "p2id = unres 0 (cmp_bgpid env b (path_asp b))"
  define n1 where "n1 = unres 0 (cluster_cnt env (path_asp a))"
  define n2 where "n2 = unres 0 (cluster_cnt env (path_asp b))"
  have r: "cmp_bgpid env a (path_asp a) = Inr p1id" "cmp_bgpid env b (path_asp b) = Inr p2id"
    "cluster_cnt env (path_asp a) = Inr n1" "cluster_cnt env (path_asp b) = Inr n2"
    using assms(1-4) unfolding p1id_def p2id_def n1_def n2_def by (auto intro!: is_InrD simp: path_ok_def)
  have e: "ebgp (p_peer a) = 0 \<or> ebgp (p_peer a) = 1" "ebgp (p_peer b) = 0 \<or> ebgp (p_peer b) = 1"
    using assms(1-4) ebgp01 by (auto simp: path_ok_def)
  have k: "late_key env a = (- uint (ebgp (p_peer a)), - uint (weight (path_asp a)),
       if route_age env then lastchange a else 0, uint p1id, int n1, addr_key a)"
    "late_key env b = (- uint (ebgp (p_peer b)), - uint (weight (path_asp b)),
       if route_age env then lastchange b else 0, uint p2id, int n2, addr_key b)"
    by (simp_all add: late_key_def p1id_def p2id_def n1_def n2_def)
  have ad: "addr_key a \<noteq> addr_key b \<Longrightarrow> decides (cmp_addr a b) (addr_key a) (addr_key b)"
    using cmp_addr_decides assms(1,3) by (simp add: path_ok_def)
  have "decides (cmp_late env a (path_asp a) b (path_asp b))
      (- uint (ebgp (p_peer a)), - uint (weight (path_asp a)), if route_age env then lastchange a else 0,
        uint p1id, int n1, addr_key a)
      (- uint (ebgp (p_peer b)), - uint (weight (path_asp b)), if route_age env then lastchange b else 0,
        uint p2id, int n2, addr_key b)"
    unfolding cmp_late_def Let_def r res_bind.simps
  proof (rule lex_step, goal_cases)
    case 5
    then have eq: "ebgp (p_peer a) = ebgp (p_peer b)" by (simp add: uint_eq_iff)
    show ?case
    proof (rule lex_down, goal_cases)
      case 3
      note w = 3
      show ?case
      proof (rule lex_step, goal_cases)
        case 5
        note t = 5
        show ?case
        proof (rule lex_up, goal_cases)
          case 3
          note i = 3
          show ?case
          proof (rule lex_step, goal_cases)
            case 5
            then show ?case using assms(5) eq w t i ad unfolding k by simp
          qed simp_all
        qed simp_all
      qed (simp_all add: monotime_cmp_def)
    qed simp_all
  qed (use e in auto)
  then show ?thesis unfolding k .
qed

text \<open>The comparison: its sign is the preference and testall tells which step decided.\<close>

lemma prefix_cmp_spec:
  assumes ok: "path_ok env a" "path_ok env b" and el: "prefix_eligible a" "prefix_eligible b"
    and ne: "path_key env a \<noteq> path_key env b"
  shows "\<exists>c t. prefix_cmp env (Some a) (Some b) = Inr (c, t) \<and> (c > 0 \<longleftrightarrow> dec.gt env a b) \<and>
    (t = 2 \<longleftrightarrow> med_dom env a b \<or> med_dom env b a) \<and> (t = 0 \<longleftrightarrow> med_always env \<or> path_lv a \<noteq> path_lv b) \<and> t \<le> 2"
proof -
  let ?A = "path_asp a" and ?B = "path_asp b"
  let ?med = "res_bind (if med_always env then Inr True
       else res_bind (aspath_neighbor (env_local_as env) (asp_aspath ?A)) (\<lambda>n1.
            res_bind (aspath_neighbor (env_local_as env) (asp_aspath ?B)) (\<lambda>n2. Inr (n1 = n2)))) (\<lambda>comparable.
              if comparable \<and> med ?A < med ?B then Inr (2, if med_always env then 0 else 2)
              else if comparable \<and> med ?A > med ?B then Inr (-2, if med_always env then 0 else 2)
              else res_bind (cmp_late env a ?A b ?B) (\<lambda>rv. Inr (rv, if med_always env then 0 else 1)))"
  have E: "prefix_cmp env (Some a) (Some b) =
      (if lpref ?A > lpref ?B then Inr (2, 0) else if lpref ?A < lpref ?B then Inr (-2, 0)
       else if ap_ascnt (asp_aspath ?A) < ap_ascnt (asp_aspath ?B) then Inr (2, 0)
       else if ap_ascnt (asp_aspath ?A) > ap_ascnt (asp_aspath ?B) then Inr (-2, 0)
       else if origin ?A < origin ?B then Inr (2, 0) else if origin ?A > origin ?B then Inr (-2, 0) else ?med)"
    by (simp only: prefix_cmp_def option.case el not_True_eq_False if_False eligible_aspath[OF el(1)]
        eligible_aspath[OF el(2)] prod.case)
  show ?thesis
  proof (cases "path_lv a = path_lv b")
    case False
    have k: "dec.gt env a b \<longleftrightarrow> path_lv a < path_lv b"
      using False unfolding dec.gt_def by (auto simp: med_dom_def path_key_def)
    have "\<exists>c. prefix_cmp env (Some a) (Some b) = Inr (c, 0) \<and> (c > 0 \<longleftrightarrow> path_lv a < path_lv b)"
      using False unfolding E path_lv_def by (auto simp: word_less_def uint_eq_iff)
    then show ?thesis using False k by (auto simp: med_dom_def)
  next
    case True
    then have "lpref ?A = lpref ?B" "ap_ascnt (asp_aspath ?A) = ap_ascnt (asp_aspath ?B)" "origin ?A = origin ?B"
      by (simp_all add: path_lv_def uint_eq_iff)
    then have E': "prefix_cmp env (Some a) (Some b) = ?med" unfolding E by simp
    have nb: "aspath_neighbor (env_local_as env) (asp_aspath ?A) = Inr (path_nb env a)"
      "aspath_neighbor (env_local_as env) (asp_aspath ?B) = Inr (path_nb env b)"
      using ok el unfolding path_nb_def by (auto intro!: is_InrD simp: path_ok_def)
    define same where "same = (med_always env \<or> path_nb env a = path_nb env b)"
    have E'': "prefix_cmp env (Some a) (Some b) =
        (if same \<and> path_med a < path_med b then Inr (2, if med_always env then 0 else 2)
         else if same \<and> path_med a > path_med b then Inr (-2, if med_always env then 0 else 2)
         else res_bind (cmp_late env a ?A b ?B) (\<lambda>rv. Inr (rv, if med_always env then 0 else 1)))"
      unfolding E' nb same_def by (simp add: path_med_def word_less_def)
    have late: "\<exists>v. cmp_late env a ?A b ?B = Inr v \<and> v \<noteq> 0 \<and> (v > 0 \<longleftrightarrow> late_key env a < late_key env b)"
      if "late_key env a \<noteq> late_key env b"
      using cmp_late_decides[OF ok el that] by (simp add: decides_def)
    have key: "path_key env a < path_key env b \<longleftrightarrow>
        (if med_always env \<and> path_med a \<noteq> path_med b then path_med a < path_med b else late_key env a < late_key env b)"
      using True by (auto simp: path_key_def)
    have lk: "late_key env a \<noteq> late_key env b" if "\<not> (same \<and> path_med a \<noteq> path_med b)"
      using that ne True by (auto simp: path_key_def same_def split: if_splits)
    show ?thesis
    proof (cases "same \<and> path_med a \<noteq> path_med b")
      case t: True
      then show ?thesis using True
        unfolding E'' dec.gt_def key by (auto simp: med_dom_def same_def)
    next
      case f: False
      then obtain v where v: "cmp_late env a ?A b ?B = Inr v" "v > 0 \<longleftrightarrow> late_key env a < late_key env b"
        using late lk by blast
      have c: "prefix_cmp env (Some a) (Some b) = Inr (v, if med_always env then 0 else 1)"
        using f v(1) unfolding E'' by auto
      have n: "\<not> med_dom env a b" "\<not> med_dom env b a" using f by (auto simp: med_dom_def same_def)
      have "dec.gt env a b \<longleftrightarrow> v > 0" using f n v(2) unfolding dec.gt_def key same_def by auto
      then show ?thesis using c n True by auto
    qed
  qed
qed

end
