(* ===== verification/Decide_Correct.thy ===== *)
theory Decide_Correct
  imports Decide_Order
begin

text \<open>
  The list operations of the decision process keep the canonical order: the eligible paths first, in
  the order Decide_Order determines from their set, then the ineligible ones, and
  the dmetric of every path is its comparison with its predecessor. So the result of any
  sequence of insertions and removals depends only on the paths that are left.
\<close>

section \<open>Sets of comparable paths\<close>

definition paths_ok :: "decision_env \<Rightarrow> prefix set \<Rightarrow> bool" where
  "paths_ok env C = ((\<forall>p\<in>C. path_ok env p) \<and> inj_on p_id C \<and> inj_on (path_key env) {p \<in> C. prefix_eligible p})"

lemma paths_ok_subset: "paths_ok env C \<Longrightarrow> D \<subseteq> C \<Longrightarrow> paths_ok env D"
  unfolding paths_ok_def by (auto intro: inj_on_subset)

lemma paths_ok_key:
  "paths_ok env C \<Longrightarrow> a \<in> C \<Longrightarrow> b \<in> C \<Longrightarrow> a \<noteq> b \<Longrightarrow> prefix_eligible a \<Longrightarrow> prefix_eligible b \<Longrightarrow>
     path_key env a \<noteq> path_key env b"
  unfolding paths_ok_def by (auto dest: inj_onD)

lemma cmp_ineligible:
  "\<not> prefix_eligible b \<Longrightarrow> prefix_cmp env (Some a) (Some b) = Inr (1, 0)"
  "\<not> prefix_eligible a \<Longrightarrow> prefix_eligible b \<Longrightarrow> prefix_cmp env (Some a) (Some b) = Inr (-1, 0)"
  by (simp_all add: prefix_cmp_def)

lemma cmp_eligible:
  assumes "paths_ok env C" "a \<in> C" "b \<in> C" "a \<noteq> b" "prefix_eligible a" "prefix_eligible b"
  shows "\<exists>c t. prefix_cmp env (Some a) (Some b) = Inr (c, t) \<and> (c > 0 \<longleftrightarrow> dec.gt env a b) \<and>
    (t = 2 \<longleftrightarrow> med_dom env a b \<or> med_dom env b a) \<and> (t = 0 \<longleftrightarrow> med_always env \<or> path_lv a \<noteq> path_lv b) \<and> t \<le> 2"
  using prefix_cmp_spec[OF _ _ assms(5,6) paths_ok_key[OF assms]] assms(1-3) by (simp add: paths_ok_def)

lemma cmp_total:
  assumes "paths_ok env C" "a \<in> C" "b \<in> C" "a \<noteq> b"
  shows "\<exists>c t. prefix_cmp env (Some a) (Some b) = Inr (c, t)"
proof (cases "prefix_eligible a \<and> prefix_eligible b")
  case True
  then show ?thesis
    using cmp_eligible[OF assms] by blast
next
  case False
  then show ?thesis using cmp_ineligible by (cases "prefix_eligible b") auto
qed

section \<open>The dmetric of a list\<close>

definition dmetric_of :: "decision_env \<Rightarrow> prefix option \<Rightarrow> prefix \<Rightarrow> int res" where
  "dmetric_of env pp x = (case pp of
     None \<Rightarrow> Inr (if prefix_eligible x then PREFIX_DMETRIC_BEST else PREFIX_DMETRIC_INVALID)
   | Some p \<Rightarrow> res_bind (prefix_cmp env (Some p) (Some x)) (\<lambda>(c, testall). Inr c))"

lemma prefix_set_dmetric_Some:
  "prefix_set_dmetric env dm pp (Some x) = res_bind (dmetric_of env pp x) (\<lambda>v. Inr (dm(p_id x := v)))"
  by (cases pp; cases "prefix_cmp env pp (Some x)") (auto simp: prefix_set_dmetric_def dmetric_of_def)

lemma prefix_set_dmetric_None [simp]: "prefix_set_dmetric env dm pp None = Inr dm"
  by (simp add: prefix_set_dmetric_def)

fun dm_ok :: "decision_env \<Rightarrow> (nat \<Rightarrow> int) \<Rightarrow> prefix option \<Rightarrow> prefix list \<Rightarrow> bool" where
  "dm_ok env dm pp [] = True"
| "dm_ok env dm pp (x # xs) = (dmetric_of env pp x = Inr (dm (p_id x)) \<and> dm_ok env dm (Some x) xs)"

text \<open>All but the first element.\<close>

definition dm_tail :: "decision_env \<Rightarrow> (nat \<Rightarrow> int) \<Rightarrow> prefix list \<Rightarrow> bool" where
  "dm_tail env dm xs = (case xs of [] \<Rightarrow> True | x # ys \<Rightarrow> dm_ok env dm (Some x) ys)"

lemma dm_ok_append:
  "dm_ok env dm pp (xs @ ys) \<longleftrightarrow> dm_ok env dm pp xs \<and> dm_ok env dm (if xs = [] then pp else Some (last xs)) ys"
  by (induction xs arbitrary: pp) auto

lemma dm_ok_None_append:
  "dm_ok env dm None (xs @ ys) \<longleftrightarrow> dm_ok env dm None xs \<and> dm_ok env dm (last_opt xs) ys"
  by (simp add: dm_ok_append last_opt_def)

lemma dm_ok_upd: "i \<notin> p_id ` set xs \<Longrightarrow> dm_ok env (dm(i := v)) pp xs = dm_ok env dm pp xs"
  by (induction xs arbitrary: pp) auto

lemma dm_tail_upd: "i \<notin> p_id ` set xs \<Longrightarrow> dm_tail env (dm(i := v)) xs = dm_tail env dm xs"
  by (cases xs) (auto simp: dm_tail_def dm_ok_upd)

lemma dm_ok_tail: "dm_ok env dm pp xs \<Longrightarrow> dm_tail env dm xs"
  by (cases xs) (auto simp: dm_tail_def)

lemma dmetric_of_total:
  "paths_ok env C \<Longrightarrow> x \<in> C \<Longrightarrow> (\<And>p. pp = Some p \<Longrightarrow> p \<in> C \<and> p \<noteq> x) \<Longrightarrow> \<exists>v. dmetric_of env pp x = Inr v"
proof (cases pp)
  case (Some p)
  assume "paths_ok env C" "x \<in> C" "\<And>p. pp = Some p \<Longrightarrow> p \<in> C \<and> p \<noteq> x"
  then show ?thesis using cmp_total[of env C p x] Some by (auto simp: dmetric_of_def)
qed (simp add: dmetric_of_def)

lemma set_dmetric_total:
  assumes "paths_ok env C" "\<And>x. np = Some x \<Longrightarrow> x \<in> C \<and> (\<forall>p. pp = Some p \<longrightarrow> p \<in> C \<and> p \<noteq> x)"
  shows "\<exists>dm'. prefix_set_dmetric env dm pp np = Inr dm'"
proof (cases np)
  case None
  then show ?thesis by (simp add: prefix_set_dmetric_def)
next
  case (Some x)
  then show ?thesis using dmetric_of_total[of env C x pp] assms by (auto simp: prefix_set_dmetric_Some)
qed

lemma fix_removed_total:
  assumes "paths_ok env C" "x \<in> C" "set (sc_done s) \<subseteq> C" "x \<notin> set (sc_done s)"
  shows "\<exists>dm. fix_removed env s x = Inr (s\<lparr>sc_dm := dm, removed := False\<rparr>)"
proof (cases "removed s")
  case True
  have "\<exists>dm. prefix_set_dmetric env (sc_dm s) (last_opt (sc_done s)) (Some x) = Inr dm"
    using assms by (intro set_dmetric_total[OF assms(1)]) (auto simp: last_opt_def split: if_splits)
  then show ?thesis using True by (auto simp: fix_removed_def)
next
  case False
  then have "s\<lparr>sc_dm := sc_dm s, removed := False\<rparr> = s" by (cases s) simp
  then show ?thesis using False unfolding fix_removed_def by metis
qed

text \<open>Both scans keep the dmetric of the elements that stay.\<close>

definition dm_inv :: "decision_env \<Rightarrow> scan_state \<Rightarrow> prefix list \<Rightarrow> bool" where
  "dm_inv env s rest = (dm_ok env (sc_dm s) None (sc_done s) \<and> dm_tail env (sc_dm s) rest \<and>
     (\<not> removed s \<longrightarrow> dm_ok env (sc_dm s) (last_opt (sc_done s)) rest))"

lemma dm_inv_step:
  assumes "dm_inv env s (x # rest)" and "distinct (map p_id (sc_done s @ x # rest))"
    and "fix_removed env s x = Inr s'"
  shows "dm_inv env (s'\<lparr>sc_done := sc_done s' @ [x]\<rparr>) rest \<and> dm_ok env (sc_dm s') None (sc_done s' @ x # rest)"
proof (cases "removed s")
  case True
  then obtain v where v: "dmetric_of env (last_opt (sc_done s)) x = Inr v"
    and s': "s' = s\<lparr>sc_dm := (sc_dm s)(p_id x := v), removed := False\<rparr>"
    using assms(3) by (auto simp: fix_removed_def prefix_set_dmetric_Some res_bind_Inr_iff)
  have "dm_ok env ((sc_dm s)(p_id x := v)) None (sc_done s @ x # rest)"
    using assms(1,2) v by (auto simp: dm_ok_None_append dm_inv_def dm_tail_def dm_ok_upd)
  then show ?thesis
    using dm_ok_None_append[of env _ "sc_done s @ [x]" rest]
    by (auto simp: dm_inv_def s' dest: dm_ok_tail)
next
  case False
  then have "s' = s" using assms(3) by (simp add: fix_removed_def)
  moreover have "dm_ok env (sc_dm s) None (sc_done s @ x # rest)"
    using assms(1) False by (simp add: dm_inv_def dm_ok_None_append)
  ultimately show ?thesis
    using dm_ok_None_append[of env _ "sc_done s @ [x]" rest] False
    by (auto simp: dm_inv_def dest: dm_ok_tail)
qed

lemma dm_inv_removed: "dm_inv env s (x # rest) \<Longrightarrow> dm_inv env (s\<lparr>redo := r, removed := True\<rparr>) rest"
  by (auto simp: dm_inv_def dm_tail_def dest: dm_ok_tail split: list.splits)

lemma dm_inv_cong:
  "sc_done s = sc_done s' \<Longrightarrow> sc_dm s = sc_dm s' \<Longrightarrow> removed s = removed s' \<Longrightarrow> dm_inv env s = dm_inv env s'"
  by (rule ext) (simp add: dm_inv_def)

lemma insert_scan_dm:
  "insert_scan env new s rest = Inr (s', rest') \<Longrightarrow> dm_inv env s rest \<Longrightarrow>
     distinct (map p_id (sc_done s @ rest)) \<Longrightarrow> dm_ok env (sc_dm s') None (sc_done s' @ rest')"
proof (induction rest arbitrary: s)
  case Nil
  then show ?case by (auto simp: dm_inv_def)
next
  case (Cons x rest)
  obtain c t where c: "prefix_cmp env (Some new) (Some x) = Inr (c, t)"
    using Cons.prems(1) by (auto simp: res_bind_Inr_iff)
  show ?case
  proof (cases "c > 0 \<and> t = 2")
    case True
    then have "insert_scan env new (s\<lparr>redo := redo s @ [x], removed := True\<rparr>) rest = Inr (s', rest')"
      using Cons.prems(1) c by simp
    from Cons.IH[OF this] show ?thesis using dm_inv_removed[OF Cons.prems(2)] Cons.prems(3) by simp
  next
    case False
    define s1 where "s1 = (if c > 0 then if t = 1 then s\<lparr>selected := True\<rparr> else s
      else if t = 2 then s\<lparr>selected := False, insertp := Some x\<rparr>
      else if \<not> selected s then s\<lparr>insertp := Some x\<rparr> else s)"
    have eq: "sc_done s1 = sc_done s" "sc_dm s1 = sc_dm s" "removed s1 = removed s" by (simp_all add: s1_def)
    obtain s2 where f: "fix_removed env s1 x = Inr s2"
      and r: "insert_scan env new (s2\<lparr>sc_done := sc_done s2 @ [x]\<rparr>) rest = Inr (s', rest') \<or>
        s' = s2\<lparr>sc_done := sc_done s2 @ [x]\<rparr> \<and> rest' = rest"
      using Cons.prems(1) c False by (auto simp: res_bind_Inr_iff Let_def s1_def split: if_splits)
    have inv: "dm_inv env s1 (x # rest)" using Cons.prems(2) dm_inv_cong[of s1 s] eq by simp
    have st: "dm_inv env (s2\<lparr>sc_done := sc_done s2 @ [x]\<rparr>) rest" "dm_ok env (sc_dm s2) None (sc_done s2 @ x # rest)"
      using dm_inv_step[OF inv _ f] Cons.prems(3) eq by simp_all
    have d: "sc_done s2 = sc_done s" using f eq by (auto simp: fix_removed_def res_bind_Inr_iff split: if_splits)
    from r show ?thesis
    proof
      assume "insert_scan env new (s2\<lparr>sc_done := sc_done s2 @ [x]\<rparr>) rest = Inr (s', rest')"
      from Cons.IH[OF this st(1)] show ?thesis using Cons.prems(3) d by simp
    qed (use st(2) in simp)
  qed
qed

section \<open>The scan of an insertion\<close>

text \<open>
  The insertion point: the list A @ B, cut after the element insertp, is where the canonical
  insertion puts the new path.
\<close>

definition point :: "decision_env \<Rightarrow> prefix \<Rightarrow> prefix list \<Rightarrow> prefix list \<Rightarrow> prefix option \<Rightarrow> bool" where
  "point env new A B ip = (ip = last_opt A \<and>
     (\<forall>A1 a A2. A = A1 @ a # A2 \<longrightarrow> (\<exists>y\<in>set (a # A2). med_dom env y new) \<or> \<not> path_key env new < path_key env a) \<and>
     (\<forall>b\<in>set B. \<not> med_dom env b new) \<and>
     (\<forall>b B'. B = b # B' \<longrightarrow> path_key env new < path_key env b))"

lemma point_ins: "point env new A B ip \<Longrightarrow> dec.ins env new (A @ B) = A @ new # B"
  unfolding point_def by (intro dec.ins_split) blast+

lemma last_opt_snoc [simp]: "last_opt (xs @ [x]) = Some x"
  by (simp add: last_opt_def)

lemma point_dominator: "med_dom env x new \<Longrightarrow> point env new (A @ [x]) [] (Some x)"
proof -
  assume d: "med_dom env x new"
  have "\<exists>y\<in>set (a # A2). med_dom env y new" if "A @ [x] = A1 @ a # A2" for A1 a A2
  proof -
    have "last (A1 @ a # A2) = x" using that by (metis last_snoc)
    then have "x \<in> set (a # A2)" by (auto split: if_splits)
    then show ?thesis using d by blast
  qed
  then show ?thesis by (simp add: point_def)
qed

lemma point_extend_left:
  assumes "point env new A [] ip" and "\<not> path_key env new < path_key env x"
  shows "point env new (A @ [x]) [] (Some x)"
proof -
  have "(\<exists>y\<in>set (a # A2). med_dom env y new) \<or> \<not> path_key env new < path_key env a"
    if e: "A @ [x] = A1 @ a # A2" for A1 a A2
  proof (cases A2 rule: rev_cases)
    case Nil
    then show ?thesis using e assms(2) by simp
  next
    case (snoc A3 z)
    then have "A = A1 @ a # A3" using e by (metis append_Cons append_assoc butlast_snoc)
    then show ?thesis using assms(1) snoc unfolding point_def by fastforce
  qed
  then show ?thesis by (simp add: point_def)
qed

lemma point_extend_right:
  assumes "point env new A B ip" and "\<And>y. y \<in> set ys \<Longrightarrow> \<not> med_dom env y new"
    and "B = [] \<Longrightarrow> ys \<noteq> [] \<Longrightarrow> path_key env new < path_key env (hd ys)"
  shows "point env new A (B @ ys) ip"
  using assms unfolding point_def by (cases B) auto

lemma far_no_dom:
  assumes "dec.gt env new x" and "med_always env \<or> path_lv new \<noteq> path_lv x" and "path_lv x \<le> path_lv y"
  shows "\<not> med_dom env y new \<and> \<not> med_dom env new y"
proof (cases "med_always env")
  case False
  then have "\<not> med_dom env new x" using assms(2) by (auto simp: med_dom_def)
  then have "path_key env new < path_key env x" using assms(1) by (auto simp: dec.gt_def)
  then have "path_lv new < path_lv x" using dec.key_lv[of env new x] assms(2) False by (simp add: order.strict_iff_order)
  then show ?thesis using assms(3) by (auto simp: med_dom_def)
qed (simp add: med_dom_def)

lemma scan_ineligible_rest:
  assumes "paths_ok env C" "set (sc_done s @ RI) \<subseteq> C" "distinct (sc_done s @ RI)" "\<forall>x\<in>set RI. \<not> prefix_eligible x"
  shows "\<exists>s' rest'. insert_scan env new s RI = Inr (s', rest') \<and> sc_done s' @ rest' = sc_done s @ RI \<and>
    redo s' = redo s \<and> insertp s' = insertp s"
proof (cases RI)
  case (Cons x xs)
  then have "prefix_cmp env (Some new) (Some x) = Inr (1, 0)" using assms(4) by (simp add: cmp_ineligible)
  moreover obtain dm where "fix_removed env s x = Inr (s\<lparr>sc_dm := dm, removed := False\<rparr>)"
    using fix_removed_total[OF assms(1), of x s] assms(2,3) Cons by auto
  ultimately show ?thesis using Cons by auto
qed simp

lemma insert_scan_cases:
  assumes c: "prefix_cmp env (Some new) (Some x) = Inr (c, t)"
    and fr: "\<forall>s. sc_done s = D \<longrightarrow> (\<exists>dm. fix_removed env s x = Inr (s\<lparr>sc_dm := dm, removed := False\<rparr>))"
    and s: "sc_done s = D"
  shows "c > 0 \<Longrightarrow> t = 2 \<Longrightarrow>
      insert_scan env new s (x # rest) = insert_scan env new (s\<lparr>redo := redo s @ [x], removed := True\<rparr>) rest"
    and "c > 0 \<Longrightarrow> t = 0 \<Longrightarrow> \<exists>dm. insert_scan env new s (x # rest) =
      Inr (s\<lparr>sc_dm := dm, removed := False, sc_done := D @ [x]\<rparr>, rest)"
    and "c > 0 \<Longrightarrow> t = 1 \<Longrightarrow> \<exists>dm. insert_scan env new s (x # rest) =
      insert_scan env new (s\<lparr>selected := True, sc_dm := dm, removed := False, sc_done := D @ [x]\<rparr>) rest"
    and "\<not> c > 0 \<Longrightarrow> t = 2 \<or> \<not> selected s \<Longrightarrow> \<exists>dm. insert_scan env new s (x # rest) =
      insert_scan env new (s\<lparr>selected := False, insertp := Some x, sc_dm := dm, removed := False, sc_done := D @ [x]\<rparr>) rest"
    and "\<not> c > 0 \<Longrightarrow> t \<noteq> 2 \<Longrightarrow> selected s \<Longrightarrow> \<exists>dm. insert_scan env new s (x # rest) =
      insert_scan env new (s\<lparr>sc_dm := dm, removed := False, sc_done := D @ [x]\<rparr>) rest"
proof -
  note f = fr[rule_format]
  have sel: "\<not> selected s \<Longrightarrow> s\<lparr>selected := False\<rparr> = s" by (cases s) simp
  show "c > 0 \<Longrightarrow> t = 2 \<Longrightarrow>
      insert_scan env new s (x # rest) = insert_scan env new (s\<lparr>redo := redo s @ [x], removed := True\<rparr>) rest"
    using c by simp
  show "c > 0 \<Longrightarrow> t = 0 \<Longrightarrow> \<exists>dm. insert_scan env new s (x # rest) =
      Inr (s\<lparr>sc_dm := dm, removed := False, sc_done := D @ [x]\<rparr>, rest)"
    using c f[OF s] s by auto
  show "c > 0 \<Longrightarrow> t = 1 \<Longrightarrow> \<exists>dm. insert_scan env new s (x # rest) =
      insert_scan env new (s\<lparr>selected := True, sc_dm := dm, removed := False, sc_done := D @ [x]\<rparr>) rest"
    using c f[of "s\<lparr>selected := True\<rparr>"] s by auto
  show "\<exists>dm. insert_scan env new s (x # rest) =
      insert_scan env new (s\<lparr>selected := False, insertp := Some x, sc_dm := dm, removed := False, sc_done := D @ [x]\<rparr>) rest"
    if n: "\<not> c > 0" and h: "t = 2 \<or> \<not> selected s"
  proof -
    have e: "(if t = 2 then s\<lparr>selected := False\<rparr> else s) = s\<lparr>selected := False\<rparr>" using h sel by auto
    obtain dm where "fix_removed env (s\<lparr>selected := False, insertp := Some x\<rparr>) x =
        Inr (s\<lparr>selected := False, insertp := Some x, sc_dm := dm, removed := False\<rparr>)"
      using f[of "s\<lparr>selected := False, insertp := Some x\<rparr>"] s by auto
    then show ?thesis using c n s by (auto simp: Let_def e)
  qed
  show "\<not> c > 0 \<Longrightarrow> t \<noteq> 2 \<Longrightarrow> selected s \<Longrightarrow> \<exists>dm. insert_scan env new s (x # rest) =
      insert_scan env new (s\<lparr>sc_dm := dm, removed := False, sc_done := D @ [x]\<rparr>) rest"
    using c f[OF s] s by auto
qed

text \<open>What the scan of an eligible path computes.\<close>

definition scan_result ::
  "decision_env \<Rightarrow> prefix \<Rightarrow> scan_state \<Rightarrow> prefix list \<Rightarrow> prefix list \<Rightarrow> bool" where
  "scan_result env new s RE RI = (\<exists>s' rest' A B. insert_scan env new s (RE @ RI) = Inr (s', rest') \<and>
     sc_done s' @ rest' = A @ B @ RI \<and> A @ B = sc_done s @ filter (\<lambda>x. \<not> med_dom env new x) RE \<and>
     redo s' = redo s @ filter (med_dom env new) RE \<and> point env new A B (insertp s'))"

lemma insert_scan_eligible:
  assumes C: "paths_ok env C" "new \<in> C" "prefix_eligible new"
  shows "set (sc_done s @ RE @ RI) \<subseteq> C - {new} \<Longrightarrow> distinct (sc_done s @ RE @ RI) \<Longrightarrow>
    \<forall>x\<in>set RE. prefix_eligible x \<Longrightarrow> \<forall>x\<in>set RI. \<not> prefix_eligible x \<Longrightarrow>
    sorted_wrt (\<lambda>a b. path_lv a \<le> path_lv b) RE \<Longrightarrow>
    sc_done s = A @ B \<Longrightarrow> point env new A B (insertp s) \<Longrightarrow> (selected s \<longleftrightarrow> B \<noteq> []) \<Longrightarrow>
    scan_result env new s RE RI"
proof (induction RE arbitrary: s A B)
  case Nil
  have "set (sc_done s @ RI) \<subseteq> C" "distinct (sc_done s @ RI)" using Nil.prems(1,2) by auto
  from scan_ineligible_rest[OF C(1) this Nil.prems(4), of new]
  obtain s' rest' where "insert_scan env new s RI = Inr (s', rest')" "sc_done s' @ rest' = sc_done s @ RI"
    "redo s' = redo s" "insertp s' = insertp s" by blast
  then show ?case using Nil.prems(6,7) unfolding scan_result_def by auto
next
  case (Cons x RE)
  have x: "x \<in> C" "x \<noteq> new" "prefix_eligible x" using Cons.prems by auto
  obtain c t where c: "prefix_cmp env (Some new) (Some x) = Inr (c, t)" and gt: "c > 0 \<longleftrightarrow> dec.gt env new x"
    and t2: "t = 2 \<longleftrightarrow> med_dom env new x \<or> med_dom env x new"
    and t0: "t = 0 \<longleftrightarrow> med_always env \<or> path_lv new \<noteq> path_lv x" and t: "t \<le> 2"
    using cmp_eligible[OF C(1,2) x(1) x(2)[symmetric] C(3) x(3)] by (elim exE conjE) (rule that)
  have f: "\<forall>s'. sc_done s' = A @ B \<longrightarrow> (\<exists>dm. fix_removed env s' x = Inr (s'\<lparr>sc_dm := dm, removed := False\<rparr>))"
  proof (intro allI impI fix_removed_total[OF C(1) x(1)])
    fix s' :: scan_state assume "sc_done s' = A @ B"
    then show "set (sc_done s') \<subseteq> C" "x \<notin> set (sc_done s')" using Cons.prems(1,2,6) by auto
  qed
  note steps = insert_scan_cases[where D = "A @ B", OF c f Cons.prems(6), of "RE @ RI"]
  have sets: "set RE \<union> set RI \<subseteq> C - {new}" "set (A @ B) \<subseteq> C - {new}" "distinct (A @ B @ x # RE @ RI)"
    using Cons.prems(1,2,6) by auto
  have IH: "scan_result env new s1 RE RI" if "sc_done s1 = A1 @ B1" "A1 @ B1 = A @ B @ ys" "set ys \<subseteq> {x}" "distinct ys"
    "point env new A1 B1 (insertp s1)" "selected s1 \<longleftrightarrow> B1 \<noteq> []" for s1 A1 B1 ys
    using that Cons.prems(3-5) sets x by (intro Cons.IH[of s1 A1 B1]) auto
  consider (redo) "c > 0" "t = 2" | (far) "c > 0" "t = 0" | (sel) "c > 0" "t = 1" | (dom) "\<not> c > 0" "t = 2"
    | (worse) "\<not> c > 0" "t \<noteq> 2" using t by force
  then show ?case
  proof cases
    case redo
    have d: "med_dom env new x" using redo gt t2 dec.dm_trans dec.dm_irrefl by (auto simp: dec.gt_def)
    have "scan_result env new (s\<lparr>redo := redo s @ [x], removed := True\<rparr>) RE RI"
      using Cons.prems(6-8) by (intro IH[of _ A B "[]"]) auto
    then show ?thesis using d steps(1)[OF redo] by (auto simp: scan_result_def)
  next
    case far
    have no: "\<not> med_dom env y new \<and> \<not> med_dom env new y" if "y \<in> set (x # RE)" for y
      using far_no_dom[of env new x y] that far gt t0 Cons.prems(5) by auto
    have fl: "filter (\<lambda>x. \<not> med_dom env new x) (x # RE) = x # RE" "filter (med_dom env new) (x # RE) = []"
      using no by (auto simp: filter_id_conv filter_empty_conv)
    have "path_key env new < path_key env x" using far gt no[of x] by (auto simp: dec.gt_def)
    then have "point env new A (B @ x # RE) (insertp s)"
      using point_extend_right[OF Cons.prems(7), of "x # RE"] no by auto
    moreover obtain dm where "insert_scan env new s (x # RE @ RI) =
        Inr (s\<lparr>sc_dm := dm, removed := False, sc_done := (A @ B) @ [x]\<rparr>, RE @ RI)"
      using steps(2)[OF far] by blast
    ultimately show ?thesis using Cons.prems(6) unfolding scan_result_def fl
      by (intro exI[of _ "s\<lparr>sc_dm := dm, removed := False, sc_done := (A @ B) @ [x]\<rparr>"] exI[of _ "RE @ RI"]
          exI[of _ A] exI[of _ "B @ x # RE"]) (simp del: insert_scan.simps)
  next
    case sel
    have no: "\<not> med_dom env x new" "\<not> med_dom env new x" using sel t2 by auto
    have "path_key env new < path_key env x" using sel gt no by (auto simp: dec.gt_def)
    then have p: "point env new A (B @ [x]) (insertp s)"
      using point_extend_right[OF Cons.prems(7), of "[x]"] no by auto
    obtain dm where e: "insert_scan env new s (x # RE @ RI) =
        insert_scan env new (s\<lparr>selected := True, sc_dm := dm, removed := False, sc_done := (A @ B) @ [x]\<rparr>) (RE @ RI)"
      using steps(3)[OF sel] by auto
    have "scan_result env new (s\<lparr>selected := True, sc_dm := dm, removed := False, sc_done := (A @ B) @ [x]\<rparr>) RE RI"
      using p by (intro IH[of _ A "B @ [x]" "[x]"]) auto
    then show ?thesis using e no Cons.prems(6) by (auto simp: scan_result_def)
  next
    case dom
    have no: "\<not> med_dom env new x" "med_dom env x new" using dom gt t2 by (auto simp: dec.gt_def)
    obtain dm where e: "insert_scan env new s (x # RE @ RI) = insert_scan env new
        (s\<lparr>selected := False, insertp := Some x, sc_dm := dm, removed := False, sc_done := (A @ B) @ [x]\<rparr>) (RE @ RI)"
      using steps(4)[OF dom(1)] dom(2) by auto
    have "scan_result env new
        (s\<lparr>selected := False, insertp := Some x, sc_dm := dm, removed := False, sc_done := (A @ B) @ [x]\<rparr>) RE RI"
      using point_dominator[OF no(2), of "A @ B"] by (intro IH[of _ "A @ B @ [x]" "[]" "[x]"]) auto
    then show ?thesis using e no Cons.prems(6) by (auto simp: scan_result_def)
  next
    case worse
    have no: "\<not> med_dom env x new" "\<not> med_dom env new x" using worse t2 by auto
    have k: "\<not> path_key env new < path_key env x" using worse gt no by (auto simp: dec.gt_def)
    show ?thesis
    proof (cases "selected s")
      case True
      then have p: "point env new A (B @ [x]) (insertp s)"
        using point_extend_right[OF Cons.prems(7), of "[x]"] no Cons.prems(8) by auto
      obtain dm where e: "insert_scan env new s (x # RE @ RI) =
          insert_scan env new (s\<lparr>sc_dm := dm, removed := False, sc_done := (A @ B) @ [x]\<rparr>) (RE @ RI)"
        using steps(5)[OF worse True] by auto
      have "scan_result env new (s\<lparr>sc_dm := dm, removed := False, sc_done := (A @ B) @ [x]\<rparr>) RE RI"
        using p True by (intro IH[of _ A "B @ [x]" "[x]"]) auto
      then show ?thesis using e no Cons.prems(6) by (auto simp: scan_result_def)
    next
      case False
      then have B: "B = []" using Cons.prems(8) by simp
      obtain dm where e: "insert_scan env new s (x # RE @ RI) = insert_scan env new
          (s\<lparr>selected := False, insertp := Some x, sc_dm := dm, removed := False, sc_done := (A @ B) @ [x]\<rparr>) (RE @ RI)"
        using steps(4)[OF worse(1)] False by auto
      have "scan_result env new
          (s\<lparr>selected := False, insertp := Some x, sc_dm := dm, removed := False, sc_done := (A @ B) @ [x]\<rparr>) RE RI"
        using point_extend_left[of env new A "insertp s" x] Cons.prems(7) k B
        by (intro IH[of _ "A @ [x]" "[]" "[x]"]) auto
      then show ?thesis using e no Cons.prems(6) by (auto simp: scan_result_def)
    qed
  qed
qed

text \<open>The scan of an ineligible path goes to the end of the eligible ones.\<close>

lemma insert_scan_ineligible:
  assumes C: "paths_ok env C" "\<not> prefix_eligible new"
  shows "set (sc_done s @ RE @ RI) \<subseteq> C \<Longrightarrow> distinct (sc_done s @ RE @ RI) \<Longrightarrow>
    \<forall>x\<in>set RE. prefix_eligible x \<Longrightarrow> \<forall>x\<in>set RI. \<not> prefix_eligible x \<Longrightarrow>
    insertp s = last_opt (sc_done s) \<Longrightarrow> \<not> selected s \<Longrightarrow>
    \<exists>s' rest'. insert_scan env new s (RE @ RI) = Inr (s', rest') \<and> sc_done s' @ rest' = sc_done s @ RE @ RI \<and>
      redo s' = redo s \<and> insertp s' = last_opt (sc_done s @ RE)"
proof (induction RE arbitrary: s)
  case Nil
  have "set (sc_done s @ RI) \<subseteq> C" "distinct (sc_done s @ RI)" using Nil.prems(1,2) by auto
  from scan_ineligible_rest[OF C(1) this Nil.prems(4), of new] show ?case using Nil.prems(5) by auto
next
  case (Cons x RE)
  have c: "prefix_cmp env (Some new) (Some x) = Inr (-1, 0)" using Cons.prems(3) C(2) by (simp add: cmp_ineligible)
  have "\<forall>s'. sc_done s' = sc_done s \<longrightarrow> (\<exists>dm. fix_removed env s' x = Inr (s'\<lparr>sc_dm := dm, removed := False\<rparr>))"
    using Cons.prems(1,2) by (intro allI impI fix_removed_total[OF C(1)]) auto
  from insert_scan_cases(4)[OF c this, of s "RE @ RI"] Cons.prems(6)
  obtain dm where e: "insert_scan env new s (x # RE @ RI) = insert_scan env new
      (s\<lparr>selected := False, insertp := Some x, sc_dm := dm, removed := False, sc_done := sc_done s @ [x]\<rparr>) (RE @ RI)"
    by auto
  let ?s = "s\<lparr>selected := False, insertp := Some x, sc_dm := dm, removed := False, sc_done := sc_done s @ [x]\<rparr>"
  have "\<exists>s' rest'. insert_scan env new ?s (RE @ RI) = Inr (s', rest') \<and> sc_done s' @ rest' = sc_done ?s @ RE @ RI \<and>
      redo s' = redo ?s \<and> insertp s' = last_opt (sc_done ?s @ RE)"
    using Cons.prems by (intro Cons.IH) auto
  then show ?case using e by simp
qed

section \<open>The list as a whole\<close>

definition eligibles :: "prefix list \<Rightarrow> prefix list" where
  "eligibles xs = filter prefix_eligible xs"

definition ineligibles :: "prefix list \<Rightarrow> prefix list" where
  "ineligibles xs = filter (\<lambda>x. \<not> prefix_eligible x) xs"

definition rib_inv :: "decision_env \<Rightarrow> rib_entry \<Rightarrow> bool" where
  "rib_inv env re = (paths_ok env (set (prefix_h re)) \<and> distinct (prefix_h re) \<and>
     prefix_h re = eligibles (prefix_h re) @ ineligibles (prefix_h re) \<and>
     dec.canon env (eligibles (prefix_h re)) \<and> dm_ok env (dmetric re) None (prefix_h re))"

lemma eligibles_append [simp]: "eligibles (xs @ ys) = eligibles xs @ eligibles ys"
  "ineligibles (xs @ ys) = ineligibles xs @ ineligibles ys"
  by (simp_all add: eligibles_def ineligibles_def)

lemma eligibles_all:
  "\<forall>x\<in>set xs. prefix_eligible x \<Longrightarrow> eligibles xs = xs" "\<forall>x\<in>set xs. prefix_eligible x \<Longrightarrow> ineligibles xs = []"
  "\<forall>x\<in>set xs. \<not> prefix_eligible x \<Longrightarrow> eligibles xs = []" "\<forall>x\<in>set xs. \<not> prefix_eligible x \<Longrightarrow> ineligibles xs = xs"
  by (auto simp: eligibles_def ineligibles_def filter_id_conv filter_empty_conv)

lemma rib_invI:
  assumes "paths_ok env (set (E @ I))" "distinct (E @ I)" "\<forall>x\<in>set E. prefix_eligible x" "\<forall>x\<in>set I. \<not> prefix_eligible x"
    "dec.canon env E" "dm_ok env dm None (E @ I)"
  shows "rib_inv env \<lparr>prefix_h = E @ I, dmetric = dm\<rparr>"
  using assms by (simp add: rib_inv_def eligibles_all)

lemma canon_sorted_lv: "dec.canon env xs \<Longrightarrow> sorted_wrt (\<lambda>a b. path_lv a \<le> path_lv b) xs"
proof (induction xs)
  case (Cons x xs)
  then show ?case using dec.canon_lv[OF Cons.prems] by simp
qed simp

lemma split_after_last:
  "distinct (map p_id (A @ B)) \<Longrightarrow> A \<noteq> [] \<Longrightarrow> split_after (p_id (last A)) (A @ B) = (A, B)"
proof (induction A)
  case (Cons a A)
  show ?case
  proof (cases "A = []")
    case False
    then have "p_id a \<noteq> p_id (last A)" using Cons.prems(1) last_in_set[OF False] by auto
    then show ?thesis using Cons False by simp
  qed simp
qed simp

lemma cut_at_insertp:
  "distinct (map p_id (A @ B)) \<Longrightarrow>
     (case last_opt A of None \<Rightarrow> ([], A @ B) | Some i \<Rightarrow> split_after (p_id i) (A @ B)) = (A, B)"
  using split_after_last[of A B] by (auto simp: last_opt_def)

lemma distinct_ids: "paths_ok env C \<Longrightarrow> set xs \<subseteq> C \<Longrightarrow> distinct xs \<Longrightarrow> distinct (map p_id xs)"
  unfolding paths_ok_def by (auto simp: distinct_map intro: inj_on_subset)

text \<open>Linking the new path in, with the dmetric of it and its successor.\<close>

lemma link_new:
  assumes C: "paths_ok env C" "set (A @ new # B) \<subseteq> C" and d: "distinct (A @ new # B)" and dm: "dm_ok env dm None (A @ B)"
  shows "\<exists>dm1 dm2. prefix_set_dmetric env dm (last_opt A) (Some new) = Inr dm1 \<and>
    prefix_set_dmetric env dm1 (Some new) (hd_opt B) = Inr dm2 \<and> dm_ok env dm2 None (A @ new # B)"
proof -
  have ids: "distinct (map p_id (A @ new # B))" using distinct_ids[OF C d] .
  have "p \<in> C \<and> p \<noteq> new" if "last_opt A = Some p" for p
    using that C(2) d last_in_set[of A] by (auto simp: last_opt_def split: if_splits)
  then obtain v where v: "dmetric_of env (last_opt A) new = Inr v"
    using dmetric_of_total[OF C(1), of new "last_opt A"] C(2) by auto
  let ?dm = "dm(p_id new := v)"
  have A: "dm_ok env ?dm None A" "dm_ok env dm (last_opt A) B"
    using dm ids by (auto simp: dm_ok_None_append dm_ok_upd)
  show ?thesis
  proof (cases B)
    case Nil
    then show ?thesis using v A by (auto simp: prefix_set_dmetric_Some hd_opt_def dm_ok_None_append)
  next
    case (Cons b B')
    obtain w where w: "dmetric_of env (Some new) b = Inr w"
      using dmetric_of_total[OF C(1), of b "Some new"] C(2) d Cons by auto
    have "dm_ok env (?dm(p_id b := w)) None (A @ new # B)"
      using A v w ids Cons by (auto simp: dm_ok_None_append dm_ok_upd fun_upd_twist)
    then show ?thesis using v w Cons by (simp add: prefix_set_dmetric_Some hd_opt_def)
  qed
qed

section \<open>Insertion\<close>

text \<open>The state in which prefix_insert() links the new path in and starts on the redo queue.\<close>

lemma prefix_insert_step:
  assumes scan: "insert_scan env new \<lparr>sc_done = left, insertp = ep, selected = False, removed = False, redo = [],
        sc_dm = dmetric re\<rparr> right = Inr (s, rest)"
    and lr: "prefix_h re = left @ right"
      "left = (case ep of None \<Rightarrow> [] | Some e \<Rightarrow> takeWhile (\<lambda>x. p_id x \<noteq> p_id e) (prefix_h re))"
    and dm: "dm_ok env (dmetric re) None (prefix_h re)" and cut: "sc_done s @ rest = A @ B" "insertp s = last_opt A"
    and C: "paths_ok env C" "insert new (set (prefix_h re)) \<subseteq> C" and d: "distinct (A @ new # B)" "set (A @ B) \<subseteq> C"
      "distinct (prefix_h re)"
  shows "\<exists>dm. prefix_insert env new ep re = res_foldl (\<lambda>re xp. prefix_insert env xp (Some new) re)
      (re\<lparr>prefix_h := A @ new # B, dmetric := dm\<rparr>) (redo s) \<and> dm_ok env dm None (A @ new # B)"
proof -
  have drop: "drop (length left) (prefix_h re) = right" using lr(1) by simp
  have ids: "distinct (map p_id (prefix_h re))" using distinct_ids[OF C(1)] C(2) d(3) by auto
  have "dm_ok env (sc_dm s) None (A @ B)"
    using insert_scan_dm[OF scan] dm lr(1) ids dm_ok_None_append[of env "dmetric re" left right]
    by (auto simp: dm_inv_def cut(1)[symmetric] dest: dm_ok_tail)
  then obtain dm1 dm2 where l: "prefix_set_dmetric env (sc_dm s) (last_opt A) (Some new) = Inr dm1"
    "prefix_set_dmetric env dm1 (Some new) (hd_opt B) = Inr dm2" "dm_ok env dm2 None (A @ new # B)"
    using link_new[OF C(1) _ d(1)] C(2) d(2) by (metis (no_types, lifting) insert_subset list.simps(15) set_append Un_insert_right)
  have "distinct (map p_id (A @ B))" using distinct_ids[OF C(1) d(2)] d(1) by auto
  note cutAB = cut_at_insertp[OF this]
  show ?thesis
    by (rule exI[of _ dm2])
      (simp only: prefix_insert.simps[of env new ep re] Let_def lr(2)[symmetric] drop scan res_bind.simps prod.case
        cut cutAB l simp_thms)
qed

lemma redo_fold:
  assumes IH: "\<And>x re C. x \<in> set xs \<Longrightarrow> rib_inv env re \<Longrightarrow> paths_ok env (insert x (set (prefix_h re))) \<Longrightarrow>
      x \<notin> set (prefix_h re) \<Longrightarrow> (\<And>e. ep = Some e \<Longrightarrow> e \<in> set (prefix_h re)) \<Longrightarrow>
      \<exists>re'. prefix_insert env x ep re = Inr re' \<and> rib_inv env re' \<and> mset (prefix_h re') = add_mset x (mset (prefix_h re))"
  shows "rib_inv env re \<Longrightarrow> paths_ok env (set ys \<union> set (prefix_h re)) \<Longrightarrow> distinct (ys @ prefix_h re) \<Longrightarrow> set ys \<subseteq> set xs \<Longrightarrow>
    (\<And>e. ep = Some e \<Longrightarrow> e \<in> set (prefix_h re)) \<Longrightarrow>
    \<exists>re'. res_foldl (\<lambda>re xp. prefix_insert env xp ep re) re ys = Inr re' \<and> rib_inv env re' \<and>
      mset (prefix_h re') = mset ys + mset (prefix_h re)"
proof (induction ys arbitrary: re)
  case (Cons y ys)
  obtain re1 where r1: "prefix_insert env y ep re = Inr re1" "rib_inv env re1"
    "mset (prefix_h re1) = add_mset y (mset (prefix_h re))"
    using IH[of y re] Cons.prems paths_ok_subset[OF Cons.prems(2), of "insert y (set (prefix_h re))"] by auto
  have s1: "set (prefix_h re1) = insert y (set (prefix_h re))" using mset_eq_setD[OF r1(3)[folded mset.simps(2)]] by simp
  have "distinct (prefix_h re1)" using r1(2) unfolding rib_inv_def by blast
  then have "\<exists>re'. res_foldl (\<lambda>re xp. prefix_insert env xp ep re) re1 ys = Inr re' \<and> rib_inv env re' \<and>
      mset (prefix_h re') = mset ys + mset (prefix_h re1)"
    using Cons.prems s1 r1(2) by (intro Cons.IH) auto
  then show ?case using r1 by auto
qed simp

definition scan_start :: "prefix list \<Rightarrow> prefix option \<Rightarrow> rib_entry \<Rightarrow> scan_state" where
  "scan_start left ep re = \<lparr>sc_done = left, insertp = ep, selected = False, removed = False, redo = [], sc_dm = dmetric re\<rparr>"

lemma rib_inv_split:
  assumes "rib_inv env re"
  shows "\<exists>E I. prefix_h re = E @ I \<and> (\<forall>x\<in>set E. prefix_eligible x) \<and> (\<forall>x\<in>set I. \<not> prefix_eligible x) \<and>
    dec.canon env E \<and> distinct (E @ I) \<and> E = eligibles (prefix_h re)"
  using assms
  by (intro exI[of _ "eligibles (prefix_h re)"] exI[of _ "ineligibles (prefix_h re)"])
    (auto simp: rib_inv_def eligibles_def ineligibles_def)

lemma rib_invD:
  "rib_inv env re \<Longrightarrow> paths_ok env (set (prefix_h re)) \<and> distinct (prefix_h re) \<and> dm_ok env (dmetric re) None (prefix_h re)"
  by (simp add: rib_inv_def)

text \<open>An eligible path behind one that dominates it, or from the start.\<close>

lemma scan_from:
  assumes C: "paths_ok env (insert new (set (E @ I)))" "new \<notin> set (E @ I)" "prefix_eligible new" "distinct (E @ I)"
    and EI: "\<forall>x\<in>set E. prefix_eligible x" "\<forall>x\<in>set I. \<not> prefix_eligible x" "dec.canon env E"
    and ep: "ep = None \<or> (\<exists>e. ep = Some e \<and> e \<in> set E \<and> med_dom env e new)"
    and h: "prefix_h re = E @ I"
  shows "\<exists>left right s rest A B. prefix_h re = left @ right \<and>
    left = (case ep of None \<Rightarrow> [] | Some e \<Rightarrow> takeWhile (\<lambda>x. p_id x \<noteq> p_id e) (prefix_h re)) \<and>
    insert_scan env new (scan_start left ep re) right = Inr (s, rest) \<and> sc_done s @ rest = A @ B @ I \<and>
    A @ B = filter (\<lambda>x. \<not> med_dom env new x) E \<and> redo s = filter (med_dom env new) E \<and> point env new A B (insertp s)"
  using ep
proof
  assume "ep = None"
  have "scan_result env new (scan_start [] None re) E I"
    using C EI by (intro insert_scan_eligible[OF C(1), where A = "[]" and B = "[]"])
      (auto simp: scan_start_def canon_sorted_lv point_def last_opt_def)
  then show ?thesis using \<open>ep = None\<close> h unfolding scan_result_def
    by (intro exI[of _ "[]"] exI[of _ "E @ I"]) (auto simp: scan_start_def)
next
  assume "\<exists>e. ep = Some e \<and> e \<in> set E \<and> med_dom env e new"
  then obtain e where e: "ep = Some e" "e \<in> set E" "med_dom env e new" by blast
  then obtain E1 E2 where E: "E = E1 @ e # E2" by (meson split_list)
  have ids: "distinct (map p_id (E @ I))" using distinct_ids[OF C(1) _ C(4)] by auto
  have left: "takeWhile (\<lambda>x. p_id x \<noteq> p_id e) (E @ I) = E1"
  proof -
    have "\<forall>x\<in>set E1. p_id x \<noteq> p_id e" using ids E by (auto simp: image_iff)
    then show ?thesis by (simp add: E takeWhile_append2)
  qed
  have nd: "\<not> med_dom env new x" if "x \<in> set (E1 @ [e])" for x
    using that e(3) dec.canon_not_later[of env E1 "e # E2" x e] EI(3) E dec.dm_trans dec.dm_irrefl
    by (metis append.assoc append_Cons append_Nil in_set_conv_decomp insert_iff list.set(2) rotate1.simps(2) set_rotate1)
  have k: "e \<noteq> new" "prefix_eligible e" using C(2) e(2) EI(1) by auto
  obtain c t where c: "prefix_cmp env (Some new) (Some e) = Inr (c, t)" "\<not> c > 0" "t = 2"
    using cmp_eligible[OF C(1), of new e] C(3) k e(2,3) nd[of e] by (auto simp: dec.gt_def)
  have "\<forall>s'. sc_done s' = E1 \<longrightarrow> (\<exists>dm. fix_removed env s' e = Inr (s'\<lparr>sc_dm := dm, removed := False\<rparr>))"
    using C(4) E by (intro allI impI fix_removed_total[OF C(1)]) auto
  from insert_scan_cases(4)[OF c(1) this, of "scan_start E1 ep re" "E2 @ I"] c(2,3)
  obtain dm where st: "insert_scan env new (scan_start E1 ep re) (e # E2 @ I) = insert_scan env new
      ((scan_start E1 ep re)\<lparr>selected := False, insertp := Some e, sc_dm := dm, removed := False, sc_done := E1 @ [e]\<rparr>) (E2 @ I)"
    by (auto simp: scan_start_def)
  let ?s = "(scan_start E1 ep re)\<lparr>selected := False, insertp := Some e, sc_dm := dm, removed := False, sc_done := E1 @ [e]\<rparr>"
  have "scan_result env new ?s E2 I"
    using C EI E point_dominator[OF e(3), of E1] canon_sorted_lv[OF EI(3)]
    by (intro insert_scan_eligible[OF C(1), where A = "E1 @ [e]" and B = "[]"]) (auto simp: sorted_wrt_append)
  moreover have "filter (\<lambda>x. \<not> med_dom env new x) E = (E1 @ [e]) @ filter (\<lambda>x. \<not> med_dom env new x) E2"
    "filter (med_dom env new) E = filter (med_dom env new) E2"
    using nd E by (auto simp: filter_id_conv filter_empty_conv)
  ultimately show ?thesis using e(1) h E left st unfolding scan_result_def
    by (intro exI[of _ E1] exI[of _ "e # E2 @ I"]) (auto simp: scan_start_def simp del: insert_scan.simps)
qed

lemma med_dom_med_of: "med_dom env a b \<Longrightarrow> prefix_eligible a \<Longrightarrow> prefix_eligible b \<Longrightarrow> med_of a < med_of b"
  by (auto simp: med_dom_def path_med_def med_of_def eligible_aspath word_less_nat_alt[symmetric] word_less_def)

lemma med_of_bound: "med_of p < 2 ^ 32"
proof (cases "p_aspath p")
  case (Some asp)
  then show ?thesis using unsigned_less[of "med asp", where ?'a = nat] by (simp add: med_of_def)
qed (simp add: med_of_def)

lemma rib_inv_upd:
  assumes "paths_ok env C" "set (E @ I) \<subseteq> C" "distinct (E @ I)" "\<forall>x\<in>set E. prefix_eligible x" "\<forall>x\<in>set I. \<not> prefix_eligible x"
    "dec.canon env E" "dm_ok env dm None (E @ I)"
  shows "rib_inv env (re\<lparr>prefix_h := E @ I, dmetric := dm\<rparr>)"
proof -
  have "re\<lparr>prefix_h := E @ I, dmetric := dm\<rparr> = \<lparr>prefix_h = E @ I, dmetric = dm\<rparr>" by (cases re) simp
  then show ?thesis using rib_invI[OF paths_ok_subset[OF assms(1,2)] assms(3-7)] by (simp only:)
qed

lemma prefix_insert_ineligible:
  assumes inv: "rib_inv env re" and C: "paths_ok env (insert new (set (prefix_h re)))" "new \<notin> set (prefix_h re)"
    "\<not> prefix_eligible new"
  shows "\<exists>re'. prefix_insert env new None re = Inr re' \<and> rib_inv env re' \<and>
    mset (prefix_h re') = add_mset new (mset (prefix_h re)) \<and> eligibles (prefix_h re') = eligibles (prefix_h re)"
proof -
  obtain E I where EI: "prefix_h re = E @ I" "\<forall>x\<in>set E. prefix_eligible x" "\<forall>x\<in>set I. \<not> prefix_eligible x"
    "dec.canon env E" "distinct (E @ I)" using rib_inv_split[OF inv] by blast
  obtain s rest where s: "insert_scan env new (scan_start [] None re) (E @ I) = Inr (s, rest)"
    "sc_done s @ rest = E @ I" "redo s = []" "insertp s = last_opt E"
    using insert_scan_ineligible[OF C(1,3), of "scan_start [] None re" E I] EI
    by (auto simp: scan_start_def last_opt_def)
  obtain dm where p: "prefix_insert env new None re = Inr (re\<lparr>prefix_h := E @ new # I, dmetric := dm\<rparr>)"
    "dm_ok env dm None (E @ new # I)"
    using prefix_insert_step[of env new "[]" None re "E @ I" s rest E I "insert new (set (prefix_h re))"]
      s EI C rib_invD[OF inv] by (auto simp: scan_start_def)
  have "rib_inv env (re\<lparr>prefix_h := E @ new # I, dmetric := dm\<rparr>)"
    using EI C p(2) by (intro rib_inv_upd[OF C(1)]) auto
  then show ?thesis using p(1) EI C(3) by (auto simp: eligibles_def)
qed

text \<open>The invariant is kept and the list gains the new path.\<close>

lemma prefix_insert_inv:
  "rib_inv env re \<Longrightarrow> paths_ok env (insert new (set (prefix_h re))) \<Longrightarrow> new \<notin> set (prefix_h re) \<Longrightarrow>
   ep = None \<or> (\<exists>e. ep = Some e \<and> e \<in> set (prefix_h re) \<and> prefix_eligible e \<and> prefix_eligible new \<and> med_dom env e new) \<Longrightarrow>
   \<exists>re'. prefix_insert env new ep re = Inr re' \<and> rib_inv env re' \<and> mset (prefix_h re') = add_mset new (mset (prefix_h re))"
proof (induction "2 ^ 32 - med_of new" arbitrary: new ep re rule: less_induct)
  case less
  show ?case
  proof (cases "prefix_eligible new")
    case False
    then show ?thesis using prefix_insert_ineligible[OF less.prems(1-3)] less.prems(4) by blast
  next
    case el: True
    let ?C = "insert new (set (prefix_h re))"
    obtain E I where EI: "prefix_h re = E @ I" "\<forall>x\<in>set E. prefix_eligible x" "\<forall>x\<in>set I. \<not> prefix_eligible x"
      "dec.canon env E" "distinct (E @ I)" using rib_inv_split[OF less.prems(1)] by blast
    have ep: "ep = None \<or> (\<exists>e. ep = Some e \<and> e \<in> set E \<and> med_dom env e new)" using less.prems(4) EI by auto
    obtain left right s rest A B where lr: "prefix_h re = left @ right"
      "left = (case ep of None \<Rightarrow> [] | Some e \<Rightarrow> takeWhile (\<lambda>x. p_id x \<noteq> p_id e) (prefix_h re))"
      and sc: "insert_scan env new (scan_start left ep re) right = Inr (s, rest)" "sc_done s @ rest = A @ B @ I"
      and AB: "A @ B = filter (\<lambda>x. \<not> med_dom env new x) E" and rd: "redo s = filter (med_dom env new) E"
      and pt: "point env new A B (insertp s)"
      using scan_from[OF less.prems(2)[unfolded EI(1)] less.prems(3)[unfolded EI(1)] el EI(5) EI(2-4) ep EI(1)] by blast
    have sub: "set (A @ B) \<subseteq> set E" "distinct (A @ B)" using AB EI(5) by auto
    have dist: "distinct (A @ new # B @ I)" using sub EI(5,1) less.prems(3) by auto
    obtain dm where p: "prefix_insert env new ep re = res_foldl (\<lambda>re xp. prefix_insert env xp (Some new) re)
        (re\<lparr>prefix_h := A @ new # B @ I, dmetric := dm\<rparr>) (redo s)" and dm: "dm_ok env dm None (A @ new # B @ I)"
      using prefix_insert_step[OF sc(1)[unfolded scan_start_def] lr _ sc(2) _ less.prems(2)] rib_invD[OF less.prems(1)] pt dist sub EI(1,5)
      by (auto simp: point_def)
    let ?re = "re\<lparr>prefix_h := A @ new # B @ I, dmetric := dm\<rparr>"
    have "dec.canon env (A @ B)"
      using dec.canon_filter[of "{x. med_dom env new x}" env E] EI(4) dec.dm_trans unfolding AB by auto
    moreover have "\<forall>x\<in>set (A @ B). \<not> med_dom env new x" unfolding AB by simp
    ultimately have "dec.canon env (A @ new # B)" using dec.ins_canon point_ins[OF pt] by metis
    then have inv: "rib_inv env ?re"
    proof -
      have "set ((A @ new # B) @ I) \<subseteq> ?C" "\<forall>x\<in>set (A @ new # B). prefix_eligible x" using sub EI(1,2) el by auto
      then show ?thesis using rib_inv_upd[OF less.prems(2), of "A @ new # B" I dm re] \<open>dec.canon env (A @ new # B)\<close> dm dist EI(3)
        by simp
    qed
    have "mset (redo s) + mset (A @ B) = mset E" unfolding rd AB by simp
    then have ms: "mset (redo s) + mset (prefix_h ?re) = add_mset new (mset (prefix_h re))"
      using EI(1) by (simp add: ac_simps)
    then have "mset (redo s @ prefix_h ?re) = mset (new # prefix_h re)" by simp
    then have all: "distinct (redo s @ prefix_h ?re)" "set (redo s @ prefix_h ?re) = ?C"
      using less.prems(3) rib_invD[OF less.prems(1)] mset_eq_imp_distinct_iff mset_eq_setD by (metis distinct.simps(2), metis list.simps(15))
    have "\<exists>re'. res_foldl (\<lambda>re xp. prefix_insert env xp (Some new) re) ?re (redo s) = Inr re' \<and> rib_inv env re' \<and>
      mset (prefix_h re') = mset (redo s) + mset (prefix_h ?re)"
    proof (rule redo_fold[where xs = "redo s"])
      fix x re1 assume x: "x \<in> set (redo s)" and r: "rib_inv env re1" "paths_ok env (insert x (set (prefix_h re1)))"
        "x \<notin> set (prefix_h re1)" "\<And>e. Some new = Some e \<Longrightarrow> e \<in> set (prefix_h re1)"
      have dx: "med_dom env new x" "prefix_eligible x" using x rd EI(2) by auto
      have "2 ^ 32 - med_of x < 2 ^ 32 - med_of new"
        using med_dom_med_of[OF dx(1) el dx(2)] med_of_bound[of x] by linarith
      then show "\<exists>re'. prefix_insert env x (Some new) re1 = Inr re' \<and> rib_inv env re' \<and>
          mset (prefix_h re') = add_mset x (mset (prefix_h re1))"
        using less.hyps[OF _ r(1-3), of "Some new"] r(4) el dx by blast
    qed (use inv less.prems(2) all in \<open>simp_all\<close>)
    then show ?thesis using p ms by simp
  qed
qed

section \<open>Removal\<close>

lemma dm_tail_append:
  "Z \<noteq> [] \<Longrightarrow> dm_tail env dm (Z @ R) = (dm_tail env dm Z \<and> dm_ok env dm (Some (last Z)) R)"
  by (cases Z) (auto simp: dm_tail_def dm_ok_append)

definition rm_inv :: "decision_env \<Rightarrow> prefix list \<Rightarrow> prefix list \<Rightarrow> scan_state \<Rightarrow> prefix list \<Rightarrow> bool" where
  "rm_inv env left Z s rest = (sc_done s = left @ Z \<and> dm_ok env (sc_dm s) None left \<and> dm_tail env (sc_dm s) Z \<and>
     dm_tail env (sc_dm s) rest \<and> (Z \<noteq> [] \<and> \<not> removed s \<longrightarrow> dm_ok env (sc_dm s) (Some (last Z)) rest))"

lemma rm_inv_step:
  assumes inv: "rm_inv env left Z s (x # rest)" and d: "distinct (map p_id (left @ Z @ x # rest))"
    and f: "fix_removed env s x = Inr s'"
  shows "rm_inv env left (Z @ [x]) (s'\<lparr>sc_done := sc_done s' @ [x]\<rparr>) rest \<and> \<not> removed s'"
proof -
  have dn: "sc_done s = left @ Z" "dm_ok env (sc_dm s) None left" "dm_tail env (sc_dm s) Z" "dm_ok env (sc_dm s) (Some x) rest"
    using inv by (auto simp: rm_inv_def dm_tail_def)
  show ?thesis
  proof (cases "removed s")
    case True
    then obtain v where v: "dmetric_of env (last_opt (left @ Z)) x = Inr v"
      and s': "s' = s\<lparr>sc_dm := (sc_dm s)(p_id x := v), removed := False\<rparr>"
      using f dn(1) by (auto simp: fix_removed_def prefix_set_dmetric_Some res_bind_Inr_iff)
    have x: "p_id x \<notin> p_id ` set left" "p_id x \<notin> p_id ` set Z" "p_id x \<notin> p_id ` set rest" using d by auto
    have "dm_tail env ((sc_dm s)(p_id x := v)) (Z @ [x])"
      using dn(3) v x(2) dm_tail_append[of Z env _ "[x]"] dm_tail_upd[of "p_id x" Z]
      by (cases "Z = []") (auto simp: dm_tail_def[of _ _ "[x]"] last_opt_def)
    then show ?thesis using dn x by (auto simp: rm_inv_def s' dm_ok_upd dm_tail_upd dest: dm_ok_tail)
  next
    case False
    then have s': "s' = s" using f by (simp add: fix_removed_def)
    have "dm_tail env (sc_dm s) (Z @ [x])"
      using inv False dm_tail_append[of Z env "sc_dm s" "[x]"]
      by (cases "Z = []") (auto simp: rm_inv_def dm_tail_def[of _ _ "[x]"])
    then show ?thesis using dn False by (auto simp: rm_inv_def s' dest: dm_ok_tail)
  qed
qed

lemma rm_inv_end: "rm_inv env left Z s rest \<Longrightarrow> rest = [] \<or> \<not> removed s \<Longrightarrow>
  dm_ok env (sc_dm s) None left \<and> dm_tail env (sc_dm s) (Z @ rest) \<and> sc_done s @ rest = left @ Z @ rest"
  using dm_tail_append[of Z env "sc_dm s" rest] by (cases "Z = []") (auto simp: rm_inv_def)

lemma remove_scan_dm:
  "remove_scan env old s rest = Inr (s', rest') \<Longrightarrow> rm_inv env left Z s rest \<Longrightarrow>
     distinct (map p_id (left @ Z @ rest)) \<Longrightarrow>
     \<exists>Y. sc_done s' @ rest' = left @ Y \<and> dm_ok env (sc_dm s') None left \<and> dm_tail env (sc_dm s') Y"
proof (induction rest arbitrary: s Z)
  case Nil
  then show ?case using rm_inv_end[of env left Z s "[]"] by auto
next
  case (Cons x rest)
  obtain c t where c: "prefix_cmp env (Some old) (Some x) = Inr (c, t)"
    using Cons.prems(1) by (auto simp: res_bind_Inr_iff)
  show ?case
  proof (cases "t = 2")
    case True
    then have r: "remove_scan env old (s\<lparr>redo := redo s @ [x], removed := True\<rparr>) rest = Inr (s', rest')"
      using Cons.prems(1) c by simp
    have "rm_inv env left Z (s\<lparr>redo := redo s @ [x], removed := True\<rparr>) rest"
      using Cons.prems(2) by (auto simp: rm_inv_def dm_tail_def[of _ _ "x # rest"] dest: dm_ok_tail)
    from Cons.IH[OF r this] show ?thesis using Cons.prems(3) by simp
  next
    case False
    then obtain s1 where f: "fix_removed env s x = Inr s1"
      and r: "t = 0 \<and> s' = s1\<lparr>sc_done := sc_done s1 @ [x]\<rparr> \<and> rest' = rest \<or>
        remove_scan env old (s1\<lparr>sc_done := sc_done s1 @ [x]\<rparr>) rest = Inr (s', rest')"
      using Cons.prems(1) c by (auto simp: res_bind_Inr_iff split: if_splits)
    note st = rm_inv_step[OF Cons.prems(2) Cons.prems(3) f]
    from r show ?thesis
    proof
      assume "t = 0 \<and> s' = s1\<lparr>sc_done := sc_done s1 @ [x]\<rparr> \<and> rest' = rest"
      then show ?thesis using rm_inv_end[of env left "Z @ [x]" s' rest] st by auto
    next
      assume "remove_scan env old (s1\<lparr>sc_done := sc_done s1 @ [x]\<rparr>) rest = Inr (s', rest')"
      from Cons.IH[OF this, of "Z @ [x]"] show ?thesis using st Cons.prems(3) by simp
    qed
  qed
qed

lemma remove_scan_eligible:
  assumes C: "paths_ok env C" "old \<in> C" "prefix_eligible old"
  shows "set (sc_done s @ RE @ RI) \<subseteq> C - {old} \<Longrightarrow> distinct (sc_done s @ RE @ RI) \<Longrightarrow>
    \<forall>x\<in>set RE. prefix_eligible x \<and> \<not> med_dom env x old \<and> path_lv old \<le> path_lv x \<Longrightarrow> \<forall>x\<in>set RI. \<not> prefix_eligible x \<Longrightarrow>
    sorted_wrt (\<lambda>a b. path_lv a \<le> path_lv b) RE \<Longrightarrow>
    \<exists>s' rest'. remove_scan env old s (RE @ RI) = Inr (s', rest') \<and>
      sc_done s' @ rest' = sc_done s @ filter (\<lambda>x. \<not> med_dom env old x) RE @ RI \<and>
      redo s' = redo s @ filter (med_dom env old) RE"
proof (induction RE arbitrary: s)
  case Nil
  show ?case
  proof (cases RI)
    case (Cons x xs)
    then have "prefix_cmp env (Some old) (Some x) = Inr (1, 0)" using Nil.prems(4) by (simp add: cmp_ineligible)
    moreover obtain dm where "fix_removed env s x = Inr (s\<lparr>sc_dm := dm, removed := False\<rparr>)"
      using fix_removed_total[OF C(1), of x s] Nil.prems(1,2) Cons by auto
    ultimately show ?thesis using Cons by auto
  qed simp
next
  case (Cons x RE)
  have x: "x \<in> C" "x \<noteq> old" "prefix_eligible x" "\<not> med_dom env x old" "path_lv old \<le> path_lv x" using Cons.prems by auto
  obtain c t where c: "prefix_cmp env (Some old) (Some x) = Inr (c, t)"
    and t2: "t = 2 \<longleftrightarrow> med_dom env old x \<or> med_dom env x old"
    and t0: "t = 0 \<longleftrightarrow> med_always env \<or> path_lv old \<noteq> path_lv x"
    using cmp_eligible[OF C(1,2) x(1) x(2)[symmetric] C(3) x(3)] by (elim exE conjE) (rule that)
  obtain dm where f: "fix_removed env s x = Inr (s\<lparr>sc_dm := dm, removed := False\<rparr>)"
    using fix_removed_total[OF C(1) x(1), of s] Cons.prems(1,2) by auto
  show ?case
  proof (cases "t = 2")
    case True
    then have "med_dom env old x" using t2 x(4) by blast
    moreover have "\<exists>s' rest'. remove_scan env old (s\<lparr>redo := redo s @ [x], removed := True\<rparr>) (RE @ RI) = Inr (s', rest') \<and>
      sc_done s' @ rest' = sc_done s @ filter (\<lambda>x. \<not> med_dom env old x) RE @ RI \<and>
      redo s' = (redo s @ [x]) @ filter (med_dom env old) RE"
      using Cons.IH[of "s\<lparr>redo := redo s @ [x], removed := True\<rparr>"] Cons.prems by simp
    ultimately show ?thesis using c True by simp
  next
    case False
    then have nd: "\<not> med_dom env old x" using t2 by blast
    show ?thesis
    proof (cases "t = 0")
      case True
      have "\<not> med_dom env old y" if "y \<in> set RE" for y
        using True t0 x(5) Cons.prems(5) that by (auto simp: med_dom_def)
      then have "filter (\<lambda>x. \<not> med_dom env old x) RE = RE" "filter (med_dom env old) RE = []"
        by (auto simp: filter_id_conv filter_empty_conv)
      then show ?thesis using c f True nd by simp
    next
      case n0: False
      have "\<exists>s' rest'. remove_scan env old (s\<lparr>sc_dm := dm, removed := False, sc_done := sc_done s @ [x]\<rparr>) (RE @ RI) = Inr (s', rest') \<and>
        sc_done s' @ rest' = (sc_done s @ [x]) @ filter (\<lambda>x. \<not> med_dom env old x) RE @ RI \<and>
        redo s' = redo s @ filter (med_dom env old) RE"
        using Cons.IH[of "s\<lparr>sc_dm := dm, removed := False, sc_done := sc_done s @ [x]\<rparr>"] Cons.prems by simp
      then show ?thesis using c f False n0 nd by simp
    qed
  qed
qed

lemma relink:
  assumes C: "paths_ok env C" "set (left @ Y) \<subseteq> C" "distinct (left @ Y)" and dm: "dm_ok env dm None left" "dm_tail env dm Y"
  shows "\<exists>dm'. prefix_set_dmetric env dm (last_opt left) (hd_opt Y) = Inr dm' \<and> dm_ok env dm' None (left @ Y)"
proof (cases Y)
  case Nil
  then show ?thesis using dm by (simp add: hd_opt_def)
next
  case (Cons y ys)
  have ids: "distinct (map p_id (left @ Y))" using distinct_ids[OF C] .
  have "p \<in> C \<and> p \<noteq> y" if "last_opt left = Some p" for p
    using that C(2,3) Cons last_in_set[of left] by (auto simp: last_opt_def split: if_splits)
  then obtain v where v: "dmetric_of env (last_opt left) y = Inr v"
    using dmetric_of_total[OF C(1), of y "last_opt left"] C(2) Cons by auto
  have "dm_ok env (dm(p_id y := v)) None (left @ Y)"
    using dm v ids Cons by (auto simp: dm_ok_None_append dm_ok_upd dm_tail_def)
  then show ?thesis using v Cons by (simp add: hd_opt_def prefix_set_dmetric_Some)
qed

lemma unlink_at:
  assumes "paths_ok env (set xs)" "distinct xs" "xs = left @ old # right"
  shows "takeWhile (\<lambda>x. p_id x \<noteq> p_id old) xs = left" "drop (length left + 1) xs = right"
proof -
  have "\<forall>x\<in>set left. p_id x \<noteq> p_id old"
    using distinct_ids[OF assms(1) order_refl assms(2)] assms(3) by (auto simp: image_iff)
  then show "takeWhile (\<lambda>x. p_id x \<noteq> p_id old) xs = left" using assms(3) by (simp add: takeWhile_append2)
qed (simp add: assms(3))

text \<open>prefix_remove() once the scan is known.\<close>

lemma prefix_remove_step:
  assumes h: "prefix_h re = left @ old # right" and inv: "rib_inv env re"
    and c: "prefix_cmp env (Some old) (hd_opt right) = Inr (c, t)"
    and sc: "(if t > 0 then remove_scan env old (scan_start left None re) right else Inr (scan_start left None re, right)) = Inr (s, rest)"
    and xs: "sc_done s @ rest = left @ Y" "set Y \<subseteq> set right" "distinct Y"
  shows "\<exists>dm. prefix_remove env old re = res_foldl (\<lambda>re xp. prefix_insert env xp None re)
      (re\<lparr>prefix_h := left @ Y, dmetric := dm\<rparr>) (redo s) \<and> dm_ok env dm None (left @ Y)"
proof -
  note inv' = rib_invD[OF inv]
  have d: "distinct (left @ old # right)" and C: "paths_ok env (set (prefix_h re))" using inv' h by auto
  note cut = unlink_at[OF C inv'[THEN conjunct2, THEN conjunct1] h]
  have dm: "dm_ok env (dmetric re) None left" "dm_tail env (dmetric re) right"
    using inv' unfolding h dm_ok_None_append by (auto dest: dm_ok_tail)
  have "rm_inv env left [] (scan_start left None re) right" using dm by (simp add: rm_inv_def scan_start_def dm_tail_def[of _ _ "[]"])
  moreover have "distinct (map p_id (left @ [] @ right))" using distinct_ids[OF C, of "left @ right"] h d by auto
  ultimately have "\<exists>Y'. sc_done s @ rest = left @ Y' \<and> dm_ok env (sc_dm s) None left \<and> dm_tail env (sc_dm s) Y'"
    using remove_scan_dm[of env old "scan_start left None re" right s rest left "[]"] sc dm
    by (auto simp: scan_start_def split: if_splits)
  then have Y: "dm_ok env (sc_dm s) None left" "dm_tail env (sc_dm s) Y" using xs(1) by auto
  have "set (left @ Y) \<subseteq> set (prefix_h re)" "distinct (left @ Y)" using xs h d by auto
  from relink[OF C this Y] obtain dm where
    r: "prefix_set_dmetric env (sc_dm s) (last_opt left) (hd_opt Y) = Inr dm" "dm_ok env dm None (left @ Y)" by blast
  have ne: "(length left = length (prefix_h re)) = False" using h by simp
  have dr: "drop (length left) (left @ Y) = Y" by simp
  have "prefix_remove env old re = res_foldl (\<lambda>re xp. prefix_insert env xp None re)
      (re\<lparr>prefix_h := left @ Y, dmetric := dm\<rparr>) (redo s)"
    unfolding prefix_remove_def Let_def cut scan_start_def[symmetric] ne if_False c res_bind.simps prod.case sc xs(1) dr r(1) ..
  then show ?thesis using r(2) by blast
qed

lemma prefix_remove_inv:
  assumes inv: "rib_inv env re" and old: "old \<in> set (prefix_h re)"
  shows "\<exists>re'. prefix_remove env old re = Inr re' \<and> rib_inv env re' \<and> mset (prefix_h re') = mset (prefix_h re) - {#old#}"
proof -
  obtain E I where EI: "prefix_h re = E @ I" "\<forall>x\<in>set E. prefix_eligible x" "\<forall>x\<in>set I. \<not> prefix_eligible x"
    "dec.canon env E" "distinct (E @ I)" using rib_inv_split[OF inv] by blast
  note C = rib_invD[OF inv, THEN conjunct1]
  show ?thesis
  proof (cases "prefix_eligible old")
    case False
    then obtain I1 I2 where I: "I = I1 @ old # I2" using old EI by (auto dest!: split_list[of old I])
    have c: "prefix_cmp env (Some old) (hd_opt I2) = Inr (1, 0)"
      using EI(3) I by (cases I2) (auto simp: hd_opt_def cmp_ineligible prefix_cmp_def)
    obtain dm where r: "prefix_remove env old re = Inr (re\<lparr>prefix_h := E @ I1 @ I2, dmetric := dm\<rparr>)"
      "dm_ok env dm None (E @ I1 @ I2)"
      using prefix_remove_step[OF _ inv c, of "E @ I1" "scan_start (E @ I1) None re" I2 I2] EI I
      by (auto simp: scan_start_def)
    have "rib_inv env (re\<lparr>prefix_h := E @ I1 @ I2, dmetric := dm\<rparr>)"
      using EI I r(2) by (intro rib_inv_upd[OF C]) auto
    then show ?thesis using r(1) EI(1) I by (intro exI[of _ "re\<lparr>prefix_h := E @ I1 @ I2, dmetric := dm\<rparr>"]) simp
  next
    case el: True
    then obtain E1 E2 where E: "E = E1 @ old # E2" using old EI by (auto dest!: split_list[of old E])
    let ?D = "filter (med_dom env old) E2" and ?N = "filter (\<lambda>x. \<not> med_dom env old x) E2"
    have lv: "sorted_wrt (\<lambda>a b. path_lv a \<le> path_lv b) (old # E2)"
      using canon_sorted_lv[OF EI(4)] E by (simp add: sorted_wrt_append)
    have nd: "\<not> med_dom env x old" if "x \<in> set E2" for x
      using dec.canon_not_later[of env "E1 @ [old]" E2 old x] EI(4) E that by simp
    have o: "old \<in> set (prefix_h re)" using old .
    obtain s rest where sc: "remove_scan env old (scan_start E1 None re) (E2 @ I) = Inr (s, rest)"
      "sc_done s @ rest = E1 @ ?N @ I" "redo s = ?D"
      using remove_scan_eligible[OF C o el, of "scan_start E1 None re" E2 I] EI E lv nd
      by (auto simp: scan_start_def)
    obtain c t where c: "prefix_cmp env (Some old) (hd_opt (E2 @ I)) = Inr (c, t)"
      and t0: "t = 0 \<Longrightarrow> ?D = [] \<and> ?N = E2"
    proof (cases E2)
      case Nil
      then have "prefix_cmp env (Some old) (hd_opt (E2 @ I)) = Inr (1, 0)"
        using EI(3) by (cases I) (auto simp: hd_opt_def cmp_ineligible prefix_cmp_def)
      then show ?thesis using that Nil by simp
    next
      case (Cons x xs)
      then have x: "x \<in> set (prefix_h re)" "x \<noteq> old" "prefix_eligible x" using EI E by auto
      obtain c t where c: "prefix_cmp env (Some old) (Some x) = Inr (c, t)"
        and t0: "t = 0 \<longleftrightarrow> med_always env \<or> path_lv old \<noteq> path_lv x"
        using cmp_eligible[OF C o x(1) x(2)[symmetric] el x(3)] by (elim exE conjE) (rule that)
      have "\<not> med_dom env old y" if "t = 0" "y \<in> set E2" for y
        using that t0 lv Cons by (auto simp: med_dom_def)
      then have "t = 0 \<Longrightarrow> ?D = [] \<and> ?N = E2" by (auto simp: filter_id_conv filter_empty_conv)
      then show ?thesis using that c Cons by (simp add: hd_opt_def)
    qed
    obtain s' rest' where sc': "(if t > 0 then remove_scan env old (scan_start E1 None re) (E2 @ I)
        else Inr (scan_start E1 None re, E2 @ I)) = Inr (s', rest')" "sc_done s' @ rest' = E1 @ ?N @ I" "redo s' = ?D"
      using sc t0 by (cases "t > 0") (auto simp: scan_start_def)
    have h: "prefix_h re = E1 @ old # E2 @ I" using EI(1) E by simp
    obtain dm where r: "prefix_remove env old re = res_foldl (\<lambda>re xp. prefix_insert env xp None re)
        (re\<lparr>prefix_h := E1 @ ?N @ I, dmetric := dm\<rparr>) ?D" "dm_ok env dm None (E1 @ ?N @ I)"
      using prefix_remove_step[OF h inv c sc'(1,2)] sc'(3) EI(5) E by auto
    let ?re = "re\<lparr>prefix_h := (E1 @ ?N) @ I, dmetric := dm\<rparr>"
    have keep: "filter (\<lambda>x. x \<notin> {x. x = old \<or> med_dom env old x}) E = E1 @ ?N"
    proof -
      have "x \<noteq> old \<and> \<not> med_dom env old x" if "x \<in> set E1" for x
        using dec.canon_not_later[of env E1 "old # E2" x old] EI(4,5) E that by auto
      moreover have "x \<noteq> old" if "x \<in> set E2" for x using EI(5) E that by auto
      ultimately show ?thesis unfolding E by (auto simp: filter_id_conv intro!: filter_cong)
    qed
    have "dec.canon env (E1 @ ?N)"
      using dec.canon_filter[of "{x. x = old \<or> med_dom env old x}" env E] EI(4) dec.dm_trans unfolding keep by blast
    then have inv1: "rib_inv env ?re"
      using EI E r(2) by (intro rib_inv_upd[OF C]) auto
    have ms: "mset ?D + mset (prefix_h ?re) = mset (prefix_h re) - {#old#}" using h by (simp add: ac_simps)
    then have ms': "mset (?D @ prefix_h ?re) = mset (remove1 old (prefix_h re))" by simp
    have "distinct (?D @ prefix_h ?re)" "set (?D @ prefix_h ?re) \<subseteq> set (prefix_h re)"
      using mset_eq_imp_distinct_iff[OF ms'] mset_eq_setD[OF ms'] EI(1,5) set_remove1_subset[of old "prefix_h re"]
      by (auto simp del: append_assoc)
    then have "\<exists>re'. res_foldl (\<lambda>re xp. prefix_insert env xp None re) ?re ?D = Inr re' \<and> rib_inv env re' \<and>
        mset (prefix_h re') = mset ?D + mset (prefix_h ?re)"
      using inv1 paths_ok_subset[OF C]
      by (intro redo_fold[where xs = ?D]) (auto intro: prefix_insert_inv simp del: append_assoc)
    then show ?thesis using r(1) ms by simp
  qed
qed

end
