(* ===== verification/Rib_Decision.thy ===== *)
theory Rib_Decision
  imports Decide_Correct
begin

text \<open>
  What the decision process promises. The reference is the tie breaking of RFC 4271, 9.1.2.2, as a
  sequence of eliminations over the set of eligible paths. The list a rib entry keeps incrementally has
  the same best path, in an order that does not depend on the history, and the events sent to
  the kernel routing table keep it in step with the best path.
\<close>

section \<open>Reference: elimination step by step\<close>

definition keep_min :: "('p \<Rightarrow> 'k::linorder) \<Rightarrow> 'p list \<Rightarrow> 'p list" where
  "keep_min f xs = filter (\<lambda>p. \<forall>q\<in>set xs. f p \<le> f q) xs"

text \<open>MULTI_EXIT_DISC is compared between paths from the same neighbor, or always when so configured.\<close>

definition keep_med :: "decision_env \<Rightarrow> prefix list \<Rightarrow> prefix list" where
  "keep_med env xs = filter (\<lambda>p. \<not> (\<exists>q\<in>set xs.
     (med_always env \<or> path_nb env q = path_nb env p) \<and> path_med q < path_med p)) xs"

definition rfc4271_select :: "decision_env \<Rightarrow> prefix list \<Rightarrow> prefix list" where
  "rfc4271_select env xs =
     (let lp = keep_min (\<lambda>p. - uint (lpref (path_asp p))) xs;
          len = keep_min (\<lambda>p. uint (ap_ascnt (asp_aspath (path_asp p)))) lp;
          orig = keep_min (\<lambda>p. uint (origin (path_asp p))) len;
          meds = keep_med env orig;
          eb = keep_min (\<lambda>p. - uint (ebgp (p_peer p))) meds;
          wt = keep_min (\<lambda>p. - uint (weight (path_asp p))) eb;
          age = (if route_age env then keep_min lastchange wt else wt);
          ids = keep_min (\<lambda>p. uint (unres 0 (cmp_bgpid env p (path_asp p)))) age;
          cl = keep_min (\<lambda>p. unres 0 (cluster_cnt env (path_asp p))) ids
      in keep_min addr_key cl)"

lemma keep_min_keep_min: "keep_min g (keep_min f xs) = keep_min (\<lambda>p. (f p, g p)) xs"
proof -
  have "(\<forall>q\<in>set xs. (f p, g p) \<le> (f q, g q)) \<longleftrightarrow>
      (\<forall>q\<in>set xs. f p \<le> f q) \<and> (\<forall>q\<in>set (keep_min f xs). g p \<le> g q)" if p: "p \<in> set xs" for p
  proof
    assume a: "\<forall>q\<in>set xs. (f p, g p) \<le> (f q, g q)"
    then have "\<forall>q\<in>set xs. f p \<le> f q" by (auto intro: lex_le_fst)
    moreover have "g p \<le> g q" if q: "q \<in> set (keep_min f xs)" for q
      using a that p calculation by (fastforce simp: keep_min_def)
    ultimately show "(\<forall>q\<in>set xs. f p \<le> f q) \<and> (\<forall>q\<in>set (keep_min f xs). g p \<le> g q)" by blast
  next
    assume a: "(\<forall>q\<in>set xs. f p \<le> f q) \<and> (\<forall>q\<in>set (keep_min f xs). g p \<le> g q)"
    show "\<forall>q\<in>set xs. (f p, g p) \<le> (f q, g q)"
    proof
      fix q assume q: "q \<in> set xs"
      show "(f p, g p) \<le> (f q, g q)"
      proof (cases "f p = f q")
        case True
        then have "q \<in> set (keep_min f xs)" using a q by (auto simp: keep_min_def)
        then show ?thesis using a True by simp
      next
        case False
        then show ?thesis using a q by (simp add: order.strict_iff_order)
      qed
    qed
  qed
  then show ?thesis
    unfolding keep_min_def[of g] keep_min_def[of "\<lambda>p. (f p, g p)"]
    by (auto simp: keep_min_def[of f] filter_filter intro!: filter_cong)
qed

lemma set_keep_min: "set (keep_min f xs) = {p \<in> set xs. \<forall>q\<in>set xs. f p \<le> f q}"
  by (auto simp: keep_min_def)

lemma set_keep_med: "set (keep_med env xs) = {p \<in> set xs. \<forall>q\<in>set xs.
    (med_always env \<or> path_nb env q = path_nb env p) \<longrightarrow> path_med p \<le> path_med q}"
  by (auto simp: keep_med_def not_less)

lemma rfc4271_select_keys:
  "rfc4271_select env xs = keep_min (late_key env) (keep_med env (keep_min path_lv xs))"
proof -
  have age: "keep_min (\<lambda>p. if route_age env then lastchange p else 0) ys = (if route_age env then keep_min lastchange ys else ys)" for ys
    by (simp add: keep_min_def)
  have cl: "keep_min (\<lambda>p. int (h p)) ys = keep_min h ys" for h :: "prefix \<Rightarrow> nat" and ys
    by (simp add: keep_min_def)
  show ?thesis
    unfolding rfc4271_select_def Let_def path_lv_def late_key_def keep_min_keep_min[symmetric] age cl ..
qed

lemma best_of_lv:
  assumes "finite S" and "dec.best_of env S x" and "y \<in> S"
  shows "path_lv x \<le> path_lv y"
proof -
  obtain z where z: "dec.undominated env S z" "z = y \<or> med_dom env z y"
    using dec.undominated_above[OF assms(1,3)] by blast
  then have "path_lv x \<le> path_lv z" using assms(2) dec.key_lv[of env x z] unfolding dec.best_of_def by blast
  then show ?thesis using z(2) dec.dm_lv by auto
qed

lemma key_le_same_lv:
  "path_lv x = path_lv y \<Longrightarrow> path_key env x \<le> path_key env y \<longleftrightarrow>
    (if med_always env then path_med x < path_med y \<or> path_med x = path_med y \<and> late_key env x \<le> late_key env y
     else late_key env x \<le> late_key env y)"
  by (auto simp: path_key_def)

lemma select_best:
  assumes b: "dec.best_of env (set xs) x"
  shows "x \<in> set (rfc4271_select env xs)"
proof -
  have x: "x \<in> set xs" using b by (simp add: dec.best_of_def dec.undominated_def)
  have lv: "\<forall>y\<in>set xs. path_lv x \<le> path_lv y" using best_of_lv[OF _ b] by simp
  let ?L = "set (keep_min path_lv xs)"
  have L: "y \<in> ?L \<longleftrightarrow> y \<in> set xs \<and> path_lv y = path_lv x" for y
    using lv x by (auto simp: set_keep_min intro: antisym)
  have und: "dec.undominated env (set xs) y" if "y \<in> set (keep_med env (keep_min path_lv xs))" for y
    using that L by (auto simp: set_keep_med dec.undominated_def med_dom_def not_less)
  have med: "path_med x \<le> path_med q" if "q \<in> ?L" "med_always env \<or> path_nb env q = path_nb env x" for q
  proof (cases "med_always env")
    case True
    then have "dec.undominated env (set xs) q" using that(1) L by (auto simp: dec.undominated_def med_dom_def)
    then have "path_key env x \<le> path_key env q" using b by (auto simp: dec.best_of_def)
    then show ?thesis using key_le_same_lv[of x q env] True that(1) L by auto
  next
    case False
    then show ?thesis using b that L by (auto simp: dec.best_of_def dec.undominated_def med_dom_def not_less)
  qed
  have xm: "x \<in> set (keep_med env (keep_min path_lv xs))" using med x L by (auto simp: set_keep_med)
  have "late_key env x \<le> late_key env y" if y: "y \<in> set (keep_med env (keep_min path_lv xs))" for y
  proof -
    have "path_key env x \<le> path_key env y" using b und[OF y] by (auto simp: dec.best_of_def)
    moreover have "path_lv x = path_lv y" "y \<in> ?L" using y L by (auto simp: set_keep_med)
    moreover have "med_always env \<Longrightarrow> path_med y \<le> path_med x" using y xm by (auto simp: set_keep_med)
    ultimately show ?thesis using key_le_same_lv[of x y env] by (auto split: if_splits)
  qed
  then show ?thesis unfolding rfc4271_select_keys using xm by (auto simp: set_keep_min)
qed

lemma select_unique:
  assumes "x \<in> set (rfc4271_select env xs)" "y \<in> set (rfc4271_select env xs)"
  shows "path_key env x = path_key env y"
proof -
  have lv: "path_lv x = path_lv y" and late: "late_key env x = late_key env y"
    using assms unfolding rfc4271_select_keys by (auto simp: set_keep_min set_keep_med intro: antisym)
  moreover have "med_always env \<Longrightarrow> path_med x = path_med y"
    using assms unfolding rfc4271_select_keys by (auto simp: set_keep_min set_keep_med intro: antisym)
  ultimately show ?thesis by (simp add: path_key_def)
qed

lemma singleton_list: "set ys = {x} \<Longrightarrow> distinct ys \<Longrightarrow> ys = [x]"
proof (cases ys)
  case (Cons y zs)
  assume "set ys = {x}" "distinct ys"
  then show ?thesis using Cons by (cases zs) auto
qed simp

text \<open>The eliminations leave exactly one path, the first of the canonical list.\<close>

lemma canon_select:
  assumes c: "dec.canon env (x # xs)" and d: "distinct (x # xs)" and i: "inj_on (path_key env) (set (x # xs))"
  shows "rfc4271_select env (x # xs) = [x]"
proof -
  let ?S = "rfc4271_select env (x # xs)"
  have x: "x \<in> set ?S" using select_best[of env "x # xs" x] c by simp
  have sub: "set ?S \<subseteq> set (x # xs)"
    unfolding rfc4271_select_keys by (auto simp: set_keep_min set_keep_med)
  have "y = x" if "y \<in> set ?S" for y
    using inj_onD[OF i select_unique[OF that x]] sub that by auto
  then have "set ?S = {x}" using x by blast
  moreover have "distinct ?S" using d unfolding rfc4271_select_keys keep_min_def keep_med_def by simp
  ultimately show ?thesis by (rule singleton_list)
qed

section \<open>Runs of a rib entry\<close>

text \<open>
  The calls rde_rib.c makes: a path in the list may be replaced or withdrawn, a new object may be
  added, and the nexthop of a path in the list may change its state. Transmitted path identifiers are never 0.
\<close>

definition admissible :: "decision_env \<Rightarrow> rib_entry \<Rightarrow> prefix option \<Rightarrow> prefix option \<Rightarrow> bool" where
  "admissible env re new old = ((new \<noteq> None \<or> old \<noteq> None) \<and> (\<forall>p. old = Some p \<longrightarrow> p \<in> set (prefix_h re)) \<and>
     (\<forall>n. new = Some n \<longrightarrow> n \<notin> set (prefix_h re) \<and> paths_ok env (insert n (set (prefix_h re))) \<and> path_id_tx n \<noteq> 0))"

definition nexthop_admissible :: "decision_env \<Rightarrow> rib_entry \<Rightarrow> prefix \<Rightarrow> nexthop_state \<Rightarrow> bool" where
  "nexthop_admissible env re p state = (p \<in> set (prefix_h re) \<and>
     paths_ok env (insert (set_nhvalid state p) (set (prefix_h re) - {p})))"

text \<open>The kernel routing table holds the path of the last message for the prefix.\<close>

fun fib_apply :: "prefix option \<Rightarrow> decision_event \<Rightarrow> prefix option" where
  "fib_apply fib (Send_kroute new old) = new"
| "fib_apply fib (Enqueue_updates peer new tx mode) = fib"

inductive rib_run :: "decision_env \<Rightarrow> u16 \<Rightarrow> bool \<Rightarrow> rib_entry \<Rightarrow> prefix option \<Rightarrow> bool" for env flags eval_all where
  start: "rib_run env flags eval_all \<lparr>prefix_h = [], dmetric = dm\<rparr> None"
| evaluate: "rib_run env flags eval_all re fib \<Longrightarrow> admissible env re new old \<Longrightarrow>
    prefix_evaluate env flags eval_all re new old = Inr (re', evs) \<Longrightarrow>
    rib_run env flags eval_all re' (foldl fib_apply fib evs)"
| nexthop: "rib_run env flags eval_all re fib \<Longrightarrow> nexthop_admissible env re p state \<Longrightarrow>
    prefix_evaluate_nexthop env flags eval_all re p state oldstate = Inr (re', evs) \<Longrightarrow>
    rib_run env flags eval_all re' (foldl fib_apply fib evs)"

text \<open>The list part of prefix_evaluate(), on a rib the decision process is on for.\<close>

definition opt_mset :: "'a option \<Rightarrow> 'a multiset" where
  "opt_mset x = (case x of None \<Rightarrow> {#} | Some y \<Rightarrow> {#y#})"

lemma evaluate_lists:
  assumes inv: "rib_inv env re" and adm: "admissible env re new old"
  shows "\<exists>re1 re2. (case old of None \<Rightarrow> Inr re | Some p \<Rightarrow> prefix_remove env p re) = Inr re1 \<and>
    (case new of None \<Rightarrow> Inr re1 | Some n \<Rightarrow> prefix_insert env n None re1) = Inr re2 \<and> rib_inv env re2 \<and>
    mset (prefix_h re2) = mset (prefix_h re) - opt_mset old + opt_mset new"
proof -
  obtain re1 where r1: "(case old of None \<Rightarrow> Inr re | Some p \<Rightarrow> prefix_remove env p re) = Inr re1" "rib_inv env re1"
    "mset (prefix_h re1) = mset (prefix_h re) - opt_mset old"
    using prefix_remove_inv[OF inv] inv adm by (cases old) (auto simp: admissible_def opt_mset_def)
  have sub: "set (prefix_h re1) \<subseteq> set (prefix_h re)"
    using set_mset_mono[OF diff_subset_eq_self[of "mset (prefix_h re)" "opt_mset old"]] r1(3)
    by (metis set_mset_mset)
  have "\<exists>re2. (case new of None \<Rightarrow> Inr re1 | Some n \<Rightarrow> prefix_insert env n None re1) = Inr re2 \<and> rib_inv env re2 \<and>
      mset (prefix_h re2) = mset (prefix_h re1) + opt_mset new"
  proof (cases new)
    case None
    then show ?thesis using r1(2) by (simp add: opt_mset_def)
  next
    case (Some n)
    have "n \<notin> set (prefix_h re1)" "paths_ok env (insert n (set (prefix_h re1)))"
      using adm Some sub paths_ok_subset[of env "insert n (set (prefix_h re))" "insert n (set (prefix_h re1))"]
      by (auto simp: admissible_def)
    then show ?thesis using prefix_insert_inv[OF r1(2), of n None] Some by (auto simp: opt_mset_def)
  qed
  then show ?thesis using r1(1,3) by auto
qed

lemma prefix_evaluate_total:
  assumes inv: "rib_inv env re" and adm: "admissible env re new old" and fl: "flags AND F_RIB_NOEVALUATE = 0"
  shows "\<exists>re' evs. prefix_evaluate env flags eval_all re new old = Inr (re', evs) \<and> rib_inv env re' \<and>
    mset (prefix_h re') = mset (prefix_h re) - opt_mset old + opt_mset new"
proof -
  obtain re1 re2 where r: "(case old of None \<Rightarrow> Inr re | Some p \<Rightarrow> prefix_remove env p re) = Inr re1"
    "(case new of None \<Rightarrow> Inr re1 | Some n \<Rightarrow> prefix_insert env n None re1) = Inr re2" "rib_inv env re2"
    "mset (prefix_h re2) = mset (prefix_h re) - opt_mset old + opt_mset new"
    using evaluate_lists[OF inv adm] by blast
  have "(old = None \<and> new = None) = False" using adm by (auto simp: admissible_def)
  then have "\<exists>evs. prefix_evaluate env flags eval_all re new old = Inr (re2, evs)"
    unfolding prefix_evaluate_def Let_def by (simp only: fl simp_thms if_False r(1,2) res_bind.simps) blast
  then show ?thesis using r(3,4) by blast
qed

lemma set_nhvalid_id [simp]: "p_id (set_nhvalid st p) = p_id p"
  by (simp add: set_nhvalid_def)

lemma prefix_evaluate_nexthop_total:
  assumes inv: "rib_inv env re" and adm: "nexthop_admissible env re p state" and fl: "flags AND F_RIB_NOEVALUATE = 0"
    and ne: "oldstate \<noteq> state"
  shows "\<exists>re1 re'. prefix_remove env p re = Inr re1 \<and> prefix_insert env (set_nhvalid state p) None re1 = Inr re' \<and>
    rib_inv env re' \<and> mset (prefix_h re') = add_mset (set_nhvalid state p) (mset (prefix_h re) - {#p#})"
proof -
  have p: "p \<in> set (prefix_h re)" using adm by (simp add: nexthop_admissible_def)
  obtain re1 where r1: "prefix_remove env p re = Inr re1" "rib_inv env re1" "mset (prefix_h re1) = mset (prefix_h re) - {#p#}"
    using prefix_remove_inv[OF inv p] by blast
  have s1: "set (prefix_h re1) = set (prefix_h re) - {p}"
  proof -
    have "mset (prefix_h re1) = mset (remove1 p (prefix_h re))" using r1(3) by simp
    then show ?thesis using mset_eq_setD rib_invD[OF inv] set_remove1_eq by metis
  qed
  have "set_nhvalid state p \<notin> set (prefix_h re1)"
  proof
    assume "set_nhvalid state p \<in> set (prefix_h re1)"
    then have "set_nhvalid state p = p" "set_nhvalid state p \<noteq> p"
      using s1 p rib_invD[OF inv] by (auto simp: paths_ok_def dest!: inj_onD[of p_id _ "set_nhvalid state p" p])
    then show False by simp
  qed
  then show ?thesis
    using prefix_insert_inv[OF r1(2), of "set_nhvalid state p" None] adm r1(1,3) s1 by (auto simp: nexthop_admissible_def)
qed

lemma best_hd:
  assumes "rib_inv env re" and "flags AND F_RIB_NOEVALUATE = 0"
  shows "prefix_best flags re = hd_opt (eligibles (prefix_h re))"
proof -
  obtain E I where "prefix_h re = E @ I" "\<forall>x\<in>set E. prefix_eligible x" "\<forall>x\<in>set I. \<not> prefix_eligible x"
    using rib_inv_split[OF assms(1)] by blast
  then show ?thesis using assms(2)
    by (cases E; cases I) (auto simp: prefix_best_def hd_opt_def eligibles_def filter_empty_conv split: list.split)
qed

lemma best_mem: "prefix_best flags re = Some x \<Longrightarrow> x \<in> set (prefix_h re) \<and> prefix_eligible x"
  by (auto simp: prefix_best_def split: if_splits list.splits)

lemma same_ptr_eq:
  assumes "inj_on p_id C" and "\<And>x. a = Some x \<Longrightarrow> x \<in> C" and "\<And>x. b = Some x \<Longrightarrow> x \<in> C" and "same_ptr a b"
  shows "a = b"
  using assms by (cases a; cases b) (auto simp: same_ptr_def dest: inj_onD)

lemma inj_rib: "rib_inv env re \<Longrightarrow> inj_on p_id (set (prefix_h re))"
  using rib_invD by (auto simp: paths_ok_def)

text \<open>Two lists with the same eligible paths have the same best path and order.\<close>

lemma inv_determined:
  assumes "rib_inv env a" "rib_inv env b" "{p \<in> set (prefix_h a). prefix_eligible p} = {p \<in> set (prefix_h b). prefix_eligible p}"
  shows "eligibles (prefix_h a) = eligibles (prefix_h b)"
proof (rule dec.canon_unique)
  show "dec.canon env (eligibles (prefix_h a))" "dec.canon env (eligibles (prefix_h b))"
    using assms(1,2) by (simp_all add: rib_inv_def)
  show "distinct (eligibles (prefix_h a))" "distinct (eligibles (prefix_h b))"
    using rib_invD[OF assms(1)] rib_invD[OF assms(2)] by (simp_all add: eligibles_def)
  show "set (eligibles (prefix_h a)) = set (eligibles (prefix_h b))" using assms(3) by (simp add: eligibles_def)
  show "inj_on (path_key env) (set (eligibles (prefix_h a)))"
    using rib_invD[OF assms(1)] by (simp add: eligibles_def paths_ok_def)
qed

lemma evaluate_events_fib:
  assumes "flags AND F_RIB_NOFIB = 0"
  shows "foldl fib_apply fib (evaluate_events flags eval_all ob nb peer new old tx) =
    (if \<not> same_ptr ob nb \<or> (old \<noteq> None \<and> same_ptr nb old) then nb else fib)"
  using assms by (auto simp: evaluate_events_def)

lemma evaluate_fib:
  assumes inv: "rib_inv env re" and adm: "admissible env re new old"
    and fl: "flags AND F_RIB_NOEVALUATE = 0" "flags AND F_RIB_NOFIB = 0"
    and ev: "prefix_evaluate env flags eval_all re new old = Inr (re', evs)"
  shows "rib_inv env re' \<and> set (prefix_h re') \<subseteq> set (prefix_h re) \<union> set_option new \<and>
    foldl fib_apply (prefix_best flags re) evs = prefix_best flags re'"
proof -
  have r: "rib_inv env re'" "mset (prefix_h re') = mset (prefix_h re) - opt_mset old + opt_mset new"
    using prefix_evaluate_total[OF inv adm fl(1), of eval_all] ev by auto
  have sub: "set (prefix_h re') \<subseteq> set (prefix_h re) \<union> set_option new"
  proof
    fix x assume "x \<in> set (prefix_h re')"
    then have "x \<in># mset (prefix_h re) - opt_mset old + opt_mset new" using r(2) by (metis set_mset_mset)
    then show "x \<in> set (prefix_h re) \<union> set_option new"
      by (auto simp: opt_mset_def split: option.splits dest: in_diffD)
  qed
  let ?C = "set (prefix_h re) \<union> set_option new"
  have inj: "inj_on p_id ?C"
    using adm inj_rib[OF inv] by (cases new) (auto simp: admissible_def paths_ok_def)
  have keep: "same_ptr (prefix_best flags re) (prefix_best flags re') \<Longrightarrow> prefix_best flags re = prefix_best flags re'"
    using same_ptr_eq[OF inj] best_mem sub by blast
  have "\<exists>peer new' old' tx. evs = evaluate_events flags eval_all (prefix_best flags re) (prefix_best flags re') peer new' old' tx"
    using ev adm fl(1) unfolding prefix_evaluate_def Let_def
    by (auto simp: res_bind_Inr_iff admissible_def split: option.splits if_splits)
  then show ?thesis using r(1) sub keep evaluate_events_fib[OF fl(2)] by auto
qed

lemma nexthop_fib:
  assumes inv: "rib_inv env re" and adm: "nexthop_admissible env re p state" and tx: "path_id_tx p \<noteq> 0"
    and fl: "flags AND F_RIB_NOEVALUATE = 0" "flags AND F_RIB_NOFIB = 0"
    and ev: "prefix_evaluate_nexthop env flags eval_all re p state oldstate = Inr (re', evs)"
  shows "rib_inv env re' \<and> set (prefix_h re') \<subseteq> insert (set_nhvalid state p) (set (prefix_h re)) \<and>
    foldl fib_apply (prefix_best flags re) evs = prefix_best flags re'"
proof (cases "oldstate = state")
  case True
  then have e: "re' = re" "evs = (if state = NEXTHOP_REACH \<and> flags AND F_RIB_NOFIB = 0 \<and>
      same_ptr (Some p) (prefix_best flags re) then [Send_kroute (Some p) None] else [])"
    using ev fl(1) by (auto simp: prefix_evaluate_nexthop_def)
  have "same_ptr (Some p) (prefix_best flags re) \<Longrightarrow> Some p = prefix_best flags re"
    using best_mem adm by (intro same_ptr_eq[OF inj_rib[OF inv]]) (auto simp: nexthop_admissible_def)
  then show ?thesis using e inv by auto
next
  case False
  let ?new = "set_nhvalid state p" and ?ob = "prefix_best flags re"
  obtain re1 re2 where r: "prefix_remove env p re = Inr re1" "prefix_insert env ?new None re1 = Inr re2" "rib_inv env re2"
    "mset (prefix_h re2) = add_mset ?new (mset (prefix_h re) - {#p#})"
    using prefix_evaluate_nexthop_total[OF inv adm fl(1) False] by blast
  let ?nb = "prefix_best flags re2"
  have res: "re' = re2" and evs: "evs = (if (if prefix_eligible ?new then 0 else if prefix_eligible p then path_id_tx p else 0) = 0 \<and>
        (if prefix_eligible ?new then Some ?new else None) = None then []
      else if \<not> same_ptr ?ob ?nb \<or> same_ptr ?nb (Some p) then
        (if flags AND F_RIB_NOFIB = 0 then [Send_kroute ?nb ?ob] else []) @
        [Enqueue_updates (Some (p_peer p)) (if prefix_eligible ?new then Some ?new else None)
          (if prefix_eligible ?new then 0 else if prefix_eligible p then path_id_tx p else 0) EVAL_DEFAULT]
      else if eval_all then [Enqueue_updates (Some (p_peer p)) (if prefix_eligible ?new then Some ?new else None)
          (if prefix_eligible ?new then 0 else if prefix_eligible p then path_id_tx p else 0) EVAL_ALL]
      else [])"
    using ev fl(1) False r(1,2) unfolding prefix_evaluate_nexthop_def Let_def by simp_all
  have m: "mset (prefix_h re2) = mset (?new # remove1 p (prefix_h re))" using r(4) by simp
  have s2: "set (prefix_h re2) = insert ?new (set (prefix_h re) - {p})"
    using mset_eq_setD[OF m] rib_invD[OF inv] by simp
  have skip: "?ob = ?nb" if "\<not> prefix_eligible ?new" "\<not> prefix_eligible p"
  proof -
    have "eligibles (prefix_h re) = eligibles (prefix_h re2)"
      using that s2 by (intro inv_determined[OF inv r(3)]) auto
    then show ?thesis using best_hd[OF inv fl(1)] best_hd[OF r(3) fl(1)] by simp
  qed
  have keep: "?ob = ?nb" if "same_ptr ?ob ?nb" "\<not> same_ptr ?nb (Some p)"
  proof (rule same_ptr_eq[OF inj_rib[OF inv] _ _ that(1)])
    fix x assume x: "?nb = Some x"
    then have "x \<noteq> ?new" using that(2) by (auto simp: same_ptr_def)
    then show "x \<in> set (prefix_h re)" using best_mem[OF x] s2 by auto
  qed (use best_mem in blast)
  have "foldl fib_apply ?ob evs = ?nb"
    unfolding evs using skip keep fl(2) tx by (auto split: if_splits)
  then show ?thesis using res r(3) s2 by auto
qed

lemma rib_run_inv:
  assumes "rib_run env flags eval_all re fib" and fl: "flags AND F_RIB_NOEVALUATE = 0" "flags AND F_RIB_NOFIB = 0"
  shows "rib_inv env re \<and> (\<forall>p\<in>set (prefix_h re). path_id_tx p \<noteq> 0) \<and> fib = prefix_best flags re"
  using assms(1)
proof (induction rule: rib_run.induct)
  case (start dm)
  then show ?case
    by (simp add: rib_inv_def paths_ok_def eligibles_def ineligibles_def prefix_best_def)
next
  case (evaluate re fib new old re' evs)
  have e: "rib_inv env re'" "set (prefix_h re') \<subseteq> set (prefix_h re) \<union> set_option new"
    "foldl fib_apply (prefix_best flags re) evs = prefix_best flags re'"
    using evaluate_fib[OF _ evaluate.hyps(2) fl evaluate.hyps(3)] evaluate.IH by blast+
  have "path_id_tx q \<noteq> 0" if "q \<in> set (prefix_h re')" for q
    using that e(2) evaluate.IH evaluate.hyps(2) by (auto simp: admissible_def)
  then show ?case using e(1,3) evaluate.IH by auto
next
  case (nexthop re fib p state oldstate re' evs)
  have p: "p \<in> set (prefix_h re)" using nexthop.hyps(2) by (simp add: nexthop_admissible_def)
  have e: "rib_inv env re'" "set (prefix_h re') \<subseteq> insert (set_nhvalid state p) (set (prefix_h re))"
    "foldl fib_apply (prefix_best flags re) evs = prefix_best flags re'"
    using nexthop_fib[OF _ nexthop.hyps(2) _ fl nexthop.hyps(3)] nexthop.IH p by blast+
  have "path_id_tx (set_nhvalid state p) = path_id_tx p" by (simp add: set_nhvalid_def)
  then have "path_id_tx q \<noteq> 0" if "q \<in> set (prefix_h re')" for q
    using that e(2) nexthop.IH p by auto
  then show ?case using e(1,3) nexthop.IH by auto
qed

lemma rib_run_canon:
  assumes "rib_inv env re"
  shows "rfc4271_select env (eligibles (prefix_h re)) = (case eligibles (prefix_h re) of [] \<Rightarrow> [] | x # _ \<Rightarrow> [x])"
proof (cases "eligibles (prefix_h re)")
  case Nil
  then show ?thesis by (simp add: rfc4271_select_keys keep_min_def keep_med_def)
next
  case (Cons x xs)
  have "dec.canon env (x # xs)" using assms unfolding rib_inv_def Cons by blast
  moreover have "distinct (x # xs)" "inj_on (path_key env) (set (x # xs))"
    using rib_invD[OF assms] unfolding Cons[symmetric] by (simp_all add: eligibles_def paths_ok_def)
  ultimately show ?thesis using canon_select Cons by simp
qed

text \<open>Consecutive paths compare the right way round.\<close>

lemma canon_gt: "dec.canon env (x # y # ys) \<Longrightarrow> path_key env x \<noteq> path_key env y \<Longrightarrow> dec.gt env x y"
proof -
  assume c: "dec.canon env (x # y # ys)" and ne: "path_key env x \<noteq> path_key env y"
  have nd: "\<not> med_dom env y x" "\<And>z. z \<in> set ys \<Longrightarrow> \<not> med_dom env z y"
    using c dec.canon_not_later[of env "[x]" "y # ys"] dec.canon_not_later[of env "[x, y]" ys] by auto
  show ?thesis
  proof (cases "med_dom env x y")
    case False
    then have "dec.undominated env (set (x # y # ys)) y"
      using nd dec.dm_irrefl by (auto simp: dec.undominated_def)
    then have "path_key env x \<le> path_key env y" using c by (auto simp: dec.best_of_def)
    then show ?thesis using ne nd by (auto simp: dec.gt_def)
  qed (simp add: dec.gt_def)
qed

lemma neighbours_gt:
  assumes inv: "rib_inv env re" and i: "Suc i < length (prefix_h re)"
  shows "\<exists>c t. prefix_cmp env (Some (prefix_h re ! i)) (Some (prefix_h re ! Suc i)) = Inr (c, t) \<and> c > 0"
proof -
  let ?L = "prefix_h re" and ?a = "prefix_h re ! i" and ?b = "prefix_h re ! Suc i"
  note inv' = rib_invD[OF inv]
  obtain E I where EI: "?L = E @ I" "\<forall>x\<in>set E. prefix_eligible x" "\<forall>x\<in>set I. \<not> prefix_eligible x" "dec.canon env E"
    using rib_inv_split[OF inv] by blast
  have ab: "?a \<in> set ?L" "?b \<in> set ?L" "?a \<noteq> ?b" using i inv' by (auto simp: distinct_conv_nth)
  show ?thesis
  proof (cases "prefix_eligible ?b")
    case False
    then show ?thesis by (simp add: cmp_ineligible)
  next
    case el: True
    then have l: "Suc i < length E" using EI(1,3) i by (metis nth_append nth_mem linorder_not_less less_diff_conv2 add_diff_inverse_nat length_append nat_add_left_cancel_less)
    then have ea: "prefix_eligible ?a" using EI(1,2) by (simp add: nth_append)
    have E: "E = take i E @ ?a # ?b # drop (Suc (Suc i)) E"
      using l EI(1) by (metis Cons_nth_drop_Suc Suc_lessD append_take_drop_id nth_append)
    then have "dec.canon env (?a # ?b # drop (Suc (Suc i)) E)" using EI(4) dec.canon_suffix by metis
    then have "dec.gt env ?a ?b" using paths_ok_key[OF _ ab ea el] inv' by (intro canon_gt) auto
    then show ?thesis using cmp_eligible[OF _ ab ea el] inv' by blast
  qed
qed

lemma dm_ok_nth: "dm_ok env dm pp xs \<Longrightarrow> i < length xs \<Longrightarrow>
  dmetric_of env (if i = 0 then pp else Some (xs ! (i - 1))) (xs ! i) = Inr (dm (p_id (xs ! i)))"
proof (induction xs arbitrary: pp i)
  case (Cons x xs)
  then show ?case using Cons.IH[of "Some x" "i - 1"] by (cases i) (auto split: if_splits)
qed simp

section \<open>Properties\<close>

definition attrs0 :: attr_state where
  "attrs0 = \<lparr>at_heap = (\<lambda>_. None), at_table = [], at_next = 0, attr_cnt = 0, attr_refs = 0, attr_dataz = 0, attr_dcnt = 0\<rparr>"

definition env0 :: decision_env where
  "env0 = \<lparr>conf_flags = 0, env_local_as = 65000, env_attrs = attrs0\<rparr>"

text \<open>A path from the neighbor with the given AS, local preference, MED and address.\<close>

definition path0 :: "nat \<Rightarrow> u8 \<Rightarrow> u32 \<Rightarrow> u32 \<Rightarrow> u32 \<Rightarrow> prefix" where
  "path0 i nb lp md ad = \<lparr>p_id = i,
     p_aspath = Some \<lparr>others = [], asp_aspath = \<lparr>ap_source_as = 65001, ap_ascnt = 1, ap_data = [2, 1, 0, 0, 0, nb]\<rparr>,
       asp_flags = 0, med = md, lpref = lp, weight = 0, rtlabelid = 0, pftableid = 0, origin = 0\<rparr>,
     p_peer = \<lparr>peer_id = i, ebgp = 1, remote_bgpid = ad,
       remote_addr = \<lparr>v4 = ad, v6 = 0, rd8 = 0, scope_id = 0, aid = AID_INET, labelstack = []\<rparr>\<rparr>,
     lastchange = 1, path_id = 0, path_id_tx = 2, p_flags = 0, nhflags = 0x80\<rparr>"

lemma paths0_ok:
  "paths_ok env0 (set [path0 1 7 100 20 5, path0 2 8 100 0 3, path0 3 7 100 10 9])"
proof -
  have "\<forall>p\<in>set [path0 1 7 100 20 5, path0 2 8 100 0 3, path0 3 7 100 10 9]. path_ok env0 p" by code_simp
  moreover have "inj_on (path_key env0) {p \<in> set [path0 1 7 100 20 5, path0 2 8 100 0 3, path0 3 7 100 10 9]. prefix_eligible p}"
  proof (rule inj_on_subset)
    show "inj_on (path_key env0) (set [path0 1 7 100 20 5, path0 2 8 100 0 3, path0 3 7 100 10 9])"
      by (simp add: path_key_def late_key_def addr_key_def path0_def inj_on_def)
  qed auto
  moreover have "inj_on p_id (set [path0 1 7 100 20 5, path0 2 8 100 0 3, path0 3 7 100 10 9])"
    by (simp add: path0_def inj_on_def)
  ultimately show ?thesis by (simp add: paths_ok_def)
qed

lemma run_add:
  assumes "rib_run env 0 False re fib" "n \<notin> set (prefix_h re)" "paths_ok env (insert n (set (prefix_h re)))" "path_id_tx n \<noteq> 0"
  shows "\<exists>re' fib'. rib_run env 0 False re' fib' \<and> set (prefix_h re') = insert n (set (prefix_h re))"
proof -
  have inv: "rib_inv env re" using rib_run_inv[OF assms(1)] by simp
  have adm: "admissible env re (Some n) None" using assms by (simp add: admissible_def)
  obtain re' evs where e: "prefix_evaluate env 0 False re (Some n) None = Inr (re', evs)"
    "mset (prefix_h re') = mset (prefix_h re) - opt_mset None + opt_mset (Some n)"
    using prefix_evaluate_total[OF inv adm, of 0 False] by auto
  have "mset (prefix_h re') = mset (n # prefix_h re)" using e(2) by (simp add: opt_mset_def)
  then show ?thesis using rib_run.evaluate[OF assms(1) adm e(1)] mset_eq_setD by fastforce
qed

lemma run_add_all:
  "paths_ok env (set ps) \<Longrightarrow> distinct ps \<Longrightarrow> \<forall>p\<in>set ps. path_id_tx p \<noteq> 0 \<Longrightarrow>
     \<exists>re fib. rib_run env 0 False re fib \<and> set (prefix_h re) = set ps"
proof (induction ps)
  case Nil
  then show ?case using rib_run.start by fastforce
next
  case (Cons p ps)
  obtain re fib where "rib_run env 0 False re fib" "set (prefix_h re) = set ps"
    using Cons paths_ok_subset[OF Cons.prems(1)] by fastforce
  then show ?case using run_add[of env re fib p] Cons.prems by simp
qed









text \<open>
  The dmetric of a path is its comparison with its predecessor, which multipath selection reads, it
  is positive, so the bad dmetric message is never logged, and the first path has the value of its eligibility.
\<close>

lemma dmetric_consistent:
  assumes "rib_run env flags eval_all re fib" and "flags AND F_RIB_NOEVALUATE = 0" and "flags AND F_RIB_NOFIB = 0"
    and "i < length (prefix_h re)"
  shows "dmetric re (p_id (prefix_h re ! i)) > 0 \<and>
    (if i = 0 then dmetric re (p_id (prefix_h re ! i)) =
         (if prefix_eligible (prefix_h re ! i) then PREFIX_DMETRIC_BEST else PREFIX_DMETRIC_INVALID)
     else \<exists>t. prefix_cmp env (Some (prefix_h re ! (i - 1))) (Some (prefix_h re ! i)) =
         Inr (dmetric re (p_id (prefix_h re ! i)), t))"
proof -
  have inv: "rib_inv env re" using rib_run_inv[OF assms(1-3)] by simp
  note d = dm_ok_nth[OF rib_invD[OF inv, THEN conjunct2, THEN conjunct2] assms(4)]
  show ?thesis
  proof (cases i)
    case 0
    then have e: "dmetric re (p_id (prefix_h re ! i)) =
        (if prefix_eligible (prefix_h re ! i) then PREFIX_DMETRIC_BEST else PREFIX_DMETRIC_INVALID)"
      using d by (simp add: dmetric_of_def)
    then have "dmetric re (p_id (prefix_h re ! i)) > 0"
      by (simp add: PREFIX_DMETRIC_BEST_def PREFIX_DMETRIC_INVALID_def)
    then show ?thesis using 0 e by simp
  next
    case (Suc j)
    then show ?thesis using d neighbours_gt[OF inv, of j] assms(4) by (auto simp: dmetric_of_def)
  qed
qed

end
