(* ===== verification/Aspa_Correct.thy ===== *)
theory Aspa_Correct
  imports Rde_Aspa
begin

text \<open>
  Correctness of ASPA validation: the hash table represents the map from customers to providers it
  was filled with, and the walk over the path computes the ramps of the path verification
  procedure of the ASPA draft.
\<close>

section \<open>Searching the providers of a customer\<close>

definition slice :: "rde_aspa \<Rightarrow> rde_aspa_set \<Rightarrow> u32 list \<Rightarrow> bool" where
  "slice ra e P = (set_num e = length P \<and> (\<forall>j<length P. pas_nth ra e j = Inr (P ! j)))"

definition cp_of :: "u32 list \<Rightarrow> u32 \<Rightarrow> cp_state" where
  "cp_of P pas = (if pas \<in> set P then PROVIDER else NOT_PROVIDER)"

lemma cp_linear_spec:
  assumes "slice ra e P" and "sorted P"
  shows "i \<le> length P \<Longrightarrow> \<forall>j<i. P ! j < pas \<Longrightarrow> cp_linear ra e pas i = Inr (cp_of P pas)"
proof (induction "length P - i" arbitrary: i)
  case 0
  then have "pas \<notin> set P" by (auto simp: in_set_conv_nth)
  then show ?case using 0 assms(1) by (simp add: cp_linear.simps[of ra e pas i] slice_def cp_of_def)
next
  case (Suc n)
  then have i: "i < length P" by simp
  have p: "pas_nth ra e i = Inr (P ! i)" "i < set_num e" using assms(1) i by (auto simp: slice_def)
  have "P ! i > pas \<Longrightarrow> pas \<notin> set P"
  proof
    assume g: "P ! i > pas" and "pas \<in> set P"
    then obtain j where j: "j < length P" "P ! j = pas" by (auto simp: in_set_conv_nth)
    then have "i \<le> j" using Suc.prems(2) by (metis linorder_not_less order_less_irrefl)
    then show False using sorted_nth_mono[OF assms(2), of i j] j g by simp
  qed
  moreover have "P ! i < pas \<Longrightarrow> cp_linear ra e pas (i + 1) = Inr (cp_of P pas)"
    using Suc i by (intro Suc.hyps) (auto simp: less_Suc_eq)
  ultimately show ?case using p i by (auto simp: cp_linear.simps[of ra e pas i] cp_of_def not_less)
qed

lemma cp_halving_spec:
  assumes "slice ra e P" and "sorted P"
  shows "i + lim \<le> length P \<Longrightarrow> \<forall>j<i. P ! j < pas \<Longrightarrow> \<forall>j<length P. i + lim \<le> j \<longrightarrow> P ! j > pas \<Longrightarrow>
    cp_halving ra e pas i lim = Inr (cp_of P pas)"
proof (induction lim arbitrary: i rule: less_induct)
  case (less lim)
  show ?case
  proof (cases "lim = 0")
    case True
    then have "P ! j \<noteq> pas" if "j < length P" for j using less.prems that by (cases "j < i") force+
    then have "pas \<notin> set P" by (auto simp: in_set_conv_nth)
    then show ?thesis using True by (simp add: cp_halving.simps[of ra e pas i 0] cp_of_def)
  next
    case False
    let ?k = "i + lim div 2"
    have k: "?k < length P" "?k < i + lim" using less.prems(1) False by auto
    have p: "pas_nth ra e ?k = Inr (P ! ?k)" using assms(1) k by (simp add: slice_def)
    have lt: "P ! ?k < pas \<Longrightarrow> cp_halving ra e pas (?k + 1) ((lim - 1) div 2) = Inr (cp_of P pas)"
    proof (rule less.IH)
      assume a: "P ! ?k < pas"
      show "\<forall>j<?k + 1. P ! j < pas"
      proof (intro allI impI)
        fix j assume "j < ?k + 1"
        then have "P ! j \<le> P ! ?k" using sorted_nth_mono[OF assms(2), of j ?k] k by simp
        then show "P ! j < pas" using a by simp
      qed
      have "?k + 1 + (lim - 1) div 2 = i + lim" using False by presburger
      then show "?k + 1 + (lim - 1) div 2 \<le> length P" "\<forall>j<length P. ?k + 1 + (lim - 1) div 2 \<le> j \<longrightarrow> P ! j > pas"
        using less.prems by auto
    qed (use False in presburger)
    have gt: "P ! ?k > pas \<Longrightarrow> cp_halving ra e pas i (lim div 2) = Inr (cp_of P pas)"
    proof (rule less.IH)
      assume a: "P ! ?k > pas"
      show "\<forall>j<length P. i + lim div 2 \<le> j \<longrightarrow> P ! j > pas" using a sorted_nth_mono[OF assms(2)] by (meson less_le_trans)
    qed (use less.prems k False in auto)
    have "P ! ?k = pas \<Longrightarrow> cp_of P pas = PROVIDER" using k by (auto simp: cp_of_def)
    then show ?thesis using False p lt gt by (auto simp: cp_halving.simps[of ra e pas i lim] Let_def not_less)
  qed
qed

section \<open>Chains of the hash table\<close>

definition bucket :: "rde_aspa \<Rightarrow> u32 \<Rightarrow> nat" where
  "bucket ra as = unat (hash as AND aspa_mask ra)"

definition used :: "rde_aspa \<Rightarrow> rde_aspa_set list" where
  "used ra = take (curset ra) (sets ra)"

text \<open>A bucket: neighbours in the array in ascending order, all but the last with the next flag.\<close>

fun chain :: "rde_aspa_set list \<Rightarrow> bool" where
  "chain [] = False"
| "chain [e] = (\<not> set_next e)"
| "chain (e # f # es) = (set_next e \<and> set_as e < set_as f \<and> chain (f # es))"

definition bucket_ok :: "rde_aspa \<Rightarrow> nat \<Rightarrow> bool" where
  "bucket_ok ra h = (case aspa_table ra h of
     None \<Rightarrow> \<forall>e\<in>set (used ra). bucket ra (set_as e) \<noteq> h
   | Some i \<Rightarrow> \<exists>c rest. drop i (used ra) = c @ rest \<and> chain c \<and>
       (\<forall>e\<in>set c. bucket ra (set_as e) = h) \<and> (\<forall>e\<in>set (used ra). bucket ra (set_as e) = h \<longrightarrow> e \<in> set c))"

lemma chain_nonempty: "chain c \<Longrightarrow> c \<noteq> []"
  by auto

lemma lookup_chain:
  "chain c \<Longrightarrow> drop i xs = c @ rest \<Longrightarrow>
     \<exists>j. lookup_walk xs i as = Inr j \<and> i \<le> j \<and> j < i + length c \<and> xs ! j \<in> set c \<and>
       (set_as (xs ! j) = as \<longleftrightarrow> (\<exists>e\<in>set c. set_as e = as))"
proof (induction c arbitrary: i rule: chain.induct)
  case (2 e)
  have i: "i < length xs" "xs ! i = e" using 2 by (auto simp: nth_via_drop) (metis drop_all linorder_not_less list.distinct(1))
  then show ?case using 2 by (auto simp: lookup_walk.simps[of xs i as])
next
  case (3 e f es)
  have i: "i < length xs" "xs ! i = e" using 3(3) by (auto simp: nth_via_drop) (metis drop_all linorder_not_less list.distinct(1))
  have d: "drop (i + 1) xs = (f # es) @ rest" using 3(3) by (metis append_Cons drop_Suc list.sel(3) tl_drop Suc_eq_plus1)
  have asc: "set_as e < set_as g" if "g \<in> set (f # es)" for g
  proof -
    have "chain ys \<Longrightarrow> \<forall>g\<in>set ys. set_as (hd ys) \<le> set_as g" for ys
      by (induction ys rule: chain.induct) auto
    from this[of "f # es"] show ?thesis using 3(2) that by auto
  qed
  show ?case
  proof (cases "set_as e < as")
    case True
    then have "lookup_walk xs i as = lookup_walk xs (i + 1) as"
      using i 3(2) by (simp add: lookup_walk.simps[of xs i as])
    then show ?thesis using 3(1)[OF _ d] 3(2) True by fastforce
  next
    case False
    then have "lookup_walk xs i as = Inr i" using i by (simp add: lookup_walk.simps[of xs i as])
    moreover have "set_as e = as \<longleftrightarrow> (\<exists>g\<in>set (e # f # es). set_as g = as)" using False asc by fastforce
    ultimately show ?thesis using i by auto
  qed
qed simp

text \<open>A table and the list of customers with their providers it was filled with.\<close>

definition aspa_rep :: "rde_aspa \<Rightarrow> (u32 \<times> u32 list) list \<Rightarrow> bool" where
  "aspa_rep ra m = (length (sets ra) = maxset ra \<and> curset ra \<le> maxset ra \<and> length (aspa_data ra) = maxdata ra \<and>
     curdata ra \<le> maxdata ra \<and> (\<forall>j. curset ra \<le> j \<longrightarrow> j < maxset ra \<longrightarrow> sets ra ! j = zero_set) \<and>
     (\<forall>h. bucket_ok ra h) \<and> (\<forall>h. aspa_table ra h \<noteq> None \<longrightarrow> h \<le> unat (aspa_mask ra)) \<and>
     (\<forall>e\<in>set (used ra). \<exists>P. (set_as e, P) \<in> set m \<and> slice ra e P \<and> set_pas e + length P \<le> curdata ra) \<and>
     (\<forall>(as, P)\<in>set m. \<exists>e\<in>set (used ra). set_as e = as))"

lemma and_le_mask: "unat (x AND m :: u32) \<le> unat m"
  by (metis word_and_le1 word_le_nat_alt)

lemma aspa_lookup_spec:
  assumes rep: "aspa_rep ra m" and d: "distinct (map fst m)"
  shows "(\<exists>j P. aspa_lookup ra as = Inr (Some j) \<and> map_of m as = Some P \<and> slice ra (sets ra ! j) P) \<or>
    aspa_lookup ra as = Inr None \<and> map_of m as = None"
proof -
  have ok: "bucket_ok ra (bucket ra as)" using rep by (simp add: aspa_rep_def)
  have key: "(\<exists>e\<in>set (used ra). set_as e = as) \<longleftrightarrow> map_of m as \<noteq> None"
  proof
    assume "\<exists>e\<in>set (used ra). set_as e = as"
    then obtain P where "(as, P) \<in> set m" using rep unfolding aspa_rep_def by blast
    then show "map_of m as \<noteq> None" using weak_map_of_SomeI by fastforce
  next
    assume "map_of m as \<noteq> None"
    then obtain P where "(as, P) \<in> set m" by (auto dest: map_of_SomeD)
    moreover have "\<forall>(as, P)\<in>set m. \<exists>e\<in>set (used ra). set_as e = as" using rep by (simp add: aspa_rep_def)
    ultimately show "\<exists>e\<in>set (used ra). set_as e = as" by auto
  qed
  show ?thesis
  proof (cases "aspa_table ra (bucket ra as)")
    case None
    then have "\<forall>e\<in>set (used ra). set_as e \<noteq> as" using ok by (auto simp: bucket_ok_def)
    then show ?thesis using None key by (auto simp: aspa_lookup_def bucket_def)
  next
    case (Some i)
    then obtain c rest where c: "drop i (used ra) = c @ rest" "chain c"
      "\<forall>e\<in>set (used ra). bucket ra (set_as e) = bucket ra as \<longrightarrow> e \<in> set c"
      using ok by (auto simp: bucket_ok_def)
    have "drop i (sets ra) = c @ rest @ drop (length (used ra)) (sets ra)"
    proof -
      have i: "i \<le> length (used ra)" using c(1) chain_nonempty[OF c(2)] by (metis Nil_is_append_conv drop_all nat_le_linear)
      have "sets ra = used ra @ drop (length (used ra)) (sets ra)" unfolding used_def by (simp add: min_def)
      then have "drop i (sets ra) = drop i (used ra) @ drop (length (used ra)) (sets ra)"
        using i by (metis append_eq_conv_conj drop_append diff_is_0_eq' drop0)
      then show ?thesis using c(1) by simp
    qed
    from lookup_chain[OF c(2) this, of as] obtain j where j: "lookup_walk (sets ra) i as = Inr j" "sets ra ! j \<in> set c"
      "set_as (sets ra ! j) = as \<longleftrightarrow> (\<exists>e\<in>set c. set_as e = as)" by blast
    have sub: "set c \<subseteq> set (used ra)" using c(1) by (metis set_append set_drop_subset sup.boundedE)
    have iff: "(\<exists>e\<in>set c. set_as e = as) \<longleftrightarrow> map_of m as \<noteq> None" using key c(3) sub by blast
    show ?thesis
    proof (cases "set_as (sets ra ! j) = as")
      case True
      then obtain P where P: "(as, P) \<in> set m" "slice ra (sets ra ! j) P"
        using rep j(2) sub unfolding aspa_rep_def by blast
      then have "map_of m as = Some P" using d by simp
      then show ?thesis using Some j(1) True P(2) by (auto simp: aspa_lookup_def bucket_def)
    next
      case False
      then show ?thesis using Some j iff by (auto simp: aspa_lookup_def bucket_def)
    qed
  qed
qed

text \<open>What the lookups of the path walk return: the relation of a customer and a provider.\<close>

definition cp_rel :: "(u32 \<times> u32 list) list \<Rightarrow> u32 \<Rightarrow> u32 \<Rightarrow> cp_state" where
  "cp_rel m cas pas = (case map_of m cas of None \<Rightarrow> UNKNOWN | Some P \<Rightarrow> cp_of P pas)"

lemma aspa_cp_lookup_spec:
  assumes "aspa_rep ra m" and "distinct (map fst m)" and "\<forall>(as, P)\<in>set m. sorted P"
  shows "aspa_cp_lookup ra cas pas = Inr (cp_rel m cas pas)"
  using aspa_lookup_spec[OF assms(1,2), of cas]
proof (elim disjE exE conjE)
  fix j P assume j: "aspa_lookup ra cas = Inr (Some j)" "map_of m cas = Some P" "slice ra (sets ra ! j) P"
  have s: "sorted P" using assms(3) map_of_SomeD[OF j(2)] by auto
  have n: "set_num (sets ra ! j) = length P" using j(3) by (simp add: slice_def)
  show ?thesis using j(1,2) n cp_linear_spec[OF j(3) s, of 0 pas] cp_halving_spec[OF j(3) s, of 0 "length P" pas]
    by (simp add: aspa_cp_lookup_def cp_rel_def Let_def)
qed (simp add: aspa_cp_lookup_def cp_rel_def)

section \<open>Filling the table\<close>

lemma used_append:
  assumes "length (sets ra) = maxset ra" "curset ra < maxset ra"
  shows "take (curset ra + 1) ((sets ra)[curset ra := e]) = used ra @ [e]"
  using assms by (simp add: used_def take_Suc_conv_app_nth)

lemma used_insert:
  assumes "length (sets ra) = maxset ra" "curset ra < maxset ra" "i < curset ra"
  shows "take (curset ra + 1) (take i (sets ra) @ e # drop i (take (curset ra) (sets ra)) @ drop (curset ra + 1) (sets ra)) =
    take i (used ra) @ e # drop i (used ra)"
proof -
  have "Suc (curset ra) - i = Suc (curset ra - i)" using assms(3) by (simp add: Suc_diff_le)
  then show ?thesis using assms by (simp add: used_def min_def)
qed

lemma chain_end:
  assumes "drop k xs = c @ rest" and "\<forall>e\<in>set c. f e = h'" and "k \<le> i" "i < length xs" "f (xs ! i) \<noteq> h'"
  shows "k + length c \<le> i"
proof (rule ccontr)
  assume "\<not> k + length c \<le> i"
  then have "(c @ rest) ! (i - k) = c ! (i - k)" "i - k < length c" using assms(3) by (auto simp: nth_append)
  moreover have "(drop k xs) ! (i - k) = xs ! i" using assms(3,4) by (simp add: nth_drop)
  ultimately show False using assms(1,2,5) by (metis nth_mem)
qed

lemma bucket_ok_append:
  assumes "bucket_ok ra h'" and "used ra' = used ra @ [e]" and "aspa_mask ra' = aspa_mask ra" and "\<not> set_next e"
    and "aspa_table ra' = (aspa_table ra)(bucket ra (set_as e) := Some (length (used ra)))"
    and "aspa_table ra (bucket ra (set_as e)) = None" "bucket_ok ra (bucket ra (set_as e))"
  shows "bucket_ok ra' h'"
proof -
  have b: "bucket ra' = bucket ra" using assms(3) by (simp add: bucket_def fun_eq_iff)
  show ?thesis
  proof (cases "h' = bucket ra (set_as e)")
    case True
    then have "\<forall>x\<in>set (used ra). bucket ra (set_as x) \<noteq> h'" using assms(6,7) by (simp add: bucket_ok_def)
    then have "\<exists>c rest. drop (length (used ra)) (used ra') = c @ rest \<and> chain c \<and> (\<forall>x\<in>set c. bucket ra (set_as x) = h') \<and>
        (\<forall>x\<in>set (used ra'). bucket ra (set_as x) = h' \<longrightarrow> x \<in> set c)"
      using True assms(2,4) by (intro exI[of _ "[e]"] exI[of _ "[]"]) auto
    then show ?thesis using True assms(5) by (simp add: bucket_ok_def b)
  next
    case False
    show ?thesis
    proof (cases "aspa_table ra h'")
      case None
      then show ?thesis using False assms(1,2,5) by (auto simp: bucket_ok_def b)
    next
      case (Some i)
      then obtain c rest where c: "drop i (used ra) = c @ rest" "chain c" "\<forall>e\<in>set c. bucket ra (set_as e) = h'"
        "\<forall>e\<in>set (used ra). bucket ra (set_as e) = h' \<longrightarrow> e \<in> set c" using assms(1) by (auto simp: bucket_ok_def)
      have "i \<le> length (used ra)" using c(1) chain_nonempty[OF c(2)] by (metis Nil_is_append_conv drop_all nat_le_linear)
      then have "drop i (used ra') = c @ rest @ [e]" using c(1) assms(2) by simp
      then show ?thesis using c False Some assms(2,5) by (auto simp: bucket_ok_def b)
    qed
  qed
qed

lemma bucket_ok_insert:
  assumes all: "\<And>h. bucket_ok ra h" and i: "aspa_table ra h = Some i" "i < length (used ra)"
    and u: "used ra' = take i (used ra) @ e # drop i (used ra)" "aspa_mask ra' = aspa_mask ra" "set_next e"
    and t: "aspa_table ra' = (\<lambda>j. case aspa_table ra j of None \<Rightarrow> None | Some k \<Rightarrow> Some (if k > i then k + 1 else k))(h := Some i)"
    and h: "h = bucket ra (set_as e)" "set_as e < set_as (used ra ! i)"
  shows "bucket_ok ra' h'"
proof -
  have b: "bucket ra' = bucket ra" using u(2) by (simp add: bucket_def fun_eq_iff)
  obtain c0 rest0 where c0: "drop i (used ra) = c0 @ rest0" "chain c0" "\<forall>x\<in>set c0. bucket ra (set_as x) = h"
    "\<forall>x\<in>set (used ra). bucket ra (set_as x) = h \<longrightarrow> x \<in> set c0" using all[of h] i(1) by (auto simp: bucket_ok_def)
  have hd0: "hd c0 = used ra ! i" using c0(1) chain_nonempty[OF c0(2)] i(2) by (metis hd_append2 hd_drop_conv_nth)
  have set': "set (used ra') = insert e (set (used ra))"
  proof -
    have "set (take i (used ra)) \<union> set (drop i (used ra)) = set (used ra)" by (metis append_take_drop_id set_append)
    then show ?thesis unfolding u(1) by auto
  qed
  show ?thesis
  proof (cases "h' = h")
    case True
    have "drop i (used ra') = (e # c0) @ rest0" using u(1) c0(1) i(2) by simp
    moreover have "chain (e # c0)" using c0(2) u(3) h(2) hd0 by (cases c0) auto
    moreover have "\<forall>x\<in>set (e # c0). bucket ra (set_as x) = h" using c0(3) h(1)[symmetric] by simp
    moreover have "\<forall>x\<in>set (used ra'). bucket ra (set_as x) = h \<longrightarrow> x \<in> set (e # c0)" using c0(4) by (simp add: set')
    ultimately have "\<exists>c rest. drop i (used ra') = c @ rest \<and> chain c \<and> (\<forall>x\<in>set c. bucket ra (set_as x) = h) \<and>
        (\<forall>x\<in>set (used ra'). bucket ra (set_as x) = h \<longrightarrow> x \<in> set c)" by blast
    then show ?thesis using True t by (simp add: bucket_ok_def b)
  next
    case False
    show ?thesis
    proof (cases "aspa_table ra h'")
      case None
      then show ?thesis using False all[of h'] t h(1)[symmetric] set' by (auto simp: bucket_ok_def b)
    next
      case (Some k)
      then obtain c rest where c: "drop k (used ra) = c @ rest" "chain c" "\<forall>x\<in>set c. bucket ra (set_as x) = h'"
        "\<forall>x\<in>set (used ra). bucket ra (set_as x) = h' \<longrightarrow> x \<in> set c" using all[of h'] by (auto simp: bucket_ok_def)
      have bi: "bucket ra (set_as (used ra ! i)) \<noteq> h'"
        using c0(3) hd0 hd_in_set[OF chain_nonempty[OF c0(2)]] False by auto
      have d: "\<exists>rest'. drop (if k > i then k + 1 else k) (used ra') = c @ rest'"
      proof (cases "k > i")
        case True
        then have "drop (k + 1) (used ra') = drop k (used ra)"
          using i(2) u(1) by (simp add: Suc_diff_le)
        then show ?thesis using True c(1) by simp
      next
        case k: False
        then have l: "k + length c \<le> i" using chain_end[OF c(1,3), of i] bi i(2) by simp
        have "drop k (used ra') = drop k (take i (used ra)) @ e # drop i (used ra)" using u(1) k i(2) by simp
        moreover have "drop k (take i (used ra)) = take (i - k) (c @ rest)" using c(1) by (metis drop_take)
        ultimately show ?thesis using k l by auto
      qed
      have "\<forall>x\<in>set (used ra'). bucket ra (set_as x) = h' \<longrightarrow> x \<in> set c" using c(4) False h(1) by (simp add: set')
      then have "\<exists>c rest. drop (if k > i then k + 1 else k) (used ra') = c @ rest \<and> chain c \<and>
          (\<forall>x\<in>set c. bucket ra (set_as x) = h') \<and> (\<forall>x\<in>set (used ra'). bucket ra (set_as x) = h' \<longrightarrow> x \<in> set c)"
        using c(2,3) d by blast
      then show ?thesis using False Some t by (simp add: bucket_ok_def b)
    qed
  qed
qed

text \<open>Adding a set keeps the providers of the others, whose data lies below curdata.\<close>

lemma slice_fill:
  assumes "slice ra e P" and "set_pas e + length P \<le> curdata ra" and "curdata ra + length pas \<le> length (aspa_data ra)"
    and "aspa_data ra' = take (curdata ra) (aspa_data ra) @ pas @ drop (curdata ra + length pas) (aspa_data ra)"
  shows "slice ra' e P"
proof -
  have l: "length (aspa_data ra') = length (aspa_data ra)" using assms(3,4) by simp
  have "aspa_data ra' ! (set_pas e + j) = aspa_data ra ! (set_pas e + j)" if "j < length P" for j
    using that assms(2-4) by (simp add: nth_append)
  then show ?thesis using assms(1) l by (auto simp: slice_def pas_nth_def split: if_splits)
qed

lemma slice_new:
  assumes "curdata ra + length pas \<le> length (aspa_data ra)"
    and "aspa_data ra' = take (curdata ra) (aspa_data ra) @ pas @ drop (curdata ra + length pas) (aspa_data ra)"
    and "set_num e = length pas" "set_pas e = curdata ra"
  shows "slice ra' e pas"
  using assms by (auto simp: slice_def pas_nth_def nth_append min_def)

lemma bucket_bound: "bucket ra as \<le> unat (aspa_mask ra)"
  unfolding bucket_def by (rule and_le_mask)

lemma rep_extend:
  assumes rep: "aspa_rep ra m" and fit: "curset ra < maxset ra" "curdata ra + length pas \<le> maxdata ra"
    and u: "set (used ra') = insert e (set (used ra))" "set_as e = cas" "set_num e = length pas" "set_pas e = curdata ra"
    and d: "aspa_data ra' = take (curdata ra) (aspa_data ra) @ pas @ drop (curdata ra + length pas) (aspa_data ra)"
    and c: "curdata ra' = curdata ra + length pas" "maxdata ra' = maxdata ra"
    and st: "length (sets ra') = maxset ra'" "maxset ra' = maxset ra" "curset ra' = curset ra + 1"
      "\<forall>j. curset ra' \<le> j \<longrightarrow> j < maxset ra' \<longrightarrow> sets ra' ! j = zero_set"
    and b: "\<forall>h. bucket_ok ra' h" "\<forall>h. aspa_table ra' h \<noteq> None \<longrightarrow> h \<le> unat (aspa_mask ra')"
  shows "aspa_rep ra' (m @ [(cas, pas)])"
proof -
  have dl: "length (aspa_data ra) = maxdata ra" using rep by (simp add: aspa_rep_def)
  have old: "\<exists>P. (set_as x, P) \<in> set (m @ [(cas, pas)]) \<and> slice ra' x P \<and> set_pas x + length P \<le> curdata ra'"
    if "x \<in> set (used ra)" for x
  proof -
    have "\<forall>e\<in>set (used ra). \<exists>P. (set_as e, P) \<in> set m \<and> slice ra e P \<and> set_pas e + length P \<le> curdata ra"
      using rep by (simp add: aspa_rep_def)
    from bspec[OF this that] obtain P where P: "(set_as x, P) \<in> set m" "slice ra x P" "set_pas x + length P \<le> curdata ra"
      by (elim exE conjE) (rule that)
    then show ?thesis using slice_fill[OF P(2,3) _ d] fit(2) dl c by (intro exI[of _ P]) simp
  qed
  have new: "\<exists>P. (set_as e, P) \<in> set (m @ [(cas, pas)]) \<and> slice ra' e P \<and> set_pas e + length P \<le> curdata ra'"
    using slice_new[OF _ d u(3,4)] fit(2) dl u(2,4) c by (intro exI[of _ pas]) simp
  have cov: "\<forall>(as, P)\<in>set m. \<exists>e\<in>set (used ra). set_as e = as" using rep by (simp add: aspa_rep_def)
  have "\<exists>x\<in>set (used ra'). set_as x = as" if "(as, P) \<in> set (m @ [(cas, pas)])" for as P
  proof (cases "(as, P) \<in> set m")
    case True
    then have "\<exists>x\<in>set (used ra). set_as x = as" using cov by blast
    then show ?thesis using u(1) by blast
  next
    case False
    then show ?thesis using that u(1,2) by simp
  qed
  then have "\<forall>(as, P)\<in>set (m @ [(cas, pas)]). \<exists>x\<in>set (used ra'). set_as x = as" by blast
  moreover have "\<forall>x\<in>set (used ra'). \<exists>P. (set_as x, P) \<in> set (m @ [(cas, pas)]) \<and> slice ra' x P \<and> set_pas x + length P \<le> curdata ra'"
    using old new u(1) by simp
  ultimately show ?thesis using st b c fit dl d unfolding aspa_rep_def by simp
qed

lemma aspa_add_set_spec:
  assumes rep: "aspa_rep ra m" and fit: "curset ra < maxset ra" "curdata ra + length pas \<le> maxdata ra"
    and desc: "\<forall>(as, P)\<in>set m. cas < as"
  shows "\<exists>ra'. aspa_add_set ra cas pas = Inr ra' \<and> aspa_rep ra' (m @ [(cas, pas)]) \<and> maxset ra' = maxset ra \<and>
    maxdata ra' = maxdata ra \<and> curset ra' = curset ra + 1 \<and> curdata ra' = curdata ra + length pas"
proof -
  let ?h = "bucket ra cas"
  note r = rep[unfolded aspa_rep_def]
  have ls: "length (sets ra) = maxset ra" and ok: "\<And>h. bucket_ok ra h"
    and tb: "\<And>h. aspa_table ra h \<noteq> None \<Longrightarrow> h \<le> unat (aspa_mask ra)"
    and z: "\<And>j. curset ra \<le> j \<Longrightarrow> j < maxset ra \<Longrightarrow> sets ra ! j = zero_set" using r by auto
  have nd: "\<not> maxdata ra - curdata ra < length pas" using fit(2) by simp
  have ul: "length (used ra) = curset ra" using r by (simp add: used_def)
  show ?thesis
  proof (cases "aspa_table ra ?h")
    case None
    let ?e = "\<lparr>set_as = cas, set_num = length pas, set_pas = curdata ra, set_next = False\<rparr>"
    let ?ra = "ra\<lparr>sets := (sets ra)[curset ra := ?e], curset := curset ra + 1,
      aspa_table := (aspa_table ra)(?h := Some (curset ra)),
      aspa_data := take (curdata ra) (aspa_data ra) @ pas @ drop (curdata ra + length pas) (aspa_data ra),
      curdata := curdata ra + length pas\<rparr>"
    have res: "aspa_add_set ra cas pas = Inr ?ra"
      using None fit(1) nd z[of "curset ra"] by (simp add: aspa_add_set_def bucket_def Let_def zero_set_def)
    have u: "used ?ra = used ra @ [?e]" unfolding used_def[of ?ra] using used_append[OF ls fit(1), of ?e] by simp
    have "bucket_ok ?ra h" for h
      by (rule bucket_ok_append[OF ok u]) (use None ok ul in simp_all)
    then have "aspa_rep ?ra (m @ [(cas, pas)])"
      using u ls fit z tb bucket_bound[of ra cas] by (intro rep_extend[OF rep fit, of ?ra ?e]) (auto split: if_splits)
    then show ?thesis using res by simp
  next
    case (Some i)
    let ?e = "\<lparr>set_as = cas, set_num = length pas, set_pas = curdata ra, set_next = True\<rparr>"
    let ?ra = "ra\<lparr>sets := take i (sets ra) @ ?e # drop i (take (curset ra) (sets ra)) @ drop (curset ra + 1) (sets ra),
      curset := curset ra + 1,
      aspa_table := (\<lambda>j. case aspa_table ra j of None \<Rightarrow> None
         | Some k \<Rightarrow> Some (if j \<le> unat (aspa_mask ra) \<and> k > i then k + 1 else k))(?h := Some i),
      aspa_data := take (curdata ra) (aspa_data ra) @ pas @ drop (curdata ra + length pas) (aspa_data ra),
      curdata := curdata ra + length pas\<rparr>"
    obtain c rest where c: "drop i (used ra) = c @ rest" "chain c" using ok[of ?h] Some by (auto simp: bucket_ok_def)
    then have i: "i < length (used ra)" using chain_nonempty by (metis Nil_is_append_conv drop_all not_less)
    have mem: "used ra ! i \<in> set (used ra)" using i by simp
    have si: "sets ra ! i = used ra ! i" using i by (simp add: used_def)
    have lt: "cas < set_as (used ra ! i)" using r mem desc by fastforce
    have res: "aspa_add_set ra cas pas = Inr ?ra"
      using Some fit(1) nd lt si by (simp add: aspa_add_set_def bucket_def Let_def not_le)
    have u: "used ?ra = take i (used ra) @ ?e # drop i (used ra)"
      unfolding used_def[of ?ra] using used_insert[OF ls fit(1), of i ?e] i ul by simp
    have set': "set (used ?ra) = insert ?e (set (used ra))"
      unfolding u by (metis Un_insert_right append_take_drop_id list.simps(15) set_append)
    have t: "aspa_table ?ra = (\<lambda>j. case aspa_table ra j of None \<Rightarrow> None
         | Some k \<Rightarrow> Some (if k > i then k + 1 else k))(?h := Some i)"
      using tb by (auto simp: fun_eq_iff split: option.splits)
    have "bucket_ok ?ra h" for h
      by (rule bucket_ok_insert[OF ok Some i u _ _ t]) (use lt in simp_all)
    moreover have "length (sets ?ra) = maxset ?ra" using ls fit(1) i ul by simp
    moreover have "\<forall>j. curset ?ra \<le> j \<longrightarrow> j < maxset ?ra \<longrightarrow> sets ?ra ! j = zero_set"
      using ls fit(1) i ul z by (auto simp: nth_append nth_Cons')
    moreover have "\<forall>h. aspa_table ?ra h \<noteq> None \<longrightarrow> h \<le> unat (aspa_mask ?ra)"
      using tb bucket_bound[of ra cas] by (auto split: option.splits)
    ultimately have "aspa_rep ?ra (m @ [(cas, pas)])"
      by (intro rep_extend[OF rep fit set']) simp_all
    then show ?thesis using res by simp
  qed
qed

text \<open>A table that aspa_table_prep() made and a descending sequence of aspa_add_set() calls filled.\<close>

primrec aspa_fill :: "rde_aspa \<Rightarrow> (u32 \<times> u32 list) list \<Rightarrow> rde_aspa res" where
  "aspa_fill ra [] = Inr ra"
| "aspa_fill ra (p # ps) = res_bind (aspa_add_set ra (fst p) (snd p)) (\<lambda>ra'. aspa_fill ra' ps)"

definition desc_sets :: "(u32 \<times> u32 list) list \<Rightarrow> bool" where
  "desc_sets m = sorted_wrt (\<lambda>p q. fst q < fst p) m"

lemma aspa_fill_spec:
  "aspa_rep ra m0 \<Longrightarrow> desc_sets (m0 @ m) \<Longrightarrow> curset ra + length m \<le> maxset ra \<Longrightarrow>
   curdata ra + sum_list (map (length \<circ> snd) m) \<le> maxdata ra \<Longrightarrow>
   \<exists>ra'. aspa_fill ra m = Inr ra' \<and> aspa_rep ra' (m0 @ m)"
proof (induction m arbitrary: ra m0)
  case (Cons p ps)
  obtain cas pas where p: "p = (cas, pas)" by (cases p)
  have "\<forall>(as, P)\<in>set m0. cas < as" using Cons.prems(2) by (auto simp: desc_sets_def sorted_wrt_append p)
  with Cons.prems obtain ra' where r: "aspa_add_set ra cas pas = Inr ra'" "aspa_rep ra' (m0 @ [p])" "maxset ra' = maxset ra"
    "maxdata ra' = maxdata ra" "curset ra' = curset ra + 1" "curdata ra' = curdata ra + length pas"
    using aspa_add_set_spec[of ra m0 pas cas] by (auto simp: p)
  show ?case using Cons.IH[OF r(2)] Cons.prems(2-4) r by (simp add: p)
qed simp

lemma aspa_table_prep_spec:
  assumes "0 < n" "n \<le> 0xffffffff div 2" "\<forall>k. ca k"
  shows "\<exists>mem' ra. aspa_table_prep ca now junk mem n sz = Inr (mem', Some ra) \<and> aspa_rep ra [] \<and>
    curset ra = 0 \<and> maxset ra = n \<and> curdata ra = 0 \<and> maxdata ra = sz div 4"
  using assms by (auto simp: aspa_table_prep_def Let_def aspa_rep_def used_def bucket_ok_def)

section \<open>Walking the path\<close>

text \<open>What the path walk knows after the hops \<open>hs\<close>, given the relation of customers and providers.\<close>

definition hop_pairs :: "u32 list \<Rightarrow> (u32 \<times> u32) list" where
  "hop_pairs hs = zip hs (tl hs)"

definition downs :: "(u32 \<Rightarrow> u32 \<Rightarrow> cp_state) \<Rightarrow> u32 list \<Rightarrow> cp_state list" where
  "downs cp hs = map (\<lambda>(l, r). cp l r) (hop_pairs hs)"

definition ups :: "(u32 \<Rightarrow> u32 \<Rightarrow> cp_state) \<Rightarrow> u32 list \<Rightarrow> cp_state list" where
  "ups cp hs = downs cp (rev hs)"

definition ramp :: "(cp_state \<Rightarrow> bool) \<Rightarrow> cp_state list \<Rightarrow> nat" where
  "ramp ok cs = 1 + length (takeWhile ok cs)"

definition last_idx :: "cp_state \<Rightarrow> cp_state list \<Rightarrow> int" where
  "last_idx c us = (if c \<in> set us then int (length us + 1) - int (ramp (\<lambda>x. x \<noteq> c) us) else 0)"

definition first_idx :: "cp_state \<Rightarrow> cp_state list \<Rightarrow> int" where
  "first_idx c ds = (if c \<in> set ds then int (ramp (\<lambda>x. x \<noteq> c) ds) + 1 else 0)"

definition walk_state :: "(u32 \<Rightarrow> u32 \<Rightarrow> cp_state) \<Rightarrow> u32 list \<Rightarrow> aspa_state" where
  "walk_state cp hs = (let us = ups cp hs; ds = downs cp hs in
     \<lparr>nhops = int (length hs),
      nup_p = (if takeWhile ((=) PROVIDER) us = [] then 0 else int (length hs + 1) - int (ramp ((=) PROVIDER) us)),
      nup_u = last_idx UNKNOWN us, nup_np = last_idx NOT_PROVIDER us,
      ndown_p = int (ramp ((=) PROVIDER) ds), ndown_u = first_idx UNKNOWN ds, ndown_np = first_idx NOT_PROVIDER ds\<rparr>)"

lemma hop_pairs_snoc: "hs \<noteq> [] \<Longrightarrow> hop_pairs (hs @ [x]) = hop_pairs hs @ [(last hs, x)]"
  by (induction hs rule: induct_list012) (auto simp: hop_pairs_def)

lemma hop_pairs_cons: "hs \<noteq> [] \<Longrightarrow> hop_pairs (x # hs) = (x, hd hs) # hop_pairs hs"
  by (cases hs) (auto simp: hop_pairs_def)

lemma hop_pairs_length: "length (hop_pairs hs) = length hs - 1"
  by (simp add: hop_pairs_def)

lemma downs_snoc: "hs \<noteq> [] \<Longrightarrow> downs cp (hs @ [x]) = downs cp hs @ [cp (last hs) x]"
  by (simp add: downs_def hop_pairs_snoc)

lemma ups_snoc: "hs \<noteq> [] \<Longrightarrow> ups cp (hs @ [x]) = cp x (last hs) # ups cp hs"
  by (simp add: ups_def downs_def hop_pairs_cons hd_rev)

lemma downs_length: "length (downs cp hs) = length hs - 1"
  by (simp add: downs_def hop_pairs_length)

lemma ups_length: "length (ups cp hs) = length hs - 1"
  by (simp add: ups_def downs_length)

lemma ramp_snoc: "ramp ok (cs @ [c]) = (if list_all ok cs \<and> ok c then length cs + 2 else ramp ok cs)"
  by (induction cs) (auto simp: ramp_def)

lemma ramp_le: "ramp ok cs \<le> length cs + 1"
  by (simp add: ramp_def length_takeWhile_le)

lemma ramp_full: "ramp ok cs = length cs + 1 \<longleftrightarrow> list_all ok cs"
proof -
  have "length (takeWhile ok cs) = length cs \<longleftrightarrow> takeWhile ok cs = cs"
    by (metis takeWhile_eq_take take_all_iff order_refl)
  then show ?thesis by (simp add: ramp_def list_all_iff takeWhile_eq_all_conv)
qed

lemma first_idx_snoc:
  "first_idx c (ds @ [d]) = (if first_idx c ds = 0 \<and> d = c then int (length ds) + 2 else first_idx c ds)"
proof -
  have "c \<in> set ds \<longleftrightarrow> \<not> list_all (\<lambda>x. x \<noteq> c) ds" by (auto simp: list_all_iff)
  then show ?thesis using ramp_full[of "\<lambda>x. x \<noteq> c" ds] by (auto simp: first_idx_def ramp_snoc)
qed

lemma last_idx_cons: "last_idx c (u # us) = (if u = c then int (length us) + 1 else last_idx c us)"
  by (auto simp: last_idx_def ramp_def)

lemma aspa_hop_spec:
  assumes cp: "\<And>c p. aspa_cp_lookup ra c p = Inr (cp c p)" and hs: "hs \<noteq> []" "last hs \<noteq> 0" "x \<noteq> last hs"
  shows "aspa_hop ra x (walk_state cp hs, last hs) = Inr (walk_state cp (hs @ [x]), x)"
proof -
  let ?d = "cp (last hs) x" and ?u = "cp x (last hs)"
  have l: "length (downs cp hs) + 1 = length hs" "length (ups cp hs) + 1 = length hs"
    using hs(1) by (simp_all add: downs_length ups_length)
  have dn: "ramp ((=) PROVIDER) (downs cp hs) = length hs \<longleftrightarrow> list_all ((=) PROVIDER) (downs cp hs)"
    using ramp_full[of "(=) PROVIDER" "downs cp hs"] l by simp
  have d: "ndown_p (walk_state cp (hs @ [x])) =
        (if ?d = PROVIDER \<and> ndown_p (walk_state cp hs) + 1 = int (length hs) + 1 then int (length hs) + 1 else ndown_p (walk_state cp hs))"
      "ndown_u (walk_state cp (hs @ [x])) =
        (if ndown_u (walk_state cp hs) = 0 \<and> ?d = UNKNOWN then int (length hs) + 1 else ndown_u (walk_state cp hs))"
      "ndown_np (walk_state cp (hs @ [x])) =
        (if ndown_np (walk_state cp hs) = 0 \<and> ?d = NOT_PROVIDER then int (length hs) + 1 else ndown_np (walk_state cp hs))"
    using l dn hs(1) by (auto simp: walk_state_def Let_def downs_snoc ramp_snoc first_idx_snoc)
  have u: "nup_p (walk_state cp (hs @ [x])) =
        (if ?u = PROVIDER then if nup_p (walk_state cp hs) = 0 then int (length hs) else nup_p (walk_state cp hs) else 0)"
    using l hs(1) ramp_le[of "(=) PROVIDER" "ups cp hs"] by (auto simp: walk_state_def Let_def ups_snoc ramp_def)
  have u': "nup_u (walk_state cp (hs @ [x])) = (if ?u = UNKNOWN then int (length hs) else nup_u (walk_state cp hs))"
      "nup_np (walk_state cp (hs @ [x])) = (if ?u = NOT_PROVIDER then int (length hs) else nup_np (walk_state cp hs))"
    using l hs(1) by (auto simp: walk_state_def Let_def ups_snoc last_idx_cons)
  have n: "nhops (walk_state cp (hs @ [x])) = int (length hs) + 1" "nhops (walk_state cp hs) = int (length hs)"
    by (simp_all add: walk_state_def Let_def)
  show ?thesis
    using hs(2,3) by (cases ?d; cases ?u) (simp_all add: aspa_hop_def cp Let_def n d u u' aspa_state.equality)
qed

text \<open>The walk over the whole path: prepended copies are one hop.\<close>

definition walk_of :: "(u32 \<Rightarrow> u32 \<Rightarrow> cp_state) \<Rightarrow> u32 list \<Rightarrow> aspa_state \<times> u32" where
  "walk_of cp asns = (walk_state cp (remdups_adj asns), if asns = [] then 0 else last asns)"

lemma remdups_adj_snoc:
  "remdups_adj (xs @ [x]) = (if xs \<noteq> [] \<and> last xs = x then remdups_adj xs else remdups_adj xs @ [x])"
proof (cases xs rule: rev_cases)
  case (snoc ys y)
  then show ?thesis using remdups_adj_append_two[of ys y x] by simp
qed simp

lemma aspa_hop_walk:
  assumes cp: "\<And>c p. aspa_cp_lookup ra c p = Inr (cp c p)" and nz: "x \<noteq> 0" "0 \<notin> set asns"
  shows "aspa_hop ra x (walk_of cp asns) = Inr (walk_of cp (asns @ [x]))"
proof (cases "asns = []")
  case True
  then show ?thesis using nz(1)
    by (simp add: walk_of_def aspa_hop_def walk_state_def Let_def ups_def downs_def hop_pairs_def ramp_def first_idx_def last_idx_def)
next
  case False
  then have hs: "remdups_adj asns \<noteq> []" "last (remdups_adj asns) = last asns" "last asns \<noteq> 0"
    using nz(2) last_in_set[OF False] by (force simp: last_remdups_adj)+
  show ?thesis
  proof (cases "x = last asns")
    case True
    then show ?thesis using False by (simp add: walk_of_def aspa_hop_def remdups_adj_snoc)
  next
    case n: False
    then show ?thesis using False hs aspa_hop_spec[OF cp, of "remdups_adj asns" x]
      by (simp add: walk_of_def remdups_adj_snoc)
  qed
qed

lemma aspa_seg_spec:
  assumes cp: "\<And>c p. aspa_cp_lookup ra c p = Inr (cp c p)" and wf: "wf_seg (t, as)" and nz: "0 \<notin> set as"
  shows "i + k = length as \<Longrightarrow> 0 \<notin> set asns \<Longrightarrow>
    aspa_seg ra (enc4 (t, as) @ r) i k (walk_of cp asns) = Inr (walk_of cp (asns @ drop i as))"
proof (induction k arbitrary: i asns)
  case (Suc k)
  then have i: "i < length as" by simp
  have x: "as ! i \<noteq> 0" using nz nth_mem[OF i] by metis
  have "asns @ drop i as = (asns @ [as ! i]) @ drop (i + 1) as" using Cons_nth_drop_Suc[OF i] by simp
  moreover have "aspa_seg ra (enc4 (t, as) @ r) (i + 1) k (walk_of cp (asns @ [as ! i])) =
      Inr (walk_of cp ((asns @ [as ! i]) @ drop (i + 1) as))"
    using Suc.prems x by (intro Suc.IH) auto
  ultimately show ?case
    using extract_enc4[OF wf i, of r] aspa_hop_walk[OF cp x Suc.prems(2)] by simp
qed simp

lemma aspa_walk_spec:
  assumes cp: "\<And>c p. aspa_cp_lookup ra c p = Inr (cp c p)"
  shows "list_all wf_seg segs \<Longrightarrow> 0 \<notin> set (path_asns segs) \<Longrightarrow> 0 \<notin> set asns \<Longrightarrow>
    aspa_walk ra (enc_path True segs) (walk_of cp asns) =
      Inr (if list_all (\<lambda>s. fst s = AS_SEQUENCE) segs then Some (walk_of cp (asns @ path_asns segs)) else None)"
proof (induction segs arbitrary: asns)
  case Nil
  then show ?case by (simp add: aspa_walk.simps[of ra "[]"] enc_path_def path_asns_def)
next
  case (Cons s ss)
  obtain t as where s: "s = (t, as)" by (cases s)
  have wf: "wf_seg (t, as)" using Cons.prems(1) s by simp
  have e: "enc_path True (s # ss) = enc4 (t, as) @ enc_path True ss" by (simp add: enc_path_def s)
  have nz: "0 \<notin> set as" "0 \<notin> set (path_asns ss)" using Cons.prems(2) by (auto simp: path_asns_def s)
  have sg: "aspa_seg ra (enc4 (t, as) @ enc_path True ss) 0 (length as) (walk_of cp asns) = Inr (walk_of cp (asns @ as))"
    using aspa_seg_spec[OF cp wf nz(1), of 0 "length as" asns] Cons.prems(3) by simp
  have ih: "aspa_walk ra (enc_path True ss) (walk_of cp (asns @ as)) =
      Inr (if list_all (\<lambda>s. fst s = AS_SEQUENCE) ss then Some (walk_of cp ((asns @ as) @ path_asns ss)) else None)"
    using Cons.prems(1,3) nz by (intro Cons.IH) auto
  show ?case
  proof (cases "t = AS_SEQUENCE")
    case True
    have "aspa_walk ra (enc4 (t, as) @ enc_path True ss) (walk_of cp asns) = aspa_walk ra (enc_path True ss) (walk_of cp (asns @ as))"
      using sg wf_seg_len[OF wf] seg_size_enc4[OF wf]
      unfolding True by (subst aspa_walk.simps) simp
    then show ?thesis unfolding e using ih True by (simp add: s path_asns_def)
  next
    case False
    then show ?thesis unfolding e by (simp add: aspa_walk.simps[of ra "enc4 (t, as) @ enc_path True ss"] s)
  qed
qed

section \<open>The verification procedure of the draft\<close>

text \<open>
  The reference: the largest and smallest possible ramps, counted from the origin for the up-ramp
  and from the neighbor for the down-ramp, as the draft on ASPA-based AS_PATH verification has them.
\<close>

definition verify_upstream :: "(u32 \<Rightarrow> u32 \<Rightarrow> cp_state) \<Rightarrow> u32 list \<Rightarrow> aspa_validity" where
  "verify_upstream cp hs =
     (if ramp (\<lambda>c. c \<noteq> NOT_PROVIDER) (ups cp hs) < length hs then ASPA_INVALID
      else if ramp (\<lambda>c. c = PROVIDER) (ups cp hs) < length hs then ASPA_UNKNOWN
      else ASPA_VALID)"

definition verify_downstream :: "(u32 \<Rightarrow> u32 \<Rightarrow> cp_state) \<Rightarrow> u32 list \<Rightarrow> aspa_validity" where
  "verify_downstream cp hs =
     (if ramp (\<lambda>c. c \<noteq> NOT_PROVIDER) (ups cp hs) + ramp (\<lambda>c. c \<noteq> NOT_PROVIDER) (downs cp hs) < length hs then ASPA_INVALID
      else if ramp (\<lambda>c. c = PROVIDER) (ups cp hs) + ramp (\<lambda>c. c = PROVIDER) (downs cp hs) < length hs then ASPA_UNKNOWN
      else ASPA_VALID)"

lemma ramp_lt: "ramp ok cs < length cs + 1 \<longleftrightarrow> \<not> list_all ok cs"
  using ramp_full[of ok cs] ramp_le[of ok cs] by linarith

lemma ramp_mono: "(\<And>c. ok c \<Longrightarrow> ok' c) \<Longrightarrow> ramp ok cs \<le> ramp ok' cs"
  by (induction cs) (auto simp: ramp_def)

lemma last_idx_ramp:
  "c \<in> set us \<Longrightarrow> last_idx c us = int (length us + 1) - int (ramp (\<lambda>x. x \<noteq> c) us)"
  "last_idx c us \<noteq> 0 \<longleftrightarrow> c \<in> set us"
  using ramp_lt[of "\<lambda>x. x \<noteq> c" us] by (auto simp: last_idx_def list_all_iff)

lemma finalize_upstream:
  assumes "hs \<noteq> []"
  shows "onlyup (aspa_check_finalize (walk_state cp hs)) = verify_upstream cp hs"
proof -
  let ?us = "ups cp hs"
  have l: "length hs = length ?us + 1" using assms by (simp add: ups_length)
  have "list_all (\<lambda>c. c \<noteq> NOT_PROVIDER) ?us \<longleftrightarrow> NOT_PROVIDER \<notin> set ?us" by (auto simp: list_all_iff)
  moreover have "list_all (\<lambda>c. c = PROVIDER) ?us \<longleftrightarrow> NOT_PROVIDER \<notin> set ?us \<and> UNKNOWN \<notin> set ?us"
    by (auto simp: list_all_iff) (metis cp_state.exhaust)
  moreover have "nup_np (walk_state cp hs) \<noteq> 0 \<longleftrightarrow> NOT_PROVIDER \<in> set ?us" "nup_u (walk_state cp hs) \<noteq> 0 \<longleftrightarrow> UNKNOWN \<in> set ?us"
    by (simp_all add: walk_state_def Let_def last_idx_ramp)
  moreover have "ramp ok ?us < length hs \<longleftrightarrow> \<not> list_all ok ?us" for ok using ramp_lt[of ok ?us] l by simp
  ultimately show ?thesis by (simp add: aspa_check_finalize_def verify_upstream_def)
qed

text \<open>The two ramps of one kind as the walk records them, after the correction at its end.\<close>

definition final_state :: "aspa_state \<Rightarrow> aspa_state" where
  "final_state s = (if nup_p s = 0 then s\<lparr>nup_p := nhops s\<rparr> else s)"

lemma final_state_onlyup: "onlyup (aspa_check_finalize (final_state s)) = onlyup (aspa_check_finalize s)"
  by (simp add: final_state_def aspa_check_finalize_def)

lemma final_nup_p:
  assumes "hs \<noteq> []"
  shows "nup_p (final_state (walk_state cp hs)) = int (length hs + 1) - int (ramp (\<lambda>c. c = PROVIDER) (ups cp hs))"
proof -
  have eq: "(=) PROVIDER = (\<lambda>c. c = PROVIDER)" by auto
  have "ramp (\<lambda>c. c = PROVIDER) (ups cp hs) \<le> length hs" using ramp_le[of "\<lambda>c. c = PROVIDER" "ups cp hs"] assms by (simp add: ups_length)
  then show ?thesis by (auto simp: final_state_def walk_state_def Let_def eq ramp_def)
qed

lemma finalize_downstream:
  assumes "hs \<noteq> []"
  shows "downup (aspa_check_finalize (final_state (walk_state cp hs))) = verify_downstream cp hs"
proof -
  let ?us = "ups cp hs" and ?ds = "downs cp hs" and ?n = "length hs" and ?s = "final_state (walk_state cp hs)"
  let ?np = "\<lambda>c. c \<noteq> NOT_PROVIDER" and ?p = "\<lambda>c. c = PROVIDER"
  have eq: "(=) PROVIDER = ?p" by auto
  have l: "length ?us + 1 = ?n" "length ?ds + 1 = ?n" using assms by (simp_all add: ups_length downs_length)
  have s: "nhops ?s = int ?n" "ndown_p ?s = int (ramp ?p ?ds)" "nup_p ?s = int (?n + 1) - int (ramp ?p ?us)"
    "nup_np ?s = last_idx NOT_PROVIDER ?us" "ndown_np ?s = first_idx NOT_PROVIDER ?ds"
    using final_nup_p[OF assms] by (simp_all add: final_state_def walk_state_def Let_def eq)
  have le: "ramp ?p ?us \<le> ramp ?np ?us" "ramp ?p ?ds \<le> ramp ?np ?ds" by (auto intro: ramp_mono)
  have one: "1 \<le> ramp ?p ?us" "1 \<le> ramp ?p ?ds" by (simp_all add: ramp_def)
  have np: "(last_idx NOT_PROVIDER ?us \<noteq> 0 \<and> first_idx NOT_PROVIDER ?ds \<noteq> 0 \<and>
      last_idx NOT_PROVIDER ?us - first_idx NOT_PROVIDER ?ds \<ge> 0) \<longleftrightarrow> ramp ?np ?us + ramp ?np ?ds < ?n"
  proof (cases "NOT_PROVIDER \<in> set ?us \<and> NOT_PROVIDER \<in> set ?ds")
    case True
    then show ?thesis using l last_idx_ramp(2)[of NOT_PROVIDER ?us] by (auto simp: last_idx_ramp(1) first_idx_def)
  next
    case False
    then have "ramp ?np ?us = ?n \<or> ramp ?np ?ds = ?n"
      using ramp_full[of ?np ?us] ramp_full[of ?np ?ds] l by (auto simp: list_all_iff)
    then show ?thesis using False by (auto simp: last_idx_def first_idx_def)
  qed
  show ?thesis
    using s le one np by (auto simp: aspa_check_finalize_def verify_downstream_def)
qed

section \<open>Properties\<close>

definition aspa_reference :: "(u32 \<Rightarrow> u32 \<Rightarrow> cp_state) \<Rightarrow> segment list \<Rightarrow> rde_aspa_state" where
  "aspa_reference cp segs =
     (if segs = [] \<or> \<not> list_all (\<lambda>s. fst s = AS_SEQUENCE) segs then \<lparr>onlyup = ASPA_INVALID, downup = ASPA_INVALID\<rparr>
      else let hs = remdups_adj (path_asns segs) in
        \<lparr>onlyup = verify_upstream cp hs, downup = verify_downstream cp hs\<rparr>)"

definition data_len :: "(u32 \<times> u32 list) list \<Rightarrow> nat" where
  "data_len m = sum_list (map (length \<circ> snd) m)"

lemma aspa_built:
  assumes "desc_sets m" "m \<noteq> []" "length m \<le> 0x7fffffff" "4 * data_len m \<le> sz" "\<forall>k. ca k"
  obtains mem' ra ra' where "aspa_table_prep ca now junk mem (length m) sz = Inr (mem', Some ra)"
    "aspa_fill ra m = Inr ra'" "aspa_rep ra' m"
proof -
  obtain mem' ra where p: "aspa_table_prep ca now junk mem (length m) sz = Inr (mem', Some ra)" and r: "aspa_rep ra []"
      "curset ra = 0" "maxset ra = length m" "curdata ra = 0" "maxdata ra = sz div 4"
    using aspa_table_prep_spec[of "length m" ca now junk mem sz] assms(2,3,5) by auto
  have "data_len m \<le> sz div 4" using assms(4) by simp
  then obtain ra' where "aspa_fill ra m = Inr ra'" "aspa_rep ra' m"
    using aspa_fill_spec[OF r(1), of m] assms(1) r by (auto simp: data_len_def)
  with p show thesis by (rule that)
qed

lemma desc_sets_distinct: "desc_sets m \<Longrightarrow> distinct (map fst m)"
  by (induction m) (auto simp: desc_sets_def)

lemma no_soft_nonzero:
  assumes "list_all (parsed_seg True) segs" "aspath_verify (enc_path True segs) True ps = 0"
  shows "0 \<notin> set (path_asns segs)"
proof -
  have "\<not> list_ex (soft_seg ps) segs" using aspath_verify_enc[OF assms(1), of ps] assms(2) by (auto split: if_splits)
  then show ?thesis by (auto simp: list_ex_iff soft_seg_def path_asns_def)
qed

lemma aspa_validation_spec:
  assumes cp: "\<And>c p. aspa_cp_lookup ra c p = Inr (cp c p)" and wf: "list_all wf_seg segs"
    and nz: "0 \<notin> set (path_asns segs)" and a: "ap_data a = enc_path True segs"
  shows "aspa_validation (Some ra) a = Inr (aspa_reference cp segs)"
proof (cases "segs = []")
  case True
  then show ?thesis using a by (simp add: aspa_validation_def aspa_reference_def aspath_length_def)
next
  case False
  have ne: "path_asns segs \<noteq> []" using False wf by (cases segs) (auto simp: path_asns_def wf_seg_def)
  have init: "(aspa_state0\<lparr>ndown_p := 1\<rparr>, 0) = walk_of cp []"
    by (simp add: walk_of_def walk_state_def aspa_state0_def Let_def ups_def downs_def hop_pairs_def ramp_def first_idx_def last_idx_def)
  have len: "aspath_length a \<noteq> 0" using False a by (cases segs) (auto simp: aspath_length_def)
  have w: "aspa_walk ra (ap_data a) (aspa_state0\<lparr>ndown_p := 1\<rparr>, 0) =
      Inr (if list_all (\<lambda>s. fst s = AS_SEQUENCE) segs then Some (walk_of cp (path_asns segs)) else None)"
    unfolding init a using aspa_walk_spec[OF cp wf nz, of "[]"] by simp
  let ?hs = "remdups_adj (path_asns segs)"
  have fin: "aspa_check_finalize (final_state (walk_state cp ?hs)) =
      \<lparr>onlyup = verify_upstream cp ?hs, downup = verify_downstream cp ?hs\<rparr>"
    using finalize_upstream[of ?hs cp] finalize_downstream[of ?hs cp] final_state_onlyup[of "walk_state cp ?hs"] ne
    by (intro rde_aspa_state.equality) simp_all
  show ?thesis
    using len w fin False
    by (simp add: aspa_validation_def aspa_check_aspath_def aspath_dump_def aspa_reference_def walk_of_def final_state_def Let_def)
qed

text \<open>
  C4: ASPA validation of an AS path the verification of UPDATE messages accepted, against a table
  filled in descending order of the customers: table and walk never fail or read outside an array,
  and the two outcomes are those of the draft, computed from the ramps over the hops of the path
  without prepended copies; an empty path or one with a segment other than AS_SEQUENCE is invalid.
\<close>

theorem aspa_validation_is_draft:
  assumes "desc_sets m" "m \<noteq> []" "length m \<le> 0x7fffffff" "\<forall>(as, P)\<in>set m. sorted P"
    and "4 * data_len m \<le> sz" "\<forall>k. ca k" "aspath_verify (ap_data a) True ps = 0"
  shows "\<exists>segs mem' ra ra'. ap_data a = enc_path True segs \<and>
    aspa_table_prep ca now junk mem (length m) sz = Inr (mem', Some ra) \<and> aspa_fill ra m = Inr ra' \<and>
    aspa_validation (Some ra') a = Inr (aspa_reference (cp_rel m) segs)"
proof -
  obtain mem' ra ra' where t: "aspa_table_prep ca now junk mem (length m) sz = Inr (mem', Some ra)"
      "aspa_fill ra m = Inr ra'" and rep: "aspa_rep ra' m"
    by (rule aspa_built[OF assms(1-3,5,6)])
  obtain segs where p: "list_all (parsed_seg True) segs" and b: "ap_data a = enc_path True segs"
    using aspath_verify_parses[of "ap_data a" True ps] assms(7) by auto
  have "0 \<notin> set (path_asns segs)" using no_soft_nonzero[OF p] assms(7) b by simp
  then have "aspa_validation (Some ra') a = Inr (aspa_reference (cp_rel m) segs)"
    by (rule aspa_validation_spec[OF aspa_cp_lookup_spec[OF rep desc_sets_distinct[OF assms(1)] assms(4)] parsed_segs_wf[OF p] _ b])
  with t b show ?thesis by blast
qed

theorem aspa_validation_is_draft_witness:
  "\<exists>segs mem' ra ra'. [2, 3, 0, 0, 0, 7, 0, 0, 0, 9, 0, 0, 0, 8] = enc_path True segs \<and>
    aspa_table_prep (\<lambda>_. True) 0 (\<lambda>_. 0) \<lparr>aspa_cnt = 0, aspa_size = 0\<rparr> 2 12 = Inr (mem', Some ra) \<and>
    aspa_fill ra [(9, [7]), (8, [7, 9])] = Inr ra' \<and>
    aspa_validation (Some ra') \<lparr>ap_source_as = 8, ap_ascnt = 3, ap_data = [2, 3, 0, 0, 0, 7, 0, 0, 0, 9, 0, 0, 0, 8]\<rparr> =
      Inr (aspa_reference (cp_rel [(9, [7]), (8, [7, 9])]) segs)"
proof -
  let ?m = "[(9, [7]), (8, [7, 9])] :: (u32 \<times> u32 list) list"
  let ?a = "\<lparr>ap_source_as = 8, ap_ascnt = 3, ap_data = [2, 3, 0, 0, 0, 7, 0, 0, 0, 9, 0, 0, 0, 8]\<rparr>"
  have v: "aspath_verify (ap_data ?a) True True = 0" by code_simp
  have d: "desc_sets ?m" "?m \<noteq> []" "length ?m \<le> 0x7fffffff" "4 * data_len ?m \<le> 12"
    by (simp_all add: desc_sets_def data_len_def)
  have s: "\<forall>(as, P)\<in>set ?m. sorted P" by simp
  have two: "length ?m = 2" "\<forall>k. (\<lambda>_. True) k" by simp_all
  show ?thesis
    using aspa_validation_is_draft[OF d(1-3) s d(4) two(2) v, of 0 "\<lambda>_. 0" "\<lparr>aspa_cnt = 0, aspa_size = 0\<rparr>"]
    unfolding two(1) by simp
qed

text \<open>
  C17: the hash table is a faithful store: after filling it in descending order of the customers
  every lookup, by linear search or by halving, answers as the list of customers with their
  providers does, and never reads outside the arrays.
\<close>

theorem aspa_table_roundtrip:
  assumes "desc_sets m" "m \<noteq> []" "length m \<le> 0x7fffffff" "\<forall>(as, P)\<in>set m. sorted P"
    and "4 * data_len m \<le> sz" "\<forall>k. ca k"
  shows "\<exists>mem' ra ra'. aspa_table_prep ca now junk mem (length m) sz = Inr (mem', Some ra) \<and> aspa_fill ra m = Inr ra' \<and>
    (\<forall>cas pas. aspa_cp_lookup ra' cas pas = Inr (case map_of m cas of None \<Rightarrow> UNKNOWN
       | Some P \<Rightarrow> if pas \<in> set P then PROVIDER else NOT_PROVIDER))"
proof -
  obtain mem' ra ra' where t: "aspa_table_prep ca now junk mem (length m) sz = Inr (mem', Some ra)"
      "aspa_fill ra m = Inr ra'" and rep: "aspa_rep ra' m"
    by (rule aspa_built[OF assms(1-3,5,6)])
  show ?thesis
    using t aspa_cp_lookup_spec[OF rep desc_sets_distinct[OF assms(1)] assms(4)] by (simp add: cp_rel_def cp_of_def cong: option.case_cong)
qed

theorem aspa_table_roundtrip_witness:
  "\<exists>mem' ra ra'. aspa_table_prep (\<lambda>_. True) 0 (\<lambda>_. 0) \<lparr>aspa_cnt = 0, aspa_size = 0\<rparr> 1 8 = Inr (mem', Some ra) \<and>
    aspa_fill ra [(9, [7, 8])] = Inr ra' \<and>
    (\<forall>cas pas. aspa_cp_lookup ra' cas pas = Inr (case map_of [(9, [7, 8])] cas of None \<Rightarrow> UNKNOWN
       | Some P \<Rightarrow> if pas \<in> set P then PROVIDER else NOT_PROVIDER))"
  using aspa_table_roundtrip[of "[(9, [7, 8])]" 8 "\<lambda>_. True" 0 "\<lambda>_. 0" "\<lparr>aspa_cnt = 0, aspa_size = 0\<rparr>"]
  by (simp add: desc_sets_def data_len_def del: aspa_fill.simps)

end
