(* ===== verification/Community_Correct.thy ===== *)
theory Community_Correct
  imports Community "HOL-Library.Product_Lexorder"
begin

text \<open>
  Correctness of the communities of a route: the sorted array behaves as a set of communities, the
  matching of patterns with wildcards, neighbor-as and local-as has its documented meaning, and the
  attributes written are read back to the same communities.
\<close>

section \<open>Sorted arrays with a comparison function\<close>

text \<open>
  The interface of an array kept sorted by a comparison function: the function orders the entries
  by a key, and the insertion returns None when an entry with this key is there.
\<close>

locale keyed_array =
  fixes key :: "'a \<Rightarrow> 'k::linorder" and cmp :: "'a \<Rightarrow> 'a \<Rightarrow> int" and ins :: "'a \<Rightarrow> 'a list \<Rightarrow> 'a list option"
  assumes cmp_zero: "cmp a b = 0 \<longleftrightarrow> key a = key b"
    and cmp_pos: "cmp a b > 0 \<longleftrightarrow> key b < key a"
    and ins_Nil: "ins c [] = Some [c]"
    and ins_Cons: "ins c (x # xs) = (if cmp x c = 0 then None else if cmp x c > 0 then Some (c # x # xs)
      else map_option (\<lambda>ys. x # ys) (ins c xs))"
begin

definition ordered :: "'a list \<Rightarrow> bool" where
  "ordered xs = sorted_wrt (\<lambda>x y. key x < key y) xs"

lemma ordered_simps [simp]: "ordered []" "ordered (x # xs) \<longleftrightarrow> (\<forall>y\<in>set xs. key x < key y) \<and> ordered xs"
  by (simp_all add: ordered_def)

lemma ordered_inj: "ordered xs \<Longrightarrow> x \<in> set xs \<Longrightarrow> y \<in> set xs \<Longrightarrow> key x = key y \<Longrightarrow> x = y"
  by (induction xs) (simp, metis set_ConsD order_less_irrefl ordered_simps(2))

lemma ordered_distinct: "ordered xs \<Longrightarrow> distinct xs"
  by (induction xs) auto

lemma ins_None: "ordered xs \<Longrightarrow> ins c xs = None \<Longrightarrow> key c \<in> key ` set xs"
  by (induction xs) (auto simp: ins_Nil ins_Cons cmp_zero cmp_pos split: if_splits)

lemma ins_Some:
  "ordered xs \<Longrightarrow> ins c xs = Some ys \<Longrightarrow>
     ordered ys \<and> set ys = insert c (set xs) \<and> key c \<notin> key ` set xs \<and> length ys = Suc (length xs)"
proof (induction xs arbitrary: ys)
  case (Cons x xs)
  show ?case
  proof (cases "cmp x c > 0")
    case True
    then have "key c < key x" by (simp add: cmp_pos)
    then show ?thesis using Cons.prems True by (fastforce simp: ins_Cons)
  next
    case False
    then have lt: "key x < key c" and r: "map_option (\<lambda>ys. x # ys) (ins c xs) = Some ys"
      using Cons.prems(2) cmp_pos[of x c] cmp_zero[of x c] by (auto simp: ins_Cons split: if_splits)
    then obtain zs where z: "ins c xs = Some zs" "ys = x # zs" by auto
    show ?thesis using Cons.IH[OF _ z(1)] Cons.prems(1) z(2) lt by auto
  qed
qed (simp add: ins_Nil)

lemma ordered_bs: "ordered xs \<Longrightarrow> bs_ordered (cmp c) xs"
  unfolding ordered_def bs_ordered_def
proof (rule sorted_wrt_mono_rel[rotated], assumption)
  fix x y assume k: "key x < key y"
  show "sgn (cmp c y) \<le> sgn (cmp c x)"
  proof (cases "cmp c y > 0")
    case True
    then have "cmp c x > 0" using k by (simp add: cmp_pos)
    then show ?thesis using True by simp
  next
    case False
    then have "cmp c x \<ge> 0 \<or> cmp c y < 0" using k cmp_pos[of c x] cmp_zero[of c x] cmp_zero[of c y] cmp_pos[of c y] by force
    then show ?thesis using False by (auto simp: sgn_if)
  qed
qed

lemma found_iff: "ordered xs \<Longrightarrow> bsearch (cmp c) xs \<noteq> None \<longleftrightarrow> key c \<in> key ` set xs"
  using bsearch_found_iff[OF ordered_bs, of xs c] by (auto simp: cmp_zero)

lemma found_index: "bsearch (cmp c) xs = Some i \<Longrightarrow> i < length xs \<and> key (xs ! i) = key c"
  using bsearch_Some[of "cmp c" xs i] by (auto simp: cmp_zero)

lemma ordered_filter: "ordered xs \<Longrightarrow> ordered (filter P xs)"
  unfolding ordered_def by (rule sorted_wrt_filter)

lemma ordered_cut:
  assumes "ordered xs" "i < length xs"
  shows "take i xs @ drop (i + 1) xs = filter (\<lambda>x. key x \<noteq> key (xs ! i)) xs"
proof -
  have d: "drop i xs = xs ! i # drop (i + 1) xs" using assms(2) by (simp add: Cons_nth_drop_Suc)
  have o: "ordered (take i xs @ xs ! i # drop (i + 1) xs)" using assms(1) by (metis append_take_drop_id d)
  then have "\<forall>x\<in>set (take i xs). key x \<noteq> key (xs ! i)" "\<forall>x\<in>set (drop (i + 1) xs). key x \<noteq> key (xs ! i)"
    unfolding ordered_def sorted_wrt_append by force+
  then have "filter (\<lambda>x. key x \<noteq> key (xs ! i)) (take i xs @ xs ! i # drop (i + 1) xs) = take i xs @ drop (i + 1) xs"
    by (simp add: filter_id_conv)
  then show ?thesis by (metis append_take_drop_id d)
qed

end

definition ckey :: "community \<Rightarrow> u8 \<times> u32 \<times> u32 \<times> u32" where
  "ckey c = (ctype c, data1 c, data2 c, data3 c)"

interpretation arr: keyed_array ckey fast_match insert_slot
proof
  fix a b c x :: community and xs
  show "fast_match a b = 0 \<longleftrightarrow> ckey a = ckey b" by (simp add: fast_match_def ckey_def)
  show "fast_match a b > 0 \<longleftrightarrow> ckey b < ckey a" by (auto simp: fast_match_def ckey_def less_prod_def')
qed simp_all

section \<open>The invariant\<close>

text \<open>
  An entry has no flags but its type, and its fields hold what their type can express.
\<close>

definition wf_entry :: "community \<Rightarrow> bool" where
  "wf_entry c = (cm_flags c = ucast (ctype c) \<and>
     (ctype c = COMMUNITY_TYPE_BASIC \<and> data1 c \<le> USHRT_MAX \<and> data2 c \<le> USHRT_MAX \<and> data3 c = 0 \<or>
      ctype c = COMMUNITY_TYPE_LARGE \<or>
      ctype c = COMMUNITY_TYPE_EXT \<and> data3 c \<le> USHRT_MAX \<and>
        (let v = drop_bit 8 (data3 c) AND EXT_COMMUNITY_VALUE in
         if v = EXT_COMMUNITY_TRANS_FOUR_AS \<or> v = EXT_COMMUNITY_TRANS_IPV4 then data2 c \<le> USHRT_MAX
         else data1 c \<le> USHRT_MAX)))"

definition comm_ok :: "rde_community \<Rightarrow> bool" where
  "comm_ok comm = (arr.ordered (communities comm) \<and> (\<forall>c\<in>set (communities comm). wf_entry c) \<and>
     length (communities comm) \<le> cm_size comm)"

lemma ckey_inj: "wf_entry a \<Longrightarrow> wf_entry b \<Longrightarrow> ckey a = ckey b \<Longrightarrow> a = b"
  by (auto simp: wf_entry_def ckey_def intro!: community.equality)

lemma bin_of_communities_ge: "n < 2 ^ 31 \<Longrightarrow> n \<le> unat (bin_of_communities (of_nat n))"
  using bin_of_ge[of "of_nat n" 5 2] by (simp add: bin_of_communities_def unat_of_nat take_bit_nat_eq_self)

lemma insert_community_spec:
  assumes "comm_ok comm" "wf_entry c" "length (communities comm) + 1 < 2 ^ 31" "\<forall>n. ca n"
  shows "\<exists>comm'. insert_community ca comm c = Inr comm' \<and> comm_ok comm' \<and>
    set (communities comm') = insert c (set (communities comm)) \<and>
    length (communities comm') \<le> length (communities comm) + 1"
proof -
  let ?n = "length (communities comm)"
  obtain comm1 where c1: "insert_community ca comm c = Inr (case insert_slot c (communities comm1) of
              None \<Rightarrow> comm1 | Some cs \<Rightarrow> comm1\<lparr>communities := cs, cmflags := cmflags comm1 OR PARTIAL_DIRTY\<rparr>)"
    and cs: "communities comm1 = communities comm" and sz: "?n + 1 \<le> cm_size comm1"
    using bin_of_communities_ge[OF assms(3)] assms(4)
    by (cases "?n + 1 > cm_size comm") (force simp: insert_community_def Let_def)+
  have ord: "arr.ordered (communities comm)" and wf: "\<forall>x\<in>set (communities comm). wf_entry x"
    using assms(1) by (simp_all add: comm_ok_def)
  show ?thesis
  proof (cases "insert_slot c (communities comm)")
    case None
    have "c \<in> set (communities comm)" using arr.ins_None[OF ord None] wf assms(2) ckey_inj by fastforce
    then show ?thesis using c1 cs sz None ord wf by (intro exI[of _ comm1]) (auto simp: comm_ok_def)
  next
    case (Some ys)
    then show ?thesis using arr.ins_Some[OF ord Some] c1 cs sz wf assms(2) by (auto simp: comm_ok_def)
  qed
qed

lemma insert_community_inv:
  assumes "comm_ok comm" "wf_entry c" "insert_community ca comm c = Inr comm'"
  shows "comm_ok comm'"
proof -
  obtain comm1 where c1: "comm' = (case insert_slot c (communities comm1) of
              None \<Rightarrow> comm1 | Some cs \<Rightarrow> comm1\<lparr>communities := cs, cmflags := cmflags comm1 OR PARTIAL_DIRTY\<rparr>)"
    and cs: "communities comm1 = communities comm" and sz: "length (communities comm) + 1 \<le> cm_size comm1"
    using assms(3) by (auto simp: insert_community_def res_bind_Inr_iff Let_def split: if_splits)
  have ord: "arr.ordered (communities comm)" using assms(1) by (simp add: comm_ok_def)
  show ?thesis
    using arr.ins_Some[OF ord, of c] c1 cs sz assms(1,2) by (auto simp: comm_ok_def split: option.splits)
qed

section \<open>The meaning of patterns\<close>

text \<open>
  The reference: what a filter community stands for, field by field. A wildcard accepts every
  value, neighbor-as and local-as the AS number of the peer, any other field its own value. A
  pattern without such fields names one community.
\<close>

definition field_is :: "u8 \<Rightarrow> u32 \<Rightarrow> peer_as option \<Rightarrow> u32 \<Rightarrow> bool" where
  "field_is flag v peer d =
     (if flag = COMMUNITY_ANY then True
      else if flag = COMMUNITY_NEIGHBOR_AS then (case peer of None \<Rightarrow> False | Some p \<Rightarrow> d = conf_remote_as p)
      else if flag = COMMUNITY_LOCAL_AS then (case peer of None \<Rightarrow> False | Some p \<Rightarrow> d = conf_local_as p)
      else d = v)"

definition fields12 :: "community \<Rightarrow> peer_as option \<Rightarrow> community \<Rightarrow> bool" where
  "fields12 fc peer c = (field_is (flag1 fc) (data1 fc) peer (data1 c) \<and> field_is (flag2 fc) (data2 fc) peer (data2 c))"

definition ext_pattern :: "community \<Rightarrow> peer_as option \<Rightarrow> community \<Rightarrow> bool" where
  "ext_pattern fc peer c =
     (if flag3 fc = COMMUNITY_ANY then True
      else if ext_type (data3 fc) = -1 then flag1 fc = COMMUNITY_ANY \<and> data3 c AND 0xff = data3 fc AND 0xff
      else if flag1 fc = COMMUNITY_ANY then data3 c = data3 fc
      else
        let v = ext_type (data3 fc) AND EXT_COMMUNITY_VALUE in
        if v = EXT_COMMUNITY_TRANS_TWO_AS \<or> v = EXT_COMMUNITY_TRANS_FOUR_AS then
          fields12 fc peer c \<and> data3 c AND NOT 0x200 = data3 fc AND NOT 0x200
        else if v = EXT_COMMUNITY_TRANS_IPV4 then fields12 fc peer c \<and> data3 c = data3 fc
        else data1 c = data1 fc \<and> data2 c = data2 fc \<and> data3 c = data3 fc)"

definition pattern :: "community \<Rightarrow> peer_as option \<Rightarrow> community \<Rightarrow> bool" where
  "pattern fc peer c =
     (ctype c = ctype fc \<and>
      (if drop_bit 8 (cm_flags fc) = 0 then data1 c = data1 fc \<and> data2 c = data2 fc \<and> data3 c = data3 fc
       else if ctype fc = COMMUNITY_TYPE_BASIC then fields12 fc peer c
       else if ctype fc = COMMUNITY_TYPE_LARGE then fields12 fc peer c \<and> field_is (flag3 fc) (data3 fc) peer (data3 c)
       else ext_pattern fc peer c))"

text \<open>Patterns the configuration can express: literal fields fit the kind of community.\<close>

definition wf_pattern :: "community \<Rightarrow> bool" where
  "wf_pattern fc = (ctype fc \<in> {COMMUNITY_TYPE_BASIC, COMMUNITY_TYPE_EXT, COMMUNITY_TYPE_LARGE} \<and>
     (drop_bit 8 (cm_flags fc) = 0 \<longrightarrow> wf_entry fc) \<and>
     (ctype fc = COMMUNITY_TYPE_EXT \<longrightarrow> flag3 fc = COMMUNITY_ANY \<or> ext_type (data3 fc) = -1 \<or>
       data3 fc \<le> USHRT_MAX \<and>
       (let v = ext_type (data3 fc) AND EXT_COMMUNITY_VALUE in
        if v = EXT_COMMUNITY_TRANS_TWO_AS \<or> v = EXT_COMMUNITY_TRANS_FOUR_AS then data3 fc AND NOT 0x2ff = 0
        else v = EXT_COMMUNITY_TRANS_IPV4 \<or> data1 fc \<le> USHRT_MAX)))"

lemma apply_flag_spec:
  "case apply_flag v flag peer True of
     None \<Rightarrow> \<not> field_is flag v peer d
   | Some (out, m) \<Rightarrow> field_is flag v peer d \<longleftrightarrow> d AND m = out AND m"
  by (auto simp: apply_flag_def field_is_def split: option.splits)

lemma fc2c_pair_spec:
  "case fc2c_pair fc peer True c0 m0 of
     None \<Rightarrow> \<not> fields12 fc peer c
   | Some (t, m) \<Rightarrow> ctype t = ctype c0 \<and> data3 t = data3 c0 \<and> data3 m = data3 m0 \<and>
       (fields12 fc peer c \<longleftrightarrow> data1 c AND data1 m = data1 t AND data1 m \<and> data2 c AND data2 m = data2 t AND data2 m)"
  using apply_flag_spec[where v = "data1 fc" and flag = "flag1 fc" and peer = peer and d = "data1 c"]
    apply_flag_spec[where v = "data2 fc" and flag = "flag2 fc" and peer = peer and d = "data2 c"]
  by (auto simp: fc2c_pair_def fields12_def ctype_def split: option.splits)

lemma mask_match_zero: "mask_match c t m = 0 \<longleftrightarrow> ctype c = ctype t \<and> data1 c AND data1 m = data1 t AND data1 m \<and>
    data2 c AND data2 m = data2 t AND data2 m \<and> data3 c AND data3 m = data3 t AND data3 m"
  by (simp add: mask_match_def)

lemma ctype_ucast [simp]: "ctype (c\<lparr>cm_flags := ucast (t :: u8)\<rparr>) = t"
  by (simp add: ctype_def bit_eq_iff bit_simps)

lemma low_byte: "(0xff :: u32) = mask 8"
  by (simp add: mask_eq_exp_minus_1)

lemma ext_join: "push_bit 8 (ext_type d) OR (d AND 0xff) = d"
  unfolding ext_type_def low_byte by (intro bit_eqI) (auto simp: bit_simps not_less not_le)

lemma ext_value: "ext_type d AND EXT_COMMUNITY_VALUE = drop_bit 8 d AND EXT_COMMUNITY_VALUE"
proof -
  have "(0x3f :: u32) = mask 6" by (simp add: mask_eq_exp_minus_1)
  then have v: "EXT_COMMUNITY_VALUE = mask 6" by (simp add: EXT_COMMUNITY_VALUE_def)
  show ?thesis unfolding ext_type_def v by (intro bit_eqI) (auto simp: bit_simps)
qed

text \<open>The expansion succeeds with a value and a mask that select the communities of the pattern.\<close>

definition selects :: "(community \<times> community) option \<Rightarrow> bool \<Rightarrow> community \<Rightarrow> bool" where
  "selects r b c = (case r of None \<Rightarrow> \<not> b | Some (t, m) \<Rightarrow> mask_match c t m = 0 \<longleftrightarrow> b)"

lemma fc2c_basic_selects:
  assumes "wf_entry c" "ctype fc = COMMUNITY_TYPE_BASIC" "ctype c0 = ctype fc" "data3 c0 = 0" "data3 m0 = -1"
  shows "selects (fc2c_basic fc peer True c0 m0) (ctype c = ctype fc \<and> fields12 fc peer c) c"
proof -
  have wf: "ctype c = ctype fc \<Longrightarrow> data1 c \<le> USHRT_MAX \<and> data2 c \<le> USHRT_MAX \<and> data3 c = 0"
    using assms(1,2) by (auto simp: wf_entry_def community_consts)
  have exact: "apply_flag v f peer True = Some (out, m) \<Longrightarrow> field_is f v peer d \<Longrightarrow> d \<le> USHRT_MAX \<Longrightarrow> out \<le> USHRT_MAX" for v f out m d
    by (auto simp: apply_flag_def field_is_def split: if_splits option.splits)
  show ?thesis
    using fc2c_pair_spec[where fc = fc and peer = peer and ?c0.0 = c0 and ?m0.0 = m0 and c = c] assms(3-5) wf exact[of "data1 fc" "flag1 fc" _ _ "data1 c"]
      exact[of "data2 fc" "flag2 fc" _ _ "data2 c"]
    by (auto simp: selects_def fc2c_basic_def fc2c_pair_def fields12_def mask_match_zero not_less split: option.splits prod.splits)
qed

lemma fc2c_large_selects:
  assumes "ctype c0 = ctype fc"
  shows "selects (fc2c_large fc peer True c0 m0)
    (ctype c = ctype fc \<and> fields12 fc peer c \<and> field_is (flag3 fc) (data3 fc) peer (data3 c)) c"
  using fc2c_pair_spec[where fc = fc and peer = peer and ?c0.0 = c0 and ?m0.0 = m0 and c = c]
    apply_flag_spec[where v = "data3 fc" and flag = "flag3 fc" and peer = peer and d = "data3 c"] assms
  by (auto simp: selects_def fc2c_large_def mask_match_zero ctype_def split: option.splits prod.splits)

lemma fc2c_ext_selects:
  assumes "wf_entry c" "ctype fc = COMMUNITY_TYPE_EXT" "c0 = no_community\<lparr>cm_flags := ucast (ctype fc)\<rparr>"
  shows "selects (fc2c_ext fc peer True c0 full_mask) (ctype c = ctype fc \<and> ext_pattern fc peer c) c"
proof -
  let ?c1 = "c0\<lparr>data3 := data3 fc\<rparr>" and ?v = "ext_type (data3 fc) AND EXT_COMMUNITY_VALUE"
  have c0: "ctype c0 = ctype fc" using assms(3) by simp
  have c0': "data1 c0 = 0" "data2 c0 = 0" "data3 c0 = 0" using assms(3) by (simp_all add: no_community_def)
  have t: "ctype (x\<lparr>data3 := d\<rparr>) = ctype x" "ctype (x\<lparr>data1 := d, data2 := e\<rparr>) = ctype x" for x d e by (simp_all add: ctype_def)
  have ff: "(0xff :: u32) AND 0xff = 0xff" by simp
  have v: "ctype c = ctype fc \<Longrightarrow> data3 c = data3 fc \<Longrightarrow> ?v = EXT_COMMUNITY_TRANS_IPV4 \<Longrightarrow> data2 c \<le> USHRT_MAX"
  proof -
    assume a: "ctype c = ctype fc" "data3 c = data3 fc" "?v = EXT_COMMUNITY_TRANS_IPV4"
    have "drop_bit 8 (data3 fc) AND EXT_COMMUNITY_VALUE = ?v" by (simp add: ext_value)
    then show "data2 c \<le> USHRT_MAX" using assms(1,2) a by (auto simp: wf_entry_def community_consts)
  qed
  have exact: "apply_flag x f peer True = Some (out, m) \<Longrightarrow> field_is f x peer d \<Longrightarrow> d \<le> USHRT_MAX \<Longrightarrow> out \<le> USHRT_MAX" for x f out m d
    by (auto simp: apply_flag_def field_is_def split: if_splits option.splits)
  note pair = fc2c_pair_spec[where fc = fc and peer = peer and ?c0.0 = ?c1 and ?m0.0 = full_mask and c = c]
  show ?thesis
  proof (cases "flag3 fc = COMMUNITY_ANY \<or> ext_type (data3 fc) = -1 \<or> flag1 fc = COMMUNITY_ANY")
    case True
    then show ?thesis
      by (auto simp: selects_def fc2c_ext_def ext_pattern_def mask_match_zero c0 c0' t ext_join full_mask_def Let_def and.assoc ff
          split: if_splits)
  next
    case g: False
    consider (as) "?v = EXT_COMMUNITY_TRANS_TWO_AS \<or> ?v = EXT_COMMUNITY_TRANS_FOUR_AS" | (ip) "?v = EXT_COMMUNITY_TRANS_IPV4"
      | (other) "?v \<notin> {EXT_COMMUNITY_TRANS_TWO_AS, EXT_COMMUNITY_TRANS_FOUR_AS, EXT_COMMUNITY_TRANS_IPV4}" by blast
    then show ?thesis
    proof cases
      case as
      have n: "NOT (push_bit 8 EXT_COMMUNITY_TRANS_FOUR_AS) = (NOT 0x200 :: u32)" by (simp add: ext_consts)
      show ?thesis using g as pair
        by (auto simp: selects_def fc2c_ext_def ext_pattern_def mask_match_zero c0 c0' t ext_join full_mask_def Let_def n
            split: option.splits prod.splits)
    next
      case ip
      then have "?v \<noteq> EXT_COMMUNITY_TRANS_TWO_AS" "?v \<noteq> EXT_COMMUNITY_TRANS_FOUR_AS" by (simp_all add: ext_consts)
      then show ?thesis using g ip pair v exact[of "data2 fc" "flag2 fc" _ _ "data2 c"]
        by (auto simp: selects_def fc2c_ext_def ext_pattern_def mask_match_zero c0 c0' t ext_join full_mask_def Let_def
            fc2c_pair_def fields12_def not_less split: option.splits prod.splits)
    next
      case other
      then show ?thesis using g
        by (auto simp: selects_def fc2c_ext_def ext_pattern_def mask_match_zero c0 c0' t ext_join full_mask_def Let_def)
    qed
  qed
qed

lemma fc2c_selects:
  assumes "wf_pattern fc" "drop_bit 8 (cm_flags fc) \<noteq> 0" "wf_entry c"
  shows "\<exists>r. fc2c fc peer True = Inr r \<and> selects r (pattern fc peer c) c"
proof -
  let ?c0 = "no_community\<lparr>cm_flags := ucast (ctype fc)\<rparr>"
  have d: "data3 ?c0 = 0" "data3 full_mask = -1" "ctype ?c0 = ctype fc"
    by (simp add: no_community_def, simp add: full_mask_def, simp)
  have ne: "COMMUNITY_TYPE_BASIC \<noteq> COMMUNITY_TYPE_LARGE" "COMMUNITY_TYPE_BASIC \<noteq> COMMUNITY_TYPE_EXT"
    "COMMUNITY_TYPE_LARGE \<noteq> COMMUNITY_TYPE_EXT" by (simp_all add: community_consts)
  consider "ctype fc = COMMUNITY_TYPE_BASIC" | "ctype fc = COMMUNITY_TYPE_LARGE" | "ctype fc = COMMUNITY_TYPE_EXT"
    using assms(1) by (auto simp: wf_pattern_def)
  then show ?thesis
  proof cases
    case 1
    then have "pattern fc peer c \<longleftrightarrow> ctype c = ctype fc \<and> fields12 fc peer c" using assms(2) by (simp add: pattern_def)
    then show ?thesis using fc2c_basic_selects[OF assms(3) 1 d(3) d(1,2), of peer] 1
      by (simp add: fc2c_def Let_def)
  next
    case 2
    then have "pattern fc peer c \<longleftrightarrow> ctype c = ctype fc \<and> fields12 fc peer c \<and> field_is (flag3 fc) (data3 fc) peer (data3 c)"
      using assms(2) ne by (auto simp: pattern_def)
    then show ?thesis using fc2c_large_selects[OF d(3), of peer full_mask c] 2 ne
      by (auto simp: fc2c_def Let_def)
  next
    case 3
    then have "pattern fc peer c \<longleftrightarrow> ctype c = ctype fc \<and> ext_pattern fc peer c" using assms(2) ne by (auto simp: pattern_def)
    then show ?thesis using fc2c_ext_selects[OF assms(3) 3 refl, of peer] 3 ne
      by (auto simp: fc2c_def Let_def)
  qed
qed

lemma fc2c_selects_all:
  assumes "wf_pattern fc" "drop_bit 8 (cm_flags fc) \<noteq> 0"
  obtains r where "fc2c fc peer True = Inr r" "\<forall>c. wf_entry c \<longrightarrow> selects r (pattern fc peer c) c"
  using assms fc2c_selects[OF assms] by (cases "fc2c fc peer True") (auto simp: fc2c_def wf_pattern_def Let_def split: if_splits)

lemma pattern_exact:
  assumes "wf_pattern fc" "drop_bit 8 (cm_flags fc) = 0" "wf_entry c"
  shows "pattern fc peer c \<longleftrightarrow> ckey c = ckey fc"
  using assms(2) by (auto simp: pattern_def ckey_def)

lemma community_match_spec:
  assumes ok: "comm_ok comm" and wf: "wf_pattern fc"
  shows "community_match comm fc peer = Inr (\<exists>c\<in>set (communities comm). pattern fc peer c)"
proof (cases "drop_bit 8 (cm_flags fc) = 0")
  case True
  have "bsearch (fast_match fc) (communities comm) \<noteq> None \<longleftrightarrow> ckey fc \<in> ckey ` set (communities comm)"
    using ok by (intro arr.found_iff) (simp add: comm_ok_def)
  also have "\<dots> \<longleftrightarrow> (\<exists>c\<in>set (communities comm). pattern fc peer c)"
    using True ok pattern_exact[OF wf True] by (simp add: comm_ok_def image_iff eq_commute[of "ckey fc"])
  finally show ?thesis using True by (simp add: community_match_def)
next
  case False
  obtain r where r: "fc2c fc peer True = Inr r" "\<forall>c. wf_entry c \<longrightarrow> selects r (pattern fc peer c) c"
    by (rule fc2c_selects_all[OF wf False, where peer = peer])
  have "selects r (pattern fc peer c) c" if "c \<in> set (communities comm)" for c
    using that ok r(2) by (simp add: comm_ok_def)
  then show ?thesis using False r(1)
    by (cases r) (auto simp: community_match_def selects_def list_ex_iff split: prod.splits)
qed

lemma community_delete_spec:
  assumes ok: "comm_ok comm" and wf: "wf_pattern fc"
  shows "\<exists>comm'. community_delete comm fc peer = Inr comm' \<and> comm_ok comm' \<and>
    communities comm' = filter (\<lambda>c. \<not> pattern fc peer c) (communities comm)"
proof (cases "drop_bit 8 (cm_flags fc) = 0")
  case True
  have ord: "arr.ordered (communities comm)" and we: "\<And>c. c \<in> set (communities comm) \<Longrightarrow> wf_entry c"
    using ok by (auto simp: comm_ok_def)
  have eq: "filter (\<lambda>c. \<not> pattern fc peer c) (communities comm) = filter (\<lambda>c. ckey c \<noteq> ckey fc) (communities comm)"
    using pattern_exact[OF wf True] we by (intro filter_cong) auto
  show ?thesis
  proof (cases "bsearch (fast_match fc) (communities comm)")
    case None
    then have "ckey fc \<notin> ckey ` set (communities comm)" using arr.found_iff[OF ord, of fc] by simp
    then have "filter (\<lambda>c. ckey c \<noteq> ckey fc) (communities comm) = communities comm"
      by (intro filter_True ballI) (metis imageI)
    then show ?thesis using True None ok eq by (auto simp: community_delete_def)
  next
    case (Some i)
    then have i: "i < length (communities comm)" "ckey (communities comm ! i) = ckey fc" using arr.found_index by auto
    have cut: "take i (communities comm) @ drop (i + 1) (communities comm) = filter (\<lambda>c. ckey c \<noteq> ckey fc) (communities comm)"
      using arr.ordered_cut[OF ord i(1)] i(2) by simp
    have "communities comm \<noteq> []" using i(1) by auto
    then show ?thesis using True Some ok eq cut arr.ordered_filter[OF ord, of "\<lambda>c. ckey c \<noteq> ckey fc"] we
      by (auto simp: community_delete_def comm_ok_def intro: le_trans[OF length_filter_le])
  qed
next
  case False
  obtain r where r: "fc2c fc peer True = Inr r" "\<forall>c. wf_entry c \<longrightarrow> selects r (pattern fc peer c) c"
    by (rule fc2c_selects_all[OF wf False, where peer = peer])
  have sel: "selects r (pattern fc peer c) c" if "c \<in> set (communities comm)" for c
    using that ok r(2) by (simp add: comm_ok_def)
  show ?thesis
  proof (cases r)
    case None
    then have "filter (\<lambda>c. \<not> pattern fc peer c) (communities comm) = communities comm"
      using sel by (auto simp: selects_def filter_id_conv)
    then show ?thesis using False r(1) None ok by (auto simp: community_delete_def)
  next
    case (Some tm)
    obtain t m where tm: "tm = (t, m)" by (cases tm)
    have eq: "filter (\<lambda>c. mask_match c t m \<noteq> 0) (communities comm) = filter (\<lambda>c. \<not> pattern fc peer c) (communities comm)"
      using sel Some tm by (intro filter_cong) (auto simp: selects_def)
    have ok': "comm_ok (comm\<lparr>communities := filter P (communities comm), cmflags := f\<rparr>)" for P f
      using ok arr.ordered_filter[of "communities comm" P] by (auto simp: comm_ok_def intro: le_trans[OF length_filter_le])
    have same: "length (filter P (communities comm)) = length (communities comm) \<Longrightarrow> filter P (communities comm) = communities comm" for P
      by (metis filter_True length_filter_less less_irrefl)
    show ?thesis using False r(1) Some tm ok ok' same[of "\<lambda>c. \<not> pattern fc peer c"]
      by (auto simp: community_delete_def eq Let_def)
  qed
qed

section \<open>Setting communities\<close>

text \<open>Patterns with a field that stands for many values cannot be set.\<close>

definition wild :: "community \<Rightarrow> bool" where
  "wild fc = (drop_bit 8 (cm_flags fc) \<noteq> 0 \<and>
     (if ctype fc = COMMUNITY_TYPE_BASIC then flag1 fc = COMMUNITY_ANY \<or> flag2 fc = COMMUNITY_ANY
      else if ctype fc = COMMUNITY_TYPE_LARGE then
        flag1 fc = COMMUNITY_ANY \<or> flag2 fc = COMMUNITY_ANY \<or> flag3 fc = COMMUNITY_ANY
      else flag3 fc = COMMUNITY_ANY \<or> ext_type (data3 fc) = -1 \<or> flag1 fc = COMMUNITY_ANY \<or>
        flag2 fc = COMMUNITY_ANY \<and> ext_type (data3 fc) AND EXT_COMMUNITY_VALUE \<in>
          {EXT_COMMUNITY_TRANS_TWO_AS, EXT_COMMUNITY_TRANS_FOUR_AS, EXT_COMMUNITY_TRANS_IPV4}))"

lemma apply_flag_set:
  "case apply_flag v flag peer False of
     None \<Rightarrow> flag = COMMUNITY_ANY \<or> (\<forall>d. \<not> field_is flag v peer d)
   | Some (out, m) \<Rightarrow> flag \<noteq> COMMUNITY_ANY \<and> (\<forall>d. field_is flag v peer d \<longleftrightarrow> d = out)"
  by (auto simp: apply_flag_def field_is_def split: option.splits)

lemma fc2c_pair_set:
  "case fc2c_pair fc peer False c0 m0 of
     None \<Rightarrow> flag1 fc = COMMUNITY_ANY \<or> flag2 fc = COMMUNITY_ANY \<or> (\<forall>c. \<not> fields12 fc peer c)
   | Some (t, m) \<Rightarrow> flag1 fc \<noteq> COMMUNITY_ANY \<and> flag2 fc \<noteq> COMMUNITY_ANY \<and>
       (\<exists>d1 d2. t = c0\<lparr>data1 := d1, data2 := d2\<rparr>) \<and>
       (\<forall>c. fields12 fc peer c \<longleftrightarrow> data1 c = data1 t \<and> data2 c = data2 t)"
  using apply_flag_set[where v = "data1 fc" and flag = "flag1 fc" and peer = peer]
    apply_flag_set[where v = "data2 fc" and flag = "flag2 fc" and peer = peer]
  by (auto simp: fc2c_pair_def fields12_def split: option.splits)

text \<open>
  What the expansion of a settable pattern yields: None when no community is meant, else a
  well-formed community the pattern stands for.
\<close>

definition expands :: "community option \<Rightarrow> community \<Rightarrow> peer_as option \<Rightarrow> bool" where
  "expands r fc peer = (case r of
     None \<Rightarrow> wild fc \<or> (\<forall>c. wf_entry c \<longrightarrow> \<not> pattern fc peer c)
   | Some s \<Rightarrow> \<not> wild fc \<and> wf_entry s \<and> pattern fc peer s)"

definition base :: "community \<Rightarrow> community" where
  "base fc = no_community\<lparr>cm_flags := ucast (ctype fc)\<rparr>"

lemma base_fields [simp]: "ctype (base fc) = ctype fc" "cm_flags (base fc) = ucast (ctype fc)"
    "data1 (base fc) = 0" "data2 (base fc) = 0" "data3 (base fc) = 0"
  unfolding base_def by (simp, simp, simp_all add: no_community_def)

lemma ctype_update [simp]: "ctype (c\<lparr>data1 := d\<rparr>) = ctype c" "ctype (c\<lparr>data2 := d\<rparr>) = ctype c"
    "ctype (c\<lparr>data3 := d\<rparr>) = ctype c"
  by (simp_all add: ctype_def)

lemma set_basic:
  assumes "ctype fc = COMMUNITY_TYPE_BASIC" "drop_bit 8 (cm_flags fc) \<noteq> 0"
  shows "expands (map_option fst (fc2c_basic fc peer False (base fc) full_mask)) fc peer"
  using fc2c_pair_set[where fc = fc and peer = peer and ?c0.0 = "base fc" and ?m0.0 = full_mask] assms
  by (auto simp: expands_def fc2c_basic_def wild_def wf_entry_def pattern_def community_consts not_less
      split: option.splits prod.splits)

lemma set_large:
  assumes "ctype fc = COMMUNITY_TYPE_LARGE" "drop_bit 8 (cm_flags fc) \<noteq> 0"
  shows "expands (map_option fst (fc2c_large fc peer False (base fc) full_mask)) fc peer"
  using fc2c_pair_set[where fc = fc and peer = peer and ?c0.0 = "base fc" and ?m0.0 = full_mask]
    apply_flag_set[where v = "data3 fc" and flag = "flag3 fc" and peer = peer] assms
  by (auto simp: expands_def fc2c_large_def wild_def wf_entry_def pattern_def community_consts not_less
      split: option.splits prod.splits)

lemma as_form:
  assumes "(d :: u32) AND NOT 0x2ff = 0"
  shows "(d AND 0xff OR 0x200) AND NOT 0x200 = d AND NOT 0x200" "(d AND 0xff) AND NOT 0x200 = d AND NOT 0x200"
    "drop_bit 8 (d AND 0xff OR 0x200) AND 0x3f = 2" "drop_bit 8 (d AND 0xff) AND 0x3f = 0"
    "d AND 0xff OR 0x200 \<le> 0xffff" "d AND 0xff \<le> 0xffff"
proof -
  have m: "(0x2ff :: u32) = mask 8 OR push_bit 9 1" "(0x200 :: u32) = push_bit 9 1" by (simp_all add: mask_eq_exp_minus_1)
  have z: "\<not> bit d n" if "\<not> bit (0x2ff :: u32) n" for n
  proof -
    have "bit (d AND NOT 0x2ff) n = False" using assms by simp
    then show ?thesis using that by (cases "n < 32") (auto simp: bit_simps dest: bit_imp_le_length)
  qed
  have z': "n < 8 \<or> n = 9" if "bit d n" for n using z[of n] that unfolding m(1) by (simp only: bit_or_iff bit_mask_iff bit_push_bit_iff bit_1_iff) auto
  show "(d AND 0xff OR 0x200) AND NOT 0x200 = d AND NOT 0x200" "(d AND 0xff) AND NOT 0x200 = d AND NOT 0x200"
    unfolding low_byte m(2) by (auto intro!: bit_eqI simp: bit_simps dest!: z')
  have six: "(0x3f :: u32) = mask 6" "(2 :: u32) = push_bit 1 1" by (simp_all add: mask_eq_exp_minus_1)
  show "drop_bit 8 (d AND 0xff OR 0x200) AND 0x3f = 2" "drop_bit 8 (d AND 0xff) AND 0x3f = 0"
    unfolding low_byte m(2) six by (auto intro!: bit_eqI simp: bit_simps)
  have "d AND 0xff \<le> 0xff" by (rule word_and_le1)
  then show l: "d AND 0xff \<le> 0xffff" by (rule order_trans) simp
  have "d AND 0xff OR 0x200 = (d AND 0xff OR 0x200) AND 0xffff"
  proof -
    have f: "(0xffff :: u32) = mask 16" by (simp add: mask_eq_exp_minus_1)
    have nine: "n = 9" if "bit (0x200 :: u32) n" for n
      using that unfolding m(2) by (simp only: bit_push_bit_iff bit_1_iff) auto
    show ?thesis unfolding low_byte f
    proof (rule bit_eqI)
      fix n
      show "bit (d AND mask 8 OR 0x200) n = bit ((d AND mask 8 OR 0x200) AND mask 16) n"
        unfolding bit_or_iff bit_and_iff bit_mask_iff using nine[of n] by auto
    qed
  qed
  then show "d AND 0xff OR 0x200 \<le> 0xffff" by (metis word_and_le1)
qed

lemma set_ext:
  assumes wf: "wf_pattern fc" and t: "ctype fc = COMMUNITY_TYPE_EXT" "drop_bit 8 (cm_flags fc) \<noteq> 0"
  shows "expands (case fc2c_ext fc peer False (base fc) full_mask of None \<Rightarrow> None | Some (s, m) \<Rightarrow> ext_fit s) fc peer"
proof (cases "flag3 fc = COMMUNITY_ANY \<or> ext_type (data3 fc) = -1 \<or> flag1 fc = COMMUNITY_ANY")
  case True
  then have "wild fc" using t by (auto simp: wild_def community_consts)
  moreover have "fc2c_ext fc peer False (base fc) full_mask = None" using True by (auto simp: fc2c_ext_def Let_def)
  ultimately show ?thesis by (simp add: expands_def)
next
  case g: False
  let ?v = "ext_type (data3 fc) AND EXT_COMMUNITY_VALUE" and ?c1 = "base fc\<lparr>data3 := data3 fc\<rparr>"
  have d3: "data3 fc \<le> USHRT_MAX" using wf t g by (auto simp: wf_pattern_def)
  note pair = fc2c_pair_set[where fc = fc and peer = peer and ?c0.0 = ?c1 and ?m0.0 = full_mask]
  have ne: "COMMUNITY_TYPE_EXT \<noteq> COMMUNITY_TYPE_BASIC" "COMMUNITY_TYPE_EXT \<noteq> COMMUNITY_TYPE_LARGE" by (simp_all add: community_consts)
  have pat: "pattern fc peer c \<longleftrightarrow> ctype c = COMMUNITY_TYPE_EXT \<and> ext_pattern fc peer c" for c
    using t ne by (simp add: pattern_def)
  have wild: "wild fc \<longleftrightarrow> flag2 fc = COMMUNITY_ANY \<and> ?v \<in> {EXT_COMMUNITY_TRANS_TWO_AS, EXT_COMMUNITY_TRANS_FOUR_AS, EXT_COMMUNITY_TRANS_IPV4}"
    using t g ne by (simp add: wild_def)
  consider (as) "?v = EXT_COMMUNITY_TRANS_TWO_AS \<or> ?v = EXT_COMMUNITY_TRANS_FOUR_AS" | (ip) "?v = EXT_COMMUNITY_TRANS_IPV4"
    | (other) "?v \<notin> {EXT_COMMUNITY_TRANS_TWO_AS, EXT_COMMUNITY_TRANS_FOUR_AS, EXT_COMMUNITY_TRANS_IPV4}" by blast
  then show ?thesis
  proof cases
    case as
    have n: "data3 fc AND NOT 0x2ff = 0" using wf t g as by (auto simp: wf_pattern_def Let_def)
    have ep: "ext_pattern fc peer c \<longleftrightarrow> fields12 fc peer c \<and> data3 c AND NOT 0x200 = data3 fc AND NOT 0x200" for c
      using g as by (simp add: ext_pattern_def Let_def)
    have both: "wf_entry c \<Longrightarrow> ctype c = COMMUNITY_TYPE_EXT \<Longrightarrow> data1 c \<le> USHRT_MAX \<or> data2 c \<le> USHRT_MAX" for c
      using ne by (auto simp: wf_entry_def Let_def split: if_splits)
    have r: "fc2c_ext fc peer False (base fc) full_mask = map_option (\<lambda>(c', m'). (c', m'\<lparr>data3 := data3 m' AND NOT (push_bit 8 EXT_COMMUNITY_TRANS_FOUR_AS)\<rparr>))
        (fc2c_pair fc peer False ?c1 full_mask)" using g as by (simp add: fc2c_ext_def ext_join)
    show ?thesis
    proof (cases "fc2c_pair fc peer False ?c1 full_mask")
      case None
      then show ?thesis using pair g as r by (auto simp: expands_def wild pat ep)
    next
      case (Some tm)
      then obtain d1 d2 m where tm: "tm = (?c1\<lparr>data1 := d1, data2 := d2\<rparr>, m)" and f: "flag2 fc \<noteq> COMMUNITY_ANY"
        "\<And>c. fields12 fc peer c \<longleftrightarrow> data1 c = d1 \<and> data2 c = d2" using pair by (cases tm) auto
      have fit: "ext_fit (?c1\<lparr>data1 := d1, data2 := d2\<rparr>) = (if d1 > USHRT_MAX \<and> d2 > USHRT_MAX then None
          else if d1 > USHRT_MAX then Some (?c1\<lparr>data1 := d1, data2 := d2, data3 := data3 fc AND 0xff OR 0x200\<rparr>)
          else Some (?c1\<lparr>data1 := d1, data2 := d2, data3 := data3 fc AND 0xff\<rparr>))"
        using as t by (simp add: ext_fit_def EXT_COMMUNITY_TRANS_FOUR_AS_def EXT_COMMUNITY_TRANS_TWO_AS_def)
      show ?thesis
      proof (cases "d1 > USHRT_MAX \<and> d2 > USHRT_MAX")
        case True
        then show ?thesis using r Some tm f(2) fit both by (fastforce simp: expands_def pat ep)
      next
        case False
        then show ?thesis using r Some tm f fit as_form[OF n] t
          by (auto simp: expands_def wild pat ep wf_entry_def ext_consts USHRT_MAX_def Let_def not_less)
      qed
    qed
  next
    case ip
    then have nv: "?v \<noteq> EXT_COMMUNITY_TRANS_TWO_AS" "?v \<noteq> EXT_COMMUNITY_TRANS_FOUR_AS" by (simp_all add: ext_consts)
    have ep: "ext_pattern fc peer c \<longleftrightarrow> fields12 fc peer c \<and> data3 c = data3 fc" for c
      using g ip nv by (simp add: ext_pattern_def Let_def)
    have w: "wf_entry c \<longleftrightarrow> data2 c \<le> USHRT_MAX \<and> cm_flags c = ucast COMMUNITY_TYPE_EXT" if "data3 c = data3 fc" "ctype c = COMMUNITY_TYPE_EXT" for c
      using that ip nv d3 ne by (auto simp: wf_entry_def ext_value)
    show ?thesis using pair g ip nv t w
      by (auto simp: expands_def wild pat ep fc2c_ext_def ext_join ext_fit_def Let_def not_less split: option.splits prod.splits)
  next
    case other
    then have ep: "ext_pattern fc peer c \<longleftrightarrow> data1 c = data1 fc \<and> data2 c = data2 fc \<and> data3 c = data3 fc" for c
      using g by (simp add: ext_pattern_def Let_def)
    have d1: "data1 fc \<le> USHRT_MAX" using wf t g other by (auto simp: wf_pattern_def Let_def)
    show ?thesis using g other t d1 d3
      by (auto simp: expands_def wild pat ep fc2c_ext_def ext_join ext_fit_def Let_def wf_entry_def ext_value)
  qed
qed

lemma community_set_form:
  assumes wf: "wf_pattern fc"
  obtains r where "community_set ca comm fc peer = (case r of None \<Rightarrow> Inr (comm, False)
      | Some s \<Rightarrow> res_bind (insert_community ca comm s) (\<lambda>comm'. Inr (comm', True)))" and "expands r fc peer"
proof (cases "drop_bit 8 (cm_flags fc) = 0")
  case True
  have "expands (Some fc) fc peer" using True wf by (auto simp: expands_def wild_def pattern_def wf_pattern_def)
  then show thesis using True by (intro that[of "Some fc"]) (simp add: community_set_def)
next
  case False
  consider (b) "ctype fc = COMMUNITY_TYPE_BASIC" | (l) "ctype fc = COMMUNITY_TYPE_LARGE" | (x) "ctype fc = COMMUNITY_TYPE_EXT"
    using wf by (auto simp: wf_pattern_def)
  then show thesis
  proof cases
    case b
    then have "ctype s \<noteq> COMMUNITY_TYPE_EXT" if "fc2c_basic fc peer False (base fc) full_mask = Some (s, m)" for s m
      using that by (auto simp: fc2c_basic_def fc2c_pair_def community_consts split: option.splits prod.splits if_splits)
    then show thesis using False set_basic[OF b False, of peer] b
      by (intro that[of "map_option fst (fc2c_basic fc peer False (base fc) full_mask)"])
         (auto simp: community_set_def fc2c_def base_def ext_fit_def Let_def split: option.splits prod.splits)
  next
    case l
    then have "ctype s \<noteq> COMMUNITY_TYPE_EXT" if "fc2c_large fc peer False (base fc) full_mask = Some (s, m)" for s m
      using that by (auto simp: fc2c_large_def fc2c_pair_def community_consts split: option.splits prod.splits if_splits)
    then show thesis using False set_large[OF l False, of peer] l
      by (intro that[of "map_option fst (fc2c_large fc peer False (base fc) full_mask)"])
         (auto simp: community_set_def fc2c_def base_def ext_fit_def community_consts Let_def split: option.splits prod.splits)
  next
    case x
    then show thesis using False set_ext[OF wf x False, of peer]
      by (intro that[of "case fc2c_ext fc peer False (base fc) full_mask of None \<Rightarrow> None | Some (s, m) \<Rightarrow> ext_fit s"])
         (auto simp: community_set_def fc2c_def base_def community_consts Let_def split: option.splits prod.splits)
  qed
qed

lemma community_set_spec:
  assumes ok: "comm_ok comm" and wf: "wf_pattern fc" and ca: "length (communities comm) + 1 < 2 ^ 31" "\<forall>n. ca n"
  shows "\<exists>comm' b. community_set ca comm fc peer = Inr (comm', b) \<and> comm_ok comm' \<and>
    length (communities comm') \<le> length (communities comm) + 1 \<and>
    (if b then \<exists>c. wf_entry c \<and> pattern fc peer c \<and> set (communities comm') = insert c (set (communities comm))
     else comm' = comm) \<and>
    (b \<longleftrightarrow> \<not> wild fc \<and> (\<exists>c. wf_entry c \<and> pattern fc peer c))"
proof -
  obtain r where r: "community_set ca comm fc peer = (case r of None \<Rightarrow> Inr (comm, False)
      | Some s \<Rightarrow> res_bind (insert_community ca comm s) (\<lambda>comm'. Inr (comm', True)))" and e: "expands r fc peer"
    by (rule community_set_form[OF wf])
  show ?thesis
  proof (cases r)
    case None
    then show ?thesis using r e ok by (auto simp: expands_def)
  next
    case (Some s)
    then have s: "\<not> wild fc" "wf_entry s" "pattern fc peer s" using e by (auto simp: expands_def)
    obtain comm' where "insert_community ca comm s = Inr comm'" "comm_ok comm'"
        "set (communities comm') = insert s (set (communities comm))" "length (communities comm') \<le> length (communities comm) + 1"
      using insert_community_spec[OF ok s(2) ca] by blast
    then show ?thesis using r Some s by auto
  qed
qed

end
