(* ===== verification/Community_Wire.thy ===== *)
theory Community_Wire
  imports Community_Correct
begin

text \<open>
  The wire format of the community attributes: what is written is read back to the same
  communities. With it the collections the daemon can build and the properties of the component.
\<close>

section \<open>The wire format\<close>

text \<open>
  The three attributes are arrays of entries of a fixed width. The interface of such an attribute:
  its reading loop takes one entry at a time, keeps some of them, and decoding undoes encoding.
\<close>

locale wire_entries =
  fixes rd :: "can_alloc \<Rightarrow> rde_community \<Rightarrow> bytes \<Rightarrow> (rde_community \<times> bool) res"
    and enc :: "community \<Rightarrow> bytes" and dec :: "bytes \<Rightarrow> community" and width :: nat and t :: u8
    and keep :: "community \<Rightarrow> bool"
  assumes rd_Nil: "rd ca comm [] = Inr (comm, True)"
    and rd_entry: "length d = width \<Longrightarrow> rd ca comm (d @ r) =
      (if keep (dec d) then res_bind (insert_community ca comm (dec d)) (\<lambda>comm'. rd ca comm' r) else rd ca comm r)"
    and width_pos: "0 < width"
    and dec_wf: "length d = width \<Longrightarrow> wf_entry (dec d) \<and> ctype (dec d) = t"
    and enc_width: "length (enc c) = width"
    and dec_enc: "wf_entry c \<Longrightarrow> ctype c = t \<Longrightarrow> dec (enc c) = c"
begin

lemma read_chunks:
  assumes ca: "\<forall>n. ca n"
  shows "comm_ok comm \<Longrightarrow> \<forall>d\<in>set ds. length d = width \<Longrightarrow> length (communities comm) + length ds < 2 ^ 31 \<Longrightarrow>
    \<exists>comm'. rd ca comm (concat ds) = Inr (comm', True) \<and> comm_ok comm' \<and>
      set (communities comm') = set (communities comm) \<union> {c \<in> dec ` set ds. keep c} \<and>
      length (communities comm') \<le> length (communities comm) + length ds"
proof (induction ds arbitrary: comm)
  case Nil
  then show ?case by (simp add: rd_Nil)
next
  case (Cons d ds)
  have d: "length d = width" using Cons.prems(2) by simp
  show ?case
  proof (cases "keep (dec d)")
    case True
    obtain comm1 where c1: "insert_community ca comm (dec d) = Inr comm1" "comm_ok comm1"
        "set (communities comm1) = insert (dec d) (set (communities comm))"
        "length (communities comm1) \<le> length (communities comm) + 1"
      using insert_community_spec[OF Cons.prems(1) _ _ ca, of "dec d"] dec_wf[OF d] Cons.prems(3) by auto
    obtain comm' where c2: "rd ca comm1 (concat ds) = Inr (comm', True)" "comm_ok comm'"
        "set (communities comm') = set (communities comm1) \<union> {c \<in> dec ` set ds. keep c}"
        "length (communities comm') \<le> length (communities comm1) + length ds"
      using Cons.IH[OF c1(2)] Cons.prems(2,3) c1(4) by auto
    show ?thesis using c1 c2 True rd_entry[OF d, of ca comm "concat ds"] by (intro exI[of _ comm']) auto
  next
    case False
    obtain comm' where "rd ca comm (concat ds) = Inr (comm', True)" "comm_ok comm'"
        "set (communities comm') = set (communities comm) \<union> {c \<in> dec ` set ds. keep c}"
        "length (communities comm') \<le> length (communities comm) + length ds"
      using Cons.IH[OF Cons.prems(1)] Cons.prems(2,3) by auto
    then show ?thesis using False rd_entry[OF d, of ca comm "concat ds"] by (intro exI[of _ comm']) auto
  qed
qed

lemma read_chunks_inv:
  "comm_ok comm \<Longrightarrow> \<forall>d\<in>set ds. length d = width \<Longrightarrow> rd ca comm (concat ds) = Inr (comm', b) \<Longrightarrow> comm_ok comm'"
proof (induction ds arbitrary: comm)
  case (Cons d ds)
  have d: "length d = width" using Cons.prems(2) by simp
  show ?case
    using Cons.IH Cons.prems rd_entry[OF d, of ca comm "concat ds"] insert_community_inv[OF Cons.prems(1), of "dec d"] dec_wf[OF d]
    by (cases "keep (dec d)") (auto simp: res_bind_Inr_iff)
qed (simp add: rd_Nil)

lemma chunk: "length buf = n * width \<Longrightarrow> \<exists>ds. buf = concat ds \<and> length ds = n \<and> (\<forall>d\<in>set ds. length d = width)"
proof (induction n arbitrary: buf)
  case (Suc n)
  then have "length (drop width buf) = n * width" by simp
  from Suc.IH[OF this] obtain ds where ds: "drop width buf = concat ds" "length ds = n" "\<forall>d\<in>set ds. length d = width"
    by (elim exE conjE) (rule that)
  then show ?case using Suc.prems by (intro exI[of _ "take width buf # ds"]) (auto simp flip: ds(1))
qed simp

lemma read_any:
  assumes "comm_ok comm" "length buf mod width = 0" "length (communities comm) + length buf < 2 ^ 31" "\<forall>n. ca n"
  shows "\<exists>comm'. rd ca comm buf = Inr (comm', True) \<and> comm_ok comm' \<and> set (communities comm) \<subseteq> set (communities comm') \<and>
    length (communities comm') \<le> length (communities comm) + length buf"
proof -
  obtain ds where ds: "buf = concat ds" "length ds = length buf div width" "\<forall>d\<in>set ds. length d = width"
    using chunk[of buf "length buf div width"] assms(2) by (metis div_mult_mod_eq add.right_neutral)
  have "length ds \<le> length buf" using ds(2) by simp
  then show ?thesis using read_chunks[OF assms(4,1) ds(3)] ds(1) assms(3) by fastforce
qed

lemma read_inv:
  assumes "comm_ok comm" "length buf mod width = 0" "rd ca comm buf = Inr (comm', b)"
  shows "comm_ok comm'"
proof -
  obtain ds where "buf = concat ds" "\<forall>d\<in>set ds. length d = width"
    using chunk[of buf "length buf div width"] assms(2) by (metis div_mult_mod_eq add.right_neutral)
  then show ?thesis using read_chunks_inv[OF assms(1)] assms(3) by blast
qed

lemma read_enc:
  assumes "comm_ok comm" "\<forall>c\<in>set cs. wf_entry c \<and> ctype c = t" "length (communities comm) + length cs < 2 ^ 31" "\<forall>n. ca n"
  shows "\<exists>comm'. rd ca comm (concat (map enc cs)) = Inr (comm', True) \<and> comm_ok comm' \<and>
    set (communities comm') = set (communities comm) \<union> {c \<in> set cs. keep c}"
proof -
  have "dec ` set (map enc cs) = set cs" using assms(2) dec_enc by (force simp: image_image)
  then show ?thesis using read_chunks[OF assms(4,1), of "map enc cs"] assms(3) by (auto simp: enc_width)
qed

end

definition enc_basic :: "community \<Rightarrow> bytes" where
  "enc_basic c = be_word 2 (ucast (data1 c) :: u16) @ be_word 2 (ucast (data2 c) :: u16)"

definition dec_basic :: "bytes \<Rightarrow> community" where
  "dec_basic d = basic_community (word_be (take 2 d)) (word_be (drop 2 d))"

definition enc_large :: "community \<Rightarrow> bytes" where
  "enc_large c = be_word 4 (data1 c) @ be_word 4 (data2 c) @ be_word 4 (data3 c)"

definition dec_large :: "bytes \<Rightarrow> community" where
  "dec_large d = large_community (word_be (take 4 d)) (word_be (take 4 (drop 4 d))) (word_be (drop 8 d))"

definition enc_ext :: "community \<Rightarrow> bytes" where
  "enc_ext c = be_word 8 (ext_encode c)"

definition dec_ext :: "bytes \<Rightarrow> community" where
  "dec_ext d = ext_decode (word_be d)"

lemma ushrt_le: "unat (d :: u32) < 2 ^ 16 \<longleftrightarrow> d \<le> USHRT_MAX"
  by (auto simp: USHRT_MAX_def word_le_nat_alt)

lemma ucast_ushrt: "d \<le> USHRT_MAX \<Longrightarrow> ucast (ucast (d :: u32) :: u16) = d"
  by (rule ucast_narrow_widen) (simp add: ushrt_le[symmetric])

lemma ucast16_le: "ucast (x :: u16) \<le> USHRT_MAX"
  using unat_u16_less[of x] by (simp add: ushrt_le[symmetric] unsigned_ucast_eq take_bit_nat_eq_self)

lemma ushrt_bits: "(x :: u32) \<le> USHRT_MAX \<longleftrightarrow> (\<forall>n. bit x n \<longrightarrow> n < 16)"
proof
  assume "x \<le> USHRT_MAX"
  then have x: "unat x < 2 ^ 16" using ushrt_le by blast
  show "\<forall>n. bit x n \<longrightarrow> n < 16"
  proof (intro allI impI, rule ccontr)
    fix n :: nat assume b: "bit x n" and "\<not> n < 16"
    then have "unat x < 2 ^ n" using x by (meson less_le_trans not_less one_le_numeral power_increasing)
    then have "\<not> bit (unat x) n" by (simp add: bit_iff_odd)
    then show False using b bit_imp_le_length[OF b] by (simp add: bit_unsigned_iff)
  qed
next
  assume "\<forall>n. bit x n \<longrightarrow> n < 16"
  then have "x = x AND mask 16" by (intro bit_eqI) (auto simp: bit_simps)
  then have "x \<le> mask 16" by (metis word_and_le1)
  then show "x \<le> USHRT_MAX" by (simp add: USHRT_MAX_def mask_eq_exp_minus_1)
qed

lemma low16: "(0xffff :: u64) = mask 16" "(0x3f :: u32) = mask 6"
  by (simp_all add: mask_eq_exp_minus_1)

lemma ext_decode_value: "drop_bit 8 (data3 (ext_decode c)) AND EXT_COMMUNITY_VALUE = ucast (drop_bit 56 c) AND EXT_COMMUNITY_VALUE"
  unfolding ext_decode_def EXT_COMMUNITY_VALUE_def low16 Let_def by (intro bit_eqI) (auto simp: bit_simps add.commute)

lemma ctype_ext_decode: "ctype (ext_decode c) = COMMUNITY_TYPE_EXT" "cm_flags (ext_decode c) = ucast COMMUNITY_TYPE_EXT"
  by (simp_all add: ext_decode_def ctype_def Let_def community_consts)

lemma wf_ext_decode: "wf_entry (ext_decode c)"
proof -
  have "data3 (ext_decode c) \<le> USHRT_MAX" unfolding ushrt_bits
    by (auto simp: ext_decode_def Let_def bit_simps dest: bit_imp_le_length)
  moreover have "ucast (c AND mask 16) \<le> USHRT_MAX" "ucast (drop_bit 32 c AND mask 16) \<le> USHRT_MAX"
    unfolding ushrt_bits by (auto simp: bit_simps)
  ultimately show ?thesis
    using ext_decode_value[of c] ctype_ext_decode[of c]
    by (auto simp: wf_entry_def Let_def) (auto simp: ext_decode_def low16 Let_def)
qed

lemma ext_encode_value:
  assumes "wf_entry c" "ctype c = COMMUNITY_TYPE_EXT"
  shows "drop_bit 48 (ext_encode c) = ucast (data3 c)"
    "ucast (drop_bit 56 (ext_encode c)) AND EXT_COMMUNITY_VALUE = drop_bit 8 (data3 c) AND EXT_COMMUNITY_VALUE"
proof -
  have d3: "\<And>n. bit (data3 c) n \<Longrightarrow> n < 16" using assms by (auto simp: wf_entry_def ushrt_bits community_consts)
  show h: "drop_bit 48 (ext_encode c) = ucast (data3 c)"
    unfolding ext_encode_def low16 Let_def by (intro bit_eqI) (auto simp: bit_simps dest: d3 bit_imp_le_length)
  have "drop_bit 56 (ext_encode c) = drop_bit 8 (drop_bit 48 (ext_encode c))" by simp
  also have "\<dots> = drop_bit 8 (ucast (data3 c))" by (simp only: h)
  finally show "ucast (drop_bit 56 (ext_encode c)) AND EXT_COMMUNITY_VALUE = drop_bit 8 (data3 c) AND EXT_COMMUNITY_VALUE"
    unfolding EXT_COMMUNITY_VALUE_def low16 by (intro bit_eqI) (auto simp: bit_simps)
qed

lemma ext_decode_encode:
  assumes "wf_entry c" "ctype c = COMMUNITY_TYPE_EXT"
  shows "ext_decode (ext_encode c) = c"
proof -
  let ?v = "drop_bit 8 (data3 c) AND EXT_COMMUNITY_VALUE"
  note ev = ext_encode_value[OF assms]
  have b: "\<And>n. bit (data3 c) n \<Longrightarrow> n < 16"
      "?v = EXT_COMMUNITY_TRANS_FOUR_AS \<or> ?v = EXT_COMMUNITY_TRANS_IPV4 \<Longrightarrow> \<forall>n. bit (data2 c) n \<longrightarrow> n < 16"
      "\<not> (?v = EXT_COMMUNITY_TRANS_FOUR_AS \<or> ?v = EXT_COMMUNITY_TRANS_IPV4) \<Longrightarrow> \<forall>n. bit (data1 c) n \<longrightarrow> n < 16"
    using assms by (auto simp: wf_entry_def ushrt_bits community_consts Let_def split: if_splits)
  have f: "cm_flags c = ucast COMMUNITY_TYPE_EXT" using assms by (simp add: wf_entry_def)
  have d3: "data3 (ext_decode (ext_encode c)) = data3 c"
    by (simp add: ext_decode_def Let_def ev(1)) (intro bit_eqI, auto simp: bit_simps)
  show ?thesis
  proof (cases "?v = EXT_COMMUNITY_TRANS_FOUR_AS \<or> ?v = EXT_COMMUNITY_TRANS_IPV4")
    case True
    have e: "ext_encode c = push_bit 48 (ucast (data3 c)) OR push_bit 16 (ucast (data1 c)) OR (ucast (data2 c) AND mask 16)"
      using True by (auto simp: ext_encode_def low16 Let_def)
    have "ucast (drop_bit 16 (ext_encode c)) = data1 c" "ucast (ext_encode c AND mask 16) = data2 c"
      unfolding e using b(2)[OF True] by (auto intro!: bit_eqI simp: bit_simps)
    then show ?thesis using True f d3 ev(2) by (intro community.equality) (auto simp: ext_decode_def low16 Let_def)
  next
    case False
    have e: "ext_encode c = push_bit 48 (ucast (data3 c)) OR push_bit 32 (ucast (data1 c) AND mask 16) OR ucast (data2 c)"
      using False by (auto simp: ext_encode_def low16 Let_def)
    have big: "\<not> bit (data2 c) (32 + n)" for n using bit_imp_le_length[of "data2 c" "32 + n"] by auto
    have "ucast (drop_bit 32 (ext_encode c) AND mask 16) = data1 c" "ucast (ext_encode c) = data2 c"
      unfolding e using b(3)[OF False] by (auto intro!: bit_eqI simp: bit_simps big)
    then show ?thesis using False f d3 ev(2) by (intro community.equality) (auto simp: ext_decode_def low16 Let_def)
  qed
qed

lemma nontrans_decode:
  "non_transitive_ext_community (ext_decode c) \<longleftrightarrow> (ucast (drop_bit 56 c) :: u32) AND EXT_COMMUNITY_NON_TRANSITIVE \<noteq> 0"
proof -
  have "drop_bit 8 (data3 (ext_decode c)) = ucast (drop_bit 56 c)"
    unfolding ext_decode_def Let_def by (intro bit_eqI) (auto simp: bit_simps add.commute dest: bit_imp_le_length)
  then show ?thesis by (simp add: non_transitive_ext_community_def ctype_ext_decode)
qed

interpretation basic: wire_entries add_basic enc_basic dec_basic 4 COMMUNITY_TYPE_BASIC "\<lambda>_. True"
proof
  fix ca :: can_alloc and comm :: rde_community and d r :: bytes and c :: community
  show "add_basic ca comm [] = Inr (comm, True)" by (simp add: add_basic.simps)
  show "(0 :: nat) < 4" by simp
  show "length (enc_basic c) = 4" by (simp add: enc_basic_def)
  show "length d = 4 \<Longrightarrow> wf_entry (dec_basic d) \<and> ctype (dec_basic d) = COMMUNITY_TYPE_BASIC"
    by (simp add: dec_basic_def basic_community_def wf_entry_def ctype_def community_consts ucast16_le)
  show "wf_entry c \<Longrightarrow> ctype c = COMMUNITY_TYPE_BASIC \<Longrightarrow> dec_basic (enc_basic c) = c"
    by (auto simp: dec_basic_def enc_basic_def basic_community_def wf_entry_def community_consts word_be_be_word ucast_ushrt
        intro!: community.equality)
  assume l: "length d = 4"
  define d1 d2 where "d1 = take 2 d" and "d2 = drop 2 d"
  have d: "d = d1 @ d2" "length d1 = 2" "length d2 = 2" using l by (simp_all add: d1_def d2_def)
  have ne: "d1 \<noteq> []" using d(2) by auto
  show "add_basic ca comm (d @ r) = (if True then res_bind (insert_community ca comm (dec_basic d)) (\<lambda>comm'. add_basic ca comm' r)
      else add_basic ca comm r)"
    using d ne by (simp add: add_basic.simps[of ca comm "d1 @ d2 @ r"] get_n16_def dec_basic_def)
qed

interpretation large: wire_entries add_large enc_large dec_large 12 COMMUNITY_TYPE_LARGE "\<lambda>_. True"
proof
  fix ca :: can_alloc and comm :: rde_community and d r :: bytes and c :: community
  show "add_large ca comm [] = Inr (comm, True)" by (simp add: add_large.simps)
  show "(0 :: nat) < 12" by simp
  show "length (enc_large c) = 12" by (simp add: enc_large_def)
  show "length d = 12 \<Longrightarrow> wf_entry (dec_large d) \<and> ctype (dec_large d) = COMMUNITY_TYPE_LARGE"
    by (simp add: dec_large_def large_community_def wf_entry_def ctype_def community_consts)
  show "wf_entry c \<Longrightarrow> ctype c = COMMUNITY_TYPE_LARGE \<Longrightarrow> dec_large (enc_large c) = c"
    by (auto simp: dec_large_def enc_large_def large_community_def wf_entry_def community_consts word_be_be_word
        intro!: community.equality)
  assume l: "length d = 12"
  define d1 d2 d3 where "d1 = take 4 d" and "d2 = take 4 (drop 4 d)" and "d3 = drop 8 d"
  have d: "d = d1 @ d2 @ d3" "length d1 = 4" "length d2 = 4" "length d3 = 4"
    using l append_take_drop_id[of 4 d] append_take_drop_id[of 4 "drop 4 d"] by (simp_all add: d1_def d2_def d3_def)
  have ne: "d1 \<noteq> []" using d(2) by auto
  show "add_large ca comm (d @ r) = (if True then res_bind (insert_community ca comm (dec_large d)) (\<lambda>comm'. add_large ca comm' r)
      else add_large ca comm r)"
    using d ne by (simp add: add_large.simps[of ca comm "d1 @ d2 @ d3 @ r"] get_n32_def dec_large_def)
qed

interpretation ext: wire_entries "\<lambda>ca. add_ext ca ebgp" enc_ext dec_ext 8 COMMUNITY_TYPE_EXT
  "\<lambda>c. \<not> (ebgp \<and> non_transitive_ext_community c)" for ebgp
proof
  fix ca :: can_alloc and comm :: rde_community and d r :: bytes and c :: community
  show "add_ext ca ebgp comm [] = Inr (comm, True)" by (simp add: add_ext.simps)
  show "(0 :: nat) < 8" by simp
  show "length (enc_ext c) = 8" by (simp add: enc_ext_def)
  show "length d = 8 \<Longrightarrow> wf_entry (dec_ext d) \<and> ctype (dec_ext d) = COMMUNITY_TYPE_EXT"
    by (simp add: dec_ext_def wf_ext_decode ctype_ext_decode)
  show "wf_entry c \<Longrightarrow> ctype c = COMMUNITY_TYPE_EXT \<Longrightarrow> dec_ext (enc_ext c) = c"
    by (simp add: dec_ext_def enc_ext_def word_be_be_word ext_decode_encode)
  assume l: "length d = 8"
  have ne: "d \<noteq> []" using l by auto
  show "add_ext ca ebgp comm (d @ r) = (if \<not> (ebgp \<and> non_transitive_ext_community (dec_ext d))
      then res_bind (insert_community ca comm (dec_ext d)) (\<lambda>comm'. add_ext ca ebgp comm' r) else add_ext ca ebgp comm r)"
    using l ne by (simp add: add_ext.simps[of ca ebgp comm "d @ r"] get_n64_def dec_ext_def nontrans_decode)
qed

section \<open>Reachable collections\<close>

definition comm_empty :: rde_community where
  "comm_empty = \<lparr>cm_hash = 0, cm_size = 0, cmflags = 0, cm_refcnt = 0, communities = []\<rparr>"

text \<open>The collections the daemon builds: by reading attributes and by the sets of the filters.\<close>

inductive comm_reachable :: "can_alloc \<Rightarrow> rde_community \<Rightarrow> bool" for ca where
  start: "comm_reachable ca comm_empty"
| add: "comm_reachable ca comm \<Longrightarrow> community_add ca comm flags buf = Inr (comm', b) \<Longrightarrow> comm_reachable ca comm'"
| large_add: "comm_reachable ca comm \<Longrightarrow> community_large_add ca comm flags buf = Inr (comm', b) \<Longrightarrow> comm_reachable ca comm'"
| ext_add: "comm_reachable ca comm \<Longrightarrow> community_ext_add ca comm flags e buf = Inr (comm', b) \<Longrightarrow> comm_reachable ca comm'"
| cset: "comm_reachable ca comm \<Longrightarrow> wf_pattern fc \<Longrightarrow> community_set ca comm fc peer = Inr (comm', b) \<Longrightarrow> comm_reachable ca comm'"
| cdelete: "comm_reachable ca comm \<Longrightarrow> wf_pattern fc \<Longrightarrow> community_delete comm fc peer = Inr comm' \<Longrightarrow> comm_reachable ca comm'"
| ccopy: "comm_reachable ca comm \<Longrightarrow> communities_copy ca comm = Inr comm' \<Longrightarrow> comm_reachable ca comm'"

lemma comm_ok_flags [simp]: "comm_ok (comm\<lparr>cmflags := f\<rparr>) = comm_ok comm"
  by (simp add: comm_ok_def)

lemma community_set_inv:
  assumes "comm_ok comm" "wf_pattern fc" "community_set ca comm fc peer = Inr (comm', b)"
  shows "comm_ok comm'"
proof -
  obtain r where r: "community_set ca comm fc peer = (case r of None \<Rightarrow> Inr (comm, False)
      | Some s \<Rightarrow> res_bind (insert_community ca comm s) (\<lambda>comm'. Inr (comm', True)))" and e: "expands r fc peer"
    by (rule community_set_form[OF assms(2)])
  show ?thesis
  proof (cases r)
    case (Some s)
    then have "insert_community ca comm s = Inr comm'" "wf_entry s"
      using r e assms(3) by (cases "insert_community ca comm s"; simp add: expands_def)+
    then show ?thesis by (intro insert_community_inv[OF assms(1)])
  qed (use r assms(1,3) in simp)
qed

lemma comm_reachable_ok: "comm_reachable ca comm \<Longrightarrow> comm_ok comm"
proof (induction rule: comm_reachable.induct)
  case start
  then show ?case by (simp add: comm_empty_def comm_ok_def)
next
  case (add comm flags buf comm' b)
  then show ?case using basic.read_inv[of comm buf ca comm' b]
      basic.read_inv[of "comm\<lparr>cmflags := cmflags comm OR PARTIAL_COMMUNITIES\<rparr>" buf ca comm' b] by (auto simp: community_add_def split: if_splits)
next
  case (large_add comm flags buf comm' b)
  then show ?case using large.read_inv[of comm buf ca comm' b]
      large.read_inv[of "comm\<lparr>cmflags := cmflags comm OR PARTIAL_LARGE_COMMUNITIES\<rparr>" buf ca comm' b] by (auto simp: community_large_add_def split: if_splits)
next
  case (ext_add comm flags e buf comm' b)
  then show ?case using ext.read_inv[of comm buf ca e comm' b]
      ext.read_inv[of "comm\<lparr>cmflags := cmflags comm OR PARTIAL_EXT_COMMUNITIES\<rparr>" buf ca e comm' b] by (auto simp: community_ext_add_def split: if_splits)
next
  case (cset comm fc peer comm' b)
  then show ?case using community_set_inv by blast
next
  case (cdelete comm fc peer comm')
  then show ?case using community_delete_spec[of comm fc peer] by auto
next
  case (ccopy comm comm')
  then show ?case by (auto simp: communities_copy_def comm_ok_def split: if_splits)
qed

section \<open>Writing\<close>

definition ctype_of :: "u8 \<Rightarrow> u8" where
  "ctype_of type = (if type = ATTR_COMMUNITIES then COMMUNITY_TYPE_BASIC
     else if type = ATTR_EXT_COMMUNITIES then COMMUNITY_TYPE_EXT else COMMUNITY_TYPE_LARGE)"

definition width_of :: "u8 \<Rightarrow> nat" where
  "width_of type = (if type = ATTR_COMMUNITIES then 4 else if type = ATTR_EXT_COMMUNITIES then 8 else 12)"

definition enc_of :: "u8 \<Rightarrow> community \<Rightarrow> bytes" where
  "enc_of type = (if type = ATTR_COMMUNITIES then enc_basic else if type = ATTR_EXT_COMMUNITIES then enc_ext else enc_large)"

definition sent :: "bool \<Rightarrow> community \<Rightarrow> bool" where
  "sent ebgp c = (\<not> (ebgp \<and> non_transitive_ext_community c))"

lemma enc_of_width [simp]: "length (enc_of type c) = width_of type"
  by (simp add: enc_of_def width_of_def enc_basic_def enc_ext_def enc_large_def)

lemma length_concat_enc [simp]: "length (concat (map (enc_of type) cs)) = width_of type * length cs"
  by (induction cs) auto

lemma write_one:
  assumes "wf_entry c" "ctype c = ctype_of type" "sent ebgp c" "roomy b (width_of type + n)" "\<forall>n. ca n"
  shows "\<exists>b'. write_entries ca type ebgp (c # cs) b = write_entries ca type ebgp cs b' \<and> roomy b' n \<and>
    ibuf_content b' = ibuf_content b @ enc_of type c"
proof -
  have add: "roomy b0 (length d + k) \<Longrightarrow> \<exists>b'. ibuf_add ca b0 d = Inr b' \<and> roomy b' k \<and> ibuf_content b' = ibuf_content b0 @ d" for b0 d k
    using ibuf_add_roomy assms(5) by blast
  consider (b) "type = ATTR_COMMUNITIES" | (x) "type = ATTR_EXT_COMMUNITIES" | (l) "type \<noteq> ATTR_COMMUNITIES" "type \<noteq> ATTR_EXT_COMMUNITIES" by blast
  then show ?thesis
  proof cases
    case b
    have d: "data1 c \<le> USHRT_MAX" "data2 c \<le> USHRT_MAX" using assms(1,2) b by (auto simp: wf_entry_def ctype_of_def community_consts)
    have n16: "ibuf_add_n16 ca b0 (ucast v) = ibuf_add ca b0 (be_word 2 (ucast v :: u16))" if "v \<le> USHRT_MAX" for b0 and v :: u32
    proof -
      have "unat (ucast v :: u64) = unat v" using unat_u32_less[of v] by (simp add: unsigned_ucast_eq take_bit_nat_eq_self)
      then have "\<not> (ucast v :: u64) > 0xffff" using that by (simp add: word_less_nat_alt word_le_nat_alt USHRT_MAX_def not_less)
      moreover have "(ucast (ucast v :: u64) :: u16) = ucast v" by (intro bit_eqI) (auto simp: bit_simps)
      ultimately show ?thesis by (simp add: ibuf_add_n16_def)
    qed
    obtain b1 where b1: "ibuf_add ca b (be_word 2 (ucast (data1 c) :: u16)) = Inr b1" "roomy b1 (2 + n)"
        "ibuf_content b1 = ibuf_content b @ be_word 2 (ucast (data1 c) :: u16)"
    proof -
      have "roomy b (length (be_word 2 (ucast (data1 c) :: u16)) + (2 + n))" using assms(4) b by (simp add: width_of_def eval_nat_numeral)
      from add[OF this] show thesis by (elim exE conjE) (rule that)
    qed
    obtain b2 where b2: "ibuf_add ca b1 (be_word 2 (ucast (data2 c) :: u16)) = Inr b2" "roomy b2 n"
        "ibuf_content b2 = ibuf_content b1 @ be_word 2 (ucast (data2 c) :: u16)"
      using add[of b1 "be_word 2 (ucast (data2 c) :: u16)" n] b1(2) by auto
    show ?thesis using b b1 b2 n16[OF d(1)] n16[OF d(2)] by (intro exI[of _ b2]) (simp add: enc_of_def enc_basic_def)
  next
    case x
    then obtain b1 where b1: "ibuf_add ca b (enc_ext c) = Inr b1" "roomy b1 n" "ibuf_content b1 = ibuf_content b @ enc_ext c"
      using add[of b "enc_ext c" n] assms(4) by (auto simp: width_of_def enc_ext_def cattr_consts)
    have "ATTR_EXT_COMMUNITIES \<noteq> ATTR_COMMUNITIES" by (simp add: cattr_consts)
    then show ?thesis using x b1 assms(3)
      by (intro exI[of _ b1]) (auto simp: enc_of_def enc_ext_def ibuf_add_n64_def sent_def)
  next
    case l
    have n32: "ibuf_add_n32 ca b0 (ucast v) = ibuf_add ca b0 (be_word 4 v)" for b0 and v :: u32
    proof -
      have u: "unat (ucast v :: u64) = unat v" using unat_u32_less[of v] by (simp add: unsigned_ucast_eq take_bit_nat_eq_self)
      then have "\<not> (ucast v :: u64) > 0xffffffff" using unat_u32_less[of v] by (simp add: word_less_nat_alt not_less)
      moreover have "(ucast (ucast v :: u64) :: u32) = v" by (intro bit_eqI) (auto simp: bit_simps)
      ultimately show ?thesis by (simp add: ibuf_add_n32_def)
    qed
    obtain b1 where b1: "ibuf_add ca b (be_word 4 (data1 c)) = Inr b1" "roomy b1 (8 + n)" "ibuf_content b1 = ibuf_content b @ be_word 4 (data1 c)"
      using add[of b "be_word 4 (data1 c)" "8 + n"] assms(4) l by (auto simp: width_of_def)
    obtain b2 where b2: "ibuf_add ca b1 (be_word 4 (data2 c)) = Inr b2" "roomy b2 (4 + n)" "ibuf_content b2 = ibuf_content b1 @ be_word 4 (data2 c)"
      using add[of b1 "be_word 4 (data2 c)" "4 + n"] b1(2) by auto
    obtain b3 where b3: "ibuf_add ca b2 (be_word 4 (data3 c)) = Inr b3" "roomy b3 n" "ibuf_content b3 = ibuf_content b2 @ be_word 4 (data3 c)"
      using add[of b2 "be_word 4 (data3 c)" n] b2(2) by auto
    show ?thesis using l b1 b2 b3 n32 by (intro exI[of _ b3]) (simp add: enc_of_def enc_large_def)
  qed
qed

lemma write_entries_spec:
  "\<forall>c\<in>set cs. wf_entry c \<and> ctype c = ctype_of type \<Longrightarrow> roomy b (width_of type * length (filter (sent ebgp) cs) + n) \<Longrightarrow> \<forall>n. ca n \<Longrightarrow>
   \<exists>b'. write_entries ca type ebgp cs b = Inr b' \<and> ibuf_content b' = ibuf_content b @ concat (map (enc_of type) (filter (sent ebgp) cs))"
proof (induction cs arbitrary: b)
  case (Cons c cs)
  show ?case
  proof (cases "sent ebgp c")
    case True
    then obtain b' where b': "write_entries ca type ebgp (c # cs) b = write_entries ca type ebgp cs b'"
        "roomy b' (width_of type * length (filter (sent ebgp) cs) + n)" "ibuf_content b' = ibuf_content b @ enc_of type c"
      using write_one[of c type ebgp b "width_of type * length (filter (sent ebgp) cs) + n" ca cs] Cons.prems by (auto simp: add.assoc)
    show ?thesis using Cons.IH[OF _ b'(2) Cons.prems(3)] Cons.prems(1) True b'(1,3) by (auto simp del: write_entries.simps)
  next
    case False
    then have "ctype c = COMMUNITY_TYPE_EXT" by (simp add: sent_def non_transitive_ext_community_def)
    moreover have "ctype c = ctype_of type" using Cons.prems(1) by simp
    ultimately have "ctype_of type = COMMUNITY_TYPE_EXT" by simp
    then have "type = ATTR_EXT_COMMUNITIES"
      by (cases "type = ATTR_COMMUNITIES"; cases "type = ATTR_EXT_COMMUNITIES") (simp_all add: ctype_of_def community_consts)
    moreover have "ATTR_EXT_COMMUNITIES \<noteq> ATTR_COMMUNITIES" by (simp add: cattr_consts)
    ultimately have "write_entries ca type ebgp (c # cs) b = write_entries ca type ebgp cs b" using False by (simp add: sent_def)
    then show ?thesis using Cons.IH[OF _ _ Cons.prems(3), of b] Cons.prems(1,2) False by (auto simp del: write_entries.simps)
  qed
qed simp

text \<open>The array is ordered by type, so the entries of one type are neighbours.\<close>

lemma ordered_types: "arr.ordered cs \<Longrightarrow> sorted_wrt (\<lambda>x y. ctype x \<le> ctype y) cs"
  unfolding arr.ordered_def by (erule sorted_wrt_mono_rel[rotated]) (auto simp: ckey_def less_prod_def')

lemma type_split:
  assumes "arr.ordered cs"
  obtains lo hi where "cs = lo @ filter (\<lambda>c. ctype c = t) cs @ hi" "\<forall>c\<in>set lo. ctype c < t" "\<forall>c\<in>set hi. ctype c > t"
  using ordered_types[OF assms]
proof (induction cs arbitrary: thesis)
  case Nil
  then show ?case by simp
next
  case (Cons c cs)
  obtain lo hi where ih: "cs = lo @ filter (\<lambda>c. ctype c = t) cs @ hi" "\<forall>c\<in>set lo. ctype c < t" "\<forall>c\<in>set hi. ctype c > t"
    using Cons.IH Cons.prems(2) by auto
  have ge: "\<forall>x\<in>set cs. ctype c \<le> ctype x" using Cons.prems(2) by simp
  consider "ctype c < t" | "ctype c = t" | "ctype c > t" by force
  then show ?case
  proof cases
    case 1
    then show ?thesis using ih by (intro Cons.prems(1)[of "c # lo" hi]) auto
  next
    case 2
    have "set lo \<subseteq> set cs" using ih(1) by (metis Un_iff set_append subsetI)
    then have "lo = []" using ih(2) ge 2 by (cases lo) auto
    then show ?thesis using ih 2 by (intro Cons.prems(1)[of "[]" hi]) auto
  next
    case 3
    then have "\<forall>x\<in>set cs. ctype x > t" using ge by fastforce
    then show ?thesis using 3 by (intro Cons.prems(1)[of "[]" "c # cs"]) (auto simp: filter_empty_conv)
  qed
qed

lemma count_lo: "\<forall>c\<in>set lo. ctype c < t \<Longrightarrow> count_written t ebgp l (lo @ cs) num start = count_written t ebgp (l + length lo) cs num start"
  by (induction lo arbitrary: l) auto

lemma count_hi: "\<forall>c\<in>set hi. ctype c > t \<Longrightarrow> count_written t ebgp l hi num start = (num, start, l)"
  by (cases hi) auto

lemma count_started:
  "\<forall>c\<in>set T. ctype c = t \<Longrightarrow> \<forall>c\<in>set hi. ctype c > t \<Longrightarrow>
   count_written t ebgp l (T @ hi) num (Some s) = (num + length (filter (sent ebgp) T), Some s, l + length T)"
  by (induction T arbitrary: l num) (auto simp: count_hi sent_def)

lemma count_same:
  "\<forall>c\<in>set T. ctype c = t \<Longrightarrow> \<forall>c\<in>set hi. ctype c > t \<Longrightarrow>
   count_written t ebgp l (T @ hi) num None = (num + length (filter (sent ebgp) T),
     if filter (sent ebgp) T = [] then None else Some (l + length (takeWhile (\<lambda>c. \<not> sent ebgp c) T)), l + length T)"
proof (induction T arbitrary: l)
  case (Cons c T)
  show ?case
  proof (cases "sent ebgp c")
    case True
    then have "count_written t ebgp l ((c # T) @ hi) num None = count_written t ebgp (l + 1) (T @ hi) (num + 1) (Some l)"
      using Cons.prems by (auto simp: sent_def)
    then show ?thesis using True Cons.prems count_started[of T t hi ebgp "l + 1" "num + 1" l] by simp
  next
    case False
    then have "count_written t ebgp l ((c # T) @ hi) num None = count_written t ebgp (l + 1) (T @ hi) num None"
      using Cons.prems by (auto simp: sent_def)
    then show ?thesis using False Cons.IH[of "l + 1"] Cons.prems by simp
  qed
qed (simp add: count_hi)

lemma count_written_spec:
  assumes "arr.ordered cs"
  shows "\<exists>start end. count_written t ebgp 0 cs 0 None = (length (filter (sent ebgp) (filter (\<lambda>c. ctype c = t) cs)), start, end) \<and>
    (filter (sent ebgp) (filter (\<lambda>c. ctype c = t) cs) \<noteq> [] \<longrightarrow>
      drop (the start) (take end cs) = dropWhile (\<lambda>c. \<not> sent ebgp c) (filter (\<lambda>c. ctype c = t) cs))"
proof -
  obtain lo hi where s: "cs = lo @ filter (\<lambda>c. ctype c = t) cs @ hi" "\<forall>c\<in>set lo. ctype c < t" "\<forall>c\<in>set hi. ctype c > t"
    by (rule type_split[OF assms])
  define T where "T = filter (\<lambda>c. ctype c = t) cs"
  have T: "\<forall>c\<in>set T. ctype c = t" by (simp add: T_def)
  have c: "cs = lo @ T @ hi" using s(1) by (simp add: T_def)
  have "count_written t ebgp 0 cs 0 None = count_written t ebgp (length lo) (T @ hi) 0 None"
    unfolding c using count_lo[OF s(2), of ebgp 0] by simp
  then have r: "count_written t ebgp 0 cs 0 None = (length (filter (sent ebgp) T),
      if filter (sent ebgp) T = [] then None else Some (length lo + length (takeWhile (\<lambda>c. \<not> sent ebgp c) T)), length lo + length T)"
    using count_same[OF T s(3), of ebgp "length lo" 0] by simp
  have "drop (length lo + length (takeWhile (\<lambda>c. \<not> sent ebgp c) T)) (take (length lo + length T) cs) = dropWhile (\<lambda>c. \<not> sent ebgp c) T"
    unfolding c by (simp add: dropWhile_eq_drop)
  then show ?thesis using r by (simp add: T_def[symmetric])
qed

lemma filter_dropWhile: "filter P (dropWhile (\<lambda>x. \<not> P x) xs) = filter P xs"
  by (induction xs) auto

text \<open>The communities of one type in the order of the array that go into the attribute.\<close>

definition selected :: "rde_community \<Rightarrow> u8 \<Rightarrow> bool \<Rightarrow> community list" where
  "selected comm type ebgp = filter (sent ebgp) (filter (\<lambda>c. ctype c = ctype_of type) (communities comm))"

definition attr_hdr :: "u8 \<Rightarrow> u8 \<Rightarrow> nat \<Rightarrow> bytes" where
  "attr_hdr flags type len =
     (if len > 255 then [flags AND NOT ATTR_DEFMASK OR ATTR_EXTLEN, type, of_nat (len div 256), of_nat len]
      else [flags AND NOT ATTR_DEFMASK, type, of_nat len])"

lemma attr_writebuf_header:
  assumes "roomy b (4 + n)" "\<forall>n. ca n" "len < 2 ^ 16"
  shows "\<exists>b'. attr_writebuf ca b flags type None (of_nat len) = Inr b' \<and> roomy b' n \<and>
    ibuf_content b' = ibuf_content b @ attr_hdr flags type len"
proof -
  have u: "unat (of_nat len :: u16) = len" using assms(3) by (simp add: unat_of_nat take_bit_nat_eq_self)
  have lo: "ucast ((of_nat len :: u16) AND 0xff) = (of_nat len :: u8)"
  proof -
    have f: "(0xff :: u16) = mask 8" by (simp add: mask_eq_exp_minus_1)
    show ?thesis unfolding f by (intro bit_eqI) (auto simp: bit_simps)
  qed
  have hi: "ucast (drop_bit 8 (of_nat len :: u16) AND 0xff) = (of_nat (len div 256) :: u8)"
  proof -
    have f: "(0xff :: u16) = mask 8" by (simp add: mask_eq_exp_minus_1)
    have "len div 256 = drop_bit 8 len" by (simp add: drop_bit_eq_div)
    then show ?thesis unfolding f by (intro bit_eqI) (auto simp: bit_simps add.commute)
  qed
  have big: "(of_nat len :: u16) > 255 \<longleftrightarrow> len > 255" using u by (simp add: word_less_nat_alt)
  have "roomy b (length (attr_hdr flags type len) + n)" using assms(1) by (auto simp: attr_hdr_def roomy_def)
  from ibuf_add_roomy[OF this assms(2)] show ?thesis
    by (simp add: attr_writebuf_def attr_hdr_def lo hi big Let_def res_bind_Inr_iff split: if_splits)
qed

definition wire_flags :: "rde_community \<Rightarrow> u8 \<Rightarrow> u8" where
  "wire_flags comm type = ATTR_OPTIONAL OR ATTR_TRANSITIVE OR
     (if cmflags comm AND (if type = ATTR_COMMUNITIES then PARTIAL_COMMUNITIES
        else if type = ATTR_EXT_COMMUNITIES then PARTIAL_EXT_COMMUNITIES else PARTIAL_LARGE_COMMUNITIES) \<noteq> 0
      then ATTR_PARTIAL else 0)"

lemma community_writebuf_form:
  assumes "type \<in> {ATTR_COMMUNITIES, ATTR_EXT_COMMUNITIES, ATTR_LARGE_COMMUNITIES}"
  shows "community_writebuf ca comm type ebgp buf =
    (let (num, start, end) = count_written (ctype_of type) ebgp 0 (communities comm) 0 None
     in if num = 0 then Inr buf else if num > 32767 div width_of type then Inl EINVAL
        else res_bind (attr_writebuf ca buf (wire_flags comm type) type None (of_nat (num * width_of type))) (\<lambda>buf.
          write_entries ca type ebgp (drop (the start) (take end (communities comm))) buf))"
proof -
  have "ATTR_EXT_COMMUNITIES \<noteq> ATTR_COMMUNITIES" "ATTR_LARGE_COMMUNITIES \<noteq> ATTR_COMMUNITIES"
    "ATTR_LARGE_COMMUNITIES \<noteq> ATTR_EXT_COMMUNITIES" by (simp_all add: cattr_consts)
  then show ?thesis using assms
    by (auto simp: community_writebuf_def ctype_of_def width_of_def wire_flags_def Let_def split: prod.splits)
qed

lemma community_writebuf_spec:
  assumes ok: "comm_ok comm" and type: "type \<in> {ATTR_COMMUNITIES, ATTR_EXT_COMMUNITIES, ATTR_LARGE_COMMUNITIES}"
    and sel: "sel = selected comm type ebgp" "sel \<noteq> []" "length sel \<le> 32767 div width_of type"
    and room: "roomy buf (4 + width_of type * length sel)" "\<forall>n. ca n"
  shows "\<exists>buf'. community_writebuf ca comm type ebgp buf = Inr buf' \<and>
    ibuf_content buf' = ibuf_content buf @ attr_hdr (wire_flags comm type) type (length sel * width_of type) @
      concat (map (enc_of type) sel)"
proof -
  let ?T = "filter (\<lambda>c. ctype c = ctype_of type) (communities comm)"
  have ord: "arr.ordered (communities comm)" and wf: "\<forall>c\<in>set (communities comm). wf_entry c" using ok by (auto simp: comm_ok_def)
  obtain start "end" where c: "count_written (ctype_of type) ebgp 0 (communities comm) 0 None = (length sel, start, end)"
      "drop (the start) (take end (communities comm)) = dropWhile (\<lambda>c. \<not> sent ebgp c) ?T"
    using count_written_spec[OF ord, of "ctype_of type" ebgp] sel(1,2) by (auto simp: selected_def)
  have s: "filter (sent ebgp) (dropWhile (\<lambda>c. \<not> sent ebgp c) ?T) = sel"
    using filter_dropWhile[of "sent ebgp" ?T] sel(1) by (simp add: selected_def)
  have pos: "0 < width_of type" by (simp add: width_of_def)
  have "length sel * width_of type \<le> 32767" using sel(3) pos by (meson less_eq_div_iff_mult_less_eq)
  then obtain b1 where b1: "attr_writebuf ca buf (wire_flags comm type) type None (of_nat (length sel * width_of type)) = Inr b1"
      "roomy b1 (width_of type * length sel)" "ibuf_content b1 = ibuf_content buf @ attr_hdr (wire_flags comm type) type (length sel * width_of type)"
    using attr_writebuf_header[OF room, of "length sel * width_of type"] by auto
  have "\<forall>c\<in>set (dropWhile (\<lambda>c. \<not> sent ebgp c) ?T). wf_entry c \<and> ctype c = ctype_of type"
    using wf set_dropWhileD by fastforce
  from write_entries_spec[OF this, of b1 ebgp 0 ca] obtain b2 where
      "write_entries ca type ebgp (dropWhile (\<lambda>c. \<not> sent ebgp c) ?T) b1 = Inr b2" "ibuf_content b2 = ibuf_content b1 @ concat (map (enc_of type) sel)"
    using b1(2) room(2) s by auto
  then show ?thesis
    unfolding community_writebuf_form[OF type] using c b1 sel(2,3) by (simp add: not_less)
qed

section \<open>Reading back\<close>

definition comm_read :: "can_alloc \<Rightarrow> u8 \<Rightarrow> bool \<Rightarrow> u8 \<Rightarrow> rde_community \<Rightarrow> bytes \<Rightarrow> (rde_community \<times> bool) res" where
  "comm_read ca type ebgp flags comm buf =
     (if type = ATTR_COMMUNITIES then community_add ca comm flags buf
      else if type = ATTR_EXT_COMMUNITIES then community_ext_add ca comm flags ebgp buf
      else community_large_add ca comm flags buf)"

lemma ordered_unique: "arr.ordered xs \<Longrightarrow> arr.ordered ys \<Longrightarrow> set xs = set ys \<Longrightarrow> xs = ys"
proof (induction xs arbitrary: ys)
  case (Cons x xs)
  then obtain y ys' where y: "ys = y # ys'" by (cases ys) auto
  have "x = y"
  proof (rule ccontr)
    assume "x \<noteq> y"
    then have "x \<in> set ys'" "y \<in> set xs" using Cons.prems(3) y by auto
    then show False using Cons.prems(1,2) y by (meson arr.ordered_simps(2) order_less_asym)
  qed
  moreover have "set xs = set ys'"
    using Cons.prems y \<open>x = y\<close> arr.ordered_distinct[OF Cons.prems(1)] arr.ordered_distinct[OF Cons.prems(2)]
    by (metis Diff_insert_absorb distinct.simps(2) list.simps(15))
  ultimately show ?case using Cons y by simp
qed simp

lemma comm_read_back:
  assumes "\<forall>c\<in>set sel. wf_entry c \<and> ctype c = ctype_of type \<and> sent ebgp c" "arr.ordered sel" "sel \<noteq> []" "length sel < 2 ^ 31" "\<forall>n. ca n"
  shows "\<exists>comm'. comm_read ca type ebgp flags comm_empty (concat (map (enc_of type) sel)) = Inr (comm', True) \<and> communities comm' = sel"
proof -
  have e: "comm_ok (if f then comm_empty\<lparr>cmflags := g\<rparr> else comm_empty)" for f g by (simp add: comm_ok_def comm_empty_def)
  have e0: "communities (if f then comm_empty\<lparr>cmflags := g\<rparr> else comm_empty) = []" for f g by (simp add: comm_empty_def)
  have len: "length (concat (map (enc_of type) sel)) \<noteq> 0" using assms(3) by (simp add: width_of_def)
  have md: "length (concat (map (enc_of type) sel)) mod width_of type = 0" by simp
  have fin: "comm_ok comm' \<Longrightarrow> set (communities comm') = set sel \<Longrightarrow> communities comm' = sel" for comm'
    using ordered_unique[of "communities comm'" sel] assms(2) by (simp add: comm_ok_def)
  consider (b) "type = ATTR_COMMUNITIES" | (x) "type = ATTR_EXT_COMMUNITIES" | (l) "type \<noteq> ATTR_COMMUNITIES" "type \<noteq> ATTR_EXT_COMMUNITIES" by blast
  then show ?thesis
  proof cases
    case b
    let ?c0 = "if flags AND ATTR_PARTIAL \<noteq> 0 then comm_empty\<lparr>cmflags := cmflags comm_empty OR PARTIAL_COMMUNITIES\<rparr> else comm_empty"
    have "\<forall>c\<in>set sel. wf_entry c \<and> ctype c = COMMUNITY_TYPE_BASIC" using assms(1) b by (simp add: ctype_of_def)
    from basic.read_enc[OF e this _ assms(5), of "flags AND ATTR_PARTIAL \<noteq> 0" "cmflags comm_empty OR PARTIAL_COMMUNITIES"]
    obtain comm' where "add_basic ca ?c0 (concat (map enc_basic sel)) = Inr (comm', True)" "comm_ok comm'" "set (communities comm') = set sel"
      using assms(4) by (auto simp: e0)
    then show ?thesis using b fin len md by (simp add: comm_read_def community_add_def enc_of_def width_of_def del: length_concat_enc)
  next
    case x
    let ?c0 = "if flags AND ATTR_PARTIAL \<noteq> 0 then comm_empty\<lparr>cmflags := cmflags comm_empty OR PARTIAL_EXT_COMMUNITIES\<rparr> else comm_empty"
    have ne: "ATTR_EXT_COMMUNITIES \<noteq> ATTR_COMMUNITIES" by (simp add: cattr_consts)
    have "\<forall>c\<in>set sel. wf_entry c \<and> ctype c = COMMUNITY_TYPE_EXT" using assms(1) x ne by (simp add: ctype_of_def)
    from ext.read_enc[OF e this _ assms(5), of "flags AND ATTR_PARTIAL \<noteq> 0" "cmflags comm_empty OR PARTIAL_EXT_COMMUNITIES" ebgp]
    obtain comm' where c: "add_ext ca ebgp ?c0 (concat (map enc_ext sel)) = Inr (comm', True)" "comm_ok comm'"
        "set (communities comm') = {c \<in> set sel. \<not> (ebgp \<and> non_transitive_ext_community c)}"
      using assms(4) by (auto simp: e0)
    have "set (communities comm') = set sel" unfolding c(3) using assms(1) by (auto simp: sent_def)
    then show ?thesis using x ne fin[OF c(2)] c(1) len md by (simp add: comm_read_def community_ext_add_def enc_of_def width_of_def del: length_concat_enc)
  next
    case l
    let ?c0 = "if flags AND ATTR_PARTIAL \<noteq> 0 then comm_empty\<lparr>cmflags := cmflags comm_empty OR PARTIAL_LARGE_COMMUNITIES\<rparr> else comm_empty"
    have "\<forall>c\<in>set sel. wf_entry c \<and> ctype c = COMMUNITY_TYPE_LARGE" using assms(1) l by (simp add: ctype_of_def)
    from large.read_enc[OF e this _ assms(5), of "flags AND ATTR_PARTIAL \<noteq> 0" "cmflags comm_empty OR PARTIAL_LARGE_COMMUNITIES"]
    obtain comm' where "add_large ca ?c0 (concat (map enc_large sel)) = Inr (comm', True)" "comm_ok comm'" "set (communities comm') = set sel"
      using assms(4) by (auto simp: e0)
    then show ?thesis using l fin len md by (simp add: comm_read_def community_large_add_def enc_of_def width_of_def del: length_concat_enc)
  qed
qed

section \<open>Properties\<close>


definition some_comm :: rde_community where
  "some_comm = \<lparr>cm_hash = 0, cm_size = 8, cmflags = 8, cm_refcnt = 0,
     communities = [\<lparr>cm_flags = 8, data1 = 1, data2 = 2, data3 = 0\<rparr>, \<lparr>cm_flags = 8, data1 = 64512, data2 = 7, data3 = 0\<rparr>]\<rparr>"

definition some_pattern :: community where
  "some_pattern = \<lparr>cm_flags = 0x010208, data1 = 0, data2 = 0, data3 = 0\<rparr>"

definition comm_a :: community where "comm_a = \<lparr>cm_flags = 8, data1 = 64512, data2 = 7, data3 = 0\<rparr>"
definition comm_b :: community where "comm_b = \<lparr>cm_flags = 8, data1 = 1, data2 = 2, data3 = 0\<rparr>"

lemma some_comm_reachable: "comm_reachable (\<lambda>_. True) some_comm"
proof -
  have bin: "unat (bin_of_communities 1) = 8" by code_simp
  have wf: "wf_pattern comm_a" "wf_pattern comm_b" by code_simp+
  have gt: "fast_match comm_a comm_b = 1" by code_simp
  let ?one = "\<lparr>cm_hash = 0, cm_size = 8, cmflags = 8, cm_refcnt = 0, communities = [comm_a]\<rparr>"
  have "community_set (\<lambda>_. True) comm_empty comm_a None = Inr (?one, True)"
    by (simp add: community_set_def insert_community_def comm_empty_def bin Let_def PARTIAL_DIRTY_def comm_a_def)
  then have one: "comm_reachable (\<lambda>_. True) ?one" by (rule comm_reachable.cset[OF comm_reachable.start wf(1)])
  have f: "drop_bit 8 (cm_flags comm_b) = 0" by (simp add: comm_b_def)
  have "community_set (\<lambda>_. True) ?one comm_b None = Inr (some_comm, True)"
    using f gt by (simp add: community_set_def insert_community_def Let_def PARTIAL_DIRTY_def some_comm_def)
      (simp add: comm_a_def comm_b_def)
  then show ?thesis by (rule comm_reachable.cset[OF one wf(2)])
qed

lemma some_pattern_wf: "wf_pattern some_pattern"
  by code_simp




text \<open>
  Every reachable collection is strictly sorted by type and value, so it holds no community
  twice; its entries have no flags but their type, and the array holds them all.
\<close>

lemma communities_sorted:
  assumes "comm_reachable ca comm"
  shows "sorted_wrt (\<lambda>a b. fast_match a b < 0) (communities comm) \<and> distinct (communities comm) \<and>
    (\<forall>c\<in>set (communities comm). cm_flags c = ucast (ctype c)) \<and> length (communities comm) \<le> cm_size comm"
proof -
  have ok: "arr.ordered (communities comm)" "\<forall>c\<in>set (communities comm). wf_entry c" "length (communities comm) \<le> cm_size comm"
    using comm_reachable_ok[OF assms] by (auto simp: comm_ok_def)
  have "sorted_wrt (\<lambda>a b. fast_match a b < 0) (communities comm)"
    using ok(1) unfolding arr.ordered_def
    by (rule sorted_wrt_mono_rel[rotated]) (metis arr.cmp_pos arr.cmp_zero less_irrefl less_linear order_less_asym)
  then show ?thesis using ok arr.ordered_distinct[OF ok(1)] by (simp add: wf_entry_def)
qed

text \<open>
  C22: the attribute community_writebuf appends is a header and the encoded communities of its type
  in order, without the non-transitive extended ones on external sessions; reading it back with
  the function for this attribute gives the same communities in the same order.
\<close>

theorem community_wire_roundtrip:
  assumes "comm_reachable ca comm" "type \<in> {ATTR_COMMUNITIES, ATTR_EXT_COMMUNITIES, ATTR_LARGE_COMMUNITIES}"
    and "sel = selected comm type ebgp" "sel \<noteq> []" "length sel \<le> 32767 div width_of type"
    and "roomy buf (4 + width_of type * length sel)" "\<forall>n. ca n"
  shows "\<exists>buf' payload comm'. community_writebuf ca comm type ebgp buf = Inr buf' \<and>
    ibuf_content buf' = ibuf_content buf @ attr_hdr (wire_flags comm type) type (length payload) @ payload \<and>
    comm_read ca type ebgp (wire_flags comm type) comm_empty payload = Inr (comm', True) \<and> communities comm' = sel"
proof -
  note ok = comm_reachable_ok[OF assms(1)]
  obtain buf' where w: "community_writebuf ca comm type ebgp buf = Inr buf'"
      "ibuf_content buf' = ibuf_content buf @ attr_hdr (wire_flags comm type) type (length sel * width_of type) @ concat (map (enc_of type) sel)"
    using community_writebuf_spec[OF ok assms(2-7)] by blast
  have ord: "arr.ordered sel" using ok unfolding assms(3) selected_def by (intro arr.ordered_filter) (simp add: comm_ok_def)
  have wf: "\<forall>c\<in>set sel. wf_entry c \<and> ctype c = ctype_of type \<and> sent ebgp c" using ok by (auto simp: assms(3) selected_def comm_ok_def)
  have "length sel \<le> 32767" using assms(5) by (rule order_trans) simp
  then obtain comm' where "comm_read ca type ebgp (wire_flags comm type) comm_empty (concat (map (enc_of type) sel)) = Inr (comm', True)"
      "communities comm' = sel"
    using comm_read_back[OF wf ord assms(4) _ assms(7)] by auto
  then show ?thesis using w by (intro exI[of _ buf'] exI[of _ "concat (map (enc_of type) sel)"] exI[of _ comm']) (simp add: mult.commute)
qed

theorem community_wire_roundtrip_witness:
  "\<exists>buf' payload comm'. community_writebuf (\<lambda>_. True) some_comm 8 True \<lparr>i_buf = replicate 40 0, i_max = 40, i_wpos = 0, i_rpos = 0, i_fd = -1\<rparr> = Inr buf' \<and>
    comm_read (\<lambda>_. True) 8 True 0xc0 comm_empty payload = Inr (comm', True) \<and> communities comm' = communities some_comm"
proof -
  have s: "selected some_comm 8 True = communities some_comm" "wire_flags some_comm 8 = 0xc0" "width_of 8 = 4" by code_simp+
  have r: "roomy \<lparr>i_buf = replicate 40 0, i_max = 40, i_wpos = 0, i_rpos = 0, i_fd = -1\<rparr> (4 + width_of 8 * length (communities some_comm))"
    by (simp add: roomy_def ibuf_wf_def ibuf_left_def IBUF_FD_MARK_ON_STACK_def SIZE_MAX_def s(3) some_comm_def)
  have l: "communities some_comm \<noteq> []" "length (communities some_comm) \<le> 32767 div width_of 8" by (simp_all add: some_comm_def s(3))
  have t: "8 \<in> {ATTR_COMMUNITIES, ATTR_EXT_COMMUNITIES, ATTR_LARGE_COMMUNITIES}" by (simp add: cattr_consts)
  show ?thesis using community_wire_roundtrip[OF some_comm_reachable t s(1)[symmetric] l r] unfolding s(2) by blast
qed

end
