(* ===== verification/Session_Parse.thy ===== *)
theory Session_Parse
  imports Session_Msg
begin

text \<open>
  What a BGP session receives (usr.sbin/bgpd/session_bgp.c): the header check parse_header(), the
  OPEN message with its capabilities (parse_open(), parse_capabilities()), the negotiation
  capa_neg_calc(), and the NOTIFICATION and ROUTE-REFRESH messages. A message is the list of its
  bytes; the reads of the source are the get functions of Ibuf, which ibuf_get_view relates to the
  buffer operations, and the loops over fixed-size entries read an entry by its byte pattern.
\<close>

section \<open>Header\<close>

text \<open>A received message that is refused: a notification and EVNT_CON_FATAL.\<close>

definition refuse :: "session_env \<Rightarrow> u8 \<Rightarrow> u8 \<Rightarrow> bytes option \<Rightarrow> peer \<Rightarrow> peer res" where
  "refuse e errcode subcode data = do_all [session_notification e errcode subcode data, fsm_fatal e]"

definition header_len_ok :: "u8 \<Rightarrow> nat \<Rightarrow> bool" where
  "header_len_ok type len =
     (if type = BGP_OPEN then MSGSIZE_OPEN_MIN \<le> len \<and> len \<le> MAX_PKTSIZE
      else if type = BGP_NOTIFICATION then MSGSIZE_NOTIFICATION_MIN \<le> len
      else if type = BGP_UPDATE then MSGSIZE_UPDATE_MIN \<le> len
      else if type = BGP_KEEPALIVE then len = MSGSIZE_KEEPALIVE
      else MSGSIZE_RREFRESH_MIN \<le> len)"

definition msg_type_known :: "u8 \<Rightarrow> bool" where
  "msg_type_known type = (type \<in> {BGP_OPEN, BGP_NOTIFICATION, BGP_UPDATE, BGP_KEEPALIVE, BGP_RREFRESH})"

text \<open>The result is the length of the message, or None for NULL.\<close>

definition parse_header :: "session_env \<Rightarrow> bytes \<Rightarrow> peer \<Rightarrow> (peer \<times> nat option) res" where
  "parse_header e msg p =
     (case res_bind (get_bytes MSGSIZE_HEADER_MARKER msg) (\<lambda>(m, r). res_bind (get_n16 r) (\<lambda>(len, r).
             res_bind (get_n8 r) (\<lambda>(type, _). Inr (m, len, type)))) of
        Inl _ \<Rightarrow> Inr (p, None)
      | Inr (m, len16, type) \<Rightarrow>
          let len = unat len16; refused = (\<lambda>r. res_bind r (\<lambda>p. Inr (p, None)));
              badlen = (\<lambda>p. refused (refuse e ERR_HEADER ERR_HDR_LEN (Some (be_word 2 len16)) p))
          in if m \<noteq> marker then refused (refuse e ERR_HEADER ERR_HDR_SYNC None p)
             else if len < MSGSIZE_HEADER \<or> len > (if cap_ext_msg (capa_ann p) \<noteq> 0 then MAX_EXT_PKTSIZE else MAX_PKTSIZE)
             then badlen p
             else if \<not> msg_type_known type then refused (refuse e ERR_HEADER ERR_HDR_TYPE (Some [type]) p)
             else if \<not> header_len_ok type len then badlen p
             else case ibuf_open (e_ca e) len of Inl _ \<Rightarrow> Inr (p, None) | Inr _ \<Rightarrow> Inr (p, Some len))"

section \<open>Capabilities of the peer\<close>

definition no_gr :: "capabilities \<Rightarrow> capabilities" where
  "no_gr c = c\<lparr>gr_timeout := 0, gr_flags := (\<lambda>_. 0), gr_restart := 0, gr_notification := 0\<rparr>"

definition no_add_path :: "capabilities \<Rightarrow> capabilities" where
  "no_add_path c = c\<lparr>cap_add_path := (\<lambda>_. 0)\<rparr>"

definition parse_mp :: "bytes \<Rightarrow> capabilities \<Rightarrow> capabilities" where
  "parse_mp body c = (case body of
     [a1, a2, _, safi] \<Rightarrow>
       (case afi2aid (word_be [a1, a2]) safi of
          None \<Rightarrow> c\<lparr>cap_mp := (cap_mp c)(AID_UNSPEC := 1)\<rparr>
        | Some i \<Rightarrow> c\<lparr>cap_mp := (cap_mp c)(i := 1)\<rparr>)
     | _ \<Rightarrow> c)"

fun parse_ext_nh :: "bytes \<Rightarrow> capabilities \<Rightarrow> capabilities" where
  "parse_ext_nh [] c = c"
| "parse_ext_nh (a1 # a2 # s1 # s2 # n1 # n2 # r) c =
     parse_ext_nh r
       (case afi2aid (word_be [a1, a2]) (ucast (word_be [s1, s2] :: u16)) of
          None \<Rightarrow> c
        | Some i \<Rightarrow> if (i = AID_INET \<or> i = AID_VPN_IPv4) \<and> word_be [n1, n2] = AFI_IPv6
                    then c\<lparr>cap_ext_nh := (cap_ext_nh c)(i := 1)\<rparr> else c)"
| "parse_ext_nh _ c = c\<lparr>cap_ext_nh := (\<lambda>_. 0)\<rparr>"

fun parse_gr_afi :: "u16 \<Rightarrow> bytes \<Rightarrow> capabilities \<Rightarrow> capabilities" where
  "parse_gr_afi gr_header [] c = c"
| "parse_gr_afi gr_header (a1 # a2 # safi # flags # r) c =
     parse_gr_afi gr_header r
       (case afi2aid (word_be [a1, a2]) safi of
          None \<Rightarrow> c
        | Some i \<Rightarrow> c\<lparr>gr_flags := (gr_flags c)(i := CAPA_GR_PRESENT
              OR (if flags AND CAPA_GR_F_FLAG \<noteq> 0 then CAPA_GR_FORWARD else 0)
              OR (if gr_header AND CAPA_GR_R_FLAG \<noteq> 0 then CAPA_GR_RESTART else 0)), gr_restart := 2\<rparr>)"
| "parse_gr_afi gr_header _ c = no_gr c"

definition parse_gr :: "bytes \<Rightarrow> capabilities \<Rightarrow> capabilities" where
  "parse_gr body c0 =
     (let c = no_gr c0 in
      if length body mod 4 \<noteq> 2 then c
      else case body of
        h1 # h2 # r \<Rightarrow>
          let gr_header = word_be [h1, h2] :: u16;
              c1 = (if gr_header AND CAPA_GR_N_FLAG \<noteq> 0 then c\<lparr>gr_notification := 1\<rparr> else c);
              c2 = c1\<lparr>gr_timeout := gr_header AND CAPA_GR_TIMEMASK\<rparr>
          in if length body = 2 then c1\<lparr>gr_restart := 1\<rparr>
             else if gr_timeout c2 = 0 then no_gr c2
             else parse_gr_afi gr_header r c2
      | _ \<Rightarrow> no_gr c)"

fun parse_add_path :: "bytes \<Rightarrow> capabilities \<Rightarrow> capabilities" where
  "parse_add_path [] c = c"
| "parse_add_path (a1 # a2 # safi # flags # r) c =
     (case afi2aid (word_be [a1, a2]) safi of
        None \<Rightarrow> no_add_path c
      | Some i \<Rightarrow> if flags AND NOT CAPA_AP_BIDIR \<noteq> 0 then no_add_path c
                  else parse_add_path r (c\<lparr>cap_add_path := (cap_add_path c)(i := flags)\<rparr>))"
| "parse_add_path _ c = no_add_path c"

definition peer_capa :: "(capabilities \<Rightarrow> capabilities) \<Rightarrow> peer \<Rightarrow> peer" where
  "peer_capa f p = p\<lparr>capa_peer := f (capa_peer p)\<rparr>"

text \<open>An OPEN message that is refused: the notification and the change to the idle state.\<close>

definition open_fails :: "session_env \<Rightarrow> u8 \<Rightarrow> bytes option \<Rightarrow> peer \<Rightarrow> peer res" where
  "open_fails e subcode data = do_all [session_notification e ERR_OPEN subcode data, change_state e STATE_IDLE EVNT_RCVD_OPEN]"

text \<open>One capability: the peer, the AS number and False for the return value -1.\<close>

definition parse_capa :: "session_env \<Rightarrow> u8 \<Rightarrow> bytes \<Rightarrow> peer \<Rightarrow> u32 \<Rightarrow> (peer \<times> u32 \<times> bool) res" where
  "parse_capa e code body p as =
     (let upc = (\<lambda>f. Inr (peer_capa f p, as, True)) in
      if code = CAPA_MP then upc (parse_mp body)
      else if code = CAPA_REFRESH then upc (\<lambda>c. c\<lparr>cap_refresh := 1\<rparr>)
      else if code = CAPA_EXT_NEXTHOP then upc (parse_ext_nh body)
      else if code = CAPA_EXT_MSG then upc (\<lambda>c. c\<lparr>cap_ext_msg := 1\<rparr>)
      else if code = CAPA_ROLE then
        (case body of
           [r] \<Rightarrow> if pc_ebgp (p_conf p)
                  then Inr ((peer_capa (\<lambda>c. c\<lparr>cap_policy := 1\<rparr>) p)\<lparr>p_remote_role := capa2role r\<rparr>, as, True)
                  else Inr (p, as, True)
         | _ \<Rightarrow> Inr (p, as, True))
      else if code = CAPA_RESTART then upc (parse_gr body)
      else if code = CAPA_AS4BYTE then
        (if length body \<noteq> 4 then upc (\<lambda>c. c\<lparr>cap_as4byte := 0\<rparr>)
         else let as' = word_be body :: u32 in
           if as' = 0 then res_bind (open_fails e ERR_OPEN_AS None p) (\<lambda>p. Inr (p, as', False))
           else Inr (peer_capa (\<lambda>c. c\<lparr>cap_as4byte := 1\<rparr>) p, as', True))
      else if code = CAPA_ADD_PATH then
        upc (if length body mod 4 \<noteq> 0 then no_add_path else parse_add_path body)
      else if code = CAPA_ENHANCED_RR then upc (\<lambda>c. c\<lparr>cap_enhanced_rr := 1\<rparr>)
      else Inr (p, as, True))"

function parse_capabilities :: "session_env \<Rightarrow> bytes \<Rightarrow> peer \<Rightarrow> u32 \<Rightarrow> (peer \<times> u32 \<times> bool) res" where
  "parse_capabilities e buf p as =
     (case buf of
        [] \<Rightarrow> Inr (p, as, True)
      | [_] \<Rightarrow> Inr (p, as, False)
      | code # len # r \<Rightarrow>
          if length r < unat len then Inr (p, as, False)
          else case parse_capa e code (take (unat len) r) p as of
                 Inl x \<Rightarrow> Inl x
               | Inr (p', as', ok) \<Rightarrow> if ok then parse_capabilities e (drop (unat len) r) p' as' else Inr (p', as', False))"
  by pat_completeness auto
termination
  by (relation "measure (\<lambda>(e, buf, p, as). length buf)") auto

declare parse_capabilities.simps [simp del]

section \<open>Negotiation\<close>

text \<open>The address families of the negotiation loops, and the flags of the first part.\<close>

definition aids :: "nat list" where
  "aids = [AID_MIN..<AID_MAX]"

definition both :: "u8 \<Rightarrow> u8 \<Rightarrow> u8" where
  "both a b = (if a \<noteq> 0 \<and> b \<noteq> 0 then 1 else 0)"

definition neg_flags :: "capabilities \<Rightarrow> capabilities \<Rightarrow> capabilities \<Rightarrow> capabilities" where
  "neg_flags ann pr c =
     c\<lparr>cap_refresh := both (cap_refresh ann) (cap_refresh pr),
       cap_enhanced_rr := both (cap_enhanced_rr ann) (cap_enhanced_rr pr),
       cap_as4byte := both (cap_as4byte ann) (cap_as4byte pr),
       cap_ext_msg := both (cap_ext_msg ann) (cap_ext_msg pr)\<rparr>"

definition hasmp :: "capabilities \<Rightarrow> capabilities \<Rightarrow> bool" where
  "hasmp ann pr = (cap_mp pr AID_UNSPEC \<noteq> 0 \<or> list_ex (\<lambda>i. cap_mp ann i \<noteq> 0 \<or> cap_mp pr i \<noteq> 0) aids)"

definition neg_mp :: "capabilities \<Rightarrow> capabilities \<Rightarrow> capabilities \<Rightarrow> capabilities" where
  "neg_mp ann pr c =
     (let c1 = fold (\<lambda>i c. c\<lparr>cap_mp := (cap_mp c)(i := both (cap_mp ann i) (cap_mp pr i))\<rparr>) aids c
      in if \<not> hasmp ann pr then c1\<lparr>cap_mp := (cap_mp c1)(AID_INET := 1)\<rparr> else c1)"

text \<open>One address family of the graceful restart loop.\<close>

definition neg_gr_aid :: "session_env \<Rightarrow> nat \<Rightarrow> peer \<Rightarrow> peer res" where
  "neg_gr_aid e i p0 =
     (let p = (if gr_flags (capa_peer p0) i AND CAPA_GR_PRESENT \<noteq> 0 \<and> cap_mp (capa_neg p0) i = 0
               then peer_capa (\<lambda>c. c\<lparr>gr_flags := (gr_flags c)(i := 0)\<rparr>) p0 else p0);
          negflags = gr_flags (capa_neg p) i; peerflags = gr_flags (capa_peer p) i;
          restarting = (negflags AND (CAPA_GR_RESTARTING OR CAPA_GR_FINISHED) = CAPA_GR_RESTARTING);
          keep = (gr_restart (capa_ann p) \<noteq> 0 \<and> peerflags AND CAPA_GR_FORWARD \<noteq> 0);
          newflags = (if restarting \<and> keep then peerflags OR CAPA_GR_RESTARTING else peerflags)
      in do_all
        [\<lambda>p. if restarting \<and> \<not> keep then session_graceful_flush e i p else Inr p,
         upd (\<lambda>p. if gr_restart (capa_ann p) \<noteq> 0
                  then p\<lparr>capa_neg := (capa_neg p)\<lparr>gr_flags := (gr_flags (capa_neg p))(i := newflags)\<rparr>\<rparr> else p)] p)"

definition neg_gr :: "capabilities \<Rightarrow> capabilities \<Rightarrow> capabilities \<Rightarrow> capabilities" where
  "neg_gr ann pr c =
     c\<lparr>gr_timeout := gr_timeout pr,
       gr_restart := (if gr_restart ann = 0 then 0 else gr_restart pr),
       gr_notification := both (gr_notification ann) (gr_notification pr)\<rparr>"

definition neg_ext_nh :: "capabilities \<Rightarrow> capabilities \<Rightarrow> capabilities \<Rightarrow> capabilities" where
  "neg_ext_nh ann pr c =
     fold (\<lambda>i c. if cap_mp c i = 0 then c
                  else if cap_ext_nh ann i \<noteq> 0 \<and> cap_ext_nh pr i \<noteq> 0 then c\<lparr>cap_ext_nh := (cap_ext_nh c)(i := 1)\<rparr> else c)
       aids (c\<lparr>cap_ext_nh := (\<lambda>_. 0)\<rparr>)"

definition or_add_path :: "nat \<Rightarrow> u8 \<Rightarrow> capabilities \<Rightarrow> capabilities" where
  "or_add_path i f c = c\<lparr>cap_add_path := (cap_add_path c)(i := cap_add_path c i OR f)\<rparr>"

definition neg_add_path :: "capabilities \<Rightarrow> capabilities \<Rightarrow> capabilities \<Rightarrow> capabilities" where
  "neg_add_path ann pr c =
     fold (\<lambda>i c. if cap_mp c i = 0 then c
        else let c1 = (if cap_add_path ann i AND CAPA_AP_RECV \<noteq> 0 \<and> cap_add_path pr i AND CAPA_AP_SEND \<noteq> 0
                       then or_add_path 0 CAPA_AP_RECV (or_add_path i CAPA_AP_RECV c) else c)
             in if cap_add_path ann i AND CAPA_AP_SEND \<noteq> 0 \<and> cap_add_path pr i AND CAPA_AP_RECV \<noteq> 0
                then or_add_path 0 CAPA_AP_SEND (or_add_path i CAPA_AP_SEND c1) else c1)
       aids (c\<lparr>cap_add_path := (\<lambda>_. 0)\<rparr>)"

definition role_ok :: "role \<Rightarrow> role \<Rightarrow> bool" where
  "role_ok ours theirs =
     (case ours of ROLE_PROVIDER \<Rightarrow> theirs = ROLE_CUSTOMER | ROLE_RS \<Rightarrow> theirs = ROLE_RS_CLIENT
      | ROLE_RS_CLIENT \<Rightarrow> theirs = ROLE_RS | ROLE_CUSTOMER \<Rightarrow> theirs = ROLE_PROVIDER
      | ROLE_PEER \<Rightarrow> theirs = ROLE_PEER | ROLE_NONE \<Rightarrow> False)"

text \<open>The first enforced capability that was not negotiated: its code, length and address family.\<close>

definition enforce_fails :: "capabilities \<Rightarrow> capabilities \<Rightarrow> (u8 \<times> u8 \<times> nat) option" where
  "enforce_fails ann neg =
     (if cap_refresh ann = 2 \<and> cap_refresh neg = 0 then Some (CAPA_REFRESH, 0, 0)
      else if cap_ext_msg ann = 2 \<and> cap_ext_msg neg = 0 then Some (CAPA_EXT_MSG, 0, 0)
      else if cap_enhanced_rr ann = 2 \<and> cap_enhanced_rr neg = 0 then Some (CAPA_ENHANCED_RR, 0, 0)
      else if cap_as4byte ann = 2 \<and> cap_as4byte neg = 0 then Some (CAPA_AS4BYTE, 4, 0)
      else if gr_restart ann = 2 \<and> gr_restart neg = 0 then Some (CAPA_RESTART, 2, 0)
      else case List.find (\<lambda>i. cap_mp ann i = 2 \<and> cap_mp neg i = 0) aids of
        Some i \<Rightarrow> Some (CAPA_MP, 4, i)
      | None \<Rightarrow> case List.find (\<lambda>i. cap_mp neg i \<noteq> 0 \<and>
              (cap_add_path ann i AND CAPA_AP_RECV_ENFORCE \<noteq> 0 \<and> cap_add_path neg i AND CAPA_AP_RECV = 0 \<or>
               cap_add_path ann i AND CAPA_AP_SEND_ENFORCE \<noteq> 0 \<and> cap_add_path neg i AND CAPA_AP_SEND = 0)) aids of
        Some i \<Rightarrow> Some (CAPA_ADD_PATH, 4, i)
      | None \<Rightarrow> case List.find (\<lambda>i. cap_mp neg i \<noteq> 0 \<and> cap_ext_nh ann i = 2 \<and> cap_ext_nh neg i = 0) aids of
        Some i \<Rightarrow> Some (CAPA_EXT_NEXTHOP, 6, i)
      | None \<Rightarrow> None)"

text \<open>The data of the refusal; additions that fail are left out.\<close>

definition best_effort :: "(ibuf \<Rightarrow> ibuf res) list \<Rightarrow> ibuf \<Rightarrow> ibuf" where
  "best_effort = fold (\<lambda>f b. case f b of Inl _ \<Rightarrow> b | Inr b' \<Rightarrow> b')"

definition refused_capa_ops :: "session_env \<Rightarrow> u8 \<Rightarrow> u8 \<Rightarrow> nat \<Rightarrow> (ibuf \<Rightarrow> ibuf res) list" where
  "refused_capa_ops e code len i =
     capa_ops e code len @
     (if code = CAPA_MP then case mp_ops e i of None \<Rightarrow> [] | Some fs \<Rightarrow> fs
      else if code = CAPA_ADD_PATH then case afi_ops e i 0 of None \<Rightarrow> [] | Some fs \<Rightarrow> fs
      else if code = CAPA_EXT_NEXTHOP then case ext_nh_ops e i of None \<Rightarrow> [] | Some fs \<Rightarrow> fs
      else if len > 0 then [\<lambda>b. ibuf_add_zero (e_ca e) b (unat len)] else [])"

definition negotiate :: "session_env \<Rightarrow> peer \<Rightarrow> peer res" where
  "negotiate e = do_all
     ([upd (\<lambda>p. p\<lparr>capa_neg := neg_mp (capa_ann p) (capa_peer p) (neg_flags (capa_ann p) (capa_peer p) (capa_neg p))\<rparr>)] @
      map (neg_gr_aid e) aids @
      [upd (\<lambda>p. p\<lparr>capa_neg := neg_add_path (capa_ann p) (capa_peer p)
         (neg_ext_nh (capa_ann p) (capa_peer p) (neg_gr (capa_ann p) (capa_peer p) (capa_neg p)))\<rparr>)])"

definition open_policy :: "peer \<Rightarrow> bool" where
  "open_policy p = (cap_policy (capa_ann p) \<noteq> 0 \<and> cap_policy (capa_peer p) \<noteq> 0 \<and> pc_ebgp (p_conf p))"

definition set_policy :: "peer \<Rightarrow> peer" where
  "set_policy p = (if open_policy p then p\<lparr>capa_neg := (capa_neg p)\<lparr>cap_policy := 1\<rparr>\<rparr> else p)"

text \<open>The return value -1, after a notification.\<close>

definition neg_fails :: "session_env \<Rightarrow> u8 \<Rightarrow> bytes option \<Rightarrow> peer \<Rightarrow> (peer \<times> bool) res" where
  "neg_fails e subcode data p = res_bind (session_notification e ERR_OPEN subcode data p) (\<lambda>p. Inr (p, False))"

definition enforce_capas :: "session_env \<Rightarrow> peer \<Rightarrow> (peer \<times> bool) res" where
  "enforce_capas e p = (case enforce_fails (capa_ann p) (capa_neg p) of
     None \<Rightarrow> Inr (p, True)
   | Some (code, len, i) \<Rightarrow>
       (case ibuf_dynamic (e_ca e) 2 256 of
          Inl _ \<Rightarrow> Inr (p, False)
        | Inr b \<Rightarrow> neg_fails e ERR_OPEN_CAPA (Some (ibuf_content (best_effort (refused_capa_ops e code len i) b))) p))"

definition capa_neg_calc :: "session_env \<Rightarrow> peer \<Rightarrow> (peer \<times> bool) res" where
  "capa_neg_calc e p0 =
     res_bind (negotiate e p0) (\<lambda>p.
       if open_policy p \<and> \<not> role_ok (pc_role (p_conf p)) (p_remote_role p) then neg_fails e ERR_OPEN_ROLE None p
       else if cap_policy (capa_ann p) = 2 \<and> cap_policy (capa_peer p) = 0 \<and> pc_ebgp (p_conf p)
       then neg_fails e ERR_OPEN_ROLE None (set_policy p)
       else enforce_capas e (set_policy p))"

section \<open>The OPEN message\<close>

text \<open>
  One optional parameter after the other; None in place of the AS number is the jump to bad_len,
  False that the session has been taken down.
\<close>

fun op_header :: "bool \<Rightarrow> bytes \<Rightarrow> (u8 \<times> nat \<times> bytes) option" where
  "op_header False (ty # len # r) = Some (ty, unat len, r)"
| "op_header True (ty # l1 # l2 # r) = Some (ty, unat (word_be [l1, l2] :: u16), r)"
| "op_header _ _ = None"

lemma op_header_shorter: "op_header x bs = Some (ty, n, r) \<Longrightarrow> length r < length bs"
  by (induction x bs rule: op_header.induct) auto

function parse_params :: "session_env \<Rightarrow> bool \<Rightarrow> bytes \<Rightarrow> peer \<Rightarrow> u32 \<Rightarrow> (peer \<times> u32 option \<times> bool) res" where
  "parse_params e ext params p as =
     (if params = [] then Inr (p, Some as, True)
      else case op_header ext params of
        None \<Rightarrow> Inr (p, None, True)
      | Some (op_type, op_len, r) \<Rightarrow>
          if length r < op_len then Inr (p, None, True)
          else if op_type = OPT_PARAM_CAPABILITIES then
            (case parse_capabilities e (take op_len r) p as of
               Inl x \<Rightarrow> Inl x
             | Inr (p', as', ok) \<Rightarrow>
                 if ok then parse_params e ext (drop op_len r) p' as'
                 else res_bind (open_fails e 0 None p') (\<lambda>p. Inr (p, Some as', False)))
          else res_bind (open_fails e ERR_OPEN_OPT None p) (\<lambda>p. Inr (p, Some as, False)))"
  by pat_completeness auto
termination
  by (relation "measure (\<lambda>(e, ext, params, p, as). length params)") (auto dest: op_header_shorter)

declare parse_params.simps [simp del]

text \<open>The optional parameters with their length, and what of the message follows them.\<close>

definition params_of :: "u8 \<Rightarrow> bytes \<Rightarrow> (bool \<times> bytes \<times> bytes) option" where
  "params_of optparamlen msg =
     (case msg of
        [] \<Rightarrow> None
      | ext_type # r \<Rightarrow>
          if ext_type = OPT_PARAM_EXT_LEN then
            (case get_n16 r of
               Inl _ \<Rightarrow> None
             | Inr (ext_len, oparams) \<Rightarrow>
                 if length oparams < unat ext_len then None
                 else Some (True, take (unat ext_len) oparams, drop (unat ext_len) oparams))
          else if length msg < unat optparamlen then None
          else Some (False, take (unat optparamlen) msg, drop (unat optparamlen) msg))"

definition check_version :: "u8 \<Rightarrow> u8" where
  "check_version version = (if version > BGP_VERSION then version - BGP_VERSION else BGP_VERSION)"

text \<open>A cloned neighbor takes the AS number of its first connection.\<close>

definition adopt_as :: "u32 \<Rightarrow> peer \<Rightarrow> peer" where
  "adopt_as as p =
     (if p_template p \<and> pc_remote_as (p_conf p) = 0 \<and> as \<noteq> AS_TRANS then
        let eb = (as \<noteq> pc_local_as (p_conf p)); c = (p_conf p)\<lparr>pc_remote_as := as, pc_ebgp := eb\<rparr>
        in p\<lparr>p_conf := (if \<not> eb then c\<lparr>pc_enforce_as_off := True\<rparr> else c)\<rparr>
      else p)"

definition open_checks :: "session_env \<Rightarrow> u32 \<Rightarrow> peer \<Rightarrow> (peer \<times> bool) res" where
  "open_checks e as p0 =
     (let p = adopt_as as p0; fails = (\<lambda>r. res_bind r (\<lambda>p. Inr (p, False))) in
      if pc_remote_as (p_conf p) \<noteq> as then fails (open_fails e ERR_OPEN_AS None p)
      else if \<not> pc_ebgp (p_conf p) \<and> p_remote_bgpid p = p_local_bgpid p then fails (open_fails e ERR_OPEN_BGPID None p)
      else res_bind (capa_neg_calc e p) (\<lambda>(p, ok).
        if ok then Inr (p, True) else fails (change_state e STATE_IDLE EVNT_RCVD_OPEN p)))"

text \<open>The return value -1 of parse_open() after a refusal; the jump to bad_len is one with no subcode.\<close>

definition open_refused :: "session_env \<Rightarrow> u8 \<Rightarrow> bytes option \<Rightarrow> peer \<Rightarrow> (peer \<times> bool) res" where
  "open_refused e subcode data p = res_bind (open_fails e subcode data p) (\<lambda>p. Inr (p, False))"

text \<open>The rest of the message after its fixed fields.\<close>

definition open_params :: "session_env \<Rightarrow> u8 \<Rightarrow> bytes \<Rightarrow> u32 \<Rightarrow> peer \<Rightarrow> (peer \<times> bool) res" where
  "open_params e optparamlen r short_as p =
     (if optparamlen = 0 then (if r \<noteq> [] then open_refused e 0 None p else open_checks e short_as p)
      else case params_of optparamlen r of
        None \<Rightarrow> open_refused e 0 None p
      | Some (ext, params, rest) \<Rightarrow>
          res_bind (parse_params e ext params p short_as) (\<lambda>(p, as, ok).
            if \<not> ok then Inr (p, False)
            else case as of
              None \<Rightarrow> open_refused e 0 None p
            | Some as' \<Rightarrow> if rest \<noteq> [] then open_refused e 0 None p else open_checks e as' p))"

definition parse_open :: "session_env \<Rightarrow> bytes \<Rightarrow> peer \<Rightarrow> (peer \<times> bool) res" where
  "parse_open e msg p =
     (case res_bind (get_n8 msg) (\<lambda>(version, r). res_bind (get_n16 r) (\<lambda>(short_as, r).
             res_bind (get_n16 r) (\<lambda>(holdtime, r). res_bind (get_n32 r) (\<lambda>(bgpid, r).
             res_bind (get_n8 r) (\<lambda>(optparamlen, r). Inr (version, short_as, holdtime, bgpid, optparamlen, r)))))) of
        Inl _ \<Rightarrow> open_refused e 0 None p
      | Inr (version, short_as, holdtime, bgpid, optparamlen, r) \<Rightarrow>
          let p1 = p\<lparr>p_short_as := short_as\<rparr>;
              p2 = p1\<lparr>p_holdtime := (if holdtime < pc_holdtime (p_conf p) then holdtime else pc_holdtime (p_conf p))\<rparr>
          in if version \<noteq> BGP_VERSION then open_refused e ERR_OPEN_VERSION (Some [check_version version]) p
             else if short_as = 0 then open_refused e ERR_OPEN_AS None p1
             else if holdtime \<noteq> 0 \<and> holdtime < pc_min_holdtime (p_conf p) then open_refused e ERR_OPEN_HOLDTIME None p1
             else if bgpid = 0 then open_refused e ERR_OPEN_BGPID None p2
             else open_params e optparamlen r (ucast short_as) (p2\<lparr>p_remote_bgpid := bgpid\<rparr>))"

section \<open>NOTIFICATION and ROUTE-REFRESH\<close>

definition shutdown_reason :: "bytes \<Rightarrow> bytes" where
  "shutdown_reason msg = (case msg of [] \<Rightarrow> [] | n # r \<Rightarrow> if n \<noteq> 0 \<and> unat n \<le> length r then take (unat n) r else [])"

definition parse_notification :: "session_env \<Rightarrow> bytes \<Rightarrow> peer \<Rightarrow> peer res" where
  "parse_notification e msg p =
     (let record_it = (\<lambda>errcode subcode r event.
            do_all [upd (\<lambda>p. p\<lparr>p_stats := (p_stats p)\<lparr>last_rcvd_errcode := errcode, last_rcvd_suberr := subcode,
                        last_reason := (if errcode = ERR_CEASE \<and> (subcode = ERR_CEASE_ADMIN_DOWN \<or> subcode = ERR_CEASE_ADMIN_RESET)
                                        then shutdown_reason r else [])\<rparr>\<rparr>),
                    change_state e STATE_IDLE event] p);
          bad = change_state e STATE_IDLE EVNT_RCVD_NOTIFICATION p
      in case msg of
        errcode # subcode # r \<Rightarrow>
          if gr_notification (capa_neg p) \<noteq> 0 then
            (if errcode = ERR_CEASE \<and> subcode = ERR_CEASE_HARD_RESET then
               (case r of errcode' # subcode' # r' \<Rightarrow> record_it errcode' subcode' r' EVNT_RCVD_NOTIFICATION | _ \<Rightarrow> bad)
             else record_it errcode subcode r EVNT_RCVD_GRACE_NOTIFICATION)
          else record_it errcode subcode r EVNT_RCVD_NOTIFICATION
      | _ \<Rightarrow> bad)"

definition handle_rrefresh :: "session_env \<Rightarrow> u16 \<Rightarrow> u8 \<Rightarrow> u8 \<Rightarrow> peer \<Rightarrow> peer res" where
  "handle_rrefresh e afi safi subtype p = (case afi2aid afi safi of
     None \<Rightarrow> Inr p
   | Some i \<Rightarrow> if cap_refresh (capa_neg p) = 0 \<and> cap_enhanced_rr (capa_neg p) = 0 then Inr p
               else imsg_rde e (RdeRefresh i subtype) p)"

text \<open>The argument is the whole message, its header included: a refusal quotes all of it.\<close>

definition parse_rrefresh :: "session_env \<Rightarrow> bytes \<Rightarrow> peer \<Rightarrow> peer res" where
  "parse_rrefresh e whole p = (let msg = drop MSGSIZE_HEADER whole in case msg of
     a1 # a2 # subtype # safi # _ \<Rightarrow>
       let afi = word_be [a1, a2] :: u16; datalen = of_nat (length msg + MSGSIZE_HEADER) :: u16 in
       if cap_enhanced_rr (capa_neg p) = 0 then
         do_all [stat (\<lambda>s. s\<lparr>refresh_rcvd_req := refresh_rcvd_req s + 1\<rparr>), handle_rrefresh e afi safi ROUTE_REFRESH_REQUEST] p
       else if subtype = ROUTE_REFRESH_REQUEST then
         (if unat datalen \<noteq> MSGSIZE_RREFRESH then refuse e ERR_HEADER ERR_HDR_LEN (Some (be_word 2 datalen)) p
          else do_all [stat (\<lambda>s. s\<lparr>refresh_rcvd_req := refresh_rcvd_req s + 1\<rparr>), handle_rrefresh e afi safi subtype] p)
       else if subtype = ROUTE_REFRESH_BEGIN_RR \<or> subtype = ROUTE_REFRESH_END_RR then
         (if unat datalen \<noteq> MSGSIZE_RREFRESH then refuse e ERR_RREFRESH ERR_RR_INV_LEN (Some whole) p
          else do_all [stat (\<lambda>s. if subtype = ROUTE_REFRESH_BEGIN_RR then s\<lparr>refresh_rcvd_borr := refresh_rcvd_borr s + 1\<rparr>
                                 else s\<lparr>refresh_rcvd_eorr := refresh_rcvd_eorr s + 1\<rparr>),
                       handle_rrefresh e afi safi subtype] p)
       else Inr p
   | _ \<Rightarrow> Inl Fatal)"

end
