(* ===== verification/Session_Fsm.thy ===== *)
theory Session_Fsm
  imports Session_Parse
begin

text \<open>
  The state machine of a BGP session, bgp_fsm() of usr.sbin/bgpd/session_bgp.c, and what drives it in
  session.c: connecting and accepting, poll events, received messages, timers, and the requests of
  the operator and of the route decision engine.
\<close>

section \<open>Connecting\<close>

text \<open>The events EVNT_CON_OPEN and EVNT_CON_OPENFAIL, which STATE_CONNECT and STATE_ACTIVE share.\<close>

definition con_open :: "session_env \<Rightarrow> peer \<Rightarrow> peer res" where
  "con_open e = do_all
     [session_open e, tstop Timer_ConnectRetry, upd (\<lambda>p. p\<lparr>p_holdtime := INTERVAL_HOLD_INITIAL\<rparr>),
      start_timer_holdtime e, change_state e STATE_OPENSENT EVNT_CON_OPEN]"

definition con_openfail :: "session_env \<Rightarrow> peer \<Rightarrow> peer res" where
  "con_openfail e = do_all
     [tset e Timer_ConnectRetry (\<lambda>p. ucast (pc_connectretry (p_conf p))), session_close, change_state e STATE_ACTIVE EVNT_CON_OPENFAIL]"

text \<open>
  session_connect() is only called in STATE_CONNECT; the events it raises there are the two above.
  The environment tells how far the calls from socket() to connect() get.
\<close>

definition session_connect :: "session_env \<Rightarrow> peer \<Rightarrow> peer res" where
  "session_connect e p =
     (if p_fd p \<noteq> -1 then Inr p
      else case e_connect e of
        NoSocket \<Rightarrow> con_openfail e p
      | ConnectFails f \<Rightarrow> con_openfail e (p\<lparr>p_fd := f\<rparr>)
      | ConnectInProgress f \<Rightarrow> Inr (p\<lparr>p_fd := f\<rparr>)
      | ConnectDone f \<Rightarrow> con_open e (p\<lparr>p_fd := f\<rparr>))"

section \<open>The state machine\<close>

definition idle_start :: "session_env \<Rightarrow> peer \<Rightarrow> peer res" where
  "idle_start e p =
     (if \<not> depend_ok p then tstop Timer_ConnectRetry p
      else if pc_passive (p_conf p) \<or> pc_template (p_conf p) then
        do_all [change_state e STATE_ACTIVE EVNT_START, tstop Timer_ConnectRetry] p
      else if prev_state p = STATE_NONE \<or> IdleHoldTime p = INTERVAL_IDLE_HOLD_INITIAL then
        (let holdtime = (if prev_state p = STATE_NONE then SESSION_CLEAR_DELAY else INTERVAL_IDLE_HOLD_INITIAL) in
         do_all [change_state e STATE_ACTIVE EVNT_START, tset e Timer_ConnectRetry (\<lambda>_. holdtime)] p)
      else do_all [change_state e STATE_CONNECT EVNT_START,
                   tset e Timer_ConnectRetry (\<lambda>p. ucast (pc_connectretry (p_conf p))), session_connect e] p)"

definition fsm_idle :: "session_env \<Rightarrow> session_events \<Rightarrow> peer \<Rightarrow> peer res" where
  "fsm_idle e event = (case event of
     EVNT_START \<Rightarrow> do_all [tstop Timer_Hold, tstop Timer_SendHold, tstop Timer_Keepalive, tstop Timer_IdleHold, idle_start e]
   | EVNT_STOP \<Rightarrow> tstop Timer_IdleHold
   | _ \<Rightarrow> Inr)"

definition fsm_connect :: "session_env \<Rightarrow> session_events \<Rightarrow> peer \<Rightarrow> peer res" where
  "fsm_connect e event = (case event of
     EVNT_START \<Rightarrow> Inr
   | EVNT_CON_OPEN \<Rightarrow> con_open e
   | EVNT_CON_OPENFAIL \<Rightarrow> con_openfail e
   | EVNT_TIMER_CONNRETRY \<Rightarrow>
       do_all [tset e Timer_ConnectRetry (\<lambda>p. ucast (pc_connectretry (p_conf p))), session_connect e]
   | _ \<Rightarrow> change_state e STATE_IDLE event)"

definition reconnect :: "session_env \<Rightarrow> session_events \<Rightarrow> peer \<Rightarrow> peer res" where
  "reconnect e event = do_all
     [tset e Timer_ConnectRetry (\<lambda>p. ucast (p_holdtime p)), change_state e STATE_CONNECT event, session_connect e]"

definition fsm_active :: "session_env \<Rightarrow> session_events \<Rightarrow> peer \<Rightarrow> peer res" where
  "fsm_active e event = (case event of
     EVNT_START \<Rightarrow> (\<lambda>p. if \<not> depend_ok p \<or> pc_template (p_conf p) then Inr p else reconnect e event p)
   | EVNT_CON_OPEN \<Rightarrow> con_open e
   | EVNT_CON_OPENFAIL \<Rightarrow> con_openfail e
   | EVNT_TIMER_CONNRETRY \<Rightarrow> reconnect e event
   | _ \<Rightarrow> change_state e STATE_IDLE event)"

text \<open>A notification and the change to the idle state, the reaction to most errors of an open session.\<close>

definition notify_idle :: "session_env \<Rightarrow> u8 \<Rightarrow> u8 \<Rightarrow> session_events \<Rightarrow> peer \<Rightarrow> peer res" where
  "notify_idle e errcode subcode event =
     do_all [session_notification e errcode subcode None, change_state e STATE_IDLE event]"

definition fsm_opensent :: "session_env \<Rightarrow> session_events \<Rightarrow> bytes \<Rightarrow> peer \<Rightarrow> peer res" where
  "fsm_opensent e event msg = (case event of
     EVNT_START \<Rightarrow> Inr
   | EVNT_STOP \<Rightarrow> change_state e STATE_IDLE event
   | EVNT_CON_CLOSED \<Rightarrow>
       do_all [session_close, tset e Timer_ConnectRetry (\<lambda>p. ucast (pc_connectretry (p_conf p))), change_state e STATE_ACTIVE event]
   | EVNT_CON_FATAL \<Rightarrow> change_state e STATE_IDLE event
   | EVNT_TIMER_HOLDTIME \<Rightarrow> notify_idle e ERR_HOLDTIMEREXPIRED 0 event
   | EVNT_TIMER_SENDHOLD \<Rightarrow> notify_idle e ERR_SENDHOLDTIMEREXPIRED 0 event
   | EVNT_RCVD_OPEN \<Rightarrow> (\<lambda>p. res_bind (parse_open e msg p) (\<lambda>(p, ok).
       if ok then do_all [session_keepalive e, change_state e STATE_OPENCONFIRM event] p else Inr p))
   | EVNT_RCVD_NOTIFICATION \<Rightarrow> parse_notification e msg
   | _ \<Rightarrow> notify_idle e ERR_FSM ERR_FSM_UNEX_OPENSENT event)"

definition fsm_openconfirm :: "session_env \<Rightarrow> session_events \<Rightarrow> bytes \<Rightarrow> peer \<Rightarrow> peer res" where
  "fsm_openconfirm e event msg = (case event of
     EVNT_START \<Rightarrow> Inr
   | EVNT_STOP \<Rightarrow> change_state e STATE_IDLE event
   | EVNT_CON_CLOSED \<Rightarrow> change_state e STATE_IDLE event
   | EVNT_CON_FATAL \<Rightarrow> change_state e STATE_IDLE event
   | EVNT_TIMER_HOLDTIME \<Rightarrow> notify_idle e ERR_HOLDTIMEREXPIRED 0 event
   | EVNT_TIMER_SENDHOLD \<Rightarrow> notify_idle e ERR_SENDHOLDTIMEREXPIRED 0 event
   | EVNT_TIMER_KEEPALIVE \<Rightarrow> session_keepalive e
   | EVNT_RCVD_KEEPALIVE \<Rightarrow> do_all [start_timer_holdtime e, change_state e STATE_ESTABLISHED event]
   | EVNT_RCVD_NOTIFICATION \<Rightarrow> parse_notification e msg
   | _ \<Rightarrow> notify_idle e ERR_FSM ERR_FSM_UNEX_OPENCONFIRM event)"

definition parse_update :: "session_env \<Rightarrow> bytes \<Rightarrow> peer \<Rightarrow> peer res" where
  "parse_update e msg = imsg_rde e (RdeUpdate msg)"

definition fsm_established :: "session_env \<Rightarrow> session_events \<Rightarrow> bytes \<Rightarrow> peer \<Rightarrow> peer res" where
  "fsm_established e event msg = (case event of
     EVNT_START \<Rightarrow> Inr
   | EVNT_STOP \<Rightarrow> change_state e STATE_IDLE event
   | EVNT_CON_CLOSED \<Rightarrow> change_state e STATE_IDLE event
   | EVNT_CON_FATAL \<Rightarrow> change_state e STATE_IDLE event
   | EVNT_TIMER_HOLDTIME \<Rightarrow> notify_idle e ERR_HOLDTIMEREXPIRED 0 event
   | EVNT_TIMER_SENDHOLD \<Rightarrow> notify_idle e ERR_SENDHOLDTIMEREXPIRED 0 event
   | EVNT_TIMER_KEEPALIVE \<Rightarrow> session_keepalive e
   | EVNT_RCVD_KEEPALIVE \<Rightarrow> start_timer_holdtime e
   | EVNT_RCVD_UPDATE \<Rightarrow> do_all [start_timer_holdtime e, parse_update e msg]
   | EVNT_RCVD_NOTIFICATION \<Rightarrow> parse_notification e msg
   | _ \<Rightarrow> notify_idle e ERR_FSM ERR_FSM_UNEX_ESTABLISHED event)"

definition bgp_fsm :: "session_env \<Rightarrow> session_events \<Rightarrow> bytes \<Rightarrow> peer \<Rightarrow> peer res" where
  "bgp_fsm e event msg p = (case state p of
     STATE_NONE \<Rightarrow> Inr p
   | STATE_IDLE \<Rightarrow> fsm_idle e event p
   | STATE_CONNECT \<Rightarrow> fsm_connect e event p
   | STATE_ACTIVE \<Rightarrow> fsm_active e event p
   | STATE_OPENSENT \<Rightarrow> fsm_opensent e event msg p
   | STATE_OPENCONFIRM \<Rightarrow> fsm_openconfirm e event msg p
   | STATE_ESTABLISHED \<Rightarrow> fsm_established e event msg p)"

section \<open>Received messages\<close>

definition process_msg :: "session_env \<Rightarrow> bytes \<Rightarrow> peer \<Rightarrow> peer res" where
  "process_msg e whole =
     (let msgtype = whole ! (MSGSIZE_HEADER - 1); body = drop MSGSIZE_HEADER whole in
      if msgtype = BGP_OPEN then
        do_all [bgp_fsm e EVNT_RCVD_OPEN body, stat (\<lambda>s. s\<lparr>msg_rcvd_open := msg_rcvd_open s + 1\<rparr>)]
      else if msgtype = BGP_UPDATE then
        do_all [bgp_fsm e EVNT_RCVD_UPDATE body, stat (\<lambda>s. s\<lparr>msg_rcvd_update := msg_rcvd_update s + 1\<rparr>)]
      else if msgtype = BGP_NOTIFICATION then
        do_all [bgp_fsm e EVNT_RCVD_NOTIFICATION body, stat (\<lambda>s. s\<lparr>msg_rcvd_notification := msg_rcvd_notification s + 1\<rparr>)]
      else if msgtype = BGP_KEEPALIVE then
        do_all [bgp_fsm e EVNT_RCVD_KEEPALIVE body, stat (\<lambda>s. s\<lparr>msg_rcvd_keepalive := msg_rcvd_keepalive s + 1\<rparr>)]
      else if msgtype = BGP_RREFRESH then
        do_all [parse_rrefresh e whole, stat (\<lambda>s. s\<lparr>msg_rcvd_rrefresh := msg_rcvd_rrefresh s + 1\<rparr>)]
      else do_all [session_notification e ERR_HEADER ERR_HDR_TYPE (Some [msgtype]), bgp_fsm e EVNT_CON_FATAL []])"

text \<open>The loop of session_process_msg(); the argument counts the messages it may still process.\<close>

fun process_msgs :: "session_env \<Rightarrow> nat \<Rightarrow> peer \<Rightarrow> peer res" where
  "process_msgs e n p = (case rqueue p of
     [] \<Rightarrow> Inr p
   | whole # q \<Rightarrow>
       let p1 = p\<lparr>rqueue := q\<rparr> in
       if length whole < MSGSIZE_HEADER then bgp_fsm e EVNT_CON_FATAL [] p1
       else res_bind (process_msg e whole p1) (\<lambda>p2.
         case n of 0 \<Rightarrow> Inr (p2\<lparr>rpending := True\<rparr>) | Suc m \<Rightarrow> process_msgs e m p2))"

declare process_msgs.simps [simp del]

definition session_process_msg :: "session_env \<Rightarrow> peer \<Rightarrow> peer res" where
  "session_process_msg e p = process_msgs e MSG_PROCESS_LIMIT (p\<lparr>rpending := False\<rparr>)"


section \<open>Reading and writing\<close>

text \<open>
  ibuf_read_process() with parse_header() as its callback: the bytes that have arrived are cut into
  messages. The result False is the return value -1; parse_header() may have taken the session down.
\<close>

definition take_msg :: "bytes \<Rightarrow> nat \<Rightarrow> bytes \<Rightarrow> bytes list \<Rightarrow> bytes \<times> (nat \<times> bytes) option \<times> bytes list" where
  "take_msg buf len got q =
     (let sz = min (len - length got) (length buf); got' = got @ take sz buf
      in (drop sz buf, if len - length got' = 0 then (None, q @ [got']) else (Some (len, got'), q)))"

lemma take_msg_shorter: "take_msg buf len got q = (buf', rp, q') \<Longrightarrow> buf \<noteq> [] \<Longrightarrow> length got < len \<Longrightarrow> length buf' < length buf"
  by (auto simp: take_msg_def Let_def)

lemma parse_header_len: "parse_header e msg p = Inr (p', Some len) \<Longrightarrow> MSGSIZE_HEADER \<le> len"
  by (auto simp: parse_header_def Let_def res_bind_Inr_iff split: sum.splits prod.splits if_splits)

function read_loop :: "session_env \<Rightarrow> bytes \<Rightarrow> (nat \<times> bytes) option \<Rightarrow> bytes list \<Rightarrow> peer \<Rightarrow> (peer \<times> bool) res" where
  "read_loop e buf rp q p =
     (case rp of
        Some (len, got) \<Rightarrow>
          (case take_msg buf len got q of (buf', rp', q') \<Rightarrow>
             if buf' = [] then Inr (p\<lparr>rbuf := [], rpmsg := rp', rqueue := q'\<rparr>, True)
             else read_loop e buf' rp' q' p)
      | None \<Rightarrow>
          if length buf < MSGSIZE_HEADER then Inr (p\<lparr>rbuf := buf, rpmsg := None, rqueue := q\<rparr>, True)
          else (case parse_header e (take MSGSIZE_HEADER buf) (p\<lparr>rqueue := q\<rparr>) of
             Inl x \<Rightarrow> Inl x
           | Inr (p', None) \<Rightarrow> Inr (p', False)
           | Inr (p', Some len) \<Rightarrow>
               (case take_msg buf len [] q of (buf', rp', q') \<Rightarrow>
                  if buf' = [] then Inr (p'\<lparr>rbuf := [], rpmsg := rp', rqueue := q'\<rparr>, True)
                  else read_loop e buf' rp' q' p')))"
  by pat_completeness auto
termination
proof (relation "measure (\<lambda>(e, buf, rp, q, p). 2 * length buf + (if rp = None then 0 else 1))", goal_cases)
  case 1
  show ?case by simp
next
  case 2
  then show ?case by (auto simp: take_msg_def Let_def MSGSIZE_HEADER_def dest!: parse_header_len)
next
  case 3
  then show ?case by (auto simp: take_msg_def Let_def min_def split: if_splits)
qed

declare read_loop.simps [simp del]


text \<open>What readv() and writev() return: an error, nothing for now, the end, or bytes.\<close>

datatype read_result = ReadError | ReadAgain | ReadEof | ReadData bytes

datatype write_result = WriteError | WriteAgain | Written nat

definition ibuf_read :: "session_env \<Rightarrow> read_result \<Rightarrow> peer \<Rightarrow> (peer \<times> int) res" where
  "ibuf_read e r p = (case r of
     ReadError \<Rightarrow> Inr (p, -1)
   | ReadAgain \<Rightarrow> Inr (p, 1)
   | ReadEof \<Rightarrow> Inr (p, 0)
   | ReadData d \<Rightarrow> res_bind (read_loop e (rbuf p @ d) (rpmsg p) (rqueue p) p) (\<lambda>(p, ok). Inr (p, if ok then 1 else -1)))"

fun msgbuf_drain :: "nat \<Rightarrow> bytes list \<Rightarrow> bytes list" where
  "msgbuf_drain n [] = []"
| "msgbuf_drain n (b # bs) = (if n \<ge> length b then msgbuf_drain (n - length b) bs else drop n b # bs)"

section \<open>Poll events\<close>

record poll_env =
  rev_in :: bool
  rev_out :: bool
  rev_hup :: bool
  rev_err :: bool
  sock_error :: bool
  rd :: read_result
  wr :: write_result

definition dispatch_read :: "session_env \<Rightarrow> poll_env \<Rightarrow> peer \<Rightarrow> peer res" where
  "dispatch_read e w p =
     (if p_fd p \<noteq> -1 \<and> rev_in w then
        res_bind (ibuf_read e (rd w) p) (\<lambda>(p, r).
          if r = -1 then (if state p = STATE_IDLE then Inr p else bgp_fsm e EVNT_CON_FATAL [] p)
          else if r = 0 then bgp_fsm e EVNT_CON_CLOSED [] p
          else stat (\<lambda>s. s\<lparr>last_read := e_now e\<rparr>) p)
      else Inr p)"

definition session_dispatch_msg :: "session_env \<Rightarrow> poll_env \<Rightarrow> peer \<Rightarrow> peer res" where
  "session_dispatch_msg e w p =
     (if state p = STATE_CONNECT then
        (if rev_out w then
           (if rev_in w \<and> sock_error w then bgp_fsm e EVNT_CON_OPENFAIL [] p else bgp_fsm e EVNT_CON_OPEN [] p)
         else if rev_hup w then bgp_fsm e EVNT_CON_OPENFAIL [] p
         else if rev_err w then bgp_fsm e EVNT_CON_FATAL [] p
         else Inr p)
      else if rev_hup w then bgp_fsm e EVNT_CON_CLOSED [] p
      else if rev_err w then bgp_fsm e EVNT_CON_FATAL [] p
      else if rev_out w \<and> wqueue p \<noteq> [] then
        (case wr w of
           WriteError \<Rightarrow> bgp_fsm e EVNT_CON_FATAL [] p
         | r \<Rightarrow> do_all
             [upd (\<lambda>p. p\<lparr>wqueue := (case r of Written n \<Rightarrow> msgbuf_drain n (wqueue p) | _ \<Rightarrow> wqueue p)\<rparr>),
              stat (\<lambda>s. s\<lparr>last_write := e_now e\<rparr>), start_timer_sendholdtime e, dispatch_read e w] p)
      else dispatch_read e w p)"

section \<open>Accepting a connection\<close>

text \<open>The part of session_accept() after the neighbor of the new connection has been found.\<close>

definition accept_open :: "session_env \<Rightarrow> int \<Rightarrow> peer \<Rightarrow> peer res" where
  "accept_open e connfd p =
     (if \<not> e_auth_ok e then emit (SockClose connfd) p
      else if \<not> e_setup_ok e then emit (SockClose connfd) (p\<lparr>p_fd := connfd\<rparr>)
      else bgp_fsm e EVNT_CON_OPEN [] (p\<lparr>p_fd := connfd\<rparr>))"

definition session_accept :: "session_env \<Rightarrow> int \<Rightarrow> peer \<Rightarrow> peer res" where
  "session_accept e connfd p =
     (if state p = STATE_CONNECT \<or> state p = STATE_ACTIVE then
        (if p_fd p \<noteq> -1 then
           (if state p = STATE_CONNECT then do_all [session_close, accept_open e connfd] p
            else emit (SockClose connfd) p)
         else accept_open e connfd p)
      else if state p = STATE_ESTABLISHED \<and> gr_restart (capa_neg p) = 2 then
        do_all [change_state e STATE_CONNECT EVNT_CON_CLOSED, accept_open e connfd] p
      else emit (SockClose connfd) p)"

section \<open>Timers\<close>

definition session_timer :: "session_env \<Rightarrow> peer \<Rightarrow> peer res" where
  "session_timer e p = (case timer_nextisdue (p_timers p) (e_now e) of
     None \<Rightarrow> Inr p
   | Some t \<Rightarrow> (case t_type t of
       Timer_Hold \<Rightarrow> bgp_fsm e EVNT_TIMER_HOLDTIME [] p
     | Timer_SendHold \<Rightarrow> bgp_fsm e EVNT_TIMER_SENDHOLD [] p
     | Timer_ConnectRetry \<Rightarrow> bgp_fsm e EVNT_TIMER_CONNRETRY [] p
     | Timer_Keepalive \<Rightarrow> bgp_fsm e EVNT_TIMER_KEEPALIVE [] p
     | Timer_IdleHold \<Rightarrow> bgp_fsm e EVNT_START [] p
     | Timer_IdleHoldReset \<Rightarrow> do_all [upd (\<lambda>p. p\<lparr>IdleHoldTime := 0\<rparr>), tstop Timer_IdleHoldReset] p
     | Timer_CarpUndemote \<Rightarrow> do_all [tstop Timer_CarpUndemote,
         \<lambda>p. if demoted p \<noteq> 0 \<and> state p = STATE_ESTABLISHED then session_demote (-1) p else Inr p] p
     | Timer_RestartTimeout \<Rightarrow> do_all [tstop Timer_RestartTimeout, session_graceful_stop e] p
     | Timer_SessionDown \<Rightarrow> do_all [tstop Timer_SessionDown, imsg_rde e RdeDelete,
         upd (\<lambda>p. p\<lparr>rdesession := False, p_delete := (p_delete p \<or> p_template p)\<rparr>)] p
     | _ \<Rightarrow> Inl Fatal))"

definition SESS_MSG_HIGH_MARK :: nat where "SESS_MSG_HIGH_MARK = 2000"
definition SESS_MSG_LOW_MARK :: nat where "SESS_MSG_LOW_MARK = 500"

definition session_throttle :: "session_env \<Rightarrow> peer \<Rightarrow> peer res" where
  "session_throttle e = do_all
     [\<lambda>p. if \<not> throttled p \<and> length (wqueue p) > SESS_MSG_HIGH_MARK
          then do_all [imsg_rde e RdeXoff, upd (\<lambda>p. p\<lparr>throttled := True\<rparr>)] p else Inr p,
      \<lambda>p. if throttled p \<and> length (wqueue p) < SESS_MSG_LOW_MARK
          then do_all [imsg_rde e RdeXon, upd (\<lambda>p. p\<lparr>throttled := False\<rparr>)] p else Inr p]"

section \<open>Starting and stopping\<close>

definition REASON_LEN :: nat where "REASON_LEN = 256"

definition stop_data :: "session_env \<Rightarrow> u8 \<Rightarrow> bytes option \<Rightarrow> bytes option" where
  "stop_data e subcode reason =
     (case ibuf_dynamic (e_ca e) 0 REASON_LEN of
        Inl _ \<Rightarrow> None
      | Inr b \<Rightarrow> (case reason of
          Some r \<Rightarrow>
            if (subcode = ERR_CEASE_ADMIN_DOWN \<or> subcode = ERR_CEASE_ADMIN_RESET) \<and> r \<noteq> [] then
              (case res_bind (ibuf_add_n8 (e_ca e) b (of_nat (length r))) (\<lambda>b. ibuf_add (e_ca e) b r) of
                 Inl _ \<Rightarrow> None | Inr b \<Rightarrow> Some (ibuf_content b))
            else Some (ibuf_content b)
        | None \<Rightarrow> Some (ibuf_content b)))"

definition session_stop :: "session_env \<Rightarrow> u8 \<Rightarrow> bytes option \<Rightarrow> peer \<Rightarrow> peer res" where
  "session_stop e subcode reason = do_all
     [upd (\<lambda>p. case reason of None \<Rightarrow> p | Some r \<Rightarrow> p\<lparr>p_conf := (p_conf p)\<lparr>pc_reason := take (REASON_LEN - 1) r\<rparr>\<rparr>),
      \<lambda>p. if session_open_state (state p) then session_notification e ERR_CEASE subcode (stop_data e subcode reason) p else Inr p,
      bgp_fsm e EVNT_STOP []]"

text \<open>The settings a neighbor takes from the configuration when it has none of its own.\<close>

record bgpd_config =
  c_holdtime :: u16
  c_min_holdtime :: u16
  c_connectretry :: u16
  c_bgpid :: u32

definition init_fields :: "bgpd_config \<Rightarrow> bool \<Rightarrow> peer \<Rightarrow> peer" where
  "init_fields c if_depend p =
     p\<lparr>p_timers := [], p_fd := -1, wqueue := [], rqueue := [], rbuf := [], rpmsg := None,
       depend_ok := (if if_depend then depend_ok p else True),
       p_conf := (p_conf p)
         \<lparr>pc_holdtime := (if pc_holdtime (p_conf p) = 0 then c_holdtime c else pc_holdtime (p_conf p)),
          pc_min_holdtime := (if pc_min_holdtime (p_conf p) = 0 then c_min_holdtime c else pc_min_holdtime (p_conf p)),
          pc_connectretry := (if pc_connectretry (p_conf p) = 0 then c_connectretry c else pc_connectretry (p_conf p))\<rparr>,
       p_local_bgpid := c_bgpid c\<rparr>"

definition init_peer :: "session_env \<Rightarrow> bgpd_config \<Rightarrow> bool \<Rightarrow> bool \<Rightarrow> peer \<Rightarrow> peer res" where
  "init_peer e c if_depend reinit = do_all
     [upd (init_fields c if_depend),
      change_state e STATE_IDLE EVNT_NONE,
      \<lambda>p. if \<not> pc_down (p_conf p) then bgp_fsm e EVNT_START [] p else Inr p,
      stat (\<lambda>s. s\<lparr>last_updown := e_now e\<rparr>),
      \<lambda>p. if \<not> reinit \<and> pc_demote_group (p_conf p) then session_demote 1 p else Inr p]"

section \<open>Requests\<close>

definition rde_update_err :: "session_env \<Rightarrow> u8 \<Rightarrow> u8 \<Rightarrow> bytes \<Rightarrow> peer \<Rightarrow> peer res" where
  "rde_update_err e errcode subcode data = do_all
     [session_notification e errcode subcode (Some data),
      \<lambda>p. if errcode = ERR_CEASE \<and> (subcode = ERR_CEASE_MAX_PREFIX \<or> subcode = ERR_CEASE_MAX_SENT_PREFIX) then
            (let t = (if subcode = ERR_CEASE_MAX_PREFIX then pc_max_prefix_restart (p_conf p) else pc_max_out_prefix_restart (p_conf p)) in
             do_all [bgp_fsm e EVNT_STOP [], \<lambda>p. if t \<noteq> 0 then tset e Timer_IdleHold (\<lambda>_. 60 * ucast t) p else Inr p] p)
          else bgp_fsm e EVNT_CON_FATAL [] p]"

definition rde_refresh :: "session_env \<Rightarrow> nat \<Rightarrow> u8 \<Rightarrow> peer \<Rightarrow> peer res" where
  "rde_refresh e i subtype p = (if i < AID_MIN \<or> i \<ge> AID_MAX then Inl Fatal else session_rrefresh e i subtype p)"

definition rde_restarted :: "session_env \<Rightarrow> nat \<Rightarrow> peer \<Rightarrow> peer res" where
  "rde_restarted e i p =
     (if i < AID_MIN \<or> i \<ge> AID_MAX then Inl Fatal
      else if gr_flags (capa_neg p) i AND (CAPA_GR_RESTARTING OR CAPA_GR_FINISHED) = CAPA_GR_RESTARTING then
        do_all [imsg_rde e (RdeRestarted i),
          upd (\<lambda>p. p\<lparr>capa_neg := (capa_neg p)\<lparr>gr_flags := (gr_flags (capa_neg p))(i := gr_flags (capa_neg p) i OR CAPA_GR_FINISHED)\<rparr>\<rparr>)] p
      else Inr p)"

definition dependon :: "session_env \<Rightarrow> bool \<Rightarrow> peer \<Rightarrow> peer res" where
  "dependon e ok p =
     (if ok \<and> \<not> depend_ok p then bgp_fsm e EVNT_START [] (p\<lparr>depend_ok := ok\<rparr>)
      else if \<not> ok \<and> depend_ok p then session_stop e ERR_CEASE_OTHER_CHANGE None (p\<lparr>depend_ok := ok\<rparr>)
      else Inr p)"

definition neighbor_up :: "session_env \<Rightarrow> peer \<Rightarrow> peer res" where
  "neighbor_up e = do_all [bgp_fsm e EVNT_START [],
     upd (\<lambda>p. p\<lparr>p_conf := (p_conf p)\<lparr>pc_down := False, pc_reason := []\<rparr>, IdleHoldTime := 0\<rparr>)]"

definition neighbor_down :: "session_env \<Rightarrow> bytes \<Rightarrow> peer \<Rightarrow> peer res" where
  "neighbor_down e reason = do_all [upd (\<lambda>p. p\<lparr>p_conf := (p_conf p)\<lparr>pc_down := True\<rparr>\<rparr>),
     session_stop e ERR_CEASE_ADMIN_DOWN (Some reason)]"

definition neighbor_clear :: "session_env \<Rightarrow> bytes \<Rightarrow> peer \<Rightarrow> peer res" where
  "neighbor_clear e reason = do_all
     [upd (\<lambda>p. p\<lparr>IdleHoldTime := 0\<rparr>),
      \<lambda>p. if \<not> pc_down (p_conf p) then
            do_all [session_stop e ERR_CEASE_ADMIN_RESET (Some reason), tset e Timer_IdleHold (\<lambda>_. SESSION_CLEAR_DELAY)] p
          else session_stop e ERR_CEASE_ADMIN_DOWN (Some reason) p]"

definition neighbor_destroy :: "peer \<Rightarrow> peer res" where
  "neighbor_destroy p = (if p_template p \<and> state p = STATE_IDLE then Inr (p\<lparr>p_delete := True\<rparr>) else Inr p)"


section \<open>What can happen to a session\<close>

text \<open>One pass of the main loop is a sequence of these steps; a step that ends the process has no successor.\<close>

inductive se_step :: "session_env \<Rightarrow> peer \<Rightarrow> peer \<Rightarrow> bool" for e where
  timer: "session_timer e p = Inr p' \<Longrightarrow> se_step e p p'"
| throttle: "session_throttle e p = Inr p' \<Longrightarrow> se_step e p p'"
| poll: "session_dispatch_msg e w p = Inr p' \<Longrightarrow> se_step e p p'"
| process: "session_process_msg e p = Inr p' \<Longrightarrow> se_step e p p'"
| accept: "connfd \<noteq> -1 \<Longrightarrow> session_accept e connfd p = Inr p' \<Longrightarrow> se_step e p p'"
| update: "session_update e data p = Inr p' \<Longrightarrow> se_step e p p'"
| update_err: "rde_update_err e errcode subcode data p = Inr p' \<Longrightarrow> se_step e p p'"
| refresh: "rde_refresh e i subtype p = Inr p' \<Longrightarrow> se_step e p p'"
| restarted: "rde_restarted e i p = Inr p' \<Longrightarrow> se_step e p p'"
| depend: "dependon e ok p = Inr p' \<Longrightarrow> se_step e p p'"
| ctl_up: "neighbor_up e p = Inr p' \<Longrightarrow> se_step e p p'"
| ctl_down: "neighbor_down e reason p = Inr p' \<Longrightarrow> se_step e p p'"
| ctl_clear: "neighbor_clear e reason p = Inr p' \<Longrightarrow> se_step e p p'"
| ctl_refresh: "session_neighbor_rrefresh e p = Inr (p', r) \<Longrightarrow> se_step e p p'"
| ctl_destroy: "neighbor_destroy p = Inr p' \<Longrightarrow> se_step e p p'"

definition fresh_peer :: "peer \<Rightarrow> bool" where
  "fresh_peer p = (state p = STATE_NONE \<and> outs p = [] \<and> \<not> rdesession p)"

inductive session_reach :: "(session_env \<Rightarrow> bool) \<Rightarrow> peer \<Rightarrow> bool" for G where
  init: "fresh_peer p \<Longrightarrow> G e \<Longrightarrow> init_peer e c dep reinit p = Inr p' \<Longrightarrow> session_reach G p'"
| step: "session_reach G p \<Longrightarrow> G e \<Longrightarrow> se_step e p p' \<Longrightarrow> session_reach G p'"

end
