(* ===== verification/Session_Trace.thy ===== *)
theory Session_Trace
  imports Session_Fsm
begin

text \<open>
  What a session tells the route decision engine. Every operation of the session engine is followed
  through as a relation between the peer before and after it: a quiet step sends nothing that the
  decision engine may only get at certain times, a calm step moreover leaves the session as it is.
  Both relations are reflexive and transitive, so sequences of steps are covered by one locale. The
  property at the end is that updates reach the decision engine only while the session is up there.
\<close>

section \<open>Sequences of steps\<close>

text \<open>The relation R holds between the state before and after f whenever f returns.\<close>

definition keeps :: "('s \<Rightarrow> 's \<Rightarrow> bool) \<Rightarrow> ('s \<Rightarrow> 's res) \<Rightarrow> bool" where
  "keeps R f = (\<forall>s s'. f s = Inr s' \<longrightarrow> R s s')"

lemma keepsD: "keeps R f \<Longrightarrow> f s = Inr s' \<Longrightarrow> R s s'"
  by (simp add: keeps_def)

locale step_rel =
  fixes R :: "'s \<Rightarrow> 's \<Rightarrow> bool"
  assumes refl: "R s s"
    and trans: "R s t \<Longrightarrow> R t u \<Longrightarrow> R s u"
begin

lemma keeps_do_all: "list_all (keeps R) fs \<Longrightarrow> keeps R (do_all fs)"
proof (induction fs)
  case Nil
  show ?case by (simp add: keeps_def refl)
next
  case (Cons f fs)
  then have f: "keeps R f" and fs: "keeps R (do_all fs)" by simp_all
  show ?case unfolding keeps_def
  proof (intro allI impI)
    fix s s' assume "do_all (f # fs) s = Inr s'"
    then obtain t where "f s = Inr t" "do_all fs t = Inr s'" by (auto simp: res_bind_Inr_iff)
    then show "R s s'" using keepsD[OF f] keepsD[OF fs] trans by blast
  qed
qed

lemma keeps_Inr: "keeps R Inr"
  by (simp add: keeps_def refl)

lemma keeps_if: "keeps R f \<Longrightarrow> keeps R g \<Longrightarrow> keeps R (\<lambda>s. if c s then f s else g s)"
  by (simp add: keeps_def)

lemma keeps_bind: "keeps R f \<Longrightarrow> keeps R g \<Longrightarrow> keeps R (\<lambda>s. res_bind (f s) g)"
  using keeps_do_all[of "[f, g]"] by (simp add: keeps_def res_bind_Inr_iff)

lemma keeps_do_all_dep: "(\<And>s. list_all (keeps R) (fs s)) \<Longrightarrow> keeps R (\<lambda>s. do_all (fs s) s)"
  by (subst keeps_def) (blast intro: keepsD[OF keeps_do_all])

lemma keeps_list:
  "list_all (keeps R) []"
  "keeps R f \<Longrightarrow> list_all (keeps R) fs \<Longrightarrow> list_all (keeps R) (f # fs)"
  "list_all (keeps R) fs \<Longrightarrow> list_all (keeps R) gs \<Longrightarrow> list_all (keeps R) (fs @ gs)"
  "(\<And>x. keeps R (h x)) \<Longrightarrow> list_all (keeps R) (map h xs)"
  by (auto simp: list_all_iff)

lemmas keeps_intros = keeps_do_all keeps_list keeps_Inr keeps_if

end

section \<open>The messages to the decision engine\<close>

fun quiet :: "out \<Rightarrow> bool" where
  "quiet (RdeUp _ _ _) = False"
| "quiet (RdeUpdate _) = False"
| "quiet RdeDelete = False"
| "quiet _ = True"

fun calm :: "out \<Rightarrow> bool" where
  "calm RdeDown = False"
| "calm (RdeStale _) = False"
| "calm (RdeNograce _) = False"
| "calm x = quiet x"

text \<open>Whether the decision engine knows the neighbor, and whether its session is up there.\<close>

fun rde_known :: "bool \<Rightarrow> out \<Rightarrow> bool" where
  "rde_known k RdeAdd = True"
| "rde_known k RdeDelete = False"
| "rde_known k _ = k"

fun rde_up :: "bool \<Rightarrow> out \<Rightarrow> bool" where
  "rde_up u (RdeUp _ _ _) = True"
| "rde_up u RdeDown = False"
| "rde_up u RdeDelete = False"
| "rde_up u (RdeStale _) = False"
| "rde_up u (RdeNograce _) = False"
| "rde_up u _ = u"

definition known_after :: "out list \<Rightarrow> bool" where
  "known_after xs = foldl rde_known False xs"

definition up_after :: "out list \<Rightarrow> bool" where
  "up_after xs = foldl rde_up False xs"

text \<open>A session comes up only for a known neighbor, and an update comes only from a session that is up.\<close>

definition may_follow :: "out list \<Rightarrow> out \<Rightarrow> bool" where
  "may_follow xs x = (case x of RdeUp _ _ _ \<Rightarrow> known_after xs | RdeUpdate _ \<Rightarrow> up_after xs | _ \<Rightarrow> True)"

definition rde_trace_ok :: "out list \<Rightarrow> bool" where
  "rde_trace_ok xs = (\<forall>i < length xs. may_follow (take i xs) (xs ! i))"

lemma rde_trace_ok_Nil [simp]: "rde_trace_ok []"
  by (simp add: rde_trace_ok_def)

lemma rde_trace_ok_snoc [simp]: "rde_trace_ok (xs @ [x]) \<longleftrightarrow> rde_trace_ok xs \<and> may_follow xs x"
  by (auto simp: rde_trace_ok_def nth_append less_Suc_eq)

lemma after_snoc [simp]:
  "known_after (xs @ [x]) = rde_known (known_after xs) x" "up_after (xs @ [x]) = rde_up (up_after xs) x"
  by (simp_all add: known_after_def up_after_def)

lemma trace_two [simp]:
  "rde_trace_ok (xs @ [x, y]) \<longleftrightarrow> rde_trace_ok xs \<and> may_follow xs x \<and> may_follow (xs @ [x]) y"
  "known_after (xs @ [x, y]) = rde_known (rde_known (known_after xs) x) y"
  "up_after (xs @ [x, y]) = rde_up (rde_up (up_after xs) x) y"
  using rde_trace_ok_snoc[of "xs @ [x]" y] after_snoc[of "xs @ [x]" y] by (simp_all del: rde_trace_ok_snoc add: rde_trace_ok_snoc[of xs x])

lemma quiet_known: "quiet x \<Longrightarrow> k \<Longrightarrow> rde_known k x"
  by (cases x) auto

lemma quiet_follows: "quiet x \<Longrightarrow> may_follow xs x"
  by (cases x) (auto simp: may_follow_def)

lemma calm_up: "calm x \<Longrightarrow> rde_up u x = u"
  by (cases x) auto

lemma calm_quiet: "calm x \<Longrightarrow> quiet x"
  by (cases x) auto

lemma quiet_trace:
  "list_all quiet ys \<Longrightarrow> rde_trace_ok xs \<Longrightarrow> rde_trace_ok (xs @ ys)"
  "list_all quiet ys \<Longrightarrow> known_after xs \<Longrightarrow> known_after (xs @ ys)"
  by (induction ys rule: rev_induct) (auto simp: append_assoc[symmetric] quiet_follows quiet_known simp del: append_assoc)

lemma calm_trace: "list_all calm ys \<Longrightarrow> up_after (xs @ ys) = up_after xs"
  by (induction ys rule: rev_induct) (auto simp: append_assoc[symmetric] calm_up simp del: append_assoc)

section \<open>Quiet and calm steps\<close>

definition quiet_step :: "peer \<Rightarrow> peer \<Rightarrow> bool" where
  "quiet_step p p' = ((\<exists>xs. outs p' = outs p @ xs \<and> list_all quiet xs) \<and> rdesession p' = rdesession p \<and>
     (timers_ok (p_timers p) \<longrightarrow> timers_ok (p_timers p')))"

definition calm_step :: "peer \<Rightarrow> peer \<Rightarrow> bool" where
  "calm_step p p' = ((\<exists>xs. outs p' = outs p @ xs \<and> list_all calm xs) \<and> rdesession p' = rdesession p \<and>
     state p' = state p \<and>
     (timers_ok (p_timers p) \<longrightarrow> timers_ok (p_timers p') \<and>
        timer_running (p_timers p') Timer_SessionDown = timer_running (p_timers p) Timer_SessionDown))"

interpretation quiet: step_rel quiet_step
proof
  show "quiet_step p p" for p by (auto simp: quiet_step_def)
  show "quiet_step p q \<Longrightarrow> quiet_step q r \<Longrightarrow> quiet_step p r" for p q r
    by (auto simp: quiet_step_def)
qed

interpretation calm: step_rel calm_step
proof
  show "calm_step p p" for p by (auto simp: calm_step_def)
  show "calm_step p q \<Longrightarrow> calm_step q r \<Longrightarrow> calm_step p r" for p q r
    by (auto simp: calm_step_def)
qed

lemma calm_is_quiet: "calm_step p p' \<Longrightarrow> quiet_step p p'"
  by (auto simp: calm_step_def quiet_step_def intro: calm_quiet elim!: list.pred_mono_strong)

lemma keeps_calm_quiet: "keeps calm_step f \<Longrightarrow> keeps quiet_step f"
  by (auto simp: keeps_def intro: calm_is_quiet)


text \<open>A steady step is calm or leaves the established state; nearly every operation is one.\<close>

definition steady_step :: "peer \<Rightarrow> peer \<Rightarrow> bool" where
  "steady_step p p' = (quiet_step p p' \<and> (calm_step p p' \<or> state p' \<noteq> STATE_ESTABLISHED))"

interpretation steady: step_rel steady_step
proof
  show "steady_step p p" for p by (simp add: steady_step_def quiet.refl calm.refl)
  show "steady_step p q \<Longrightarrow> steady_step q r \<Longrightarrow> steady_step p r" for p q r
    unfolding steady_step_def using quiet.trans calm.trans by (auto simp: calm_step_def)
qed

lemma keeps_calm_steady: "keeps calm_step f \<Longrightarrow> keeps steady_step f"
  by (auto simp: keeps_def steady_step_def intro: calm_is_quiet)

lemma keeps_quiet_steady:
  "keeps quiet_step f \<Longrightarrow> (\<And>p p'. f p = Inr p' \<Longrightarrow> state p' \<noteq> STATE_ESTABLISHED) \<Longrightarrow> keeps steady_step f"
  by (auto simp: keeps_def steady_step_def)

named_theorems calms
named_theorems steadies

lemma calm_upd:
  "(\<And>p. outs (f p) = outs p \<and> rdesession (f p) = rdesession p \<and> state (f p) = state p \<and> p_timers (f p) = p_timers p) \<Longrightarrow>
     keeps calm_step (upd f)"
  by (auto simp: keeps_def upd_def calm_step_def)

lemma calm_stat [calms]: "keeps calm_step (stat f)"
  unfolding stat_def by (rule calm_upd) simp

lemma calm_emit: "calm x \<Longrightarrow> keeps calm_step (emit x)"
  by (auto simp: keeps_def emit_def calm_step_def)

lemma quiet_emit: "quiet x \<Longrightarrow> keeps quiet_step (emit x)"
  by (auto simp: keeps_def emit_def quiet_step_def)

lemma calm_imsg_rde: "calm x \<Longrightarrow> keeps calm_step (imsg_rde e x)"
  unfolding imsg_rde_def by (rule calm.keeps_if) (auto intro: calm_emit calm.keeps_Inr)

lemma quiet_imsg_rde: "quiet x \<Longrightarrow> keeps quiet_step (imsg_rde e x)"
  unfolding imsg_rde_def by (rule quiet.keeps_if) (auto intro: quiet_emit quiet.keeps_Inr)

text \<open>Timers: a timer set now is running afterwards, a stopped one is not, the others stay as they are.\<close>

definition due_at :: "session_env \<Rightarrow> u32 \<Rightarrow> monotime" where
  "due_at e off = monotime_add (monotime_from_sec (uint off)) (e_now e)"

lemma tset_Inr:
  assumes "tset e t off p = Inr p'"
  shows "p' = p\<lparr>p_timers := timer_set_at (p_timers p) t (due_at e (off p))\<rparr>"
  using assms by (auto simp: tset_def timer_set_def Let_def due_at_def res_bind_Inr_iff split: if_splits)

lemma set_at_ok:
  assumes "e_now e > 0" and "timers_ok th"
  shows "timers_ok (timer_set_at th t (due_at e off))"
    and "timer_running (timer_set_at th t (due_at e off)) = (timer_running th)(t := Some (due_at e off))"
  unfolding due_at_def
  using timer_set_at_ok[OF assms(2) timer_set_positive[OF assms(1)]]
    timer_running_set_at[OF assms(2) timer_set_positive[OF assms(1)]] by simp_all

lemma calm_tset: "e_now e > 0 \<Longrightarrow> t \<noteq> Timer_SessionDown \<Longrightarrow> keeps calm_step (tset e t off)"
  by (auto simp: keeps_def calm_step_def set_at_ok dest!: tset_Inr)

lemma quiet_tset: "e_now e > 0 \<Longrightarrow> keeps quiet_step (tset e t off)"
  by (auto simp: keeps_def quiet_step_def set_at_ok dest!: tset_Inr)

lemma calm_tstop: "t \<noteq> Timer_SessionDown \<Longrightarrow> keeps calm_step (tstop t)"
  by (auto simp: keeps_def tstop_def calm_step_def timer_stop_ok timer_running_stop)

lemma quiet_tstop: "keeps quiet_step (tstop t)"
  by (auto simp: keeps_def tstop_def quiet_step_def timer_stop_ok)

lemma calm_session_close [calms]: "keeps calm_step session_close"
  by (auto simp: keeps_def session_close_def calm_step_def)

lemma calm_md5_reload [calms]: "keeps calm_step session_md5_reload"
  unfolding session_md5_reload_def by (rule calm.keeps_if) (auto intro: calm_emit calm.keeps_Inr)

lemma calm_demote [calms]: "keeps calm_step (session_demote n)"
  unfolding session_demote_def by (rule calm.keeps_do_all) (auto intro!: calm_emit calm_upd)

lemma calm_timers:
  assumes "e_now e > 0"
  shows "keeps calm_step (start_timer_holdtime e)" "keeps calm_step (start_timer_sendholdtime e)"
    "keeps calm_step (start_timer_keepalive e)"
  unfolding start_timer_holdtime_def start_timer_sendholdtime_def start_timer_keepalive_def Let_def
  using assms by (auto simp: keeps_def intro: keepsD[OF calm_tset] keepsD[OF calm_tstop])

lemma calm_flush [calms]: "keeps calm_step (session_graceful_flush e i)"
  unfolding session_graceful_flush_def by (rule calm_imsg_rde) simp

lemma quiet_reset_timers: "keeps quiet_step reset_timers"
  unfolding reset_timers_def by (rule quiet.keeps_do_all) (simp add: quiet_tstop)


section \<open>Changes of state\<close>

named_theorems quiets

lemmas [quiets] = calm_session_close[THEN keeps_calm_quiet] calm_md5_reload[THEN keeps_calm_quiet]
  calm_demote[THEN keeps_calm_quiet] calm_flush[THEN keeps_calm_quiet] quiet_reset_timers quiet_tstop quiet.keeps_Inr

lemma quiet_upd:
  "(\<And>p. outs (f p) = outs p \<and> rdesession (f p) = rdesession p \<and> p_timers (f p) = p_timers p) \<Longrightarrow> keeps quiet_step (upd f)"
  by (auto simp: keeps_def upd_def quiet_step_def)

lemma quiet_fun:
  "(\<And>p. outs (f p) = outs p \<and> rdesession (f p) = rdesession p \<and> p_timers (f p) = p_timers p) \<Longrightarrow> keeps quiet_step (\<lambda>p. Inr (f p))"
  using quiet_upd[of f] by (simp add: keeps_def upd_def)

lemma quiet_emit_fun: "(\<And>p. quiet (x p)) \<Longrightarrow> keeps quiet_step (\<lambda>p. emit (x p) p)"
  using quiet_emit by (auto simp: keeps_def)

lemma quiet_restart_aid [quiets]: "keeps quiet_step (restart_aid e i)"
  unfolding restart_aid_def
  by (intro quiet.keeps_if quiet.keeps_do_all) (auto intro!: quiet_imsg_rde quiet_upd quiet.keeps_Inr)

lemma quiet_graceful_restart:
  assumes "e_now e > 0"
  shows "keeps quiet_step (session_graceful_restart e)"
  unfolding session_graceful_restart_def Let_def
  by (rule quiet.keeps_do_all_dep, intro quiet.keeps_intros quiet_tset quiet_upd quiet_restart_aid assms) simp

lemma quiet_session_down:
  assumes "e_now e > 0"
  shows "keeps quiet_step (session_down e)"
  unfolding session_down_def
  by (rule quiet.keeps_do_all) (auto intro!: quiet_imsg_rde quiet_upd quiet_tset assms)

lemma quiet_enter_idle:
  assumes "e_now e > 0"
  shows "keeps quiet_step (enter_idle e event)"
  unfolding enter_idle_def idle_react_def
  by (intro quiet.keeps_intros quiet_upd quiet_fun quiet_emit_fun quiet_tset quiet_session_down quiet_graceful_restart assms quiets) auto

lemma quiet_enter_connect:
  assumes "e_now e > 0"
  shows "keeps quiet_step (enter_connect e)"
  unfolding enter_connect_def
  by (intro quiet.keeps_intros quiet_upd quiet_graceful_restart assms quiets) auto

text \<open>No operation changes the state but the change itself.\<close>

definition same_state :: "peer \<Rightarrow> peer \<Rightarrow> bool" where
  "same_state p p' = (state p' = state p)"

interpretation same: step_rel same_state
  by unfold_locales (simp_all add: same_state_def)

lemma same_upd: "(\<And>p. state (f p) = state p) \<Longrightarrow> keeps same_state (upd f)"
  by (simp add: keeps_def upd_def same_state_def)

lemma same_fun: "(\<And>p. state (f p) = state p) \<Longrightarrow> keeps same_state (\<lambda>p. Inr (f p))"
  by (simp add: keeps_def same_state_def)

lemma same_basic:
  "keeps same_state (tset e t off)" "keeps same_state (tstop t)" "keeps same_state (emit x)"
  "keeps same_state (\<lambda>p. emit (g p) p)" "keeps same_state session_close"
  by (auto simp: keeps_def same_state_def tstop_def emit_def session_close_def dest: tset_Inr)

lemma same_imsg: "keeps same_state (imsg_rde e x)" "keeps same_state session_md5_reload"
  unfolding imsg_rde_def session_md5_reload_def by (intro same.keeps_intros same_basic)+

lemma same_demote: "keeps same_state (session_demote n)" "keeps same_state reset_timers"
  "keeps same_state (restart_aid e i)" "keeps same_state (session_down e)"
  unfolding session_demote_def reset_timers_def restart_aid_def session_down_def
  by (intro same.keeps_intros same_basic same_imsg same_upd; simp)+

lemma same_graceful_restart: "keeps same_state (session_graceful_restart e)"
  unfolding session_graceful_restart_def Let_def
  by (rule same.keeps_do_all_dep, intro same.keeps_intros same_basic same_upd same_demote) simp

lemmas sames = same_basic same_imsg same_demote same_graceful_restart

lemma enter_state:
  "keeps same_state (enter_idle e event)" "keeps same_state (enter_connect e)"
  unfolding enter_idle_def idle_react_def enter_connect_def
  by (intro same.keeps_intros sames same_upd same_fun; simp)+

lemma change_state_state: "change_state e st event p = Inr p' \<Longrightarrow> st \<noteq> STATE_ESTABLISHED \<Longrightarrow> state p' = st"
  using keepsD[OF enter_state(1)] keepsD[OF enter_state(2)] keepsD[OF same_imsg(2)]
  by (cases st) (fastforce simp: change_state_def same_state_def)+

lemma quiet_change_state:
  assumes "e_now e > 0" and "st \<noteq> STATE_ESTABLISHED"
  shows "keeps quiet_step (change_state e st event)"
  unfolding keeps_def
proof (intro allI impI)
  fix p p' assume a: "change_state e st event p = Inr p'"
  let ?p = "p\<lparr>prev_state := state p, state := st\<rparr>"
  have "quiet_step p ?p" by (simp add: quiet_step_def)
  moreover have "quiet_step ?p p'"
    using a assms(2) keepsD[OF quiet_enter_idle[OF assms(1)]] keepsD[OF quiet_enter_connect[OF assms(1)]]
      keepsD[OF keeps_calm_quiet[OF calm_md5_reload]] quiet.refl
    by (cases st) (simp_all add: change_state_def)
  ultimately show "quiet_step p p'" by (rule quiet.trans)
qed

lemma steady_change_state:
  "e_now e > 0 \<Longrightarrow> st \<noteq> STATE_ESTABLISHED \<Longrightarrow> keeps steady_step (change_state e st event)"
  by (rule keeps_quiet_steady[OF quiet_change_state]) (auto dest: change_state_state)

lemma steady_fatal: "e_now e > 0 \<Longrightarrow> keeps steady_step (fsm_fatal e)"
  unfolding fsm_fatal_def by (intro steady.keeps_intros steady_change_state) auto


section \<open>Messages\<close>

lemma steady_send_or_fail:
  assumes "e_now e > 0" and "keeps steady_step k"
  shows "keeps steady_step (send_or_fail e r k)"
proof (cases r)
  case (Inl x)
  then show ?thesis using steady_fatal[OF assms(1)] by (simp add: keeps_def send_or_fail_def)
next
  case (Inr b)
  have "keeps steady_step (session_sendmsg b)"
    by (auto simp: keeps_def session_sendmsg_def intro!: keepsD[OF keeps_calm_steady[OF calm_upd, of "\<lambda>p. p\<lparr>wqueue := wqueue p @ [ibuf_content b]\<rparr>"]] simp: upd_def)
  from steady.keeps_bind[OF this assms(2)] Inr show ?thesis by (simp add: keeps_def send_or_fail_def)
qed

lemmas steady_stat = calm_stat[THEN keeps_calm_steady]

lemma steady_keepalive:
  assumes "e_now e > 0"
  shows "keeps steady_step (session_keepalive e)"
  unfolding session_keepalive_def
  by (intro steady_send_or_fail steady.keeps_intros steady_stat keeps_calm_steady[OF calm_timers(3)] assms)

lemma steady_update:
  assumes "e_now e > 0"
  shows "keeps steady_step (session_update e data)"
  unfolding session_update_def Let_def
  by (intro steady.keeps_intros steady_send_or_fail steady_stat keeps_calm_steady[OF calm_timers(3)] assms)


lemma steady_send_dep:
  assumes "e_now e > 0" and "keeps steady_step k"
  shows "keeps steady_step (\<lambda>p. send_or_fail e (r p) k p)"
  using steady_send_or_fail[OF assms] by (simp add: keeps_def)

lemma steady_notification:
  assumes "e_now e > 0"
  shows "keeps steady_step (session_notification e errcode subcode data)"
  unfolding session_notification_def Let_def
  by (intro steady.keeps_intros steady_send_dep steady_stat assms)

lemma keeps_Inl: "keeps R (\<lambda>_. Inl x)"
  by (simp add: keeps_def)

lemma steady_rrefresh:
  assumes "e_now e > 0"
  shows "keeps steady_step (session_rrefresh e a subtype)"
proof (cases "aid2afi a")
  case None
  then show ?thesis unfolding session_rrefresh_def Let_def
    by (simp only: option.simps) (intro steady.keeps_intros steady_stat keeps_Inl)
next
  case (Some x)
  then show ?thesis unfolding session_rrefresh_def Let_def
    by (cases x) (simp only: option.simps prod.case, intro steady.keeps_intros steady_send_dep steady_stat keeps_Inl assms)
qed

lemma steady_open:
  assumes "e_now e > 0"
  shows "keeps steady_step (session_open e)"
  unfolding session_open_def by (intro steady_send_dep steady_stat assms)

lemma steady_con_open:
  assumes "e_now e > 0"
  shows "keeps steady_step (con_open e)"
  unfolding con_open_def
  by (intro steady.keeps_intros steady_open steady_change_state keeps_calm_steady[OF calm_upd]
        keeps_calm_steady[OF calm_timers(1)] keeps_calm_steady[OF calm_tstop] assms) auto

lemma steady_con_openfail:
  assumes "e_now e > 0"
  shows "keeps steady_step (con_openfail e)"
  unfolding con_openfail_def
  by (intro steady.keeps_intros steady_change_state keeps_calm_steady[OF calm_tset]
        keeps_calm_steady[OF calm_session_close] assms) auto

lemma steady_fun:
  "(\<And>p. outs (f p) = outs p \<and> rdesession (f p) = rdesession p \<and> state (f p) = state p \<and> p_timers (f p) = p_timers p) \<Longrightarrow>
     keeps steady_step (\<lambda>p. Inr (f p))"
  using keeps_calm_steady[OF calm_upd, of f] by (simp add: keeps_def upd_def)

lemma steady_after:
  assumes "keeps steady_step g"
    and "\<And>p. outs (f p) = outs p \<and> rdesession (f p) = rdesession p \<and> state (f p) = state p \<and> p_timers (f p) = p_timers p"
  shows "keeps steady_step (\<lambda>p. g (f p))"
  using steady.keeps_bind[OF steady_fun[OF assms(2)] assms(1)] by (simp add: keeps_def)

lemma steady_session_connect:
  assumes "e_now e > 0"
  shows "keeps steady_step (session_connect e)"
proof -
  have fd: "keeps steady_step (\<lambda>p. Inr (p\<lparr>p_fd := f\<rparr>))" "keeps steady_step (\<lambda>p. con_open e (p\<lparr>p_fd := f\<rparr>))"
      "keeps steady_step (\<lambda>p. con_openfail e (p\<lparr>p_fd := f\<rparr>))" for f
    by (rule steady_fun steady_after[OF steady_con_open[OF assms]] steady_after[OF steady_con_openfail[OF assms]]; simp)+
  show ?thesis unfolding session_connect_def
    by (cases "e_connect e"; simp only: connect_result.case)
       (intro steady.keeps_if steady.keeps_Inr fd steady_con_openfail assms)+
qed

section \<open>Parsing\<close>

text \<open>A step that also returns a value.\<close>

definition keeps_fst :: "(peer \<Rightarrow> (peer \<times> 'a) res) \<Rightarrow> bool" where
  "keeps_fst f = (\<forall>p p' x. f p = Inr (p', x) \<longrightarrow> steady_step p p')"

lemma keeps_fstD: "keeps_fst f \<Longrightarrow> f p = Inr (p', x) \<Longrightarrow> steady_step p p'"
  by (simp add: keeps_fst_def)

lemma keeps_fst_bind: "keeps steady_step f \<Longrightarrow> keeps_fst (\<lambda>p. res_bind (f p) (\<lambda>p. Inr (p, x)))"
  by (auto simp: keeps_fst_def keeps_def res_bind_Inr_iff)

lemma steady_open_fails:
  assumes "e_now e > 0"
  shows "keeps steady_step (open_fails e subcode data)"
  unfolding open_fails_def by (intro steady.keeps_intros steady_notification steady_change_state assms) simp

lemma steady_refuse:
  assumes "e_now e > 0"
  shows "keeps steady_step (refuse e errcode subcode data)"
  unfolding refuse_def by (intro steady.keeps_intros steady_notification steady_fatal assms)


lemma steady_pure:
  "outs p' = outs p \<Longrightarrow> rdesession p' = rdesession p \<Longrightarrow> state p' = state p \<Longrightarrow> p_timers p' = p_timers p \<Longrightarrow> steady_step p p'"
  by (simp add: steady_step_def quiet_step_def calm_step_def)

lemma steady_parse_header:
  assumes "e_now e > 0" and "parse_header e msg p = Inr (p', r)"
  shows "steady_step p p'"
  using assms(2) keepsD[OF steady_refuse[OF assms(1)]] steady.refl
  by (auto simp: parse_header_def Let_def res_bind_Inr_iff split: sum.splits prod.splits if_splits)

lemma steady_parse_capa:
  assumes "e_now e > 0" and "parse_capa e code body p as = Inr (p', as', ok)"
  shows "steady_step p p'"
  using assms(2) keepsD[OF steady_open_fails[OF assms(1)]]
  by (auto simp: parse_capa_def Let_def res_bind_Inr_iff peer_capa_def intro: steady_pure split: if_splits list.splits)

lemma steady_parse_capabilities:
  "e_now e > 0 \<Longrightarrow> parse_capabilities e buf p as = Inr (p', as', ok) \<Longrightarrow> steady_step p p'"
proof (induction e buf p as arbitrary: p' as' ok rule: parse_capabilities.induct)
  case (1 e buf p as)
  note capa = steady_parse_capa[OF 1(2)] and IH = 1(1)[OF _ _ _ _ _ _ _ 1(2)]
  from 1(3) show ?case
    by (subst (asm) parse_capabilities.simps)
       (auto split: list.splits if_splits sum.splits prod.splits
         intro: steady.refl steady.trans[OF capa IH] capa)
qed


lemma steady_parse_params:
  "e_now e > 0 \<Longrightarrow> parse_params e ext params p as = Inr (p', as', ok) \<Longrightarrow> steady_step p p'"
proof (induction e ext params p as arbitrary: p' as' ok rule: parse_params.induct)
  case (1 e ext params p as)
  note capas = steady_parse_capabilities[OF 1(2)] and fails = keepsD[OF steady_open_fails[OF 1(2)]]
    and IH = 1(1)[OF _ _ _ _ _ _ _ _ _ _ 1(2)]
  from 1(3) show ?case
    by (subst (asm) parse_params.simps)
       (auto split: list.splits if_splits sum.splits prod.splits option.splits simp: res_bind_Inr_iff
         intro: steady.refl steady.trans[OF capas IH] steady.trans[OF capas fails] fails)
qed

lemma steady_neg_gr_aid: "keeps steady_step (neg_gr_aid e i)"
  unfolding keeps_def
proof (intro allI impI)
  fix p p' assume a: "neg_gr_aid e i p = Inr p'"
  have s: "keeps steady_step (do_all [\<lambda>p. if c then session_graceful_flush e i p else Inr p,
      upd (\<lambda>p. if gr_restart (capa_ann p) \<noteq> 0
           then p\<lparr>capa_neg := (capa_neg p)\<lparr>gr_flags := (gr_flags (capa_neg p))(i := f)\<rparr>\<rparr> else p)])" for c f
    by (intro steady.keeps_intros keeps_calm_steady[OF calm_flush] keeps_calm_steady[OF calm_upd]) simp
  have "steady_step p (if x then peer_capa g p else p)" for x g by (auto simp: peer_capa_def intro: steady_pure)
  then show "steady_step p p'" using a steady.trans keepsD[OF s] unfolding neg_gr_aid_def Let_def by blast
qed

lemma steady_negotiate: "keeps steady_step (negotiate e)"
  unfolding negotiate_def
  by (intro steady.keeps_intros steady_neg_gr_aid keeps_calm_steady[OF calm_upd]) auto

lemma steady_capa_neg_calc:
  assumes "e_now e > 0" and "capa_neg_calc e p = Inr (p', ok)"
  shows "steady_step p p'"
proof -
  have fails: "neg_fails e subcode data q = Inr (q', x) \<Longrightarrow> steady_step q q'" for subcode data q q' x
    using keepsD[OF steady_notification[OF assms(1)]] by (auto simp: neg_fails_def res_bind_Inr_iff)
  have enf: "enforce_capas e q = Inr (q', x) \<Longrightarrow> steady_step q q'" for q q' x
    by (auto simp: enforce_capas_def split: option.splits prod.splits sum.splits intro: fails steady.refl)
  obtain q where q: "negotiate e p = Inr q" using assms(2) by (auto simp: capa_neg_calc_def res_bind_Inr_iff)
  have pol: "steady_step q (set_policy q)" by (auto simp: set_policy_def intro: steady_pure)
  have "steady_step q p'"
    using assms(2) q by (auto simp: capa_neg_calc_def intro: fails steady.trans[OF pol fails] steady.trans[OF pol enf] split: if_splits)
  then show ?thesis using keepsD[OF steady_negotiate q] steady.trans by blast
qed

lemma steady_open_checks:
  assumes "e_now e > 0" and "open_checks e as p = Inr (p', ok)"
  shows "steady_step p p'"
proof -
  have ad: "steady_step p (adopt_as as p)" by (auto simp: adopt_as_def Let_def intro: steady_pure)
  have "steady_step (adopt_as as p) p'"
    using assms(2)
    by (auto simp: open_checks_def Let_def res_bind_Inr_iff split: if_splits
        intro: keepsD[OF steady_open_fails[OF assms(1)]] steady_capa_neg_calc[OF assms(1)]
          steady.trans[OF steady_capa_neg_calc[OF assms(1)] keepsD[OF steady_change_state[OF assms(1)], of STATE_IDLE]])
  with ad show ?thesis by (rule steady.trans)
qed

lemma steady_open_refused:
  assumes "e_now e > 0" and "open_refused e subcode data p = Inr (p', ok)"
  shows "steady_step p p'"
  using assms(2) keepsD[OF steady_open_fails[OF assms(1)]] by (auto simp: open_refused_def res_bind_Inr_iff)

lemma steady_open_params:
  assumes "e_now e > 0" and "open_params e optparamlen r as p = Inr (p', ok)"
  shows "steady_step p p'"
proof -
  note refused = steady_open_refused[OF assms(1)] and checks = steady_open_checks[OF assms(1)]
    and params = steady_parse_params[OF assms(1)]
  from assms(2) show ?thesis
    by (auto simp: open_params_def res_bind_Inr_iff split: prod.splits if_splits option.splits
        intro: refused checks params steady.trans[OF params refused] steady.trans[OF params checks])
qed

lemma steady_parse_open:
  assumes "e_now e > 0" and "parse_open e msg p = Inr (p', ok)"
  shows "steady_step p p'"
proof -
  note refused = steady_open_refused[OF assms(1)]
  have u: "steady_step p (p\<lparr>p_short_as := a\<rparr>)" "steady_step p (p\<lparr>p_short_as := a, p_holdtime := b\<rparr>)"
      "steady_step p (p\<lparr>p_short_as := a, p_holdtime := b, p_remote_bgpid := c\<rparr>)" for a b c
    by (rule steady_pure; simp)+
  from assms(2) show ?thesis
    by (auto simp: parse_open_def Let_def split: sum.splits prod.splits if_splits
        intro: refused steady.trans[OF u(1) refused] steady.trans[OF u(2) refused]
          steady.trans[OF u(3) steady_open_params[OF assms(1)]])
qed

lemma steady_parse_notification:
  assumes "e_now e > 0"
  shows "keeps steady_step (parse_notification e msg)"
  unfolding keeps_def
proof (intro allI impI)
  fix p p' assume a: "parse_notification e msg p = Inr p'"
  have r: "keeps steady_step (do_all [upd (\<lambda>p. p\<lparr>p_stats := f (p_stats p)\<rparr>), change_state e STATE_IDLE event])" for f event
    by (intro steady.keeps_intros keeps_calm_steady[OF calm_upd] steady_change_state assms) simp_all
  show "steady_step p p'"
    using a unfolding parse_notification_def Let_def
    by (auto split: list.splits if_splits simp del: do_all.simps
        intro: keepsD[OF steady_change_state[OF assms], of STATE_IDLE] keepsD[OF r])
qed

lemma steady_handle_rrefresh: "keeps steady_step (handle_rrefresh e afi safi subtype)"
  unfolding handle_rrefresh_def
  by (cases "afi2aid afi safi") (auto intro!: steady.keeps_intros keeps_calm_steady[OF calm_imsg_rde])

lemma steady_parse_rrefresh:
  assumes "e_now e > 0"
  shows "keeps steady_step (parse_rrefresh e whole)"
  unfolding keeps_def
proof (intro allI impI)
  fix p p' assume a: "parse_rrefresh e whole p = Inr p'"
  have r: "keeps steady_step (do_all [stat f, handle_rrefresh e afi safi subtype])" for f afi safi subtype
    by (intro steady.keeps_intros steady_stat steady_handle_rrefresh)
  show "steady_step p p'"
    using a unfolding parse_rrefresh_def Let_def
    by (auto split: list.splits if_splits simp del: do_all.simps
        intro: keepsD[OF steady_refuse[OF assms]] keepsD[OF r] steady.refl)
qed

section \<open>The state machine\<close>

lemma steady_notify_idle:
  assumes "e_now e > 0"
  shows "keeps steady_step (notify_idle e errcode subcode event)"
  unfolding notify_idle_def by (intro steady.keeps_intros steady_notification steady_change_state assms) simp

lemma steady_timers:
  "e_now e > 0 \<Longrightarrow> t \<noteq> Timer_SessionDown \<Longrightarrow> keeps steady_step (tset e t off)"
  "t \<noteq> Timer_SessionDown \<Longrightarrow> keeps steady_step (tstop t)"
  by (simp_all add: keeps_calm_steady calm_tset calm_tstop)

lemmas steady_ops = steady_notify_idle steady_change_state steady_con_open steady_con_openfail steady_session_connect
  steady_timers steady_keepalive steady_parse_notification keeps_calm_steady[OF calm_session_close] keeps_calm_steady[OF calm_timers(1)]

lemma steady_fsm_idle:
  assumes "e_now e > 0"
  shows "keeps steady_step (fsm_idle e event)"
  unfolding fsm_idle_def idle_start_def Let_def
  by (cases event; simp only: session_events.case; intro steady.keeps_intros steady.keeps_do_all_dep steady_ops assms; simp)

lemma steady_reconnect:
  assumes "e_now e > 0"
  shows "keeps steady_step (reconnect e event)"
  unfolding reconnect_def by (intro steady.keeps_intros steady_ops assms) simp_all

lemma steady_fsm_connect:
  assumes "e_now e > 0"
  shows "keeps steady_step (fsm_connect e event)"
  unfolding fsm_connect_def
  by (cases event; simp only: session_events.case; intro steady.keeps_intros steady_ops assms; simp)

lemma steady_fsm_active:
  assumes "e_now e > 0"
  shows "keeps steady_step (fsm_active e event)"
  unfolding fsm_active_def
  by (cases event; simp only: session_events.case; intro steady.keeps_intros steady_ops steady_reconnect assms; simp)

lemma steady_rcvd_open:
  assumes "e_now e > 0"
  shows "keeps steady_step (\<lambda>p. res_bind (parse_open e msg p) (\<lambda>(p, ok).
    if ok then do_all [session_keepalive e, change_state e STATE_OPENCONFIRM EVNT_RCVD_OPEN] p else Inr p))"
  unfolding keeps_def
proof (intro allI impI)
  fix p p'
  assume "res_bind (parse_open e msg p) (\<lambda>(p, ok).
    if ok then do_all [session_keepalive e, change_state e STATE_OPENCONFIRM EVNT_RCVD_OPEN] p else Inr p) = Inr p'"
  then obtain q ok where q: "parse_open e msg p = Inr (q, ok)"
    "(if ok then do_all [session_keepalive e, change_state e STATE_OPENCONFIRM EVNT_RCVD_OPEN] q else Inr q) = Inr p'"
    by (auto simp: res_bind_Inr_iff simp del: do_all.simps)
  have "keeps steady_step (do_all [session_keepalive e, change_state e STATE_OPENCONFIRM EVNT_RCVD_OPEN])"
    by (intro steady.keeps_intros steady_ops assms) simp
  then have "steady_step q p'" using q(2) steady.refl by (auto split: if_splits simp: keeps_def simp del: do_all.simps)
  with steady_parse_open[OF assms q(1)] show "steady_step p p'" by (rule steady.trans)
qed

lemma steady_fsm_opensent:
  assumes "e_now e > 0"
  shows "keeps steady_step (fsm_opensent e event msg)"
  unfolding fsm_opensent_def
  by (cases event; simp only: session_events.case; intro steady.keeps_intros steady_ops steady_rcvd_open assms; simp)

lemma steady_fsm_openconfirm:
  assumes "e_now e > 0" and "event \<noteq> EVNT_RCVD_KEEPALIVE"
  shows "keeps steady_step (fsm_openconfirm e event msg)"
  unfolding fsm_openconfirm_def using assms(2)
  by (cases event; simp only: session_events.case; (intro steady.keeps_intros steady_ops assms(1))?; simp)

lemma steady_fsm_established:
  assumes "e_now e > 0" and "event \<noteq> EVNT_RCVD_UPDATE"
  shows "keeps steady_step (fsm_established e event msg)"
  unfolding fsm_established_def using assms(2)
  by (cases event; simp only: session_events.case; (intro steady.keeps_intros steady_ops assms(1))?; simp)

lemma steady_bgp_fsm:
  assumes "e_now e > 0" and "bgp_fsm e event msg p = Inr p'"
    and "\<not> (state p = STATE_OPENCONFIRM \<and> event = EVNT_RCVD_KEEPALIVE)" and "\<not> (state p = STATE_ESTABLISHED \<and> event = EVNT_RCVD_UPDATE)"
  shows "steady_step p p'"
  using assms(2-4) keepsD[OF steady_fsm_idle[OF assms(1)]] keepsD[OF steady_fsm_connect[OF assms(1)]]
    keepsD[OF steady_fsm_active[OF assms(1)]] keepsD[OF steady_fsm_opensent[OF assms(1)]]
    keepsD[OF steady_fsm_openconfirm[OF assms(1)]] keepsD[OF steady_fsm_established[OF assms(1)]] steady.refl
  by (cases "state p") (simp_all add: bgp_fsm_def)


section \<open>The invariant\<close>

definition rde_inv :: "peer \<Rightarrow> bool" where
  "rde_inv p = (timers_ok (p_timers p) \<and> rde_trace_ok (outs p) \<and> (rdesession p \<longrightarrow> known_after (outs p)) \<and>
     (state p = STATE_ESTABLISHED \<longrightarrow> up_after (outs p) \<and> timer_running (p_timers p) Timer_SessionDown = None))"

text \<open>The clock runs and the decision engine is attached.\<close>

definition env_running :: "session_env \<Rightarrow> bool" where
  "env_running e = (e_now e > 0 \<and> e_rde e)"

lemma steady_rde_inv: "steady_step p p' \<Longrightarrow> rde_inv p \<Longrightarrow> rde_inv p'"
  unfolding steady_step_def rde_inv_def
  by (elim conjE disjE) (auto simp: quiet_step_def calm_step_def quiet_trace calm_trace)

definition keeps_inv :: "(peer \<Rightarrow> peer res) \<Rightarrow> bool" where
  "keeps_inv f = keeps (\<lambda>p p'. rde_inv p \<longrightarrow> rde_inv p') f"

interpretation inv: step_rel "\<lambda>p p'. rde_inv p \<longrightarrow> rde_inv p'"
  by unfold_locales simp_all

lemma steady_keeps_inv: "keeps steady_step f \<Longrightarrow> keeps_inv f"
  by (auto simp: keeps_inv_def keeps_def intro: steady_rde_inv)

lemma keeps_invD: "keeps_inv f \<Longrightarrow> f p = Inr p' \<Longrightarrow> rde_inv p \<Longrightarrow> rde_inv p'"
  by (auto simp: keeps_inv_def keeps_def)

lemma session_up_inv:
  assumes "env_running e" and "session_up e p = Inr p'" and "timers_ok (p_timers p)" and "rde_trace_ok (outs p)"
    and "rdesession p \<longrightarrow> known_after (outs p)"
  shows "rde_inv p'"
  using assms
  by (auto simp: session_up_def env_running_def upd_def tstop_def imsg_rde_def emit_def rde_inv_def timer_stop_ok
      timer_running_stop may_follow_def split: if_splits)

lemma enter_established_inv:
  assumes "env_running e" and "change_state e STATE_ESTABLISHED event p = Inr p'" and "rde_inv p"
  shows "rde_inv p'"
proof -
  have now: "e_now e > 0" using assms(1) by (simp add: env_running_def)
  let ?p = "p\<lparr>prev_state := state p, state := STATE_ESTABLISHED\<rparr>"
  have "keeps quiet_step (do_all [tset e Timer_IdleHoldReset IdleHoldTime,
      \<lambda>p. if demoted p \<noteq> 0 then tset e Timer_CarpUndemote (\<lambda>_. INTERVAL_HOLD_DEMOTED) p else Inr p])"
    by (intro quiet.keeps_intros quiet_tset now)
  moreover obtain q where q: "do_all [tset e Timer_IdleHoldReset IdleHoldTime,
      \<lambda>p. if demoted p \<noteq> 0 then tset e Timer_CarpUndemote (\<lambda>_. INTERVAL_HOLD_DEMOTED) p else Inr p] ?p = Inr q" "session_up e q = Inr p'"
    using assms(2) by (auto simp: change_state_def enter_established_def res_bind_Inr_iff)
  ultimately have "quiet_step ?p q" by (simp add: keepsD)
  then show ?thesis using assms(3) by (intro session_up_inv[OF assms(1) q(2)]) (auto simp: quiet_step_def rde_inv_def quiet_trace)
qed

lemma bgp_fsm_inv:
  assumes "env_running e"
  shows "keeps_inv (bgp_fsm e event msg)"
  unfolding keeps_inv_def keeps_def
proof (intro allI impI)
  fix p p' assume f: "bgp_fsm e event msg p = Inr p'" and i: "rde_inv p"
  have now: "e_now e > 0" and rde: "e_rde e" using assms by (auto simp: env_running_def)
  note hold = keepsD[OF calm_timers(1)[OF now]] and hold_inv = keeps_invD[OF steady_keeps_inv[OF keeps_calm_steady[OF calm_timers(1)[OF now]]]]
  consider (up) "state p = STATE_OPENCONFIRM" "event = EVNT_RCVD_KEEPALIVE"
    | (upd) "state p = STATE_ESTABLISHED" "event = EVNT_RCVD_UPDATE"
    | (other) "\<not> (state p = STATE_OPENCONFIRM \<and> event = EVNT_RCVD_KEEPALIVE)" "\<not> (state p = STATE_ESTABLISHED \<and> event = EVNT_RCVD_UPDATE)"
    by blast
  then show "rde_inv p'"
  proof cases
    case up
    then obtain q where "start_timer_holdtime e p = Inr q" "change_state e STATE_ESTABLISHED event q = Inr p'"
      using f by (auto simp: bgp_fsm_def fsm_openconfirm_def res_bind_Inr_iff)
    then show ?thesis using enter_established_inv[OF assms] hold_inv i by blast
  next
    case upd
    then obtain q where q: "start_timer_holdtime e p = Inr q" "p' = q\<lparr>outs := outs q @ [RdeUpdate msg]\<rparr>"
      using f rde by (auto simp: bgp_fsm_def fsm_established_def parse_update_def imsg_rde_def emit_def res_bind_Inr_iff)
    then have "rde_inv q" "state q = STATE_ESTABLISHED" using hold[of p q] hold_inv i upd(1) by (auto simp: calm_step_def)
    then show ?thesis using q(2) by (auto simp: rde_inv_def may_follow_def)
  next
    case other
    then show ?thesis using steady_bgp_fsm[OF now f] steady_rde_inv i by blast
  qed
qed


lemma keeps_inv_intros:
  "list_all keeps_inv fs \<Longrightarrow> keeps_inv (do_all fs)" "list_all keeps_inv []"
  "keeps_inv f \<Longrightarrow> list_all keeps_inv fs \<Longrightarrow> list_all keeps_inv (f # fs)"
  "keeps_inv Inr" "keeps_inv f \<Longrightarrow> keeps_inv g \<Longrightarrow> keeps_inv (\<lambda>p. if c p then f p else g p)"
  using inv.keeps_do_all inv.keeps_Inr inv.keeps_if unfolding keeps_inv_def by auto

lemma keeps_inv_after: "keeps_inv g \<Longrightarrow> (\<And>p. rde_inv (f p) = rde_inv p) \<Longrightarrow> keeps_inv (\<lambda>p. g (f p))"
  by (simp add: keeps_inv_def keeps_def)

lemma keeps_inv_dep: "(\<And>x. keeps_inv (f x)) \<Longrightarrow> keeps_inv (\<lambda>p. f (g p) p)"
  by (simp add: keeps_inv_def keeps_def)

lemma rde_inv_pure:
  "outs p' = outs p \<Longrightarrow> rdesession p' = rdesession p \<Longrightarrow> state p' = state p \<Longrightarrow> p_timers p' = p_timers p \<Longrightarrow> rde_inv p' = rde_inv p"
  by (simp add: rde_inv_def)

lemma env_now: "env_running e \<Longrightarrow> e_now e > 0"
  by (simp add: env_running_def)

lemma keeps_inv_upd:
  "(\<And>p. outs (f p) = outs p \<and> rdesession (f p) = rdesession p \<and> state (f p) = state p \<and> p_timers (f p) = p_timers p) \<Longrightarrow> keeps_inv (upd f)"
  by (rule steady_keeps_inv[OF keeps_calm_steady[OF calm_upd]])

lemmas inv_ops = steady_keeps_inv[OF steady_stat] steady_keeps_inv[OF steady_notification[OF env_now]]
  steady_keeps_inv[OF steady_parse_rrefresh[OF env_now]] bgp_fsm_inv keeps_inv_intros keeps_inv_upd

lemma process_msg_inv: "env_running e \<Longrightarrow> keeps_inv (process_msg e whole)"
  unfolding process_msg_def Let_def by (simp only: if_split) (intro conjI impI inv_ops)

lemma process_msgs_inv:
  assumes "env_running e"
  shows "process_msgs e n p = Inr p' \<Longrightarrow> rde_inv p \<Longrightarrow> rde_inv p'"
proof (induction n arbitrary: p)
  case 0
  then show ?case using keeps_invD[OF process_msg_inv[OF assms]] keeps_invD[OF bgp_fsm_inv[OF assms]]
    by (subst (asm) process_msgs.simps) (auto split: list.splits if_splits simp: res_bind_Inr_iff rde_inv_def Let_def)
next
  case (Suc n)
  note step = keeps_invD[OF process_msg_inv[OF assms]] and fatal = keeps_invD[OF bgp_fsm_inv[OF assms]]
  show ?case
  proof (cases "rqueue p")
    case Nil
    then show ?thesis using Suc.prems by (subst (asm) process_msgs.simps) simp
  next
    case (Cons whole q)
    have i: "rde_inv (p\<lparr>rqueue := q\<rparr>)" using Suc.prems(2) by (simp add: rde_inv_def)
    show ?thesis using Suc.prems(1) Cons Suc.IH step[OF _ i] fatal[OF _ i]
      by (subst (asm) process_msgs.simps) (auto simp: res_bind_Inr_iff Let_def split: if_splits)
  qed
qed

lemma steady_read_loop:
  "e_now e > 0 \<Longrightarrow> read_loop e buf rp q p = Inr (p', ok) \<Longrightarrow> steady_step p p'"
proof (induction e buf rp q p arbitrary: p' ok rule: read_loop.induct)
  case (1 e buf rp q p)
  note hdr = steady_parse_header[OF 1(3)]
  have pure: "steady_step r (r\<lparr>rbuf := a, rpmsg := b, rqueue := c\<rparr>)" "steady_step r (r\<lparr>rqueue := c\<rparr>)" for r a b c
    by (rule steady_pure; simp)+
  show ?case
  proof (cases rp)
    case (Some x)
    obtain len got where x: "x = (len, got)" by (cases x)
    obtain buf' rp' q' where t: "take_msg buf len got q = (buf', rp', q')" by (cases "take_msg buf len got q") auto
    show ?thesis using 1(4) 1(2)[OF Some x[symmetric] t[symmetric] refl _ 1(3)] pure
      by (subst (asm) read_loop.simps) (auto simp: Some x t split: if_splits)
  next
    case None
    show ?thesis
    proof (cases "length buf < MSGSIZE_HEADER")
      case True
      then show ?thesis using 1(4) pure by (subst (asm) read_loop.simps) (auto simp: None)
    next
      case False
      then obtain r len where h: "parse_header e (take MSGSIZE_HEADER buf) (p\<lparr>rqueue := q\<rparr>) = Inr (r, len)"
        using 1(4) by (subst (asm) read_loop.simps) (auto simp: None split: sum.splits)
      have s: "steady_step p r" using steady.trans[OF pure(2) hdr[OF h]] .
      show ?thesis
      proof (cases len)
        case None
        then show ?thesis using 1(4) False \<open>rp = None\<close> h s by (subst (asm) read_loop.simps) auto
      next
        case (Some n)
        obtain buf' rp' q' where t: "take_msg buf n [] q = (buf', rp', q')" by (cases "take_msg buf n [] q") auto
        show ?thesis using 1(4) False \<open>rp = None\<close> h Some t s steady.trans[OF s pure(1)]
            steady.trans[OF s 1(1)[OF \<open>rp = None\<close> False h refl Some t[symmetric] refl _ 1(3)]]
          by (subst (asm) read_loop.simps) (auto split: if_splits)
      qed
    qed
  qed
qed


section \<open>Every step keeps the invariant\<close>

lemma dispatch_read_inv:
  assumes "env_running e"
  shows "keeps_inv (dispatch_read e w)"
  unfolding keeps_inv_def keeps_def
proof (intro allI impI)
  fix p p' assume f: "dispatch_read e w p = Inr p'" and i: "rde_inv p"
  have rd: "ibuf_read e r p = Inr (q, x) \<Longrightarrow> rde_inv q" for r q x
    using i by (auto simp: ibuf_read_def res_bind_Inr_iff split: read_result.splits
        intro: steady_rde_inv[OF steady_read_loop[OF env_now[OF assms]]])
  show "rde_inv p'"
    using f i rd keeps_invD[OF bgp_fsm_inv[OF assms]] keeps_invD[OF steady_keeps_inv[OF steady_stat]]
    by (auto simp: dispatch_read_def res_bind_Inr_iff split: if_splits)
qed

lemma dispatch_msg_inv:
  assumes "env_running e"
  shows "keeps_inv (session_dispatch_msg e w)"
proof -
  have snd: "keeps_inv (start_timer_sendholdtime e)"
    by (rule steady_keeps_inv[OF keeps_calm_steady[OF calm_timers(2)[OF env_now[OF assms]]]])
  have "keeps_inv (\<lambda>p. case wr w of WriteError \<Rightarrow> bgp_fsm e EVNT_CON_FATAL [] p
      | r \<Rightarrow> do_all [upd (\<lambda>p. p\<lparr>wqueue := (case r of Written n \<Rightarrow> msgbuf_drain n (wqueue p) | _ \<Rightarrow> wqueue p)\<rparr>),
          stat (\<lambda>s. s\<lparr>last_write := e_now e\<rparr>), start_timer_sendholdtime e, dispatch_read e w] p)"
    by (cases "wr w"; simp only: write_result.case; intro inv_ops snd dispatch_read_inv assms; simp)
  then show ?thesis unfolding session_dispatch_msg_def by (intro keeps_inv_intros bgp_fsm_inv dispatch_read_inv assms)
qed

lemma accept_open_inv:
  assumes "env_running e"
  shows "keeps_inv (accept_open e connfd)"
proof -
  have fd: "rde_inv (p\<lparr>p_fd := connfd\<rparr>) = rde_inv p" for p by (simp add: rde_inv_def)
  have em: "keeps_inv (emit (SockClose connfd))"
    by (rule steady_keeps_inv[OF keeps_calm_steady[OF calm_emit]]) simp
  show ?thesis unfolding accept_open_def
    by (intro keeps_inv_intros em keeps_inv_after[OF em fd] keeps_inv_after[OF bgp_fsm_inv[OF assms] fd])
qed

lemma accept_inv:
  assumes "env_running e"
  shows "keeps_inv (session_accept e connfd)"
proof -
  have em: "keeps_inv (emit (SockClose connfd))"
    by (rule steady_keeps_inv[OF keeps_calm_steady[OF calm_emit]]) simp
  show ?thesis unfolding session_accept_def
    by (intro keeps_inv_intros em accept_open_inv assms steady_keeps_inv[OF steady_change_state[OF env_now[OF assms]]]
        steady_keeps_inv[OF keeps_calm_steady[OF calm_session_close]]) simp
qed

lemma steady_graceful_stop: "keeps steady_step (session_graceful_stop e)"
  unfolding session_graceful_stop_def stop_aid_def
  by (intro steady.keeps_intros keeps_calm_steady[OF calm_flush] keeps_calm_steady[OF calm_upd]) simp

lemma due_running: "timers_ok th \<Longrightarrow> timer_nextisdue th now = Some t \<Longrightarrow> timer_running th (t_type t) = Some (t_val t)"
  by (subst timer_running_iff) (auto simp: timer_nextisdue_def split: list.splits if_splits)

lemma session_down_timer_inv:
  assumes "env_running e" and "rde_inv p" and "timer_running (p_timers p) Timer_SessionDown = Some at"
    and "do_all [tstop Timer_SessionDown, imsg_rde e RdeDelete,
         upd (\<lambda>p. p\<lparr>rdesession := False, p_delete := (p_delete p \<or> p_template p)\<rparr>)] p = Inr p'"
  shows "rde_inv p'"
  using assms by (auto simp: env_running_def rde_inv_def tstop_def imsg_rde_def emit_def upd_def timer_stop_ok timer_running_stop may_follow_def)

lemma session_timer_inv:
  assumes "env_running e"
  shows "keeps_inv (session_timer e)"
  unfolding keeps_inv_def keeps_def
proof (intro allI impI)
  fix p p' assume f: "session_timer e p = Inr p'" and i: "rde_inv p"
  note fsm = keeps_invD[OF bgp_fsm_inv[OF assms]]
  have st: "keeps_inv (tstop t)" if "t \<noteq> Timer_SessionDown" for t
    using that by (rule steady_keeps_inv[OF steady_timers(2)])
  have ops: "keeps_inv (do_all [upd (\<lambda>p. p\<lparr>IdleHoldTime := 0\<rparr>), tstop Timer_IdleHoldReset])"
    "keeps_inv (do_all [tstop Timer_CarpUndemote, \<lambda>p. if demoted p \<noteq> 0 \<and> state p = STATE_ESTABLISHED then session_demote (-1) p else Inr p])"
    "keeps_inv (do_all [tstop Timer_RestartTimeout, session_graceful_stop e])"
    by (intro inv_ops st steady_keeps_inv[OF keeps_calm_steady[OF calm_demote]] steady_keeps_inv[OF steady_graceful_stop]; simp)+
  show "rde_inv p'"
  proof (cases "timer_nextisdue (p_timers p) (e_now e)")
    case None
    then show ?thesis using f i by (simp add: session_timer_def)
  next
    case (Some t)
    have run: "timer_running (p_timers p) (t_type t) = Some (t_val t)" using due_running[OF _ Some] i by (simp add: rde_inv_def)
    then show ?thesis
      using f i Some fsm[OF _ i] keeps_invD[OF ops(1) _ i] keeps_invD[OF ops(2) _ i] keeps_invD[OF ops(3) _ i] session_down_timer_inv[OF assms i]
      by (cases "t_type t") (simp_all add: session_timer_def del: do_all.simps)
  qed
qed


lemma throttle_inv: "keeps_inv (session_throttle e)"
  unfolding session_throttle_def
  by (intro keeps_inv_intros keeps_inv_upd steady_keeps_inv[OF keeps_calm_steady[OF calm_imsg_rde]]) simp_all

lemma stop_inv:
  assumes "env_running e"
  shows "keeps_inv (session_stop e subcode reason)"
  unfolding session_stop_def
  by (intro inv_ops assms) (simp split: option.split)

lemma dependon_inv:
  assumes "env_running e"
  shows "keeps_inv (dependon e ok)"
proof -
  have d: "rde_inv (p\<lparr>depend_ok := ok\<rparr>) = rde_inv p" for p by (simp add: rde_inv_def)
  show ?thesis unfolding dependon_def
    by (intro keeps_inv_intros keeps_inv_after[OF bgp_fsm_inv[OF assms] d] keeps_inv_after[OF stop_inv[OF assms] d])
qed

lemma neighbor_inv:
  assumes "env_running e"
  shows "keeps_inv (neighbor_up e)" "keeps_inv (neighbor_down e reason)" "keeps_inv (neighbor_clear e reason)" "keeps_inv neighbor_destroy"
proof -
  have t: "keeps_inv (tset e Timer_IdleHold off)" for off
    by (rule steady_keeps_inv[OF steady_timers(1)[OF env_now[OF assms]]]) simp
  show "keeps_inv (neighbor_up e)" "keeps_inv (neighbor_down e reason)" "keeps_inv (neighbor_clear e reason)"
    unfolding neighbor_up_def neighbor_down_def neighbor_clear_def by (intro inv_ops stop_inv t assms; simp)+
  show "keeps_inv neighbor_destroy" by (auto simp: keeps_inv_def keeps_def neighbor_destroy_def rde_inv_def)
qed

lemma update_err_inv:
  assumes "env_running e"
  shows "keeps_inv (rde_update_err e errcode subcode data)"
proof -
  have t: "keeps_inv (tset e Timer_IdleHold off)" for off
    by (rule steady_keeps_inv[OF steady_timers(1)[OF env_now[OF assms]]]) simp
  have "keeps_inv (\<lambda>p. do_all [bgp_fsm e EVNT_STOP [], \<lambda>q. if g p \<noteq> 0 then tset e Timer_IdleHold (\<lambda>_. 60 * ucast (g p)) q else Inr q] p)" for g :: "peer \<Rightarrow> u16"
    by (rule keeps_inv_dep[of "\<lambda>x. do_all [bgp_fsm e EVNT_STOP [], \<lambda>q. if x \<noteq> 0 then tset e Timer_IdleHold (\<lambda>_. 60 * ucast x) q else Inr q]"])
      (intro inv_ops t assms)
  then show ?thesis unfolding rde_update_err_def Let_def by (intro inv_ops assms)
qed

lemma refresh_inv:
  assumes "env_running e"
  shows "keeps_inv (rde_refresh e i subtype)"
  by (auto simp: keeps_inv_def keeps_def rde_refresh_def split: if_splits
      intro: steady_rde_inv[OF keepsD[OF steady_rrefresh[OF env_now[OF assms]]]])

lemma restarted_inv: "keeps_inv (rde_restarted e i)"
  unfolding rde_restarted_def
  by (intro keeps_inv_intros keeps_inv_upd steady_keeps_inv[OF keeps_calm_steady[OF calm_imsg_rde]])
     (simp_all add: keeps_inv_def keeps_def)

lemma neighbor_rrefresh_inv:
  assumes "env_running e" and "session_neighbor_rrefresh e p = Inr (p', r)" and "rde_inv p"
  shows "rde_inv p'"
proof -
  have "keeps steady_step (do_all (map (\<lambda>i p. if cap_mp (capa_neg p) i \<noteq> 0 then session_rrefresh e i ROUTE_REFRESH_REQUEST p else Inr p)
      [AID_MIN..<AID_MAX]))"
    by (intro steady.keeps_intros steady_rrefresh env_now[OF assms(1)])
  from keepsD[OF this] show ?thesis using assms(2,3) steady_rde_inv
    by (auto simp: session_neighbor_rrefresh_def res_bind_Inr_iff split: if_splits)
qed

lemma se_step_inv: "se_step e p p' \<Longrightarrow> env_running e \<Longrightarrow> rde_inv p \<Longrightarrow> rde_inv p'"
proof (induction rule: se_step.induct)
  case (process p p')
  then have "rde_inv (p\<lparr>rpending := False\<rparr>)" by (simp add: rde_inv_def)
  with process show ?case using process_msgs_inv unfolding session_process_msg_def by blast
next
  case (update data p p')
  then show ?case using keepsD[OF steady_update[OF env_now]] steady_rde_inv by blast
qed (blast intro: keeps_invD session_timer_inv throttle_inv dispatch_msg_inv accept_inv update_err_inv refresh_inv restarted_inv
      dependon_inv neighbor_inv neighbor_rrefresh_inv)+

lemma init_peer_inv:
  assumes "env_running e" and "init_peer e c dep reinit p = Inr p'" and "fresh_peer p"
  shows "rde_inv p'"
proof -
  have k: "keeps_inv (do_all [change_state e STATE_IDLE EVNT_NONE, \<lambda>p. if \<not> pc_down (p_conf p) then bgp_fsm e EVNT_START [] p else Inr p,
      stat (\<lambda>s. s\<lparr>last_updown := e_now e\<rparr>), \<lambda>p. if \<not> reinit \<and> pc_demote_group (p_conf p) then session_demote 1 p else Inr p])"
    by (intro inv_ops assms(1) steady_keeps_inv[OF steady_change_state[OF env_now[OF assms(1)]]]
        steady_keeps_inv[OF keeps_calm_steady[OF calm_demote]]) simp
  have "rde_inv (init_fields c dep p)" using assms(3) by (simp add: rde_inv_def fresh_peer_def timers_ok_def init_fields_def)
  then show ?thesis using assms(2) keeps_invD[OF k] by (simp add: init_peer_def upd_def)
qed

end
