(* ===== verification/Session_Build.thy ===== *)
theory Session_Build
  imports Session_Fsm
begin

text \<open>
  With memory available every message of the session engine can be built: each addition to a message
  buffer takes at most six bytes, and there are few enough of them.
\<close>

section \<open>Additions that fit\<close>

definition fits :: "(ibuf \<Rightarrow> ibuf res) \<Rightarrow> nat \<Rightarrow> bool" where
  "fits f n = (\<forall>b k. roomy b (n + k) \<longrightarrow> (\<exists>b'. f b = Inr b' \<and> roomy b' k \<and> ibuf_size b' \<le> ibuf_size b + n))"

lemma fitsD: "fits f n \<Longrightarrow> roomy b (n + k) \<Longrightarrow> \<exists>b'. f b = Inr b' \<and> roomy b' k \<and> ibuf_size b' \<le> ibuf_size b + n"
  by (simp add: fits_def)

lemma roomy_size: "roomy b k \<Longrightarrow> length (ibuf_content b) = ibuf_size b"
  by (simp add: roomy_def)

lemma roomy_less: "roomy b k \<Longrightarrow> j \<le> k \<Longrightarrow> roomy b j"
  by (simp add: roomy_def)

lemma fits_more: "fits f n \<Longrightarrow> n \<le> m \<Longrightarrow> fits f m"
  unfolding fits_def
proof (intro allI impI)
  fix b k assume a: "\<forall>b k. roomy b (n + k) \<longrightarrow> (\<exists>b'. f b = Inr b' \<and> roomy b' k \<and> ibuf_size b' \<le> ibuf_size b + n)" "n \<le> m" "roomy b (m + k)"
  then have "roomy b (n + (m - n + k))" by simp
  then obtain b' where "f b = Inr b'" "roomy b' (m - n + k)" "ibuf_size b' \<le> ibuf_size b + n" using a(1) by blast
  then show "\<exists>b'. f b = Inr b' \<and> roomy b' k \<and> ibuf_size b' \<le> ibuf_size b + m"
    using a(2) roomy_less[of b' "m - n + k" k] by (intro exI[of _ b']) simp
qed

lemma fits_add:
  assumes "\<forall>n. ca n"
  shows "fits (\<lambda>b. ibuf_add ca b d) (length d)"
  unfolding fits_def
proof (intro allI impI)
  fix b k assume r: "roomy b (length d + k)"
  from ibuf_add_roomy[OF this assms] obtain b' where b': "ibuf_add ca b d = Inr b'" "roomy b' k" "ibuf_content b' = ibuf_content b @ d"
    by (elim exE conjE) (rule that)
  then have "ibuf_size b' = ibuf_size b + length d" using roomy_size[OF r] roomy_size[OF b'(2)] by (metis length_append)
  then show "\<exists>b'. ibuf_add ca b d = Inr b' \<and> roomy b' k \<and> ibuf_size b' \<le> ibuf_size b + length d"
    using b'(1,2) by (intro exI[of _ b']) simp
qed

lemma fits_n8: "\<forall>n. ca n \<Longrightarrow> v \<le> 0xff \<Longrightarrow> fits (\<lambda>b. ibuf_add_n8 ca b v) 1"
  using fits_add[of ca "be_word 1 (ucast v :: u8)"] by (simp add: ibuf_add_n8_def not_less[symmetric])

lemma fits_n16: "\<forall>n. ca n \<Longrightarrow> v \<le> 0xffff \<Longrightarrow> fits (\<lambda>b. ibuf_add_n16 ca b v) 2"
  using fits_add[of ca "be_word 2 (ucast v :: u16)"] by (simp add: ibuf_add_n16_def not_less[symmetric])

lemma fits_n32: "\<forall>n. ca n \<Longrightarrow> v \<le> 0xffffffff \<Longrightarrow> fits (\<lambda>b. ibuf_add_n32 ca b v) 4"
  using fits_add[of ca "be_word 4 (ucast v :: u32)"] by (simp add: ibuf_add_n32_def not_less[symmetric])

lemma fits_zero: "\<forall>n. ca n \<Longrightarrow> n > 0 \<Longrightarrow> fits (\<lambda>b. ibuf_add_zero ca b n) n"
  using fits_add[of ca "replicate n 0"] by (simp add: ibuf_add_zero_def ibuf_add_def)

lemma fits_do_all: "list_all (\<lambda>f. fits f n) fs \<Longrightarrow> fits (do_all fs) (n * length fs)"
proof (induction fs)
  case Nil
  show ?case by (simp add: fits_def)
next
  case (Cons f fs)
  then have f: "fits f n" and fs: "fits (do_all fs) (n * length fs)" by simp_all
  show ?case unfolding fits_def
  proof (intro allI impI)
    fix b k assume r: "roomy b (n * length (f # fs) + k)"
    then have "roomy b (n + (n * length fs + k))" by (simp add: algebra_simps)
    from fitsD[OF f this] obtain b' where b': "f b = Inr b'" "roomy b' (n * length fs + k)" "ibuf_size b' \<le> ibuf_size b + n"
      by (elim exE conjE) (rule that)
    from fitsD[OF fs b'(2)] obtain b'' where "do_all fs b' = Inr b''" "roomy b'' k" "ibuf_size b'' \<le> ibuf_size b' + n * length fs"
      by (elim exE conjE) (rule that)
    then show "\<exists>b'. do_all (f # fs) b = Inr b' \<and> roomy b' k \<and> ibuf_size b' \<le> ibuf_size b + n * length (f # fs)"
      using b' by (intro exI[of _ b'']) simp
  qed
qed

lemma do_all_Cons: "do_all (f # fs) = (\<lambda>s. res_bind (f s) (do_all fs))"
  by (rule ext) simp

lemma fits_bind: "fits f n \<Longrightarrow> fits g m \<Longrightarrow> fits (\<lambda>b. res_bind (f b) g) (n + m)"
  unfolding fits_def
proof (intro allI impI)
  fix b k
  assume a: "\<forall>b k. roomy b (n + k) \<longrightarrow> (\<exists>b'. f b = Inr b' \<and> roomy b' k \<and> ibuf_size b' \<le> ibuf_size b + n)"
    "\<forall>b k. roomy b (m + k) \<longrightarrow> (\<exists>b'. g b = Inr b' \<and> roomy b' k \<and> ibuf_size b' \<le> ibuf_size b + m)" "roomy b (n + m + k)"
  then have "roomy b (n + (m + k))" by (simp add: add.assoc)
  with a(1) obtain b' where b': "f b = Inr b'" "roomy b' (m + k)" "ibuf_size b' \<le> ibuf_size b + n" by blast
  with a(2) obtain b'' where "g b' = Inr b''" "roomy b'' k" "ibuf_size b'' \<le> ibuf_size b' + m" by blast
  then show "\<exists>b'. res_bind (f b) g = Inr b' \<and> roomy b' k \<and> ibuf_size b' \<le> ibuf_size b + (n + m)"
    using b' by (intro exI[of _ b'']) simp
qed


lemma ucast_small: "ucast (x :: u8) \<le> (0xff :: u64)" "ucast (y :: u16) \<le> (0xffff :: u64)" "ucast (z :: u32) \<le> (0xffffffff :: u64)"
  "ucast (x :: u8) \<le> (0xffff :: u64)"
  using unsigned_less[of x, where ?'a = nat] unsigned_less[of y, where ?'a = nat] unsigned_less[of z, where ?'a = nat]
  by (simp_all add: word_le_nat_alt unsigned_ucast_eq take_bit_nat_eq_self)

lemma of_nat_small: "n \<le> k \<Longrightarrow> k < 2 ^ 64 \<Longrightarrow> (of_nat n :: u64) \<le> of_nat k"
  by (simp add: word_le_nat_alt unat_of_nat)

section \<open>Messages\<close>

definition memory :: "session_env \<Rightarrow> bool" where
  "memory e = (\<forall>n. e_ca e n)"

lemma ibuf_open_roomy:
  assumes "memory e" and "len \<le> 0xffff"
  shows "\<exists>b. ibuf_open (e_ca e) len = Inr b \<and> roomy b len \<and> ibuf_size b = 0"
  using assms by (auto simp: memory_def ibuf_open_def roomy_def ibuf_wf_def ibuf_left_def ibuf_size_def IBUF_FD_MARK_ON_STACK_def SIZE_MAX_def)

lemma ibuf_dynamic_roomy:
  assumes "memory e" and "len \<le> mx" and "0 < mx" and "mx \<le> 0xffff"
  shows "\<exists>b. ibuf_dynamic (e_ca e) len mx = Inr b \<and> roomy b mx \<and> ibuf_size b = 0"
  using assms by (auto simp: memory_def ibuf_dynamic_def roomy_def ibuf_wf_def ibuf_left_def ibuf_size_def IBUF_FD_MARK_ON_STACK_def SIZE_MAX_def)

lemma newmsg_ok:
  assumes "memory e" and "MSGSIZE_HEADER \<le> len" and "len \<le> 0xffff"
  shows "\<exists>b. session_newmsg e msgtype len = Inr b \<and> roomy b (len - MSGSIZE_HEADER)"
proof -
  have m: "\<forall>n. e_ca e n" using assms(1) by (simp add: memory_def)
  have l: "of_nat len \<le> (0xffff :: u64)" using of_nat_small[OF assms(3)] by simp
  have f: "fits (\<lambda>b. res_bind (ibuf_add (e_ca e) b marker) (\<lambda>b. res_bind (ibuf_add_n16 (e_ca e) b (of_nat len)) (\<lambda>b. ibuf_add_n8 (e_ca e) b (ucast msgtype)))) (16 + (2 + 1))"
  proof (intro fits_bind fits_n16[OF m l] fits_n8[OF m ucast_small(1)])
    show "fits (\<lambda>b. ibuf_add (e_ca e) b marker) 16" using fits_add[OF m, of marker] by (simp add: marker_def)
  qed
  from ibuf_open_roomy[OF assms(1,3)] obtain b where b: "ibuf_open (e_ca e) len = Inr b" "roomy b len" by (elim exE conjE) (rule that)
  then have "roomy b (16 + (2 + 1) + (len - MSGSIZE_HEADER))" using assms(2) by (simp add: MSGSIZE_HEADER_def)
  from fitsD[OF f this] show ?thesis using b(1) by (auto simp: session_newmsg_def)
qed

text \<open>A message that is finished with additions of at most n bytes in all.\<close>

lemma newmsg_then:
  assumes "memory e" and "fits f n" and "MSGSIZE_HEADER + n \<le> len" and "len \<le> 0xffff"
  shows "\<exists>b. res_bind (session_newmsg e msgtype len) f = Inr b"
proof -
  from newmsg_ok[OF assms(1) _ assms(4), of msgtype] assms(3) obtain b where b: "session_newmsg e msgtype len = Inr b" "roomy b (len - MSGSIZE_HEADER)"
    by auto
  have "roomy b (n + (len - MSGSIZE_HEADER - n))" using b(2) assms(3) by simp
  from fitsD[OF assms(2) this] show ?thesis using b(1) by auto
qed

lemma keepalive_built: "memory e \<Longrightarrow> \<exists>b. session_newmsg e BGP_KEEPALIVE MSGSIZE_KEEPALIVE = Inr b"
  using newmsg_ok[of e MSGSIZE_KEEPALIVE BGP_KEEPALIVE] by (auto simp: msg_consts)

lemma update_built:
  assumes "memory e" and "length data \<le> MAX_EXT_PKTSIZE - MSGSIZE_HEADER"
  shows "\<exists>b. res_bind (session_newmsg e BGP_UPDATE (MSGSIZE_HEADER + length data)) (\<lambda>b. ibuf_add (e_ca e) b data) = Inr b"
  using newmsg_then[OF assms(1) fits_add[of "e_ca e" data]] assms by (simp add: memory_def msg_consts)

lemma rrefresh_built:
  fixes afi :: u16 and subtype safi :: u8
  assumes "memory e"
  shows "\<exists>b. res_bind (session_newmsg e BGP_RREFRESH MSGSIZE_RREFRESH) (\<lambda>b. res_bind (ibuf_add_n16 (e_ca e) b (ucast afi)) (\<lambda>b.
    res_bind (ibuf_add_n8 (e_ca e) b (ucast subtype)) (\<lambda>b. ibuf_add_n8 (e_ca e) b (ucast safi)))) = Inr b"
proof -
  have m: "\<forall>n. e_ca e n" using assms by (simp add: memory_def)
  have "fits (\<lambda>b. res_bind (ibuf_add_n16 (e_ca e) b (ucast afi)) (\<lambda>b.
    res_bind (ibuf_add_n8 (e_ca e) b (ucast subtype)) (\<lambda>b. ibuf_add_n8 (e_ca e) b (ucast safi)))) (2 + (1 + 1))"
    by (intro fits_bind fits_n16[OF m] fits_n8[OF m] ucast_small)
  from newmsg_then[OF assms this] show ?thesis by (simp add: msg_consts)
qed

section \<open>The OPEN message\<close>

lemma fits_capa:
  assumes "memory e"
  shows "fits (session_capa_add e c l) 6"
    and "i \<in> set [AID_MIN..<AID_MAX] \<Longrightarrow> fits (session_capa_add_mp e i) 6"
    and "i \<in> set [AID_MIN..<AID_MAX] \<Longrightarrow> fits (session_capa_add_afi e i fl) 6"
    and "i \<in> set [AID_MIN..<AID_MAX] \<Longrightarrow> fits (session_capa_add_ext_nh e i) 6"
proof -
  have m: "\<forall>n. e_ca e n" using assms by (simp add: memory_def)
  note f8 = fits_more[OF fits_n8[OF m]] and f16 = fits_more[OF fits_n16[OF m]] and z = fits_more[OF fits_zero[OF m]]
  show "fits (session_capa_add e c l) 6" unfolding session_capa_add_def capa_ops_def
    by (rule fits_more[OF fits_do_all[of 2]]) (auto intro!: f8 ucast_small)
  assume i: "i \<in> set [AID_MIN..<AID_MAX]"
  then obtain afi safi where a: "aid2afi i = Some (afi, safi)"
    by (cases "aid_vals ! i") (auto simp: aid2afi_def AID_MIN_def AID_UNSPEC_def)
  show "fits (session_capa_add_mp e i) 6" unfolding session_capa_add_mp_def run_ops_def mp_ops_def a
    using fits_more[OF fits_do_all[of 2 "[\<lambda>b. ibuf_add_n16 (e_ca e) b (ucast afi), \<lambda>b. ibuf_add_zero (e_ca e) b 1, \<lambda>b. ibuf_add_n8 (e_ca e) b (ucast safi)]"], of 6]
    by (simp add: f8 f16 z ucast_small del: do_all.simps)
  show "fits (session_capa_add_afi e i fl) 6" unfolding session_capa_add_afi_def run_ops_def afi_ops_def a
    using fits_more[OF fits_do_all[of 2 "[\<lambda>b. ibuf_add_n16 (e_ca e) b (ucast afi), \<lambda>b. ibuf_add_n8 (e_ca e) b (ucast safi), \<lambda>b. ibuf_add_n8 (e_ca e) b (ucast fl)]"], of 6]
    by (simp add: f8 f16 ucast_small del: do_all.simps)
  show "fits (session_capa_add_ext_nh e i) 6" unfolding session_capa_add_ext_nh_def run_ops_def ext_nh_ops_def a
    using fits_more[OF fits_do_all[of 2 "[\<lambda>b. ibuf_add_n16 (e_ca e) b (ucast afi), \<lambda>b. ibuf_add_n16 (e_ca e) b (ucast safi), \<lambda>b. ibuf_add_n16 (e_ca e) b (ucast AFI_IPv6)]"], of 6]
    by (simp add: f16 ucast_small del: do_all.simps)
qed


lemma mp_aids_length: "length (mp_aids p) \<le> 7"
  using length_filter_le[of _ "[AID_MIN..<AID_MAX]"] by (simp add: mp_aids_def AID_MIN_def AID_MAX_def)

lemma mp_aids_sub: "i \<in> set (mp_aids p) \<Longrightarrow> i \<in> set [AID_MIN..<AID_MAX]"
  by (simp add: mp_aids_def)

lemma fits_role:
  assumes "memory e" and "r \<noteq> ROLE_NONE"
  shows "fits (\<lambda>b. res_bind (role2capa r) (\<lambda>r. ibuf_add_n8 (e_ca e) b (ucast r))) 6"
proof -
  obtain v where "role2capa r = Inr v" using assms(2) by (cases r) (auto simp: role2capa_def)
  then show ?thesis using fits_more[OF fits_n8[OF _ ucast_small(1)], of "e_ca e" 6 v] assms(1) by (simp add: memory_def)
qed

lemma inet_aids: "AID_INET \<in> set [AID_MIN..<AID_MAX]" "AID_VPN_IPv4 \<in> set [AID_MIN..<AID_MAX]"
  by (simp_all add: AID_INET_def AID_VPN_IPv4_def AID_MIN_def AID_MAX_def)

lemma fits_open_capas:
  assumes "memory e"
  shows "list_all (\<lambda>f. fits f 6) (open_capas e p)"
proof -
  have m: "\<forall>n. e_ca e n" using assms by (simp add: memory_def)
  have w: "fits (\<lambda>b. ibuf_add_n16 (e_ca e) b (ucast (x :: u16))) 6" "fits (\<lambda>b. ibuf_add_n32 (e_ca e) b (ucast (y :: u32))) 6" for x y
    using fits_more[OF fits_n16[OF m ucast_small(2)]] fits_more[OF fits_n32[OF m ucast_small(3)]] by simp_all
  note c = fits_capa[OF assms]
  show ?thesis unfolding open_capas_def Let_def steps_if_def list_all_append
    by (intro conjI) (auto simp: list_all_iff c(1) w w(1)[of 0, simplified] fits_role[OF assms] intro!: c(2-4)[OF inet_aids(1)] c(2-4)[OF inet_aids(2)] c(2-4)[OF mp_aids_sub])
qed

lemma open_capas_length: "length (open_capas e p) \<le> 34"
proof -
  have "length (concat (map (\<lambda>i. [f i, g i]) xs)) = 2 * length xs" for f g :: "nat \<Rightarrow> ibuf \<Rightarrow> ibuf res" and xs
    by (induction xs) auto
  then show ?thesis using mp_aids_length[of p] by (simp add: open_capas_def Let_def steps_if_def)
qed

lemma open_capas_built:
  assumes "memory e"
  shows "\<exists>opb0 opb. ibuf_dynamic (e_ca e) 0 (MAX_PKTSIZE - MSGSIZE_OPEN_MIN - 6) = Inr opb0 \<and> do_all (open_capas e p) opb0 = Inr opb \<and>
    ibuf_size opb \<le> 204 \<and> roomy opb 0"
proof -
  let ?n = "MAX_PKTSIZE - MSGSIZE_OPEN_MIN - 6"
  from ibuf_dynamic_roomy[OF assms, of 0 ?n] obtain b where b: "ibuf_dynamic (e_ca e) 0 ?n = Inr b" "roomy b ?n" "ibuf_size b = 0"
    by (auto simp: msg_consts)
  have f: "fits (do_all (open_capas e p)) 204"
    by (rule fits_more[OF fits_do_all[OF fits_open_capas[OF assms]]]) (use open_capas_length[of e p] in simp)
  have "roomy b (204 + (?n - 204))" using b(2) by (simp add: msg_consts)
  from fitsD[OF f this] obtain b' where "do_all (open_capas e p) b = Inr b'" "roomy b' (?n - 204)" "ibuf_size b' \<le> ibuf_size b + 204"
    by (elim exE conjE) (rule that)
  then show ?thesis using b roomy_less by fastforce
qed

lemma open_msg_built:
  assumes "memory e"
  shows "\<exists>b. open_msg e p = Inr b"
proof -
  have m: "\<forall>n. e_ca e n" using assms by (simp add: memory_def)
  from open_capas_built[OF assms, of p] obtain opb0 opb where o: "ibuf_dynamic (e_ca e) 0 (MAX_PKTSIZE - MSGSIZE_OPEN_MIN - 6) = Inr opb0"
    "do_all (open_capas e p) opb0 = Inr opb" "ibuf_size opb \<le> 204" "roomy opb 0" by (elim exE conjE) (rule that)
  let ?l = "ibuf_size opb"
  have len: "length (ibuf_content opb) = ?l" using roomy_size[OF o(4)] .
  have n: "of_nat (?l + 2) \<le> (0xff :: u64)" "of_nat ?l \<le> (0xff :: u64)" using of_nat_small[of "?l + 2" 255] of_nat_small[of ?l 255] o(3) by simp_all
  have f4: "fits (\<lambda>b. ibuf_add_n8 (e_ca e) b 4) 1" by (rule fits_n8[OF m]) simp
  have fixed: "fits (do_all [\<lambda>b. ibuf_add_n8 (e_ca e) b 4, \<lambda>b. ibuf_add_n16 (e_ca e) b (ucast x), \<lambda>b. ibuf_add_n16 (e_ca e) b (ucast y),
      \<lambda>b. ibuf_add_n32 (e_ca e) b (ucast z), \<lambda>b. ibuf_add_n8 (e_ca e) b v]) (1 + (2 + (2 + (4 + (1 + 0)))))"
    if "v \<le> 0xff" for x y :: u16 and z :: u32 and v
    using that unfolding do_all_Cons
    by (intro fits_bind f4 fits_n16[OF m] fits_n32[OF m] fits_n8[OF m] ucast_small) (simp_all add: fits_def)
  have params: "fits (do_all [\<lambda>b. ibuf_add_n8 (e_ca e) b (ucast OPT_PARAM_CAPABILITIES), \<lambda>b. ibuf_add_n8 (e_ca e) b (of_nat ?l),
      \<lambda>b. ibuf_add_ibuf (e_ca e) b opb]) (1 + (1 + (?l + 0)))"
    unfolding do_all_Cons ibuf_add_ibuf_def using fits_add[OF m, of "ibuf_content opb"] n(2) len
    by (intro fits_bind fits_n8[OF m] ucast_small) (simp_all add: fits_def)
  note conf = fixed[where x = "pc_local_short_as (p_conf p)" and y = "pc_holdtime (p_conf p)" and z = "p_local_bgpid p"]
  show ?thesis
  proof (cases "?l = 0")
    case True
    have "\<exists>b. res_bind (session_newmsg e BGP_OPEN MSGSIZE_OPEN_MIN) (do_all [\<lambda>b. ibuf_add_n8 (e_ca e) b 4,
        \<lambda>b. ibuf_add_n16 (e_ca e) b (ucast (pc_local_short_as (p_conf p))), \<lambda>b. ibuf_add_n16 (e_ca e) b (ucast (pc_holdtime (p_conf p))),
        \<lambda>b. ibuf_add_n32 (e_ca e) b (ucast (p_local_bgpid p)), \<lambda>b. ibuf_add_n8 (e_ca e) b 0]) = Inr b"
      by (rule newmsg_then[OF assms conf]) (simp_all add: msg_consts)
    then show ?thesis using o(1,2) True by (simp add: open_msg_def Let_def steps_if_def)
  next
    case False
    have "\<exists>b. res_bind (session_newmsg e BGP_OPEN (MSGSIZE_OPEN_MIN + ?l + 2)) (\<lambda>b. res_bind (do_all [\<lambda>b. ibuf_add_n8 (e_ca e) b 4,
        \<lambda>b. ibuf_add_n16 (e_ca e) b (ucast (pc_local_short_as (p_conf p))), \<lambda>b. ibuf_add_n16 (e_ca e) b (ucast (pc_holdtime (p_conf p))),
        \<lambda>b. ibuf_add_n32 (e_ca e) b (ucast (p_local_bgpid p)), \<lambda>b. ibuf_add_n8 (e_ca e) b (of_nat (?l + 2))] b)
        (do_all [\<lambda>b. ibuf_add_n8 (e_ca e) b (ucast OPT_PARAM_CAPABILITIES), \<lambda>b. ibuf_add_n8 (e_ca e) b (of_nat ?l),
          \<lambda>b. ibuf_add_ibuf (e_ca e) b opb])) = Inr b"
      by (rule newmsg_then[OF assms fits_bind[OF conf[OF n(1)] params]]) (use o(3) in \<open>simp_all add: msg_consts\<close>)
    then show ?thesis using o False by (simp add: open_msg_def Let_def steps_if_def res_bind_assoc do_all_Cons)
  qed
qed

end
