(* ===== verification/Session_Inv.thy ===== *)
theory Session_Inv
  imports Session_Trace Session_Build
begin

text \<open>
  The invariant of a session: in every state the socket is open or closed as the state says, and a
  timer runs that takes the session on if its neighbor never answers. It holds as long as memory is
  available and the options of an accepted socket can be set; what happens otherwise is shown at the
  end.
\<close>

section \<open>The invariant\<close>

definition running :: "peer \<Rightarrow> Timer \<Rightarrow> bool" where
  "running p t = (timer_running (p_timers p) t \<noteq> None)"

definition state_ok :: "peer \<Rightarrow> bool" where
  "state_ok p = (case state p of
     STATE_NONE \<Rightarrow> True
   | STATE_IDLE \<Rightarrow> p_fd p = -1 \<and> rqueue p = [] \<and> rbuf p = [] \<and> rpmsg p = None
   | STATE_CONNECT \<Rightarrow> p_fd p \<noteq> -1 \<and> running p Timer_ConnectRetry
   | STATE_ACTIVE \<Rightarrow> p_fd p = -1 \<and> (running p Timer_ConnectRetry \<or> pc_passive (p_conf p) \<or> pc_template (p_conf p))
   | STATE_OPENSENT \<Rightarrow> p_fd p \<noteq> -1 \<and> running p Timer_Hold
   | STATE_OPENCONFIRM \<Rightarrow> p_fd p \<noteq> -1 \<and> running p Timer_Hold \<and> (p_holdtime p \<noteq> 0 \<longrightarrow> running p Timer_Keepalive)
   | STATE_ESTABLISHED \<Rightarrow> p_fd p \<noteq> -1 \<and> (p_holdtime p \<noteq> 0 \<longrightarrow> running p Timer_Hold \<and> running p Timer_Keepalive))"

definition session_inv :: "peer \<Rightarrow> bool" where
  "session_inv p = (timers_ok (p_timers p) \<and> state_ok p)"

definition connect_fd :: "connect_result \<Rightarrow> int option" where
  "connect_fd r = (case r of NoSocket \<Rightarrow> None | ConnectFails f \<Rightarrow> Some f | ConnectInProgress f \<Rightarrow> Some f | ConnectDone f \<Rightarrow> Some f)"

definition good_env :: "session_env \<Rightarrow> bool" where
  "good_env e = (e_now e > 0 \<and> memory e \<and> e_auth_ok e \<and> e_setup_ok e \<and> connect_fd (e_connect e) \<noteq> Some (-1))"

section \<open>What the invariant looks at\<close>

definition same_core :: "peer \<Rightarrow> peer \<Rightarrow> bool" where
  "same_core p p' = (state p' = state p \<and> p_fd p' = p_fd p \<and> p_timers p' = p_timers p \<and> p_holdtime p' = p_holdtime p \<and>
     pc_passive (p_conf p') = pc_passive (p_conf p) \<and> pc_template (p_conf p') = pc_template (p_conf p) \<and>
     rqueue p' = rqueue p \<and> rbuf p' = rbuf p \<and> rpmsg p' = rpmsg p)"

interpretation core: step_rel same_core
  by unfold_locales (simp_all add: same_core_def)

lemma same_core_inv: "same_core p p' \<Longrightarrow> session_inv p' = session_inv p"
  by (simp add: same_core_def session_inv_def state_ok_def running_def cong: session_state.case_cong)

lemma core_upd: "(\<And>p. same_core p (f p)) \<Longrightarrow> keeps same_core (upd f)"
  by (simp add: keeps_def upd_def)

lemma core_stat: "keeps same_core (stat f)"
  unfolding stat_def by (rule core_upd) (simp add: same_core_def)

lemma core_emit: "keeps same_core (emit x)" "keeps same_core (imsg_rde e x)" "keeps same_core session_md5_reload"
  "keeps same_core (session_demote n)"
  by (auto simp: keeps_def emit_def imsg_rde_def session_md5_reload_def session_demote_def upd_def same_core_def)

lemma core_send:
  assumes "r = Inr b" and "keeps same_core k"
  shows "keeps same_core (send_or_fail e r k)"
  using assms by (auto simp: keeps_def send_or_fail_def session_sendmsg_def same_core_def)

lemma core_open:
  assumes "memory e"
  shows "keeps same_core (session_open e)"
  unfolding keeps_def
proof (intro allI impI)
  fix p p' assume a: "session_open e p = Inr p'"
  obtain b where "open_msg e p = Inr b" using open_msg_built[OF assms] by blast
  from keepsD[OF core_send[OF this core_stat], of e] show "same_core p p'" using a unfolding session_open_def by blast
qed

lemma core_rrefresh:
  assumes "memory e"
  shows "keeps same_core (session_rrefresh e a subtype)"
proof (cases "aid2afi a")
  case None
  then show ?thesis unfolding session_rrefresh_def Let_def
    by (simp only: option.simps) (intro core.keeps_intros core_stat keeps_Inl)
next
  case (Some x)
  obtain afi safi where x: "x = (afi, safi)" by (cases x)
  obtain b where "res_bind (session_newmsg e BGP_RREFRESH MSGSIZE_RREFRESH) (\<lambda>b. res_bind (ibuf_add_n16 (e_ca e) b (ucast afi)) (\<lambda>b.
    res_bind (ibuf_add_n8 (e_ca e) b (ucast subtype)) (\<lambda>b. ibuf_add_n8 (e_ca e) b (ucast safi)))) = Inr b"
    using rrefresh_built[OF assms] by blast
  note send = core_send[OF this core_stat, of e]
  show ?thesis unfolding session_rrefresh_def Let_def Some x
    by (simp only: option.simps prod.case) (intro core.keeps_intros core_stat send keeps_Inl)
qed

lemma core_notification:
  assumes "memory e"
  shows "keeps same_core (session_notification e errcode subcode data)"
proof -
  have m: "\<forall>n. e_ca e n" using assms by (simp add: memory_def)
  let ?n = "\<lambda>hard d. res_bind (session_newmsg e BGP_NOTIFICATION (MSGSIZE_NOTIFICATION_MIN + (if hard then 2 else 0) + length d)) (\<lambda>b.
      res_bind (if hard then res_bind (ibuf_add_n8 (e_ca e) b (ucast ERR_CEASE)) (\<lambda>b. ibuf_add_n8 (e_ca e) b (ucast ERR_CEASE_HARD_RESET)) else Inr b) (\<lambda>b.
      res_bind (ibuf_add_n8 (e_ca e) b (ucast errcode)) (\<lambda>b. res_bind (ibuf_add_n8 (e_ca e) b (ucast subcode)) (\<lambda>b. ibuf_add (e_ca e) b d))))"
  have built: "\<exists>b. ?n hard d = Inr b" if "length d \<le> 4075" for hard and d :: bytes
  proof -
    have h: "fits (\<lambda>b. if hard then res_bind (ibuf_add_n8 (e_ca e) b (ucast ERR_CEASE)) (\<lambda>b. ibuf_add_n8 (e_ca e) b (ucast ERR_CEASE_HARD_RESET)) else Inr b)
        (if hard then 1 + 1 else 0)"
      using fits_bind[OF fits_n8[OF m ucast_small(1)] fits_n8[OF m ucast_small(1)]] by (simp add: fits_def)
    show ?thesis
      by (rule newmsg_then[OF assms fits_bind[OF h fits_bind[OF fits_n8[OF m ucast_small(1)] fits_bind[OF fits_n8[OF m ucast_small(1)] fits_add[OF m]]]]])
         (use that in \<open>simp_all add: msg_consts\<close>)
  qed
  have send: "keeps same_core (\<lambda>p. send_or_fail e (?n (g p) (h p)) (stat f) p)" if short: "\<And>p. length (h p) \<le> 4075" for f g h
    unfolding keeps_def
  proof (intro allI impI)
    fix p p' assume a: "send_or_fail e (?n (g p) (h p)) (stat f) p = Inr p'"
    obtain b where "?n (g p) (h p) = Inr b" using built[OF short] by blast
    from keepsD[OF core_send[OF this core_stat] a] show "same_core p p'" .
  qed
  show ?thesis unfolding session_notification_def Let_def
    by (intro core.keeps_if core.keeps_Inr send) (auto split: option.split simp: msg_consts min_def)
qed


section \<open>The idle state\<close>

definition same_conn :: "peer \<Rightarrow> peer \<Rightarrow> bool" where
  "same_conn p p' = (p_fd p' = p_fd p \<and> rqueue p' = rqueue p \<and> rbuf p' = rbuf p \<and> rpmsg p' = rpmsg p)"

interpretation conn: step_rel same_conn
  by unfold_locales (simp_all add: same_conn_def)

lemma conn_basic:
  "keeps same_conn (tset e t off)" "keeps same_conn (tstop t)" "keeps same_conn (emit x)"
  "keeps same_conn (imsg_rde e x)" "keeps same_conn session_md5_reload"
  by (auto simp: keeps_def same_conn_def tstop_def emit_def imsg_rde_def session_md5_reload_def dest: tset_Inr)

lemma conn_upd: "(\<And>p. same_conn p (f p)) \<Longrightarrow> keeps same_conn (upd f)"
  by (simp add: keeps_def upd_def)

lemma conn_restart_aid: "keeps same_conn (restart_aid e i)"
  unfolding restart_aid_def by (intro conn.keeps_intros conn_basic conn_upd; simp add: same_conn_def)

lemma conn_graceful_restart: "keeps same_conn (session_graceful_restart e)"
  unfolding session_graceful_restart_def Let_def
  by (rule conn.keeps_do_all_dep, intro conn.keeps_intros conn_basic conn_upd conn_restart_aid) (simp add: same_conn_def)

lemma conn_session_down: "keeps same_conn (session_down e)"
  unfolding session_down_def by (intro conn.keeps_intros conn_basic conn_upd) (simp add: same_conn_def)

lemma conn_fun: "(\<And>p. same_conn p (f p)) \<Longrightarrow> keeps same_conn (\<lambda>p. Inr (f p))"
  by (simp add: keeps_def)

lemma conn_idle_react: "keeps same_conn (idle_react e event)"
  unfolding idle_react_def
  by (intro conn.keeps_intros conn_basic conn_upd conn_session_down conn_graceful_restart) (simp add: same_conn_def)

lemma enter_idle_conn:
  assumes "enter_idle e event p = Inr p'"
  shows "p_fd p' = -1 \<and> rqueue p' = [] \<and> rbuf p' = [] \<and> rpmsg p' = None"
proof -
  let ?clear = "upd (\<lambda>p. p\<lparr>wqueue := [], rqueue := [], rbuf := [], rpmsg := None, rpending := False, capa_peer := no_capa\<rparr>)"
  let ?tl = "[session_md5_reload,
      \<lambda>p. if prev_state p = STATE_NONE \<or> prev_state p = STATE_ESTABLISHED then Inr (p\<lparr>capa_ann := pc_capabilities (p_conf p)\<rparr>) else Inr p,
      idle_react e event]"
  have k: "keeps same_conn (do_all ?tl)"
    by (intro conn.keeps_intros conn_basic conn_fun conn_idle_react) (simp add: same_conn_def)
  from assms obtain q r where "do_all [session_close, ?clear] q = Inr r" "do_all ?tl r = Inr p'"
    unfolding enter_idle_def by (simp add: res_bind_Inr_iff) blast
  then show ?thesis using keepsD[OF k] by (auto simp: session_close_def upd_def same_conn_def simp del: do_all.simps(2)[of session_md5_reload])
qed

lemma idle_inv:
  assumes "e_now e > 0" and "timers_ok (p_timers p)" and "change_state e STATE_IDLE event p = Inr p'"
  shows "session_inv p'" and "state p' = STATE_IDLE"
proof -
  show st: "state p' = STATE_IDLE" using change_state_state[OF assms(3)] by simp
  have "timers_ok (p_timers p')" using keepsD[OF quiet_change_state[OF assms(1)] assms(3)] assms(2) by (simp add: quiet_step_def)
  moreover have "enter_idle e event (p\<lparr>prev_state := state p, state := STATE_IDLE\<rparr>) = Inr p'" using assms(3) by (simp add: change_state_def)
  ultimately show "session_inv p'" using enter_idle_conn st by (simp add: session_inv_def state_ok_def)
qed


section \<open>Connecting\<close>

lemma running_simps:
  "running (p\<lparr>p_timers := th\<rparr>) t = (timer_running th t \<noteq> None)"
  by (simp add: running_def)

lemma change_opensent: "change_state e STATE_OPENSENT event p = Inr (p\<lparr>prev_state := state p, state := STATE_OPENSENT\<rparr>)"
  "change_state e STATE_OPENCONFIRM event p = Inr (p\<lparr>prev_state := state p, state := STATE_OPENCONFIRM\<rparr>)"
  by (simp_all add: change_state_def)

lemma con_open_inv:
  assumes "e_now e > 0" and "memory e" and "timers_ok (p_timers p)" and "p_fd p \<noteq> -1" and "con_open e p = Inr p'"
  shows "session_inv p'"
proof -
  obtain q where q: "session_open e p = Inr q"
    "do_all [tstop Timer_ConnectRetry, upd (\<lambda>p. p\<lparr>p_holdtime := INTERVAL_HOLD_INITIAL\<rparr>), start_timer_holdtime e, change_state e STATE_OPENSENT EVNT_CON_OPEN] q = Inr p'"
    using assms(5) by (auto simp: con_open_def res_bind_Inr_iff)
  have "timers_ok (p_timers q)" "p_fd q \<noteq> -1" using keepsD[OF core_open[OF assms(2)] q(1)] assms(3,4) by (simp_all add: same_core_def)
  then show ?thesis using q(2) assms(1)
    by (auto simp: res_bind_Inr_iff tstop_def upd_def start_timer_holdtime_def INTERVAL_HOLD_INITIAL_def change_opensent
        session_inv_def state_ok_def running_def timer_stop_ok set_at_ok dest!: tset_Inr)
qed

lemma active_inv:
  assumes "timers_ok (p_timers p)" and "p_fd p = -1" and "running p Timer_ConnectRetry \<or> pc_passive (p_conf p) \<or> pc_template (p_conf p)"
    and "change_state e STATE_ACTIVE event p = Inr p'"
  shows "session_inv p'"
  using assms keepsD[OF core_emit(3), of "p\<lparr>prev_state := state p, state := STATE_ACTIVE\<rparr>" p']
  by (auto simp: change_state_def same_core_def session_inv_def state_ok_def running_def)

lemma tset_running:
  assumes "e_now e > 0" and "timers_ok (p_timers p)" and "tset e t off p = Inr p'"
  shows "timers_ok (p_timers p')" and "running p' u = (u = t \<or> running p u)" and "\<exists>th. p' = p\<lparr>p_timers := th\<rparr>"
  using assms(1,2) tset_Inr[OF assms(3)] by (auto simp: set_at_ok running_def)

lemma con_openfail_inv:
  assumes "e_now e > 0" and "timers_ok (p_timers p)" and "con_openfail e p = Inr p'"
  shows "session_inv p'"
proof -
  obtain q r where q: "tset e Timer_ConnectRetry (\<lambda>p. ucast (pc_connectretry (p_conf p))) p = Inr q" "session_close q = Inr r"
      "change_state e STATE_ACTIVE EVNT_CON_OPENFAIL r = Inr p'"
    using assms(3) by (auto simp: con_openfail_def res_bind_Inr_iff)
  have "p_fd r = -1" "p_timers r = p_timers q" using q(2) by (auto simp: session_close_def)
  then show ?thesis using tset_running[OF assms(1,2) q(1)] active_inv[OF _ _ _ q(3)] by (simp add: running_def)
qed

lemma good_fields:
  assumes "good_env e"
  shows "e_now e > 0" "memory e" "e_auth_ok e" "e_setup_ok e" "connect_fd (e_connect e) \<noteq> Some (-1)"
  using assms by (auto simp: good_env_def)

lemma session_connect_inv:
  assumes "good_env e" and "timers_ok (p_timers p)" and "state p = STATE_CONNECT" and "running p Timer_ConnectRetry"
    and "session_connect e p = Inr p'"
  shows "session_inv p'"
proof (cases "p_fd p = -1")
  case False
  then show ?thesis using assms(2-5) by (auto simp: session_connect_def session_inv_def state_ok_def)
next
  case True
  note fd = good_fields(5)[OF assms(1)] and fail = con_openfail_inv[OF good_fields(1)[OF assms(1)]] and opn = con_open_inv[OF good_fields(1,2)[OF assms(1)]]
  show ?thesis
  proof (cases "e_connect e")
    case NoSocket
    then show ?thesis using True assms(2,5) fail[of p] by (simp add: session_connect_def)
  next
    case (ConnectFails f)
    then show ?thesis using True assms(2,5) fail[of "p\<lparr>p_fd := f\<rparr>"] by (simp add: session_connect_def)
  next
    case (ConnectInProgress f)
    then have "p' = p\<lparr>p_fd := f\<rparr>" "f \<noteq> -1" using True assms(5) fd by (auto simp: session_connect_def connect_fd_def)
    then show ?thesis using assms(2-4) by (simp add: session_inv_def state_ok_def running_def)
  next
    case (ConnectDone f)
    then show ?thesis using True assms(2,5) fd opn[of "p\<lparr>p_fd := f\<rparr>"] by (simp add: session_connect_def connect_fd_def)
  qed
qed

lemma change_connect:
  "state p \<noteq> STATE_ESTABLISHED \<Longrightarrow> change_state e STATE_CONNECT event p = Inr (p\<lparr>prev_state := state p, state := STATE_CONNECT\<rparr>)"
  by (simp add: change_state_def enter_connect_def)

lemma start_connect_inv:
  assumes "good_env e" and "timers_ok (p_timers p)" and "state p \<noteq> STATE_ESTABLISHED"
    and "do_all [change_state e STATE_CONNECT event, tset e Timer_ConnectRetry off, session_connect e] p = Inr p'"
  shows "session_inv p'"
proof -
  let ?p = "p\<lparr>prev_state := state p, state := STATE_CONNECT\<rparr>"
  from assms(3,4) obtain q where t: "tset e Timer_ConnectRetry off ?p = Inr q" "session_connect e q = Inr p'"
    by (auto simp: change_connect res_bind_Inr_iff)
  show ?thesis
    by (rule session_connect_inv[OF assms(1) _ _ _ t(2)]) (use tset_running[OF good_fields(1)[OF assms(1)] _ t(1)] assms(2) in auto)
qed

lemma reconnect_inv:
  assumes "good_env e" and "timers_ok (p_timers p)" and "state p \<noteq> STATE_ESTABLISHED" and "reconnect e event p = Inr p'"
  shows "session_inv p'"
proof -
  from assms(4) obtain q r where q: "tset e Timer_ConnectRetry (\<lambda>p. ucast (p_holdtime p)) p = Inr q"
      "change_state e STATE_CONNECT event q = Inr r" "session_connect e r = Inr p'"
    by (auto simp: reconnect_def res_bind_Inr_iff)
  note t = tset_running[OF good_fields(1)[OF assms(1)] assms(2) q(1)]
  have "r = q\<lparr>prev_state := state q, state := STATE_CONNECT\<rparr>" using change_connect[of q e event] q(2) t(3) assms(3) by auto
  then show ?thesis using t by (intro session_connect_inv[OF assms(1) _ _ _ q(3)]) (simp_all add: running_def)
qed

section \<open>The states before OPEN\<close>

lemma stop_timers_ok: "tstop t p = Inr p' \<Longrightarrow> timers_ok (p_timers p) \<Longrightarrow> timers_ok (p_timers p') \<and> (\<exists>th. p' = p\<lparr>p_timers := th\<rparr>)"
  by (auto simp: tstop_def timer_stop_ok)

lemma fsm_connect_inv:
  assumes "good_env e" and "session_inv p" and "state p = STATE_CONNECT" and "fsm_connect e event p = Inr p'"
  shows "session_inv p'"
proof -
  have ok: "timers_ok (p_timers p)" "p_fd p \<noteq> -1" using assms(2,3) by (auto simp: session_inv_def state_ok_def)
  note now = good_fields(1)[OF assms(1)]
  have retry: "do_all [tset e Timer_ConnectRetry (\<lambda>p. ucast (pc_connectretry (p_conf p))), session_connect e] p = Inr p' \<Longrightarrow> session_inv p'"
  proof -
    assume "do_all [tset e Timer_ConnectRetry (\<lambda>p. ucast (pc_connectretry (p_conf p))), session_connect e] p = Inr p'"
    then obtain q where q: "tset e Timer_ConnectRetry (\<lambda>p. ucast (pc_connectretry (p_conf p))) p = Inr q" "session_connect e q = Inr p'"
      by (auto simp: res_bind_Inr_iff)
    show "session_inv p'"
      by (rule session_connect_inv[OF assms(1) _ _ _ q(2)]) (use tset_running[OF now ok(1) q(1)] assms(3) in auto)
  qed
  show ?thesis
    using assms(2,4) con_open_inv[OF now good_fields(2)[OF assms(1)] ok] con_openfail_inv[OF now ok(1)] idle_inv(1)[OF now ok(1)] retry
    by (cases event) (simp_all add: fsm_connect_def del: do_all.simps)
qed

lemma fsm_active_inv:
  assumes "good_env e" and "session_inv p" and "state p = STATE_ACTIVE" and "fsm_active e event p = Inr p'"
    and "event = EVNT_CON_OPEN \<longrightarrow> False"
  shows "session_inv p'"
proof -
  have ok: "timers_ok (p_timers p)" using assms(2) by (auto simp: session_inv_def)
  note now = good_fields(1)[OF assms(1)]
  show ?thesis
    using assms(2-5) con_openfail_inv[OF now ok(1)] idle_inv(1)[OF now ok(1)] reconnect_inv[OF assms(1) ok]
    by (cases event) (auto simp: fsm_active_def split: if_splits)
qed

lemma tstop_running:
  assumes "timers_ok (p_timers p)" and "tstop t p = Inr p'"
  shows "timers_ok (p_timers p')" and "running p' u = (u \<noteq> t \<and> running p u)" and "\<exists>th. p' = p\<lparr>p_timers := th\<rparr>"
  using assms by (auto simp: tstop_def timer_stop_ok timer_running_stop running_def split: if_splits)

lemma change_active:
  assumes "change_state e STATE_ACTIVE event p = Inr p'"
  shows "p_timers p' = p_timers p" "p_fd p' = p_fd p" "state p' = STATE_ACTIVE" "p_conf p' = p_conf p"
  using assms by (auto simp: change_state_def session_md5_reload_def emit_def Let_def split: if_splits)

lemma idle_start_inv:
  assumes "good_env e" and "session_inv p" and "state p = STATE_IDLE" and "idle_start e p = Inr p'"
  shows "session_inv p'"
proof -
  note now = good_fields(1)[OF assms(1)]
  have idle: "timers_ok (p_timers p)" "p_fd p = -1" using assms(2,3) by (auto simp: session_inv_def state_ok_def)
  consider (dep) "tstop Timer_ConnectRetry p = Inr p'"
    | (pass) q where "pc_passive (p_conf p) \<or> pc_template (p_conf p)" "change_state e STATE_ACTIVE EVNT_START p = Inr q" "tstop Timer_ConnectRetry q = Inr p'"
    | (wait) q h where "change_state e STATE_ACTIVE EVNT_START p = Inr q" "tset e Timer_ConnectRetry (\<lambda>_. h) q = Inr p'"
    | (conn) "do_all [change_state e STATE_CONNECT EVNT_START, tset e Timer_ConnectRetry (\<lambda>p. ucast (pc_connectretry (p_conf p))), session_connect e] p = Inr p'"
    using assms(4) by (auto simp: idle_start_def Let_def res_bind_Inr_iff simp del: do_all.simps(2)[of "change_state e STATE_CONNECT EVNT_START"] split: if_splits)
  then show ?thesis
  proof cases
    case dep
    then show ?thesis using assms(2,3) by (auto simp: tstop_def session_inv_def state_ok_def timer_stop_ok)
  next
    case pass
    note a = change_active[OF pass(2)] and t = tstop_running[OF _ pass(3)]
    have "timers_ok (p_timers p')" "\<exists>th. p' = q\<lparr>p_timers := th\<rparr>" using t(1,3) a(1) idle(1) by simp_all
    then show ?thesis using a(2-4) pass(1) idle(2) by (auto simp: session_inv_def state_ok_def)
  next
    case wait
    note a = change_active[OF wait(1)] and t = tset_running[OF now _ wait(2)]
    have "timers_ok (p_timers p')" "\<exists>th. p' = q\<lparr>p_timers := th\<rparr>" "running p' Timer_ConnectRetry" using t(1,3) t(2)[of Timer_ConnectRetry] a(1) idle(1) by simp_all
    then show ?thesis using a(2-4) idle(2) by (auto simp: session_inv_def state_ok_def)
  next
    case conn
    then show ?thesis using start_connect_inv[OF assms(1) idle(1)] assms(3) by simp
  qed
qed

lemma tstop_idle_inv: "tstop t p = Inr p' \<Longrightarrow> session_inv p \<Longrightarrow> state p = STATE_IDLE \<Longrightarrow> session_inv p' \<and> state p' = STATE_IDLE"
  by (auto simp: tstop_def session_inv_def state_ok_def timer_stop_ok)

lemma fsm_idle_inv:
  assumes "good_env e" and "session_inv p" and "state p = STATE_IDLE" and "fsm_idle e event p = Inr p'"
  shows "session_inv p'"
proof -
  have start: "session_inv p'" if "do_all [tstop Timer_Hold, tstop Timer_SendHold, tstop Timer_Keepalive, tstop Timer_IdleHold, idle_start e] p = Inr p'"
  proof -
    from that obtain a b c d where t: "tstop Timer_Hold p = Inr a" "tstop Timer_SendHold a = Inr b" "tstop Timer_Keepalive b = Inr c"
      "tstop Timer_IdleHold c = Inr d" and r: "idle_start e d = Inr p'" by (auto simp: res_bind_Inr_iff)
    note i = tstop_idle_inv[OF t(1) assms(2,3)]
    note i = tstop_idle_inv[OF t(2) i[THEN conjunct1] i[THEN conjunct2]]
    note i = tstop_idle_inv[OF t(3) i[THEN conjunct1] i[THEN conjunct2]]
    note i = tstop_idle_inv[OF t(4) i[THEN conjunct1] i[THEN conjunct2]]
    show ?thesis using idle_start_inv[OF assms(1) _ _ r] i by simp
  qed
  have stop: "tstop Timer_IdleHold p = Inr p' \<Longrightarrow> session_inv p'" using tstop_idle_inv[of Timer_IdleHold p p'] assms(2,3) by simp
  show ?thesis using start stop assms(2,4) by (cases event) (simp_all add: fsm_idle_def del: do_all.simps)
qed

end
