(* ===== verification/Session_Correct.thy ===== *)
theory Session_Correct
  imports Session_Inv
begin

text \<open>
  The invariant of a session holds in every reachable state, and what becomes of a session when
  memory or the set-up of a socket fails.
\<close>

section \<open>Receiving an OPEN message\<close>

definition same_link :: "peer \<Rightarrow> peer \<Rightarrow> bool" where
  "same_link p p' = (state p' = state p \<and> p_fd p' = p_fd p \<and> p_timers p' = p_timers p)"

interpretation link: step_rel same_link
  by unfold_locales (simp_all add: same_link_def)

lemma steady_timers_ok: "steady_step p p' \<Longrightarrow> timers_ok (p_timers p) \<Longrightarrow> timers_ok (p_timers p')"
  by (simp add: steady_step_def quiet_step_def)

lemma link_peer_capa: "same_link p (peer_capa f p)"
  by (simp add: same_link_def peer_capa_def)

lemma link_parse_capa:
  assumes "parse_capa e code body p as = Inr (p', as', True)"
  shows "same_link p p'"
proof -
  have u: "same_link p (peer_capa f p)" "same_link p (peer_capa f p\<lparr>p_remote_role := r\<rparr>)" "same_link p p" for f r
    by (simp_all add: same_link_def peer_capa_def)
  show ?thesis using assms u
    by (auto simp: parse_capa_def Let_def res_bind_Inr_iff split: if_splits list.splits)
qed

lemma link_parse_capabilities: "parse_capabilities e buf p as = Inr (p', as', True) \<Longrightarrow> same_link p p'"
proof (induction e buf p as arbitrary: p' as' rule: parse_capabilities.induct)
  case (1 e buf p as)
  note IH = 1(1)
  from 1(2) show ?case
    by (subst (asm) parse_capabilities.simps)
       (auto split: list.splits if_splits sum.splits prod.splits intro: link.refl link.trans[OF link_parse_capa IH])
qed

lemma open_fails_inv:
  assumes "e_now e > 0" and "memory e" and "timers_ok (p_timers p)" and "open_fails e subcode data p = Inr p'"
  shows "session_inv p'"
proof -
  obtain q where q: "session_notification e ERR_OPEN subcode data p = Inr q" "change_state e STATE_IDLE EVNT_RCVD_OPEN q = Inr p'"
    using assms(4) by (auto simp: open_fails_def res_bind_Inr_iff)
  have "timers_ok (p_timers q)" using keepsD[OF core_notification[OF assms(2)] q(1)] assms(3) by (simp add: same_core_def)
  then show ?thesis using idle_inv(1)[OF assms(1) _ q(2)] by simp
qed

lemma parse_params_result:
  assumes "e_now e > 0" and "memory e"
  shows "timers_ok (p_timers p) \<Longrightarrow> parse_params e ext params p as = Inr (p', as', ok) \<Longrightarrow>
    (if ok then same_link p p' else session_inv p')"
  using assms
proof (induction e ext params p as arbitrary: p' as' ok rule: parse_params.induct)
  case (1 e ext params p as)
  note fails = open_fails_inv[OF 1(4,5)]
  show ?case
  proof (cases "params = []")
    case True
    then show ?thesis using 1(3) by (subst (asm) parse_params.simps) (simp add: link.refl)
  next
    case False
    note ne = this
    show ?thesis
    proof (cases "op_header ext params")
      case None
      then show ?thesis using 1(3) ne by (subst (asm) parse_params.simps) (simp add: link.refl)
    next
      case (Some h)
      obtain ty n r where h: "h = (ty, n, r)" by (cases h) auto
      note st = parse_params.simps[of e ext params p as, unfolded Some h, simplified ne if_False option.case prod.case]
      show ?thesis
      proof (cases "length r < n \<or> ty \<noteq> OPT_PARAM_CAPABILITIES")
        case True
        then show ?thesis using 1(2,3) fails[OF 1(2)] unfolding st by (auto simp: link.refl res_bind_Inr_iff split: if_splits)
      next
        case False
        then obtain q as2 ok2 where c: "parse_capabilities e (take n r) p as = Inr (q, as2, ok2)"
          using 1(3) unfolding st by (auto split: sum.splits)
        have t: "timers_ok (p_timers q)" using steady_timers_ok[OF steady_parse_capabilities[OF 1(4) c] 1(2)] .
        show ?thesis
        proof (cases ok2)
          case True
          then have l: "same_link p q" using link_parse_capabilities c by simp
          have "parse_params e ext (drop n r) q as2 = Inr (p', as', ok)" using 1(3) c True False unfolding st by simp
          from 1(1)[OF ne Some h[symmetric] refl _ _ c refl refl True t this 1(4,5)] False
          show ?thesis using link.trans[OF l] by (auto split: if_splits)
        next
          case nok: False
          then show ?thesis using 1(3) c False fails[OF t] unfolding st by (auto simp: res_bind_Inr_iff)
        qed
      qed
    qed
  qed
qed


lemma link_upd: "(\<And>p. same_link p (f p)) \<Longrightarrow> keeps same_link (upd f)"
  by (simp add: keeps_def upd_def)

lemma link_flush: "keeps same_link (session_graceful_flush e i)"
  by (auto simp: keeps_def session_graceful_flush_def imsg_rde_def emit_def same_link_def split: if_splits)

lemma link_negotiate: "keeps same_link (negotiate e)"
proof -
  have gr: "keeps same_link (neg_gr_aid e i)" for i
    unfolding keeps_def
  proof (intro allI impI)
    fix p p' assume a: "neg_gr_aid e i p = Inr p'"
    have s: "keeps same_link (do_all [\<lambda>p. if c then session_graceful_flush e i p else Inr p,
        upd (\<lambda>p. if gr_restart (capa_ann p) \<noteq> 0
             then p\<lparr>capa_neg := (capa_neg p)\<lparr>gr_flags := (gr_flags (capa_neg p))(i := f)\<rparr>\<rparr> else p)])" for c f
      by (intro link.keeps_intros link_flush link_upd) (simp add: same_link_def)
    have "same_link p (if x then peer_capa g p else p)" for x g by (simp add: link_peer_capa link.refl)
    then show "same_link p p'" using a link.trans keepsD[OF s] unfolding neg_gr_aid_def Let_def by blast
  qed
  show ?thesis unfolding negotiate_def by (intro link.keeps_intros gr link_upd; simp add: same_link_def)
qed

lemma link_set_policy: "same_link p (set_policy p)"
  by (simp add: same_link_def set_policy_def)

lemma capa_neg_calc_result:
  assumes "capa_neg_calc e p = Inr (p', True)"
  shows "same_link p p'"
proof -
  obtain q where q: "negotiate e p = Inr q" using assms by (auto simp: capa_neg_calc_def res_bind_Inr_iff)
  have nf: "neg_fails e sc d r \<noteq> Inr (x, True)" for sc d r x by (auto simp: neg_fails_def res_bind_Inr_iff)
  have "enforce_capas e (set_policy q) = Inr (p', True)"
    using assms q nf by (auto simp: capa_neg_calc_def split: if_splits)
  then have "p' = set_policy q" using nf by (auto simp: enforce_capas_def split: option.splits sum.splits)
  then show ?thesis using link.trans[OF keepsD[OF link_negotiate q] link_set_policy] by simp
qed

lemma open_checks_result:
  assumes "e_now e > 0" and "memory e" and "timers_ok (p_timers p)" and "open_checks e as p = Inr (p', ok)"
  shows "if ok then same_link p p' else session_inv p'"
proof -
  have ad: "same_link p (adopt_as as p)" by (simp add: same_link_def adopt_as_def Let_def)
  then have t: "timers_ok (p_timers (adopt_as as p))" using assms(3) by (simp add: same_link_def)
  note fails = open_fails_inv[OF assms(1,2) t]
  consider (refused) subcode where "open_fails e subcode None (adopt_as as p) = Inr p'" "\<not> ok"
    | (negd) "capa_neg_calc e (adopt_as as p) = Inr (p', True)" "ok"
    | (notneg) q where "capa_neg_calc e (adopt_as as p) = Inr (q, False)" "change_state e STATE_IDLE EVNT_RCVD_OPEN q = Inr p'" "\<not> ok"
    using assms(4) by (auto simp: open_checks_def Let_def res_bind_Inr_iff split: if_splits)
  then show ?thesis
  proof cases
    case refused
    then show ?thesis using fails by simp
  next
    case negd
    then show ?thesis using link.trans[OF ad capa_neg_calc_result[OF negd(1)]] by simp
  next
    case notneg
    then show ?thesis using idle_inv(1)[OF assms(1) steady_timers_ok[OF steady_capa_neg_calc[OF assms(1) notneg(1)] t] notneg(2)] by simp
  qed
qed

lemma open_refused_result:
  assumes "e_now e > 0" and "memory e" and "timers_ok (p_timers p)" and "open_refused e subcode data p = Inr (p', ok)"
  shows "\<not> ok \<and> session_inv p'"
  using assms(4) open_fails_inv[OF assms(1-3)] by (auto simp: open_refused_def res_bind_Inr_iff)

lemma open_params_result:
  assumes "e_now e > 0" and "memory e" and "timers_ok (p_timers p)" and "open_params e optparamlen r as p = Inr (p', ok)"
  shows "if ok then same_link p p' else session_inv p'"
proof -
  note refused = open_refused_result[OF assms(1,2)] and checks = open_checks_result[OF assms(1,2)]
  consider (refused) "open_refused e 0 None p = Inr (p', ok)" | (plain) "open_checks e as p = Inr (p', ok)"
    | (down) ext params as2 where "parse_params e ext params p as = Inr (p', as2, False)" "\<not> ok"
    | (bad) ext params q as2 where "parse_params e ext params p as = Inr (q, as2, True)" "open_refused e 0 None q = Inr (p', ok)"
    | (opts) ext params q as2 as' where "parse_params e ext params p as = Inr (q, as2, True)" "open_checks e as' q = Inr (p', ok)"
    using assms(4) by (auto simp: open_params_def res_bind_Inr_iff split: prod.splits if_splits option.splits)
  then show ?thesis
  proof cases
    case refused
    then show ?thesis using open_refused_result[OF assms(1-3) refused] by simp
  next
    case plain
    then show ?thesis using checks[OF assms(3)] by simp
  next
    case down
    then show ?thesis using parse_params_result[OF assms(1-3) down(1)] by simp
  next
    case bad
    have "timers_ok (p_timers q)" using parse_params_result[OF assms(1-3) bad(1)] assms(3) by (simp add: same_link_def)
    then show ?thesis using refused[OF _ bad(2)] by simp
  next
    case opts
    have l: "same_link p q" using parse_params_result[OF assms(1-3) opts(1)] by simp
    then have "timers_ok (p_timers q)" using assms(3) by (simp add: same_link_def)
    then show ?thesis using checks[OF _ opts(2)] link.trans[OF l] by (auto split: if_splits)
  qed
qed

lemma parse_open_result:
  assumes "e_now e > 0" and "memory e" and "timers_ok (p_timers p)" and "parse_open e msg p = Inr (p', ok)"
  shows "if ok then same_link p p' else session_inv p'"
proof -
  define G where "G = (if ok then same_link p p' else session_inv p')"
  have R: "open_refused e subcode data q = Inr (p', ok) \<Longrightarrow> p_timers q = p_timers p \<Longrightarrow> G" for q subcode data
    using open_refused_result[OF assms(1,2), of q subcode data p' ok] assms(3) by (simp add: G_def)
  have P: "open_params e optlen r as q = Inr (p', ok) \<Longrightarrow> same_link p q \<Longrightarrow> G" for q optlen r as
    using open_params_result[OF assms(1,2), of q optlen r as p' ok] assms(3) link.trans[of p q p'] by (auto simp: G_def same_link_def split: if_splits)
  have "G" using assms(4) unfolding parse_open_def Let_def
    by (auto split: sum.splits prod.splits if_splits intro: R P simp: same_link_def)
  then show ?thesis by (simp add: G_def)
qed


section \<open>The open states\<close>

lemma notify_idle_inv:
  assumes "good_env e" and "timers_ok (p_timers p)" and "notify_idle e errcode subcode event p = Inr p'"
  shows "session_inv p'"
proof -
  obtain q where q: "session_notification e errcode subcode None p = Inr q" "change_state e STATE_IDLE event q = Inr p'"
    using assms(3) by (auto simp: notify_idle_def res_bind_Inr_iff)
  have "timers_ok (p_timers q)" using keepsD[OF core_notification[OF good_fields(2)[OF assms(1)]] q(1)] assms(2) by (simp add: same_core_def)
  then show ?thesis using idle_inv(1)[OF good_fields(1)[OF assms(1)] _ q(2)] by simp
qed

lemma parse_notification_inv:
  assumes "good_env e" and "timers_ok (p_timers p)" and "parse_notification e msg p = Inr p'"
  shows "session_inv p'"
proof -
  note idle = idle_inv(1)[OF good_fields(1)[OF assms(1)]]
  have rec: "do_all [upd (\<lambda>p. p\<lparr>p_stats := f (p_stats p)\<rparr>), change_state e STATE_IDLE event] p = Inr p' \<Longrightarrow> session_inv p'" for f event
    using idle[of "p\<lparr>p_stats := f (p_stats p)\<rparr>" event p'] assms(2) by (simp add: upd_def res_bind_Inr_iff)
  show ?thesis using assms(3) idle[OF assms(2)] rec unfolding parse_notification_def Let_def
    by (auto split: list.splits if_splits simp del: do_all.simps)
qed

text \<open>What the hold and keepalive timers do to the timers of a peer.\<close>

lemma start_timers:
  assumes "e_now e > 0" and "timers_ok (p_timers p)"
  shows "start_timer_holdtime e p = Inr q \<Longrightarrow> timers_ok (p_timers q) \<and> (\<exists>th. q = p\<lparr>p_timers := th\<rparr>) \<and>
      running q u = (if u = Timer_Hold then p_holdtime p \<noteq> 0 else running p u)"
    and "start_timer_keepalive e p = Inr q \<Longrightarrow> timers_ok (p_timers q) \<and> (\<exists>th. q = p\<lparr>p_timers := th\<rparr>) \<and>
      running q u = (if u = Timer_Keepalive then p_holdtime p \<noteq> 0 else running p u)"
    and "start_timer_sendholdtime e p = Inr q \<Longrightarrow> timers_ok (p_timers q) \<and> (\<exists>th. q = p\<lparr>p_timers := th\<rparr>) \<and>
      running q u = (if u = Timer_SendHold then p_holdtime p \<noteq> 0 else running p u)"
  using tset_running[OF assms] tstop_running[OF assms(2)]
  by (auto simp: start_timer_holdtime_def start_timer_keepalive_def start_timer_sendholdtime_def Let_def word_greater_zero_iff split: if_splits)

lemma keepalive_run:
  assumes "good_env e" and "timers_ok (p_timers p)" and "session_keepalive e p = Inr p'"
  shows "timers_ok (p_timers p')" "running p' u = (if u = Timer_Keepalive then p_holdtime p \<noteq> 0 else running p u)"
    "state p' = state p" "p_fd p' = p_fd p" "p_holdtime p' = p_holdtime p"
proof -
  obtain b where b: "session_newmsg e BGP_KEEPALIVE MSGSIZE_KEEPALIVE = Inr b" using keepalive_built[OF good_fields(2)[OF assms(1)]] by blast
  let ?p = "p\<lparr>wqueue := wqueue p @ [ibuf_content b]\<rparr>"
  obtain q where q: "start_timer_keepalive e ?p = Inr q" and r: "p' = q\<lparr>p_stats := p_stats p'\<rparr>"
    using assms(3) b by (auto simp: session_keepalive_def send_or_fail_def session_sendmsg_def res_bind_Inr_iff stat_def upd_def)
  from start_timers(2)[OF good_fields(1)[OF assms(1)] _ q] assms(2)
  have t: "timers_ok (p_timers q)" "\<exists>th. q = ?p\<lparr>p_timers := th\<rparr>" "running q u = (if u = Timer_Keepalive then p_holdtime p \<noteq> 0 else running p u)" for u
    by (auto simp: running_def)
  have e: "p_timers p' = p_timers q" "state p' = state q" "p_fd p' = p_fd q" "p_holdtime p' = p_holdtime q" using r by (metis peer.surjective peer.update_convs peer.select_convs)+
  show "timers_ok (p_timers p')" "running p' u = (if u = Timer_Keepalive then p_holdtime p \<noteq> 0 else running p u)"
    "state p' = state p" "p_fd p' = p_fd p" "p_holdtime p' = p_holdtime p"
    using t e by (auto simp: running_def)
qed

lemma fsm_opensent_inv:
  assumes "good_env e" and "session_inv p" and "state p = STATE_OPENSENT" and "fsm_opensent e event msg p = Inr p'"
  shows "session_inv p'"
proof -
  note now = good_fields(1)[OF assms(1)] and mem = good_fields(2)[OF assms(1)]
  have ok: "timers_ok (p_timers p)" "p_fd p \<noteq> -1" "running p Timer_Hold" using assms(2,3) by (auto simp: session_inv_def state_ok_def)
  have closed: "session_inv p'" if "do_all [session_close, tset e Timer_ConnectRetry (\<lambda>p. ucast (pc_connectretry (p_conf p))), change_state e STATE_ACTIVE event] p = Inr p'"
  proof -
    from that obtain a b where a: "session_close p = Inr a" "tset e Timer_ConnectRetry (\<lambda>p. ucast (pc_connectretry (p_conf p))) a = Inr b"
      "change_state e STATE_ACTIVE event b = Inr p'" by (auto simp: res_bind_Inr_iff)
    have "p_fd a = -1" "p_timers a = p_timers p" using a(1) by (auto simp: session_close_def)
    then show ?thesis using tset_running[OF now _ a(2)] ok(1) by (intro active_inv[OF _ _ _ a(3)]) auto
  qed
  have opn: "session_inv p'" if "res_bind (parse_open e msg p) (\<lambda>(p, ok). if ok then do_all [session_keepalive e, change_state e STATE_OPENCONFIRM EVNT_RCVD_OPEN] p else Inr p) = Inr p'"
  proof -
    from that obtain q good where q: "parse_open e msg p = Inr (q, good)"
      "(if good then do_all [session_keepalive e, change_state e STATE_OPENCONFIRM EVNT_RCVD_OPEN] q else Inr q) = Inr p'"
      by (auto simp: res_bind_Inr_iff simp del: do_all.simps)
    note r = parse_open_result[OF now mem ok(1) q(1)]
    show ?thesis
    proof (cases good)
      case False
      then show ?thesis using r q(2) by simp
    next
      case True
      then obtain k where k: "session_keepalive e q = Inr k" "p' = k\<lparr>prev_state := state k, state := STATE_OPENCONFIRM\<rparr>"
        using q(2) by (auto simp: res_bind_Inr_iff change_opensent)
      have l: "p_fd q \<noteq> -1" "timers_ok (p_timers q)" "running q Timer_Hold" using r True ok by (auto simp: same_link_def running_def)
      then show ?thesis using keepalive_run[OF assms(1) l(2) k(1)] k(2) by (auto simp: session_inv_def state_ok_def running_def)
    qed
  qed
  show ?thesis
    using assms(2,4) opn closed idle_inv(1)[OF now ok(1)] notify_idle_inv[OF assms(1) ok(1)] parse_notification_inv[OF assms(1) ok(1)]
    by (cases event) (simp_all add: fsm_opensent_def del: do_all.simps)
qed


text \<open>The established state is entered with its hold and keepalive timers as they were.\<close>

lemma enter_established_timers:
  assumes "e_now e > 0" and "timers_ok (p_timers p)" and "change_state e STATE_ESTABLISHED event p = Inr p'"
  shows "timers_ok (p_timers p')" "u \<in> {Timer_Hold, Timer_Keepalive} \<Longrightarrow> running p' u = running p u"
    "state p' = STATE_ESTABLISHED" "p_fd p' = p_fd p" "p_holdtime p' = p_holdtime p"
proof -
  define p0 where "p0 = p\<lparr>prev_state := state p, state := STATE_ESTABLISHED\<rparr>"
  have p0: "state p0 = STATE_ESTABLISHED" "p_fd p0 = p_fd p" "p_holdtime p0 = p_holdtime p" "p_timers p0 = p_timers p" by (simp_all add: p0_def)
  obtain q r where q: "tset e Timer_IdleHoldReset IdleHoldTime p0 = Inr q"
    "(if demoted q \<noteq> 0 then tset e Timer_CarpUndemote (\<lambda>_. INTERVAL_HOLD_DEMOTED) q else Inr q) = Inr r" "session_up e r = Inr p'"
    using assms(3) by (auto simp: change_state_def enter_established_def res_bind_Inr_iff p0_def)
  have t1: "timers_ok (p_timers q)" "\<exists>th. q = p0\<lparr>p_timers := th\<rparr>" "running q u = (u = Timer_IdleHoldReset \<or> running p0 u)" for u
    using tset_running[OF assms(1) _ q(1)] assms(2) p0(4) by auto
  have t2: "timers_ok (p_timers r)" "\<exists>th. r = q\<lparr>p_timers := th\<rparr>" "u \<in> {Timer_Hold, Timer_Keepalive} \<Longrightarrow> running r u = running q u" for u
    using q(2) tset_running[OF assms(1) t1(1), of Timer_CarpUndemote "\<lambda>_. INTERVAL_HOLD_DEMOTED" r] t1(1) by (auto split: if_splits intro: exI[of _ "p_timers q"])
  have r: "p_timers p' = timer_stop (p_timers r) Timer_SessionDown" "state p' = state r" "p_fd p' = p_fd r" "p_holdtime p' = p_holdtime r"
    using q(3) by (auto simp: session_up_def upd_def tstop_def imsg_rde_def emit_def split: if_splits)
  show "timers_ok (p_timers p')" using r(1) t2(1) by (simp add: timer_stop_ok)
  show "running p' u = running p u" if "u \<in> {Timer_Hold, Timer_Keepalive}"
    using that r(1) t1(3)[of u] t2(3)[of u] timer_running_stop[OF t2(1), of Timer_SessionDown] p0(4) by (auto simp: running_def)
  show "state p' = STATE_ESTABLISHED" "p_fd p' = p_fd p" "p_holdtime p' = p_holdtime p" using r t1(2) t2(2) p0 by auto
qed

lemma fsm_openconfirm_inv:
  assumes "good_env e" and "session_inv p" and "state p = STATE_OPENCONFIRM" and "fsm_openconfirm e event msg p = Inr p'"
  shows "session_inv p'"
proof -
  note now = good_fields(1)[OF assms(1)]
  have ok: "timers_ok (p_timers p)" "p_fd p \<noteq> -1" "running p Timer_Hold" "p_holdtime p \<noteq> 0 \<longrightarrow> running p Timer_Keepalive"
    using assms(2,3) by (auto simp: session_inv_def state_ok_def)
  have ka: "session_keepalive e p = Inr p' \<Longrightarrow> session_inv p'"
    using keepalive_run[OF assms(1) ok(1)] ok assms(3) by (simp add: session_inv_def state_ok_def)
  have up: "session_inv p'" if "do_all [start_timer_holdtime e, change_state e STATE_ESTABLISHED event] p = Inr p'"
  proof -
    from that obtain q where q: "start_timer_holdtime e p = Inr q" "change_state e STATE_ESTABLISHED event q = Inr p'" by (auto simp: res_bind_Inr_iff)
    have h: "timers_ok (p_timers q)" "\<exists>th. q = p\<lparr>p_timers := th\<rparr>" "running q u = (if u = Timer_Hold then p_holdtime p \<noteq> 0 else running p u)" for u
      using start_timers(1)[OF now ok(1) q(1)] by blast+
    show ?thesis using enter_established_timers[OF now h(1) q(2)] h(2,3) ok by (auto simp: session_inv_def state_ok_def)
  qed
  show ?thesis
    using assms(2,4) ka up idle_inv(1)[OF now ok(1)] notify_idle_inv[OF assms(1) ok(1)] parse_notification_inv[OF assms(1) ok(1)]
    by (cases event) (simp_all add: fsm_openconfirm_def del: do_all.simps)
qed

lemma fsm_established_inv:
  assumes "good_env e" and "session_inv p" and "state p = STATE_ESTABLISHED" and "fsm_established e event msg p = Inr p'"
  shows "session_inv p'"
proof -
  note now = good_fields(1)[OF assms(1)]
  have ok: "timers_ok (p_timers p)" "p_fd p \<noteq> -1" "p_holdtime p \<noteq> 0 \<longrightarrow> running p Timer_Hold \<and> running p Timer_Keepalive"
    using assms(2,3) by (auto simp: session_inv_def state_ok_def)
  have ka: "session_keepalive e p = Inr p' \<Longrightarrow> session_inv p'"
    using keepalive_run[OF assms(1) ok(1)] ok assms(3) by (simp add: session_inv_def state_ok_def)
  have hold: "session_inv q" if "start_timer_holdtime e p = Inr q" for q
  proof -
    have h: "timers_ok (p_timers q)" "\<exists>th. q = p\<lparr>p_timers := th\<rparr>" "running q u = (if u = Timer_Hold then p_holdtime p \<noteq> 0 else running p u)" for u
      using start_timers(1)[OF now ok(1) that] by blast+
    then show ?thesis using ok assms(3) by (auto simp: session_inv_def state_ok_def)
  qed
  have upd: "do_all [start_timer_holdtime e, parse_update e msg] p = Inr p' \<Longrightarrow> session_inv p'"
    using hold by (auto simp: res_bind_Inr_iff parse_update_def same_core_inv[OF keepsD[OF core_emit(2)]])
  show ?thesis
    using assms(2,4) ka hold upd idle_inv(1)[OF now ok(1)] notify_idle_inv[OF assms(1) ok(1)] parse_notification_inv[OF assms(1) ok(1)]
    by (cases event) (simp_all add: fsm_established_def del: do_all.simps)
qed

lemma bgp_fsm_session_inv:
  assumes "good_env e" and "session_inv p" and "event = EVNT_CON_OPEN \<longrightarrow> state p \<noteq> STATE_ACTIVE" and "bgp_fsm e event msg p = Inr p'"
  shows "session_inv p'"
  using assms(3,4) fsm_idle_inv[OF assms(1,2)] fsm_connect_inv[OF assms(1,2)] fsm_active_inv[OF assms(1,2)] fsm_opensent_inv[OF assms(1,2)]
    fsm_openconfirm_inv[OF assms(1,2)] fsm_established_inv[OF assms(1,2)] assms(2)
  by (cases "state p") (simp_all add: bgp_fsm_def)


section \<open>Every step keeps the invariant\<close>

definition keeps_session :: "(peer \<Rightarrow> peer res) \<Rightarrow> bool" where
  "keeps_session f = keeps (\<lambda>p p'. session_inv p \<longrightarrow> session_inv p') f"

interpretation sess: step_rel "\<lambda>p p'. session_inv p \<longrightarrow> session_inv p'"
  by unfold_locales simp_all

lemma keeps_sessionD: "keeps_session f \<Longrightarrow> f p = Inr p' \<Longrightarrow> session_inv p \<Longrightarrow> session_inv p'"
  by (auto simp: keeps_session_def keeps_def)

lemma core_session: "keeps same_core f \<Longrightarrow> keeps_session f"
  using same_core_inv by (auto simp: keeps_session_def keeps_def)

lemma keeps_session_intros:
  "list_all keeps_session fs \<Longrightarrow> keeps_session (do_all fs)" "list_all keeps_session []"
  "keeps_session f \<Longrightarrow> list_all keeps_session fs \<Longrightarrow> list_all keeps_session (f # fs)"
  "keeps_session Inr" "keeps_session f \<Longrightarrow> keeps_session g \<Longrightarrow> keeps_session (\<lambda>p. if c p then f p else g p)"
  using sess.keeps_do_all sess.keeps_Inr sess.keeps_if unfolding keeps_session_def by auto

lemma keeps_session_after: "keeps_session g \<Longrightarrow> (\<And>p. same_core p (f p)) \<Longrightarrow> keeps_session (\<lambda>p. g (f p))"
  unfolding keeps_session_def keeps_def by (metis same_core_inv)

lemma fsm_keeps: "good_env e \<Longrightarrow> event \<noteq> EVNT_CON_OPEN \<Longrightarrow> keeps_session (bgp_fsm e event msg)"
  by (auto simp: keeps_session_def keeps_def intro: bgp_fsm_session_inv)

lemma upd_keeps: "(\<And>p. same_core p (f p)) \<Longrightarrow> keeps_session (upd f)"
  by (rule core_session[OF core_upd])

text \<open>Timers that the invariant does not ask for may be set and stopped.\<close>

lemma timer_keeps:
  assumes "t \<notin> {Timer_ConnectRetry, Timer_Hold, Timer_Keepalive}"
  shows "keeps_session (tstop t)" and "e_now e > 0 \<Longrightarrow> keeps_session (tset e t off)"
proof -
  have inv: "session_inv (p\<lparr>p_timers := th\<rparr>)" if "session_inv p" "timers_ok th"
    "\<And>u. u \<noteq> t \<Longrightarrow> timer_running th u = timer_running (p_timers p) u" for p th
    using that(1,2) that(3)[of Timer_ConnectRetry] that(3)[of Timer_Hold] that(3)[of Timer_Keepalive] assms
    by (auto simp: session_inv_def state_ok_def running_def split: session_state.splits)
  show "keeps_session (tstop t)"
    unfolding keeps_session_def keeps_def tstop_def
    by (intro allI impI) (drule sum.inject(2)[THEN iffD1], drule sym, simp, rule inv, simp_all add: session_inv_def timer_stop_ok timer_running_stop)
  show "keeps_session (tset e t off)" if "e_now e > 0"
    unfolding keeps_session_def keeps_def
    by (intro allI impI) (drule tset_Inr, simp, rule inv, simp_all add: session_inv_def set_at_ok that)
qed

lemma fatal_keeps: "good_env e \<Longrightarrow> keeps_session (fsm_fatal e)"
  using idle_inv(1)[OF good_fields(1)] by (auto simp: keeps_session_def keeps_def fsm_fatal_def session_inv_def)

lemma notification_keeps: "good_env e \<Longrightarrow> keeps_session (session_notification e errcode subcode data)"
  by (rule core_session[OF core_notification[OF good_fields(2)]])

lemma refuse_keeps: "good_env e \<Longrightarrow> keeps_session (refuse e errcode subcode data)"
  unfolding refuse_def by (intro keeps_session_intros notification_keeps fatal_keeps)

lemma handle_rrefresh_keeps: "keeps_session (handle_rrefresh e afi safi subtype)"
  unfolding handle_rrefresh_def
  by (cases "afi2aid afi safi") (auto intro!: keeps_session_intros core_session[OF core_emit(2)])

lemma parse_rrefresh_keeps:
  assumes "good_env e"
  shows "keeps_session (parse_rrefresh e whole)"
  unfolding keeps_session_def keeps_def
proof (intro allI impI)
  fix p p' assume a: "parse_rrefresh e whole p = Inr p'" and i: "session_inv p"
  have r: "keeps_session (do_all [stat f, handle_rrefresh e afi safi subtype])" for f afi safi subtype
    by (intro keeps_session_intros core_session[OF core_stat] handle_rrefresh_keeps)
  show "session_inv p'"
    using a i unfolding parse_rrefresh_def Let_def
    by (auto split: list.splits if_splits simp del: do_all.simps intro: keeps_sessionD[OF refuse_keeps[OF assms]] keeps_sessionD[OF r])
qed

lemma process_msg_keeps: "good_env e \<Longrightarrow> keeps_session (process_msg e whole)"
  unfolding process_msg_def Let_def
  by (simp only: if_split) (intro conjI impI keeps_session_intros fsm_keeps core_session[OF core_stat] parse_rrefresh_keeps notification_keeps; simp)

lemma queue_inv: "session_inv p \<Longrightarrow> rqueue p = x # xs \<Longrightarrow> session_inv (p\<lparr>rqueue := q\<rparr>)"
  by (auto simp: session_inv_def state_ok_def running_def split: session_state.splits)

lemma process_msgs_session:
  assumes "good_env e"
  shows "process_msgs e n p = Inr p' \<Longrightarrow> session_inv p \<Longrightarrow> session_inv p'"
proof (induction n arbitrary: p)
  case 0
  note step = keeps_sessionD[OF process_msg_keeps[OF assms]] and fatal = keeps_sessionD[OF fsm_keeps[OF assms, of EVNT_CON_FATAL]]
  have pend: "session_inv (q\<lparr>rpending := True\<rparr>) = session_inv q" for q by (rule same_core_inv) (simp add: same_core_def)
  show ?case
  proof (cases "rqueue p")
    case Nil
    then show ?thesis using 0 by (subst (asm) process_msgs.simps) simp
  next
    case (Cons whole q)
    note i = queue_inv[OF 0(2) Cons, of q]
    show ?thesis using 0(1) Cons step[OF _ i] fatal[OF _ _ i] pend
      by (subst (asm) process_msgs.simps) (auto simp: res_bind_Inr_iff Let_def split: if_splits)
  qed
next
  case (Suc n)
  note step = keeps_sessionD[OF process_msg_keeps[OF assms]] and fatal = keeps_sessionD[OF fsm_keeps[OF assms, of EVNT_CON_FATAL]]
  show ?case
  proof (cases "rqueue p")
    case Nil
    then show ?thesis using Suc.prems by (subst (asm) process_msgs.simps) simp
  next
    case (Cons whole q)
    note i = queue_inv[OF Suc.prems(2) Cons, of q]
    show ?thesis using Suc.prems(1) Cons Suc.IH step[OF _ i] fatal[OF _ _ i]
      by (subst (asm) process_msgs.simps) (auto simp: res_bind_Inr_iff Let_def split: if_splits)
  qed
qed


lemma header_result:
  assumes "good_env e" and "parse_header e msg p = Inr (p', r)" and "session_inv p"
  shows "case r of None \<Rightarrow> session_inv p' | Some _ \<Rightarrow> p' = p"
  using assms(2,3) keeps_sessionD[OF refuse_keeps[OF assms(1)]]
  by (auto simp: parse_header_def Let_def res_bind_Inr_iff split: sum.splits prod.splits if_splits)

lemma unread_inv: "state p \<noteq> STATE_IDLE \<Longrightarrow> session_inv (p\<lparr>rbuf := a, rpmsg := b, rqueue := c\<rparr>) = session_inv p"
  "state p \<noteq> STATE_IDLE \<Longrightarrow> session_inv (p\<lparr>rqueue := c\<rparr>) = session_inv p"
  by (cases "state p"; simp add: session_inv_def state_ok_def running_def)+

lemma read_loop_session:
  "good_env e \<Longrightarrow> read_loop e buf rp q p = Inr (p', ok) \<Longrightarrow> session_inv p \<Longrightarrow> state p \<noteq> STATE_IDLE \<Longrightarrow> session_inv p'"
proof (induction e buf rp q p arbitrary: p' ok rule: read_loop.induct)
  case (1 e buf rp q p)
  note un = unread_inv[OF 1(6)]
  show ?case
  proof (cases rp)
    case (Some x)
    obtain len got where x: "x = (len, got)" by (cases x)
    obtain buf' rp' q' where t: "take_msg buf len got q = (buf', rp', q')" by (cases "take_msg buf len got q") auto
    show ?thesis using 1(4) 1(2)[OF Some x[symmetric] t[symmetric] refl _ 1(3) _ 1(5,6)] un 1(5)
      by (subst (asm) read_loop.simps) (auto simp: Some x t split: if_splits)
  next
    case None
    show ?thesis
    proof (cases "length buf < MSGSIZE_HEADER")
      case True
      then show ?thesis using 1(4,5) un by (subst (asm) read_loop.simps) (auto simp: None)
    next
      case False
      then obtain r len where h: "parse_header e (take MSGSIZE_HEADER buf) (p\<lparr>rqueue := q\<rparr>) = Inr (r, len)"
        using 1(4) by (subst (asm) read_loop.simps) (auto simp: None split: sum.splits)
      have s: "case len of None \<Rightarrow> session_inv r | Some _ \<Rightarrow> r = p\<lparr>rqueue := q\<rparr>" using header_result[OF 1(3) h] un(2) 1(5) by simp
      show ?thesis
      proof (cases len)
        case None
        then show ?thesis using 1(4) False \<open>rp = None\<close> h s by (subst (asm) read_loop.simps) auto
      next
        case (Some n)
        obtain buf' rp' q' where t: "take_msg buf n [] q = (buf', rp', q')" by (cases "take_msg buf n [] q") auto
        have r: "r = p\<lparr>rqueue := q\<rparr>" using s Some by simp
        then have i: "session_inv r" "state r \<noteq> STATE_IDLE" using un(2) 1(5,6) by simp_all
        show ?thesis using 1(4) False \<open>rp = None\<close> h Some t i unread_inv(1)[OF i(2)]
            1(1)[OF \<open>rp = None\<close> False h refl Some t[symmetric] refl _ 1(3) _ i]
          by (subst (asm) read_loop.simps) (auto split: if_splits)
      qed
    qed
  qed
qed

lemma fd_state: "session_inv p \<Longrightarrow> p_fd p \<noteq> -1 \<Longrightarrow> state p \<noteq> STATE_IDLE \<and> state p \<noteq> STATE_ACTIVE"
  by (auto simp: session_inv_def state_ok_def)

lemma dispatch_read_keeps:
  assumes "good_env e"
  shows "keeps_session (dispatch_read e w)"
  unfolding keeps_session_def keeps_def
proof (intro allI impI)
  fix p p' assume f: "dispatch_read e w p = Inr p'" and i: "session_inv p"
  have rd: "p_fd p \<noteq> -1 \<Longrightarrow> ibuf_read e r p = Inr (q, x) \<Longrightarrow> session_inv q" for r q x
    using i by (auto simp: ibuf_read_def res_bind_Inr_iff split: read_result.splits intro: read_loop_session[OF assms _ i fd_state[OF i, THEN conjunct1]])
  show "session_inv p'"
    using f i
    by (auto simp: dispatch_read_def res_bind_Inr_iff split: if_splits
        intro: rd keeps_sessionD[OF fsm_keeps[OF assms, of EVNT_CON_FATAL]] keeps_sessionD[OF fsm_keeps[OF assms, of EVNT_CON_CLOSED]]
          keeps_sessionD[OF core_session[OF core_stat]])
qed

lemma sendhold_keeps:
  assumes "good_env e"
  shows "keeps_session (start_timer_sendholdtime e)"
  unfolding start_timer_sendholdtime_def Let_def keeps_session_def keeps_def
  using keeps_sessionD[OF timer_keeps(1)[of Timer_SendHold]] keeps_sessionD[OF timer_keeps(2)[of Timer_SendHold, OF _ good_fields(1)[OF assms]]]
  by (auto split: if_splits)

lemma dispatch_keeps:
  assumes "good_env e"
  shows "keeps_session (session_dispatch_msg e w)"
proof -
  have wr: "keeps_session (\<lambda>p. case wr w of WriteError \<Rightarrow> bgp_fsm e EVNT_CON_FATAL [] p
      | r \<Rightarrow> do_all [upd (\<lambda>p. p\<lparr>wqueue := (case r of Written n \<Rightarrow> msgbuf_drain n (wqueue p) | _ \<Rightarrow> wqueue p)\<rparr>),
          stat (\<lambda>s. s\<lparr>last_write := e_now e\<rparr>), start_timer_sendholdtime e, dispatch_read e w] p)"
    by (cases "wr w"; simp only: write_result.case;
        intro keeps_session_intros fsm_keeps core_session[OF core_stat] upd_keeps sendhold_keeps dispatch_read_keeps assms; simp add: same_core_def)
  have rest: "keeps_session (\<lambda>p. if rev_hup w then bgp_fsm e EVNT_CON_CLOSED [] p
      else if rev_err w then bgp_fsm e EVNT_CON_FATAL [] p
      else if rev_out w \<and> wqueue p \<noteq> [] then
        (case wr w of WriteError \<Rightarrow> bgp_fsm e EVNT_CON_FATAL [] p
      | r \<Rightarrow> do_all [upd (\<lambda>p. p\<lparr>wqueue := (case r of Written n \<Rightarrow> msgbuf_drain n (wqueue p) | _ \<Rightarrow> wqueue p)\<rparr>),
          stat (\<lambda>s. s\<lparr>last_write := e_now e\<rparr>), start_timer_sendholdtime e, dispatch_read e w] p)
      else dispatch_read e w p)"
    by (intro keeps_session_intros fsm_keeps wr dispatch_read_keeps assms) simp_all
  have conn: "session_inv p \<Longrightarrow> state p = STATE_CONNECT \<Longrightarrow> bgp_fsm e event [] p = Inr p' \<Longrightarrow> session_inv p'" for p p' event
    using bgp_fsm_session_inv[OF assms] by simp
  show ?thesis unfolding keeps_session_def keeps_def
  proof (intro allI impI)
    fix p p' assume f: "session_dispatch_msg e w p = Inr p'" and i: "session_inv p"
    show "session_inv p'"
    proof (cases "state p = STATE_CONNECT")
      case True
      then show ?thesis using f i conn[OF i True] by (auto simp: session_dispatch_msg_def split: if_splits)
    next
      case False
      then show ?thesis using f i keeps_sessionD[OF rest, of p p'] by (simp only: session_dispatch_msg_def if_False)
    qed
  qed
qed


lemma accept_open_session:
  assumes "good_env e" and "timers_ok (p_timers p)" and "state p \<in> {STATE_CONNECT, STATE_ACTIVE}" and "connfd \<noteq> -1"
    and "accept_open e connfd p = Inr p'"
  shows "session_inv p'"
proof -
  have "con_open e (p\<lparr>p_fd := connfd\<rparr>) = Inr p'"
    using assms(3,5) good_fields(3,4)[OF assms(1)] by (auto simp: accept_open_def bgp_fsm_def fsm_connect_def fsm_active_def)
  then show ?thesis using con_open_inv[OF good_fields(1,2)[OF assms(1)], of "p\<lparr>p_fd := connfd\<rparr>" p'] assms(2,4) by simp
qed

lemma enter_connect_timers:
  assumes "e_now e > 0" and "change_state e STATE_CONNECT event p = Inr p'" and "timers_ok (p_timers p)"
  shows "timers_ok (p_timers p')" "state p' = STATE_CONNECT"
  using keepsD[OF quiet_change_state[OF assms(1)] assms(2)] change_state_state[OF assms(2)] assms(3) by (simp_all add: quiet_step_def)

lemma accept_session:
  assumes "good_env e" and "session_inv p" and "connfd \<noteq> -1" and "session_accept e connfd p = Inr p'"
  shows "session_inv p'"
proof -
  have t: "timers_ok (p_timers p)" using assms(2) by (simp add: session_inv_def)
  have em: "emit (SockClose connfd) p = Inr p' \<Longrightarrow> session_inv p'" using keeps_sessionD[OF core_session[OF core_emit(1)]] assms(2) by blast
  have cl: "session_close p = Inr q \<Longrightarrow> p_timers q = p_timers p \<and> state q = state p" for q by (auto simp: session_close_def)
  consider (refused) "emit (SockClose connfd) p = Inr p'"
    | (opn) "state p \<in> {STATE_CONNECT, STATE_ACTIVE}" "accept_open e connfd p = Inr p'"
    | (swap) q where "state p = STATE_CONNECT" "session_close p = Inr q" "accept_open e connfd q = Inr p'"
    | (dance) q where "change_state e STATE_CONNECT EVNT_CON_CLOSED p = Inr q" "accept_open e connfd q = Inr p'"
    using assms(4) by (auto simp: session_accept_def res_bind_Inr_iff split: if_splits)
  then show ?thesis
  proof cases
    case refused
    then show ?thesis by (rule em)
  next
    case opn
    then show ?thesis using accept_open_session[OF assms(1) t _ assms(3)] by simp
  next
    case swap
    then show ?thesis using accept_open_session[OF assms(1) _ _ assms(3) swap(3)] cl[OF swap(2)] t by simp
  next
    case dance
    then show ?thesis using accept_open_session[OF assms(1) _ _ assms(3) dance(2)] enter_connect_timers[OF good_fields(1)[OF assms(1)] dance(1) t] by simp
  qed
qed

lemma graceful_stop_keeps: "keeps_session (session_graceful_stop e)"
proof (rule core_session)
  show "keeps same_core (session_graceful_stop e)"
    unfolding session_graceful_stop_def stop_aid_def session_graceful_flush_def
    by (intro core.keeps_intros core_emit core_upd) (simp add: same_core_def)
qed

lemma session_timer_keeps:
  assumes "good_env e"
  shows "keeps_session (session_timer e)"
  unfolding keeps_session_def keeps_def
proof (intro allI impI)
  fix p p' assume f: "session_timer e p = Inr p'" and i: "session_inv p"
  have fsm: "bgp_fsm e event [] p = Inr p' \<Longrightarrow> event \<noteq> EVNT_CON_OPEN \<Longrightarrow> session_inv p'" for event
    using keeps_sessionD[OF fsm_keeps[OF assms] _ i] by blast
  note st = timer_keeps(1)
  have ops: "keeps_session (do_all [upd (\<lambda>p. p\<lparr>IdleHoldTime := 0\<rparr>), tstop Timer_IdleHoldReset])"
    "keeps_session (do_all [tstop Timer_CarpUndemote, \<lambda>p. if demoted p \<noteq> 0 \<and> state p = STATE_ESTABLISHED then session_demote (-1) p else Inr p])"
    "keeps_session (do_all [tstop Timer_RestartTimeout, session_graceful_stop e])"
    "keeps_session (do_all [tstop Timer_SessionDown, imsg_rde e RdeDelete, upd (\<lambda>p. p\<lparr>rdesession := False, p_delete := (p_delete p \<or> p_template p)\<rparr>)])"
    by (intro keeps_session_intros upd_keeps st core_session[OF core_emit(4)] core_session[OF core_emit(2)] graceful_stop_keeps; simp add: same_core_def)+
  show "session_inv p'"
  proof (cases "timer_nextisdue (p_timers p) (e_now e)")
    case None
    then show ?thesis using f i by (simp add: session_timer_def)
  next
    case (Some t)
    then show ?thesis
      using f i fsm keeps_sessionD[OF ops(1) _ i] keeps_sessionD[OF ops(2) _ i] keeps_sessionD[OF ops(3) _ i] keeps_sessionD[OF ops(4) _ i]
      by (cases "t_type t") (simp_all add: session_timer_def del: do_all.simps)
  qed
qed

lemma throttle_keeps: "keeps_session (session_throttle e)"
  unfolding session_throttle_def
  by (intro keeps_session_intros upd_keeps core_session[OF core_emit(2)]) (simp_all add: same_core_def)

lemma stop_keeps:
  assumes "good_env e"
  shows "keeps_session (session_stop e subcode reason)"
  unfolding session_stop_def
  by (intro keeps_session_intros upd_keeps notification_keeps fsm_keeps assms) (simp_all add: same_core_def split: option.split)

lemma dependon_keeps:
  assumes "good_env e"
  shows "keeps_session (dependon e ok)"
proof -
  have d: "same_core p (p\<lparr>depend_ok := ok\<rparr>)" for p by (simp add: same_core_def)
  show ?thesis unfolding dependon_def
    by (intro keeps_session_intros keeps_session_after[OF fsm_keeps[OF assms] d] keeps_session_after[OF stop_keeps[OF assms] d]) simp
qed

lemma idlehold_keeps: "good_env e \<Longrightarrow> keeps_session (tset e Timer_IdleHold off)"
  by (rule timer_keeps(2)[OF _ good_fields(1)]) simp

lemma neighbor_keeps:
  assumes "good_env e"
  shows "keeps_session (neighbor_up e)" "keeps_session (neighbor_down e reason)" "keeps_session (neighbor_clear e reason)" "keeps_session neighbor_destroy"
proof -
  show "keeps_session (neighbor_up e)" "keeps_session (neighbor_down e reason)" "keeps_session (neighbor_clear e reason)"
    unfolding neighbor_up_def neighbor_down_def neighbor_clear_def
    by (intro keeps_session_intros upd_keeps fsm_keeps stop_keeps idlehold_keeps assms; simp add: same_core_def)+
  have "keeps same_core neighbor_destroy" by (auto simp: keeps_def neighbor_destroy_def same_core_def)
  then show "keeps_session neighbor_destroy" by (rule core_session)
qed


lemma update_keeps:
  assumes "good_env e"
  shows "keeps_session (session_update e data)"
  unfolding keeps_session_def keeps_def
proof (intro allI impI)
  fix p p' assume f: "session_update e data p = Inr p'" and i: "session_inv p"
  let ?ok = "state p = STATE_ESTABLISHED \<and> \<not> (length data < MSGSIZE_UPDATE_MIN - MSGSIZE_HEADER \<or>
    length data > (if cap_ext_msg (capa_neg p) \<noteq> 0 then MAX_EXT_PKTSIZE else MAX_PKTSIZE) - MSGSIZE_HEADER)"
  show "session_inv p'"
  proof (cases ?ok)
    case False
    then show ?thesis using f i by (auto simp: session_update_def Let_def split: if_splits)
  next
    case True
    then have "length data \<le> MAX_EXT_PKTSIZE - MSGSIZE_HEADER" by (auto simp: msg_consts split: if_splits)
    from update_built[OF good_fields(2)[OF assms] this] obtain b
      where b: "res_bind (session_newmsg e BGP_UPDATE (MSGSIZE_HEADER + length data)) (\<lambda>b. ibuf_add (e_ca e) b data) = Inr b" by blast
    let ?p = "p\<lparr>wqueue := wqueue p @ [ibuf_content b]\<rparr>"
    have "same_core p ?p" by (simp add: same_core_def)
    then have ok: "session_inv ?p" using i same_core_inv by blast
    obtain q where q: "start_timer_keepalive e ?p = Inr q" and r: "stat (\<lambda>s. s\<lparr>msg_sent_update := msg_sent_update s + 1\<rparr>) q = Inr p'"
      using f True b by (auto simp: session_update_def Let_def send_or_fail_def session_sendmsg_def res_bind_Inr_iff)
    have t: "timers_ok (p_timers q)" "\<exists>th. q = ?p\<lparr>p_timers := th\<rparr>" "running q u = (if u = Timer_Keepalive then p_holdtime ?p \<noteq> 0 else running ?p u)" for u
      using start_timers(2)[OF good_fields(1)[OF assms] _ q] ok unfolding session_inv_def by blast+
    have "session_inv q" using t(1,2) t(3)[of Timer_Keepalive] t(3)[of Timer_Hold] ok True by (auto simp: session_inv_def state_ok_def)
    then show ?thesis using keeps_sessionD[OF core_session[OF core_stat] r] by simp
  qed
qed

lemma update_err_keeps:
  assumes "good_env e"
  shows "keeps_session (rde_update_err e errcode subcode data)"
proof -
  have "keeps_session (do_all [bgp_fsm e EVNT_STOP [], \<lambda>q. if x \<noteq> 0 then tset e Timer_IdleHold (\<lambda>_. 60 * ucast x) q else Inr q])" for x :: u16
    by (intro keeps_session_intros fsm_keeps idlehold_keeps assms) simp
  then have "keeps_session (\<lambda>p. do_all [bgp_fsm e EVNT_STOP [], \<lambda>q. if g p \<noteq> 0 then tset e Timer_IdleHold (\<lambda>_. 60 * ucast (g p)) q else Inr q] p)" for g :: "peer \<Rightarrow> u16"
    by (simp add: keeps_session_def keeps_def)
  then show ?thesis unfolding rde_update_err_def Let_def
    by (intro keeps_session_intros notification_keeps fsm_keeps assms) simp_all
qed

lemma refresh_keeps:
  assumes "good_env e"
  shows "keeps_session (rde_refresh e i subtype)"
  by (auto simp: keeps_session_def keeps_def rde_refresh_def split: if_splits
      intro: keeps_sessionD[OF core_session[OF core_rrefresh[OF good_fields(2)[OF assms]]]])

lemma restarted_keeps: "keeps_session (rde_restarted e i)"
  unfolding rde_restarted_def
  by (intro keeps_session_intros upd_keeps core_session[OF core_emit(2)]) (simp_all add: same_core_def keeps_session_def keeps_def)

lemma neighbor_rrefresh_session:
  assumes "good_env e" and "session_neighbor_rrefresh e p = Inr (p', r)" and "session_inv p"
  shows "session_inv p'"
proof -
  have "keeps same_core (do_all (map (\<lambda>i p. if cap_mp (capa_neg p) i \<noteq> 0 then session_rrefresh e i ROUTE_REFRESH_REQUEST p else Inr p)
      [AID_MIN..<AID_MAX]))"
    by (intro core.keeps_intros core_rrefresh good_fields(2)[OF assms(1)])
  from keeps_sessionD[OF core_session[OF this]] show ?thesis using assms(2,3)
    by (auto simp: session_neighbor_rrefresh_def res_bind_Inr_iff split: if_splits)
qed

lemma se_step_session: "se_step e p p' \<Longrightarrow> good_env e \<Longrightarrow> session_inv p \<Longrightarrow> session_inv p'"
proof (induction rule: se_step.induct)
  case (process p p')
  have "same_core p (p\<lparr>rpending := False\<rparr>)" by (simp add: same_core_def)
  then have "session_inv (p\<lparr>rpending := False\<rparr>)" using process(3) same_core_inv by blast
  then show ?case using process(1,2) process_msgs_session unfolding session_process_msg_def by blast
next
  case (accept connfd p p')
  then show ?case using accept_session by blast
next
  case (ctl_refresh p p' r)
  then show ?case using neighbor_rrefresh_session by blast
qed (blast intro: keeps_sessionD session_timer_keeps throttle_keeps dispatch_keeps update_keeps update_err_keeps refresh_keeps restarted_keeps
      dependon_keeps neighbor_keeps)+

lemma init_peer_session:
  assumes "good_env e" and "init_peer e c dep reinit p = Inr p'"
  shows "session_inv p'"
proof -
  obtain q where q: "change_state e STATE_IDLE EVNT_NONE (init_fields c dep p) = Inr q"
    "do_all [\<lambda>p. if \<not> pc_down (p_conf p) then bgp_fsm e EVNT_START [] p else Inr p,
      stat (\<lambda>s. s\<lparr>last_updown := e_now e\<rparr>), \<lambda>p. if \<not> reinit \<and> pc_demote_group (p_conf p) then session_demote 1 p else Inr p] q = Inr p'"
    using assms(2) by (auto simp: init_peer_def upd_def res_bind_Inr_iff simp del: do_all.simps(2)[of "\<lambda>p. if \<not> pc_down (p_conf p) then bgp_fsm e EVNT_START [] p else Inr p"])
  have "session_inv q" by (rule idle_inv(1)[OF good_fields(1)[OF assms(1)] _ q(1)]) (simp add: init_fields_def timers_ok_def)
  moreover have "keeps_session (do_all [\<lambda>p. if \<not> pc_down (p_conf p) then bgp_fsm e EVNT_START [] p else Inr p,
      stat (\<lambda>s. s\<lparr>last_updown := e_now e\<rparr>), \<lambda>p. if \<not> reinit \<and> pc_demote_group (p_conf p) then session_demote 1 p else Inr p])"
    by (intro keeps_session_intros fsm_keeps core_session[OF core_stat] core_session[OF core_emit(4)] assms(1)) simp
  ultimately show ?thesis using keeps_sessionD q(2) by blast
qed

end
