(* ===== verification/Session_Live.thy ===== *)
theory Session_Live
  imports Session_Correct
begin

text \<open>
  What a session does get done: with memory available the steps of the session engine return, a
  session whose neighbor falls silent is closed, and a handshake brings a session up.
\<close>

section \<open>Steps that return\<close>

definition returns :: "('s \<Rightarrow> 's res) \<Rightarrow> bool" where
  "returns f = (\<forall>s. \<exists>s'. f s = Inr s')"

lemma returnsD: "returns f \<Longrightarrow> \<exists>s'. f s = Inr s'"
  by (simp add: returns_def)

lemma returns_do_all: "list_all returns fs \<Longrightarrow> returns (do_all fs)"
proof (induction fs)
  case Nil
  show ?case by (simp add: returns_def)
next
  case (Cons f fs)
  then have f: "returns f" and fs: "returns (do_all fs)" by simp_all
  show ?case unfolding returns_def
  proof
    fix s
    obtain t where "f s = Inr t" using returnsD[OF f] by blast
    moreover obtain u where "do_all fs t = Inr u" using returnsD[OF fs] by blast
    ultimately show "\<exists>s'. do_all (f # fs) s = Inr s'" by simp
  qed
qed

lemma returns_do_all_dep: "(\<And>s. list_all returns (fs s)) \<Longrightarrow> returns (\<lambda>s. do_all (fs s) s)"
  by (subst returns_def) (blast intro: returnsD[OF returns_do_all])

lemma returns_intros:
  "list_all returns []" "returns f \<Longrightarrow> list_all returns fs \<Longrightarrow> list_all returns (f # fs)"
  "list_all returns fs \<Longrightarrow> list_all returns gs \<Longrightarrow> list_all returns (fs @ gs)"
  "(\<And>x. returns (h x)) \<Longrightarrow> list_all returns (map h xs)"
  "returns Inr" "returns (upd g)" "returns (\<lambda>s. Inr (g s))" "returns f \<Longrightarrow> returns k \<Longrightarrow> returns (\<lambda>s. if c s then f s else k s)"
  by (auto simp: returns_def upd_def list_all_iff)

lemma returns_basic:
  "returns (tstop t)" "returns (emit x)" "returns (\<lambda>p. emit (y p) p)" "returns (imsg_rde e x)" "returns session_close" "returns session_md5_reload"
  "returns (stat f)" "returns (session_demote n)" "returns reset_timers"
  by (auto simp: returns_def tstop_def emit_def imsg_rde_def session_close_def session_md5_reload_def stat_def upd_def session_demote_def reset_timers_def)

lemma returns_tset: "memory e \<Longrightarrow> returns (tset e t off)"
  by (auto simp: returns_def tset_def timer_set_def Let_def memory_def)

lemma returns_restart_aid: "returns (restart_aid e i)"
  unfolding restart_aid_def by (intro returns_do_all returns_intros returns_basic)

lemma returns_graceful_restart: "memory e \<Longrightarrow> returns (session_graceful_restart e)"
  unfolding session_graceful_restart_def Let_def
  by (rule returns_do_all_dep) (intro returns_intros returns_basic returns_tset returns_restart_aid)

lemma returns_session_down: "memory e \<Longrightarrow> returns (session_down e)"
  unfolding session_down_def by (intro returns_do_all returns_intros returns_basic returns_tset)

lemma returns_enter_idle: "memory e \<Longrightarrow> returns (enter_idle e event)"
  unfolding enter_idle_def idle_react_def
  by (intro returns_do_all returns_intros returns_basic returns_tset returns_session_down returns_graceful_restart)

lemma returns_session_up: "returns (session_up e)"
  unfolding returns_def session_up_def
  by (simp add: upd_def tstop_def imsg_rde_def emit_def)

lemma returns_change_state: "memory e \<Longrightarrow> returns (change_state e st event)"
  unfolding returns_def
proof
  fix p assume m: "memory e"
  have "returns (enter_connect e)" unfolding enter_connect_def
    by (intro returns_do_all returns_intros returns_basic returns_graceful_restart m)
  moreover have "returns (enter_established e)" unfolding enter_established_def
    by (intro returns_do_all returns_intros returns_tset returns_session_up m)
  ultimately show "\<exists>p'. change_state e st event p = Inr p'"
    using returnsD[OF returns_enter_idle[OF m]] returnsD[OF returns_basic(6)] returnsD[of "enter_connect e"] returnsD[of "enter_established e"]
    by (cases st) (simp_all add: change_state_def Let_def)
qed

lemma returns_fatal: "memory e \<Longrightarrow> returns (fsm_fatal e)"
  unfolding fsm_fatal_def by (intro returns_intros returns_change_state)

lemma returns_send: "memory e \<Longrightarrow> returns k \<Longrightarrow> returns (\<lambda>p. send_or_fail e (r p) k p)"
  using returnsD[OF returns_fatal] returnsD[of k] by (auto simp: returns_def send_or_fail_def session_sendmsg_def split: sum.splits)

lemma returns_notification: "memory e \<Longrightarrow> returns (session_notification e errcode subcode data)"
  unfolding session_notification_def Let_def by (intro returns_intros returns_send returns_basic)

lemma returns_start_timers: "memory e \<Longrightarrow> returns (start_timer_holdtime e)" "memory e \<Longrightarrow> returns (start_timer_keepalive e)"
  unfolding start_timer_holdtime_def start_timer_keepalive_def by (rule returns_intros; rule returns_tset returns_basic; assumption?)+

lemma returns_keepalive: "memory e \<Longrightarrow> returns (session_keepalive e)"
  using returns_send[of e "do_all [start_timer_keepalive e, stat (\<lambda>s. s\<lparr>msg_sent_keepalive := msg_sent_keepalive s + 1\<rparr>)]" "\<lambda>_. session_newmsg e BGP_KEEPALIVE MSGSIZE_KEEPALIVE"]
  unfolding session_keepalive_def by (simp add: returns_do_all returns_intros returns_start_timers returns_basic del: do_all.simps)

lemma returns_open: "memory e \<Longrightarrow> returns (session_open e)"
  unfolding session_open_def by (intro returns_send returns_basic)

lemma returns_con_open: "memory e \<Longrightarrow> returns (con_open e)"
  unfolding con_open_def by (intro returns_do_all returns_intros returns_basic returns_open returns_start_timers returns_change_state)

lemma returns_negotiate: "returns (negotiate e)"
proof -
  have fl: "returns (session_graceful_flush e i)" for i unfolding session_graceful_flush_def by (rule returns_basic)
  have "returns (do_all [\<lambda>p. if c then session_graceful_flush e i p else Inr p, upd f])" for c i f
    by (intro returns_do_all returns_intros fl)
  then have "returns (neg_gr_aid e i)" for i unfolding returns_def neg_gr_aid_def Let_def by (simp del: do_all.simps)
  then show ?thesis unfolding negotiate_def by (intro returns_do_all returns_intros)
qed

section \<open>The handshake\<close>

text \<open>An OPEN message without optional parameters, and a configuration that insists on no capability.\<close>

definition plain_open :: "u16 \<Rightarrow> u16 \<Rightarrow> u32 \<Rightarrow> bytes" where
  "plain_open short_as holdtime bgpid = [BGP_VERSION] @ be_word 2 short_as @ be_word 2 holdtime @ be_word 4 bgpid @ [0]"

definition lenient :: "capabilities \<Rightarrow> bool" where
  "lenient c = (cap_refresh c \<noteq> 2 \<and> cap_ext_msg c \<noteq> 2 \<and> cap_enhanced_rr c \<noteq> 2 \<and> cap_as4byte c \<noteq> 2 \<and> gr_restart c \<noteq> 2 \<and>
     cap_policy c \<noteq> 2 \<and>
     list_all (\<lambda>i. cap_mp c i \<noteq> 2 \<and> cap_ext_nh c i \<noteq> 2 \<and> cap_add_path c i AND CAPA_AP_RECV_ENFORCE = 0 \<and> cap_add_path c i AND CAPA_AP_SEND_ENFORCE = 0) aids)"

lemma find_none: "list_all (\<lambda>i. \<not> P i) xs \<Longrightarrow> List.find P xs = None"
  by (simp add: find_None_iff list_all_iff)

lemma lenient_enforces_nothing: "lenient c \<Longrightarrow> enforce_fails c neg = None"
  unfolding enforce_fails_def lenient_def by (auto simp: find_none list_all_iff)

text \<open>What negotiation leaves alone.\<close>

definition same_session :: "peer \<Rightarrow> peer \<Rightarrow> bool" where
  "same_session p p' = (same_link p p' \<and> p_conf p' = p_conf p \<and> p_remote_bgpid p' = p_remote_bgpid p \<and> p_short_as p' = p_short_as p \<and>
     p_holdtime p' = p_holdtime p \<and> capa_ann p' = capa_ann p \<and> cap_policy (capa_peer p') = cap_policy (capa_peer p))"

interpretation ses: step_rel same_session
  by unfold_locales (simp_all add: same_session_def same_link_def)

lemma ses_negotiate: "keeps same_session (negotiate e)"
proof -
  have up: "keeps same_session (upd f)" if "\<And>p. same_session p (f p)" for f using that by (simp add: keeps_def upd_def)
  have fl: "keeps same_session (session_graceful_flush e i)" for i
    by (auto simp: keeps_def session_graceful_flush_def imsg_rde_def emit_def same_session_def same_link_def split: if_splits)
  have gr: "keeps same_session (neg_gr_aid e i)" for i
    unfolding keeps_def
  proof (intro allI impI)
    fix p p' assume a: "neg_gr_aid e i p = Inr p'"
    have s: "keeps same_session (do_all [\<lambda>p. if c then session_graceful_flush e i p else Inr p,
        upd (\<lambda>p. if gr_restart (capa_ann p) \<noteq> 0
             then p\<lparr>capa_neg := (capa_neg p)\<lparr>gr_flags := (gr_flags (capa_neg p))(i := f)\<rparr>\<rparr> else p)])" for c f
      by (intro ses.keeps_intros fl up) (simp add: same_session_def same_link_def)
    have "same_session p (if x then peer_capa (\<lambda>c. c\<lparr>gr_flags := (gr_flags c)(i := 0)\<rparr>) p else p)" for x by (simp add: same_session_def same_link_def peer_capa_def)
    then show "same_session p p'" using a ses.trans keepsD[OF s] unfolding neg_gr_aid_def Let_def by blast
  qed
  show ?thesis unfolding negotiate_def by (intro ses.keeps_intros gr up; simp add: same_session_def same_link_def)
qed

lemma plain_open_parsed:
  assumes "short_as \<noteq> 0" and "holdtime = 0 \<or> holdtime \<ge> pc_min_holdtime (p_conf p)" and "bgpid \<noteq> 0"
    and "pc_remote_as (p_conf p) = ucast short_as" and "pc_ebgp (p_conf p) \<or> bgpid \<noteq> p_local_bgpid p"
    and "lenient (capa_ann p)" and "cap_policy (capa_peer p) = 0"
  shows "\<exists>q. parse_open e (plain_open short_as holdtime bgpid) p = Inr (q, True) \<and> p_remote_bgpid q = bgpid \<and> p_short_as q = short_as \<and>
    p_holdtime q = min holdtime (pc_holdtime (p_conf p)) \<and> same_link p q"
proof -
  let ?p = "p\<lparr>p_short_as := short_as, p_holdtime := min holdtime (pc_holdtime (p_conf p)), p_remote_bgpid := bgpid\<rparr>"
  have "unat (ucast short_as :: u32) = unat short_as"
    using unsigned_less[of short_as, where ?'a = nat] by (simp add: unsigned_ucast_eq take_bit_nat_eq_self)
  then have as: "(ucast short_as :: u32) \<noteq> 0" using assms(1) by (metis unsigned_0 word_unat_eq_iff)
  have ad: "adopt_as (ucast short_as) ?p = ?p" using assms(4) as by (simp add: adopt_as_def)
  from returnsD[OF returns_negotiate, of e ?p] obtain q where q: "negotiate e ?p = Inr q" by blast
  note s = keepsD[OF ses_negotiate q]
  have "capa_neg_calc e ?p = Inr (q, True)"
    using q s assms(6,7) lenient_enforces_nothing[OF assms(6)]
    by (simp add: capa_neg_calc_def open_policy_def set_policy_def enforce_capas_def same_session_def lenient_def)
  then have c: "open_checks e (ucast short_as) ?p = Inr (q, True)"
    using assms(4,5) ad by (auto simp: open_checks_def Let_def)
  have "parse_open e (plain_open short_as holdtime bgpid) p = open_params e 0 [] (ucast short_as) ?p"
  proof -
    have "min holdtime (pc_holdtime (p_conf p)) = (if holdtime < pc_holdtime (p_conf p) then holdtime else pc_holdtime (p_conf p))" by (auto simp: min_def)
    moreover have "\<not> (holdtime \<noteq> 0 \<and> holdtime < pc_min_holdtime (p_conf p))" using assms(2) by (auto simp: not_less)
    ultimately show ?thesis using assms(1,3) by (auto simp: parse_open_def plain_open_def Let_def)
  qed
  then have "parse_open e (plain_open short_as holdtime bgpid) p = Inr (q, True)" using c by (simp add: open_params_def)
  moreover have "same_link p q" using s by (simp add: same_session_def same_link_def)
  ultimately show ?thesis using s by (auto simp: same_session_def)
qed


lemma keepalive_fields:
  assumes "memory e" and "session_keepalive e p = Inr p'"
  shows "p_remote_bgpid p' = p_remote_bgpid p" "p_short_as p' = p_short_as p"
proof -
  obtain b where "session_newmsg e BGP_KEEPALIVE MSGSIZE_KEEPALIVE = Inr b" using keepalive_built[OF assms(1)] by blast
  then show "p_remote_bgpid p' = p_remote_bgpid p" "p_short_as p' = p_short_as p" using assms(2)
    by (auto simp: session_keepalive_def send_or_fail_def session_sendmsg_def stat_def upd_def start_timer_keepalive_def tstop_def res_bind_Inr_iff
        split: if_splits dest!: tset_Inr)
qed

lemma session_up_last:
  assumes "session_up e p = Inr p'" and "e_rde e"
  shows "\<exists>xs. outs p' = xs @ [RdeUp (p_remote_bgpid p) (p_short_as p) (capa_neg p)]" "capa_neg p' = capa_neg p"
  using assms by (auto simp: session_up_def upd_def tstop_def imsg_rde_def emit_def split: if_splits)

lemma established_announced:
  assumes "change_state e STATE_ESTABLISHED event p = Inr p'" and "e_rde e"
  shows "\<exists>xs. outs p' = xs @ [RdeUp (p_remote_bgpid p) (p_short_as p) (capa_neg p')]"
proof -
  obtain q r where q: "tset e Timer_IdleHoldReset IdleHoldTime (p\<lparr>prev_state := state p, state := STATE_ESTABLISHED\<rparr>) = Inr q"
    "(if demoted q \<noteq> 0 then tset e Timer_CarpUndemote (\<lambda>_. INTERVAL_HOLD_DEMOTED) q else Inr q) = Inr r" "session_up e r = Inr p'"
    using assms(1) by (auto simp: change_state_def enter_established_def res_bind_Inr_iff)
  have "p_remote_bgpid r = p_remote_bgpid p" "p_short_as r = p_short_as p"
    using tset_Inr[OF q(1)] q(2) by (auto split: if_splits dest!: tset_Inr)
  then show ?thesis using session_up_last[OF q(3) assms(2)] by simp
qed

end
