(* ===== verification/Session_Props.thy ===== *)
theory Session_Props
  imports Session_Live
begin

text \<open>
  The properties of the session engine: what the decision engine is told, the states a session can be
  in, sessions that come up and sessions that are closed, what the negotiation settles, and the
  places where the code leaves a session in a state from which it does not recover.
\<close>

lemma do_all_append: "do_all (fs @ gs) s = res_bind (do_all fs s) (do_all gs)"
  by (induction fs arbitrary: s) (auto simp: res_bind_def split: sum.splits)

section \<open>A configured neighbor\<close>

text \<open>The concrete neighbor, configuration and surroundings the properties are tried on.\<close>

definition demo_env :: session_env where
  "demo_env = \<lparr>e_ca = (\<lambda>_. True), e_now = 1000000, e_connect = NoSocket, e_staletime = 0, e_rde = True, e_auth_ok = True, e_setup_ok = True\<rparr>"

definition demo_conf :: peer_config where
  "demo_conf = \<lparr>pc_capabilities = no_capa\<lparr>cap_as4byte := 1\<rparr>, pc_demote_group = False, pc_remote_as = 65001, pc_local_as = 65000, pc_role = ROLE_NONE,
     pc_holdtime = 90, pc_min_holdtime = 3, pc_connectretry = 120, pc_max_prefix_restart = 0, pc_max_out_prefix_restart = 0, pc_reason = [],
     pc_staletime = 0, pc_local_short_as = 65000, pc_template = False, pc_ebgp = True, pc_passive = True, pc_down = False, pc_enforce_as_off = False\<rparr>"

definition demo_stats :: peer_stats where
  "demo_stats = \<lparr>msg_sent_open = 0, msg_sent_update = 0, msg_sent_notification = 0, msg_sent_keepalive = 0, msg_sent_rrefresh = 0,
     msg_rcvd_open = 0, msg_rcvd_update = 0, msg_rcvd_notification = 0, msg_rcvd_keepalive = 0, msg_rcvd_rrefresh = 0,
     refresh_rcvd_req = 0, refresh_rcvd_borr = 0, refresh_rcvd_eorr = 0, refresh_sent_req = 0, refresh_sent_borr = 0, refresh_sent_eorr = 0,
     last_sent_errcode = 0, last_sent_suberr = 0, last_rcvd_errcode = 0, last_rcvd_suberr = 0, last_reason = [], last_updown = 0, last_read = 0, last_write = 0\<rparr>"

definition demo_peer :: peer where
  "demo_peer = \<lparr>p_conf = demo_conf, p_stats = demo_stats, capa_ann = no_capa, capa_peer = no_capa, capa_neg = no_capa, p_timers = [], wqueue = [],
     rqueue = [], rbuf = [], rpmsg = None, p_template = False, p_fd = -1, IdleHoldTime = 0, p_local_bgpid = 0x01010101, p_remote_bgpid = 0,
     state = STATE_NONE, prev_state = STATE_NONE, p_remote_role = ROLE_NONE, p_short_as = 0, p_holdtime = 0, depend_ok = False, demoted = 0,
     rpending = False, rdesession = False, throttled = False, p_delete = False, outs = []\<rparr>"

definition demo_config :: bgpd_config where
  "demo_config = \<lparr>c_holdtime = 90, c_min_holdtime = 3, c_connectretry = 120, c_bgpid = 0x01010101\<rparr>"

text \<open>The neighbor once it is configured: passive, so that it waits for the other side to connect.\<close>

definition demo_active :: peer where
  "demo_active = (case init_peer demo_env demo_config False False demo_peer of Inr p \<Rightarrow> p | Inl _ \<Rightarrow> demo_peer)"

lemma demo_checked:
  "(case init_peer demo_env demo_config False False demo_peer of Inl _ \<Rightarrow> False | Inr p \<Rightarrow>
     state p = STATE_ACTIVE \<and> p_fd p = -1 \<and> p_timers p = [] \<and> pc_min_holdtime (p_conf p) = 3 \<and> pc_holdtime (p_conf p) = 90 \<and>
     pc_remote_as (p_conf p) = 65001 \<and> pc_ebgp (p_conf p) \<and> cap_policy (capa_peer p) = 0 \<and>
     lenient (capa_ann p) \<and> \<not> pc_down (p_conf p))"
  by code_simp

lemma demo_init: "init_peer demo_env demo_config False False demo_peer = Inr demo_active"
  using demo_checked by (auto simp: demo_active_def split: sum.splits)

lemma demo_active:
  "state demo_active = STATE_ACTIVE" "p_fd demo_active = -1" "p_timers demo_active = []" "pc_min_holdtime (p_conf demo_active) = 3"
  "pc_holdtime (p_conf demo_active) = 90" "pc_remote_as (p_conf demo_active) = 65001" "pc_ebgp (p_conf demo_active)"
  "cap_policy (capa_peer demo_active) = 0" "lenient (capa_ann demo_active)"
  using demo_checked by (simp_all add: demo_init)

lemma demo_fresh: "fresh_peer demo_peer"
  by (simp add: fresh_peer_def demo_peer_def)

lemma demo_good: "good_env demo_env" "env_running demo_env" "memory demo_env" "e_now demo_env > 0" "e_rde demo_env"
  by (simp_all add: good_env_def env_running_def memory_def demo_env_def connect_fd_def)

lemma demo_reach: "session_reach good_env demo_active" "session_reach env_running demo_active"
  by (auto intro: session_reach.init[OF demo_fresh _ demo_init] demo_good)

section \<open>Updates only from a session that is up\<close>

text \<open>C3: In every run of the session engine, whatever messages, poll results, timers, operator
  requests and allocation failures occur, the decision engine is told that a session is up only
  while it knows the neighbor, and an UPDATE message is passed to it only after the session came up
  and before it was reported down, stale or deleted.\<close>

theorem rde_updates_only_while_up:
  assumes "session_reach env_running p"
  shows "rde_trace_ok (outs p)"
proof -
  have "rde_inv p" using assms
  proof (induction rule: session_reach.induct)
    case (init p e c dep reinit p')
    then show ?case using init_peer_inv by blast
  next
    case (step p e p')
    then show ?case using se_step_inv by blast
  qed
  then show ?thesis by (simp add: rde_inv_def)
qed

theorem rde_updates_only_while_up_witness:
  "session_reach env_running demo_active \<and> rde_trace_ok (outs demo_active)"
  using rde_updates_only_while_up[OF demo_reach(2)] demo_reach(2) by simp

section \<open>The states of a session\<close>



section \<open>A silent neighbor\<close>




section \<open>The handshake\<close>



end
