(* ===== verification/Session_Stream.thy ===== *)
theory Session_Stream
  imports Session_Props
begin

text \<open>
  The stream of a connection: however the network cuts the bytes of valid messages into pieces,
  reading the pieces one after the other queues exactly the messages that were sent.
\<close>

section \<open>Messages on the wire\<close>

definition frame :: "u8 \<Rightarrow> bytes \<Rightarrow> bytes" where
  "frame ty body = marker @ be_word 2 (of_nat (MSGSIZE_HEADER + length body) :: u16) @ [ty] @ body"

definition frame_ok :: "peer \<Rightarrow> u8 \<times> bytes \<Rightarrow> bool" where
  "frame_ok p m = (case m of (ty, body) \<Rightarrow>
     msg_type_known ty \<and> header_len_ok ty (MSGSIZE_HEADER + length body) \<and>
     MSGSIZE_HEADER + length body \<le> (if cap_ext_msg (capa_ann p) \<noteq> 0 then MAX_EXT_PKTSIZE else MAX_PKTSIZE))"

lemma length_frame [simp]: "length (frame ty body) = MSGSIZE_HEADER + length body"
  by (simp add: frame_def marker_def MSGSIZE_HEADER_def)

lemma frame_head: "take MSGSIZE_HEADER (frame ty body) = marker @ be_word 2 (of_nat (MSGSIZE_HEADER + length body) :: u16) @ [ty]"
  by (simp add: frame_def marker_def MSGSIZE_HEADER_def)

lemma frame_header:
  assumes "memory e" and "frame_ok q (ty, body)" and "capa_ann p = capa_ann q"
  shows "parse_header e (take MSGSIZE_HEADER (frame ty body)) p = Inr (p, Some (MSGSIZE_HEADER + length body))"
proof -
  let ?n = "MSGSIZE_HEADER + length body"
  have n: "?n \<le> 65535" using assms(2) by (auto simp: frame_ok_def msg_consts split: if_splits)
  have u: "unat (of_nat ?n :: u16) = ?n" using n by (simp add: unat_of_nat del: of_nat_add)
  obtain b where b: "ibuf_open (e_ca e) ?n = Inr b" using ibuf_open_roomy[OF assms(1), of ?n] n by auto
  have g: "get_bytes MSGSIZE_HEADER_MARKER (marker @ r) = Inr (marker, r)" for r
    by (rule get_bytes_append) (simp add: marker_def MSGSIZE_HEADER_MARKER_def)
  show ?thesis using assms(2,3) b u unfolding frame_head parse_header_def Let_def
    by (simp add: g get_n16_append[of _ "[ty]"] frame_ok_def)
qed

section \<open>Reading\<close>

text \<open>What has arrived of the next message, as the read side of the message buffer holds it.\<close>

definition holds :: "bytes \<Rightarrow> (nat \<times> bytes) option \<Rightarrow> bytes \<Rightarrow> (u8 \<times> bytes) list \<Rightarrow> bool" where
  "holds buf rp tail ms = (case rp of
     None \<Rightarrow> buf = tail \<and> length tail < MSGSIZE_HEADER
   | Some (n, got) \<Rightarrow> buf = [] \<and> got = tail \<and> length tail < n \<and>
       (case ms of [] \<Rightarrow> False | (ty, body) # _ \<Rightarrow> n = length (frame ty body)))"

definition wire :: "(u8 \<times> bytes) list \<Rightarrow> bytes" where
  "wire ms = concat (map (\<lambda>(ty, body). frame ty body) ms)"

lemma wire_simps [simp]: "wire [] = []" "wire ((ty, body) # ms) = frame ty body @ wire ms" "wire (xs @ ys) = wire xs @ wire ys"
  by (simp_all add: wire_def)

text \<open>The tail is the beginning of the first message that has not arrived in full.\<close>

definition partial :: "bytes \<Rightarrow> (u8 \<times> bytes) list \<Rightarrow> bool" where
  "partial tail ms = (case ms of [] \<Rightarrow> tail = [] | (ty, body) # _ \<Rightarrow> length tail < length (frame ty body) \<and> tail = take (length tail) (frame ty body))"

lemma wire_prefix:
  "x @ y = wire ms \<Longrightarrow> \<exists>as bs tail. ms = as @ bs \<and> x = wire as @ tail \<and> partial tail bs"
proof (induction ms arbitrary: x)
  case Nil
  then show ?case by (auto simp: partial_def)
next
  case (Cons m ms)
  obtain ty body where m: "m = (ty, body)" by (cases m)
  let ?f = "frame ty body"
  show ?case
  proof (cases "length x < length ?f")
    case True
    then have "x = take (length x) ?f" using Cons.prems m by (metis append_eq_conv_conj take_append take_all_iff append_Nil2 diff_is_0_eq less_imp_le take_eq_Nil wire_simps(2))
    then have "partial x (m # ms)" using True m by (simp add: partial_def)
    then show ?thesis by (intro exI[of _ "[]"] exI[of _ "m # ms"] exI[of _ x]) simp
  next
    case False
    then obtain x' where x: "x = ?f @ x'" using Cons.prems m
      by (metis append_eq_append_conv_if append_take_drop_id not_less wire_simps(2))
    with Cons.prems m have "x' @ y = wire ms" by simp
    from Cons.IH[OF this] obtain as bs tail where "ms = as @ bs" "x' = wire as @ tail" "partial tail bs" by blast
    then show ?thesis using x m by (intro exI[of _ "m # as"] exI[of _ bs] exI[of _ tail]) simp
  qed
qed

lemma wire_empty: "wire ms = [] \<longleftrightarrow> ms = []"
  by (cases ms) (auto simp: wire_def frame_def marker_def)

lemma frame_ok_queue [simp]:
  "frame_ok (rqueue_update f p) = frame_ok p" "frame_ok (rbuf_update g p) = frame_ok p" "frame_ok (rpmsg_update h p) = frame_ok p"
  by (simp_all add: frame_ok_def fun_eq_iff)

lemma read_frames:
  assumes "memory e" and "list_all (frame_ok p) (as @ bs)" and "partial tail bs"
  shows "\<exists>buf rp. read_loop e (wire as @ tail) None q p = Inr (p\<lparr>rbuf := buf, rpmsg := rp, rqueue := q @ map (\<lambda>(ty, body). frame ty body) as\<rparr>, True) \<and>
    holds buf rp tail bs"
  using assms(2)
proof (induction as arbitrary: q p)
  case Nil
  show ?case
  proof (cases "length tail < MSGSIZE_HEADER")
    case True
    then show ?thesis by (intro exI[of _ tail] exI[of _ None]) (simp add: read_loop.simps holds_def)
  next
    case False
    then obtain ty body rest where bs: "bs = (ty, body) # rest" using assms(3) by (cases bs) (auto simp: partial_def MSGSIZE_HEADER_def)
    let ?f = "frame ty body"
    have t: "length tail < length ?f" "tail = take (length tail) ?f" using assms(3) bs by (auto simp: partial_def)
    have "take MSGSIZE_HEADER tail = take MSGSIZE_HEADER ?f" using False t(2) by (metis min.absorb1 not_less take_take)
    moreover have "frame_ok p (ty, body)" using Nil bs by simp
    ultimately have "parse_header e (take MSGSIZE_HEADER tail) (p\<lparr>rqueue := q\<rparr>) = Inr (p\<lparr>rqueue := q\<rparr>, Some (length ?f))"
      using frame_header[OF assms(1)] by simp
    then show ?thesis using False t(1) bs
      by (intro exI[of _ "[]"] exI[of _ "Some (length ?f, tail)"]) (subst read_loop.simps, auto simp: take_msg_def holds_def)
  qed
next
  case (Cons m as)
  obtain ty body where m: "m = (ty, body)" by (cases m)
  let ?f = "frame ty body"
  have f: "frame_ok p (ty, body)" using Cons.prems m by simp
  have ph: "parse_header e (take MSGSIZE_HEADER (?f @ r)) (p\<lparr>rqueue := q\<rparr>) = Inr (p\<lparr>rqueue := q\<rparr>, Some (length ?f))" for r
    using frame_header[OF assms(1) f, of "p\<lparr>rqueue := q\<rparr>"] by simp
  have tm: "take_msg (?f @ r) (length ?f) [] q = (r, None, q @ [?f])" for r by (simp add: take_msg_def)
  have ok: "list_all (frame_ok (p\<lparr>rqueue := q\<rparr>)) (as @ bs)" using Cons.prems by simp
  have h: "\<not> length (wire (m # as) @ tail) < MSGSIZE_HEADER" using m by simp
  show ?case
  proof (cases "wire as @ tail = []")
    case True
    then have as: "as = []" "tail = []" by (auto simp: wire_empty)
    show ?thesis using h ph[of "[]"] tm[of "[]"] m as
      by (intro exI[of _ "[]"] exI[of _ None]) (subst read_loop.simps, simp add: holds_def MSGSIZE_HEADER_def)
  next
    case False
    have "read_loop e (wire (m # as) @ tail) None q p = read_loop e (wire as @ tail) None (q @ [?f]) (p\<lparr>rqueue := q\<rparr>)"
      using h ph[of "wire as @ tail"] tm[of "wire as @ tail"] m False by (subst read_loop.simps) auto
    then show ?thesis using Cons.IH[OF ok, of "q @ [?f]"] m by simp
  qed
qed

lemma read_holding:
  assumes "memory e" and "list_all (frame_ok p) (as @ bs)" and "holds buf rp tail (as @ bs)" and "tail @ d = wire as @ tail'" and "partial tail' bs"
  shows "\<exists>buf' rp'. read_loop e (buf @ d) rp q p = Inr (p\<lparr>rbuf := buf', rpmsg := rp', rqueue := q @ map (\<lambda>(ty, body). frame ty body) as\<rparr>, True) \<and>
    holds buf' rp' tail' bs"
proof (cases rp)
  case None
  then show ?thesis using assms(3,4) read_frames[OF assms(1,2,5)] by (simp add: holds_def)
next
  case (Some x)
  then obtain ty body ms where x: "rp = Some (length (frame ty body), tail)" "buf = []" "as @ bs = (ty, body) # ms" "length tail < length (frame ty body)"
    using assms(3) by (cases "as @ bs") (auto simp: holds_def)
  let ?f = "frame ty body"
  show ?thesis
  proof (cases as)
    case Nil
    then have bs: "bs = (ty, body) # ms" "tail' = tail @ d" using x(3) assms(4) by simp_all
    then have "length (tail @ d) < length ?f" using assms(5) by (simp add: partial_def)
    then show ?thesis using x bs Nil by (intro exI[of _ "[]"] exI[of _ "Some (length ?f, tail @ d)"]) (subst read_loop.simps, auto simp: take_msg_def holds_def)
  next
    case (Cons m as')
    then have as: "as = (ty, body) # as'" using x(3) by simp
    then have td: "tail @ d = ?f @ wire as' @ tail'" using assms(4) by simp
    then have t: "take (length tail) ?f = tail" using x(4) by (metis append_eq_append_conv_if append_eq_conv_conj not_less_iff_gr_or_eq nat_less_le)
    have "d = drop (length tail) ?f @ wire as' @ tail'" using td x(4) by (metis append_eq_conv_conj drop_append diff_is_0_eq drop0 less_imp_le)
    then have tm: "take_msg d (length ?f) tail q = (wire as' @ tail', None, q @ [?f])" using t x(4) by (auto simp: take_msg_def Let_def) (metis append_take_drop_id)
    have ok: "list_all (frame_ok p) (as' @ bs)" using assms(2) as by simp
    show ?thesis
    proof (cases "wire as' @ tail' = []")
      case True
      then show ?thesis using x tm as by (intro exI[of _ "[]"] exI[of _ None]) (subst read_loop.simps, auto simp: holds_def wire_empty MSGSIZE_HEADER_def)
    next
      case False
      have "read_loop e (buf @ d) rp q p = read_loop e (wire as' @ tail') None (q @ [?f]) p"
        using x tm False by (subst read_loop.simps) auto
      then show ?thesis using read_frames[OF assms(1) ok assms(5), of "q @ [?f]"] as by simp
    qed
  qed
qed

section \<open>A stream in pieces\<close>

text \<open>The pieces are read one after the other, as long as reading succeeds.\<close>

primrec read_pieces :: "session_env \<Rightarrow> bytes list \<Rightarrow> peer \<Rightarrow> (peer \<times> bool) res" where
  "read_pieces e [] p = Inr (p, True)"
| "read_pieces e (d # ds) p = res_bind (ibuf_read e (ReadData d) p) (\<lambda>(p, r). if r = 1 then read_pieces e ds p else Inr (p, False))"

lemma read_pieces_frames:
  assumes "memory e" and "list_all (frame_ok p) ms" and "holds (rbuf p) (rpmsg p) tail ms" and "tail @ concat ds = wire ms"
  shows "\<exists>p'. read_pieces e ds p = Inr (p', True) \<and> rqueue p' = rqueue p @ map (\<lambda>(ty, body). frame ty body) ms \<and> rbuf p' = [] \<and> rpmsg p' = None"
  using assms(2-4)
proof (induction ds arbitrary: p ms tail)
  case Nil
  then have ms: "ms = []"
    by (cases ms) (auto simp: holds_def split: option.splits prod.splits)
  with Nil show ?case by (auto simp: holds_def split: option.splits)
next
  case (Cons d ds)
  from wire_prefix[of "tail @ d" "concat ds" ms] Cons.prems(3) obtain as bs tail' where
    s: "ms = as @ bs" "tail @ d = wire as @ tail'" "partial tail' bs" by auto
  obtain buf' rp' where r: "read_loop e (rbuf p @ d) (rpmsg p) (rqueue p) p =
      Inr (p\<lparr>rbuf := buf', rpmsg := rp', rqueue := rqueue p @ map (\<lambda>(ty, body). frame ty body) as\<rparr>, True)" "holds buf' rp' tail' bs"
    using read_holding[OF assms(1) _ _ s(2,3), of p "rbuf p" "rpmsg p" "rqueue p"] Cons.prems(1,2) s(1) by auto
  let ?p = "p\<lparr>rbuf := buf', rpmsg := rp', rqueue := rqueue p @ map (\<lambda>(ty, body). frame ty body) as\<rparr>"
  have "tail' @ concat ds = wire bs" using s Cons.prems(3) by (metis append_assoc concat.simps(2) same_append_eq wire_simps(3))
  moreover have "list_all (frame_ok ?p) bs" using Cons.prems(1) s(1) by simp
  ultimately obtain p' where "read_pieces e ds ?p = Inr (p', True)" "rqueue p' = rqueue ?p @ map (\<lambda>(ty, body). frame ty body) bs" "rbuf p' = []" "rpmsg p' = None"
    using Cons.IH[of ?p bs tail'] r(2) by auto
  then show ?case using r(1) s(1) by (auto simp: ibuf_read_def)
qed

text \<open>C14: However the network cuts a stream of well-formed messages into pieces, in the middle of a
  header or with many messages in one piece, reading the pieces one after the other succeeds and
  queues exactly the messages that were sent, in order and complete, and leaves no byte behind.\<close>

theorem stream_framing:
  assumes "memory e" and "rbuf p = []" and "rpmsg p = None" and "list_all (frame_ok p) ms" and "concat ds = wire ms"
  shows "\<exists>p'. read_pieces e ds p = Inr (p', True) \<and> rqueue p' = rqueue p @ map (\<lambda>(ty, body). frame ty body) ms \<and> rbuf p' = [] \<and> rpmsg p' = None"
  using read_pieces_frames[OF assms(1,4), of "[]" ds] assms(2,3,5) by (simp add: holds_def MSGSIZE_HEADER_def)

definition demo_msgs :: "(u8 \<times> bytes) list" where
  "demo_msgs = [(BGP_KEEPALIVE, []), (BGP_UPDATE, [0, 0, 0, 0])]"

theorem stream_framing_witness:
  "\<exists>p'. read_pieces demo_env [take 10 (wire demo_msgs), drop 10 (wire demo_msgs)] demo_peer = Inr (p', True) \<and>
    rqueue p' = [frame BGP_KEEPALIVE [], frame BGP_UPDATE [0, 0, 0, 0]] \<and> rbuf p' = [] \<and> rpmsg p' = None"
proof -
  have ok: "list_all (frame_ok demo_peer) demo_msgs" by code_simp
  have c: "concat [take 10 (wire demo_msgs), drop 10 (wire demo_msgs)] = wire demo_msgs" by simp
  have p: "rbuf demo_peer = []" "rpmsg demo_peer = None" "rqueue demo_peer = []" by (simp_all add: demo_peer_def)
  have f: "map (\<lambda>(ty, body). frame ty body) demo_msgs = [frame BGP_KEEPALIVE [], frame BGP_UPDATE [0, 0, 0, 0]]" by (simp add: demo_msgs_def)
  show ?thesis using stream_framing[OF demo_good(3) p(1,2) ok c] unfolding p(3) f append_Nil .
qed

end
