(* ===== verification/Session_Negotiate.thy ===== *)
theory Session_Negotiate
  imports Session_Props
begin

text \<open>
  What the capability negotiation settles: capa_neg_calc() against a specification over what the two
  sides announced.
\<close>

section \<open>Specification\<close>

text \<open>An address family is used when both sides announced it; without any announcement it is IPv4 unicast.\<close>

definition agreed_mp :: "capabilities \<Rightarrow> capabilities \<Rightarrow> nat \<Rightarrow> bool" where
  "agreed_mp ann pr i = (cap_mp ann i \<noteq> 0 \<and> cap_mp pr i \<noteq> 0 \<or> i = AID_INET \<and> \<not> hasmp ann pr)"

definition agreed_aid :: "capabilities \<Rightarrow> capabilities \<Rightarrow> capabilities \<Rightarrow> nat \<Rightarrow> bool" where
  "agreed_aid ann pr neg i =
     ((cap_mp neg i \<noteq> 0) = agreed_mp ann pr i \<and>
      (cap_ext_nh neg i \<noteq> 0) = (agreed_mp ann pr i \<and> cap_ext_nh ann i \<noteq> 0 \<and> cap_ext_nh pr i \<noteq> 0) \<and>
      (cap_add_path neg i AND CAPA_AP_RECV \<noteq> 0) =
        (agreed_mp ann pr i \<and> cap_add_path ann i AND CAPA_AP_RECV \<noteq> 0 \<and> cap_add_path pr i AND CAPA_AP_SEND \<noteq> 0) \<and>
      (cap_add_path neg i AND CAPA_AP_SEND \<noteq> 0) =
        (agreed_mp ann pr i \<and> cap_add_path ann i AND CAPA_AP_SEND \<noteq> 0 \<and> cap_add_path pr i AND CAPA_AP_RECV \<noteq> 0))"

definition agreed :: "capabilities \<Rightarrow> capabilities \<Rightarrow> capabilities \<Rightarrow> bool" where
  "agreed ann pr neg =
     (list_all (\<lambda>f. (f neg \<noteq> 0) = (f ann \<noteq> 0 \<and> f pr \<noteq> 0))
        [cap_refresh, cap_enhanced_rr, cap_as4byte, cap_ext_msg, gr_restart, gr_notification] \<and>
      gr_timeout neg = gr_timeout pr \<and> list_all (agreed_aid ann pr neg) aids)"

text \<open>The capabilities the configuration insists on, over what the two sides announced.\<close>

definition enforced_aid :: "capabilities \<Rightarrow> capabilities \<Rightarrow> nat \<Rightarrow> bool" where
  "enforced_aid ann pr i =
     ((cap_mp ann i = 2 \<longrightarrow> cap_mp pr i \<noteq> 0) \<and>
      (agreed_mp ann pr i \<longrightarrow>
        (cap_add_path ann i AND CAPA_AP_RECV_ENFORCE \<noteq> 0 \<longrightarrow> cap_add_path ann i AND CAPA_AP_RECV \<noteq> 0 \<and> cap_add_path pr i AND CAPA_AP_SEND \<noteq> 0) \<and>
        (cap_add_path ann i AND CAPA_AP_SEND_ENFORCE \<noteq> 0 \<longrightarrow> cap_add_path ann i AND CAPA_AP_SEND \<noteq> 0 \<and> cap_add_path pr i AND CAPA_AP_RECV \<noteq> 0) \<and>
        (cap_ext_nh ann i = 2 \<longrightarrow> cap_ext_nh pr i \<noteq> 0)))"

definition enforced :: "capabilities \<Rightarrow> capabilities \<Rightarrow> bool" where
  "enforced ann pr =
     (list_all (\<lambda>f. f ann = 2 \<longrightarrow> f pr \<noteq> 0) [cap_refresh, cap_ext_msg, cap_enhanced_rr, cap_as4byte, gr_restart] \<and>
      list_all (enforced_aid ann pr) aids)"

text \<open>RFC 9234: on an external session the roles of the two sides must fit.\<close>

definition policy_ok :: "peer \<Rightarrow> bool" where
  "policy_ok p =
     (pc_ebgp (p_conf p) \<longrightarrow>
        (cap_policy (capa_ann p) \<noteq> 0 \<and> cap_policy (capa_peer p) \<noteq> 0 \<longrightarrow> role_ok (pc_role (p_conf p)) (p_remote_role p)) \<and>
        (cap_policy (capa_ann p) = 2 \<longrightarrow> cap_policy (capa_peer p) \<noteq> 0))"

section \<open>The loops over the address families\<close>

lemma both_nonzero [simp]: "both a b \<noteq> 0 \<longleftrightarrow> a \<noteq> 0 \<and> b \<noteq> 0" "both a b = 0 \<longleftrightarrow> a = 0 \<or> b = 0"
  by (simp_all add: both_def)

lemma aids_facts: "distinct aids" "0 \<notin> set aids" "AID_INET \<in> set aids"
  by (simp_all add: aids_def AID_MIN_def AID_MAX_def AID_INET_def)

lemma fold_mp:
  "fold (\<lambda>i c. c\<lparr>cap_mp := (cap_mp c)(i := g i)\<rparr>) xs c = c\<lparr>cap_mp := (\<lambda>i. if i \<in> set xs then g i else cap_mp c i)\<rparr>"
proof (induction xs arbitrary: c)
  case (Cons x xs)
  show ?case unfolding fold_simps Cons.IH by (simp add: fun_eq_iff)
qed simp

lemma neg_mp_agreed:
  "\<exists>m. neg_mp ann pr c = c\<lparr>cap_mp := m\<rparr> \<and> (\<forall>i \<in> set aids. (m i \<noteq> 0) = agreed_mp ann pr i)"
proof -
  let ?m = "\<lambda>i. if i \<in> set aids then both (cap_mp ann i) (cap_mp pr i) else cap_mp c i"
  show ?thesis
    by (rule exI[of _ "if hasmp ann pr then ?m else ?m(AID_INET := 1)"])
       (auto simp: neg_mp_def Let_def agreed_mp_def hasmp_def list_ex_iff fold_mp)
qed

definition ext_nh_both :: "capabilities \<Rightarrow> capabilities \<Rightarrow> capabilities \<Rightarrow> nat \<Rightarrow> bool" where
  "ext_nh_both ann pr c i = (cap_mp c i \<noteq> 0 \<and> cap_ext_nh ann i \<noteq> 0 \<and> cap_ext_nh pr i \<noteq> 0)"

lemma fold_ext_nh:
  "fold (\<lambda>i c. if cap_mp c i = 0 then c
                  else if cap_ext_nh ann i \<noteq> 0 \<and> cap_ext_nh pr i \<noteq> 0 then c\<lparr>cap_ext_nh := (cap_ext_nh c)(i := 1)\<rparr> else c) xs c =
     c\<lparr>cap_ext_nh := (\<lambda>i. if i \<in> set xs \<and> ext_nh_both ann pr c i then 1 else cap_ext_nh c i)\<rparr>"
proof (induction xs arbitrary: c)
  case (Cons x xs)
  show ?case unfolding fold_simps Cons.IH by (auto simp: fun_eq_iff ext_nh_both_def)
qed simp

lemma neg_ext_nh_agreed:
  "\<exists>x. neg_ext_nh ann pr c = c\<lparr>cap_ext_nh := x\<rparr> \<and> (\<forall>i \<in> set aids. (x i \<noteq> 0) = ext_nh_both ann pr c i)"
  unfolding neg_ext_nh_def fold_ext_nh
  by (intro exI[of _ "\<lambda>i. if i \<in> set aids \<and> ext_nh_both ann pr c i then 1 else 0"]) (auto simp: ext_nh_both_def fun_eq_iff)

text \<open>The flags of one address family.\<close>

definition ap_flags :: "capabilities \<Rightarrow> capabilities \<Rightarrow> nat \<Rightarrow> u8" where
  "ap_flags ann pr i =
     (if cap_add_path ann i AND CAPA_AP_RECV \<noteq> 0 \<and> cap_add_path pr i AND CAPA_AP_SEND \<noteq> 0 then CAPA_AP_RECV else 0) OR
     (if cap_add_path ann i AND CAPA_AP_SEND \<noteq> 0 \<and> cap_add_path pr i AND CAPA_AP_RECV \<noteq> 0 then CAPA_AP_SEND else 0)"

lemma ap_flags_bits:
  "(ap_flags ann pr i AND CAPA_AP_RECV \<noteq> 0) = (cap_add_path ann i AND CAPA_AP_RECV \<noteq> 0 \<and> cap_add_path pr i AND CAPA_AP_SEND \<noteq> 0)"
  "(ap_flags ann pr i AND CAPA_AP_SEND \<noteq> 0) = (cap_add_path ann i AND CAPA_AP_SEND \<noteq> 0 \<and> cap_add_path pr i AND CAPA_AP_RECV \<noteq> 0)"
  by (auto simp: ap_flags_def CAPA_AP_RECV_def CAPA_AP_SEND_def)

lemma neg_add_path_step:
  "\<exists>x. (if cap_mp c i = 0 then c
        else let c1 = (if cap_add_path ann i AND CAPA_AP_RECV \<noteq> 0 \<and> cap_add_path pr i AND CAPA_AP_SEND \<noteq> 0
                       then or_add_path 0 CAPA_AP_RECV (or_add_path i CAPA_AP_RECV c) else c)
             in if cap_add_path ann i AND CAPA_AP_SEND \<noteq> 0 \<and> cap_add_path pr i AND CAPA_AP_RECV \<noteq> 0
                then or_add_path 0 CAPA_AP_SEND (or_add_path i CAPA_AP_SEND c1) else c1) = c\<lparr>cap_add_path := x\<rparr> \<and>
     (\<forall>j. j \<noteq> 0 \<longrightarrow> x j = (if j = i \<and> cap_mp c i \<noteq> 0 then cap_add_path c j OR ap_flags ann pr j else cap_add_path c j))"
  (is "\<exists>x. ?s = _ \<and> _")
  by (rule exI[of _ "cap_add_path ?s"]) (auto simp: or_add_path_def ap_flags_def Let_def or.assoc)

lemma fold_add_path:
  assumes "distinct xs"
  shows "\<exists>x. fold (\<lambda>i c. if cap_mp c i = 0 then c
        else let c1 = (if cap_add_path ann i AND CAPA_AP_RECV \<noteq> 0 \<and> cap_add_path pr i AND CAPA_AP_SEND \<noteq> 0
                       then or_add_path 0 CAPA_AP_RECV (or_add_path i CAPA_AP_RECV c) else c)
             in if cap_add_path ann i AND CAPA_AP_SEND \<noteq> 0 \<and> cap_add_path pr i AND CAPA_AP_RECV \<noteq> 0
                then or_add_path 0 CAPA_AP_SEND (or_add_path i CAPA_AP_SEND c1) else c1) xs c = c\<lparr>cap_add_path := x\<rparr> \<and>
     (\<forall>j. j \<noteq> 0 \<longrightarrow> x j = (if j \<in> set xs \<and> cap_mp c j \<noteq> 0 then cap_add_path c j OR ap_flags ann pr j else cap_add_path c j))"
  (is "\<exists>x. fold ?f xs c = _ \<and> _")
  using assms
proof (induction xs arbitrary: c)
  case Nil
  show ?case by (intro exI[of _ "cap_add_path c"]) simp
next
  case (Cons y xs)
  obtain z where z: "?f y c = c\<lparr>cap_add_path := z\<rparr>"
    "\<And>j. j \<noteq> 0 \<Longrightarrow> z j = (if j = y \<and> cap_mp c y \<noteq> 0 then cap_add_path c j OR ap_flags ann pr j else cap_add_path c j)"
    using neg_add_path_step[of c y ann pr] by blast
  obtain x where x: "fold ?f xs (c\<lparr>cap_add_path := z\<rparr>) = (c\<lparr>cap_add_path := z\<rparr>)\<lparr>cap_add_path := x\<rparr>"
    "\<forall>j. j \<noteq> 0 \<longrightarrow> x j = (if j \<in> set xs \<and> cap_mp (c\<lparr>cap_add_path := z\<rparr>) j \<noteq> 0 then cap_add_path (c\<lparr>cap_add_path := z\<rparr>) j OR ap_flags ann pr j else cap_add_path (c\<lparr>cap_add_path := z\<rparr>) j)"
    using Cons.IH[of "c\<lparr>cap_add_path := z\<rparr>"] Cons.prems by auto
  have "fold ?f (y # xs) c = c\<lparr>cap_add_path := x\<rparr>" unfolding fold_simps z(1) x(1) by simp
  then show ?case using x(2) z(2) Cons.prems by (intro exI[of _ x]) auto
qed

lemma neg_add_path_agreed:
  "\<exists>x. neg_add_path ann pr c = c\<lparr>cap_add_path := x\<rparr> \<and> (\<forall>i \<in> set aids. x i = (if cap_mp c i \<noteq> 0 then ap_flags ann pr i else 0))"
proof -
  obtain x where x: "neg_add_path ann pr c = (c\<lparr>cap_add_path := \<lambda>_. 0\<rparr>)\<lparr>cap_add_path := x\<rparr>"
    "\<forall>j. j \<noteq> 0 \<longrightarrow> x j = (if j \<in> set aids \<and> cap_mp c j \<noteq> 0 then 0 OR ap_flags ann pr j else 0)"
    unfolding neg_add_path_def using fold_add_path[OF aids_facts(1), of ann pr "c\<lparr>cap_add_path := \<lambda>_. 0\<rparr>"] by auto
  have "\<forall>i \<in> set aids. i \<noteq> 0" using aids_facts(2) by (metis)
  then show ?thesis using x by (intro exI[of _ x]) auto
qed

section \<open>The negotiation\<close>

text \<open>The graceful restart loop only touches the graceful restart flags and what is sent.\<close>

definition same_capas :: "peer \<Rightarrow> peer \<Rightarrow> bool" where
  "same_capas p p' = (p_conf p' = p_conf p \<and> p_remote_role p' = p_remote_role p \<and> capa_ann p' = capa_ann p \<and>
     (\<exists>f. capa_peer p' = (capa_peer p)\<lparr>gr_flags := f\<rparr>) \<and> (\<exists>f. capa_neg p' = (capa_neg p)\<lparr>gr_flags := f\<rparr>))"

lemma capa_self: "\<exists>f. c = c\<lparr>gr_flags := f\<rparr>" for c :: capabilities
  by (rule exI[of _ "gr_flags c"]) simp

interpretation capas: step_rel same_capas
  by unfold_locales (auto simp: same_capas_def intro: capa_self)

lemma capas_gr_aid: "keeps same_capas (neg_gr_aid e i)"
  unfolding keeps_def
proof (intro allI impI)
  fix p p' assume a: "neg_gr_aid e i p = Inr p'"
  have up: "keeps same_capas (upd f)" if "\<And>p. same_capas p (f p)" for f using that by (simp add: keeps_def upd_def)
  have fl: "keeps same_capas (session_graceful_flush e i)" for i
    by (auto simp: keeps_def session_graceful_flush_def imsg_rde_def emit_def same_capas_def intro: capa_self split: if_splits)
  have s: "keeps same_capas (do_all [\<lambda>p. if c then session_graceful_flush e i p else Inr p,
      upd (\<lambda>p. if gr_restart (capa_ann p) \<noteq> 0
           then p\<lparr>capa_neg := (capa_neg p)\<lparr>gr_flags := (gr_flags (capa_neg p))(i := f)\<rparr>\<rparr> else p)])" for c f
    by (intro capas.keeps_intros fl up) (auto simp: same_capas_def intro: capa_self)
  have "same_capas p (if x then peer_capa (\<lambda>c. c\<lparr>gr_flags := (gr_flags c)(i := 0)\<rparr>) p else p)" for x
    by (auto simp: same_capas_def peer_capa_def intro: capa_self)
  then show "same_capas p p'" using a capas.trans keepsD[OF s] unfolding neg_gr_aid_def Let_def by blast
qed

lemma negotiate_agreed:
  assumes "negotiate e p = Inr q"
  shows "agreed (capa_ann p) (capa_peer p) (capa_neg q)"
    and "p_conf q = p_conf p" "p_remote_role q = p_remote_role p" "capa_ann q = capa_ann p" "cap_policy (capa_peer q) = cap_policy (capa_peer p)"
    "cap_policy (capa_neg q) = cap_policy (capa_neg p)"
proof -
  let ?ann = "capa_ann p" and ?pr = "capa_peer p"
  let ?p = "p\<lparr>capa_neg := neg_mp ?ann ?pr (neg_flags ?ann ?pr (capa_neg p))\<rparr>"
  obtain r where r: "do_all (map (neg_gr_aid e) aids) ?p = Inr r"
    "q = r\<lparr>capa_neg := neg_add_path (capa_ann r) (capa_peer r) (neg_ext_nh (capa_ann r) (capa_peer r) (neg_gr (capa_ann r) (capa_peer r) (capa_neg r)))\<rparr>"
    using assms by (auto simp: negotiate_def upd_def do_all_append res_bind_Inr_iff)
  have "keeps same_capas (do_all (map (neg_gr_aid e) aids))" by (intro capas.keeps_intros capas_gr_aid)
  from keepsD[OF this r(1)] obtain f g where s: "p_conf r = p_conf p" "p_remote_role r = p_remote_role p" "capa_ann r = ?ann"
    "capa_peer r = ?pr\<lparr>gr_flags := f\<rparr>" "capa_neg r = (capa_neg ?p)\<lparr>gr_flags := g\<rparr>" by (auto simp: same_capas_def)
  show "p_conf q = p_conf p" "p_remote_role q = p_remote_role p" "capa_ann q = capa_ann p" "cap_policy (capa_peer q) = cap_policy (capa_peer p)"
    using r(2) s by simp_all
  obtain m where m: "neg_mp ?ann ?pr (neg_flags ?ann ?pr (capa_neg p)) = (neg_flags ?ann ?pr (capa_neg p))\<lparr>cap_mp := m\<rparr>"
    "\<forall>i \<in> set aids. (m i \<noteq> 0) = agreed_mp ?ann ?pr i" using neg_mp_agreed by blast
  let ?c = "neg_gr ?ann (capa_peer r) (capa_neg r)"
  obtain x where x: "neg_ext_nh ?ann (capa_peer r) ?c = ?c\<lparr>cap_ext_nh := x\<rparr>" "\<forall>i \<in> set aids. (x i \<noteq> 0) = ext_nh_both ?ann (capa_peer r) ?c i"
    using neg_ext_nh_agreed by blast
  obtain y where y: "neg_add_path ?ann (capa_peer r) (?c\<lparr>cap_ext_nh := x\<rparr>) = (?c\<lparr>cap_ext_nh := x\<rparr>)\<lparr>cap_add_path := y\<rparr>"
    "\<forall>i \<in> set aids. y i = (if cap_mp (?c\<lparr>cap_ext_nh := x\<rparr>) i \<noteq> 0 then ap_flags ?ann (capa_peer r) i else 0)"
    using neg_add_path_agreed by blast
  have n: "capa_neg q = ?c\<lparr>cap_ext_nh := x, cap_add_path := y\<rparr>" using r(2) s(3) x(1) y(1) by simp
  show "cap_policy (capa_neg q) = cap_policy (capa_neg p)" using n s(5) m(1) by (simp add: neg_gr_def neg_flags_def)
  have mp: "cap_mp ?c = m" using s(5) m(1) by (simp add: neg_gr_def)
  have "agreed_aid ?ann ?pr (capa_neg q) i" if i: "i \<in> set aids" for i
    using i m(2) x(2) y(2) mp s(4) ap_flags_bits[of ?ann "capa_peer r" i]
    by (simp add: agreed_aid_def n ext_nh_both_def)
  then show "agreed ?ann ?pr (capa_neg q)" using s(4,5) m(1)
    by (auto simp: agreed_def n list_all_iff neg_gr_def neg_flags_def)
qed

lemma find_free: "List.find P xs = None \<longleftrightarrow> (\<forall>x \<in> set xs. \<not> P x)"
  by (auto simp: find_None_iff)

lemma search_free:
  "(if b then Some x else y) = None \<longleftrightarrow> \<not> b \<and> y = None"
  "(case r of Some i \<Rightarrow> Some (h i) | None \<Rightarrow> y) = None \<longleftrightarrow> r = None \<and> y = None"
  by (auto split: option.split)

definition flags_kept :: "capabilities \<Rightarrow> capabilities \<Rightarrow> bool" where
  "flags_kept ann c = (\<not> (cap_refresh ann = 2 \<and> cap_refresh c = 0) \<and> \<not> (cap_ext_msg ann = 2 \<and> cap_ext_msg c = 0) \<and>
     \<not> (cap_enhanced_rr ann = 2 \<and> cap_enhanced_rr c = 0) \<and> \<not> (cap_as4byte ann = 2 \<and> cap_as4byte c = 0) \<and>
     \<not> (gr_restart ann = 2 \<and> gr_restart c = 0))"

lemma enforce_none:
  "enforce_fails ann neg = None \<longleftrightarrow>
     flags_kept ann neg \<and> (\<forall>i \<in> set aids. \<not> (cap_mp ann i = 2 \<and> cap_mp neg i = 0)) \<and>
     (\<forall>i \<in> set aids. \<not> (cap_mp neg i \<noteq> 0 \<and>
        (cap_add_path ann i AND CAPA_AP_RECV_ENFORCE \<noteq> 0 \<and> cap_add_path neg i AND CAPA_AP_RECV = 0 \<or>
         cap_add_path ann i AND CAPA_AP_SEND_ENFORCE \<noteq> 0 \<and> cap_add_path neg i AND CAPA_AP_SEND = 0))) \<and>
     (\<forall>i \<in> set aids. \<not> (cap_mp neg i \<noteq> 0 \<and> cap_ext_nh ann i = 2 \<and> cap_ext_nh neg i = 0))"
  unfolding enforce_fails_def flags_kept_def by (simp only: search_free find_free) blast

lemma enforce_iff:
  assumes "agreed ann pr neg"
  shows "(enforce_fails ann neg = None) = enforced ann pr"
proof -
  have flag: "flags_kept ann neg = list_all (\<lambda>f. f ann = 2 \<longrightarrow> f pr \<noteq> 0) [cap_refresh, cap_ext_msg, cap_enhanced_rr, cap_as4byte, gr_restart]"
    using assms by (auto simp: agreed_def flags_kept_def)
  have aid: "(cap_mp ann i = 2 \<longrightarrow> cap_mp neg i \<noteq> 0) \<and>
      (cap_mp neg i \<noteq> 0 \<longrightarrow>
        (cap_add_path ann i AND CAPA_AP_RECV_ENFORCE \<noteq> 0 \<longrightarrow> cap_add_path neg i AND CAPA_AP_RECV \<noteq> 0) \<and>
        (cap_add_path ann i AND CAPA_AP_SEND_ENFORCE \<noteq> 0 \<longrightarrow> cap_add_path neg i AND CAPA_AP_SEND \<noteq> 0) \<and>
        (cap_ext_nh ann i = 2 \<longrightarrow> cap_ext_nh neg i \<noteq> 0)) \<longleftrightarrow> enforced_aid ann pr i" if i: "i \<in> set aids" for i
  proof -
    have a: "agreed_aid ann pr neg i" using assms i by (auto simp: agreed_def list_all_iff)
    have "cap_mp ann i = 2 \<Longrightarrow> agreed_mp ann pr i = (cap_mp pr i \<noteq> 0)" using i by (auto simp: agreed_mp_def hasmp_def list_ex_iff)
    then show ?thesis using a unfolding agreed_aid_def enforced_aid_def by auto
  qed
  show ?thesis unfolding enforce_none enforced_def flag list_all_iff[of "enforced_aid ann pr"] using aid by blast
qed

lemma set_policy_agreed [simp]: "agreed ann pr (capa_neg (set_policy q)) = agreed ann pr (capa_neg q)"
proof -
  have "agreed_aid ann pr (c\<lparr>cap_policy := x\<rparr>) = agreed_aid ann pr c" for c x by (simp add: agreed_aid_def fun_eq_iff)
  then show ?thesis by (simp add: set_policy_def agreed_def)
qed

lemma neg_fails_returns: "memory e \<Longrightarrow> \<exists>p'. neg_fails e subcode data p = Inr (p', False)"
  using returnsD[OF returns_notification, of e ERR_OPEN subcode data p] by (auto simp: neg_fails_def)

lemma enforce_capas_result:
  assumes "memory e" and "agreed (capa_ann p) pr (capa_neg p)"
  shows "\<exists>p'. enforce_capas e p = Inr (p', enforced (capa_ann p) pr) \<and> (enforced (capa_ann p) pr \<longrightarrow> p' = p)"
proof (cases "enforce_fails (capa_ann p) (capa_neg p)")
  case None
  then show ?thesis using enforce_iff[OF assms(2)] by (simp add: enforce_capas_def)
next
  case (Some x)
  moreover obtain code len i where "x = (code, len, i)" by (cases x)
  ultimately show ?thesis using enforce_iff[OF assms(2)] neg_fails_returns[OF assms(1)]
    by (auto simp: enforce_capas_def split: sum.splits)
qed



end
