(* ===== verification/Session_Faults.thy ===== *)
theory Session_Faults
  imports Session_Props
begin

text \<open>
  States the session engine does not recover from by itself when memory is short or a socket cannot be
  set up, and messages of one connection that are sent on the next. The invariant of Session_Inv
  excludes the first two by its assumptions on the environment.
\<close>

section \<open>An OPEN message that cannot be built\<close>

lemma tset_one: "e_ca e 1 \<Longrightarrow> \<exists>th. tset e t off p = Inr (p\<lparr>p_timers := th\<rparr>)"
  by (auto simp: tset_def timer_set_def Let_def)

lemma idle_from_connecting:
  assumes "e_ca e 1" and "e_now e > 0" and "timers_ok (p_timers p)" and "state p = STATE_CONNECT \<or> state p = STATE_ACTIVE"
  shows "\<exists>q. change_state e STATE_IDLE EVNT_CON_FATAL p = Inr q \<and> p_fd q = -1 \<and> running q Timer_IdleHold \<and> timers_ok (p_timers q)"
proof -
  let ?p = "p\<lparr>prev_state := state p, state := STATE_IDLE\<rparr>"
  let ?head = "[\<lambda>p. if prev_state p = STATE_ESTABLISHED \<and> pc_demote_group (p_conf p) \<and> demoted p = 0 then session_demote 1 p else Inr p,
      \<lambda>p. if session_open_state (prev_state p) \<and> wqueue p \<noteq> [] then emit (SockWrite (wqueue p)) p else Inr p]"
  let ?mid = "[upd (\<lambda>p. p\<lparr>p_holdtime := INTERVAL_HOLD_INITIAL\<rparr>), reset_timers, session_close,
      upd (\<lambda>p. p\<lparr>wqueue := [], rqueue := [], rbuf := [], rpmsg := None, rpending := False, capa_peer := no_capa\<rparr>), session_md5_reload]"
  let ?last = "[\<lambda>p. if prev_state p = STATE_NONE \<or> prev_state p = STATE_ESTABLISHED then Inr (p\<lparr>capa_ann := pc_capabilities (p_conf p)\<rparr>) else Inr p,
      idle_react e EVNT_CON_FATAL]"
  have h: "do_all ?head ?p = Inr ?p" using assms(4) by (auto simp: session_open_state_def)
  have "\<exists>r. do_all ?mid ?p = Inr r \<and> prev_state r = state p \<and> timers_ok (p_timers r) \<and> p_fd r = -1"
    using assms(3) by (simp add: upd_def reset_timers_def tstop_def session_close_def session_md5_reload_def emit_def timer_stop_ok)
  then obtain r where r: "do_all ?mid ?p = Inr r" "prev_state r = state p" "timers_ok (p_timers r)" "p_fd r = -1" by blast
  obtain th where t: "tset e Timer_IdleHold IdleHoldTime r = Inr (r\<lparr>p_timers := th\<rparr>)" using tset_one[OF assms(1)] by blast
  have l: "do_all ?last r = Inr (r\<lparr>p_timers := th, IdleHoldTime := back_off (IdleHoldTime r)\<rparr>)"
    using r(2) t assms(4) by (auto simp: idle_react_def upd_def)
  have "enter_idle e EVNT_CON_FATAL = do_all (?head @ ?mid @ ?last)" by (simp only: enter_idle_def append_Cons append_Nil)
  then have "enter_idle e EVNT_CON_FATAL ?p = Inr (r\<lparr>p_timers := th, IdleHoldTime := back_off (IdleHoldTime r)\<rparr>)"
    using h r(1) l by (simp only: do_all_append res_bind.simps)
  moreover have "running (r\<lparr>p_timers := th\<rparr>) Timer_IdleHold" "timers_ok th" using tset_running[OF assms(2) r(3) t] by simp_all
  ultimately show ?thesis using r(4) by (simp add: change_state_def running_def)
qed

text \<open>C35: When the OPEN message of a new connection cannot be built, the error handler closes the
  connection and makes the session idle with a timer for its next start, and the interrupted action
  then moves it on to OPENSENT all the same: a session that waits for an answer without a socket.
  When the timer for the next start is due in that state, the pass over the timers leaves the session
  and the timer as they are, so that it stays due.\<close>

theorem failed_open_strands_session:
  assumes "e_ca e 1" and "e_now e > 0" and "timers_ok (p_timers p)" and "state p = STATE_CONNECT \<or> state p = STATE_ACTIVE"
    and "open_msg e p = Inl x"
  shows "\<exists>p'. bgp_fsm e EVNT_CON_OPEN [] p = Inr p' \<and> state p' = STATE_OPENSENT \<and> p_fd p' = -1 \<and> running p' Timer_IdleHold \<and>
    (\<forall>e' t. timer_nextisdue (p_timers p') (e_now e') = Some t \<longrightarrow> t_type t = Timer_IdleHold \<longrightarrow> session_timer e' p' = Inr p')"
proof -
  obtain q where q: "change_state e STATE_IDLE EVNT_CON_FATAL p = Inr q" "p_fd q = -1" "running q Timer_IdleHold" "timers_ok (p_timers q)"
    using idle_from_connecting[OF assms(1-4)] by blast
  have o: "session_open e p = Inr q" using assms(4,5) q(1) by (auto simp: session_open_def send_or_fail_def fsm_fatal_def)
  obtain r where r: "tstop Timer_ConnectRetry q = Inr r" by (simp add: tstop_def)
  note tr = tstop_running[OF q(4) r]
  let ?r = "r\<lparr>p_holdtime := INTERVAL_HOLD_INITIAL\<rparr>"
  obtain th where t: "tset e Timer_Hold (\<lambda>p. ucast (p_holdtime p)) ?r = Inr (?r\<lparr>p_timers := th\<rparr>)" using tset_one[OF assms(1)] by blast
  have "timers_ok (p_timers ?r)" "running ?r Timer_IdleHold" using tr q(3) by (simp_all add: running_def)
  then have h: "running (?r\<lparr>p_timers := th\<rparr>) Timer_IdleHold" using tset_running(2)[OF assms(2) _ t] by blast
  let ?p = "r\<lparr>p_holdtime := INTERVAL_HOLD_INITIAL, p_timers := th, prev_state := state r, state := STATE_OPENSENT\<rparr>"
  have "con_open e p = Inr ?p" using o r t by (simp add: con_open_def upd_def start_timer_holdtime_def INTERVAL_HOLD_INITIAL_def change_opensent)
  then have "bgp_fsm e EVNT_CON_OPEN [] p = Inr ?p" using assms(4) by (auto simp: bgp_fsm_def fsm_connect_def fsm_active_def)
  moreover have "p_fd ?p = -1" using tr(3) q(2) by auto
  moreover have "running ?p Timer_IdleHold" using h by (simp add: running_def)
  moreover have "timer_nextisdue (p_timers ?p) (e_now e') = Some t \<longrightarrow> t_type t = Timer_IdleHold \<longrightarrow> session_timer e' ?p = Inr ?p" for e' t
    by (auto simp: session_timer_def bgp_fsm_def fsm_opensent_def)
  ultimately show ?thesis by (intro exI[of _ ?p]) simp
qed

theorem failed_open_strands_session_witness:
  "\<exists>p'. bgp_fsm (demo_env\<lparr>e_ca := \<lambda>n. n \<le> 1\<rparr>) EVNT_CON_OPEN [] (demo_active\<lparr>p_fd := 7\<rparr>) = Inr p' \<and> state p' = STATE_OPENSENT \<and> p_fd p' = -1 \<and> running p' Timer_IdleHold"
proof -
  let ?e = "demo_env\<lparr>e_ca := \<lambda>n. n \<le> 1\<rparr>" and ?p = "demo_active\<lparr>p_fd := 7\<rparr>"
  have "\<exists>x. open_msg ?e ?p = Inl x"
  proof -
    have "session_newmsg ?e ty len = Inl ENOMEM" if "len > 1" for ty len using that by (auto simp: session_newmsg_def ibuf_open_def)
    then show ?thesis by (auto simp: open_msg_def Let_def MSGSIZE_OPEN_MIN_def res_bind_def split: sum.splits)
  qed
  then obtain x where "open_msg ?e ?p = Inl x" by blast
  from failed_open_strands_session[OF _ _ _ _ this] show ?thesis by (auto simp: demo_active timers_ok_def demo_env_def)
qed

section \<open>An accepted connection that is refused\<close>

lemma reset_timers_running:
  assumes "timers_ok (p_timers p)" and "reset_timers p = Inr p'"
  shows "running p' u = (u \<notin> {Timer_ConnectRetry, Timer_Keepalive, Timer_Hold, Timer_SendHold, Timer_IdleHold, Timer_IdleHoldReset} \<and> running p u)"
    and "\<exists>th. p' = p\<lparr>p_timers := th\<rparr>"
proof -
  show "\<exists>th. p' = p\<lparr>p_timers := th\<rparr>" using assms(2) by (auto simp: reset_timers_def tstop_def)
  show "running p' u = (u \<notin> {Timer_ConnectRetry, Timer_Keepalive, Timer_Hold, Timer_SendHold, Timer_IdleHold, Timer_IdleHoldReset} \<and> running p u)"
    using assms by (auto simp: reset_timers_def tstop_def running_def timer_running_stop timer_stop_ok split: if_splits)
qed



section \<open>Bytes of a closed connection\<close>

lemma open_queued:
  assumes "memory e" and "con_open e p = Inr p'"
  shows "\<exists>b. open_msg e p = Inr b \<and> wqueue p' = wqueue p @ [ibuf_content b] \<and> rbuf p' = rbuf p \<and> rpmsg p' = rpmsg p \<and> state p' = STATE_OPENSENT"
proof -
  obtain b where b: "open_msg e p = Inr b" using open_msg_built[OF assms(1)] by blast
  then show ?thesis using assms(2)
    by (auto simp: con_open_def session_open_def send_or_fail_def session_sendmsg_def stat_def upd_def tstop_def start_timer_holdtime_def
        INTERVAL_HOLD_INITIAL_def change_opensent res_bind_Inr_iff dest!: tset_Inr)
qed

text \<open>C37: When the connection of a session in OPENSENT is closed by the neighbor, the session goes back to
  ACTIVE with the queues of the old connection, and on the next connection the messages not yet
  written are sent again before the new OPEN message, and the part of a message that had arrived is
  taken for the beginning of the new stream.\<close>

theorem closed_opensent_keeps_bytes:
  assumes "good_env e" and "state p = STATE_OPENSENT"
  shows "\<exists>p1 p2 b. bgp_fsm e EVNT_CON_CLOSED [] p = Inr p1 \<and> state p1 = STATE_ACTIVE \<and> p_fd p1 = -1 \<and>
    session_accept e connfd p1 = Inr p2 \<and> state p2 = STATE_OPENSENT \<and> open_msg e (p1\<lparr>p_fd := connfd\<rparr>) = Inr b \<and>
    wqueue p2 = wqueue p @ [ibuf_content b] \<and> rbuf p2 = rbuf p \<and> rpmsg p2 = rpmsg p"
proof -
  note mem = good_fields(2)[OF assms(1)]
  have c1: "e_ca e 1" using mem by (simp add: memory_def)
  obtain q where q: "session_close p = Inr q" "wqueue q = wqueue p" "rbuf q = rbuf p" "rpmsg q = rpmsg p" "p_fd q = -1" by (simp add: session_close_def)
  obtain th where t: "tset e Timer_ConnectRetry (\<lambda>p. ucast (pc_connectretry (p_conf p))) q = Inr (q\<lparr>p_timers := th\<rparr>)" using tset_one[OF c1] by blast
  obtain p1 where p1: "change_state e STATE_ACTIVE EVNT_CON_CLOSED (q\<lparr>p_timers := th\<rparr>) = Inr p1" "state p1 = STATE_ACTIVE" "p_fd p1 = -1"
      "wqueue p1 = wqueue p" "rbuf p1 = rbuf p" "rpmsg p1 = rpmsg p"
    using q(2-5) by (cases "p_template q") (simp_all add: change_state_def session_md5_reload_def emit_def)
  have c: "bgp_fsm e EVNT_CON_CLOSED [] p = Inr p1" using assms(2) q(1) t p1(1) by (simp add: bgp_fsm_def fsm_opensent_def)
  obtain p2 where p2: "con_open e (p1\<lparr>p_fd := connfd\<rparr>) = Inr p2" using returnsD[OF returns_con_open[OF mem]] by blast
  have "session_accept e connfd p1 = Inr p2"
    using p1(2,3) p2 good_fields(3,4)[OF assms(1)] by (simp add: session_accept_def accept_open_def bgp_fsm_def fsm_active_def)
  with c p1 open_queued[OF mem p2] show ?thesis by (intro exI[of _ p1] exI[of _ p2]) auto
qed

theorem closed_opensent_keeps_bytes_witness:
  "\<exists>p1 p2 b. bgp_fsm demo_env EVNT_CON_CLOSED [] (demo_active\<lparr>state := STATE_OPENSENT, p_fd := 7, wqueue := [[1, 2]], rbuf := [0xff]\<rparr>) = Inr p1 \<and>
    state p1 = STATE_ACTIVE \<and> p_fd p1 = -1 \<and>
    session_accept demo_env 8 p1 = Inr p2 \<and> state p2 = STATE_OPENSENT \<and> open_msg demo_env (p1\<lparr>p_fd := 8\<rparr>) = Inr b \<and>
    wqueue p2 = [[1, 2], ibuf_content b] \<and> rbuf p2 = [0xff] \<and> rpmsg p2 = rpmsg demo_active"
  using closed_opensent_keeps_bytes[OF demo_good(1), of "demo_active\<lparr>state := STATE_OPENSENT, p_fd := 7, wqueue := [[1, 2]], rbuf := [0xff]\<rparr>" 8] by simp

end
