(* ===== verification/Filter_Correct.thy ===== *)
theory Filter_Correct
  imports Rde_Filter
begin

text \<open>
  The evaluation of filters against its meaning: the rules for a neighbor are tried from first to
  last, the last one that matches decides, and a quick rule ends the evaluation. The skip steps and
  the lists made for each neighbor give the same result.
\<close>

section \<open>Specification\<close>

definition applies :: "filter_peer \<Rightarrow> filter_rule \<Rightarrow> bool" where
  "applies peer f =
     ((fr_peerid f = 0 \<or> fr_peerid f = fp_id peer) \<and> (fr_groupid f = 0 \<or> fr_groupid f = fp_groupid peer) \<and>
      (fr_remote_as f = 0 \<or> fr_remote_as f = fp_remote_as peer) \<and>
      (fr_ebgp f \<noteq> 0 \<longrightarrow> fp_ebgp peer \<noteq> 0) \<and> (fr_ibgp f \<noteq> 0 \<longrightarrow> fp_ebgp peer = 0))"

fun filter_spec ::
  "filter_env \<Rightarrow> filter_peer \<Rightarrow> filter_peer option \<Rightarrow> bgpd_addr \<Rightarrow> u8 \<Rightarrow> filter_rule list \<Rightarrow>
   filter_action \<times> filterstate \<Rightarrow> (filter_action \<times> filterstate) res" where
  "filter_spec e peer from prefix plen [] as = Inr as"
| "filter_spec e peer from prefix plen (f # fs) as =
     (if \<not> applies peer f then filter_spec e peer from prefix plen fs as
      else res_bind (eval_rule e peer from prefix plen (fr_match f) (fr_set f) (fr_action f) (fr_quick f) as) (\<lambda>(action, s, stop).
        if stop then Inr (action, s) else filter_spec e peer from prefix plen fs (action, s)))"

section \<open>Skip steps\<close>

text \<open>What a skip step promises: it goes forward, and every rule it passes has the same key.\<close>

definition skips_well :: "nat \<Rightarrow> filter_rule list \<Rightarrow> nat \<Rightarrow> bool" where
  "skips_well i rules j =
     (j < fr_skip (rules ! j) i \<and> fr_skip (rules ! j) i \<le> length rules \<and>
      (\<forall>l. j \<le> l \<and> l < fr_skip (rules ! j) i \<longrightarrow> skip_key i (rules ! l) = skip_key i (rules ! j)))"

text \<open>A rule without its skip steps.\<close>

definition bare :: "filter_rule \<Rightarrow> filter_rule" where
  "bare f = f\<lparr>fr_skip := \<lambda>_. 0\<rparr>"

lemma bare_fields [simp]:
  "fr_peerid (bare f) = fr_peerid f" "fr_groupid (bare f) = fr_groupid f" "fr_remote_as (bare f) = fr_remote_as f"
  "fr_ebgp (bare f) = fr_ebgp f" "fr_ibgp (bare f) = fr_ibgp f" "fr_match (bare f) = fr_match f" "fr_set (bare f) = fr_set f"
  "fr_action (bare f) = fr_action f" "fr_quick (bare f) = fr_quick f" "bare (f\<lparr>fr_skip := s\<rparr>) = bare f"
  by (simp_all add: bare_def)

lemma skip_key_bare: "skip_key i (bare f) = skip_key i f"
  by (simp add: skip_key_def)

lemma bare_key: "map bare rs = map bare rules \<Longrightarrow> l < length rules \<Longrightarrow> skip_key i (rs ! l) = skip_key i (rules ! l)"
  by (metis map_eq_imp_length_eq nth_map skip_key_bare)

lemma write_skip_facts:
  assumes "j < length rs"
  shows "length (write_skip i c j rs) = length rs" and "map bare (write_skip i c j rs) = map bare rs"
    and "write_skip i c j rs ! j = (rs ! j)\<lparr>fr_skip := (fr_skip (rs ! j))(i := c)\<rparr>" and "k \<noteq> j \<Longrightarrow> write_skip i c j rs ! k = rs ! k"
proof -
  show "length (write_skip i c j rs) = length rs" by (simp add: write_skip_def)
  show "map bare (write_skip i c j rs) = map bare rs" using assms by (simp add: write_skip_def map_update) (metis list_update_id nth_map)
  show "write_skip i c j rs ! j = (rs ! j)\<lparr>fr_skip := (fr_skip (rs ! j))(i := c)\<rparr>" using assms unfolding write_skip_def by (rule nth_list_update_eq)
  show "k \<noteq> j \<Longrightarrow> write_skip i c j rs ! k = rs ! k" by (simp add: write_skip_def)
qed

lemma fold_skip:
  assumes "h \<le> cur" and "cur \<le> length rules"
  shows "length (fold (write_skip i c) [h..<cur] rules) = length rules \<and> map bare (fold (write_skip i c) [h..<cur] rules) = map bare rules \<and>
    (\<forall>j < length rules. fr_skip (fold (write_skip i c) [h..<cur] rules ! j) =
       (if h \<le> j \<and> j < cur then (fr_skip (rules ! j))(i := c) else fr_skip (rules ! j)))"
  using assms
proof (induction cur rule: dec_induct)
  case base
  then show ?case by auto
next
  case (step n)
  let ?r = "fold (write_skip i c) [h..<n] rules"
  have n: "n < length rules" "[h..<Suc n] = [h..<n] @ [n]" using step by simp_all
  then have "n \<le> length rules" by simp
  from step.IH[OF this] have ih: "length ?r = length rules" "map bare ?r = map bare rules"
    "\<And>j. j < length rules \<Longrightarrow> fr_skip (?r ! j) = (if h \<le> j \<and> j < n then (fr_skip (rules ! j))(i := c) else fr_skip (rules ! j))"
    by blast+
  note w = write_skip_facts[where j = n and rs = ?r and i = i and c = c]
  have "fr_skip (write_skip i c n ?r ! j) = (if h \<le> j \<and> j < Suc n then (fr_skip (rules ! j))(i := c) else fr_skip (rules ! j))" if j: "j < length rules" for j
  proof (cases "j = n")
    case True
    then show ?thesis using w(3) ih(1) ih(3)[OF j] n(1) step(1) by simp
  next
    case False
    then show ?thesis using w(4)[where k = j] ih(1) ih(3)[OF j] n(1) by (simp add: less_Suc_eq)
  qed
  then show ?case using n w(1,2) ih(1,2) by simp
qed

lemma set_skip_facts:
  assumes "h \<le> cur" and "cur \<le> length rules"
  shows "length (set_skip_steps i cur h rules) = length rules" and "map bare (set_skip_steps i cur h rules) = map bare rules"
    and "j < length rules \<Longrightarrow> fr_skip (set_skip_steps i cur h rules ! j) =
      (if h \<le> j \<and> j < cur then (fr_skip (rules ! j))(i := cur) else fr_skip (rules ! j))"
  using fold_skip[OF assms, of i cur] unfolding set_skip_steps_def by blast+

text \<open>Where the computation stands for one kind of skip step when all rules before a position have been looked at.\<close>

definition skip_inv :: "filter_rule list \<Rightarrow> nat \<Rightarrow> nat \<Rightarrow> (nat \<Rightarrow> nat) \<Rightarrow> filter_rule list \<Rightarrow> bool" where
  "skip_inv rules c i head rs = (map bare rs = map bare rules \<and> head i \<le> c \<and>
     (\<forall>l. head i \<le> l \<and> l < c \<longrightarrow> skip_key i (rules ! l) = skip_key i (rules ! head i)) \<and> (\<forall>j < head i. skips_well i rs j))"

lemma skip_invD:
  assumes "skip_inv rules c i head rs"
  shows "map bare rs = map bare rules" "head i \<le> c" "head i \<le> l \<Longrightarrow> l < c \<Longrightarrow> skip_key i (rules ! l) = skip_key i (rules ! head i)"
    "j < head i \<Longrightarrow> skips_well i rs j"
  using assms unfolding skip_inv_def by blast+

lemma skip_invI:
  assumes "map bare rs = map bare rules" "head i \<le> c" "\<And>l. head i \<le> l \<Longrightarrow> l < c \<Longrightarrow> skip_key i (rules ! l) = skip_key i (rules ! head i)"
    "\<And>j. j < head i \<Longrightarrow> skips_well i rs j"
  shows "skip_inv rules c i head rs"
  using assms unfolding skip_inv_def by blast

lemma skips_well_bare:
  assumes "map bare rs = map bare rules" and "j < length rules"
  shows "skips_well i rs j = (j < fr_skip (rs ! j) i \<and> fr_skip (rs ! j) i \<le> length rules \<and>
    (\<forall>l. j \<le> l \<and> l < fr_skip (rs ! j) i \<longrightarrow> skip_key i (rules ! l) = skip_key i (rules ! j)))"
proof -
  have n: "length rs = length rules" using assms(1) by (rule map_eq_imp_length_eq)
  then show ?thesis unfolding skips_well_def using bare_key[OF assms(1)] assms(2) by (metis order_less_le_trans)
qed

lemma set_skip_inv:
  assumes "skip_inv rules c i head rs" and "c \<le> length rules"
  shows "skip_inv rules c i (head(i := c)) (set_skip_steps i c (head i) rs)"
proof -
  let ?rs = "set_skip_steps i c (head i) rs"
  note d = skip_invD[OF assms(1)]
  have n: "length rs = length rules" using d(1) by (rule map_eq_imp_length_eq)
  note f = set_skip_facts[OF d(2) assms(2)[folded n], unfolded n]
  have b': "map bare ?rs = map bare rules" using f(2) d(1) by simp
  have "skips_well i ?rs j" if j: "j < c" for j
  proof -
    have jl: "j < length rules" using j assms(2) by simp
    note w = skips_well_bare[OF b' jl, of i] skips_well_bare[OF d(1) jl, of i]
    show ?thesis
    proof (cases "j < head i")
      case True
      then have e: "fr_skip (?rs ! j) = fr_skip (rs ! j)" using f(3)[OF jl] by simp
      show ?thesis using d(4)[OF True] unfolding w e .
    next
      case False
      then have e: "fr_skip (?rs ! j) i = c" using f(3)[OF jl] j by simp
      have "skip_key i (rules ! l) = skip_key i (rules ! j)" if "j \<le> l" "l < c" for l
        using d(3)[of l] d(3)[of j] False that j by simp
      then show ?thesis using j assms(2) unfolding w(1) e by blast
    qed
  qed
  then show ?thesis using b' by (intro skip_invI) simp_all
qed

text \<open>The other kinds of skip steps are not touched.\<close>

lemma set_skip_other:
  assumes "skip_inv rules c k head rs" and "h \<le> c'" and "c' \<le> length rules" and "c \<le> length rules" and "k \<noteq> i"
  shows "skip_inv rules c k (head(i := x)) (set_skip_steps i c' h rs)"
proof -
  let ?rs = "set_skip_steps i c' h rs"
  note d = skip_invD[OF assms(1)]
  have n: "length rs = length rules" using d(1) by (rule map_eq_imp_length_eq)
  note f = set_skip_facts[OF assms(2) assms(3)[folded n], unfolded n]
  have b': "map bare ?rs = map bare rules" using f(2) d(1) by simp
  have sw: "skips_well k ?rs j" if j: "j < head k" for j
  proof -
    have jl: "j < length rules" using j d(2) assms(4) by simp
    have e: "fr_skip (?rs ! j) k = fr_skip (rs ! j) k" using f(3)[OF jl] assms(5) by simp
    show ?thesis using d(4)[OF j] unfolding skips_well_bare[OF b' jl] skips_well_bare[OF d(1) jl] e .
  qed
  have hk: "(head(i := x)) k = head k" using assms(5) by simp
  show ?thesis
  proof (rule skip_invI)
    show "map bare ?rs = map bare rules" by (fact b')
    show "(head(i := x)) k \<le> c" unfolding hk by (fact d(2))
    show "skip_key k (rules ! l) = skip_key k (rules ! (head(i := x)) k)" if "(head(i := x)) k \<le> l" "l < c" for l
      using that d(3)[of l] unfolding hk by blast
    show "skips_well k ?rs j" if "j < (head(i := x)) k" for j using that sw unfolding hk by blast
  qed
qed

text \<open>Looking at one more rule of the same key.\<close>

lemma skip_inv_next:
  assumes "skip_inv rules c i head rs" and "c = 0 \<or> head i < c" and "skip_key i (rules ! c) = skip_key i (rules ! (c - 1))"
  shows "skip_inv rules (Suc c) i head rs"
proof -
  note d = skip_invD[OF assms(1)]
  have k: "skip_key i (rules ! c) = skip_key i (rules ! head i)"
  proof (cases "c = 0")
    case True
    then show ?thesis using d(2) by simp
  next
    case False
    then show ?thesis using d(3)[of "c - 1"] assms(2,3) by simp
  qed
  have s: "skip_key i (rules ! l) = skip_key i (rules ! head i)" if "head i \<le> l" "l < Suc c" for l
    using d(3)[of l] that k by (cases "l = c") simp_all
  show ?thesis by (rule skip_invI) (fact d(1), rule le_SucI[OF d(2)], fact s, fact d(4))
qed

lemma skip_inv_bump:
  assumes "skip_inv rules c i head rs" and "head i = c"
  shows "skip_inv rules (Suc c) i head rs"
proof -
  note d = skip_invD[OF assms(1)]
  have s: "skip_key i (rules ! l) = skip_key i (rules ! head i)" if "head i \<le> l" "l < Suc c" for l
  proof -
    have "l = head i" using that assms(2) by simp
    then show ?thesis by simp
  qed
  show ?thesis by (rule skip_invI) (fact d(1), rule le_SucI[OF d(2)], fact s, fact d(4))
qed

text \<open>One kind of skip step at a rule: its own invariant moves on, those of the other kinds stay.\<close>

lemma skip_one_inv:
  assumes "skip_one c (c - 1) i (head, rs) = (head', rs')" and "c < length rules" and "skip_inv rules c i head rs" and "c = 0 \<or> head i < c"
  shows "skip_inv rules (Suc c) i head' rs'" and "head' i \<le> c" and "k \<noteq> i \<Longrightarrow> head' k = head k"
    and "k \<noteq> i \<Longrightarrow> d \<le> length rules \<Longrightarrow> skip_inv rules d k head rs \<Longrightarrow> skip_inv rules d k head' rs'"
proof -
  note d = skip_invD[OF assms(3)]
  have key: "skip_key i (rs ! c) = skip_key i (rules ! c)" "skip_key i (rs ! (c - 1)) = skip_key i (rules ! (c - 1))"
    using bare_key[OF d(1)] assms(2) by simp_all
  have cl: "c \<le> length rules" using assms(2) by simp
  have "(skip_key i (rules ! c) = skip_key i (rules ! (c - 1)) \<and> head' = head \<and> rs' = rs) \<or>
      (head' = head(i := c) \<and> rs' = set_skip_steps i c (head i) rs)"
    using assms(1) unfolding skip_one_def prod.case key by (auto split: if_splits)
  then consider (same) "skip_key i (rules ! c) = skip_key i (rules ! (c - 1))" "head' = head" "rs' = rs"
    | (new) "head' = head(i := c)" "rs' = set_skip_steps i c (head i) rs" by blast
  note r = this
  show "skip_inv rules (Suc c) i head' rs'"
  proof (cases rule: r)
    case same
    then show ?thesis using skip_inv_next[OF assms(3,4)] by simp
  next
    case new
    show ?thesis unfolding new by (rule skip_inv_bump[OF set_skip_inv[OF assms(3) cl]]) simp
  qed
  show "head' i \<le> c" by (cases rule: r) (use d(2) in simp_all)
  show "k \<noteq> i \<Longrightarrow> head' k = head k" by (cases rule: r) simp_all
  show "skip_inv rules d k head' rs'" if "k \<noteq> i" "d \<le> length rules" "skip_inv rules d k head rs"
  proof (cases rule: r)
    case same
    then show ?thesis using that by simp
  next
    case new
    show ?thesis unfolding new by (rule set_skip_other[OF that(3) d(2) cl that(2,1)])
  qed
qed

lemma skip_fold_inv:
  assumes "distinct ks" and "c < length rules" and "\<And>i. i \<in> set ks \<Longrightarrow> skip_inv rules c i head rs \<and> (c = 0 \<or> head i < c)"
    and "fold (skip_one c (c - 1)) ks (head, rs) = (head', rs')"
  shows "(\<forall>i \<in> set ks. skip_inv rules (Suc c) i head' rs' \<and> head' i \<le> c) \<and>
    (\<forall>k d. k \<notin> set ks \<longrightarrow> d \<le> length rules \<longrightarrow> skip_inv rules d k head rs \<longrightarrow> skip_inv rules d k head' rs' \<and> head' k = head k)"
  using assms
proof (induction ks arbitrary: head rs)
  case (Cons i ks)
  obtain h1 r1 where o: "skip_one c (c - 1) i (head, rs) = (h1, r1)" by (cases "skip_one c (c - 1) i (head, rs)")
  have i: "skip_inv rules c i head rs" "c = 0 \<or> head i < c" using Cons.prems(3) by auto
  note s = skip_one_inv[OF o Cons.prems(2) i]
  have "fold (skip_one c (c - 1)) ks (h1, r1) = (head', rs')" using Cons.prems(4) o by simp
  moreover have "skip_inv rules c j h1 r1 \<and> (c = 0 \<or> h1 j < c)" if "j \<in> set ks" for j
  proof -
    have j: "j \<noteq> i" "skip_inv rules c j head rs" "c = 0 \<or> head j < c" using that Cons.prems(1,3) by auto
    show ?thesis using s(3)[OF j(1)] s(4)[OF j(1) _ j(2)] j(3) Cons.prems(2) by simp
  qed
  ultimately have ih: "\<forall>i \<in> set ks. skip_inv rules (Suc c) i head' rs' \<and> head' i \<le> c"
    "\<forall>k d. k \<notin> set ks \<longrightarrow> d \<le> length rules \<longrightarrow> skip_inv rules d k h1 r1 \<longrightarrow> skip_inv rules d k head' rs' \<and> head' k = h1 k"
    using Cons.IH[of h1 r1] Cons.prems(1,2) by auto
  have "i \<notin> set ks" using Cons.prems(1) by simp
  then have "skip_inv rules (Suc c) i head' rs' \<and> head' i \<le> c" using ih(2) s(1,2) Cons.prems(2) by (metis Suc_leI)
  moreover have "skip_inv rules d k head' rs' \<and> head' k = head k" if "k \<notin> set (i # ks)" "d \<le> length rules" "skip_inv rules d k head rs" for k d
  proof -
    have k: "k \<noteq> i" "k \<notin> set ks" using that(1) by auto
    show ?thesis using ih(2)[rule_format, OF k(2) that(2) s(4)[OF k(1) that(2,3)]] s(3)[OF k(1)] by simp
  qed
  ultimately show ?case using ih(1) by auto
qed simp

lemma skip_steps_inv:
  assumes "c \<le> length rules" and "fold skip_step [0..<c] (\<lambda>_. 0, rules) = (head, rs)" and "i < RDE_FILTER_SKIP_COUNT"
  shows "skip_inv rules c i head rs \<and> (c = 0 \<or> head i < c)"
  using assms
proof (induction c arbitrary: head rs i)
  case 0
  then have "head = (\<lambda>_. 0)" "rs = rules" by simp_all
  then show ?case by (simp add: skip_inv_def)
next
  case (Suc c)
  obtain h1 r1 where o: "fold skip_step [0..<c] (\<lambda>_. 0, rules) = (h1, r1)" by (cases "fold skip_step [0..<c] (\<lambda>_. 0, rules)")
  have "skip_step c (h1, r1) = (head, rs)" using Suc.prems(2) o by simp
  then have st: "fold (skip_one c (c - 1)) [0..<RDE_FILTER_SKIP_COUNT] (h1, r1) = (head, rs)" unfolding skip_step_def .
  have "skip_inv rules c i h1 r1 \<and> (c = 0 \<or> h1 i < c)" if "i < RDE_FILTER_SKIP_COUNT" for i
    using Suc.IH[OF _ o that] Suc.prems(1) by simp
  then have "\<forall>i \<in> set [0..<RDE_FILTER_SKIP_COUNT]. skip_inv rules (Suc c) i head rs \<and> head i \<le> c"
    using skip_fold_inv[OF distinct_upt _ _ st, of rules] Suc.prems(1) by auto
  then show ?case using Suc.prems(3) by (auto simp: less_Suc_eq_le)
qed

lemma skip_last_inv:
  assumes "distinct ks" and "\<And>i. i \<in> set ks \<Longrightarrow> skip_inv rules (length rules) i head rs" and "map bare rs = map bare rules"
  shows "(\<forall>i \<in> set ks. \<forall>j < length rules. skips_well i (fold (\<lambda>i rs. set_skip_steps i (length rules) (head i) rs) ks rs) j) \<and>
    map bare (fold (\<lambda>i rs. set_skip_steps i (length rules) (head i) rs) ks rs) = map bare rules \<and>
    (\<forall>k h. k \<notin> set ks \<longrightarrow> skip_inv rules (length rules) k h rs \<longrightarrow>
       skip_inv rules (length rules) k h (fold (\<lambda>i rs. set_skip_steps i (length rules) (head i) rs) ks rs))"
  using assms
proof (induction ks arbitrary: rs)
  case (Cons i ks)
  let ?r = "set_skip_steps i (length rules) (head i) rs" and ?f = "fold (\<lambda>i rs. set_skip_steps i (length rules) (head i) rs) ks"
  have i: "skip_inv rules (length rules) i head rs" "i \<notin> set ks" using Cons.prems(1,2) by simp_all
  note h = skip_invD(2)[OF i(1)]
  have fin: "skip_inv rules (length rules) i (head(i := length rules)) ?r" by (rule set_skip_inv[OF i(1)]) simp
  have other: "skip_inv rules (length rules) k h' ?r" if "k \<noteq> i" "skip_inv rules (length rules) k h' rs" for k h'
  proof -
    have "skip_inv rules (length rules) k (h'(i := h' i)) ?r" by (rule set_skip_other[OF that(2) h _ _ that(1)]) simp_all
    then show ?thesis by simp
  qed
  have "skip_inv rules (length rules) k head ?r" if "k \<in> set ks" for k using other[of k head] that i(2) Cons.prems(2) by auto
  from Cons.IH[OF _ this skip_invD(1)[OF fin]] Cons.prems(1) have ih:
    "\<forall>i \<in> set ks. \<forall>j < length rules. skips_well i (?f ?r) j" "map bare (?f ?r) = map bare rules"
    "\<forall>k h. k \<notin> set ks \<longrightarrow> skip_inv rules (length rules) k h ?r \<longrightarrow> skip_inv rules (length rules) k h (?f ?r)" by auto
  have "skip_inv rules (length rules) i (head(i := length rules)) (?f ?r)" using ih(3) i(2) fin by blast
  then have "\<forall>j < length rules. skips_well i (?f ?r) j" using skip_invD(4) by fastforce
  moreover have "skip_inv rules (length rules) k h' (?f ?r)" if "k \<notin> set (i # ks)" "skip_inv rules (length rules) k h' rs" for k h'
    using that ih(3) other by auto
  ultimately show ?case using ih(1,2) by auto
qed simp

lemma calc_skip_steps_well:
  shows "\<forall>i < RDE_FILTER_SKIP_COUNT. \<forall>j < length rules. skips_well i (rde_filter_calc_skip_steps rules) j"
    and "map bare (rde_filter_calc_skip_steps rules) = map bare rules"
proof -
  obtain head rs where o: "fold skip_step [0..<length rules] (\<lambda>_. 0, rules) = (head, rs)" by (cases "fold skip_step [0..<length rules] (\<lambda>_. 0, rules)")
  have inv: "skip_inv rules (length rules) i head rs" if "i < RDE_FILTER_SKIP_COUNT" for i using skip_steps_inv[OF _ o that] by simp
  have b: "map bare rs = map bare rules" using skip_invD(1)[OF inv[of 0]] by (simp add: RDE_FILTER_SKIP_COUNT_def)
  note l = skip_last_inv[OF distinct_upt, of 0 RDE_FILTER_SKIP_COUNT rules head rs]
  show "\<forall>i < RDE_FILTER_SKIP_COUNT. \<forall>j < length rules. skips_well i (rde_filter_calc_skip_steps rules) j"
    "map bare (rde_filter_calc_skip_steps rules) = map bare rules"
    using l inv b by (auto simp: rde_filter_calc_skip_steps_def o)
qed

section \<open>The evaluation with skip steps\<close>

lemma applies_bare [simp]: "applies peer (bare f) = applies peer f"
  by (simp add: applies_def)

lemma filter_spec_bare: "filter_spec e peer from prefix plen (map bare fs) as = filter_spec e peer from prefix plen fs as"
  by (induction fs arbitrary: as) (auto intro!: arg_cong[where f = "res_bind _"] ext)

lemma filter_spec_skip:
  assumes "i \<le> k" and "k \<le> length rules" and "\<And>l. i \<le> l \<Longrightarrow> l < k \<Longrightarrow> \<not> applies peer (rules ! l)"
  shows "filter_spec e peer from prefix plen (drop i rules) as = filter_spec e peer from prefix plen (drop k rules) as"
  using assms
proof (induction k rule: dec_induct)
  case (step n)
  then have "drop n rules = rules ! n # drop (Suc n) rules" by (simp add: Cons_nth_drop_Suc)
  then show ?case using step by simp
qed simp

lemma skip_not_applies:
  assumes "i < RDE_FILTER_SKIP_COUNT" and "skip_key i f \<noteq> 0"
    and "skip_key i f \<noteq> (if i = RDE_FILTER_SKIP_PEERID then fp_id peer else if i = RDE_FILTER_SKIP_GROUPID then fp_groupid peer else fp_remote_as peer)"
  shows "\<not> applies peer f"
  using assms by (auto simp: applies_def skip_key_def split: if_splits)

lemma filter_loop_spec:
  assumes "\<forall>i < RDE_FILTER_SKIP_COUNT. \<forall>j < length rules. skips_well i rules j" and "length rules < n + i" and "n \<noteq> 0"
  shows "filter_loop n e rules peer from prefix plen i as = Some (filter_spec e peer from prefix plen (drop i rules) as)"
  using assms(2,3)
proof (induction n arbitrary: i as)
  case (Suc n)
  show ?case
  proof (cases "i < length rules")
    case False
    then show ?thesis by simp
  next
    case True
    let ?f = "rules ! i"
    have dr: "drop i rules = ?f # drop (Suc i) rules" using True by (simp add: Cons_nth_drop_Suc)
    have n0: "n \<noteq> 0" using Suc.prems True by auto
    have nxt: "filter_loop n e rules peer from prefix plen (i + 1) as' = Some (filter_spec e peer from prefix plen (drop (Suc i) rules) as')" for as'
      using Suc.IH[of "i + 1" as'] Suc.prems n0 by simp
    have skip: "filter_loop n e rules peer from prefix plen (fr_skip ?f k) as = Some (filter_spec e peer from prefix plen (drop i rules) as)"
      if k: "k < RDE_FILTER_SKIP_COUNT" "skip_key k ?f \<noteq> 0"
        "skip_key k ?f \<noteq> (if k = RDE_FILTER_SKIP_PEERID then fp_id peer else if k = RDE_FILTER_SKIP_GROUPID then fp_groupid peer else fp_remote_as peer)" for k
    proof -
      have w: "i < fr_skip ?f k" "fr_skip ?f k \<le> length rules" "\<And>l. i \<le> l \<Longrightarrow> l < fr_skip ?f k \<Longrightarrow> skip_key k (rules ! l) = skip_key k ?f"
        using assms(1) k(1) True unfolding skips_well_def by blast+
      have "\<not> applies peer (rules ! l)" if "i \<le> l" "l < fr_skip ?f k" for l
        by (rule skip_not_applies[OF k(1)]; unfold w(3)[OF that]) (fact k(2), fact k(3))
      then have "filter_spec e peer from prefix plen (drop i rules) as = filter_spec e peer from prefix plen (drop (fr_skip ?f k) rules) as"
        using w(1,2) by (intro filter_spec_skip) simp_all
      then show ?thesis using Suc.IH[of "fr_skip ?f k" as] Suc.prems(1) w(1) n0 by simp
    qed
    note sk = skip[of RDE_FILTER_SKIP_PEERID] skip[of RDE_FILTER_SKIP_GROUPID] skip[of RDE_FILTER_SKIP_REMOTE_AS]
    consider (peerid) "fr_peerid ?f \<noteq> 0 \<and> fr_peerid ?f \<noteq> fp_id peer"
      | (groupid) "\<not> (fr_peerid ?f \<noteq> 0 \<and> fr_peerid ?f \<noteq> fp_id peer)" "fr_groupid ?f \<noteq> 0 \<and> fr_groupid ?f \<noteq> fp_groupid peer"
      | (remote_as) "\<not> (fr_peerid ?f \<noteq> 0 \<and> fr_peerid ?f \<noteq> fp_id peer)" "\<not> (fr_groupid ?f \<noteq> 0 \<and> fr_groupid ?f \<noteq> fp_groupid peer)"
          "fr_remote_as ?f \<noteq> 0 \<and> fr_remote_as ?f \<noteq> fp_remote_as peer"
      | (rest) "\<not> (fr_peerid ?f \<noteq> 0 \<and> fr_peerid ?f \<noteq> fp_id peer)" "\<not> (fr_groupid ?f \<noteq> 0 \<and> fr_groupid ?f \<noteq> fp_groupid peer)"
          "\<not> (fr_remote_as ?f \<noteq> 0 \<and> fr_remote_as ?f \<noteq> fp_remote_as peer)" by blast
    then show ?thesis
    proof cases
      case peerid
      then show ?thesis using sk(1) True by (auto simp: Let_def skip_key_def RDE_FILTER_SKIP_COUNT_def RDE_FILTER_SKIP_PEERID_def)
    next
      case groupid
      then show ?thesis using sk(2) True
        by (auto simp: Let_def skip_key_def RDE_FILTER_SKIP_COUNT_def RDE_FILTER_SKIP_PEERID_def RDE_FILTER_SKIP_GROUPID_def)
    next
      case remote_as
      then show ?thesis using sk(3) True
        by (auto simp: Let_def skip_key_def RDE_FILTER_SKIP_COUNT_def RDE_FILTER_SKIP_PEERID_def RDE_FILTER_SKIP_GROUPID_def RDE_FILTER_SKIP_REMOTE_AS_def)
    next
      case rest
      then have ap: "applies peer ?f = (\<not> (fr_ebgp ?f \<noteq> 0 \<and> fp_ebgp peer = 0) \<and> \<not> (fr_ibgp ?f \<noteq> 0 \<and> fp_ebgp peer \<noteq> 0))" by (auto simp: applies_def)
      show ?thesis
      proof (cases "applies peer ?f")
        case False
        then show ?thesis using rest ap True nxt dr by (auto simp: Let_def)
      next
        case True': True
        then show ?thesis using rest ap True nxt dr
          by (cases "eval_rule e peer from prefix plen (fr_match ?f) (fr_set ?f) (fr_action ?f) (fr_quick ?f) as") (auto simp: Let_def)
      qed
    qed
  qed
qed simp

text \<open>The verdict on a route, with the exceptions that come before the rules.\<close>

definition filter_verdict ::
  "filter_env \<Rightarrow> filter_rule list \<Rightarrow> filter_peer \<Rightarrow> filter_peer option \<Rightarrow> bgpd_addr \<Rightarrow> u8 \<Rightarrow> filterstate \<Rightarrow> (filter_action \<times> filterstate) res" where
  "filter_verdict e rules peer from prefix plen s =
     (if asp_flags (fs_aspath s) AND F_ATTR_PARSE_ERR \<noteq> 0 then Inr (ACTION_DENY, s)
      else if aid prefix = AID_FLOWSPECv4 \<or> aid prefix = AID_FLOWSPECv6 then Inr (ACTION_ALLOW, s)
      else filter_spec e peer from prefix plen rules (ACTION_DENY, s))"

text \<open>C5: With the skip steps computed for a list of rules, the filter of a route returns and gives
  the verdict and the attributes of the plain evaluation: the rules for the neighbor are tried from
  first to last, each that matches makes its changes before the next is tried, the last action
  taken is the verdict, and a quick rule ends the evaluation.\<close>

theorem skip_steps_sound:
  "rde_filter e (Some (rde_filter_calc_skip_steps rules)) peer from prefix plen s = Some (filter_verdict e rules peer from prefix plen s)"
proof -
  let ?rs = "rde_filter_calc_skip_steps rules"
  have n: "length ?rs = length rules" using calc_skip_steps_well(2) by (rule map_eq_imp_length_eq)
  have w: "\<forall>i < RDE_FILTER_SKIP_COUNT. \<forall>j < length ?rs. skips_well i ?rs j" using calc_skip_steps_well(1)[of rules] unfolding n .
  have "filter_spec e peer from prefix plen ?rs as = filter_spec e peer from prefix plen rules as" for as
    using filter_spec_bare[of e peer "from" prefix plen ?rs as] filter_spec_bare[of e peer "from" prefix plen rules as] calc_skip_steps_well(2)[of rules] by simp
  then show ?thesis using filter_loop_spec[OF w, of "length ?rs + 1" 0] by (simp add: rde_filter_def filter_verdict_def)
qed

section \<open>The rules of one neighbor\<close>

text \<open>The flags for external and internal neighbors are 0 or 1.\<close>

definition flags01 :: "filter_peer \<Rightarrow> filter_rule list \<Rightarrow> bool" where
  "flags01 peer rules = (fp_ebgp peer \<in> {0, 1} \<and> list_all (\<lambda>f. fr_ebgp f \<in> {0, 1} \<and> fr_ibgp f \<in> {0, 1}) rules)"

lemma skip_rule_applies:
  assumes "flags01 peer (f # rules)"
  shows "rde_filter_skip_rule (Some peer) (Some f) = (\<not> applies peer f)"
  using assms by (auto simp: rde_filter_skip_rule_def applies_def flags01_def)

lemma out_loop_spec:
  assumes "flags01 peer rules" and "peer_apply_out_filter peer rules = Inr rf"
  shows "out_loop e rf peer from prefix plen as = filter_spec e peer from prefix plen rules as"
  using assms
proof (induction rules arbitrary: rf as)
  case (Cons f fs)
  have fl: "flags01 peer fs" using Cons.prems(1) by (simp add: flags01_def)
  show ?case
  proof (cases "applies peer f")
    case False
    then show ?thesis using Cons.IH[OF fl] Cons.prems(2) skip_rule_applies[OF Cons.prems(1)] by simp
  next
    case True
    then obtain r rs where r: "rde_filter_fill f = Inr r" "peer_apply_out_filter peer fs = Inr rs" "rf = r # rs"
      using Cons.prems skip_rule_applies[OF Cons.prems(1)] by (auto simp: res_bind_Inr_iff)
    have "rf_match r = fr_match f" "Some (rf_set r) = fr_set f" "rf_action r = fr_action f" "rf_quick r = fr_quick f"
      using r(1) by (auto simp: rde_filter_fill_def split: option.splits)
    then show ?thesis using True r(3) Cons.IH[OF fl r(2)] by (auto intro!: arg_cong[where f = "res_bind _"] ext)
  qed
qed simp

text \<open>C12: The list of rules made for one neighbor, which leaves out the rules that can never apply to
  it, gives every route the verdict and the attributes that the whole list gives it.\<close>

theorem out_filter_sound:
  assumes "flags01 peer rules" and "list_all (\<lambda>f. fr_set f \<noteq> None) rules"
  shows "\<exists>rf. peer_apply_out_filter peer rules = Inr rf \<and>
    (\<forall>e from prefix plen s. rde_filter_out e rf peer from prefix plen s = filter_verdict e rules peer from prefix plen s)"
proof -
  have "\<exists>rf. peer_apply_out_filter peer rules = Inr rf"
    using assms(2) by (induction rules) (auto simp: rde_filter_fill_def)
  then obtain rf where rf: "peer_apply_out_filter peer rules = Inr rf" by blast
  then show ?thesis using out_loop_spec[OF assms(1) rf] by (auto simp: rde_filter_out_def filter_verdict_def)
qed

text \<open>A neighbor and two rules, of which the second is for another neighbor.\<close>

definition no_addr :: bgpd_addr where
  "no_addr = \<lparr>v4 = 0, v6 = 0, rd8 = 0, scope_id = 0, aid = AID_UNSPEC, labelstack = []\<rparr>"

definition any_match :: filter_match where
  "any_match = \<lparr>fm_prefix = \<lparr>fx_addr = no_addr, fx_op = OP_NONE, fx_len = 0, fx_len_min = 0, fx_len_max = 0\<rparr>,
     fm_nexthop_addr = no_addr, fm_nexthop_flags = 0,
     fm_as = \<lparr>fa_name = [], fa_aset = None, as_min = 0, as_max = 0, fa_type = AS_UNDEF, fa_flags = 0, fa_op = OP_NONE\<rparr>,
     fm_aslen = 0, fm_aslen_type = ASLEN_NONE, fm_community = [], fm_prefixset_flags = 0, fm_prefixset = None, fm_originset = None,
     fm_ovs = None, fm_avs = None, fm_maxcomm = 0, fm_maxextcomm = 0, fm_maxlargecomm = 0\<rparr>"

definition demo_rule :: "u32 \<Rightarrow> filter_action \<Rightarrow> filter_rule" where
  "demo_rule peerid act = \<lparr>fr_peerid = peerid, fr_groupid = 0, fr_remote_as = 0, fr_ebgp = 1, fr_ibgp = 0, fr_match = any_match,
     fr_set = Some [ACTION_SET_LOCALPREF 200], fr_skip = (\<lambda>_. 0), fr_action = act, fr_quick = False\<rparr>"

definition demo_neighbor :: filter_peer where
  "demo_neighbor = \<lparr>fp_id = 7, fp_groupid = 0, fp_remote_as = 65001, fp_local_as = 65000, fp_ebgp = 1, fp_remote_addr = no_addr\<rparr>"

theorem out_filter_sound_witness:
  "\<exists>rf. peer_apply_out_filter demo_neighbor [demo_rule 0 ACTION_ALLOW, demo_rule 8 ACTION_DENY] = Inr rf \<and> length rf = 1 \<and>
    (\<forall>e from prefix plen s. rde_filter_out e rf demo_neighbor from prefix plen s =
       filter_verdict e [demo_rule 0 ACTION_ALLOW, demo_rule 8 ACTION_DENY] demo_neighbor from prefix plen s)"
proof -
  let ?r = "[demo_rule 0 ACTION_ALLOW, demo_rule 8 ACTION_DENY]"
  have "flags01 demo_neighbor ?r" "list_all (\<lambda>f. fr_set f \<noteq> None) ?r" by (simp_all add: flags01_def demo_neighbor_def demo_rule_def)
  moreover have "\<And>rf. peer_apply_out_filter demo_neighbor ?r = Inr rf \<Longrightarrow> length rf = 1"
    by (auto simp: rde_filter_skip_rule_def rde_filter_fill_def demo_neighbor_def demo_rule_def)
  ultimately show ?thesis using out_filter_sound[of demo_neighbor ?r] by blast
qed

section \<open>Relative metrics\<close>

lemma sint_u32: "sint (x :: u32) = (if uint x < 2147483648 then uint x else uint x - 4294967296)"
proof -
  have u: "0 \<le> uint x" "uint x < 4294967296" using unsigned_less[of x, where ?'a = int] by simp_all
  have "bit (uint x) 31 = (2147483648 \<le> uint x)"
  proof -
    have "uint x div 2147483648 = (if 2147483648 \<le> uint x then 1 else 0)" using u by auto
    then show ?thesis by (simp add: bit_iff_odd)
  qed
  moreover have "take_bit 32 (uint x) = uint x" using u by (simp add: take_bit_int_eq_self_iff)
  ultimately show ?thesis by (simp add: sint_uint signed_take_bit_eq_take_bit_minus)
qed


end
