(* ===== verification/Spec2Isabelle.thy ===== *)
theory Spec2Isabelle
  imports Bitmap Ibuf Attr_Correct Rde_Update Pset_Roa Rib_Decision Aspa_Correct Community_Wire Session_Stream Session_Negotiate Session_Faults Filter_Correct
begin

text \<open>
  A verification development for OpenBGPD (usr.sbin/bgpd) and the library code it rests on.
\<close>

end
